(* ===== verification/Prelude.thy ===== *)
theory Prelude
  imports Main "HOL-Library.List_Lexorder" "HOL-Library.Char_ord" "HOL-Library.Word"
    "HOL-Library.Sublist"
begin

text \<open>
  Shared vocabulary of the development.  A \<^verbatim>\<open>std::string\<close> or a \<^verbatim>\<open>std::string_view\<close> is a
  \<^typ>\<open>string\<close>: an Isabelle \<^typ>\<open>char\<close> is one byte, and the order of \<open>Char_ord\<close> lifted by
  \<open>List_Lexorder\<close> is the unsigned lexicographic byte order that \<^verbatim>\<open>operator<\<close> of the C++ string
  classes implements.  Sorted key/value sequences are association lists in strictly ascending
  key order; \<open>sput\<close> and \<open>sdel\<close> are the reference insertion and deletion on them, and
  \<open>map_of\<close> is the map they denote.  \<open>bsearch\<close> is the half-interval loop that the source
  repeats in the data block, the index block and the manifest level.
\<close>

type_synonym bytes = string
type_synonym entry = "bytes \<times> bytes"

named_theorems codec_simps \<open>equations of the text codec on constructors\<close>
named_theorems sorted_simps \<open>facts on strictly sorted association lists\<close>
named_theorems size_simps \<open>equations for the sizes of encoded objects\<close>

subsection \<open>Strictly sorted association lists\<close>

definition sorted_keys :: "('k::linorder \<times> 'v) list \<Rightarrow> bool" where
  "sorted_keys es = sorted_wrt (<) (map fst es)"

fun sput :: "'k::linorder \<Rightarrow> 'v \<Rightarrow> ('k \<times> 'v) list \<Rightarrow> ('k \<times> 'v) list" where
  "sput k v [] = [(k, v)]"
| "sput k v ((a, b) # es) =
     (if k < a then (k, v) # (a, b) # es
      else if k = a then (k, v) # es
      else (a, b) # sput k v es)"

fun sdel :: "'k::linorder \<Rightarrow> ('k \<times> 'v) list \<Rightarrow> ('k \<times> 'v) list" where
  "sdel k [] = []"
| "sdel k ((a, b) # es) = (if k = a then es else (a, b) # sdel k es)"

subsection \<open>The half-interval search loop\<close>

text \<open>
  \<^verbatim>\<open>while (l < r) { mid = (l + r) >> 1; if (P mid) l = mid + 1; else r = mid; }\<close>, whose result
  is the common final value of \<open>l\<close> and \<open>r\<close>.
\<close>

function bsearch :: "(nat \<Rightarrow> bool) \<Rightarrow> nat \<Rightarrow> nat \<Rightarrow> nat" where
  "bsearch P l r =
     (if l < r
      then (let mid = (l + r) div 2 in if P mid then bsearch P (mid + 1) r else bsearch P l mid)
      else r)"
  by pat_completeness auto
termination
  by (relation "measure (\<lambda>(P, l, r). r - l)") auto

declare bsearch.simps [simp del]

subsection \<open>Lemmas on strictly sorted association lists\<close>

lemma sorted_keys_Nil [simp, sorted_simps]: "sorted_keys []"
  by (simp add: sorted_keys_def)

lemma sorted_keys_Cons [simp, sorted_simps]:
  "sorted_keys ((a, b) # es) \<longleftrightarrow> (\<forall>x \<in> fst ` set es. a < x) \<and> sorted_keys es"
  by (auto simp: sorted_keys_def)

lemma sorted_keys_append [sorted_simps]:
  "sorted_keys (xs @ ys) \<longleftrightarrow>
     sorted_keys xs \<and> sorted_keys ys \<and> (\<forall>x \<in> fst ` set xs. \<forall>y \<in> fst ` set ys. x < y)"
  by (auto simp: sorted_keys_def sorted_wrt_append)

lemma sorted_keys_distinct: "sorted_keys es \<Longrightarrow> distinct (map fst es)"
  unfolding sorted_keys_def by (induction es) auto

lemma sorted_keys_nth_less:
  "sorted_keys es \<Longrightarrow> i < j \<Longrightarrow> j < length es \<Longrightarrow> fst (es ! i) < fst (es ! j)"
  unfolding sorted_keys_def by (auto dest: sorted_wrt_nth_less [where i = i and j = j])

lemma sorted_keys_nth_mono:
  "sorted_keys es \<Longrightarrow> i \<le> j \<Longrightarrow> j < length es \<Longrightarrow> fst (es ! i) \<le> fst (es ! j)"
  using sorted_keys_nth_less [of es i j] by (cases "i = j") auto

lemma set_sput_keys [simp]: "fst ` set (sput k v es) = insert k (fst ` set es)"
  by (induction k v es rule: sput.induct) auto

lemma sorted_keys_sput [simp]: "sorted_keys es \<Longrightarrow> sorted_keys (sput k v es)"
  by (induction k v es rule: sput.induct) auto

lemma map_of_sput [simp]: "map_of (sput k v es) = (map_of es)(k \<mapsto> v)"
  by (induction k v es rule: sput.induct) auto

lemma sput_not_Nil [simp]: "sput k v es \<noteq> []"
  by (induction k v es rule: sput.induct) auto

lemma set_sdel_subset: "set (sdel k es) \<subseteq> set es"
  by (induction k es rule: sdel.induct) auto

lemma sorted_keys_sdel [simp]: "sorted_keys es \<Longrightarrow> sorted_keys (sdel k es)"
  by (induction k es rule: sdel.induct) (use set_sdel_subset in fastforce)+

lemma sdel_notin: "k \<notin> fst ` set es \<Longrightarrow> sdel k es = es"
  by (induction k es rule: sdel.induct) auto

lemma map_of_sdel: "sorted_keys es \<Longrightarrow> map_of (sdel k es) = (map_of es)(k := None)"
proof (induction k es rule: sdel.induct)
  case (2 k a b es)
  have "map_of es a = None"
    using 2(2) by (auto simp: map_of_eq_None_iff)
  then show ?case using 2 by auto
qed simp

lemma sput_append_right:
  "\<forall>x \<in> fst ` set xs. x < k \<Longrightarrow> sput k v (xs @ ys) = xs @ sput k v ys"
  by (induction xs) (auto simp: not_less_iff_gr_or_eq)

lemma sdel_append_right:
  "\<forall>x \<in> fst ` set xs. x < k \<Longrightarrow> sdel k (xs @ ys) = xs @ sdel k ys"
  by (induction xs) auto

lemma map_of_sorted_nth:
  "sorted_keys es \<Longrightarrow> i < length es \<Longrightarrow> map_of es (fst (es ! i)) = Some (snd (es ! i))"
  by (simp add: sorted_keys_distinct)

lemma sorted_keys_hd_le: "sorted_keys es \<Longrightarrow> x \<in> fst ` set es \<Longrightarrow> fst (hd es) \<le> x"
  by (cases es) (fastforce intro: less_imp_le)+

lemma sorted_keys_le_last: "sorted_keys es \<Longrightarrow> x \<in> fst ` set es \<Longrightarrow> x \<le> fst (last es)"
  by (induction es rule: rev_induct) (fastforce simp: sorted_keys_append intro: less_imp_le)+

text \<open>A sorted association list is determined by its map; \<open>smerge\<close> is the one of a list whose first binding wins.\<close>

definition smerge :: "('k::linorder \<times> 'v) list \<Rightarrow> ('k \<times> 'v) list" where
  "smerge es = foldr (\<lambda>(k, v). sput k v) es []"

lemma smerge_Cons: "smerge ((k, v) # es) = sput k v (smerge es)"
  by (simp add: smerge_def)

lemma sorted_keys_smerge [simp]: "sorted_keys (smerge es)"
  by (induction es) (auto simp: smerge_Cons, simp add: smerge_def)

lemma map_of_smerge [simp]: "map_of (smerge es) = map_of es"
  by (induction es) (auto simp: smerge_Cons, simp add: smerge_def)

lemma keys_smerge [simp]: "fst ` set (smerge es) = fst ` set es"
  using map_of_smerge [of es] by (metis dom_map_of_conv_image_fst)

lemma set_smerge: "set (smerge es) \<subseteq> set es"
proof
  fix x assume "x \<in> set (smerge es)"
  then have "map_of (smerge es) (fst x) = Some (snd x)"
    using sorted_keys_distinct [OF sorted_keys_smerge, of es] by (metis map_of_is_SomeI prod.collapse)
  then show "x \<in> set es" using map_of_SomeD [of es "fst x" "snd x"] by simp
qed

lemma sorted_keys_unique:
  "sorted_keys xs \<Longrightarrow> sorted_keys ys \<Longrightarrow> map_of xs = map_of ys \<Longrightarrow> xs = ys"
proof -
  assume a: "sorted_keys xs" "sorted_keys ys" "map_of xs = map_of ys"
  have "set xs = set ys"
    using a map_of_is_SomeI [OF sorted_keys_distinct] map_of_SomeD by (metis subsetI subset_antisym surj_pair)
  then have "map fst xs = map fst ys"
    using a(1,2) unfolding sorted_keys_def
    by (metis list.set_map strict_sorted_equal)
  moreover have "map (\<lambda>k. (k, the (map_of zs k))) (map fst zs) = zs"
    if "sorted_keys zs" for zs :: "('a \<times> 'b) list"
    using sorted_keys_distinct [OF that] by (auto intro!: map_idI)
  ultimately show "xs = ys" using a by metis
qed

subsection \<open>Correctness of the search loop\<close>

text \<open>A predicate that holds on an initial segment of the indices below \<open>n\<close>.\<close>

definition segment :: "(nat \<Rightarrow> bool) \<Rightarrow> nat \<Rightarrow> bool" where
  "segment P n = (\<forall>i j. i \<le> j \<longrightarrow> j < n \<longrightarrow> P j \<longrightarrow> P i)"

lemma bsearch_done: "\<not> l < r \<Longrightarrow> bsearch P l r = r"
  by (simp add: bsearch.simps)

lemma bsearch_left:
  "l < r \<Longrightarrow> P ((l + r) div 2) \<Longrightarrow> bsearch P l r = bsearch P ((l + r) div 2 + 1) r"
  by (subst bsearch.simps) (simp add: Let_def)

lemma bsearch_right:
  "l < r \<Longrightarrow> \<not> P ((l + r) div 2) \<Longrightarrow> bsearch P l r = bsearch P l ((l + r) div 2)"
  by (subst bsearch.simps) (simp add: Let_def)

lemma bsearch_induct [case_names stop left right]:
  fixes P :: "nat \<Rightarrow> bool"
  assumes "\<And>l r. \<not> l < r \<Longrightarrow> Q l r"
    and "\<And>l r. l < r \<Longrightarrow> P ((l + r) div 2) \<Longrightarrow> Q ((l + r) div 2 + 1) r \<Longrightarrow> Q l r"
    and "\<And>l r. l < r \<Longrightarrow> \<not> P ((l + r) div 2) \<Longrightarrow> Q l ((l + r) div 2) \<Longrightarrow> Q l r"
  shows "Q l r"
  using assms by (induction P l r rule: bsearch.induct) metis

lemma bsearch_bounds: "l \<le> r \<Longrightarrow> l \<le> bsearch P l r \<and> bsearch P l r \<le> r"
proof (induction l r rule: bsearch_induct [where P = P])
  case (left l r)
  have "(l + r) div 2 + 1 \<le> r" "l \<le> (l + r) div 2" using left by auto
  with left.IH show ?case
    unfolding bsearch_left [of l r P, OF left.hyps] by linarith
next
  case (right l r)
  have "l \<le> (l + r) div 2" "(l + r) div 2 \<le> r" using right by auto
  with right.IH show ?case
    unfolding bsearch_right [of l r P, OF right.hyps] by linarith
qed (simp add: bsearch_done)

lemma bsearch_sep:
  assumes "segment P n" "r \<le> n" "l \<le> r" "\<forall>i < l. P i" "\<forall>i. r \<le> i \<longrightarrow> i < n \<longrightarrow> \<not> P i"
  shows "(\<forall>i < bsearch P l r. P i) \<and> (\<forall>i. bsearch P l r \<le> i \<longrightarrow> i < n \<longrightarrow> \<not> P i)"
  using assms
proof (induction l r rule: bsearch_induct [where P = P])
  case (left l r)
  have "(l + r) div 2 + 1 \<le> r" "(l + r) div 2 < n"
    using left.hyps(1) left.prems(2) by auto
  moreover have "\<forall>i < (l + r) div 2 + 1. P i"
    using left.hyps(2) left.prems(1) \<open>(l + r) div 2 < n\<close>
    unfolding segment_def by (metis less_Suc_eq_le Suc_eq_plus1)
  ultimately show ?case
    unfolding bsearch_left [of l r P, OF left.hyps] using left.IH left.prems by blast
next
  case (right l r)
  have "l \<le> (l + r) div 2" "(l + r) div 2 \<le> n"
    using right.hyps(1) right.prems(2) by auto
  moreover have "\<forall>i. (l + r) div 2 \<le> i \<longrightarrow> i < n \<longrightarrow> \<not> P i"
    using right.hyps(2) right.prems(1) unfolding segment_def by blast
  ultimately show ?case
    unfolding bsearch_right [of l r P, OF right.hyps] using right.IH right.prems by blast
qed (auto simp: bsearch_done)

lemma bsearch_le: "bsearch P 0 n \<le> n"
  using bsearch_bounds [of 0 n P] by simp

lemma bsearch_below: "segment P n \<Longrightarrow> i < bsearch P 0 n \<Longrightarrow> P i"
  using bsearch_sep [of P n n 0] by auto

lemma bsearch_above: "segment P n \<Longrightarrow> bsearch P 0 n \<le> i \<Longrightarrow> i < n \<Longrightarrow> \<not> P i"
  using bsearch_sep [of P n n 0] by auto

lemma bsearch_cong:
  "\<forall>i. l \<le> i \<longrightarrow> i < r \<longrightarrow> P i = Q i \<Longrightarrow> bsearch P l r = bsearch Q l r"
proof (induction l r rule: bsearch_induct [where P = P])
  case (stop l r)
  then show ?case by (simp add: bsearch_done)
next
  case (left l r)
  have "Q ((l + r) div 2)" using left.hyps left.prems by auto
  moreover have "\<forall>i. (l + r) div 2 + 1 \<le> i \<longrightarrow> i < r \<longrightarrow> P i = Q i" using left.prems by auto
  ultimately show ?case
    using left.IH bsearch_left [of l r P, OF left.hyps] bsearch_left [of l r Q, OF left.hyps(1)] by simp
next
  case (right l r)
  have "\<not> Q ((l + r) div 2)" using right.hyps right.prems by auto
  moreover have "\<forall>i. l \<le> i \<longrightarrow> i < (l + r) div 2 \<longrightarrow> P i = Q i" using right.prems by auto
  ultimately show ?case
    using right.IH bsearch_right [of l r P, OF right.hyps] bsearch_right [of l r Q, OF right.hyps(1)] by simp
qed

text \<open>The loop run on the keys of a sorted association list finds the binding of a key.\<close>

lemma segment_less: "sorted_keys es \<Longrightarrow> segment (\<lambda>i. fst (es ! i) < k) (length es)"
  unfolding segment_def using sorted_keys_nth_mono by fastforce

lemma bsearch_sorted:
  fixes k :: "'k::linorder" and es :: "('k \<times> 'v) list"
  assumes "sorted_keys es"
  defines "r \<equiv> bsearch (\<lambda>i. fst (es ! i) < k) 0 (length es)"
  shows "map_of es k = (if r = length es \<or> fst (es ! r) \<noteq> k then None else Some (snd (es ! r)))"
proof (cases "r = length es \<or> fst (es ! r) \<noteq> k")
  case True
  have "k \<notin> fst ` set es"
  proof
    assume "k \<in> fst ` set es"
    then obtain i where i: "i < length es" "fst (es ! i) = k" by (auto simp: in_set_conv_nth)
    have "\<not> i < r" using bsearch_below [of "\<lambda>i. fst (es ! i) < k" "length es" i] i segment_less [OF assms(1)]
      unfolding r_def by auto
    moreover have "r \<noteq> i" using True i by auto
    ultimately have "r < i" by simp
    then have "fst (es ! r) < k" using sorted_keys_nth_less [OF assms(1), of r i] i by simp
    moreover have "\<not> fst (es ! r) < k"
      using bsearch_above [OF segment_less [OF assms(1)], of k r] \<open>r < i\<close> i(1) unfolding r_def by simp
    ultimately show False by simp
  qed
  then show ?thesis using True by (simp add: map_of_eq_None_iff)
next
  case False
  then have "r < length es" using bsearch_le [of _ "length es"] unfolding r_def by (metis le_neq_implies_less)
  then show ?thesis using False map_of_sorted_nth [OF assms(1), of r] by auto
qed

end
