(* ===== verification/Bytes.thy ===== *)
theory Bytes
  imports Prelude "HOL-Library.Monad_Syntax"
begin

text \<open>
  Raw memory of \<^verbatim>\<open>src/mokv/lsm/sst.hpp\<close>: the bytes of a mapped file or of a buffer.  \<open>ReadSize\<close> and
  \<open>WriteSize\<close> move a \<^verbatim>\<open>size_t\<close> through \<^verbatim>\<open>memcpy\<close> on a little-endian 64-bit machine; a read or a
  write outside the memory is undefined behaviour and yields \<open>None\<close>.  Sizes are natural numbers;
  where the source computes with sizes it has read from a file, the wrap-around of \<^verbatim>\<open>size_t\<close> is
  written out by \<open>wrap\<close>.
\<close>

fun le_bytes :: "nat \<Rightarrow> nat \<Rightarrow> bytes" where
  "le_bytes 0 n = []"
| "le_bytes (Suc k) n = char_of n # le_bytes k (n div 256)"

fun le_val :: "bytes \<Rightarrow> nat" where
  "le_val [] = 0"
| "le_val (c # cs) = of_char c + 256 * le_val cs"

abbreviation size_max :: nat where "size_max \<equiv> 2 ^ 64"

definition wrap :: "nat \<Rightarrow> nat" where
  "wrap n = n mod size_max"

definition wrap_sub :: "nat \<Rightarrow> nat \<Rightarrow> nat" where
  "wrap_sub a b = (if b \<le> a then a - b else a + size_max - b)"

definition read_bytes :: "bytes \<Rightarrow> nat \<Rightarrow> nat \<Rightarrow> bytes option" where
  "read_bytes mem off n = (if off + n \<le> length mem then Some (take n (drop off mem)) else None)"

definition ReadSize :: "bytes \<Rightarrow> nat \<Rightarrow> nat option" where
  "ReadSize mem off = map_option le_val (read_bytes mem off 8)"

definition ReadUInt32 :: "bytes \<Rightarrow> nat \<Rightarrow> nat option" where
  "ReadUInt32 mem off = map_option le_val (read_bytes mem off 4)"

definition write_bytes :: "bytes \<Rightarrow> nat \<Rightarrow> bytes \<Rightarrow> bytes option" where
  "write_bytes mem off bs =
     (if off + length bs \<le> length mem then Some (take off mem @ bs @ drop (off + length bs) mem) else None)"

definition WriteSize :: "bytes \<Rightarrow> nat \<Rightarrow> nat \<Rightarrow> bytes option" where
  "WriteSize mem off n = write_bytes mem off (le_bytes 8 n)"

definition WriteUInt32 :: "bytes \<Rightarrow> nat \<Rightarrow> nat \<Rightarrow> bytes option" where
  "WriteUInt32 mem off n = write_bytes mem off (le_bytes 4 n)"

text \<open>\<^verbatim>\<open>ftruncate\<close> to a size: the old bytes cut off or extended by zero bytes.\<close>

definition resize_bytes :: "bytes \<Rightarrow> nat \<Rightarrow> bytes" where
  "resize_bytes old n = take n old @ replicate (n - length old) (CHR 0x00)"

subsection \<open>Encoding and decoding\<close>

lemma length_le_bytes [simp, size_simps]: "length (le_bytes k n) = k"
  by (induction k arbitrary: n) auto

lemma le_bytes_append: "le_bytes (a + b) n = le_bytes a n @ le_bytes b (n div 256 ^ a)"
  by (induction a arbitrary: n) (auto simp: div_mult2_eq)

lemma le_val_le_bytes: "le_val (le_bytes k n) = n mod 256 ^ k"
proof (induction k arbitrary: n)
  case (Suc k)
  have "le_val (le_bytes (Suc k) n) = n mod 256 + 256 * (n div 256 mod 256 ^ k)"
    using Suc by simp
  also have "\<dots> = n mod (256 * 256 ^ k)" by (metis add.commute mod_mult2_eq)
  finally show ?case by simp
qed simp

lemma le_val_size: "n < size_max \<Longrightarrow> le_val (le_bytes 8 n) = n"
  by (simp add: le_val_le_bytes)

lemma wrap_small [simp]: "n < size_max \<Longrightarrow> wrap n = n"
  by (simp add: wrap_def)

lemma wrap_sub_le [simp]: "b \<le> a \<Longrightarrow> wrap_sub a b = a - b"
  by (simp add: wrap_sub_def)

lemma length_resize_bytes [simp, size_simps]: "length (resize_bytes old n) = n"
  by (simp add: resize_bytes_def)

subsection \<open>Reads at a position that follows a known prefix\<close>

lemma read_bytes_at: "n = length bs \<Longrightarrow> off = length pre \<Longrightarrow> read_bytes (pre @ bs @ rest) off n = Some bs"
  by (simp add: read_bytes_def)

lemma ReadSize_at:
  "off = length pre \<Longrightarrow> n < size_max \<Longrightarrow> ReadSize (pre @ le_bytes 8 n @ rest) off = Some n"
  by (simp add: ReadSize_def read_bytes_at le_val_size)

lemma ReadUInt32_at:
  "off = length pre \<Longrightarrow> n < 2 ^ 32 \<Longrightarrow> ReadUInt32 (pre @ le_bytes 4 n @ rest) off = Some n"
  by (simp add: ReadUInt32_def read_bytes_at le_val_le_bytes)

lemma ReadUInt32_low:
  "off = length pre \<Longrightarrow> n < 2 ^ 32 \<Longrightarrow> ReadUInt32 (pre @ le_bytes 8 n @ rest) off = Some n"
  using ReadUInt32_at [of off pre n "le_bytes 4 (n div 256 ^ 4) @ rest"] le_bytes_append [of 4 4 n] by simp

subsection \<open>Filling a buffer from left to right\<close>

text \<open>
  \<open>filled mem pre\<close>: the bytes written so far are a prefix of the memory.  A write at the end of
  the prefix extends it; skipping bytes extends it by whatever the memory held there.
\<close>

definition filled :: "bytes \<Rightarrow> bytes \<Rightarrow> bool" where
  "filled mem pre = prefix pre mem"

lemma filled_Nil: "filled mem []"
  by (simp add: filled_def)

lemma filled_write:
  assumes "filled mem pre" "off = length pre" "off + length bs \<le> length mem"
  obtains mem' where "write_bytes mem off bs = Some mem'" "filled mem' (pre @ bs)"
    "length mem' = length mem"
proof -
  obtain post where mem: "mem = pre @ post" using assms(1) by (auto simp: filled_def elim: prefixE)
  show thesis
    using that [of "pre @ bs @ drop (length bs) post"] assms(2,3) mem
    by (simp add: write_bytes_def filled_def)
qed

lemma filled_skip:
  assumes "filled mem pre" "length pre + n \<le> length mem"
  obtains gap where "length gap = n" "filled mem (pre @ gap)"
proof -
  obtain post where mem: "mem = pre @ post" using assms(1) by (auto simp: filled_def elim: prefixE)
  show thesis
  proof (rule that [of "take n post"])
    show "filled mem (pre @ take n post)"
      unfolding filled_def mem by (simp add: take_is_prefix)
  qed (use assms(2) mem in simp)
qed

lemma filled_complete: "filled mem pre \<Longrightarrow> length mem = length pre \<Longrightarrow> mem = pre"
  by (auto simp: filled_def elim: prefixE)

end
