(* ===== verification/BloomFilter.thy ===== *)
theory BloomFilter
  imports Bytes
begin

unbundle bit_operations_syntax

text \<open>
  The Bloom filter of \<^verbatim>\<open>src/mokv/utils/bloom_filter.hpp\<close>: 64-bit polynomial hashes, a bit array of
  64-bit words, and the serialised form with its alignment padding.  The two numbers that
  \<^verbatim>\<open>Init\<close> derives by floating-point arithmetic (the truncated value in \<^verbatim>\<open>CalcLength\<close> and
  \<^verbatim>\<open>int(0.69 * length_ / n)\<close>) are arguments of the model, so every result holds for each outcome
  of that arithmetic.  The lemmas show that an inserted key is always reported, that insertion
  keeps earlier keys, and that \<open>bf_Load\<close> inverts \<open>bf_Save\<close>.
\<close>

record bloom =
  bf_length :: nat
  bf_hash_num :: nat
  bf_seed :: "64 word list"
  bf_data :: "64 word list"

text \<open>\<^verbatim>\<open>static_cast<size_t>(s[i])\<close>: a \<^verbatim>\<open>char\<close> is signed, so the conversion extends the sign.\<close>

definition char_size :: "char \<Rightarrow> 64 word" where
  "char_size c = scast (of_nat (of_char c) :: 8 word)"

definition CalcHash :: "string \<Rightarrow> 64 word \<Rightarrow> 64 word" where
  "CalcHash s seed = foldl (\<lambda>res c. res * seed + char_size c) 0 s"

definition bf_key :: "bloom \<Rightarrow> string \<Rightarrow> 64 word \<Rightarrow> nat" where
  "bf_key bf s seed = unat (CalcHash s seed) mod bf_length bf"

fun draw_seeds :: "nat \<Rightarrow> 64 word \<Rightarrow> 64 word list \<times> 64 word" where
  "draw_seeds 0 counter = ([], counter)"
| "draw_seeds (Suc n) counter =
     (case draw_seeds n (counter + 1) of (ss, c) \<Rightarrow> (counter # ss, c))"

definition bf_Init :: "nat \<Rightarrow> int \<Rightarrow> 64 word \<Rightarrow> bloom \<times> 64 word" where
  "bf_Init trunc_length trunc_hash_num counter =
     (let len = trunc_length + 1;
          hash_num = nat (max 1 trunc_hash_num);
          (seeds, counter') = draw_seeds hash_num counter
      in (\<lparr>bf_length = len, bf_hash_num = hash_num, bf_seed = seeds,
           bf_data = replicate (len div 64 + 1) 0\<rparr>, counter'))"

definition set_hash_bit :: "nat \<Rightarrow> 64 word list \<Rightarrow> 64 word list" where
  "set_hash_bit key ws = ws[key div 64 := (ws ! (key div 64)) OR push_bit (key mod 64) 1]"

definition bf_Insert :: "bloom \<Rightarrow> string \<Rightarrow> bloom" where
  "bf_Insert bf s =
     bf\<lparr>bf_data := fold (\<lambda>seed ws. set_hash_bit (bf_key bf s seed) ws) (bf_seed bf) (bf_data bf)\<rparr>"

definition bf_Check :: "bloom \<Rightarrow> string \<Rightarrow> bool" where
  "bf_Check bf s =
     list_all (\<lambda>seed. (bf_data bf ! (bf_key bf s seed div 64)) AND push_bit (bf_key bf s seed mod 64) 1 \<noteq> 0)
       (bf_seed bf)"

definition bf_binary_size :: "bloom \<Rightarrow> nat" where
  "bf_binary_size bf =
     (let index = length (bf_seed bf) * 8 + 2 * 8;
          align = 8 - index mod 8
      in length (bf_seed bf) * 8 + 2 * 8 + length (bf_data bf) * 8 + align)"

subsection \<open>Serialisation\<close>

fun write_words :: "bytes \<Rightarrow> nat \<Rightarrow> 64 word list \<Rightarrow> bytes option" where
  "write_words mem index [] = Some mem"
| "write_words mem index (w # ws) =
     do { mem \<leftarrow> WriteSize mem index (unat w); write_words mem (index + 8) ws }"

fun read_words :: "bytes \<Rightarrow> nat \<Rightarrow> nat \<Rightarrow> 64 word list option" where
  "read_words mem index 0 = Some []"
| "read_words mem index (Suc n) =
     do { w \<leftarrow> ReadSize mem index; ws \<leftarrow> read_words mem (index + 8) n; Some (of_nat w # ws) }"

text \<open>
  \<open>bf_Save mem s bf\<close> writes at offset \<open>s\<close> and returns the number of bytes that the object spans;
  the padding bytes are left as they are.
\<close>

definition bf_Save :: "bytes \<Rightarrow> nat \<Rightarrow> bloom \<Rightarrow> (bytes \<times> nat) option" where
  "bf_Save mem s bf =
     do { mem \<leftarrow> WriteSize mem s (bf_hash_num bf);
          mem \<leftarrow> WriteSize mem (s + 8) (bf_length bf);
          mem \<leftarrow> write_words mem (s + 16) (bf_seed bf);
          let index = 16 + 8 * bf_hash_num bf;
          let index = index + (8 - index mod 8);
          mem \<leftarrow> write_words mem (s + index) (bf_data bf);
          Some (mem, index + 8 * length (bf_data bf)) }"

definition bf_Load :: "bytes \<Rightarrow> nat \<Rightarrow> (bloom \<times> nat) option" where
  "bf_Load mem s =
     do { hash_num \<leftarrow> ReadSize mem s;
          len \<leftarrow> ReadSize mem (s + 8);
          seeds \<leftarrow> read_words mem (s + 16) hash_num;
          let size = len div 64 + 1;
          let index = 16 + 8 * hash_num;
          let index = index + (8 - index mod 8);
          ws \<leftarrow> read_words mem (s + index) size;
          Some (\<lparr>bf_length = len, bf_hash_num = hash_num, bf_seed = seeds, bf_data = ws\<rparr>,
                index + 8 * size) }"

subsection \<open>No false negatives\<close>

definition bf_wf :: "bloom \<Rightarrow> bool" where
  "bf_wf bf = (0 < bf_length bf \<and> length (bf_data bf) = bf_length bf div 64 + 1 \<and>
     length (bf_seed bf) = bf_hash_num bf \<and> 0 < bf_hash_num bf)"

definition bit_set :: "nat \<Rightarrow> 64 word list \<Rightarrow> bool" where
  "bit_set key ws = bit (ws ! (key div 64)) (key mod 64)"

lemma and_exp_iff: "(w :: 64 word) AND 2 ^ n = 0 \<longleftrightarrow> \<not> bit w n"
  by (simp add: and_exp_eq_0_iff_not_bit)

lemma bit_or_exp_iff:
  "m < 64 \<Longrightarrow> n < 64 \<Longrightarrow> bit ((w :: 64 word) OR 2 ^ m) n \<longleftrightarrow> bit w n \<or> m = n"
  by (auto simp: bit_or_iff bit_exp_iff)

lemma bf_Check_alt:
  "bf_Check bf s \<longleftrightarrow> (\<forall>seed \<in> set (bf_seed bf). bit_set (bf_key bf s seed) (bf_data bf))"
  by (simp add: bf_Check_def list_all_iff bit_set_def and_exp_iff)

lemma length_set_hash_bit [simp]: "length (set_hash_bit key ws) = length ws"
  by (simp add: set_hash_bit_def)

lemma bit_set_set_hash_bit:
  "key div 64 < length ws \<Longrightarrow> bit_set k (set_hash_bit key ws) \<longleftrightarrow> k = key \<or> bit_set k ws"
proof -
  assume a: "key div 64 < length ws"
  have split: "k = key \<longleftrightarrow> k div 64 = key div 64 \<and> k mod 64 = key mod 64"
    by (metis div_mult_mod_eq)
  show ?thesis
    using a by (auto simp: bit_set_def set_hash_bit_def nth_list_update split bit_or_exp_iff)
qed

lemma fold_set_hash_bit:
  assumes "\<And>x. x \<in> set xs \<Longrightarrow> f x div 64 < length ws"
  shows "length (fold (\<lambda>x. set_hash_bit (f x)) xs ws) = length ws \<and>
    (\<forall>k. bit_set k (fold (\<lambda>x. set_hash_bit (f x)) xs ws) \<longleftrightarrow> k \<in> f ` set xs \<or> bit_set k ws)"
  using assms by (induction xs arbitrary: ws) (auto simp: bit_set_set_hash_bit)

lemma bf_key_bound: "bf_wf bf \<Longrightarrow> bf_key bf s seed div 64 < length (bf_data bf)"
  by (auto simp: bf_wf_def bf_key_def less_Suc_eq_le intro: div_le_mono less_imp_le)

lemma bf_key_update [simp]: "bf_key (bf\<lparr>bf_data := d\<rparr>) s seed = bf_key bf s seed"
  by (simp add: bf_key_def)

lemma bf_Insert_data:
  assumes "bf_wf bf"
  shows "length (bf_data (bf_Insert bf s)) = length (bf_data bf)"
    "bit_set k (bf_data (bf_Insert bf s)) \<longleftrightarrow> k \<in> bf_key bf s ` set (bf_seed bf) \<or> bit_set k (bf_data bf)"
  using fold_set_hash_bit [of "bf_seed bf" "bf_key bf s" "bf_data bf"] bf_key_bound [OF assms]
  by (auto simp: bf_Insert_def)

lemma bf_wf_Insert: "bf_wf bf \<Longrightarrow> bf_wf (bf_Insert bf s)"
  using bf_Insert_data(1) [of bf s] by (auto simp: bf_wf_def bf_Insert_def)

lemma bf_key_Insert [simp]: "bf_key (bf_Insert bf t) s seed = bf_key bf s seed"
  "bf_seed (bf_Insert bf t) = bf_seed bf"
  by (simp_all add: bf_Insert_def)

lemma bf_Check_Insert: "bf_wf bf \<Longrightarrow> bf_Check (bf_Insert bf s) s"
  by (auto simp: bf_Check_alt bf_Insert_data)

lemma bf_Check_mono: "bf_wf bf \<Longrightarrow> bf_Check bf t \<Longrightarrow> bf_Check (bf_Insert bf s) t"
  by (auto simp: bf_Check_alt bf_Insert_data)

definition bf_insert_all :: "string list \<Rightarrow> bloom \<Rightarrow> bloom" where
  "bf_insert_all keys bf = fold (\<lambda>k b. bf_Insert b k) keys bf"

lemma bf_insert_all_props:
  "bf_wf bf \<Longrightarrow> bf_wf (bf_insert_all keys bf) \<and> (\<forall>t. bf_Check bf t \<or> t \<in> set keys \<longrightarrow>
     bf_Check (bf_insert_all keys bf) t)"
  unfolding bf_insert_all_def
proof (induction keys arbitrary: bf)
  case (Cons k keys)
  then show ?case
    using Cons.IH [of "bf_Insert bf k"] bf_wf_Insert bf_Check_Insert bf_Check_mono by fastforce
qed simp

lemma bf_insert_all_frame:
  "bf_length (bf_insert_all keys bf) = bf_length bf"
  "bf_hash_num (bf_insert_all keys bf) = bf_hash_num bf"
  "bf_seed (bf_insert_all keys bf) = bf_seed bf"
  unfolding bf_insert_all_def by (induction keys arbitrary: bf) (auto simp: bf_Insert_def)

lemma length_draw_seeds: "length (fst (draw_seeds n c)) = n"
  by (induction n arbitrary: c) (auto split: prod.splits, metis fst_conv)

lemma bf_wf_Init: "bf_wf (fst (bf_Init n h c))"
  using length_draw_seeds [of "nat (max 1 h)" c]
  by (auto simp: bf_wf_def bf_Init_def Let_def split: prod.splits)

subsection \<open>The serialised form and its round trip\<close>

definition word_bytes :: "64 word list \<Rightarrow> bytes" where
  "word_bytes ws = concat (map (\<lambda>w. le_bytes 8 (unat w)) ws)"

text \<open>The bytes of a filter, with the eight alignment bytes \<open>pad\<close> that \<^verbatim>\<open>Save\<close> skips.\<close>

definition bf_bytes :: "bloom \<Rightarrow> bytes \<Rightarrow> bytes" where
  "bf_bytes bf pad = le_bytes 8 (bf_hash_num bf) @ le_bytes 8 (bf_length bf) @
     word_bytes (bf_seed bf) @ pad @ word_bytes (bf_data bf)"

lemma word_bytes_simps [simp]:
  "word_bytes [] = []" "word_bytes (w # ws) = le_bytes 8 (unat w) @ word_bytes ws"
  by (simp_all add: word_bytes_def)

lemma length_word_bytes [simp, size_simps]: "length (word_bytes ws) = 8 * length ws"
  by (induction ws) auto

lemma align_pad: "(8::nat) - (16 + 8 * n) mod 8 = 8" "(8::nat) - (n * 8 + 16) mod 8 = 8"
  by presburger+

lemma bf_binary_size_alt: "bf_wf bf \<Longrightarrow> bf_binary_size bf = 24 + 8 * bf_hash_num bf + 8 * length (bf_data bf)"
  by (simp add: bf_binary_size_def Let_def bf_wf_def align_pad)

lemma length_bf_bytes [size_simps]:
  "bf_wf bf \<Longrightarrow> length pad = 8 \<Longrightarrow> length (bf_bytes bf pad) = bf_binary_size bf"
  by (simp add: bf_bytes_def bf_binary_size_alt) (simp add: bf_wf_def)

lemma write_words_filled:
  assumes "filled mem pre" "length pre + 8 * length ws \<le> length mem"
  shows "\<exists>mem'. write_words mem (length pre) ws = Some mem' \<and> filled mem' (pre @ word_bytes ws) \<and>
    length mem' = length mem"
  using assms
proof (induction ws arbitrary: mem pre)
  case (Cons w ws)
  obtain m1 where m1: "write_bytes mem (length pre) (le_bytes 8 (unat w)) = Some m1"
    "filled m1 (pre @ le_bytes 8 (unat w))" "length m1 = length mem"
    using filled_write [OF Cons.prems(1), of "length pre" "le_bytes 8 (unat w)"] Cons.prems(2) by auto
  show ?case
    using Cons.IH [OF m1(2)] m1(1,3) Cons.prems(2) by (simp add: WriteSize_def)
qed simp

lemma read_words_at:
  "read_words (pre @ word_bytes ws @ rest) (length pre) (length ws) = Some ws"
proof (induction ws arbitrary: pre)
  case (Cons w ws)
  have "ReadSize (pre @ word_bytes (w # ws) @ rest) (length pre) = Some (unat w)"
    using ReadSize_at [of "length pre" pre "unat w" "word_bytes ws @ rest"] unsigned_less [of w] by simp
  then show ?case using Cons.IH [of "pre @ le_bytes 8 (unat w)"] by simp
qed simp

lemma WriteSize_filled:
  assumes "filled mem pre" "off = length pre" "off + 8 \<le> length mem"
  shows "\<exists>mem'. WriteSize mem off n = Some mem' \<and> filled mem' (pre @ le_bytes 8 n) \<and>
    length mem' = length mem"
  using filled_write [OF assms(1,2), of "le_bytes 8 n"] assms(3) unfolding WriteSize_def by auto

lemma bf_Save_filled:
  assumes f: "filled mem pre" and wf: "bf_wf bf" and fits: "length pre + bf_binary_size bf \<le> length mem"
  shows "\<exists>mem' pad. bf_Save mem (length pre) bf = Some (mem', bf_binary_size bf) \<and> length pad = 8 \<and>
    filled mem' (pre @ bf_bytes bf pad) \<and> length mem' = length mem"
proof -
  note size = bf_binary_size_alt [OF wf]
  have seeds: "length (bf_seed bf) = bf_hash_num bf" using wf by (simp add: bf_wf_def)
  obtain m1 where m1: "WriteSize mem (length pre) (bf_hash_num bf) = Some m1"
    "filled m1 (pre @ le_bytes 8 (bf_hash_num bf))" "length m1 = length mem"
    using WriteSize_filled [OF f refl] fits size by fastforce
  obtain m2 where m2: "WriteSize m1 (length pre + 8) (bf_length bf) = Some m2"
    "filled m2 (pre @ le_bytes 8 (bf_hash_num bf) @ le_bytes 8 (bf_length bf))" "length m2 = length mem"
    using WriteSize_filled [OF m1(2), of "length pre + 8" "bf_length bf"] fits size m1(3) by auto
  obtain m3 where m3: "write_words m2 (length pre + 16) (bf_seed bf) = Some m3"
    "filled m3 (pre @ le_bytes 8 (bf_hash_num bf) @ le_bytes 8 (bf_length bf) @ word_bytes (bf_seed bf))"
    "length m3 = length mem"
    using write_words_filled [OF m2(2), of "bf_seed bf"] fits size seeds m2(3) by (auto simp: ac_simps)
  obtain pad where pad: "length pad = 8" "filled m3 (pre @ le_bytes 8 (bf_hash_num bf) @
      le_bytes 8 (bf_length bf) @ word_bytes (bf_seed bf) @ pad)"
    using filled_skip [OF m3(2), of 8] fits size seeds m3(3) by auto
  obtain m4 where m4: "write_words m3 (length pre + (24 + 8 * bf_hash_num bf)) (bf_data bf) = Some m4"
    "filled m4 (pre @ bf_bytes bf pad)" "length m4 = length mem"
    using write_words_filled [OF pad(2), of "bf_data bf"] fits size seeds m3(3) pad(1)
    by (auto simp: ac_simps bf_bytes_def)
  show ?thesis
    using m1(1) m2(1) m3(1) m4 pad(1) size
    by (intro exI [of _ m4] exI [of _ pad]) (simp add: bf_Save_def Let_def align_pad add.assoc)
qed

lemma bf_Load_at:
  assumes wf: "bf_wf bf" and small: "bf_binary_size bf < 2 ^ 60" and pad: "length pad = 8"
  shows "bf_Load (pre @ bf_bytes bf pad @ rest) (length pre) = Some (bf, bf_binary_size bf)"
proof -
  note size = bf_binary_size_alt [OF wf]
  have seeds: "length (bf_seed bf) = bf_hash_num bf" and words: "length (bf_data bf) = bf_length bf div 64 + 1"
    using wf by (simp_all add: bf_wf_def)
  have bounds: "bf_hash_num bf < size_max" "bf_length bf < size_max" using small size words by simp_all
  let ?mem = "pre @ bf_bytes bf pad @ rest"
  have "ReadSize ?mem (length pre) = Some (bf_hash_num bf)"
    using ReadSize_at [OF refl bounds(1), of pre] by (simp add: bf_bytes_def)
  moreover have "ReadSize ?mem (length pre + 8) = Some (bf_length bf)"
    using ReadSize_at [OF _ bounds(2), of "length pre + 8" "pre @ le_bytes 8 (bf_hash_num bf)"]
    by (simp add: bf_bytes_def)
  moreover have "read_words ?mem (length pre + 16) (bf_hash_num bf) = Some (bf_seed bf)"
    using read_words_at [of "pre @ le_bytes 8 (bf_hash_num bf) @ le_bytes 8 (bf_length bf)" "bf_seed bf"]
    by (simp add: bf_bytes_def seeds)
  moreover have "read_words ?mem (length pre + (24 + 8 * bf_hash_num bf)) (bf_length bf div 64 + 1) =
      Some (bf_data bf)"
    using read_words_at [of "pre @ le_bytes 8 (bf_hash_num bf) @ le_bytes 8 (bf_length bf) @
        word_bytes (bf_seed bf) @ pad" "bf_data bf"]
    by (simp add: bf_bytes_def seeds pad words ac_simps)
  ultimately show ?thesis
    using size words by (simp add: bf_Load_def Let_def align_pad del: read_words.simps)
qed

end
