(* ===== verification/Compression.thy ===== *)
theory Compression
  imports BloomFilter
begin

text \<open>
  Block compression of \<^verbatim>\<open>src/mokv/utils/compression.hpp\<close>: the factory, the embedded Snappy-like
  codec with its buffers, and the LZ4 wrapper around the functions of \<^verbatim>\<open>lz4frame.h\<close>.  The latter
  library is not part of the repository: its functions are the fields of \<open>lz4_api\<close>, and the one
  documented fact the store relies on is \<open>lz4_frame_roundtrip\<close>.  An access outside a buffer is
  \<open>None\<close>.  The lemmas show that the LZ4 wrapper restores what it compressed, and that the embedded
  codec does not.
\<close>

datatype CompressionType = kNone | kSnappy | kLZ4 | kOther nat

fun type_code :: "CompressionType \<Rightarrow> nat" where
  "type_code kNone = 0"
| "type_code kSnappy = 1"
| "type_code kLZ4 = 2"
| "type_code (kOther n) = n"

definition type_of_code :: "nat \<Rightarrow> CompressionType" where
  "type_of_code n = (if n = 0 then kNone else if n = 1 then kSnappy else if n = 2 then kLZ4 else kOther n)"

record CompressedData =
  cd_data :: bytes
  cd_original_size :: nat

subsection \<open>The embedded Snappy codec\<close>

definition at :: "bytes \<Rightarrow> nat \<Rightarrow> char option" where
  "at bs i = (if i < length bs then Some (bs ! i) else None)"

definition byte :: "nat \<Rightarrow> char" where
  "byte n = char_of n"

definition snappy_max_compressed_length :: "nat \<Rightarrow> nat" where
  "snappy_max_compressed_length n = 32 + n + n div 6"

definition put_out :: "nat \<Rightarrow> bytes \<Rightarrow> bytes \<Rightarrow> bytes option" where
  "put_out cap out bs = (if length out + length bs \<le> cap then Some (out @ bs) else None)"

text \<open>The guards; \<^verbatim>\<open>input_length - 3\<close> is computed in \<^verbatim>\<open>size_t\<close>, and \<^verbatim>\<open>&&\<close> reads only as far as needed.\<close>

fun same_from :: "bytes \<Rightarrow> nat \<Rightarrow> nat list \<Rightarrow> bool option" where
  "same_from input i [] = Some True"
| "same_from input i (d # ds) =
     do { a \<leftarrow> at input i; b \<leftarrow> at input (i + d); if a = b then same_from input i ds else Some False }"

definition run_starts :: "bytes \<Rightarrow> nat \<Rightarrow> nat list \<Rightarrow> bool option" where
  "run_starts input i ds =
     (if i < wrap_sub (length input) 3 then same_from input i ds else Some False)"

function run_end :: "bytes \<Rightarrow> nat \<Rightarrow> nat \<Rightarrow> nat" where
  "run_end input i j =
     (if j < length input \<and> input ! j = input ! i then run_end input i (j + 1) else j)"
  by pat_completeness auto
termination
  by (relation "measure (\<lambda>(input, i, j). length input - j)") auto

partial_function (option) literal_end :: "bytes \<Rightarrow> nat \<Rightarrow> nat \<Rightarrow> nat option" where
  "literal_end input i literal =
     (if i + literal < length input \<and> literal < 60
      then do { run \<leftarrow> run_starts input (i + literal) [1, 2];
                if run then Some literal else literal_end input i (literal + 1) }
      else Some literal)"

partial_function (option) emit_copies :: "nat \<Rightarrow> nat \<Rightarrow> nat \<Rightarrow> bytes \<Rightarrow> bytes option" where
  "emit_copies cap i emit out =
     (if 0 < emit
      then (let copylen = (if 64 < emit then 64 else emit) in
            do { out \<leftarrow> put_out cap out
                   [byte (wrap_sub copylen 4), byte (wrap_sub i 4), byte (wrap_sub i 4 div 256)];
                 emit_copies cap i (emit - copylen) out })
      else Some out)"

partial_function (option) snappy_compress_loop :: "nat \<Rightarrow> bytes \<Rightarrow> nat \<Rightarrow> bytes \<Rightarrow> bytes option" where
  "snappy_compress_loop cap input i out =
     (if i < length input
      then do { run \<leftarrow> run_starts input i [1, 2, 3];
                if run
                then (let len = run_end input i (i + 4) - i in
                      do { out \<leftarrow> (if len < 12
                                   then put_out cap out (byte (len - 4) # take len (drop i input))
                                   else do { out \<leftarrow> put_out cap out [byte 252]; emit_copies cap i len out });
                           snappy_compress_loop cap input (i + len) out })
                else do { literal \<leftarrow> literal_end input i 1;
                          out \<leftarrow> put_out cap out (byte literal # take literal (drop i input));
                          snappy_compress_loop cap input (i + literal) out } }
      else Some out)"

definition snappy_Compress :: "bytes \<Rightarrow> CompressedData option" where
  "snappy_Compress input =
     (if input = [] then Some \<lparr>cd_data = [], cd_original_size = 0\<rparr>
      else do { out \<leftarrow> snappy_compress_loop (snappy_max_compressed_length (length input)) input 0 [];
                Some \<lparr>cd_data = out, cd_original_size = length input\<rparr> })"

text \<open>
  The decoder writes into a zeroed buffer.  \<open>copy_back\<close> is the byte-by-byte copy of a back
  reference; a length byte of the four-byte form is converted from a signed \<^verbatim>\<open>char\<close>.
\<close>

partial_function (option) copy_back :: "bytes \<Rightarrow> nat \<Rightarrow> nat \<Rightarrow> nat \<Rightarrow> nat \<Rightarrow> bytes option" where
  "copy_back out j offset k len =
     (if k < len
      then do { c \<leftarrow> (if offset + 4 \<le> j + k then at out (j + k - offset - 4) else None);
                out \<leftarrow> write_bytes out (j + k) [c];
                copy_back out j offset (k + 1) len }
      else Some out)"

partial_function (option) snappy_uncompress :: "bytes \<Rightarrow> nat \<Rightarrow> nat \<Rightarrow> bytes \<Rightarrow> bytes option" where
  "snappy_uncompress src i j out =
     (if i < length src
      then do {
        c \<leftarrow> at src i;
        let op = (of_char c :: nat);
        if op < 64
        then do { lit \<leftarrow> read_bytes src (i + 1) (op + 1);
                  out \<leftarrow> write_bytes out j lit;
                  snappy_uncompress src (i + 1 + (op + 1)) (j + (op + 1)) out }
        else if op < 252
        then do { b1 \<leftarrow> at src (i + 1); b2 \<leftarrow> at src (i + 2);
                  out \<leftarrow> copy_back out j (of_char b1 + 256 * of_char b2) 0 (op - 60);
                  snappy_uncompress src (i + 3) (j + (op - 60)) out }
        else if op = 252
        then do { l \<leftarrow> at src (i + 1);
                  b1 \<leftarrow> at src (i + 2); b2 \<leftarrow> at src (i + 3); b3 \<leftarrow> at src (i + 4);
                  let len = unat (char_size l);
                  out \<leftarrow> copy_back out j (of_char b1 + 256 * of_char b2 + 65536 * of_char b3) 0 len;
                  snappy_uncompress src (i + 5) (j + len) out }
        else if op = 253 then snappy_uncompress src (i + 4) j out
        else snappy_uncompress src (i + 3) j out }
      else Some out)"

definition snappy_Decompress :: "CompressedData \<Rightarrow> nat \<Rightarrow> (nat \<times> bytes) option" where
  "snappy_Decompress cd output_size =
     (let output = replicate output_size (CHR 0x00) in
      if cd_data cd = [] \<or> output_size < cd_original_size cd then Some (0, output)
      else do { out \<leftarrow> snappy_uncompress (cd_data cd) 0 0 output; Some (cd_original_size cd, out) })"

declare run_end.simps [simp del]

lemmas snappy_code [code] =
  literal_end.simps emit_copies.simps snappy_compress_loop.simps copy_back.simps snappy_uncompress.simps

subsection \<open>The LZ4 wrapper\<close>

text \<open>
  \<open>LZ4F_compressFrame\<close> takes the capacity, the announced content size and the data; \<open>None\<close> is an
  error code.  \<open>LZ4F_decompress\<close> takes the context, the free room and the source, and returns the
  hint, the number of bytes consumed, the bytes produced and the new context.
\<close>

record 'c lz4_api =
  LZ4F_compressFrameBound :: "nat \<Rightarrow> nat"
  LZ4F_compressFrame :: "nat \<Rightarrow> nat \<Rightarrow> bytes \<Rightarrow> bytes option"
  LZ4F_createDecompressionContext :: "'c option"
  LZ4F_decompress :: "'c \<Rightarrow> nat \<Rightarrow> bytes \<Rightarrow> (nat \<times> nat \<times> bytes \<times> 'c) option"

definition lz4_Compress :: "'c lz4_api \<Rightarrow> bytes \<Rightarrow> CompressedData" where
  "lz4_Compress api input =
     (if input = [] then \<lparr>cd_data = [], cd_original_size = 0\<rparr>
      else case LZ4F_compressFrame api (LZ4F_compressFrameBound api (length input)) (length input) input of
        None \<Rightarrow> \<lparr>cd_data = [], cd_original_size = 0\<rparr>
      | Some out \<Rightarrow> \<lparr>cd_data = out, cd_original_size = length input\<rparr>)"

lemma decode_progress:
  "src \<noteq> [] \<Longrightarrow> 0 < dst \<Longrightarrow> 0 < n \<or> 0 < m \<Longrightarrow> length src - n + (dst - m) < length src + dst"
  by (cases src) auto

text \<open>The decoding loop; its result is the output when the frame was finished.\<close>

function lz4_loop :: "'c lz4_api \<Rightarrow> 'c \<Rightarrow> bytes \<Rightarrow> nat \<Rightarrow> bytes \<Rightarrow> bytes option" where
  "lz4_loop api ctx src dst_remaining out =
     (if src \<noteq> [] \<and> 0 < dst_remaining
      then (case LZ4F_decompress api ctx dst_remaining src of
              None \<Rightarrow> None
            | Some (result, src_size, produced, ctx') \<Rightarrow>
                if src_size = 0 \<and> produced = [] then None
                else if result = 0 then Some (out @ produced)
                else lz4_loop api ctx' (drop src_size src) (dst_remaining - length produced) (out @ produced))
      else None)"
  by pat_completeness auto
termination
  by (relation "measure (\<lambda>(api, ctx, src, dst, out). length src + dst)") (auto intro!: decode_progress)

definition lz4_Decompress :: "'c lz4_api \<Rightarrow> CompressedData \<Rightarrow> nat \<Rightarrow> nat \<times> bytes" where
  "lz4_Decompress api cd output_size =
     (let none = (0, replicate output_size (CHR 0x00)) in
      if cd_data cd = [] then none
      else if output_size < cd_original_size cd then none
      else case LZ4F_createDecompressionContext api of
        None \<Rightarrow> none
      | Some ctx \<Rightarrow>
          (case lz4_loop api ctx (cd_data cd) output_size [] of
             None \<Rightarrow> none
           | Some out \<Rightarrow>
               if length out \<noteq> cd_original_size cd then none
               else (length out, out @ replicate (output_size - length out) (CHR 0x00))))"

subsection \<open>The factory\<close>

text \<open>
  \<open>factory_Compress\<close> and \<open>factory_Decompress\<close> are \<^verbatim>\<open>CompressionFactory::Create(type)\<close> followed by the
  virtual call; the inner \<open>None\<close> is the null pointer, the outer one undefined behaviour.
\<close>

fun factory_Compress :: "'c lz4_api \<Rightarrow> CompressionType \<Rightarrow> bytes \<Rightarrow> CompressedData option option" where
  "factory_Compress api kSnappy input = map_option Some (snappy_Compress input)"
| "factory_Compress api kLZ4 input = Some (Some (lz4_Compress api input))"
| "factory_Compress api kNone input = Some None"
| "factory_Compress api (kOther n) input = Some None"

fun factory_Decompress ::
    "'c lz4_api \<Rightarrow> CompressionType \<Rightarrow> CompressedData \<Rightarrow> nat \<Rightarrow> (nat \<times> bytes) option option" where
  "factory_Decompress api kSnappy cd output_size = map_option Some (snappy_Decompress cd output_size)"
| "factory_Decompress api kLZ4 cd output_size = Some (Some (lz4_Decompress api cd output_size))"
| "factory_Decompress api kNone cd output_size = Some None"
| "factory_Decompress api (kOther n) cd output_size = Some None"

subsection \<open>The LZ4 path restores the data\<close>

text \<open>
  What \<^verbatim>\<open>lz4frame.h\<close> documents: a frame fits the bound and is not empty, and one call that is given
  the whole frame and room for the whole content decodes it and reports the end of the frame.
\<close>

definition lz4_frame_roundtrip :: "'c lz4_api \<Rightarrow> bool" where
  "lz4_frame_roundtrip api =
     (\<forall>d f. d \<noteq> [] \<longrightarrow> LZ4F_compressFrame api (LZ4F_compressFrameBound api (length d)) (length d) d = Some f \<longrightarrow>
        f \<noteq> [] \<and> (\<exists>ctx ctx'. LZ4F_createDecompressionContext api = Some ctx \<and>
          LZ4F_decompress api ctx (length d) f = Some (0, length f, d, ctx')))"

lemma lz4_roundtrip:
  assumes api: "lz4_frame_roundtrip api" and ne: "cd_data (lz4_Compress api d) \<noteq> []"
  shows "lz4_Decompress api \<lparr>cd_data = cd_data (lz4_Compress api d), cd_original_size = length d\<rparr> (length d) =
    (length d, d)"
proof -
  obtain f where d: "d \<noteq> []"
    and f: "LZ4F_compressFrame api (LZ4F_compressFrameBound api (length d)) (length d) d = Some f"
    using ne by (auto simp: lz4_Compress_def split: if_splits option.splits)
  then have "lz4_Compress api d = \<lparr>cd_data = f, cd_original_size = length d\<rparr>"
    by (simp add: lz4_Compress_def)
  moreover obtain ctx ctx' where "f \<noteq> []" "LZ4F_createDecompressionContext api = Some ctx"
    "LZ4F_decompress api ctx (length d) f = Some (0, length f, d, ctx')"
    using api d f unfolding lz4_frame_roundtrip_def by blast
  moreover from this d have "lz4_loop api ctx f (length d) [] = Some d" by simp
  ultimately show ?thesis using d by (simp add: lz4_Decompress_def)
qed

text \<open>Every configured algorithm but the embedded Snappy codec gives back the data it shrank.\<close>

lemma factory_roundtrip:
  assumes "lz4_frame_roundtrip api" "ty \<noteq> kSnappy"
    and "factory_Compress api ty d = Some (Some cd)" "cd_data cd \<noteq> []"
  shows "factory_Decompress api ty \<lparr>cd_data = cd_data cd, cd_original_size = length d\<rparr> (length d) =
    Some (Some (length d, d))"
  using assms lz4_roundtrip [OF assms(1), of d] by (cases ty) auto

lemma factory_Compress_defined: "ty \<noteq> kSnappy \<Longrightarrow> \<exists>r. factory_Compress api ty d = Some r"
  by (cases ty) auto

subsection \<open>The embedded codec does not\<close>

text \<open>
  The encoder stores the length of a literal, the decoder copies one byte more than the stored
  number.  For data without repeated bytes the encoder emits one literal, and the decoder then
  reads past the end of the compressed data.
\<close>

lemma at_Some: "i < length bs \<Longrightarrow> at bs i = Some (bs ! i)"
  by (simp add: at_def)

lemma run_starts_distinct:
  assumes "distinct d" "3 \<le> length d" "0 < k"
  shows "run_starts d i (k # ks) = Some False \<or> length d \<le> i + k"
  using assms by (auto simp: run_starts_def at_def nth_eq_iff_index_eq wrap_sub_def)

lemma literal_end_distinct:
  assumes "distinct d" "3 \<le> length d" "length d \<le> 60" "l \<le> length d"
  shows "literal_end d 0 l = Some (length d)"
  using assms(4)
proof (induction "length d - l" arbitrary: l)
  case 0
  then show ?case by (simp add: literal_end.simps)
next
  case (Suc n)
  have "run_starts d l [1, 2] = Some False"
  proof (cases "l < length d - 3")
    case True
    then show ?thesis using run_starts_distinct [OF assms(1,2), of 1 l "[2]"] by auto
  next
    case False
    then show ?thesis using assms(2) by (simp add: run_starts_def)
  qed
  moreover have "literal_end d 0 (l + 1) = Some (length d)"
    using Suc.hyps Suc.prems by simp
  ultimately show ?case
    using Suc.hyps(2) Suc.prems assms(3) by (subst literal_end.simps) auto
qed

lemma snappy_Compress_distinct:
  assumes "distinct d" "4 \<le> length d" "length d \<le> 60"
  shows "snappy_Compress d = Some \<lparr>cd_data = byte (length d) # d, cd_original_size = length d\<rparr>"
proof -
  have "run_starts d 0 [1, 2, 3] = Some False"
    using run_starts_distinct [OF assms(1), of 1 0 "[2, 3]"] assms(2) by simp
  moreover have "literal_end d 0 1 = Some (length d)"
    using literal_end_distinct [of d 1] assms by simp
  moreover have "d \<noteq> []" using assms(2) by auto
  ultimately show ?thesis
    by (simp add: snappy_Compress_def snappy_compress_loop.simps [of _ d]
        put_out_def snappy_max_compressed_length_def)
qed

lemma snappy_Decompress_distinct:
  assumes "4 \<le> length d" "length d \<le> 60"
  shows "snappy_Decompress \<lparr>cd_data = byte (length d) # d, cd_original_size = length d\<rparr> (length d) = None"
proof -
  have "(of_char (byte (length d)) :: nat) = length d" using assms by (simp add: byte_def)
  then show ?thesis
    using assms
    by (simp add: snappy_Decompress_def snappy_uncompress.simps [of "byte (length d) # d"] at_def
        read_bytes_def)
qed

text \<open>The loops as code equations.\<close>

lemmas compression_loops [code] =
  literal_end.simps emit_copies.simps snappy_compress_loop.simps copy_back.simps snappy_uncompress.simps

end
