(* ===== verification/SkipList.thy ===== *)
theory SkipList
  imports Prelude "HOL-Library.Monad_Syntax"
begin

unbundle bit_operations_syntax

text \<open>
  The skip list of \<^verbatim>\<open>src/mokv/lsm/skiplist.hpp\<close> at the level of its pointers.  The heap maps
  addresses to nodes, \<^verbatim>\<open>new\<close> takes the next unused address and \<^verbatim>\<open>delete\<close> removes the node from the
  heap; a null pointer is \<open>None\<close>.  Every operation returns an option, and \<open>None\<close> stands for what
  the C++ leaves undefined: following a dangling pointer, indexing a vector out of range, or a
  search loop that never ends.  Each operation runs under the spin lock of the list, so it is one
  atomic step.  The lemmas show that no operation ever runs into undefined behaviour, that every
  level is the sublist of the nodes tall enough for it, and that the list implements the
  reference operations on strictly sorted association lists.
\<close>

record node =
  nkey :: string
  nval :: string
  nexts :: "nat option list"

type_synonym heap = "nat \<Rightarrow> node option"

record skiplist =
  sl_heap :: heap
  sl_head :: nat
  sl_fresh :: nat
  sl_size :: "64 word"
  sl_binary_size :: "64 word"

definition sl_new :: skiplist where
  "sl_new = \<lparr>sl_heap = [0 \<mapsto> \<lparr>nkey = [], nval = [], nexts = [None]\<rparr>], sl_head = 0, sl_fresh = 1,
     sl_size = 0, sl_binary_size = 0\<rparr>"

subsection \<open>Random levels\<close>

text \<open>
  \<^verbatim>\<open>GlobalRand\<close> of \<^verbatim>\<open>src/mokv/utils/global_random.cpp\<close> is a counter; it returns its value and
  advances by one.
\<close>

definition GlobalRand :: "64 word \<Rightarrow> 64 word \<times> 64 word" where
  "GlobalRand counter = (counter, counter + 1)"

lemma and_3_even: "(c :: 64 word) AND 3 = 0 \<Longrightarrow> even c"
proof -
  assume "c AND 3 = 0"
  moreover have "bit (c AND 3) 0 \<longleftrightarrow> bit c 0 \<and> bit (3 :: 64 word) 0"
    by (rule bit_and_iff)
  ultimately show ?thesis by (simp add: bit_0)
qed

lemma rand_not_twice: "(c :: 64 word) AND 3 = 0 \<Longrightarrow> (c + 1) AND 3 \<noteq> 0"
  using and_3_even [of c] and_3_even [of "c + 1"] by auto

text \<open>
  \<^verbatim>\<open>while ((GlobalRand() & 3) == 0) ++level;\<close>, returning the level and the counter.  The counter
  cannot be divisible by four twice in a row, which is why the loop ends.
\<close>

function rand_level_loop :: "64 word \<Rightarrow> nat \<Rightarrow> nat \<times> 64 word" where
  "rand_level_loop counter level =
     (case GlobalRand counter of (r, counter') \<Rightarrow>
        if r AND 3 = 0 then rand_level_loop counter' (level + 1) else (level, counter'))"
  by pat_completeness auto
termination
  by (relation "measure (\<lambda>(c, l). if c AND 3 = 0 then 1 else 0)")
     (auto simp: GlobalRand_def rand_not_twice)

declare rand_level_loop.simps [simp del]

definition RandLevel :: "64 word \<Rightarrow> nat \<times> 64 word" where
  "RandLevel counter = rand_level_loop counter 1"

subsection \<open>Searching\<close>

text \<open>\<^verbatim>\<open>p->nexts[level]\<close>.\<close>

definition next_at :: "heap \<Rightarrow> nat \<Rightarrow> nat \<Rightarrow> nat option option" where
  "next_at h level p =
     do { n \<leftarrow> h p; if level < length (nexts n) then Some (nexts n ! level) else None }"

text \<open>\<^verbatim>\<open>while (p->nexts[level] && p->nexts[level]->key < key) p = p->nexts[level];\<close>\<close>

partial_function (option) advance :: "heap \<Rightarrow> string \<Rightarrow> nat \<Rightarrow> nat \<Rightarrow> nat option" where
  "advance h key level p =
     do { nx \<leftarrow> next_at h level p;
          case nx of
            None \<Rightarrow> Some p
          | Some q \<Rightarrow> do { m \<leftarrow> h q; if nkey m < key then advance h key level q else Some p } }"

text \<open>
  The loop over the levels below \<open>n\<close>, from the top down, starting at \<open>p\<close>: the vector
  \<^verbatim>\<open>prev_nodes\<close>, indexed by level.
\<close>

fun locate :: "heap \<Rightarrow> string \<Rightarrow> nat \<Rightarrow> nat \<Rightarrow> nat list option" where
  "locate h key 0 p = Some []"
| "locate h key (Suc level) p =
     do { q \<leftarrow> advance h key level p; qs \<leftarrow> locate h key level q; Some (qs @ [q]) }"

definition head_levels :: "skiplist \<Rightarrow> nat option" where
  "head_levels s = map_option (\<lambda>n. length (nexts n)) (sl_heap s (sl_head s))"

definition search :: "skiplist \<Rightarrow> string \<Rightarrow> nat list option" where
  "search s key =
     do { n \<leftarrow> head_levels s;
          prevs \<leftarrow> locate (sl_heap s) key n (sl_head s);
          if prevs = [] then None else Some prevs }"

text \<open>The outer \<open>None\<close> is undefined behaviour, the inner one a key that is absent.\<close>

definition sl_Get :: "skiplist \<Rightarrow> string \<Rightarrow> string option option" where
  "sl_Get s key =
     do { prevs \<leftarrow> search s key;
          nx \<leftarrow> next_at (sl_heap s) 0 (prevs ! 0);
          case nx of
            None \<Rightarrow> Some None
          | Some q \<Rightarrow> do { m \<leftarrow> sl_heap s q; Some (if nkey m = key then Some (nval m) else None) } }"

subsection \<open>Insertion\<close>

definition set_next :: "heap \<Rightarrow> nat \<Rightarrow> nat \<Rightarrow> nat option \<Rightarrow> heap option" where
  "set_next h p level nx =
     do { n \<leftarrow> h p;
          if level < length (nexts n) then Some (h(p \<mapsto> n\<lparr>nexts := (nexts n)[level := nx]\<rparr>))
          else None }"

text \<open>The linking loop for the levels \<open>0 ..< n\<close>.\<close>

fun link_levels :: "nat \<Rightarrow> nat \<Rightarrow> nat list \<Rightarrow> heap \<Rightarrow> heap option" where
  "link_levels a 0 prevs h = Some h"
| "link_levels a (Suc level) prevs h =
     do { h \<leftarrow> link_levels a level prevs h;
          nx \<leftarrow> next_at h level (prevs ! level);
          h \<leftarrow> set_next h a level nx;
          set_next h (prevs ! level) level (Some a) }"

definition grow_head :: "heap \<Rightarrow> nat \<Rightarrow> nat \<Rightarrow> heap option" where
  "grow_head h hd_addr new_level =
     do { n \<leftarrow> h hd_addr;
          Some (h(hd_addr \<mapsto> n\<lparr>nexts := nexts n @ replicate (new_level - length (nexts n)) None\<rparr>)) }"

definition insert_node :: "skiplist \<Rightarrow> string \<Rightarrow> string \<Rightarrow> nat \<Rightarrow> nat list \<Rightarrow> skiplist option" where
  "insert_node s key value new_level prevs =
     do { h \<leftarrow> (if length prevs < new_level then grow_head (sl_heap s) (sl_head s) new_level
                else Some (sl_heap s));
          let prevs = prevs @ replicate (new_level - length prevs) (sl_head s);
          let a = sl_fresh s;
          let h = h(a \<mapsto> \<lparr>nkey = key, nval = value, nexts = replicate new_level None\<rparr>);
          h \<leftarrow> link_levels a new_level prevs h;
          Some (s\<lparr>sl_heap := h, sl_fresh := Suc a, sl_size := sl_size s + 1,
                  sl_binary_size := sl_binary_size s + (of_nat (length key) + of_nat (length value))\<rparr>) }"

text \<open>
  \<^verbatim>\<open>Put\<close>, with the source of levels as an argument: \<open>draw\<close> maps the state of the generator to a
  level and the next state, and is consulted only when a new node is inserted.
\<close>

definition sl_Put ::
    "('g \<Rightarrow> nat \<times> 'g) \<Rightarrow> 'g \<Rightarrow> skiplist \<Rightarrow> string \<Rightarrow> string \<Rightarrow> (skiplist \<times> 'g) option" where
  "sl_Put draw g s key value =
     do { prevs \<leftarrow> search s key;
          nx \<leftarrow> next_at (sl_heap s) 0 (prevs ! 0);
          found \<leftarrow> (case nx of
                     None \<Rightarrow> Some None
                   | Some q \<Rightarrow> do { m \<leftarrow> sl_heap s q; Some (if nkey m = key then Some (q, m) else None) });
          case found of
            Some (q, m) \<Rightarrow>
              Some (s\<lparr>sl_heap := (sl_heap s)(q \<mapsto> m\<lparr>nval := value\<rparr>),
                      sl_binary_size := sl_binary_size s +
                        (of_nat (length value) - of_nat (length (nval m)))\<rparr>, g)
          | None \<Rightarrow>
              do { let (new_level, g') = draw g;
                   s' \<leftarrow> insert_node s key value new_level prevs;
                   Some (s', g') } }"

subsection \<open>Deletion\<close>

text \<open>\<^verbatim>\<open>targets[level]\<close>: the successor of the predecessor, when it has the key.\<close>

definition target_at :: "heap \<Rightarrow> string \<Rightarrow> nat list \<Rightarrow> nat \<Rightarrow> nat option option" where
  "target_at h key prevs level =
     do { nx \<leftarrow> next_at h level (prevs ! level);
          case nx of
            None \<Rightarrow> Some None
          | Some q \<Rightarrow> do { m \<leftarrow> h q; Some (if nkey m = key then Some q else None) } }"

fun targets_upto :: "heap \<Rightarrow> string \<Rightarrow> nat list \<Rightarrow> nat \<Rightarrow> nat option list option" where
  "targets_upto h key prevs 0 = Some []"
| "targets_upto h key prevs (Suc level) =
     do { t \<leftarrow> target_at h key prevs level; ts \<leftarrow> targets_upto h key prevs level; Some (ts @ [t]) }"

text \<open>The unlinking loop for the levels below \<open>n\<close>, from the top down.\<close>

fun unlink_levels :: "nat \<Rightarrow> nat list \<Rightarrow> nat option list \<Rightarrow> heap \<Rightarrow> heap option" where
  "unlink_levels 0 prevs ts h = Some h"
| "unlink_levels (Suc level) prevs ts h =
     do { h \<leftarrow> (case ts ! level of
                 None \<Rightarrow> Some h
               | Some t \<Rightarrow> do { nx \<leftarrow> next_at h level t; set_next h (prevs ! level) level nx });
          unlink_levels level prevs ts h }"

text \<open>Dropping the empty top levels of the head, down to one.\<close>

fun trim_levels :: "nat option list \<Rightarrow> nat \<Rightarrow> nat" where
  "trim_levels ns new_size =
     (if 1 < new_size \<and> ns ! (new_size - 1) = None then trim_levels ns (new_size - 1) else new_size)"

declare trim_levels.simps [simp del]

definition shrink_head :: "heap \<Rightarrow> nat \<Rightarrow> heap option" where
  "shrink_head h hd_addr =
     do { n \<leftarrow> h hd_addr;
          Some (h(hd_addr \<mapsto> n\<lparr>nexts := take (trim_levels (nexts n) (length (nexts n))) (nexts n)\<rparr>)) }"

text \<open>The local arrays of \<^verbatim>\<open>Delete\<close> hold 32 levels; a taller list overruns them.\<close>

definition sl_Delete :: "skiplist \<Rightarrow> string \<Rightarrow> skiplist option" where
  "sl_Delete s key =
     do { prevs \<leftarrow> search s key;
          if 32 < length prevs then None else
          do { ts \<leftarrow> targets_upto (sl_heap s) key prevs (length prevs);
               h \<leftarrow> unlink_levels (length prevs) prevs ts (sl_heap s);
               case ts ! 0 of
                 None \<Rightarrow> Some (s\<lparr>sl_heap := h\<rparr>)
               | Some d \<Rightarrow>
                   do { m \<leftarrow> h d;
                        h' \<leftarrow> shrink_head (h(d := None)) (sl_head s);
                        Some (s\<lparr>sl_heap := h', sl_size := sl_size s - 1,
                                sl_binary_size := sl_binary_size s -
                                  (of_nat (length (nkey m)) + of_nat (length (nval m)))\<rparr>) } } }"

subsection \<open>Iteration\<close>

text \<open>From \<^verbatim>\<open>begin()\<close> by \<^verbatim>\<open>operator++\<close> to \<^verbatim>\<open>end()\<close>, collecting the key/value pairs.\<close>

partial_function (option) collect :: "heap \<Rightarrow> nat option \<Rightarrow> (string \<times> string) list option" where
  "collect h ptr =
     (case ptr of
        None \<Rightarrow> Some []
      | Some a \<Rightarrow>
          do { n \<leftarrow> h a;
               nx \<leftarrow> next_at h 0 a;
               rest \<leftarrow> collect h nx;
               Some ((nkey n, nval n) # rest) })"

definition sl_entries :: "skiplist \<Rightarrow> (string \<times> string) list option" where
  "sl_entries s = do { nx \<leftarrow> next_at (sl_heap s) 0 (sl_head s); collect (sl_heap s) nx }"


subsection \<open>Shape of a heap\<close>

definition height :: "heap \<Rightarrow> nat \<Rightarrow> nat" where
  "height h a = (case h a of None \<Rightarrow> 0 | Some n \<Rightarrow> length (nexts n))"

definition key_of :: "heap \<Rightarrow> nat \<Rightarrow> string" where
  "key_of h a = (case h a of None \<Rightarrow> [] | Some n \<Rightarrow> nkey n)"

definition val_of :: "heap \<Rightarrow> nat \<Rightarrow> string" where
  "val_of h a = (case h a of None \<Rightarrow> [] | Some n \<Rightarrow> nval n)"

definition nxt :: "heap \<Rightarrow> nat \<Rightarrow> nat \<Rightarrow> nat option" where
  "nxt h a l = nexts (the (h a)) ! l"

text \<open>The first node of a sequence that reaches level \<open>l\<close>.\<close>

definition tall_next :: "heap \<Rightarrow> nat \<Rightarrow> nat list \<Rightarrow> nat option" where
  "tall_next h l as = find (\<lambda>b. l < height h b) as"

fun linked :: "heap \<Rightarrow> nat list \<Rightarrow> bool" where
  "linked h [] = True"
| "linked h (a # as) = ((\<forall>l < height h a. nxt h a l = tall_next h l as) \<and> linked h as)"

text \<open>
  The representation predicate: the node sequence \<open>as\<close> holds exactly the nodes of the heap
  besides the head, in strictly ascending key order, and every pointer of level \<open>l\<close> leads to the
  next node that reaches level \<open>l\<close>.
\<close>

definition rep :: "heap \<Rightarrow> nat \<Rightarrow> nat list \<Rightarrow> bool" where
  "rep h z as = (distinct (z # as) \<and> dom h = set (z # as) \<and>
     sorted_wrt (<) (map (key_of h) as) \<and> 0 < height h z \<and>
     (\<forall>a \<in> set as. 0 < height h a \<and> height h a \<le> height h z) \<and> linked h (z # as))"

definition pred_at :: "heap \<Rightarrow> nat \<Rightarrow> nat list \<Rightarrow> nat \<Rightarrow> nat" where
  "pred_at h z as l = last (z # filter (\<lambda>a. l < height h a) as)"

lemma height_pos_dom: "l < height h a \<Longrightarrow> a \<in> dom h"
  by (auto simp: height_def split: option.splits)

lemma next_at_eq: "l < height h a \<Longrightarrow> next_at h l a = Some (nxt h a l)"
  by (auto simp: height_def next_at_def nxt_def split: option.splits)

lemma linked_append: "linked h (xs @ ys) \<Longrightarrow> linked h ys"
  by (induction xs) auto

lemma linked_nxt: "linked h (xs @ a # ys) \<Longrightarrow> l < height h a \<Longrightarrow> nxt h a l = tall_next h l ys"
  using linked_append [of h xs "a # ys"] by auto

lemma tall_next_Cons:
  "tall_next h l (a # as) = (if l < height h a then Some a else tall_next h l as)"
  by (simp add: tall_next_def)

lemma tall_next_append:
  "tall_next h l (xs @ ys) = (case tall_next h l xs of None \<Rightarrow> tall_next h l ys | Some a \<Rightarrow> Some a)"
  by (induction xs) (auto simp: tall_next_def)

lemma tall_next_None_iff: "tall_next h l xs = None \<longleftrightarrow> filter (\<lambda>a. l < height h a) xs = []"
  by (induction xs) (auto simp: tall_next_def)

lemma tall_next_SomeD:
  "tall_next h l xs = Some b \<Longrightarrow>
     \<exists>us vs. xs = us @ b # vs \<and> l < height h b \<and> filter (\<lambda>a. l < height h a) us = []"
  unfolding tall_next_def
proof (induction xs)
  case (Cons x xs)
  show ?case
  proof (cases "l < height h x")
    case True
    with Cons.prems show ?thesis by (intro exI [of _ "[]"] exI [of _ xs]) auto
  next
    case False
    with Cons obtain us vs where "xs = us @ b # vs" "l < height h b" "filter (\<lambda>a. l < height h a) us = []"
      by auto
    with False show ?thesis by (intro exI [of _ "x # us"] exI [of _ vs]) auto
  qed
qed simp

lemma advance_step:
  assumes "l < height h p"
  shows "advance h k l p =
    (case nxt h p l of None \<Rightarrow> Some p
     | Some q \<Rightarrow> do { m \<leftarrow> h q; if nkey m < k then advance h k l q else Some p })"
  by (subst advance.simps) (simp add: next_at_eq [OF assms])

text \<open>One search loop: from \<open>p\<close> it stops at the last node of level \<open>l\<close> below the key.\<close>

lemma advance_correct:
  assumes "linked h (p # T @ R)" "l < height h p" "set (T @ R) \<subseteq> dom h"
    and "\<forall>a \<in> set T. key_of h a < k" "\<forall>a \<in> set R. \<not> key_of h a < k"
  shows "advance h k l p = Some (last (p # filter (\<lambda>a. l < height h a) T))"
  using assms
proof (induction "length T" arbitrary: p T rule: less_induct)
  case less
  have nx: "nxt h p l = tall_next h l (T @ R)"
    using less.prems(1,2) by simp
  show ?case
  proof (cases "tall_next h l T")
    case None
    have "advance h k l p = Some p"
    proof (cases "tall_next h l R")
      case (Some q)
      then have "q \<in> set R" by (auto dest!: tall_next_SomeD)
      then obtain m where "h q = Some m" "\<not> nkey m < k"
        using less.prems(3,5) by (auto simp: key_of_def split: option.splits)
      then show ?thesis
        using Some None by (simp add: advance_step [OF less.prems(2)] nx tall_next_append)
    qed (use None in \<open>simp add: advance_step [OF less.prems(2)] nx tall_next_append\<close>)
    then show ?thesis using None by (simp add: tall_next_None_iff)
  next
    case (Some b)
    then obtain us vs where T: "T = us @ b # vs" "l < height h b" "filter (\<lambda>a. l < height h a) us = []"
      by (blast dest: tall_next_SomeD)
    have "key_of h b < k" "b \<in> dom h" using less.prems(3,4) T by auto
    then obtain m where "h b = Some m" "nkey m < k"
      by (auto simp: key_of_def split: option.splits)
    then have "advance h k l p = advance h k l b"
      using Some by (simp add: advance_step [OF less.prems(2)] nx tall_next_append)
    moreover have "linked h (b # vs @ R)"
      using less.prems(1) T(1) linked_append [of h "p # us" "b # vs @ R"] by simp
    ultimately show ?thesis
      using less.hyps [of vs b] less.prems(3,4,5) T by simp
  qed
qed

lemma pred_at_split:
  assumes "l < height h z"
  shows "\<exists>xs ys. z # T = xs @ pred_at h z T l # ys \<and> filter (\<lambda>a. l < height h a) ys = [] \<and>
    l < height h (pred_at h z T l)"
proof (induction T rule: rev_induct)
  case Nil
  then show ?case using assms by (intro exI [of _ "[]"]) (simp add: pred_at_def)
next
  case (snoc b T)
  show ?case
  proof (cases "l < height h b")
    case True
    then show ?thesis by (intro exI [of _ "z # T"] exI [of _ "[]"]) (simp add: pred_at_def)
  next
    case False
    have eq: "pred_at h z (T @ [b]) l = pred_at h z T l"
      using False by (simp add: pred_at_def)
    obtain xs ys where "z # T = xs @ pred_at h z T l # ys" "filter (\<lambda>a. l < height h a) ys = []"
      "l < height h (pred_at h z T l)"
      using snoc by blast
    then show ?thesis using False unfolding eq
      by (intro exI [of _ xs] exI [of _ "ys @ [b]"]) simp
  qed
qed

lemma advance_pred:
  assumes "linked h (z # T @ R)" "set (T @ R) \<subseteq> dom h" "l < height h z"
    and "\<forall>a \<in> set T. key_of h a < k" "\<forall>a \<in> set R. \<not> key_of h a < k"
    and p: "z # T = xs @ p # ys" "l < height h p"
  shows "advance h k l p = Some (pred_at h z T l)"
proof -
  have "linked h (p # ys @ R)"
    using assms(1) linked_append [of h xs "p # ys @ R"] p(1) by (metis append.assoc append_Cons)
  moreover have "set ys \<subseteq> set T" using p(1) by (cases xs) auto
  ultimately have "advance h k l p = Some (last (p # filter (\<lambda>a. l < height h a) ys))"
    using assms(2,4,5) p(2) by (intro advance_correct [where R = R]) auto
  moreover have "z # filter (\<lambda>a. l < height h a) T = filter (\<lambda>a. l < height h a) (xs @ p # ys)"
    using assms(3) unfolding p(1) [symmetric] by simp
  ultimately show ?thesis using p(2) by (simp add: pred_at_def)
qed

lemma locate_correct:
  assumes "linked h (z # T @ R)" "set (T @ R) \<subseteq> dom h"
    and "\<forall>a \<in> set T. key_of h a < k" "\<forall>a \<in> set R. \<not> key_of h a < k"
    and "z # T = xs @ p # ys" "n \<le> height h p" "n \<le> height h z"
  shows "locate h k n p = Some (map (pred_at h z T) [0..<n])"
  using assms(5-7)
proof (induction n arbitrary: p xs ys)
  case (Suc n)
  have adv: "advance h k n p = Some (pred_at h z T n)"
    using Suc.prems by (intro advance_pred [OF assms(1,2) _ assms(3,4)]) auto
  obtain xs' ys' where "z # T = xs' @ pred_at h z T n # ys'" "n < height h (pred_at h z T n)"
    using pred_at_split [of n h z T] Suc.prems by auto
  then have "locate h k n (pred_at h z T n) = Some (map (pred_at h z T) [0..<n])"
    using Suc.prems by (intro Suc.IH) auto
  with adv show ?case by simp
qed simp

text \<open>The nodes below a key and the others.\<close>

definition low_nodes :: "heap \<Rightarrow> string \<Rightarrow> nat list \<Rightarrow> nat list" where
  "low_nodes h k as = takeWhile (\<lambda>a. key_of h a < k) as"

definition high_nodes :: "heap \<Rightarrow> string \<Rightarrow> nat list \<Rightarrow> nat list" where
  "high_nodes h k as = dropWhile (\<lambda>a. key_of h a < k) as"

lemma low_high_nodes [simp]: "low_nodes h k as @ high_nodes h k as = as"
  by (simp add: low_nodes_def high_nodes_def)

lemma low_nodes_less: "\<forall>a \<in> set (low_nodes h k as). key_of h a < k"
  by (auto simp: low_nodes_def dest: set_takeWhileD)

lemma high_nodes_not_less:
  "sorted_wrt (<) (map (key_of h) as) \<Longrightarrow> \<forall>a \<in> set (high_nodes h k as). \<not> key_of h a < k"
proof (induction as)
  case (Cons a as)
  show ?case
  proof (cases "key_of h a < k")
    case False
    then have "\<not> key_of h b < k" if "b \<in> set as" for b
      using Cons.prems that by (auto dest: less_trans)
    with False show ?thesis by (auto simp: high_nodes_def)
  next
    case True
    then have "high_nodes h k (a # as) = high_nodes h k as" by (simp add: high_nodes_def)
    moreover have "sorted_wrt (<) (map (key_of h) as)" using Cons.prems by simp
    ultimately show ?thesis using Cons.IH by metis
  qed
qed (simp add: high_nodes_def)

lemma repD:
  assumes "rep h z as"
  shows "distinct (z # as)" "dom h = set (z # as)" "sorted_wrt (<) (map (key_of h) as)"
    "0 < height h z" "\<And>a. a \<in> set as \<Longrightarrow> 0 < height h a" 
    "\<And>a. a \<in> set as \<Longrightarrow> height h a \<le> height h z" "linked h (z # as)"
  using assms unfolding rep_def by auto

lemma repI:
  assumes "distinct (z # as)" "dom h = set (z # as)" "sorted_wrt (<) (map (key_of h) as)"
    "0 < height h z" "\<And>a. a \<in> set as \<Longrightarrow> 0 < height h a"
    "\<And>a. a \<in> set as \<Longrightarrow> height h a \<le> height h z" "linked h (z # as)"
  shows "rep h z as"
  using assms unfolding rep_def by auto

lemma search_correct:
  assumes "rep (sl_heap s) (sl_head s) as"
  shows "search s k = Some (map (pred_at (sl_heap s) (sl_head s) (low_nodes (sl_heap s) k as))
           [0..<height (sl_heap s) (sl_head s)])"
proof -
  let ?h = "sl_heap s" and ?z = "sl_head s"
  note r = repD [OF assms]
  have lev: "head_levels s = Some (height ?h ?z)"
    using r(4) by (auto simp: head_levels_def height_def split: option.splits)
  have "locate ?h k (height ?h ?z) ?z = Some (map (pred_at ?h ?z (low_nodes ?h k as)) [0..<height ?h ?z])"
    by (rule locate_correct [where R = "high_nodes ?h k as" and xs = "[]" and ys = "low_nodes ?h k as"])
       (use r(2,7) low_nodes_less high_nodes_not_less [OF r(3)] in \<open>simp_all add: subset_insertI\<close>)
  with lev r(4) show ?thesis by (simp add: search_def)
qed

text \<open>The successor of the predecessor of level 0 is the first node that is not below the key.\<close>

lemma nxt_pred_at:
  assumes "rep h z (T @ R)" "l < height h z"
  shows "nxt h (pred_at h z T l) l = tall_next h l R" "l < height h (pred_at h z T l)"
proof -
  obtain xs ys where sp: "z # T = xs @ pred_at h z T l # ys" "filter (\<lambda>a. l < height h a) ys = []"
    and *: "l < height h (pred_at h z T l)"
    using pred_at_split [OF assms(2)] by metis
  have "linked h (xs @ pred_at h z T l # ys @ R)"
    using repD(7) [OF assms(1)] sp(1) by (metis append.assoc append_Cons)
  then have "nxt h (pred_at h z T l) l = tall_next h l (ys @ R)"
    using * by (rule linked_nxt)
  then show "nxt h (pred_at h z T l) l = tall_next h l R"
    using sp(2) by (simp add: tall_next_append tall_next_None_iff [symmetric])
  show "l < height h (pred_at h z T l)" by (fact *)
qed

lemma tall_next_0:
  assumes "rep h z (T @ R)"
  shows "tall_next h 0 R = (case R of [] \<Rightarrow> None | a # _ \<Rightarrow> Some a)"
  using repD(5) [OF assms] by (auto simp: tall_next_def split: list.splits)

definition entries_of :: "heap \<Rightarrow> nat list \<Rightarrow> (string \<times> string) list" where
  "entries_of h as = map (\<lambda>a. (key_of h a, val_of h a)) as"

lemma fst_entries_of [simp]: "map fst (entries_of h as) = map (key_of h) as"
  by (simp add: entries_of_def)

lemma entries_of_append [simp]: "entries_of h (xs @ ys) = entries_of h xs @ entries_of h ys"
  by (simp add: entries_of_def)

lemma keys_entries_of [simp]: "fst ` set (entries_of h as) = key_of h ` set as"
  by (auto simp: entries_of_def image_image)

lemma map_of_entries_of:
  assumes "sorted_wrt (<) (map (key_of h) as)"
  shows "map_of (entries_of h as) k =
    (case high_nodes h k as of [] \<Rightarrow> None | a # _ \<Rightarrow> if key_of h a = k then Some (val_of h a) else None)"
  using assms
proof (induction as)
  case (Cons a as)
  show ?case
  proof (cases "key_of h a < k")
    case True
    then show ?thesis using Cons by (auto simp: entries_of_def high_nodes_def)
  next
    case False
    then have "k \<noteq> key_of h a \<Longrightarrow> map_of (entries_of h as) k = None"
      using Cons.prems by (auto simp: map_of_eq_None_iff)
    then show ?thesis using False by (auto simp: entries_of_def high_nodes_def)
  qed
qed (simp add: entries_of_def high_nodes_def)

lemma sl_Get_correct:
  assumes "rep (sl_heap s) (sl_head s) as"
  shows "sl_Get s k = Some (map_of (entries_of (sl_heap s) as) k)"
proof -
  let ?h = "sl_heap s" and ?z = "sl_head s"
  have r: "rep ?h ?z (low_nodes ?h k as @ high_nodes ?h k as)" using assms by simp
  note nx = nxt_pred_at [OF r repD(4) [OF assms]] tall_next_0 [OF r]
  have "next_at ?h 0 (pred_at ?h ?z (low_nodes ?h k as) 0) =
      Some (case high_nodes ?h k as of [] \<Rightarrow> None | a # _ \<Rightarrow> Some a)"
    using nx by (simp add: next_at_eq)
  moreover have "set (high_nodes ?h k as) \<subseteq> dom ?h"
    using repD(2) [OF assms] set_dropWhileD by (fastforce simp: high_nodes_def)
  ultimately show ?thesis
    unfolding sl_Get_def search_correct [OF assms] map_of_entries_of [OF repD(3) [OF assms]]
    using repD(4) [OF assms]
    by (auto simp: key_of_def val_of_def split: list.splits option.splits)
qed

subsection \<open>Pointer updates\<close>

definition same_shape :: "heap \<Rightarrow> heap \<Rightarrow> bool" where
  "same_shape h h' = (\<forall>x. map_option (\<lambda>n. (nkey n, nval n, length (nexts n))) (h' x) =
                          map_option (\<lambda>n. (nkey n, nval n, length (nexts n))) (h x))"

lemma same_shapeD:
  assumes "same_shape h h'"
  shows "height h' a = height h a" "key_of h' a = key_of h a" "val_of h' a = val_of h a"
    "dom h' = dom h"
proof -
  have eq: "map_option (\<lambda>n. (nkey n, nval n, length (nexts n))) (h' x) =
            map_option (\<lambda>n. (nkey n, nval n, length (nexts n))) (h x)" for x
    using assms by (simp add: same_shape_def)
  show "height h' a = height h a" "key_of h' a = key_of h a" "val_of h' a = val_of h a"
    using eq [of a] by (auto simp: height_def key_of_def val_of_def split: option.splits)
  have "h' x = None \<longleftrightarrow> h x = None" for x
    using eq [of x] by (cases "h' x"; cases "h x") auto
  then show "dom h' = dom h" by (auto simp: dom_def)
qed

lemma same_shape_refl [simp]: "same_shape h h"
  by (simp add: same_shape_def)

lemma same_shape_trans: "same_shape h h' \<Longrightarrow> same_shape h' h'' \<Longrightarrow> same_shape h h''"
  by (simp add: same_shape_def)

lemma set_next_correct:
  assumes "l < height h p"
  obtains h' where "set_next h p l v = Some h'" "same_shape h h'"
    "\<And>x i. nxt h' x i = (if x = p \<and> i = l then v else nxt h x i)"
proof -
  obtain n where n: "h p = Some n" "l < length (nexts n)"
    using assms by (auto simp: height_def split: option.splits)
  show thesis
  proof
    show "set_next h p l v = Some (h(p \<mapsto> n\<lparr>nexts := (nexts n)[l := v]\<rparr>))"
      using n by (simp add: set_next_def)
  qed (use n in \<open>auto simp: same_shape_def nxt_def nth_list_update\<close>)
qed

lemma link_levels_correct:
  assumes "L \<le> height h a" "\<And>l. l < L \<Longrightarrow> l < height h (prevs ! l) \<and> prevs ! l \<noteq> a"
  shows "\<exists>h'. link_levels a L prevs h = Some h' \<and> same_shape h h' \<and>
    (\<forall>x i. nxt h' x i = (if x = a \<and> i < L then nxt h (prevs ! i) i
                         else if i < L \<and> x = prevs ! i then Some a else nxt h x i))"
  using assms
proof (induction L)
  case (Suc L)
  then obtain h1 where h1: "link_levels a L prevs h = Some h1" "same_shape h h1"
    and nx1: "\<And>x i. nxt h1 x i = (if x = a \<and> i < L then nxt h (prevs ! i) i
                         else if i < L \<and> x = prevs ! i then Some a else nxt h x i)"
    by auto
  note sh1 = same_shapeD [OF h1(2)]
  have L: "L < height h1 a" "L < height h1 (prevs ! L)" "prevs ! L \<noteq> a"
    using Suc.prems by (auto simp: sh1)
  obtain h2 where h2: "set_next h1 a L (nxt h1 (prevs ! L) L) = Some h2" "same_shape h1 h2"
    "\<And>x i. nxt h2 x i = (if x = a \<and> i = L then nxt h1 (prevs ! L) L else nxt h1 x i)"
    using set_next_correct [OF L(1)] by metis
  have "L < height h2 (prevs ! L)" using L(2) same_shapeD(1) [OF h2(2)] by simp
  then obtain h3 where h3: "set_next h2 (prevs ! L) L (Some a) = Some h3" "same_shape h2 h3"
    "\<And>x i. nxt h3 x i = (if x = prevs ! L \<and> i = L then Some a else nxt h2 x i)"
    using set_next_correct by metis
  have "link_levels a (Suc L) prevs h = Some h3"
    using h1(1) h2(1) h3(1) by (simp add: next_at_eq [OF L(2)])
  moreover have "same_shape h h3"
    using h1(2) h2(2) h3(2) same_shape_trans by blast
  moreover have "nxt h3 x i = (if x = a \<and> i < Suc L then nxt h (prevs ! i) i
                         else if i < Suc L \<and> x = prevs ! i then Some a else nxt h x i)" for x i
    using L(3) by (auto simp: h3(3) h2(3) nx1 less_Suc_eq)
  ultimately show ?case by blast
qed auto

lemma tall_next_cong:
  "(\<And>a. a \<in> set as \<Longrightarrow> height h' a = height h a) \<Longrightarrow> tall_next h' l as = tall_next h l as"
  by (induction as) (auto simp: tall_next_def)

lemma linked_cong:
  "(\<And>a. a \<in> set as \<Longrightarrow> height h' a = height h a) \<Longrightarrow>
   (\<And>a l. a \<in> set as \<Longrightarrow> l < height h a \<Longrightarrow> nxt h' a l = nxt h a l) \<Longrightarrow>
   linked h' as = linked h as"
proof (induction as)
  case (Cons a as)
  have "tall_next h' l as = tall_next h l as" for l
    using Cons.prems by (intro tall_next_cong) auto
  with Cons show ?case by auto
qed simp

lemma pred_at_eq_iff:
  assumes "distinct (z # T)" "z # T = xs @ b # T'" "l < height h b" "l < height h z"
  shows "b = pred_at h z T l \<longleftrightarrow> filter (\<lambda>a. l < height h a) T' = []"
proof -
  have "pred_at h z T l = last (filter (\<lambda>a. l < height h a) (z # T))"
    using assms(4) by (simp add: pred_at_def)
  also have "\<dots> = last (b # filter (\<lambda>a. l < height h a) T')"
    using assms(2,3) by simp
  finally have eq: "pred_at h z T l = last (b # filter (\<lambda>a. l < height h a) T')" .
  show ?thesis
  proof (cases "filter (\<lambda>a. l < height h a) T' = []")
    case False
    then have "pred_at h z T l \<in> set T'" using eq last_in_set [OF False] by auto
    moreover have "b \<notin> set T'" using assms(1,2) by (metis distinct.simps(2) distinct_append)
    ultimately show ?thesis using False by blast
  qed (simp add: eq)
qed

lemma linked_insert:
  assumes "linked h (T @ R)"
    and "\<And>b. b \<in> set (T @ R) \<Longrightarrow> height h' b = height h b"
    and "\<And>b l. b \<in> set R \<Longrightarrow> l < height h b \<Longrightarrow> nxt h' b l = nxt h b l"
    and "\<And>xs b T' l. T = xs @ b # T' \<Longrightarrow> l < height h b \<Longrightarrow>
           nxt h' b l = (if l < L \<and> filter (\<lambda>a. l < height h a) T' = [] then Some a else nxt h b l)"
    and "height h' a = L" "\<And>l. l < L \<Longrightarrow> nxt h' a l = tall_next h l R"
  shows "linked h' (T @ a # R)"
  using assms(1-4)
proof (induction T)
  case Nil
  have "linked h' R" using Nil linked_cong [of R h' h] by auto
  moreover have "tall_next h' l R = tall_next h l R" for l
    using Nil by (intro tall_next_cong) auto
  ultimately show ?case using assms(5,6) by simp
next
  case (Cons b T)
  have "linked h' (T @ a # R)"
  proof (rule Cons.IH)
    fix xs c T' l assume "T = xs @ c # T'" "l < height h c"
    then show "nxt h' c l = (if l < L \<and> filter (\<lambda>a. l < height h a) T' = [] then Some a else nxt h c l)"
      using Cons.prems(4) [of "b # xs"] by simp
  qed (use Cons.prems in auto)
  moreover have "nxt h' b l = tall_next h' l (T @ a # R)" if l: "l < height h' b" for l
  proof -
    have eqT: "tall_next h' l T = tall_next h l T" and eqR: "tall_next h' l R = tall_next h l R"
      using Cons.prems(2) by (auto intro!: tall_next_cong)
    have "l < height h b" using l Cons.prems(2) by simp
    then have "nxt h b l = tall_next h l (T @ R)"
      and "nxt h' b l = (if l < L \<and> filter (\<lambda>a. l < height h a) T = [] then Some a else nxt h b l)"
      using Cons.prems(1) Cons.prems(4) [of "[]" b T l] by auto
    then show ?thesis
      using assms(5) eqT eqR tall_next_None_iff [of h l T]
      by (auto simp: tall_next_append tall_next_Cons split: option.splits)
  qed
  ultimately show ?case by simp
qed


text \<open>Widening the head keeps the representation.\<close>

lemma rep_widen:
  assumes "rep h z as" "h z = Some n" "height h z \<le> m"
  shows "rep (h(z \<mapsto> n\<lparr>nexts := nexts n @ replicate (m - length (nexts n)) None\<rparr>)) z as"
    (is "rep ?h z as")
proof -
  note r = repD [OF assms(1)]
  have zn: "height h z = length (nexts n)" using assms(2) by (simp add: height_def)
  have ne: "a \<noteq> z" if "a \<in> set as" for a using r(1) that by auto
  have heights: "height ?h a = height h a" "key_of ?h a = key_of h a" "nxt ?h a l = nxt h a l"
    if "a \<in> set as" for a l
    using ne [OF that] by (auto simp: height_def key_of_def nxt_def)
  have hz: "height ?h z = m" using assms(2,3) zn by (simp add: height_def)
  have lk: "linked ?h as" using r(7) linked_cong [of as ?h h] heights by simp
  have tn: "tall_next ?h l as = tall_next h l as" for l
    using heights by (intro tall_next_cong) auto
  have "nxt ?h z l = tall_next ?h l as" if "l < m" for l
  proof (cases "l < height h z")
    case True
    then have "nxt h z l = tall_next h l as" using r(7) by simp
    moreover have "nxt ?h z l = nxt h z l"
      using True zn assms(2) by (simp add: nxt_def nth_append)
    ultimately show ?thesis by (simp add: tn)
  next
    case False
    then have "tall_next h l as = None"
      using r(6) by (fastforce simp: tall_next_None_iff filter_empty_conv)
    moreover have "nxt ?h z l = None"
      using False that zn by (simp add: nxt_def nth_append)
    ultimately show ?thesis by (simp add: tn)
  qed
  then have lz: "linked ?h (z # as)" using lk hz by simp
  have keys: "map (key_of ?h) as = map (key_of h) as" using heights by simp
  have dm: "dom ?h = dom h" using assms(2) by auto
  show ?thesis
  proof (rule repI)
    fix a assume "a \<in> set as"
    then show "0 < height ?h a" "height ?h a \<le> height ?h z"
      using r(5,6) [of a] heights(1) [of a] hz assms(3) by linarith+
  next
    show "sorted_wrt (<) (map (key_of ?h) as)" unfolding keys by (rule r(3))
  qed (use r(1,2,4) dm lz hz assms(3) in simp_all)
qed

lemma widen_head:
  assumes "rep h z as" "length prevs = height h z"
  obtains h1 where
    "(if length prevs < L then grow_head h z L else Some h) = Some h1" "rep h1 z as"
    "height h1 z = max (height h z) L"
    "\<And>a. a \<in> set as \<Longrightarrow> height h1 a = height h a" "\<And>a. key_of h1 a = key_of h a"
    "\<And>a. val_of h1 a = val_of h a" "dom h1 = dom h"
proof (cases "length prevs < L")
  case True
  obtain n where n: "h z = Some n" using repD(4) [OF assms(1)] height_pos_dom by blast
  let ?h = "h(z \<mapsto> n\<lparr>nexts := nexts n @ replicate (L - length (nexts n)) None\<rparr>)"
  have zn: "height h z = length (nexts n)" using n by (simp add: height_def)
  have ne: "a \<noteq> z" if "a \<in> set as" for a using repD(1) [OF assms(1)] that by auto
  show thesis
  proof (rule that [of ?h])
    show "rep ?h z as" using rep_widen [OF assms(1) n, of L] True assms(2) by simp
  qed (use True assms(2) n zn ne in
       \<open>auto simp: grow_head_def height_def key_of_def val_of_def dom_def split: option.splits\<close>)
next
  case False
  then show thesis using that [of h] assms by auto
qed

lemma extended_prevs:
  assumes r: "rep h z (T @ R)" and eq: "\<And>b. b \<in> set T \<Longrightarrow> height h1 b = height h b"
    and prevs: "prevs = map (pred_at h z T) [0..<height h z]" and "l < L"
  shows "(prevs @ replicate (L - length prevs) z) ! l = pred_at h1 z T l"
proof (cases "l < height h z")
  case True
  have "filter (\<lambda>b. l < height h1 b) T = filter (\<lambda>b. l < height h b) T"
    using eq by (intro filter_cong) auto
  then show ?thesis using True prevs by (simp add: nth_append pred_at_def)
next
  case False
  have "filter (\<lambda>b. l < height h1 b) T = []"
    using eq repD(6) [OF r] False by (fastforce simp: filter_empty_conv)
  then show ?thesis using False prevs assms(4) by (simp add: nth_append pred_at_def)
qed

lemma pred_at_mem: "pred_at h z T l \<in> set (z # T)"
  unfolding pred_at_def using last_in_set [of "z # filter (\<lambda>a. l < height h a) T"] by auto

text \<open>Linking a fresh node between the nodes below its key and the nodes above it.\<close>

lemma rep_insert:
  assumes r: "rep h z (T @ R)" and "a \<notin> dom h" and L: "0 < L" "L \<le> height h z"
    and T: "\<forall>b \<in> set T. key_of h b < k" and R: "\<forall>b \<in> set R. k < key_of h b"
    and h': "dom h' = insert a (dom h)" "height h' a = L" "key_of h' a = k"
      "\<And>b. b \<in> set (z # T @ R) \<Longrightarrow> height h' b = height h b \<and> key_of h' b = key_of h b"
    and nxa: "\<And>i. i < L \<Longrightarrow> nxt h' a i = tall_next h i R"
    and nx: "\<And>x i. x \<noteq> a \<Longrightarrow>
      nxt h' x i = (if i < L \<and> x = pred_at h z T i then Some a else nxt h x i)"
  shows "rep h' z (T @ a # R)"
proof (rule repI)
  note rr = repD [OF r]
  have new: "a \<notin> set (z # T @ R)" using assms(2) rr(2) by auto
  show "distinct (z # T @ a # R)" "dom h' = set (z # T @ a # R)"
    using rr(1,2) new h'(1) by auto
  have keys: "map (key_of h') (T @ a # R) = map (key_of h) T @ k # map (key_of h) R"
    using h'(3,4) by auto
  show "sorted_wrt (<) (map (key_of h') (T @ a # R))"
    unfolding keys using rr(3) T R by (auto simp: sorted_wrt_append)
  show "0 < height h' z" using rr(4) h'(4) by simp
  show "0 < height h' b" "height h' b \<le> height h' z" if "b \<in> set (T @ a # R)" for b
    using that rr(5,6) [of b] h'(2,4) L by auto
  have "linked h' ((z # T) @ a # R)"
  proof (rule linked_insert [where h = h and L = L])
    fix xs b T' l assume sp: "z # T = xs @ b # T'" and l: "l < height h b"
    then have b: "b \<in> set (z # T)" by simp
    have "l < height h z \<Longrightarrow> b = pred_at h z T l \<longleftrightarrow> filter (\<lambda>a. l < height h a) T' = []"
      using pred_at_eq_iff [OF _ sp l] rr(1) by simp
    moreover have "b \<noteq> a" using b new by auto
    ultimately show "nxt h' b l =
        (if l < L \<and> filter (\<lambda>a. l < height h a) T' = [] then Some a else nxt h b l)"
      using L(2) by (auto simp: nx)
  next
    fix b l assume "b \<in> set R"
    then have "b \<noteq> a" "b \<noteq> pred_at h z T l"
      using new rr(1) pred_at_mem [of h z T l] by auto
    then show "nxt h' b l = nxt h b l" by (simp add: nx)
  qed (use rr(7) h' nxa in auto)
  then show "linked h' (z # T @ a # R)" by simp
qed

lemma insert_node_correct:
  fixes s :: skiplist
  defines "h \<equiv> sl_heap s" and "z \<equiv> sl_head s" and "a \<equiv> sl_fresh s"
  assumes r: "rep h z (T @ R)" and fresh: "a \<notin> dom h" and L: "0 < L"
    and T: "\<forall>b \<in> set T. key_of h b < k" and R: "\<forall>b \<in> set R. k < key_of h b"
    and prevs: "prevs = map (pred_at h z T) [0..<height h z]"
  shows "\<exists>h'. insert_node s k v L prevs =
      Some (s\<lparr>sl_heap := h', sl_fresh := Suc a, sl_size := sl_size s + 1,
              sl_binary_size := sl_binary_size s + (of_nat (length k) + of_nat (length v))\<rparr>) \<and>
    rep h' z (T @ a # R) \<and> height h' z = max (height h z) L \<and>
    entries_of h' (T @ a # R) = entries_of h T @ (k, v) # entries_of h R"
proof -
  have "length prevs = height h z" using prevs by simp
  then obtain h1 where h1: "(if length prevs < L then grow_head h z L else Some h) = Some h1"
    "rep h1 z (T @ R)" "height h1 z = max (height h z) L"
    "\<And>b. b \<in> set (T @ R) \<Longrightarrow> height h1 b = height h b" "\<And>b. key_of h1 b = key_of h b"
    "\<And>b. val_of h1 b = val_of h b" "dom h1 = dom h"
    using widen_head [OF r, of prevs L] by metis
  have hL: "L \<le> height h1 z" using h1(3) by simp
  let ?h1 = "h1(a \<mapsto> \<lparr>nkey = k, nval = v, nexts = replicate L None\<rparr>)"
    and ?prevs = "prevs @ replicate (L - length prevs) z"
  have a_new: "a \<notin> set (z # T @ R)" using fresh repD(2) [OF r] by auto
  have old: "height ?h1 b = height h1 b" "nxt ?h1 b l = nxt h1 b l" "key_of ?h1 b = key_of h1 b"
    "val_of ?h1 b = val_of h b" if "b \<noteq> a" for b l
    using that h1(6) [of b] by (auto simp: height_def nxt_def key_of_def val_of_def)
  have pv: "?prevs ! l = pred_at h1 z T l" "pred_at h1 z T l \<noteq> a" if "l < L" for l
    using extended_prevs [OF r _ prevs that, of h1] h1(4) pred_at_mem [of h1 z T l] a_new by auto
  note nxp = nxt_pred_at [OF h1(2)]
  have pre: "L \<le> height ?h1 a" "\<And>l. l < L \<Longrightarrow> l < height ?h1 (?prevs ! l) \<and> ?prevs ! l \<noteq> a"
    using pv nxp(2) hL old(1) by (auto simp: height_def)
  obtain h' where h': "link_levels a L ?prevs ?h1 = Some h'" "same_shape ?h1 h'"
    and nx: "\<And>x i. nxt h' x i = (if x = a \<and> i < L then nxt ?h1 (?prevs ! i) i
                         else if i < L \<and> x = ?prevs ! i then Some a else nxt ?h1 x i)"
    using link_levels_correct [OF pre] by blast
  note sh = same_shapeD [OF h'(2)]
  have "insert_node s k v L prevs =
      Some (s\<lparr>sl_heap := h', sl_fresh := Suc a, sl_size := sl_size s + 1,
              sl_binary_size := sl_binary_size s + (of_nat (length k) + of_nat (length v))\<rparr>)"
    using h1(1) h'(1) unfolding insert_node_def h_def z_def a_def by simp
  moreover have ha: "height h' a = L" "key_of h' a = k" "val_of h' a = v"
    unfolding sh by (simp_all add: height_def key_of_def val_of_def)
  moreover have hb: "height h' b = height h1 b" "key_of h' b = key_of h b" "val_of h' b = val_of h b"
    if "b \<in> set (z # T @ R)" for b
  proof -
    have "b \<noteq> a" using that a_new by auto
    then show "height h' b = height h1 b" "key_of h' b = key_of h b" "val_of h' b = val_of h b"
      using old [of b] h1(5) by (simp_all add: sh)
  qed
  have "rep h' z (T @ a # R)"
  proof (rule rep_insert [OF h1(2) _ L hL])
    show "nxt h' a i = tall_next h1 i R" if "i < L" for i
      using nxp(1) [of i] hL pv [OF that] old(2) that by (simp add: nx)
    show "nxt h' x i = (if i < L \<and> x = pred_at h1 z T i then Some a else nxt h1 x i)"
      if "x \<noteq> a" for x i
      using pv old(2) [OF that] that by (auto simp: nx)
    show "height h' b = height h1 b \<and> key_of h' b = key_of h1 b" if "b \<in> set (z # T @ R)" for b
      using hb [OF that] h1(5) by simp
  qed (use T R ha sh(4) fresh h1(5,7) in simp_all)
  moreover have "entries_of h' (T @ a # R) = entries_of h T @ (k, v) # entries_of h R"
    using ha(2,3) hb by (simp add: entries_of_def)
  moreover have "height h' z = max (height h z) L" using hb(1) [of z] h1(3) by simp
  ultimately show ?thesis by blast
qed


subsection \<open>The list as a sorted association list\<close>

definition esize :: "(string \<times> string) list \<Rightarrow> nat" where
  "esize es = sum_list (map (\<lambda>(k, v). length k + length v) es)"

text \<open>
  The contents of a list that satisfies the invariant, with the two counters: the number of
  entries and the number of key and value bytes, as 64-bit words.
\<close>

definition sl_rep :: "skiplist \<Rightarrow> (string \<times> string) list \<Rightarrow> bool" where
  "sl_rep s es = (\<exists>as. rep (sl_heap s) (sl_head s) as \<and> es = entries_of (sl_heap s) as \<and>
     (\<forall>a \<in> dom (sl_heap s). a < sl_fresh s) \<and>
     sl_size s = of_nat (length es) \<and> sl_binary_size s = of_nat (esize es))"

lemma esize_simps [simp, size_simps]:
  "esize [] = 0" "esize ((k, v) # es) = length k + length v + esize es"
  "esize (xs @ ys) = esize xs + esize ys"
  by (simp_all add: esize_def)

lemma rep_cong:
  assumes "rep h z as" "dom h' = dom h"
    "\<And>a. a \<in> dom h \<Longrightarrow> height h' a = height h a \<and> key_of h' a = key_of h a"
    "\<And>a l. a \<in> dom h \<Longrightarrow> l < height h a \<Longrightarrow> nxt h' a l = nxt h a l"
  shows "rep h' z as"
proof (rule repI)
  note r = repD [OF assms(1)]
  have keys: "map (key_of h') as = map (key_of h) as" using assms(3) r(2) by simp
  show "sorted_wrt (<) (map (key_of h') as)" unfolding keys by (rule r(3))
  have "linked h' (z # as) = linked h (z # as)"
    using assms(3,4) r(2) by (intro linked_cong) auto
  then show "linked h' (z # as)" using r(7) by simp
  show "0 < height h' a" "height h' a \<le> height h' z" if "a \<in> set as" for a
    using r(5,6) [OF that] assms(3) r(2) that by auto
qed (use repD [OF assms(1)] assms(2,3) in auto)

lemma sl_rep_sorted: "sl_rep s es \<Longrightarrow> sorted_keys es"
  unfolding sl_rep_def sorted_keys_def using repD(3) by fastforce

lemma sl_new_rep: "sl_rep sl_new []"
proof -
  have "rep (sl_heap sl_new) (sl_head sl_new) []"
    by (rule repI) (auto simp: sl_new_def height_def nxt_def tall_next_def)
  then show ?thesis unfolding sl_rep_def
    by (intro exI [of _ "[]"]) (auto simp: sl_new_def entries_of_def split: if_splits)
qed

lemma sl_Get_rep: "sl_rep s es \<Longrightarrow> sl_Get s k = Some (map_of es k)"
  unfolding sl_rep_def using sl_Get_correct by blast

lemma collect_linked:
  assumes "linked h as" "\<forall>a \<in> set as. 0 < height h a"
  shows "collect h (case as of [] \<Rightarrow> None | a # _ \<Rightarrow> Some a) = Some (entries_of h as)"
  using assms
proof (induction as)
  case Nil
  then show ?case by (subst collect.simps) (simp add: entries_of_def)
next
  case (Cons a as)
  have "nxt h a 0 = (case as of [] \<Rightarrow> None | a # _ \<Rightarrow> Some a)"
    using Cons.prems by (auto simp: tall_next_def split: list.splits)
  moreover obtain n where "h a = Some n" using Cons.prems(2) height_pos_dom [of 0 h a] by auto
  ultimately show ?case
    using Cons by (subst collect.simps)
      (simp add: next_at_eq entries_of_def key_of_def val_of_def)
qed

lemma sl_entries_rep: "sl_rep s es \<Longrightarrow> sl_entries s = Some es"
proof -
  assume "sl_rep s es"
  then obtain as where r: "rep (sl_heap s) (sl_head s) as" and es: "es = entries_of (sl_heap s) as"
    unfolding sl_rep_def by blast
  have r': "rep (sl_heap s) (sl_head s) ([] @ as)" using r by simp
  have "nxt (sl_heap s) (sl_head s) 0 = (case as of [] \<Rightarrow> None | a # _ \<Rightarrow> Some a)"
    using repD(4,7) [OF r] tall_next_0 [OF r'] by simp
  moreover have "linked (sl_heap s) as" "\<forall>a \<in> set as. 0 < height (sl_heap s) a"
    using repD(5,7) [OF r] by auto
  ultimately show ?thesis
    using collect_linked [of "sl_heap s" as] es
    by (simp add: sl_entries_def next_at_eq [OF repD(4) [OF r]])
qed

lemma entries_split:
  assumes "rep h z as"
  shows "\<forall>e \<in> set (entries_of h (low_nodes h k as)). fst e < k"
    "\<And>b R'. high_nodes h k as = b # R' \<Longrightarrow> \<not> key_of h b < k \<and> (\<forall>c \<in> set R'. key_of h b < key_of h c)"
proof -
  show "\<forall>e \<in> set (entries_of h (low_nodes h k as)). fst e < k"
    using low_nodes_less [of h k as] by (auto simp: entries_of_def)
  show "\<not> key_of h b < k \<and> (\<forall>c \<in> set R'. key_of h b < key_of h c)" if "high_nodes h k as = b # R'" for b R'
  proof -
    have "sorted_wrt (<) (map (key_of h) (low_nodes h k as @ b # R'))"
      using repD(3) [OF assms] low_high_nodes [of h k as] that by metis
    then have "\<forall>c \<in> set R'. key_of h b < key_of h c" by (auto simp: sorted_wrt_append)
    moreover have "\<not> key_of h b < k"
      using high_nodes_not_less [OF repD(3) [OF assms], of k] that by simp
    ultimately show ?thesis by blast
  qed
qed


lemma succ_of_pred:
  assumes "rep h z as"
  shows "next_at h 0 (pred_at h z (low_nodes h k as) 0) =
    Some (case high_nodes h k as of [] \<Rightarrow> None | a # _ \<Rightarrow> Some a)"
proof -
  have r: "rep h z (low_nodes h k as @ high_nodes h k as)" using assms by simp
  show ?thesis
    using nxt_pred_at [OF r repD(4) [OF assms]] tall_next_0 [OF r] by (simp add: next_at_eq)
qed

text \<open>Both paths of \<^const>\<open>sl_Put\<close>, as one equation on a represented list.\<close>

lemma sl_Put_cases:
  assumes r: "rep (sl_heap s) (sl_head s) as"
  defines "h \<equiv> sl_heap s"
  shows "sl_Put draw g s k v =
    (case high_nodes h k as of
       b # _ \<Rightarrow> if key_of h b = k
          then Some (s\<lparr>sl_heap := h(b \<mapsto> (the (h b))\<lparr>nval := v\<rparr>),
                      sl_binary_size := sl_binary_size s +
                        (of_nat (length v) - of_nat (length (val_of h b)))\<rparr>, g)
          else map_option (\<lambda>s'. (s', snd (draw g))) (insert_node s k v (fst (draw g))
                 (map (pred_at h (sl_head s) (low_nodes h k as)) [0..<height h (sl_head s)]))
     | [] \<Rightarrow> map_option (\<lambda>s'. (s', snd (draw g))) (insert_node s k v (fst (draw g))
                 (map (pred_at h (sl_head s) (low_nodes h k as)) [0..<height h (sl_head s)])))"
proof -
  have pos: "0 < height (sl_heap s) (sl_head s)" by (rule repD(4) [OF r])
  have dom: "set (high_nodes h k as) \<subseteq> dom h"
    using repD(2) [OF r] set_dropWhileD by (fastforce simp: high_nodes_def h_def)
  note sp = succ_of_pred [OF r, of k]
  show ?thesis
  proof (cases "high_nodes h k as")
    case Nil
    then show ?thesis using sp pos unfolding sl_Put_def search_correct [OF r] h_def
      by (cases "draw g") (simp add: map_conv_bind_option comp_def)
  next
    case (Cons b R')
    then obtain m where m: "h b = Some m" using dom by auto
    then show ?thesis using Cons sp pos unfolding sl_Put_def search_correct [OF r] h_def
      by (cases "draw g") (simp add: key_of_def val_of_def map_conv_bind_option comp_def)
  qed
qed


lemma sl_Put_update:
  fixes v :: string
  assumes r: "rep h z as" and hb: "high_nodes h k as = b # R'" "key_of h b = k"
  defines "h' \<equiv> h(b \<mapsto> (the (h b))\<lparr>nval := v\<rparr>)"
  shows "rep h' z as" "dom h' = dom h"
    "entries_of h as = entries_of h (low_nodes h k as) @ (k, val_of h b) # entries_of h R'"
    "entries_of h' as = entries_of h (low_nodes h k as) @ (k, v) # entries_of h R'"
    "height h' z = height h z"
proof -
  have as: "as = low_nodes h k as @ b # R'" using low_high_nodes [of h k as] hb(1) by simp
  then have "b \<in> dom h" using repD(2) [OF r] by (metis in_set_conv_decomp list.set_intros(2))
  then obtain m where m: "h b = Some m" by auto
  have "h' = h(b \<mapsto> m\<lparr>nval := v\<rparr>)" using m by (simp add: h'_def)
  then have same: "height h' a = height h a" "key_of h' a = key_of h a" "nxt h' a l = nxt h a l"
    "val_of h' a = (if a = b then v else val_of h a)" for a l
    using m by (auto simp: height_def key_of_def nxt_def val_of_def)
  show "height h' z = height h z" by (rule same(1))
  show "dom h' = dom h" using m by (auto simp: h'_def)
  then show "rep h' z as" using same by (intro rep_cong [OF r]) auto
  have "distinct (low_nodes h k as @ b # R')"
    using repD(1) [OF r] as by (metis distinct.simps(2))
  then have "b \<notin> set (low_nodes h k as)" "b \<notin> set R'" by auto
  then have "entries_of h' (low_nodes h k as @ b # R') =
      entries_of h (low_nodes h k as) @ (k, v) # entries_of h R'"
    using hb(2) by (auto simp: entries_of_def same)
  then show "entries_of h' as = entries_of h (low_nodes h k as) @ (k, v) # entries_of h R'"
    using as by simp
  have "entries_of h (low_nodes h k as @ b # R') =
      entries_of h (low_nodes h k as) @ (k, val_of h b) # entries_of h R'"
    using hb(2) by (simp add: entries_of_def)
  then show "entries_of h as = entries_of h (low_nodes h k as) @ (k, val_of h b) # entries_of h R'"
    using as by simp
qed

abbreviation sl_levels :: "skiplist \<Rightarrow> nat" where
  "sl_levels s \<equiv> height (sl_heap s) (sl_head s)"

lemma sl_repE:
  assumes "sl_rep s es"
  obtains as where "rep (sl_heap s) (sl_head s) as" "es = entries_of (sl_heap s) as"
    "\<forall>a \<in> dom (sl_heap s). a < sl_fresh s" "sl_size s = of_nat (length es)"
    "sl_binary_size s = of_nat (esize es)"
  using assms unfolding sl_rep_def by blast

lemma entries_low_high:
  "entries_of h as = entries_of h (low_nodes h k as) @ entries_of h (high_nodes h k as)"
  by (metis entries_of_append low_high_nodes)

lemma keys_low: "\<forall>x \<in> fst ` set (entries_of h (low_nodes h k as)). x < k"
  using low_nodes_less [of h k as] by simp

lemma sl_insert_rep:
  assumes rep: "sl_rep s es" and r: "rep (sl_heap s) (sl_head s) as" and es: "es = entries_of (sl_heap s) as"
    and gt: "\<forall>b \<in> set (high_nodes (sl_heap s) k as). k < key_of (sl_heap s) b" and L: "0 < L"
  shows "\<exists>s'. insert_node s k v L
      (map (pred_at (sl_heap s) (sl_head s) (low_nodes (sl_heap s) k as))
           [0..<sl_levels s]) = Some s' \<and> sl_rep s' (sput k v es) \<and>
      sl_levels s' = max (sl_levels s) L"
proof -
  let ?h = "sl_heap s" and ?z = "sl_head s"
  let ?T = "low_nodes ?h k as" and ?R = "high_nodes ?h k as"
  have fr: "\<forall>a \<in> dom ?h. a < sl_fresh s" and cnt: "sl_size s = of_nat (length es)"
    "sl_binary_size s = of_nat (esize es)"
    using rep unfolding sl_rep_def by auto
  have r': "rep ?h ?z (?T @ ?R)" using r by simp
  have new: "sl_fresh s \<notin> dom ?h" using fr by auto
  obtain h' where h': "insert_node s k v L (map (pred_at ?h ?z ?T) [0..<height ?h ?z]) =
      Some (s\<lparr>sl_heap := h', sl_fresh := Suc (sl_fresh s), sl_size := sl_size s + 1,
            sl_binary_size := sl_binary_size s + (of_nat (length k) + of_nat (length v))\<rparr>)"
    "rep h' ?z (?T @ sl_fresh s # ?R)" "height h' ?z = max (height ?h ?z) L"
    "entries_of h' (?T @ sl_fresh s # ?R) = entries_of ?h ?T @ (k, v) # entries_of ?h ?R"
    using insert_node_correct [OF r' new L low_nodes_less gt refl] by blast
  have "sput k v (entries_of ?h ?R) = (k, v) # entries_of ?h ?R"
    using gt by (cases ?R) (auto simp: entries_of_def)
  then have sp: "sput k v es = entries_of ?h ?T @ (k, v) # entries_of ?h ?R"
    using es entries_low_high [of ?h as k] sput_append_right [OF keys_low] by simp
  have dm: "dom h' = insert (sl_fresh s) (dom ?h)"
    using repD(2) [OF h'(2)] repD(2) [OF r] low_high_nodes [of ?h k as] by (metis
      Un_insert_right insert_commute list.simps(15) set_append)
  have "sl_rep (s\<lparr>sl_heap := h', sl_fresh := Suc (sl_fresh s), sl_size := sl_size s + 1,
            sl_binary_size := sl_binary_size s + (of_nat (length k) + of_nat (length v))\<rparr>) (sput k v es)"
    unfolding sl_rep_def sp using h'(2,4) dm fr cnt es entries_low_high [of ?h as k]
    by (intro exI [of _ "?T @ sl_fresh s # ?R"]) (auto simp: less_Suc_eq)
  with h'(1,3) show ?thesis by auto
qed

lemma sl_Put_rep:
  assumes "sl_rep s es" "0 < fst (draw g)"
  shows "\<exists>s' g'. sl_Put draw g s k v = Some (s', g') \<and> sl_rep s' (sput k v es) \<and>
    sl_levels s' \<le> max (sl_levels s) (fst (draw g)) \<and> g' \<in> {g, snd (draw g)}"
proof -
  let ?h = "sl_heap s"
  obtain as where r: "rep ?h (sl_head s) as" and es: "es = entries_of ?h as"
    and fr: "\<forall>a \<in> dom ?h. a < sl_fresh s"
    and cnt: "sl_size s = of_nat (length es)" "sl_binary_size s = of_nat (esize es)"
    using assms(1) by (rule sl_repE)
  show ?thesis
  proof (cases "\<exists>b R'. high_nodes ?h k as = b # R' \<and> key_of ?h b = k")
    case True
    then obtain b R' where b: "high_nodes ?h k as = b # R'" "key_of ?h b = k" by blast
    note up = sl_Put_update(1,2,4,5) [OF r b, where v = v] sl_Put_update(3) [OF r b]
    have "sput k v es = entries_of ?h (low_nodes ?h k as) @ (k, v) # entries_of ?h R'"
      using es up(5) sput_append_right [OF keys_low] by simp
    then show ?thesis
      using up fr cnt es unfolding sl_Put_cases [OF r] sl_rep_def b(1)
      by (auto simp: b(2) algebra_simps intro!: exI [of _ as])
  next
    case False
    then have "\<forall>b \<in> set (high_nodes ?h k as). k < key_of ?h b"
      using entries_split(2) [OF r, of k] high_nodes_not_less [OF repD(3) [OF r], of k]
      by (cases "high_nodes ?h k as") (auto simp: not_less_iff_gr_or_eq)
    from sl_insert_rep [OF assms(1) r es this assms(2)] show ?thesis
      unfolding sl_Put_cases [OF r] using False by (fastforce split: list.splits)
  qed
qed


subsection \<open>Deletion\<close>

lemma target_at_correct:
  assumes r: "rep h z as" and l: "l < height h z" "prevs ! l = pred_at h z (low_nodes h k as) l"
  shows "target_at h k prevs l = Some (case high_nodes h k as of
     [] \<Rightarrow> None | t # _ \<Rightarrow> if key_of h t = k \<and> l < height h t then Some t else None)"
proof -
  have r': "rep h z (low_nodes h k as @ high_nodes h k as)" using r by simp
  have nx: "next_at h l (prevs ! l) = Some (tall_next h l (high_nodes h k as))"
    using nxt_pred_at [OF r' l(1)] l(2) by (simp add: next_at_eq)
  have dm: "set (high_nodes h k as) \<subseteq> dom h"
    using repD(2) [OF r] set_dropWhileD by (fastforce simp: high_nodes_def)
  show ?thesis
  proof (cases "tall_next h l (high_nodes h k as)")
    case None
    then show ?thesis
      by (auto simp: target_at_def nx tall_next_Cons split: list.splits if_splits)
  next
    case (Some q)
    then have q: "q \<in> set (high_nodes h k as)" "l < height h q" by (auto dest: tall_next_SomeD)
    then obtain t R' where R: "high_nodes h k as = t # R'" by (cases "high_nodes h k as") auto
    note es = entries_split(2) [OF r R]
    have "key_of h q = k \<longleftrightarrow> key_of h t = k \<and> l < height h t"
    proof (cases "l < height h t")
      case True
      then have "q = t" using Some R by (simp add: tall_next_Cons)
      with True show ?thesis by simp
    next
      case False
      then have "q \<in> set R'" using q R by auto
      then have "key_of h t < key_of h q" "\<not> key_of h t < k" using es by auto
      then have "k < key_of h q" by (metis not_less_iff_gr_or_eq order.strict_trans)
      with False show ?thesis by auto
    qed
    moreover have "key_of h t = k \<and> l < height h t \<Longrightarrow> q = t"
      using Some R by (simp add: tall_next_Cons)
    moreover obtain m where "h q = Some m" "nkey m = key_of h q" using dm q by (auto simp: key_of_def)
    ultimately show ?thesis
      by (simp add: target_at_def nx R Some [unfolded R])
  qed
qed

lemma targets_upto_correct:
  assumes r: "rep h z as" "n \<le> height h z" "\<And>l. l < n \<Longrightarrow> prevs ! l = pred_at h z (low_nodes h k as) l"
  shows "targets_upto h k prevs n = Some (map (\<lambda>l. case high_nodes h k as of
     [] \<Rightarrow> None | t # _ \<Rightarrow> if key_of h t = k \<and> l < height h t then Some t else None) [0..<n])"
  using assms by (induction n) (simp_all add: target_at_correct)

lemma unlink_none: "\<forall>l < n. ts ! l = None \<Longrightarrow> unlink_levels n prevs ts h = Some h"
  by (induction n) auto

lemma unlink_levels_correct:
  assumes "\<And>l. l < n \<Longrightarrow> l < height h (prevs ! l) \<and> prevs ! l \<noteq> t"
    and "\<And>l. l < n \<Longrightarrow> ts ! l = (if l < height h t then Some t else None)"
  shows "\<exists>h'. unlink_levels n prevs ts h = Some h' \<and> same_shape h h' \<and>
    (\<forall>x i. nxt h' x i = (if i < n \<and> i < height h t \<and> x = prevs ! i then nxt h t i else nxt h x i))"
  using assms
proof (induction n arbitrary: h)
  case (Suc n)
  show ?case
  proof (cases "n < height h t")
    case True
    have pn: "n < height h (prevs ! n)" "prevs ! n \<noteq> t" using Suc.prems(1) by auto
    obtain h1 where h1: "set_next h (prevs ! n) n (nxt h t n) = Some h1" "same_shape h h1"
      "\<And>x i. nxt h1 x i = (if x = prevs ! n \<and> i = n then nxt h t n else nxt h x i)"
      using set_next_correct [OF pn(1)] by metis
    note sh = same_shapeD [OF h1(2)]
    have "\<exists>h'. unlink_levels n prevs ts h1 = Some h' \<and> same_shape h1 h' \<and>
      (\<forall>x i. nxt h' x i = (if i < n \<and> i < height h1 t \<and> x = prevs ! i then nxt h1 t i else nxt h1 x i))"
      using Suc.prems by (intro Suc.IH) (auto simp: sh)
    then obtain h' where h': "unlink_levels n prevs ts h1 = Some h'" "same_shape h1 h'"
      "\<And>x i. nxt h' x i = (if i < n \<and> i < height h1 t \<and> x = prevs ! i then nxt h1 t i else nxt h1 x i)"
      by blast
    have "unlink_levels (Suc n) prevs ts h = Some h'"
      using True Suc.prems(2) [of n] h1(1) h'(1) by (simp add: next_at_eq)
    moreover have "same_shape h h'" using h1(2) h'(2) same_shape_trans by blast
    moreover have "nxt h' x i = (if i < Suc n \<and> i < height h t \<and> x = prevs ! i then nxt h t i
        else nxt h x i)" for x i
      using True pn(2) by (auto simp: h'(3) h1(3) sh less_Suc_eq)
    ultimately show ?thesis by blast
  next
    case False
    have "\<exists>h'. unlink_levels n prevs ts h = Some h' \<and> same_shape h h' \<and>
      (\<forall>x i. nxt h' x i = (if i < n \<and> i < height h t \<and> x = prevs ! i then nxt h t i else nxt h x i))"
      using Suc.prems by (intro Suc.IH) auto
    moreover have "unlink_levels (Suc n) prevs ts h = unlink_levels n prevs ts h"
      using False Suc.prems(2) [of n] by simp
    ultimately show ?thesis using False by (auto simp: less_Suc_eq)
  qed
qed auto

lemma linked_remove:
  assumes "linked h (T @ t # R)"
    and "\<And>b. b \<in> set (T @ R) \<Longrightarrow> height h' b = height h b"
    and "\<And>b l. b \<in> set R \<Longrightarrow> l < height h b \<Longrightarrow> nxt h' b l = nxt h b l"
    and "\<And>xs b T' l. T = xs @ b # T' \<Longrightarrow> l < height h b \<Longrightarrow>
           nxt h' b l = (if l < height h t \<and> filter (\<lambda>a. l < height h a) T' = [] then nxt h t l
                         else nxt h b l)"
  shows "linked h' (T @ R)"
  using assms
proof (induction T)
  case Nil
  then show ?case using linked_cong [of R h' h] by auto
next
  case (Cons b T)
  have "linked h' (T @ R)"
  proof (rule Cons.IH)
    fix xs c T' l assume "T = xs @ c # T'" "l < height h c"
    then show "nxt h' c l = (if l < height h t \<and> filter (\<lambda>a. l < height h a) T' = [] then nxt h t l
        else nxt h c l)"
      using Cons.prems(4) [of "b # xs"] by simp
  qed (use Cons.prems in auto)
  moreover have "nxt h' b l = tall_next h' l (T @ R)" if l: "l < height h' b" for l
  proof -
    have eqT: "tall_next h' l T = tall_next h l T" and eqR: "tall_next h' l R = tall_next h l R"
      using Cons.prems(2) by (auto intro!: tall_next_cong)
    have "l < height h b" using l Cons.prems(2) by simp
    then have nb: "nxt h b l = tall_next h l (T @ t # R)"
      and "nxt h' b l = (if l < height h t \<and> filter (\<lambda>a. l < height h a) T = [] then nxt h t l
        else nxt h b l)"
      using Cons.prems(1) Cons.prems(4) [of "[]" b T l] by auto
    moreover have "l < height h t \<Longrightarrow> nxt h t l = tall_next h l R"
      using linked_nxt [of h "b # T" t R] Cons.prems(1) by simp
    ultimately show ?thesis
      using eqT eqR tall_next_None_iff [of h l T]
      by (auto simp: tall_next_append tall_next_Cons split: option.splits)
  qed
  ultimately show ?case by simp
qed

lemma rep_remove:
  assumes r: "rep h z (T @ t # R)"
    and h': "dom h' = dom h - {t}"
      "\<And>b. b \<in> set (z # T @ R) \<Longrightarrow> height h' b = height h b \<and> key_of h' b = key_of h b"
    and nx: "\<And>x i. x \<noteq> t \<Longrightarrow> nxt h' x i =
      (if i < height h t \<and> x = pred_at h z T i then nxt h t i else nxt h x i)"
  shows "rep h' z (T @ R)"
proof (rule repI)
  note rr = repD [OF r]
  show "distinct (z # T @ R)" "dom h' = set (z # T @ R)" using rr(1,2) h'(1) by auto
  have keys: "map (key_of h') (T @ R) = map (key_of h) (T @ R)" using h'(2) by auto
  show "sorted_wrt (<) (map (key_of h') (T @ R))"
    unfolding keys using rr(3) by (auto simp: sorted_wrt_append)
  show "0 < height h' z" using rr(4) h'(2) by simp
  show "0 < height h' b" "height h' b \<le> height h' z" if "b \<in> set (T @ R)" for b
    using that rr(5,6) [of b] h'(2) by auto
  have "linked h' ((z # T) @ R)"
  proof (rule linked_remove [where h = h and t = t])
    fix xs b T' l assume sp: "z # T = xs @ b # T'" and l: "l < height h b"
    then have "b \<in> set (z # T)" by simp
    then have "b \<noteq> t" using rr(1) by auto
    moreover have "l < height h z \<Longrightarrow> b = pred_at h z T l \<longleftrightarrow> filter (\<lambda>a. l < height h a) T' = []"
      using pred_at_eq_iff [OF _ sp l] rr(1) by simp
    moreover have "height h t \<le> height h z" using rr(6) by simp
    ultimately show "nxt h' b l =
        (if l < height h t \<and> filter (\<lambda>a. l < height h a) T' = [] then nxt h t l else nxt h b l)"
      by (auto simp: nx)
  next
    fix b l assume "b \<in> set R"
    then have "b \<noteq> t" "b \<noteq> pred_at h z T l" using rr(1) pred_at_mem [of h z T l] by auto
    then show "nxt h' b l = nxt h b l" by (simp add: nx)
  qed (use rr(7) h' in auto)
  then show "linked h' (z # T @ R)" by simp
qed


lemma trim_levels_bounds:
  "1 \<le> n \<Longrightarrow> 1 \<le> trim_levels ns n \<and> trim_levels ns n \<le> n \<and>
     (\<forall>l. trim_levels ns n \<le> l \<longrightarrow> l < n \<longrightarrow> ns ! l = None)"
proof (induction ns n rule: trim_levels.induct)
  case (1 ns n)
  show ?case
  proof (cases "1 < n \<and> ns ! (n - 1) = None")
    case True
    then have eq: "trim_levels ns n = trim_levels ns (n - 1)" by (subst trim_levels.simps) simp
    have IH: "1 \<le> trim_levels ns (n - 1)" "trim_levels ns (n - 1) \<le> n - 1"
      "\<And>l. trim_levels ns (n - 1) \<le> l \<Longrightarrow> l < n - 1 \<Longrightarrow> ns ! l = None"
      using "1.IH" [OF True] True by auto
    have "ns ! l = None" if "trim_levels ns (n - 1) \<le> l" "l < n" for l
      using IH(3) [OF that(1)] that(2) True by (cases "l = n - 1") auto
    with IH(1,2) show ?thesis unfolding eq by auto
  next
    case False
    then show ?thesis using "1.prems" by (subst (1 2 3) trim_levels.simps) auto
  qed
qed

text \<open>Dropping empty top levels of the head keeps the representation.\<close>

lemma rep_shrink:
  assumes r: "rep h z as"
  obtains h' where "shrink_head h z = Some h'" "rep h' z as" "dom h' = dom h"
    "entries_of h' as = entries_of h as" "height h' z \<le> height h z"
proof -
  note rr = repD [OF r]
  obtain n where n: "h z = Some n" using rr(4) height_pos_dom by blast
  define m where "m = trim_levels (nexts n) (length (nexts n))"
  define h' where "h' = h(z \<mapsto> n\<lparr>nexts := take m (nexts n)\<rparr>)"
  have zn: "height h z = length (nexts n)" using n by (simp add: height_def)
  have m: "1 \<le> m" "m \<le> height h z" "\<And>l. m \<le> l \<Longrightarrow> l < height h z \<Longrightarrow> nxt h z l = None"
    using trim_levels_bounds [of "length (nexts n)" "nexts n"] rr(4) zn n
    by (auto simp: m_def nxt_def)
  have ne: "a \<noteq> z" if "a \<in> set as" for a using rr(1) that by auto
  have same: "height h' a = height h a" "nxt h' a l = nxt h a l" if "a \<noteq> z" for a l
    using that n by (auto simp: h'_def height_def nxt_def)
  have kv: "key_of h' = key_of h" "val_of h' = val_of h"
    using n by (auto simp: h'_def key_of_def val_of_def)
  have hz: "height h' z = m" using zn m(2) by (simp add: h'_def height_def)
  have tn: "tall_next h' l as = tall_next h l as" "linked h' as = linked h as" for l
    using ne same by (auto intro!: tall_next_cong linked_cong)
  have top: "height h a \<le> m" if a: "a \<in> set as" for a
  proof (rule ccontr)
    assume "\<not> height h a \<le> m"
    then have "m \<le> height h a - 1" "height h a - 1 < height h z" "height h a - 1 < height h a"
      using rr(5,6) [OF a] m(1) by auto
    moreover then have "tall_next h (height h a - 1) as = None"
      using rr(7) m(3) by (metis linked.simps(2))
    ultimately show False using a by (auto simp: tall_next_None_iff filter_empty_conv)
  qed
  have "rep h' z as"
  proof (rule repI)
    show "sorted_wrt (<) (map (key_of h') as)" using rr(3) by (simp only: kv)
    have "nxt h' z l = nxt h z l" if "l < m" for l
      using that n by (simp add: h'_def nxt_def)
    then show "linked h' (z # as)" using rr(7) m(2) tn hz by auto
    show "0 < height h' a" "height h' a \<le> height h' z" if "a \<in> set as" for a
      using rr(5) [OF that] top [OF that] same(1) [OF ne [OF that]] hz by auto
  qed (use rr(1,2) n hz m(1) in \<open>auto simp: h'_def\<close>)
  moreover have "entries_of h' as = entries_of h as" by (simp add: entries_of_def kv)
  ultimately show thesis
    using that [of h'] n hz m(2) by (auto simp: shrink_head_def h'_def m_def)
qed


text \<open>Unlinking and freeing the node that holds the key.\<close>

lemma remove_node_correct:
  assumes r: "rep h z (T @ t # R)" and prevs: "prevs = map (pred_at h z T) [0..<height h z]"
    and ts: "ts = map (\<lambda>l. if l < height h t then Some t else None) [0..<height h z]"
  shows "\<exists>h'. unlink_levels (height h z) prevs ts h = Some h' \<and> same_shape h h' \<and>
    rep (h'(t := None)) z (T @ R) \<and> dom (h'(t := None)) = dom h - {t} \<and>
    height (h'(t := None)) z = height h z \<and>
    entries_of (h'(t := None)) (T @ R) = entries_of h T @ entries_of h R"
proof -
  note rr = repD [OF r]
  have pt: "pred_at h z T l \<noteq> t" for l using pred_at_mem [of h z T l] rr(1) by auto
  obtain h' where h': "unlink_levels (height h z) prevs ts h = Some h'" "same_shape h h'"
    and nx: "\<And>x i. nxt h' x i =
      (if i < height h z \<and> i < height h t \<and> x = prevs ! i then nxt h t i else nxt h x i)"
    using unlink_levels_correct [of "height h z" h prevs t ts] nxt_pred_at(2) [OF r] pt prevs ts by auto
  note sh = same_shapeD [OF h'(2)]
  have tz: "height h t \<le> height h z" using rr(6) by simp
  have old: "height (h'(t := None)) b = height h b" "key_of (h'(t := None)) b = key_of h b"
    "val_of (h'(t := None)) b = val_of h b" "nxt (h'(t := None)) b l = nxt h' b l" if "b \<noteq> t" for b l
    using that sh(1-3) [of b] by (auto simp: height_def key_of_def val_of_def nxt_def)
  have dm: "dom (h'(t := None)) = dom h - {t}" using sh(4) by auto
  have nt: "b \<noteq> t" if "b \<in> set (z # T @ R)" for b using that rr(1) by auto
  have "rep (h'(t := None)) z (T @ R)"
  proof (rule rep_remove [OF r dm])
    fix x i assume "x \<noteq> t"
    then show "nxt (h'(t := None)) x i =
        (if i < height h t \<and> x = pred_at h z T i then nxt h t i else nxt h x i)"
      using old(4) [of x i] tz prevs by (auto simp: nx)
  qed (use old nt in auto)
  moreover have "entries_of (h'(t := None)) (T @ R) = entries_of h T @ entries_of h R"
    using old nt by (simp add: entries_of_def)
  moreover have "height (h'(t := None)) z = height h z" using old(1) nt by simp
  ultimately show ?thesis using h' dm by blast
qed

lemma sl_Delete_absent:
  assumes r: "rep (sl_heap s) (sl_head s) as" and small: "height (sl_heap s) (sl_head s) \<le> 32"
    and no: "\<And>t R. high_nodes (sl_heap s) k as = t # R \<Longrightarrow> key_of (sl_heap s) t \<noteq> k"
  shows "sl_Delete s k = Some s"
proof -
  let ?h = "sl_heap s" and ?z = "sl_head s"
  let ?prevs = "map (pred_at ?h ?z (low_nodes ?h k as)) [0..<height ?h ?z]"
  have "targets_upto ?h k ?prevs (height ?h ?z) = Some (map (\<lambda>l. None) [0..<height ?h ?z])"
    using targets_upto_correct [OF r, of "height ?h ?z" ?prevs k] no
    by (auto split: list.splits cong: map_cong)
  moreover have "unlink_levels (height ?h ?z) ?prevs (map (\<lambda>l. None) [0..<height ?h ?z]) ?h = Some ?h"
    by (rule unlink_none) simp
  ultimately show ?thesis
    using small repD(4) [OF r] by (simp add: sl_Delete_def search_correct [OF r])
qed

lemma sl_Delete_present:
  assumes r: "rep (sl_heap s) (sl_head s) as" and small: "height (sl_heap s) (sl_head s) \<le> 32"
    and t: "high_nodes (sl_heap s) k as = t # R" "key_of (sl_heap s) t = k"
  defines "h \<equiv> sl_heap s" and "T \<equiv> low_nodes (sl_heap s) k as"
  shows "\<exists>h'. sl_Delete s k = Some (s\<lparr>sl_heap := h', sl_size := sl_size s - 1,
      sl_binary_size := sl_binary_size s - (of_nat (length k) + of_nat (length (val_of h t)))\<rparr>) \<and>
    rep h' (sl_head s) (T @ R) \<and> dom h' = dom h - {t} \<and> height h' (sl_head s) \<le> sl_levels s \<and>
    entries_of h' (T @ R) = entries_of h T @ entries_of h R"
proof -
  let ?z = "sl_head s"
  let ?prevs = "map (pred_at h ?z T) [0..<height h ?z]"
    and ?ts = "map (\<lambda>l. if l < height h t then Some t else None) [0..<height h ?z]"
  have r': "rep h ?z (T @ t # R)"
    using r low_high_nodes [of h k as] t(1) unfolding h_def T_def by simp
  obtain h1 where h1: "unlink_levels (height h ?z) ?prevs ?ts h = Some h1" "same_shape h h1"
    "rep (h1(t := None)) ?z (T @ R)" "dom (h1(t := None)) = dom h - {t}"
    "height (h1(t := None)) ?z = height h ?z"
    "entries_of (h1(t := None)) (T @ R) = entries_of h T @ entries_of h R"
    using remove_node_correct [OF r' refl refl] by blast
  obtain h2 where h2: "shrink_head (h1(t := None)) ?z = Some h2" "rep h2 ?z (T @ R)"
    "dom h2 = dom h - {t}" "entries_of h2 (T @ R) = entries_of h T @ entries_of h R"
    "height h2 ?z \<le> height h ?z"
    using rep_shrink [OF h1(3)] h1(4,5,6) by metis
  have ht: "0 < height h t" using repD(5) [OF r'] by simp
  then obtain m where m: "h1 t = Some m" "nkey m = k" "nval m = val_of h t"
    using same_shapeD(1-3) [OF h1(2), of t] t(2) unfolding h_def
    by (auto simp: height_def key_of_def val_of_def split: option.splits)
  have "targets_upto h k ?prevs (height h ?z) = Some ?ts"
    using targets_upto_correct [OF r, of "height h ?z" ?prevs k] t unfolding h_def T_def by simp
  then have "sl_Delete s k = Some (s\<lparr>sl_heap := h2, sl_size := sl_size s - 1,
      sl_binary_size := sl_binary_size s - (of_nat (length k) + of_nat (length (val_of h t)))\<rparr>)"
    using small repD(4) [OF r] h1(1) h2(1) m ht unfolding h_def T_def
    by (simp add: sl_Delete_def search_correct [OF r])
  with h2 show ?thesis unfolding h_def by blast
qed

lemma sl_Delete_rep:
  assumes "sl_rep s es" and small: "height (sl_heap s) (sl_head s) \<le> 32"
  shows "\<exists>s'. sl_Delete s k = Some s' \<and> sl_rep s' (sdel k es) \<and> sl_levels s' \<le> sl_levels s"
proof -
  let ?h = "sl_heap s"
  obtain as where r: "rep ?h (sl_head s) as" and es: "es = entries_of ?h as"
    and fr: "\<forall>a \<in> dom ?h. a < sl_fresh s"
    and cnt: "sl_size s = of_nat (length es)" "sl_binary_size s = of_nat (esize es)"
    using assms(1) by (rule sl_repE)
  show ?thesis
  proof (cases "\<exists>t R. high_nodes ?h k as = t # R \<and> key_of ?h t = k")
    case True
    then obtain t R where t: "high_nodes ?h k as = t # R" "key_of ?h t = k" by blast
    have ent: "es = entries_of ?h (low_nodes ?h k as) @ (k, val_of ?h t) # entries_of ?h R"
      using es entries_low_high [of ?h as k] t by (simp add: entries_of_def)
    then have "sdel k es = entries_of ?h (low_nodes ?h k as) @ entries_of ?h R"
      by (simp add: sdel_append_right [OF keys_low])
    then show ?thesis
      using sl_Delete_present [OF r small t] fr cnt ent unfolding sl_rep_def
      by (auto simp: algebra_simps intro!: exI [of _ "low_nodes ?h k as @ R"])
  next
    case False
    have "map_of es k = None"
      using es map_of_entries_of [OF repD(3) [OF r], of k] False by (auto split: list.splits)
    then have "sdel k es = es" by (simp add: map_of_eq_None_iff sdel_notin)
    then show ?thesis using sl_Delete_absent [OF r small] False assms(1) by auto
  qed
qed

subsection \<open>Levels\<close>

lemma RandLevel_cases:
  "RandLevel c = (if c AND 3 = 0 then (2, c + 2) else (1, c + 1))"
proof -
  have stop: "rand_level_loop c' n = (n, c' + 1)" if "c' AND 3 \<noteq> 0" for c' n
    using that by (subst rand_level_loop.simps) (simp add: GlobalRand_def)
  show ?thesis
  proof (cases "c AND 3 = 0")
    case True
    then have "rand_level_loop c 1 = rand_level_loop (c + 1) 2"
      by (subst rand_level_loop.simps) (simp add: GlobalRand_def numeral_2_eq_2)
    also have "\<dots> = (2, c + 2)"
      using stop [OF rand_not_twice [OF True]] by (simp add: add.assoc)
    finally show ?thesis using True by (simp add: RandLevel_def)
  next
    case False
    then show ?thesis using stop by (simp add: RandLevel_def)
  qed
qed

lemma RandLevel_bounds: "0 < fst (RandLevel c)" "fst (RandLevel c) \<le> 2"
  by (auto simp: RandLevel_cases)

text \<open>The loops as code equations.\<close>

lemmas skiplist_loops [code] =
  advance.simps collect.simps

end
