(* ===== verification/Table_Spec.thy ===== *)
theory Table_Spec
  imports Prelude
begin

text \<open>
  The contract of an in-memory table: what \<^verbatim>\<open>MemTable\<close> promises to the database and what the skip
  list delivers.  The contents of a table are a strictly sorted association list; every operation
  returns, and acts on the contents like the reference operation.  \<open>run_table\<close> executes a
  sequence of operations; the client lemmas of the locale speak of any such sequence.
\<close>

datatype table_op = TPut string string | TDelete string

fun table_spec :: "table_op \<Rightarrow> (string \<times> string) list \<Rightarrow> (string \<times> string) list" where
  "table_spec (TPut k v) es = sput k v es"
| "table_spec (TDelete k) es = sdel k es"

fun table_map :: "table_op \<Rightarrow> (string \<rightharpoonup> string) \<Rightarrow> (string \<rightharpoonup> string)" where
  "table_map (TPut k v) m = m(k \<mapsto> v)"
| "table_map (TDelete k) m = m(k := None)"

fun run_table ::
    "('g \<Rightarrow> 's \<Rightarrow> string \<Rightarrow> string \<Rightarrow> ('s \<times> 'g) option) \<Rightarrow> ('s \<Rightarrow> string \<Rightarrow> 's option) \<Rightarrow>
     table_op list \<Rightarrow> 's \<times> 'g \<Rightarrow> ('s \<times> 'g) option" where
  "run_table put del [] (s, g) = Some (s, g)"
| "run_table put del (TPut k v # ops) (s, g) =
     (case put g s k v of None \<Rightarrow> None | Some sg \<Rightarrow> run_table put del ops sg)"
| "run_table put del (TDelete k # ops) (s, g) =
     (case del s k of None \<Rightarrow> None | Some s' \<Rightarrow> run_table put del ops (s', g))"

locale sorted_table =
  fixes empty :: 's
    and put :: "'g \<Rightarrow> 's \<Rightarrow> string \<Rightarrow> string \<Rightarrow> ('s \<times> 'g) option"
    and del :: "'s \<Rightarrow> string \<Rightarrow> 's option"
    and get :: "'s \<Rightarrow> string \<Rightarrow> string option option"
    and items :: "'s \<Rightarrow> (string \<times> string) list option"
    and contents :: "'s \<Rightarrow> (string \<times> string) list \<Rightarrow> bool"
  assumes contents_empty: "contents empty []"
    and contents_sorted: "contents s es \<Longrightarrow> sorted_keys es"
    and put_contents: "contents s es \<Longrightarrow> \<exists>s' g'. put g s k v = Some (s', g') \<and> contents s' (sput k v es)"
    and del_contents: "contents s es \<Longrightarrow> \<exists>s'. del s k = Some s' \<and> contents s' (sdel k es)"
    and get_contents: "contents s es \<Longrightarrow> get s k = Some (map_of es k)"
    and items_contents: "contents s es \<Longrightarrow> items s = Some es"
begin

lemma run_contents:
  "contents s es \<Longrightarrow> \<exists>s' g'. run_table put del ops (s, g) = Some (s', g') \<and>
     contents s' (fold table_spec ops es)"
proof (induction ops arbitrary: s g es)
  case (Cons op ops)
  show ?case
  proof (cases op)
    case (TPut k v)
    obtain s1 g1 where "put g s k v = Some (s1, g1)" "contents s1 (sput k v es)"
      using put_contents [OF Cons.prems, of g k v] by blast
    with Cons.IH [of s1 "sput k v es" g1] show ?thesis using TPut by auto
  next
    case (TDelete k)
    obtain s1 where "del s k = Some s1" "contents s1 (sdel k es)"
      using del_contents [OF Cons.prems] by blast
    with Cons.IH [of s1 "sdel k es" g] show ?thesis using TDelete by auto
  qed
qed simp

lemma spec_map:
  "sorted_keys es \<Longrightarrow> sorted_keys (fold table_spec ops es) \<and>
     map_of (fold table_spec ops es) = fold table_map ops (map_of es)"
proof (induction ops arbitrary: es)
  case (Cons op ops)
  have "sorted_keys (table_spec op es)" "map_of (table_spec op es) = table_map op (map_of es)"
    using Cons.prems by (cases op; simp add: map_of_sdel)+
  with Cons.IH [of "table_spec op es"] show ?case by simp
qed simp

text \<open>
  From the empty table, every sequence of operations returns; the items are sorted, and a lookup
  answers like the finite map the operations describe.
\<close>

lemma run_from_empty:
  "\<exists>s' g' es. run_table put del ops (empty, g) = Some (s', g') \<and> items s' = Some es \<and>
     sorted_keys es \<and> (\<forall>k. get s' k = Some (map_of es k)) \<and> map_of es = fold table_map ops Map.empty"
proof -
  obtain s' g' where "run_table put del ops (empty, g) = Some (s', g')"
    "contents s' (fold table_spec ops [])"
    using run_contents [OF contents_empty] by blast
  then show ?thesis
    using get_contents items_contents spec_map [of "[]" ops] by fastforce
qed

end

end
