(* ===== verification/MemTable.thy ===== *)
theory MemTable
  imports SkipList Table_Spec
begin

text \<open>
  The memtable of \<^verbatim>\<open>src/mokv/lsm/memtable.hpp\<close>: every operation is the operation of the skip list
  it wraps, with \<^const>\<open>RandLevel\<close> as the source of levels.  The interpretation of \<open>sorted_table\<close>
  discharges the table contract for the pointer model.
\<close>

type_synonym memtable = skiplist

definition mt_new :: memtable where
  "mt_new = sl_new"

definition mt_Get :: "memtable \<Rightarrow> string \<Rightarrow> string option option" where
  "mt_Get m key = sl_Get m key"

definition mt_Put :: "64 word \<Rightarrow> memtable \<Rightarrow> string \<Rightarrow> string \<Rightarrow> (memtable \<times> 64 word) option" where
  "mt_Put counter m key value = sl_Put RandLevel counter m key value"

definition mt_Delete :: "memtable \<Rightarrow> string \<Rightarrow> memtable option" where
  "mt_Delete m key = sl_Delete m key"

definition mt_binary_size :: "memtable \<Rightarrow> 64 word" where
  "mt_binary_size m = sl_binary_size m"

definition mt_size :: "memtable \<Rightarrow> 64 word" where
  "mt_size m = sl_size m"

definition mt_entries :: "memtable \<Rightarrow> (string \<times> string) list option" where
  "mt_entries m = sl_entries m"

text \<open>A memtable of at most two levels with the given contents.\<close>

definition mt_holds :: "memtable \<Rightarrow> (string \<times> string) list \<Rightarrow> bool" where
  "mt_holds m es = (sl_rep m es \<and> sl_levels m \<le> 2)"

lemmas mt_defs = mt_new_def mt_Get_def mt_Put_def mt_Delete_def mt_binary_size_def mt_size_def
  mt_entries_def mt_holds_def

lemma mt_Put_holds:
  "mt_holds m es \<Longrightarrow> \<exists>m' c'. mt_Put c m k v = Some (m', c') \<and> mt_holds m' (sput k v es)"
  using sl_Put_rep [of m es RandLevel c k v] RandLevel_bounds [of c] unfolding mt_defs by fastforce

lemma mt_Delete_holds:
  "mt_holds m es \<Longrightarrow> \<exists>m'. mt_Delete m k = Some m' \<and> mt_holds m' (sdel k es)"
  using sl_Delete_rep [of m es k] unfolding mt_defs by fastforce

lemma mt_reads:
  assumes "mt_holds m es"
  shows "sorted_keys es" "mt_Get m k = Some (map_of es k)" "mt_entries m = Some es"
  using assms unfolding mt_defs by (auto dest: sl_rep_sorted sl_Get_rep sl_entries_rep)

lemma mt_new_holds: "mt_holds mt_new []"
  using sl_new_rep by (simp add: mt_defs) (simp add: sl_new_def height_def)

interpretation mt: sorted_table mt_new mt_Put mt_Delete mt_Get mt_entries mt_holds
  by unfold_locales (fact mt_new_holds mt_reads mt_Put_holds mt_Delete_holds)+

lemma mt_sizes:
  "mt_holds m es \<Longrightarrow> mt_size m = of_nat (length es) \<and> mt_binary_size m = of_nat (esize es)"
  unfolding mt_defs sl_rep_def by auto

end
