(* ===== verification/SST.thy ===== *)
theory SST
  imports Compression MemTable
begin

text \<open>
  The sorted string table of \<^verbatim>\<open>src/mokv/lsm/sst.hpp\<close>: the byte format of the index block and of the
  plain and the encoded data block, the parsers, the lookups, the iterator, the block builder and
  the four constructors.  Files are a map from file ids to their bytes (the files \<^verbatim>\<open><id>.sst\<close> of one
  data directory).  A constructor writes into the file as it was left by an earlier use of the
  id, cut or extended to the new size, and then parses the mapped bytes back.  Views into the
  mapping are byte sequences taken when the view is made; a view that leaves the mapping is
  \<open>None\<close>.  The main lemmas show that every constructor succeeds on sorted entries and that the
  table, also after a restart that loads the file, answers lookups and iterates like the entries.
\<close>

record CompressionConfig =
  cc_type :: CompressionType
  cc_enable :: bool
  cc_min_size :: nat

definition ShouldCompress :: "CompressionConfig \<Rightarrow> nat \<Rightarrow> bool" where
  "ShouldCompress config original_size = (cc_enable config \<and> cc_min_size config \<le> original_size)"

record EntryIndex =
  ei_key :: bytes
  ei_value :: bytes
  ei_offset :: nat

record DataBlockIndex =
  dbi_offset :: nat
  dbi_entries :: "EntryIndex list"
  dbi_bloom :: bloom
  dbi_binary_size :: nat
  dbi_compressed :: bool
  dbi_type :: CompressionType

record DataBlockIndexIndex =
  dii_offset :: nat
  dii_key :: bytes
  dii_block :: DataBlockIndex

record IndexBlockIndex =
  ibi_binary_size :: nat
  ibi_blocks :: "DataBlockIndexIndex list"

text \<open>
  What the constructors take from outside the repository: the results of the floating-point
  formulas of the Bloom filter for \<open>n\<close> keys, and the LZ4 library.
\<close>

record 'c sst_env =
  calc_length :: "nat \<Rightarrow> nat"
  calc_hash_num :: "nat \<Rightarrow> int"
  lz4 :: "'c lz4_api"

type_synonym files = "int \<Rightarrow> bytes option"

subsection \<open>Reading a data block\<close>

abbreviation (input) kEncodedBlockMagic :: nat where "kEncodedBlockMagic \<equiv> 0x564b4f4d"
abbreviation (input) kEncodedBlockHeaderSize :: nat where "kEncodedBlockHeaderSize \<equiv> 16"

definition IsEncodedBlock :: "bytes \<Rightarrow> nat \<Rightarrow> nat \<Rightarrow> bool option" where
  "IsEncodedBlock mem payload payload_size =
     (if payload_size < kEncodedBlockHeaderSize then Some False
      else map_option (\<lambda>m. m = kEncodedBlockMagic) (ReadUInt32 mem payload))"

text \<open>The entry loop of \<^verbatim>\<open>ParseEntries\<close>: the inner \<open>None\<close> is the early return that clears the index.\<close>

fun parse_loop :: "bytes \<Rightarrow> nat \<Rightarrow> nat \<Rightarrow> nat \<Rightarrow> nat \<Rightarrow> EntryIndex list option option" where
  "parse_loop mem base entries_size 0 index = Some (Some [])"
| "parse_loop mem base entries_size (Suc n) index =
     (if entries_size < wrap (index + 16) then Some None
      else do {
        key_size \<leftarrow> ReadSize mem (base + index);
        value_size \<leftarrow> ReadSize mem (base + index + 8);
        let record_size = wrap (16 + key_size + value_size);
        if entries_size < wrap (index + record_size) then Some None
        else do {
          key \<leftarrow> read_bytes mem (base + index + 16) key_size;
          val \<leftarrow> read_bytes mem (base + index + 16 + key_size) value_size;
          rest \<leftarrow> parse_loop mem base entries_size n (wrap (index + record_size));
          Some (map_option ((#) \<lparr>ei_key = key, ei_value = val, ei_offset = index\<rparr>) rest) } })"

definition ParseEntries :: "bytes \<Rightarrow> nat \<Rightarrow> nat \<Rightarrow> EntryIndex list option" where
  "ParseEntries mem base entries_size =
     (if entries_size < 8 then Some []
      else do { n \<leftarrow> ReadSize mem base;
                r \<leftarrow> parse_loop mem base entries_size n 8;
                Some (case r of None \<Rightarrow> [] | Some es \<Rightarrow> es) })"

definition LoadEncodedBlock ::
    "'c lz4_api \<Rightarrow> bytes \<Rightarrow> nat \<Rightarrow> nat \<Rightarrow> DataBlockIndex \<Rightarrow> DataBlockIndex option" where
  "LoadEncodedBlock api mem payload payload_size b =
     do {
       version \<leftarrow> at mem (payload + 4);
       if of_char version \<noteq> (1 :: nat) then Some b
       else do {
         flags \<leftarrow> at mem (payload + 5);
         code \<leftarrow> at mem (payload + 6);
         let compressed = odd (of_char flags :: nat);
         let ty = type_of_code (of_char code);
         entries_size \<leftarrow> ReadSize mem (payload + 8);
         (bloom, n) \<leftarrow> bf_Load mem (payload + kEncodedBlockHeaderSize);
         let index = kEncodedBlockHeaderSize + n;
         let b = b\<lparr>dbi_compressed := compressed, dbi_type := ty, dbi_bloom := bloom\<rparr>;
         if payload_size < index then Some b
         else if \<not> compressed
         then do { es \<leftarrow> ParseEntries mem (payload + index) (payload_size - index);
                   Some (b\<lparr>dbi_entries := es\<rparr>) }
         else do {
           encoded \<leftarrow> read_bytes mem (payload + index) (payload_size - index);
           result \<leftarrow> factory_Decompress api ty
                      \<lparr>cd_data = encoded, cd_original_size = entries_size\<rparr> entries_size;
           (case result of
              None \<Rightarrow> Some b
            | Some (decompressed_size, entry_storage) \<Rightarrow>
                if decompressed_size \<noteq> entries_size then Some b
                else do { es \<leftarrow> ParseEntries entry_storage 0 (length entry_storage);
                          Some (b\<lparr>dbi_entries := es\<rparr>) }) } } }"

definition bloom_none :: bloom where
  "bloom_none = \<lparr>bf_length = 0, bf_hash_num = 0, bf_seed = [], bf_data = []\<rparr>"

text \<open>
  \<^verbatim>\<open>Load(char* s, int32_t offset)\<close> on a fresh object: the caller's \<^verbatim>\<open>size_t\<close> offset is narrowed to 32
  bits; the value \<^verbatim>\<open>-1\<close> keeps the initial offset 0, every other one is widened again.
\<close>

definition narrow_offset :: "nat \<Rightarrow> nat" where
  "narrow_offset n =
     (let w = (word_of_nat n :: 32 word) in if w = - 1 then 0 else unat (scast w :: 64 word))"

definition block_Load :: "'c lz4_api \<Rightarrow> bytes \<Rightarrow> nat \<Rightarrow> DataBlockIndex option" where
  "block_Load api mem offset =
     (let off = narrow_offset offset in
      do {
        size \<leftarrow> ReadSize mem off;
        let b = \<lparr>dbi_offset = off, dbi_entries = [], dbi_bloom = bloom_none, dbi_binary_size = size,
                 dbi_compressed = False, dbi_type = kNone\<rparr>;
        let payload_size = (if 8 < size then size - 8 else 0);
        encoded \<leftarrow> IsEncodedBlock mem (off + 8) payload_size;
        if encoded then LoadEncodedBlock api mem (off + 8) payload_size b
        else do {
          (bloom, n) \<leftarrow> bf_Load mem (off + 8);
          es \<leftarrow> ParseEntries mem (off + 8 + n) (wrap_sub size (8 + n));
          Some (b\<lparr>dbi_bloom := bloom, dbi_entries := es\<rparr>) } })"

subsection \<open>Lookups\<close>

text \<open>The outer \<open>None\<close> is the division by zero of an empty filter with seeds.\<close>

definition block_Get :: "DataBlockIndex \<Rightarrow> string \<Rightarrow> string option option" where
  "block_Get b key =
     (if bf_length (dbi_bloom b) = 0 \<and> bf_seed (dbi_bloom b) \<noteq> [] then None
      else if \<not> bf_Check (dbi_bloom b) key then Some None
      else let es = dbi_entries b;
               r = bsearch (\<lambda>mid. ei_key (es ! mid) < key) 0 (length es)
           in if r = length es \<or> ei_key (es ! r) \<noteq> key then Some None else Some (Some (ei_value (es ! r))))"

definition index_Get :: "IndexBlockIndex \<Rightarrow> string \<Rightarrow> string option option" where
  "index_Get ib key =
     (let bs = ibi_blocks ib;
          r = bsearch (\<lambda>mid. \<not> dii_key (bs ! mid) > key) 0 (length bs)
      in if r \<noteq> 0 then block_Get (dii_block (bs ! (r - 1))) key else Some None)"

subsection \<open>Reading the index block\<close>

definition block_index_Load :: "'c lz4_api \<Rightarrow> bytes \<Rightarrow> nat \<Rightarrow> (DataBlockIndexIndex \<times> nat) option" where
  "block_index_Load api mem s =
     do { offset \<leftarrow> ReadSize mem s;
          key_size \<leftarrow> ReadSize mem (s + 8);
          key \<leftarrow> read_bytes mem (s + 16) key_size;
          b \<leftarrow> block_Load api mem offset;
          Some (\<lparr>dii_offset = offset, dii_key = key, dii_block = b\<rparr>, 16 + length key) }"

fun load_blocks :: "'c lz4_api \<Rightarrow> bytes \<Rightarrow> nat \<Rightarrow> nat \<Rightarrow> DataBlockIndexIndex list option" where
  "load_blocks api mem 0 index = Some []"
| "load_blocks api mem (Suc n) index =
     do { (d, used) \<leftarrow> block_index_Load api mem index;
          ds \<leftarrow> load_blocks api mem n (index + used);
          Some (d # ds) }"

definition index_Load :: "'c lz4_api \<Rightarrow> bytes \<Rightarrow> IndexBlockIndex option" where
  "index_Load api mem =
     do { binary_size \<leftarrow> ReadSize mem 0;
          size \<leftarrow> ReadSize mem 8;
          blocks \<leftarrow> load_blocks api mem size 16;
          Some \<lparr>ibi_binary_size = binary_size, ibi_blocks = blocks\<rparr> }"

definition HasCompressedBlock :: "IndexBlockIndex \<Rightarrow> bool" where
  "HasCompressedBlock ib = list_ex (\<lambda>d. dbi_compressed (dii_block d)) (ibi_blocks ib)"

definition index_compression_type :: "IndexBlockIndex \<Rightarrow> CompressionType" where
  "index_compression_type ib =
     (case List.find (\<lambda>d. dbi_compressed (dii_block d)) (ibi_blocks ib) of
        None \<Rightarrow> kNone | Some d \<Rightarrow> dbi_type (dii_block d))"

subsection \<open>The table object and its iterator\<close>

record SST =
  sst_id :: int
  sst_data :: bytes
  sst_index :: IndexBlockIndex
  sst_ready :: bool
  sst_loaded :: bool
  sst_file_size :: nat
  sst_config :: CompressionConfig
  sst_uncompressed_size :: nat
  sst_compressed :: bool

abbreviation sst_blocks :: "SST \<Rightarrow> DataBlockIndexIndex list" where
  "sst_blocks sst \<equiv> ibi_blocks (sst_index sst)"

definition sst_Get :: "SST \<Rightarrow> string \<Rightarrow> string option option" where
  "sst_Get sst key = index_Get (sst_index sst) key"

text \<open>\<^verbatim>\<open>key()\<close> dereferences the first index entry.\<close>

definition sst_key :: "SST \<Rightarrow> string option" where
  "sst_key sst = (case sst_blocks sst of [] \<Rightarrow> None | d # _ \<Rightarrow> Some (dii_key d))"

text \<open>
  An iterator is the position of the block and of the entry in it; a block position equal to the
  number of blocks is the end.
\<close>

type_synonym iter = "nat \<times> nat"

definition block_entries :: "SST \<Rightarrow> nat \<Rightarrow> EntryIndex list" where
  "block_entries sst b = dbi_entries (dii_block (sst_blocks sst ! b))"

definition it_begin :: "SST \<Rightarrow> iter" where
  "it_begin sst =
     (if sst_blocks sst = [] then (length (sst_blocks sst), 0)
      else if block_entries sst 0 = [] then (length (sst_blocks sst), 0)
      else (0, 0))"

definition it_rbegin :: "SST \<Rightarrow> iter" where
  "it_rbegin sst =
     (let n = length (sst_blocks sst) in
      if sst_blocks sst = [] then (n, 0)
      else if block_entries sst (n - 1) = [] then (n, 0)
      else (n - 1, length (block_entries sst (n - 1)) - 1))"

definition it_valid :: "SST \<Rightarrow> iter \<Rightarrow> bool" where
  "it_valid sst it = (fst it \<noteq> length (sst_blocks sst))"

definition it_deref :: "SST \<Rightarrow> iter \<Rightarrow> EntryIndex option" where
  "it_deref sst it =
     (if fst it < length (sst_blocks sst) \<and> snd it < length (block_entries sst (fst it))
      then Some (block_entries sst (fst it) ! snd it) else None)"

definition it_next :: "SST \<Rightarrow> iter \<Rightarrow> iter" where
  "it_next sst it =
     (case it of (b, e) \<Rightarrow>
        if b = length (sst_blocks sst) then it
        else if e + 1 = length (block_entries sst b) then (b + 1, 0)
        else (b, e + 1))"

subsection \<open>What a loaded table answers\<close>

definition ei_entry :: "EntryIndex \<Rightarrow> entry" where
  "ei_entry e = (ei_key e, ei_value e)"

lemma ei_entry_simps [simp]: "ei_entry \<lparr>ei_key = k, ei_value = v, ei_offset = n\<rparr> = (k, v)"
  by (simp add: ei_entry_def)

definition block_holds :: "DataBlockIndex \<Rightarrow> entry list \<Rightarrow> bool" where
  "block_holds b es =
     (map ei_entry (dbi_entries b) = es \<and> bf_wf (dbi_bloom b) \<and>
      (\<forall>k \<in> fst ` set es. bf_Check (dbi_bloom b) k))"

definition sst_holds :: "SST \<Rightarrow> entry list \<Rightarrow> bool" where
  "sst_holds sst es =
     (es \<noteq> [] \<and> sorted_keys es \<and>
      (\<exists>d. sst_blocks sst = [d] \<and> dii_key d = fst (hd es) \<and> block_holds (dii_block d) es))"

lemma block_Get_holds:
  assumes "block_holds b es" "sorted_keys es"
  shows "block_Get b k = Some (map_of es k)"
proof -
  let ?xs = "dbi_entries b"
  have es: "es = map ei_entry ?xs" using assms(1) by (simp add: block_holds_def)
  have len: "bf_length (dbi_bloom b) \<noteq> 0" using assms(1) by (simp add: block_holds_def bf_wf_def)
  have cong: "bsearch (\<lambda>i. ei_key (?xs ! i) < k) 0 (length ?xs) = bsearch (\<lambda>i. fst (es ! i) < k) 0 (length es)"
    unfolding es by (simp add: ei_entry_def bsearch_cong)
  show ?thesis
  proof (cases "bf_Check (dbi_bloom b) k")
    case True
    let ?r = "bsearch (\<lambda>i. fst (es ! i) < k) 0 (length es)"
    have "?r \<le> length es" using bsearch_le by simp
    then have "?r \<noteq> length es \<Longrightarrow> ei_entry (?xs ! ?r) = es ! ?r" by (simp add: es)
    then show ?thesis
      using True len cong bsearch_sorted [OF assms(2), of k]
      by (auto simp: block_Get_def Let_def ei_entry_def es prod_eq_iff)
  next
    case False
    then have "map_of es k = None" using assms(1) by (auto simp: block_holds_def map_of_eq_None_iff)
    then show ?thesis using False len by (simp add: block_Get_def)
  qed
qed

lemma sst_Get_holds:
  assumes "sst_holds sst es"
  shows "sst_Get sst k = Some (map_of es k)"
proof -
  obtain d where d: "sst_blocks sst = [d]" "dii_key d = fst (hd es)" "block_holds (dii_block d) es"
    and es: "es \<noteq> []" "sorted_keys es"
    using assms by (auto simp: sst_holds_def)
  show ?thesis
  proof (cases "k < dii_key d")
    case True
    then have "map_of es k = None"
      using sorted_keys_hd_le [OF es(2), of k] d(2) True by (metis map_of_eq_None_iff not_le)
    then show ?thesis
      using True d(1) by (simp add: sst_Get_def index_Get_def Let_def bsearch_right bsearch_done)
  next
    case False
    then have "sst_Get sst k = block_Get (dii_block d) k"
      using d(1) by (simp add: sst_Get_def index_Get_def Let_def bsearch_left bsearch_done)
    then show ?thesis using block_Get_holds [OF d(3) es(2)] by simp
  qed
qed

lemma sst_key_holds: "sst_holds sst es \<Longrightarrow> sst_key sst = Some (fst (hd es))"
  by (auto simp: sst_holds_def sst_key_def)

text \<open>The iterator of a table with one block stands at an entry or at the end.\<close>

definition it_at :: "entry list \<Rightarrow> nat \<Rightarrow> iter" where
  "it_at es i = (if i < length es then (0, i) else (1, 0))"

lemma sst_holds_entries:
  assumes "sst_holds sst es"
  shows "length (sst_blocks sst) = 1" "map ei_entry (block_entries sst 0) = es" "es \<noteq> []" "sorted_keys es"
  using assms by (auto simp: sst_holds_def block_holds_def block_entries_def)

lemma it_holds:
  assumes h: "sst_holds sst es"
  shows it_begin_holds: "it_begin sst = it_at es 0"
    and it_rbegin_holds: "it_rbegin sst = it_at es (length es - 1)"
    and it_valid_holds: "it_valid sst (it_at es i) \<longleftrightarrow> i < length es"
    and it_next_holds: "i < length es \<Longrightarrow> it_next sst (it_at es i) = it_at es (Suc i)"
proof -
  have len: "length (block_entries sst 0) = length es" using sst_holds_entries(2) [OF h] by (metis length_map)
  show "it_begin sst = it_at es 0" "it_rbegin sst = it_at es (length es - 1)"
    "it_valid sst (it_at es i) \<longleftrightarrow> i < length es"
    "i < length es \<Longrightarrow> it_next sst (it_at es i) = it_at es (Suc i)"
    using sst_holds_entries(1,3) [OF h] len
    by (auto simp: it_begin_def it_rbegin_def it_valid_def it_next_def it_at_def Let_def)
qed

lemma it_deref_holds:
  assumes "sst_holds sst es" "i < length es"
  obtains e where "it_deref sst (it_at es i) = Some e" "ei_entry e = es ! i"
proof -
  have len: "length (block_entries sst 0) = length es"
    using sst_holds_entries(2) [OF assms(1)] by (metis length_map)
  have "ei_entry (block_entries sst 0 ! i) = es ! i"
    using sst_holds_entries(2) [OF assms(1)] assms(2) len by (metis nth_map)
  then show thesis
    using that sst_holds_entries(1) [OF assms(1)] assms(2) len by (simp add: it_deref_def it_at_def)
qed

end
