(* ===== verification/SST_Build.thy ===== *)
theory SST_Build
  imports SST
begin

text \<open>
  Writing sorted string tables (\<^verbatim>\<open>src/mokv/lsm/sst.hpp\<close>): the builder of encoded blocks, the four
  constructors of \<^verbatim>\<open>SST\<close>, and loading an existing file.
\<close>

subsection \<open>The block builder\<close>

definition WriteEncodedBlockHeader ::
    "bytes \<Rightarrow> nat \<Rightarrow> bool \<Rightarrow> CompressionType \<Rightarrow> nat \<Rightarrow> bytes option" where
  "WriteEncodedBlockHeader mem payload compressed ty entries_size =
     do { mem \<leftarrow> WriteUInt32 mem payload kEncodedBlockMagic;
          mem \<leftarrow> write_bytes mem (payload + 4)
                   [byte 1, byte (if compressed then 1 else 0), byte (type_code ty), byte 0];
          WriteSize mem (payload + 8) entries_size }"

record BlockBuilder =
  bb_config :: CompressionConfig
  bb_raw_data :: bytes
  bb_keys :: "bytes list"
  bb_total_size :: nat
  bb_count :: nat

definition builder_new :: "CompressionConfig \<Rightarrow> BlockBuilder" where
  "builder_new config =
     \<lparr>bb_config = config, bb_raw_data = [], bb_keys = [], bb_total_size = 0, bb_count = 0\<rparr>"

definition builder_Add :: "BlockBuilder \<Rightarrow> entry \<Rightarrow> BlockBuilder" where
  "builder_Add bb e =
     (case e of (key, val) \<Rightarrow>
        bb\<lparr>bb_raw_data := bb_raw_data bb @ le_bytes 8 (length key) @ le_bytes 8 (length val) @ key @ val,
           bb_keys := bb_keys bb @ [key],
           bb_total_size := bb_total_size bb + (16 + length key + length val),
           bb_count := bb_count bb + 1\<rparr>)"

text \<open>The uncompressed payload that \<^verbatim>\<open>Build\<close> writes first.\<close>

definition build_payload :: "BlockBuilder \<Rightarrow> bloom \<Rightarrow> bytes option" where
  "build_payload bb bloom =
     (let bloom_size = bf_binary_size bloom;
          entries_size = 8 + length (bb_raw_data bb);
          payload_size = kEncodedBlockHeaderSize + bloom_size + entries_size
      in do {
        r \<leftarrow> WriteEncodedBlockHeader (replicate payload_size (CHR 0x00)) 0 False
               (cc_type (bb_config bb)) entries_size;
        (r, _) \<leftarrow> bf_Save r kEncodedBlockHeaderSize bloom;
        r \<leftarrow> WriteSize r (kEncodedBlockHeaderSize + bloom_size) (bb_count bb);
        write_bytes r (kEncodedBlockHeaderSize + bloom_size + 8) (bb_raw_data bb) })"

text \<open>The payload with compressed entries.\<close>

definition build_compressed_payload :: "BlockBuilder \<Rightarrow> bloom \<Rightarrow> nat \<Rightarrow> bytes \<Rightarrow> bytes option" where
  "build_compressed_payload bb bloom entries_size compressed =
     (let entries_offset = kEncodedBlockHeaderSize + bf_binary_size bloom in
      do {
        r \<leftarrow> WriteEncodedBlockHeader (replicate (entries_offset + length compressed) (CHR 0x00)) 0 True
               (cc_type (bb_config bb)) entries_size;
        (r, _) \<leftarrow> bf_Save r kEncodedBlockHeaderSize bloom;
        write_bytes r entries_offset compressed })"

text \<open>Result: the payload, \<^verbatim>\<open>used_compression_\<close>, \<^verbatim>\<open>uncompressed_block_size_\<close>, the random counter.\<close>

definition builder_Build ::
    "'c sst_env \<Rightarrow> 64 word \<Rightarrow> BlockBuilder \<Rightarrow> (bytes \<times> bool \<times> nat \<times> 64 word) option" where
  "builder_Build env c bb =
     (let n = (if bb_count bb = 0 then 1 else bb_count bb);
          (bloom, c') = bf_Init (calc_length env n) (calc_hash_num env n) c;
          bloom = bf_insert_all (bb_keys bb) bloom;
          entries_offset = kEncodedBlockHeaderSize + bf_binary_size bloom;
          entries_size = 8 + length (bb_raw_data bb);
          payload_size = entries_offset + entries_size
      in do {
        r \<leftarrow> build_payload bb bloom;
        if \<not> ShouldCompress (bb_config bb) payload_size then Some (r, False, 8 + payload_size, c')
        else do {
          entries \<leftarrow> read_bytes r entries_offset entries_size;
          result \<leftarrow> factory_Compress (lz4 env) (cc_type (bb_config bb)) entries;
          (case result of
             None \<Rightarrow> Some (r, False, 8 + payload_size, c')
           | Some cd \<Rightarrow>
               if cd_data cd \<noteq> [] \<and> length (cd_data cd) < entries_size
               then do { r \<leftarrow> build_compressed_payload bb bloom entries_size (cd_data cd);
                         Some (r, True, 8 + payload_size, c') }
               else Some (r, False, 8 + payload_size, c')) } })"

subsection \<open>Writing the file\<close>

definition write_index_block :: "bytes \<Rightarrow> nat \<Rightarrow> bytes \<Rightarrow> bytes option" where
  "write_index_block mem index_block_size key =
     do { mem \<leftarrow> WriteSize mem 0 index_block_size;
          mem \<leftarrow> WriteSize mem 8 1;
          mem \<leftarrow> WriteSize mem 16 index_block_size;
          mem \<leftarrow> WriteSize mem 24 (length key);
          write_bytes mem 32 key }"

fun write_entries :: "bytes \<Rightarrow> nat \<Rightarrow> entry list \<Rightarrow> bytes option" where
  "write_entries mem index [] = Some mem"
| "write_entries mem index ((key, val) # es) =
     do { mem \<leftarrow> WriteSize mem index (length key);
          mem \<leftarrow> WriteSize mem (index + 8) (length val);
          mem \<leftarrow> write_bytes mem (index + 16) key;
          mem \<leftarrow> write_bytes mem (index + 16 + length key) val;
          write_entries mem (index + 16 + length key + length val) es }"

definition write_plain_block :: "bytes \<Rightarrow> nat \<Rightarrow> nat \<Rightarrow> nat \<Rightarrow> bloom \<Rightarrow> entry list \<Rightarrow> bytes option" where
  "write_plain_block mem base data_block_size n bloom es =
     do { mem \<leftarrow> WriteSize mem base data_block_size;
          (mem, saved) \<leftarrow> bf_Save mem (base + 8) bloom;
          mem \<leftarrow> WriteSize mem (base + 8 + saved) n;
          write_entries mem (base + 8 + saved + 8) es }"

definition open_file :: "files \<Rightarrow> int \<Rightarrow> nat \<Rightarrow> bytes" where
  "open_file fs fid file_size = resize_bytes (case fs fid of None \<Rightarrow> [] | Some old \<Rightarrow> old) file_size"

definition no_compression :: CompressionConfig where
  "no_compression = \<lparr>cc_type = kNone, cc_enable = False, cc_min_size = 64\<rparr>"

text \<open>\<^verbatim>\<open>static_cast<int>(id)\<close>\<close>

definition int_of_size :: "nat \<Rightarrow> int" where
  "int_of_size n = sint (word_of_nat n :: 32 word)"

text \<open>
  The common body of \<^verbatim>\<open>SST(std::vector<EntryView> entries, int id, data_dir)\<close> and
  \<^verbatim>\<open>SST(MemeTable& memtable, size_t id, data_dir)\<close>; \<open>n\<close> is \<^verbatim>\<open>entries.size()\<close> or \<^verbatim>\<open>memtable.size()\<close>.
  Without entries, the dereference of \<^verbatim>\<open>begin()\<close> is undefined.
\<close>

definition SST_plain ::
    "'c sst_env \<Rightarrow> nat \<Rightarrow> entry list \<Rightarrow> int \<Rightarrow> files \<times> 64 word \<Rightarrow> (SST \<times> files \<times> 64 word) option" where
  "SST_plain env n es fid w =
     (case (es, w) of
        ([], _) \<Rightarrow> None
      | ((key0, _) # _, (fs, c)) \<Rightarrow>
          (let (bloom, c') = bf_Init (calc_length env n) (calc_hash_num env n) c;
               bloom = bf_insert_all (map fst es) bloom;
               index_block_size = 2 * 8 * (n + 1) + length key0;
               data_block_size = 8 + (\<Sum>(k, v)\<leftarrow>es. length k + length v) + n * 2 * 8 +
                 bf_binary_size bloom + 8;
               file_size = index_block_size + data_block_size;
               mem = open_file fs fid file_size
           in do {
             mem \<leftarrow> write_index_block mem index_block_size key0;
             mem \<leftarrow> write_plain_block mem index_block_size data_block_size n bloom es;
             index \<leftarrow> index_Load (lz4 env) mem;
             Some (\<lparr>sst_id = fid, sst_data = mem, sst_index = index, sst_ready = True, sst_loaded = True,
                    sst_file_size = file_size, sst_config = no_compression, sst_uncompressed_size = 0,
                    sst_compressed = False\<rparr>, fs(fid \<mapsto> mem), c') }))"

definition SST_entries ::
    "'c sst_env \<Rightarrow> entry list \<Rightarrow> int \<Rightarrow> files \<times> 64 word \<Rightarrow> (SST \<times> files \<times> 64 word) option" where
  "SST_entries env es fid w = SST_plain env (length es) es fid w"

definition SST_memtable ::
    "'c sst_env \<Rightarrow> memtable \<Rightarrow> nat \<Rightarrow> files \<times> 64 word \<Rightarrow> (SST \<times> files \<times> 64 word) option" where
  "SST_memtable env m fid w =
     do { es \<leftarrow> mt_entries m; SST_plain env (unat (mt_size m)) es (int_of_size fid) w }"

text \<open>
  The common body of the constructors with a \<^verbatim>\<open>CompressionConfig\<close>.
\<close>

definition SST_encoded ::
    "'c sst_env \<Rightarrow> CompressionConfig \<Rightarrow> nat \<Rightarrow> entry list \<Rightarrow> int \<Rightarrow> files \<times> 64 word \<Rightarrow>
     (SST \<times> files \<times> 64 word) option" where
  "SST_encoded env config n es fid w =
     (case (es, w) of
        ([], _) \<Rightarrow> None
      | ((key0, _) # _, (fs, c)) \<Rightarrow>
          do {
            (payload, used, uncompressed, c') \<leftarrow>
              builder_Build env c (fold (\<lambda>e bb. builder_Add bb e) es (builder_new config));
            let index_block_size = 2 * 8 * (n + 1) + length key0;
            let file_size = index_block_size + 8 + length payload;
            let mem = open_file fs fid file_size;
            mem \<leftarrow> write_index_block mem index_block_size key0;
            mem \<leftarrow> WriteSize mem index_block_size (8 + length payload);
            mem \<leftarrow> write_bytes mem (index_block_size + 8) payload;
            index \<leftarrow> index_Load (lz4 env) mem;
            Some (\<lparr>sst_id = fid, sst_data = mem, sst_index = index, sst_ready = True, sst_loaded = True,
                   sst_file_size = file_size,
                   sst_config = config\<lparr>cc_enable := used,
                     cc_type := (if used then cc_type config else kNone)\<rparr>,
                   sst_uncompressed_size = index_block_size + uncompressed,
                   sst_compressed = used\<rparr>, fs(fid \<mapsto> mem), c') })"

definition SST_entries_compressed ::
    "'c sst_env \<Rightarrow> CompressionConfig \<Rightarrow> entry list \<Rightarrow> int \<Rightarrow> files \<times> 64 word \<Rightarrow>
     (SST \<times> files \<times> 64 word) option" where
  "SST_entries_compressed env config es fid w = SST_encoded env config (length es) es fid w"

definition SST_memtable_compressed ::
    "'c sst_env \<Rightarrow> CompressionConfig \<Rightarrow> memtable \<Rightarrow> nat \<Rightarrow> files \<times> 64 word \<Rightarrow>
     (SST \<times> files \<times> 64 word) option" where
  "SST_memtable_compressed env config m fid w =
     do { es \<leftarrow> mt_entries m; SST_encoded env config (unat (mt_size m)) es (int_of_size fid) w }"

text \<open>
  \<^verbatim>\<open>SetId\<close> followed by \<^verbatim>\<open>Load\<close> on a default object; the inner \<open>None\<close> is the result \<^verbatim>\<open>false\<close> for a
  missing file, and for an empty one, which \<^verbatim>\<open>mmap\<close> refuses.
\<close>

definition sst_Load :: "'c sst_env \<Rightarrow> files \<Rightarrow> int \<Rightarrow> SST option option" where
  "sst_Load env fs fid =
     (case fs fid of
        None \<Rightarrow> Some None
      | Some mem \<Rightarrow>
          if mem = [] then Some None
          else do { index \<leftarrow> index_Load (lz4 env) mem;
               Some (Some \<lparr>sst_id = fid, sst_data = mem, sst_index = index, sst_ready = True,
                 sst_loaded = True, sst_file_size = length mem,
                 sst_config = \<lparr>cc_type = index_compression_type index,
                   cc_enable = HasCompressedBlock index, cc_min_size = 64\<rparr>,
                 sst_uncompressed_size = 0, sst_compressed = HasCompressedBlock index\<rparr>) })"

definition sst_Close :: "SST \<Rightarrow> SST" where
  "sst_Close sst = (if \<not> sst_loaded sst then sst else sst\<lparr>sst_ready := False, sst_loaded := False\<rparr>)"

subsection \<open>Layouts\<close>

definition entry_bytes :: "entry list \<Rightarrow> bytes" where
  "entry_bytes es =
     concat (map (\<lambda>(k, v). le_bytes 8 (length k) @ le_bytes 8 (length v) @ k @ v) es)"

definition body_bytes :: "entry list \<Rightarrow> bytes" where
  "body_bytes es = le_bytes 8 (length es) @ entry_bytes es"

definition index_bytes :: "nat \<Rightarrow> bytes \<Rightarrow> bytes" where
  "index_bytes index_block_size key =
     le_bytes 8 index_block_size @ le_bytes 8 1 @ le_bytes 8 index_block_size @
     le_bytes 8 (length key) @ key"

definition header_bytes :: "bool \<Rightarrow> CompressionType \<Rightarrow> nat \<Rightarrow> bytes" where
  "header_bytes compressed ty entries_size =
     le_bytes 4 kEncodedBlockMagic @
     [byte 1, byte (if compressed then 1 else 0), byte (type_code ty), byte 0] @ le_bytes 8 entries_size"

definition plain_block_bytes :: "bloom \<Rightarrow> bytes \<Rightarrow> entry list \<Rightarrow> bytes" where
  "plain_block_bytes bloom pad es =
     le_bytes 8 (16 + bf_binary_size bloom + length (entry_bytes es)) @ bf_bytes bloom pad @ body_bytes es"

definition payload_bytes :: "bool \<Rightarrow> CompressionType \<Rightarrow> nat \<Rightarrow> bloom \<Rightarrow> bytes \<Rightarrow> bytes \<Rightarrow> bytes" where
  "payload_bytes compressed ty entries_size bloom pad body =
     header_bytes compressed ty entries_size @ bf_bytes bloom pad @ body"

lemma entry_bytes_simps [simp]:
  "entry_bytes [] = []"
  "entry_bytes ((k, v) # es) = le_bytes 8 (length k) @ le_bytes 8 (length v) @ k @ v @ entry_bytes es"
  by (simp_all add: entry_bytes_def)

lemma length_entry_bytes [size_simps]:
  "length (entry_bytes es) = (\<Sum>(k, v)\<leftarrow>es. length k + length v) + 16 * length es"
  by (induction es) auto

lemma length_layouts [size_simps]:
  "length (index_bytes n key) = 32 + length key"
  "length (header_bytes compressed ty m) = 16"
  "length (body_bytes es) = 8 + length (entry_bytes es)"
  by (simp_all add: index_bytes_def header_bytes_def body_bytes_def)

subsection \<open>Parsing what was written\<close>

lemma record_reads:
  assumes mem: "mem = pre @ le_bytes 8 (length k) @ le_bytes 8 (length v) @ k @ v @ rest"
    and p: "p = length pre" and small: "length k < size_max" "length v < size_max"
  shows "ReadSize mem p = Some (length k)" "ReadSize mem (p + 8) = Some (length v)"
    "read_bytes mem (p + 16) (length k) = Some k"
    "read_bytes mem (p + 16 + length k) (length v) = Some v"
proof -
  show "ReadSize mem p = Some (length k)" unfolding mem p by (rule ReadSize_at [OF refl small(1)])
  show "ReadSize mem (p + 8) = Some (length v)"
    unfolding mem p using ReadSize_at [OF refl small(2), of "pre @ le_bytes 8 (length k)"] by simp
  show "read_bytes mem (p + 16) (length k) = Some k"
    unfolding mem p
    using read_bytes_at [OF refl refl, of "pre @ le_bytes 8 (length k) @ le_bytes 8 (length v)" k "v @ rest"] by simp
  show "read_bytes mem (p + 16 + length k) (length v) = Some v"
    unfolding mem p
    using read_bytes_at [OF refl refl, of "pre @ le_bytes 8 (length k) @ le_bytes 8 (length v) @ k" v rest]
    by (simp add: ac_simps)
qed

lemma parse_loop_entries:
  assumes "index + length (entry_bytes es) < size_max"
    and "entries_size = index + length (entry_bytes es)"
    and "length pre2 = index"
  shows "\<exists>xs. parse_loop (pre @ pre2 @ entry_bytes es @ rest) (length pre) entries_size (length es) index =
      Some (Some xs) \<and> map ei_entry xs = es"
  using assms
proof (induction es arbitrary: index pre2)
  case (Cons e es)
  obtain k v where e: "e = (k, v)" by (cases e)
  let ?rec = "le_bytes 8 (length k) @ le_bytes 8 (length v) @ k @ v"
  let ?mem = "pre @ pre2 @ entry_bytes (e # es) @ rest"
  have sizes: "index + 16 + length k + length v + length (entry_bytes es) < size_max"
    "entries_size = index + 16 + length k + length v + length (entry_bytes es)"
    using Cons.prems e by simp_all
  have w: "wrap (index + 16) = index + 16"
    "wrap (16 + length k + length v) = 16 + length k + length v"
    "wrap (index + (16 + length k + length v)) = index + 16 + length k + length v"
    using sizes by simp_all
  note reads = record_reads [of ?mem "pre @ pre2" k v "entry_bytes es @ rest" "length pre + index"]
  obtain xs where xs: "parse_loop ?mem (length pre) entries_size (length es)
      (index + (16 + length k + length v)) = Some (Some xs)" "map ei_entry xs = es"
    using Cons.IH [of "index + (16 + length k + length v)" "pre2 @ ?rec"] sizes Cons.prems(3) e by auto
  show ?case
    by (intro exI [of _ "\<lparr>ei_key = k, ei_value = v, ei_offset = index\<rparr> # xs"])
      (use reads xs w sizes e Cons.prems(3) in \<open>simp add: Let_def\<close>)
qed simp

lemma ParseEntries_body:
  assumes "length (body_bytes es) < size_max"
  shows "\<exists>xs. ParseEntries (pre @ body_bytes es @ rest) (length pre) (length (body_bytes es)) = Some xs \<and>
    map ei_entry xs = es"
proof -
  have small: "8 + length (entry_bytes es) < size_max" using assms by (simp add: length_layouts)
  then have n: "length es < size_max" by (simp add: length_entry_bytes)
  obtain xs where xs: "parse_loop (pre @ le_bytes 8 (length es) @ entry_bytes es @ rest) (length pre)
      (8 + length (entry_bytes es)) (length es) 8 = Some (Some xs)" "map ei_entry xs = es"
    using parse_loop_entries [OF small refl, of "le_bytes 8 (length es)" pre rest] by auto
  show ?thesis
    using xs ReadSize_at [OF refl n, of pre "entry_bytes es @ rest"]
    by (auto simp: ParseEntries_def length_layouts body_bytes_def)
qed

subsection \<open>Loading a block\<close>

abbreviation (input) max_file :: nat where "max_file \<equiv> 2 ^ 31 - 1"

lemma narrow_offset_small:
  assumes "n < max_file"
  shows "narrow_offset n = n"
proof -
  have u: "unat (word_of_nat n :: 32 word) = n"
    using assms by (simp add: unsigned_of_nat take_bit_nat_eq_self)
  then have "(word_of_nat n :: 32 word) \<noteq> - 1"
    using assms by (auto simp: unsigned_minus_1_eq_mask mask_eq_exp_minus_1)
  moreover have "(scast (word_of_nat n :: 32 word) :: 64 word) = word_of_nat n"
    using assms by (simp add: signed_of_nat signed_take_bit_int_eq_self)
  ultimately show ?thesis
    using assms by (simp add: narrow_offset_def Let_def unsigned_of_nat take_bit_nat_eq_self)
qed

lemma bloom_not_magic:
  assumes "bf_wf bloom" "bf_binary_size bloom < max_file"
  shows "ReadUInt32 (pre @ bf_bytes bloom pad @ rest) (length pre) \<noteq> Some kEncodedBlockMagic"
proof -
  have "bf_hash_num bloom < 2 ^ 28" using assms by (simp add: bf_binary_size_alt)
  then show ?thesis
    using ReadUInt32_low [OF refl, of "bf_hash_num bloom" pre] by (simp add: bf_bytes_def)
qed

lemma plain_block_Load:
  assumes wf: "bf_wf bloom" and pad: "length pad = 8"
    and small: "length (pre @ plain_block_bytes bloom pad es) < max_file"
    and chk: "\<forall>k \<in> fst ` set es. bf_Check bloom k"
  shows "\<exists>b. block_Load api (pre @ plain_block_bytes bloom pad es) (length pre) = Some b \<and>
    block_holds b es \<and> \<not> dbi_compressed b"
proof -
  let ?size = "16 + bf_binary_size bloom + length (entry_bytes es)"
  let ?mem = "pre @ plain_block_bytes bloom pad es"
  let ?pre = "pre @ le_bytes 8 ?size"
  have mem: "?mem = ?pre @ bf_bytes bloom pad @ body_bytes es" by (simp add: plain_block_bytes_def)
  have len: "length (bf_bytes bloom pad) = bf_binary_size bloom"
    using wf pad by (simp add: length_bf_bytes)
  have sizes: "length pre < max_file" "?size < max_file" "bf_binary_size bloom < max_file"
    using small by (simp_all add: plain_block_bytes_def length_layouts len)
  have "ReadSize ?mem (length pre) = Some ?size"
    using ReadSize_at [OF refl, of ?size pre] sizes by (simp add: plain_block_bytes_def)
  moreover have "IsEncodedBlock ?mem (length pre + 8) (?size - 8) = Some False"
  proof -
    have "ReadUInt32 ?mem (length pre + 8) \<noteq> Some kEncodedBlockMagic"
      using bloom_not_magic [OF wf sizes(3), of ?pre pad "body_bytes es"] mem by simp
    moreover have "\<exists>n. ReadUInt32 ?mem (length pre + 8) = Some n"
      using mem len by (auto simp: ReadUInt32_def read_bytes_def bf_binary_size_alt [OF wf])
    ultimately show ?thesis by (auto simp: IsEncodedBlock_def)
  qed
  moreover have "bf_Load ?mem (length pre + 8) = Some (bloom, bf_binary_size bloom)"
    using bf_Load_at [OF wf _ pad, of ?pre "body_bytes es"] sizes mem by simp
  moreover obtain xs where "ParseEntries ?mem (length pre + 8 + bf_binary_size bloom)
      (8 + length (entry_bytes es)) = Some xs" "map ei_entry xs = es"
    using ParseEntries_body [of es "?pre @ bf_bytes bloom pad" "[]"] sizes len mem
    by (auto simp: length_layouts ac_simps)
  ultimately show ?thesis
    using narrow_offset_small [OF sizes(1)] wf chk
    by (simp add: block_Load_def Let_def block_holds_def)
qed

text \<open>The body of an encoded block: the entries as they are, or a form that the codec restores.\<close>

definition body_decodes :: "'c lz4_api \<Rightarrow> bool \<Rightarrow> CompressionType \<Rightarrow> bytes \<Rightarrow> entry list \<Rightarrow> bool" where
  "body_decodes api compressed ty body es =
     (if compressed
      then type_code ty < 256 \<and> type_of_code (type_code ty) = ty \<and>
        factory_Decompress api ty \<lparr>cd_data = body, cd_original_size = length (body_bytes es)\<rparr>
          (length (body_bytes es)) = Some (Some (length (body_bytes es), body_bytes es))
      else body = body_bytes es)"

lemma header_reads:
  assumes "mem = pre @ header_bytes compressed ty n @ rest" "p = length pre" "n < size_max"
  shows "ReadUInt32 mem p = Some kEncodedBlockMagic" "at mem (p + 4) = Some (byte 1)"
    "at mem (p + 5) = Some (byte (if compressed then 1 else 0))"
    "at mem (p + 6) = Some (byte (type_code ty))" "ReadSize mem (p + 8) = Some n"
proof -
  have at_app: "at (xs @ c # ys) i = Some c" if "i = length xs" for xs c ys i
    using that by (simp add: at_def)
  show "ReadUInt32 mem p = Some kEncodedBlockMagic"
    using assms ReadUInt32_at [of p pre kEncodedBlockMagic] by (simp add: header_bytes_def)
  show "at mem (p + 4) = Some (byte 1)"
    using assms at_app [of "p + 4" "pre @ le_bytes 4 kEncodedBlockMagic"] by (simp add: header_bytes_def)
  show "at mem (p + 5) = Some (byte (if compressed then 1 else 0))"
    using assms at_app [of "p + 5" "pre @ le_bytes 4 kEncodedBlockMagic @ [byte 1]"]
    by (simp add: header_bytes_def)
  show "at mem (p + 6) = Some (byte (type_code ty))"
    using assms at_app [of "p + 6" "pre @ le_bytes 4 kEncodedBlockMagic @
        [byte 1, byte (if compressed then 1 else 0)]"]
    by (simp add: header_bytes_def)
  show "ReadSize mem (p + 8) = Some n"
    using assms(1,2) ReadSize_at [OF refl assms(3), of "pre @ le_bytes 4 kEncodedBlockMagic @
        [byte 1, byte (if compressed then 1 else 0), byte (type_code ty), byte 0]"]
    by (simp add: header_bytes_def)
qed

lemma of_char_byte [simp]: "(of_char (byte n) :: nat) = n mod 256"
  by (simp add: byte_def)

lemma LoadEncodedBlock_at:
  assumes mem: "mem = pre @ payload_bytes compressed ty (length (body_bytes es)) bloom pad body"
    and wf: "bf_wf bloom" and pad: "length pad = 8"
    and dec: "body_decodes api compressed ty body es"
    and small: "bf_binary_size bloom < max_file" "length (body_bytes es) < max_file"
    and chk: "\<forall>k \<in> fst ` set es. bf_Check bloom k"
    and psize: "payload_size = 16 + bf_binary_size bloom + length body"
  shows "\<exists>b'. LoadEncodedBlock api mem (length pre) payload_size b = Some b' \<and>
    block_holds b' es \<and> dbi_compressed b' = compressed \<and> (compressed \<longrightarrow> dbi_type b' = ty)"
proof -
  let ?n = "length (body_bytes es)"
  let ?hdr = "header_bytes compressed ty ?n"
  have len: "length (bf_bytes bloom pad) = bf_binary_size bloom"
    using wf pad by (simp add: length_bf_bytes)
  have mem': "mem = pre @ ?hdr @ bf_bytes bloom pad @ body" using mem by (simp add: payload_bytes_def)
  have "?n < size_max" using small by simp
  note hdr = header_reads(2-) [OF mem' refl this]
  have bl: "bf_Load mem (length pre + 16) = Some (bloom, bf_binary_size bloom)"
    using bf_Load_at [OF wf _ pad, of "pre @ ?hdr" body] small mem' by (simp add: length_layouts)
  show ?thesis
  proof (cases compressed)
    case True
    have "read_bytes mem (length pre + (16 + bf_binary_size bloom)) (length body) = Some body"
      using read_bytes_at [OF refl refl, of "pre @ ?hdr @ bf_bytes bloom pad" body "[]"] mem'
      by (simp add: length_layouts len)
    moreover obtain xs where "ParseEntries (body_bytes es) 0 ?n = Some xs" "map ei_entry xs = es"
      using ParseEntries_body [of es "[]" "[]"] small by auto
    moreover have "type_code ty mod 256 = type_code ty" "type_of_code (type_code ty) = ty"
      "factory_Decompress api ty \<lparr>cd_data = body, cd_original_size = ?n\<rparr> ?n = Some (Some (?n, body_bytes es))"
      using dec True by (simp_all add: body_decodes_def)
    ultimately show ?thesis
      using hdr bl psize True wf chk by (simp add: LoadEncodedBlock_def Let_def block_holds_def)
  next
    case False
    then have body: "body = body_bytes es" using dec by (simp add: body_decodes_def)
    then obtain xs where "ParseEntries mem (length pre + (16 + bf_binary_size bloom)) ?n = Some xs"
      "map ei_entry xs = es"
      using ParseEntries_body [of es "pre @ ?hdr @ bf_bytes bloom pad" "[]"] small mem'
      by (auto simp: length_layouts len)
    then show ?thesis
      using hdr bl psize False wf chk body by (simp add: LoadEncodedBlock_def Let_def block_holds_def)
  qed
qed

lemma encoded_block_Load:
  assumes payload: "payload = payload_bytes compressed ty (length (body_bytes es)) bloom pad body"
    and mem: "mem = pre @ le_bytes 8 (8 + length payload) @ payload"
    and wf: "bf_wf bloom" and pad: "length pad = 8"
    and dec: "body_decodes api compressed ty body es"
    and small: "length mem < max_file" "length (body_bytes es) < max_file"
    and chk: "\<forall>k \<in> fst ` set es. bf_Check bloom k"
  shows "\<exists>b. block_Load api mem (length pre) = Some b \<and>
    block_holds b es \<and> dbi_compressed b = compressed \<and> (compressed \<longrightarrow> dbi_type b = ty)"
proof -
  let ?pre = "pre @ le_bytes 8 (8 + length payload)"
  have plen: "length payload = 16 + bf_binary_size bloom + length body"
    using wf pad by (simp add: payload payload_bytes_def length_layouts length_bf_bytes)
  have sizes: "8 + length payload < max_file" "bf_binary_size bloom < max_file" "length pre < max_file"
    using small mem plen by simp_all
  have mem': "mem = ?pre @ payload_bytes compressed ty (length (body_bytes es)) bloom pad body"
    using mem payload by simp
  have size: "ReadSize mem (length pre) = Some (8 + length payload)"
    using ReadSize_at [OF refl, of "8 + length payload" pre payload] sizes mem by simp
  have "ReadUInt32 mem (length pre + 8) = Some kEncodedBlockMagic"
    using header_reads(1) [of mem ?pre _ _ "length (body_bytes es)"] mem' small
    by (simp add: payload_bytes_def)
  then have enc: "IsEncodedBlock mem (length pre + 8) (length payload) = Some True"
    using plen by (simp add: IsEncodedBlock_def)
  have load: "block_Load api mem (length pre) = LoadEncodedBlock api mem (length ?pre) (length payload)
     \<lparr>dbi_offset = length pre, dbi_entries = [], dbi_bloom = bloom_none, dbi_binary_size = 8 + length payload,
      dbi_compressed = False, dbi_type = kNone\<rparr>"
  proof -
    have "8 < 8 + length payload" using plen by simp
    then show ?thesis using size enc by (simp add: block_Load_def Let_def narrow_offset_small [OF sizes(3)])
  qed
  show ?thesis
    unfolding load using LoadEncodedBlock_at [OF mem' wf pad dec sizes(2) small(2) chk plen] by blast
qed

subsection \<open>The index block\<close>

lemma index_Load_at:
  assumes mem: "mem = index_bytes ibs key @ gap @ block" and small: "length mem < max_file"
    and ibs: "ibs = length (index_bytes ibs key @ gap)"
    and b: "block_Load api mem ibs = Some b"
  shows "index_Load api mem = Some \<lparr>ibi_binary_size = ibs,
    ibi_blocks = [\<lparr>dii_offset = ibs, dii_key = key, dii_block = b\<rparr>]\<rparr>"
proof -
  have sizes: "ibs < size_max" "length key < size_max"
    using small ibs unfolding mem by (simp_all add: length_layouts)
  have "ReadSize mem 0 = Some ibs"
    using ReadSize_at [OF _ sizes(1), of 0 "[]"] by (simp add: mem index_bytes_def)
  moreover have "ReadSize mem 8 = Some 1"
    using ReadSize_at [of 8 "le_bytes 8 ibs" 1] by (simp add: mem index_bytes_def)
  moreover have "ReadSize mem 16 = Some ibs"
    using ReadSize_at [OF _ sizes(1), of 16 "le_bytes 8 ibs @ le_bytes 8 1"] by (simp add: mem index_bytes_def)
  moreover have "ReadSize mem 24 = Some (length key)"
    using ReadSize_at [OF _ sizes(2), of 24 "le_bytes 8 ibs @ le_bytes 8 1 @ le_bytes 8 ibs"]
    by (simp add: mem index_bytes_def)
  moreover have "read_bytes mem 32 (length key) = Some key"
    using read_bytes_at [OF refl, of 32 "le_bytes 8 ibs @ le_bytes 8 1 @ le_bytes 8 ibs @ le_bytes 8 (length key)" key]
    by (simp add: mem index_bytes_def)
  ultimately show ?thesis
    using b by (simp add: index_Load_def block_index_Load_def)
qed

lemma write_bytes_filled:
  assumes "filled mem pre" "off = length pre" "off + length bs \<le> length mem"
  shows "\<exists>mem'. write_bytes mem off bs = Some mem' \<and> filled mem' (pre @ bs) \<and> length mem' = length mem"
  using filled_write [OF assms] by metis

lemma write_index_block_filled:
  assumes "32 + length key \<le> length mem"
  shows "\<exists>mem'. write_index_block mem ibs key = Some mem' \<and> filled mem' (index_bytes ibs key) \<and>
    length mem' = length mem"
proof -
  obtain m1 where 1: "WriteSize mem 0 ibs = Some m1" "filled m1 (le_bytes 8 ibs)" "length m1 = length mem"
    using WriteSize_filled [OF filled_Nil, of 0 mem ibs] assms by auto
  obtain m2 where 2: "WriteSize m1 8 1 = Some m2" "filled m2 (le_bytes 8 ibs @ le_bytes 8 1)"
    "length m2 = length mem"
    using WriteSize_filled [OF 1(2), of 8 1] assms 1(3) by auto
  obtain m3 where 3: "WriteSize m2 16 ibs = Some m3"
    "filled m3 (le_bytes 8 ibs @ le_bytes 8 1 @ le_bytes 8 ibs)" "length m3 = length mem"
    using WriteSize_filled [OF 2(2), of 16 ibs] assms 2(3) by auto
  obtain m4 where 4: "WriteSize m3 24 (length key) = Some m4"
    "filled m4 (le_bytes 8 ibs @ le_bytes 8 1 @ le_bytes 8 ibs @ le_bytes 8 (length key))" "length m4 = length mem"
    using WriteSize_filled [OF 3(2), of 24 "length key"] assms 3(3) by auto
  obtain m5 where 5: "write_bytes m4 32 key = Some m5" "filled m5 (index_bytes ibs key)" "length m5 = length mem"
    using write_bytes_filled [OF 4(2), of 32 key] assms 4(3) by (auto simp: index_bytes_def)
  show ?thesis using 1(1) 2(1) 3(1) 4(1) 5 by (simp add: write_index_block_def)
qed

lemma write_entries_filled:
  assumes "filled mem pre" "length pre + length (entry_bytes es) \<le> length mem"
  shows "\<exists>mem'. write_entries mem (length pre) es = Some mem' \<and> filled mem' (pre @ entry_bytes es) \<and>
    length mem' = length mem"
  using assms
proof (induction es arbitrary: mem pre)
  case (Cons e es)
  obtain k v where e: "e = (k, v)" by (cases e)
  note fits = Cons.prems(2) [unfolded e, simplified]
  obtain m1 where 1: "WriteSize mem (length pre) (length k) = Some m1"
    "filled m1 (pre @ le_bytes 8 (length k))" "length m1 = length mem"
    using WriteSize_filled [OF Cons.prems(1) refl, of "length k"] fits by auto
  obtain m2 where 2: "WriteSize m1 (length pre + 8) (length v) = Some m2"
    "filled m2 (pre @ le_bytes 8 (length k) @ le_bytes 8 (length v))" "length m2 = length mem"
    using WriteSize_filled [OF 1(2), of "length pre + 8" "length v"] fits 1(3) by auto
  obtain m3 where 3: "write_bytes m2 (length pre + 16) k = Some m3"
    "filled m3 (pre @ le_bytes 8 (length k) @ le_bytes 8 (length v) @ k)" "length m3 = length mem"
    using write_bytes_filled [OF 2(2), of "length pre + 16" k] fits 2(3) by auto
  obtain m4 where 4: "write_bytes m3 (length pre + 16 + length k) v = Some m4"
    "filled m4 (pre @ le_bytes 8 (length k) @ le_bytes 8 (length v) @ k @ v)" "length m4 = length mem"
    using write_bytes_filled [OF 3(2), of "length pre + 16 + length k" v] fits 3(3) by auto
  obtain m5 where 5: "write_entries m4 (length pre + 16 + length k + length v) es = Some m5"
    "filled m5 (pre @ entry_bytes (e # es))" "length m5 = length mem"
    using Cons.IH [OF 4(2)] fits 4(3) by (auto simp: e ac_simps)
  show ?case using 1(1) 2(1) 3(1) 4(1) 5 by (simp add: e)
qed simp

lemma write_plain_block_filled:
  assumes f: "filled mem pre" and wf: "bf_wf bloom"
    and fits: "length pre + 16 + bf_binary_size bloom + length (entry_bytes es) = length mem"
    and size: "data_block_size = 16 + bf_binary_size bloom + length (entry_bytes es)"
  shows "\<exists>pad. length pad = 8 \<and> write_plain_block mem (length pre) data_block_size (length es) bloom es =
    Some (pre @ plain_block_bytes bloom pad es)"
proof -
  obtain m1 where 1: "WriteSize mem (length pre) data_block_size = Some m1"
    "filled m1 (pre @ le_bytes 8 data_block_size)" "length m1 = length mem"
    using WriteSize_filled [OF f refl, of data_block_size] fits by auto
  obtain m2 pad where 2: "bf_Save m1 (length pre + 8) bloom = Some (m2, bf_binary_size bloom)"
    "length pad = 8" "filled m2 (pre @ le_bytes 8 data_block_size @ bf_bytes bloom pad)"
    "length m2 = length mem"
    using bf_Save_filled [OF 1(2) wf] fits 1(3) by auto
  have len: "length (bf_bytes bloom pad) = bf_binary_size bloom" using wf 2(2) by (simp add: length_bf_bytes)
  obtain m3 where 3: "WriteSize m2 (length pre + 8 + bf_binary_size bloom) (length es) = Some m3"
    "filled m3 (pre @ le_bytes 8 data_block_size @ bf_bytes bloom pad @ le_bytes 8 (length es))"
    "length m3 = length mem"
    using WriteSize_filled [OF 2(3), of "length pre + 8 + bf_binary_size bloom" "length es"] fits 2(4) len by auto
  obtain m4 where 4: "write_entries m3 (length pre + 8 + bf_binary_size bloom + 8) es = Some m4"
    "filled m4 (pre @ plain_block_bytes bloom pad es)" "length m4 = length mem"
    using write_entries_filled [OF 3(2), of es] fits 3(3) len
    by (auto simp: ac_simps plain_block_bytes_def body_bytes_def size)
  have "m4 = pre @ plain_block_bytes bloom pad es"
    using filled_complete [OF 4(2)] 4(3) fits len by (simp add: plain_block_bytes_def length_layouts)
  then show ?thesis
    using 1(1) 2(1,2) 3(1) 4(1) by (auto simp: write_plain_block_def)
qed

end
