(* ===== verification/SST_Correct.thy ===== *)
theory SST_Correct
  imports SST_Build
begin

text \<open>
  Correctness of the constructors of \<^verbatim>\<open>SST\<close>: on strictly sorted entries whose file stays below the
  32-bit offset limit, each constructor succeeds whatever the file held before, and the table
  holds exactly the entries, in memory and after loading the file again.
\<close>

subsection \<open>Sizes\<close>

definition bloom_size :: "'c sst_env \<Rightarrow> nat \<Rightarrow> nat" where
  "bloom_size env n =
     24 + 8 * nat (max 1 (calc_hash_num env n)) + 8 * ((calc_length env n + 1) div 64 + 1)"

text \<open>An upper bound for the size of the file of a table, for every layout.\<close>

definition sst_bound :: "'c sst_env \<Rightarrow> entry list \<Rightarrow> nat" where
  "sst_bound env es =
     16 * (length es + 1) + length (fst (hd es)) + 32 + bloom_size env (length es) +
     length (entry_bytes es)"

definition table_bloom :: "'c sst_env \<Rightarrow> 64 word \<Rightarrow> entry list \<Rightarrow> bloom" where
  "table_bloom env c es =
     bf_insert_all (map fst es) (fst (bf_Init (calc_length env (length es)) (calc_hash_num env (length es)) c))"

lemma table_bloom_wf: "bf_wf (table_bloom env c es)"
  using bf_insert_all_props [OF bf_wf_Init] by (simp add: table_bloom_def)

lemma table_bloom_Check: "\<forall>k \<in> fst ` set es. bf_Check (table_bloom env c es) k"
  using bf_insert_all_props [OF bf_wf_Init] by (simp add: table_bloom_def)

lemma table_bloom_size: "bf_binary_size (table_bloom env c es) = bloom_size env (length es)"
proof -
  let ?b = "table_bloom env c es"
  have "bf_hash_num ?b = nat (max 1 (calc_hash_num env (length es)))"
    "bf_length ?b = calc_length env (length es) + 1"
    by (simp_all add: table_bloom_def bf_insert_all_frame bf_Init_def Let_def split: prod.splits)
  moreover have "length (bf_data ?b) = bf_length ?b div 64 + 1"
    using table_bloom_wf [of env c es] by (simp add: bf_wf_def)
  ultimately show ?thesis
    using bf_binary_size_alt [OF table_bloom_wf, of env c es] by (simp add: bloom_size_def)
qed

subsection \<open>From the bytes of the file to the table\<close>

lemma index_of_file:
  assumes es: "es \<noteq> []" "sorted_keys es"
    and mem: "mem = index_bytes ibs (fst (hd es)) @ gap @ block" "length mem < max_file"
    and ibs: "ibs = length (index_bytes ibs (fst (hd es)) @ gap)"
    and b: "block_Load api mem ibs = Some b" "block_holds b es"
  shows "\<exists>index. index_Load api mem = Some index \<and> (\<forall>sst. sst_index sst = index \<longrightarrow> sst_holds sst es) \<and>
    ibi_blocks index = [\<lparr>dii_offset = ibs, dii_key = fst (hd es), dii_block = b\<rparr>]"
  using index_Load_at [OF mem ibs b(1)] es b(2) by (simp add: sst_holds_def)

text \<open>
  \<open>stored env fs fid es\<close>: the file \<open>fid\<close> can be loaded and holds \<open>es\<close>.  \<open>table_ok\<close>: a table object
  answers like \<open>es\<close>, and so does its file.
\<close>

definition stored :: "'c sst_env \<Rightarrow> files \<Rightarrow> int \<Rightarrow> entry list \<Rightarrow> bool" where
  "stored env fs fid es =
     (\<exists>sst. sst_Load env fs fid = Some (Some sst) \<and> sst_holds sst es \<and> sst_id sst = fid \<and>
        sst_file_size sst \<le> sst_bound env es)"

definition table_ok :: "'c sst_env \<Rightarrow> files \<Rightarrow> SST \<Rightarrow> entry list \<Rightarrow> bool" where
  "table_ok env fs sst es =
     (sst_holds sst es \<and> stored env fs (sst_id sst) es \<and> sst_file_size sst \<le> sst_bound env es)"

lemma index_Load_Nil: "index_Load api [] = None"
  by (simp add: index_Load_def ReadSize_def read_bytes_def)

lemma table_ok_new:
  assumes "index_Load (lz4 env) (sst_data sst) = Some (sst_index sst)"
    and "\<forall>x. sst_index x = sst_index sst \<longrightarrow> sst_holds x es"
    and "sst_file_size sst = length (sst_data sst)" "length (sst_data sst) \<le> sst_bound env es"
  shows "table_ok env (fs(sst_id sst \<mapsto> sst_data sst)) sst es"
  using assms index_Load_Nil [of "lz4 env"] by (auto simp: table_ok_def stored_def sst_Load_def)

lemma table_ok_other:
  "table_ok env fs sst es \<Longrightarrow> sst_id sst \<noteq> fid \<Longrightarrow> table_ok env (fs(fid \<mapsto> mem)) sst es"
  by (simp add: table_ok_def stored_def sst_Load_def)

lemma SST_plain_unfold:
  fixes env :: "'c sst_env" and c :: "64 word" and es :: "entry list"
  assumes "es \<noteq> []"
  defines "bloom \<equiv> table_bloom env c es"
    and "ibs \<equiv> 16 * (length es + 1) + length (fst (hd es))"
    and "dbs \<equiv> 16 + bf_binary_size (table_bloom env c es) + length (entry_bytes es)"
  shows "SST_plain env (length es) es fid (fs, c) =
    do { mem \<leftarrow> write_index_block (open_file fs fid (ibs + dbs)) ibs (fst (hd es));
         mem \<leftarrow> write_plain_block mem ibs dbs (length es) bloom es;
         index \<leftarrow> index_Load (lz4 env) mem;
         Some (\<lparr>sst_id = fid, sst_data = mem, sst_index = index, sst_ready = True, sst_loaded = True,
                sst_file_size = ibs + dbs, sst_config = no_compression, sst_uncompressed_size = 0,
                sst_compressed = False\<rparr>, fs(fid \<mapsto> mem),
               snd (bf_Init (calc_length env (length es)) (calc_hash_num env (length es)) c)) }"
proof -
  obtain k0 v0 es' where e: "es = (k0, v0) # es'" using assms(1) by (cases es) auto
  obtain b c' where b: "bf_Init (calc_length env (length es)) (calc_hash_num env (length es)) c = (b, c')"
    by fastforce
  have bloom: "bf_insert_all (map fst es) b = bloom" by (simp add: bloom_def table_bloom_def b)
  have dbs: "8 + (\<Sum>(k, v)\<leftarrow>es. length k + length v) + length es * 2 * 8 + bf_binary_size bloom + 8 = dbs"
    by (simp add: dbs_def length_entry_bytes bloom_def)
  have ibs: "2 * 8 * (length es + 1) + length k0 = ibs" by (simp add: ibs_def e)
  show ?thesis
    unfolding SST_plain_def
    by (simp only: e prod.case list.case Let_def)
      (simp only: e [symmetric] b bloom dbs ibs prod.case snd_conv, simp add: e)
qed

lemma SST_entries_ok:
  assumes es: "es \<noteq> []" "sorted_keys es" and small: "sst_bound env es < max_file"
  shows "\<exists>sst c'. SST_entries env es fid (fs, c) = Some (sst, fs(fid \<mapsto> sst_data sst), c') \<and>
    sst_id sst = fid \<and> table_ok env (fs(fid \<mapsto> sst_data sst)) sst es"
proof -
  let ?bloom = "table_bloom env c es" and ?k0 = "fst (hd es)"
  define ibs where "ibs = 16 * (length es + 1) + length ?k0"
  define dbs where "dbs = 16 + bf_binary_size ?bloom + length (entry_bytes es)"
  have ibs32: "32 + length ?k0 \<le> ibs" using es(1) by (cases es) (simp_all add: ibs_def)
  obtain mem1 where 1: "write_index_block (open_file fs fid (ibs + dbs)) ibs ?k0 = Some mem1"
    "filled mem1 (index_bytes ibs ?k0)" "length mem1 = ibs + dbs"
    using write_index_block_filled [of ?k0 "open_file fs fid (ibs + dbs)" ibs] ibs32
    by (auto simp: open_file_def)
  obtain gap where gap: "length gap = ibs - (32 + length ?k0)" "filled mem1 (index_bytes ibs ?k0 @ gap)"
    using filled_skip [OF 1(2), of "ibs - (32 + length ?k0)"] ibs32 1(3) by (auto simp: length_layouts)
  have pre: "length (index_bytes ibs ?k0 @ gap) = ibs" using gap(1) ibs32 by (simp add: length_layouts)
  obtain pad where 2: "length pad = 8" "write_plain_block mem1 ibs dbs (length es) ?bloom es =
      Some ((index_bytes ibs ?k0 @ gap) @ plain_block_bytes ?bloom pad es)"
    using write_plain_block_filled [OF gap(2) table_bloom_wf _ dbs_def] pre 1(3) dbs_def by fastforce
  let ?mem = "(index_bytes ibs ?k0 @ gap) @ plain_block_bytes ?bloom pad es"
  have flen: "length ?mem < max_file"
    using small pre 2(1)
    by (simp add: plain_block_bytes_def length_layouts length_bf_bytes table_bloom_wf table_bloom_size
        sst_bound_def ibs_def)
  obtain b where b: "block_Load (lz4 env) ?mem ibs = Some b" "block_holds b es"
    using plain_block_Load [OF table_bloom_wf 2(1) flen table_bloom_Check] pre by metis
  obtain index where idx: "index_Load (lz4 env) ?mem = Some index"
    "\<forall>sst. sst_index sst = index \<longrightarrow> sst_holds sst es"
    using index_of_file [OF es _ flen pre [symmetric] b] by auto
  have mlen: "length ?mem = ibs + dbs" "ibs + dbs \<le> sst_bound env es"
    using pre 2(1)
    by (simp_all add: plain_block_bytes_def length_layouts length_bf_bytes table_bloom_wf table_bloom_size
        sst_bound_def ibs_def dbs_def)
  define sst where "sst = \<lparr>sst_id = fid, sst_data = ?mem, sst_index = index, sst_ready = True,
    sst_loaded = True, sst_file_size = ibs + dbs, sst_config = no_compression, sst_uncompressed_size = 0,
    sst_compressed = False\<rparr>"
  have "\<exists>c'. SST_entries env es fid (fs, c) = Some (sst, fs(fid \<mapsto> ?mem), c')"
    using SST_plain_unfold [OF es(1), of env fid fs c, folded ibs_def dbs_def] 1(1) 2(2) idx(1)
    by (simp add: SST_entries_def sst_def)
  moreover have "table_ok env (fs(sst_id sst \<mapsto> sst_data sst)) sst es"
    by (rule table_ok_new) (use idx mlen in \<open>simp_all add: sst_def\<close>)
  moreover have "sst_id sst = fid" "sst_data sst = ?mem" by (simp_all add: sst_def)
  ultimately show ?thesis by metis
qed

subsection \<open>The block builder\<close>

lemma builder_Add_all:
  "fold (\<lambda>e bb. builder_Add bb e) es bb =
     bb\<lparr>bb_raw_data := bb_raw_data bb @ entry_bytes es, bb_keys := bb_keys bb @ map fst es,
        bb_total_size := bb_total_size bb + length (entry_bytes es), bb_count := bb_count bb + length es\<rparr>"
  by (induction es arbitrary: bb) (auto simp: builder_Add_def)

lemma header_filled:
  assumes "16 \<le> length mem"
  shows "\<exists>mem'. WriteEncodedBlockHeader mem 0 compressed ty n = Some mem' \<and>
    filled mem' (header_bytes compressed ty n) \<and> length mem' = length mem"
proof -
  let ?flags = "[byte 1, byte (if compressed then 1 else 0), byte (type_code ty), byte 0]"
  obtain m1 where 1: "WriteUInt32 mem 0 kEncodedBlockMagic = Some m1"
    "filled m1 (le_bytes 4 kEncodedBlockMagic)" "length m1 = length mem"
    using write_bytes_filled [OF filled_Nil, of 0 "le_bytes 4 kEncodedBlockMagic" mem] assms
    by (auto simp: WriteUInt32_def)
  obtain m2 where 2: "write_bytes m1 4 ?flags = Some m2"
    "filled m2 (le_bytes 4 kEncodedBlockMagic @ ?flags)" "length m2 = length mem"
    using write_bytes_filled [OF 1(2), of 4 ?flags] assms 1(3) by fastforce
  obtain m3 where 3: "WriteSize m2 8 n = Some m3" "filled m3 (header_bytes compressed ty n)"
    "length m3 = length mem"
    using WriteSize_filled [OF 2(2), of 8 n] assms 2(3) by (auto simp: header_bytes_def)
  show ?thesis using 1(1) 2(1) 3 by (simp add: WriteEncodedBlockHeader_def)
qed

text \<open>Header and filter of a payload; the rest of the buffer is still to be written.\<close>

lemma header_bloom_filled:
  assumes wf: "bf_wf bloom" and fits: "16 + bf_binary_size bloom \<le> length mem"
  shows "\<exists>m1 m2 pad. WriteEncodedBlockHeader mem 0 compressed ty n = Some m1 \<and>
    bf_Save m1 16 bloom = Some (m2, bf_binary_size bloom) \<and> length pad = 8 \<and>
    filled m2 (header_bytes compressed ty n @ bf_bytes bloom pad) \<and> length m2 = length mem"
proof -
  obtain m1 where 1: "WriteEncodedBlockHeader mem 0 compressed ty n = Some m1"
    "filled m1 (header_bytes compressed ty n)" "length m1 = length mem"
    using header_filled fits by (metis add_leD1)
  then show ?thesis
    using bf_Save_filled [OF 1(2) wf] fits by (auto simp: length_layouts)
qed

lemma build_payload_ok:
  assumes wf: "bf_wf bloom" and raw: "bb_raw_data bb = entry_bytes es" "bb_count bb = length es"
  shows "\<exists>pad. length pad = 8 \<and> build_payload bb bloom =
    Some (payload_bytes False (cc_type (bb_config bb)) (length (body_bytes es)) bloom pad (body_bytes es))"
proof -
  let ?size = "16 + bf_binary_size bloom + (8 + length (entry_bytes es))"
  let ?buf = "replicate ?size (CHR 0x00)"
  obtain m1 m2 pad where 1: "WriteEncodedBlockHeader ?buf 0 False (cc_type (bb_config bb)) (length (body_bytes es)) = Some m1"
    "bf_Save m1 16 bloom = Some (m2, bf_binary_size bloom)" "length pad = 8"
    "filled m2 (header_bytes False (cc_type (bb_config bb)) (length (body_bytes es)) @ bf_bytes bloom pad)"
    "length m2 = ?size"
    using header_bloom_filled [OF wf, of ?buf False "cc_type (bb_config bb)" "length (body_bytes es)"] by auto
  have len: "length (bf_bytes bloom pad) = bf_binary_size bloom" using wf 1(3) by (simp add: length_bf_bytes)
  obtain m3 where 3: "WriteSize m2 (16 + bf_binary_size bloom) (length es) = Some m3"
    "filled m3 (header_bytes False (cc_type (bb_config bb)) (length (body_bytes es)) @ bf_bytes bloom pad @
      le_bytes 8 (length es))" "length m3 = ?size"
    using WriteSize_filled [OF 1(4), of "16 + bf_binary_size bloom" "length es"] 1(5) len
    by (auto simp: length_layouts)
  obtain m4 where 4: "write_bytes m3 (16 + bf_binary_size bloom + 8) (entry_bytes es) = Some m4"
    "filled m4 (payload_bytes False (cc_type (bb_config bb)) (length (body_bytes es)) bloom pad (body_bytes es))"
    "length m4 = ?size"
    using write_bytes_filled [OF 3(2), of "16 + bf_binary_size bloom + 8" "entry_bytes es"] 3(3) len
    by (auto simp: length_layouts payload_bytes_def body_bytes_def)
  have "m4 = payload_bytes False (cc_type (bb_config bb)) (length (body_bytes es)) bloom pad (body_bytes es)"
    using filled_complete [OF 4(2)] 4(3) len by (simp add: payload_bytes_def length_layouts)
  then show ?thesis
    using 1(1-3) 3(1) 4(1) raw by (auto simp: build_payload_def Let_def length_layouts)
qed

lemma build_compressed_payload_ok:
  assumes wf: "bf_wf bloom"
  shows "\<exists>pad. length pad = 8 \<and> build_compressed_payload bb bloom n compressed =
    Some (payload_bytes True (cc_type (bb_config bb)) n bloom pad compressed)"
proof -
  let ?size = "16 + bf_binary_size bloom + length compressed"
  let ?buf = "replicate ?size (CHR 0x00)"
  obtain m1 m2 pad where 1: "WriteEncodedBlockHeader ?buf 0 True (cc_type (bb_config bb)) n = Some m1"
    "bf_Save m1 16 bloom = Some (m2, bf_binary_size bloom)" "length pad = 8"
    "filled m2 (header_bytes True (cc_type (bb_config bb)) n @ bf_bytes bloom pad)"
    "length m2 = ?size"
    using header_bloom_filled [OF wf, of ?buf True "cc_type (bb_config bb)" n] by auto
  have len: "length (bf_bytes bloom pad) = bf_binary_size bloom" using wf 1(3) by (simp add: length_bf_bytes)
  obtain m4 where 4: "write_bytes m2 (16 + bf_binary_size bloom) compressed = Some m4"
    "filled m4 (payload_bytes True (cc_type (bb_config bb)) n bloom pad compressed)" "length m4 = ?size"
    using write_bytes_filled [OF 1(4), of "16 + bf_binary_size bloom" compressed] 1(5) len
    by (auto simp: length_layouts payload_bytes_def)
  have "m4 = payload_bytes True (cc_type (bb_config bb)) n bloom pad compressed"
    using filled_complete [OF 4(2)] 4(3) len by (simp add: payload_bytes_def length_layouts)
  then show ?thesis
    using 1(1-3) 4(1) by (auto simp: build_compressed_payload_def Let_def)
qed

text \<open>
  The codec requirement: compression is off, or the configured algorithm is not the embedded
  Snappy codec and the LZ4 library meets its documentation.
\<close>

definition codec_ok :: "'c sst_env \<Rightarrow> CompressionConfig \<Rightarrow> bool" where
  "codec_ok env config =
     (cc_enable config \<longrightarrow> cc_type config \<noteq> kSnappy \<and> (cc_type config = kLZ4 \<longrightarrow> lz4_frame_roundtrip (lz4 env)))"

lemma compressed_body_decodes:
  assumes "codec_ok env config" "cc_enable config"
    and "factory_Compress (lz4 env) (cc_type config) (body_bytes es) = Some (Some cd)" "cd_data cd \<noteq> []"
  shows "body_decodes (lz4 env) True (cc_type config) (cd_data cd) es"
proof -
  have ty: "cc_type config = kLZ4" using assms by (cases "cc_type config") (auto simp: codec_ok_def)
  then have "lz4_frame_roundtrip (lz4 env)" using assms by (simp add: codec_ok_def)
  from factory_roundtrip [OF this _ assms(3,4)] ty show ?thesis
    by (simp add: body_decodes_def type_of_code_def)
qed

lemma builder_Build_ok:
  assumes es: "es \<noteq> []" and ok: "codec_ok env config"
  shows "\<exists>used unc c' pad body payload.
    builder_Build env c (fold (\<lambda>e bb. builder_Add bb e) es (builder_new config)) = Some (payload, used, unc, c') \<and>
    payload = payload_bytes used (cc_type config) (length (body_bytes es)) (table_bloom env c es) pad body \<and>
    length pad = 8 \<and> body_decodes (lz4 env) used (cc_type config) body es \<and>
    length body \<le> length (body_bytes es)"
proof -
  let ?bb = "fold (\<lambda>e bb. builder_Add bb e) es (builder_new config)"
  let ?bloom = "table_bloom env c es"
  have bb: "bb_raw_data ?bb = entry_bytes es" "bb_count ?bb = length es" "bb_keys ?bb = map fst es"
    "bb_config ?bb = config"
    by (simp_all add: builder_Add_all builder_new_def)
  obtain b c' where init: "bf_Init (calc_length env (length es)) (calc_hash_num env (length es)) c = (b, c')"
    by fastforce
  have bloom: "bf_insert_all (map fst es) b = ?bloom" by (simp add: table_bloom_def init)
  obtain pad where 1: "length pad = 8" "build_payload ?bb ?bloom =
      Some (payload_bytes False (cc_type config) (length (body_bytes es)) ?bloom pad (body_bytes es))"
    using build_payload_ok [OF table_bloom_wf bb(1,2)] bb(4) by metis
  let ?r = "payload_bytes False (cc_type config) (length (body_bytes es)) ?bloom pad (body_bytes es)"
  have len: "length (bf_bytes ?bloom pad) = bf_binary_size ?bloom"
    using 1(1) by (simp add: length_bf_bytes table_bloom_wf)
  have rd: "read_bytes ?r (16 + bf_binary_size ?bloom) (8 + length (entry_bytes es)) = Some (body_bytes es)"
    using read_bytes_at [OF refl refl, of "header_bytes False (cc_type config) (length (body_bytes es)) @
        bf_bytes ?bloom pad" "body_bytes es" "[]"]
    by (simp add: payload_bytes_def length_layouts len)
  have n: "(if length es = 0 then 1 else length es) = length es" using es by simp
  let ?ps = "16 + bf_binary_size ?bloom + (8 + length (entry_bytes es))"
  note build = builder_Build_def [of env c ?bb, unfolded bb n Let_def init prod.case bloom]
  show ?thesis
  proof (cases "ShouldCompress config ?ps")
    case False
    then show ?thesis using build 1 by (auto simp: body_decodes_def)
  next
    case True
    then have en: "cc_enable config" by (simp add: ShouldCompress_def)
    then obtain r where r: "factory_Compress (lz4 env) (cc_type config) (body_bytes es) = Some r"
      using factory_Compress_defined ok by (metis codec_ok_def)
    show ?thesis
    proof (cases "\<exists>cd. r = Some cd \<and> cd_data cd \<noteq> [] \<and> length (cd_data cd) < 8 + length (entry_bytes es)")
      case True
      then obtain cd where cd: "r = Some cd" "cd_data cd \<noteq> []" "length (cd_data cd) < 8 + length (entry_bytes es)"
        by auto
      obtain pad2 where 2: "length pad2 = 8" "build_compressed_payload ?bb ?bloom (8 + length (entry_bytes es)) (cd_data cd) =
          Some (payload_bytes True (cc_type config) (length (body_bytes es)) ?bloom pad2 (cd_data cd))"
        using build_compressed_payload_ok [OF table_bloom_wf] bb(4) by (metis length_layouts(3))
      have dec: "body_decodes (lz4 env) True (cc_type config) (cd_data cd) es"
        using compressed_body_decodes [OF ok en] r cd by simp
      have "builder_Build env c ?bb = Some (payload_bytes True (cc_type config) (length (body_bytes es))
          ?bloom pad2 (cd_data cd), True, 8 + ?ps, c')"
        using build 1(2) rd r cd 2 \<open>ShouldCompress config ?ps\<close> by simp
      moreover have "length (cd_data cd) \<le> length (body_bytes es)" using cd(3) by (simp add: length_layouts)
      ultimately show ?thesis using 2(1) dec by blast
    next
      case False
      then have "builder_Build env c ?bb = Some (?r, False, 8 + ?ps, c')"
        using build 1(2) rd r \<open>ShouldCompress config ?ps\<close> by (auto split: option.splits)
      then show ?thesis using 1(1) by (auto simp: body_decodes_def)
    qed
  qed
qed

subsection \<open>The compressing constructors\<close>

lemma SST_entries_compressed_ok:
  assumes es: "es \<noteq> []" "sorted_keys es" and small: "sst_bound env es < max_file" and ok: "codec_ok env config"
  shows "\<exists>sst c'. SST_entries_compressed env config es fid (fs, c) = Some (sst, fs(fid \<mapsto> sst_data sst), c') \<and>
    sst_id sst = fid \<and> table_ok env (fs(fid \<mapsto> sst_data sst)) sst es"
proof -
  let ?bloom = "table_bloom env c es" and ?k0 = "fst (hd es)" and ?n = "length (body_bytes es)"
  obtain used unc c' pad body payload where
    build: "builder_Build env c (fold (\<lambda>e bb. builder_Add bb e) es (builder_new config)) = Some (payload, used, unc, c')"
    and payload: "payload = payload_bytes used (cc_type config) ?n ?bloom pad body"
    and pad: "length pad = 8" and dec: "body_decodes (lz4 env) used (cc_type config) body es"
    and body: "length body \<le> ?n"
    using builder_Build_ok [OF es(1) ok, of c] by metis
  have plen: "length payload = 16 + bf_binary_size ?bloom + length body"
    using pad by (simp add: payload payload_bytes_def length_layouts length_bf_bytes table_bloom_wf)
  define ibs where "ibs = 16 * (length es + 1) + length ?k0"
  let ?size = "ibs + 8 + length payload"
  have ibs32: "32 + length ?k0 \<le> ibs" using es(1) by (cases es) (simp_all add: ibs_def)
  have fsize: "?size < max_file" "?n < max_file"
    using small body by (simp_all add: plen sst_bound_def ibs_def table_bloom_size length_layouts)
  obtain m1 where 1: "write_index_block (open_file fs fid ?size) ibs ?k0 = Some m1"
    "filled m1 (index_bytes ibs ?k0)" "length m1 = ?size"
    using write_index_block_filled [of ?k0 "open_file fs fid ?size" ibs] ibs32 by (auto simp: open_file_def)
  obtain gap where gap: "length gap = ibs - (32 + length ?k0)" "filled m1 (index_bytes ibs ?k0 @ gap)"
    using filled_skip [OF 1(2), of "ibs - (32 + length ?k0)"] ibs32 1(3) by (auto simp: length_layouts)
  let ?pre = "index_bytes ibs ?k0 @ gap"
  have pre: "length ?pre = ibs" using gap(1) ibs32 by (simp add: length_layouts)
  obtain m2 where 2: "WriteSize m1 ibs (8 + length payload) = Some m2"
    "filled m2 (?pre @ le_bytes 8 (8 + length payload))" "length m2 = ?size"
    using WriteSize_filled [OF gap(2), of ibs "8 + length payload"] pre 1(3) by auto
  obtain m3 where 3: "write_bytes m2 (ibs + 8) payload = Some m3"
    "filled m3 (?pre @ le_bytes 8 (8 + length payload) @ payload)" "length m3 = ?size"
    using write_bytes_filled [OF 2(2), of "ibs + 8" payload] pre 2(3) by auto
  have m3: "m3 = ?pre @ le_bytes 8 (8 + length payload) @ payload"
    using filled_complete [OF 3(2)] 3(3) pre by simp
  obtain b where b: "block_Load (lz4 env) m3 ibs = Some b" "block_holds b es"
    using encoded_block_Load [OF payload m3 table_bloom_wf pad dec _ fsize(2) table_bloom_Check] 3(3) fsize(1) pre
    by metis
  obtain index where idx: "index_Load (lz4 env) m3 = Some index"
    "\<forall>sst. sst_index sst = index \<longrightarrow> sst_holds sst es"
    using index_of_file [OF es _ _ pre [symmetric] b] m3 3(3) fsize(1) by auto
  obtain k0 v0 es' where e: "es = (k0, v0) # es'" using es(1) by (cases es) auto
  have "\<exists>sst. SST_entries_compressed env config es fid (fs, c) = Some (sst, fs(fid \<mapsto> m3), c') \<and>
      sst_data sst = m3 \<and> sst_index sst = index \<and> sst_id sst = fid \<and> sst_file_size sst = ?size"
    using build 1(1) 2(1) 3(1) idx(1) unfolding SST_entries_compressed_def SST_encoded_def ibs_def e
    by (simp add: Let_def)
  then obtain sst where sst: "SST_entries_compressed env config es fid (fs, c) = Some (sst, fs(fid \<mapsto> sst_data sst), c')"
    "sst_data sst = m3" "sst_index sst = index" "sst_id sst = fid" "sst_file_size sst = ?size" by auto
  have "?size \<le> sst_bound env es"
    using body by (simp add: plen sst_bound_def ibs_def table_bloom_size length_layouts)
  then have "table_ok env (fs(sst_id sst \<mapsto> sst_data sst)) sst es"
    using table_ok_new [of env sst es fs] idx 3(3) sst by simp
  then show ?thesis using sst(1,4) by auto
qed

text \<open>The constructors that take a memtable; it counts its entries in a 64-bit word.\<close>

lemma SST_memtable_eq:
  assumes "mt_holds m es" "length es < size_max"
  shows "SST_memtable env m n w = SST_entries env es (int_of_size n) w"
    "SST_memtable_compressed env config m n w = SST_entries_compressed env config es (int_of_size n) w"
  using mt_sizes [OF assms(1)] mt_reads(3) [OF assms(1)] assms(2)
  by (simp_all add: SST_memtable_def SST_memtable_compressed_def SST_entries_def SST_entries_compressed_def
      unsigned_of_nat take_bit_nat_eq_self)

end
