(* ===== verification/Manifest.thy ===== *)
theory Manifest
  imports SST_Correct
begin

text \<open>
  The level structure of \<^verbatim>\<open>src/mokv/lsm/manifest.hpp\<close>: levels of tables, lookup through the levels,
  copy-on-write insertion, the size-tiered compaction with its merge of iterators, and the
  manifest file.  The merge loop pops the least cursor (key first, then the rank given when the
  cursor was queued) like the priority queue of the source.
\<close>

record Level =
  lv_level :: nat
  lv_ssts :: "SST list"

record Manifest =
  mf_version :: nat
  mf_levels :: "Level list"
  mf_max_sst_id :: nat

subsection \<open>Lookup\<close>

fun get_newest :: "SST list \<Rightarrow> string \<Rightarrow> string option option" where
  "get_newest [] key = Some None"
| "get_newest (sst # ssts) key =
     do { r \<leftarrow> sst_Get sst key; (case r of Some v \<Rightarrow> Some (Some v) | None \<Rightarrow> get_newest ssts key) }"

definition level_Get :: "Level \<Rightarrow> string \<Rightarrow> string option option" where
  "level_Get lv key =
     (let ssts = lv_ssts lv in
      if lv_level lv = 0 then get_newest (rev ssts) key
      else if \<not> list_all (\<lambda>sst. sst_key sst \<noteq> None) ssts then None
      else let l = bsearch (\<lambda>mid. \<not> the (sst_key (ssts ! mid)) > key) 0 (length ssts) in
           if 0 < l then sst_Get (ssts ! (l - 1)) key else Some None)"

fun levels_Get :: "Level list \<Rightarrow> string \<Rightarrow> string option option" where
  "levels_Get [] key = Some None"
| "levels_Get (lv # lvs) key =
     do { r \<leftarrow> level_Get lv key; (case r of Some v \<Rightarrow> Some (Some v) | None \<Rightarrow> levels_Get lvs key) }"

definition manifest_Get :: "Manifest \<Rightarrow> string \<Rightarrow> string option option" where
  "manifest_Get mf key = levels_Get (mf_levels mf) key"

subsection \<open>Insertion\<close>

definition level_Insert :: "Level \<Rightarrow> SST \<Rightarrow> Level" where
  "level_Insert lv sst = lv\<lparr>lv_ssts := lv_ssts lv @ [sst]\<rparr>"

definition level_binary_size :: "Level \<Rightarrow> nat" where
  "level_binary_size lv = (\<Sum>sst\<leftarrow>lv_ssts lv. sst_file_size sst)"

definition manifest_copy :: "Manifest \<Rightarrow> Manifest" where
  "manifest_copy mf = mf\<lparr>mf_version := mf_version mf + 1\<rparr>"

definition manifest_Insert :: "Manifest \<Rightarrow> SST \<Rightarrow> Manifest option" where
  "manifest_Insert mf sst =
     (case mf_levels mf of
        [] \<Rightarrow> None
      | lv # lvs \<Rightarrow> Some (mf\<lparr>mf_levels := level_Insert lv sst # lvs\<rparr>))"

text \<open>The updated current manifest (its \<^verbatim>\<open>max_sst_id_\<close>) and the new version.\<close>

definition InsertAndUpdate :: "Manifest \<Rightarrow> SST \<Rightarrow> (Manifest \<times> Manifest) option" where
  "InsertAndUpdate mf sst =
     (let fid = unat (word_of_int (sst_id sst) :: 64 word);
          mf = (if mf_max_sst_id mf < fid then mf\<lparr>mf_max_sst_id := fid\<rparr> else mf)
      in do { res \<leftarrow> manifest_Insert (manifest_copy mf) sst; Some (mf, res) })"

subsection \<open>Merging tables\<close>

record cursor =
  cu_sst :: SST
  cu_it :: iter
  cu_value :: nat

definition cursor_new :: "SST \<Rightarrow> nat \<Rightarrow> cursor" where
  "cursor_new sst n = \<lparr>cu_sst = sst, cu_it = it_begin sst, cu_value = n\<rparr>"

definition cu_head :: "cursor \<Rightarrow> EntryIndex option" where
  "cu_head c = it_deref (cu_sst c) (cu_it c)"

text \<open>\<^verbatim>\<open>operator<\<close> of \<^verbatim>\<open>SizeTieredCompactionStruct\<close>, read as: \<open>a\<close> leaves the queue before \<open>b\<close>.\<close>

definition cursor_before :: "cursor \<Rightarrow> cursor \<Rightarrow> bool option" where
  "cursor_before a b =
     do { x \<leftarrow> cu_head a; y \<leftarrow> cu_head b;
          Some (if ei_key x = ei_key y then cu_value a < cu_value b else ei_key x < ei_key y) }"

fun pop_top :: "cursor list \<Rightarrow> (cursor \<times> cursor list) option" where
  "pop_top [] = None"
| "pop_top [c] = Some (c, [])"
| "pop_top (c # c' # cs) =
     do { (top, rest) \<leftarrow> pop_top (c' # cs);
          before \<leftarrow> cursor_before c top;
          Some (if before then (c, top # rest) else (top, c # rest)) }"

definition add_entry :: "entry list \<Rightarrow> EntryIndex \<Rightarrow> entry list" where
  "add_entry entries e =
     (if entries = [] \<or> fst (last entries) \<noteq> ei_key e then entries @ [(ei_key e, ei_value e)] else entries)"

partial_function (option) merge_loop :: "cursor list \<Rightarrow> entry list \<Rightarrow> entry list option" where
  "merge_loop queue entries =
     (if queue = [] then Some entries
      else do {
        (data, rest) \<leftarrow> pop_top queue;
        e \<leftarrow> cu_head data;
        let entries = add_entry entries e;
        let data = data\<lparr>cu_it := it_next (cu_sst data) (cu_it data)\<rparr>;
        if it_valid (cu_sst data) (cu_it data) then merge_loop (data # rest) entries
        else merge_loop rest entries })"

subsection \<open>Compaction\<close>

definition first_key :: "SST \<Rightarrow> string option" where
  "first_key sst = map_option ei_key (it_deref sst (it_begin sst))"

definition last_key :: "SST \<Rightarrow> string option" where
  "last_key sst = map_option ei_key (it_deref sst (it_rbegin sst))"

text \<open>
  The first loop: the cursors of the level and the key range.  An empty \<^verbatim>\<open>min_key\<close> or \<^verbatim>\<open>max_key\<close>
  stands for a range that has not been set.
\<close>

fun collect_level :: "SST list \<Rightarrow> nat \<Rightarrow> string \<Rightarrow> string \<Rightarrow> (cursor list \<times> string \<times> string) option" where
  "collect_level [] n min_key max_key = Some ([], min_key, max_key)"
| "collect_level (sst # ssts) n min_key max_key =
     do { begin_key \<leftarrow> first_key sst;
          end_key \<leftarrow> last_key sst;
          let min_key = (if min_key = [] \<or> begin_key < min_key then begin_key else min_key);
          let max_key = (if max_key = [] \<or> end_key > max_key then end_key else max_key);
          (cs, lo, hi) \<leftarrow> collect_level ssts (n + 1) min_key max_key;
          Some (cursor_new sst n # cs, lo, hi) }"

text \<open>The second loop: the overlapping tables of the next level and the insert positions.\<close>

fun collect_next ::
    "SST list \<Rightarrow> nat \<Rightarrow> nat \<Rightarrow> string \<Rightarrow> string \<Rightarrow> int \<Rightarrow> nat \<Rightarrow> (cursor list \<times> int \<times> nat) option" where
  "collect_next [] i n min_key max_key insert_l insert_r = Some ([], insert_l, insert_r)"
| "collect_next (sst # ssts) i n min_key max_key insert_l insert_r =
     do { begin_key \<leftarrow> first_key sst;
          end_key \<leftarrow> last_key sst;
          if end_key < min_key then collect_next ssts (i + 1) n min_key max_key (int i) insert_r
          else if begin_key > max_key then Some ([], insert_l, i)
          else do {
            (cs, il, ir) \<leftarrow> collect_next ssts (i + 1) (n + 1) min_key max_key insert_l insert_r;
            Some (cursor_new sst n # cs, il, ir) } }"

text \<open>
  One level.  The new file is written while the entries are still views into the inputs: writing
  a file that a table of the manifest has mapped destroys those views, which is \<open>None\<close>.
\<close>

definition manifest_ids :: "Manifest \<Rightarrow> int set" where
  "manifest_ids mf = (\<Union>lv \<in> set (mf_levels mf). sst_id ` set (lv_ssts lv))"

definition new_table ::
    "'c sst_env \<Rightarrow> CompressionConfig \<Rightarrow> entry list \<Rightarrow> int \<Rightarrow> files \<times> 64 word \<Rightarrow> (SST \<times> files \<times> 64 word) option" where
  "new_table env compression entries fid w =
     (if cc_enable compression then SST_entries_compressed env compression entries fid w
      else SST_entries env entries fid w)"

definition compact_level ::
    "'c sst_env \<Rightarrow> CompressionConfig \<Rightarrow> nat \<Rightarrow> int \<Rightarrow> Manifest \<times> files \<times> 64 word \<Rightarrow>
     (Manifest \<times> files \<times> 64 word) option" where
  "compact_level env compression level fid w =
     (case w of (mf, fsc) \<Rightarrow>
        if \<not> level < length (mf_levels mf) \<or> fid \<in> manifest_ids mf then None
        else do {
          let cur = mf_levels mf ! level;
          (cs, min_key, max_key) \<leftarrow> collect_level (rev (lv_ssts cur)) 0 [] [];
          let levels = (if level + 1 = length (mf_levels mf)
                        then mf_levels mf @ [\<lparr>lv_level = level + 1, lv_ssts = []\<rparr>] else mf_levels mf);
          let next_ssts = lv_ssts (levels ! (level + 1));
          (cs2, insert_l, insert_r) \<leftarrow>
            collect_next next_ssts 0 (length cs) min_key max_key (- 1) (length next_ssts);
          entries \<leftarrow> merge_loop (cs @ cs2) [];
          (sst, fsc) \<leftarrow> new_table env compression entries fid fsc;
          let max_id = (if mf_max_sst_id mf < unat (word_of_int fid :: 64 word)
                        then unat (word_of_int fid :: 64 word) else mf_max_sst_id mf);
          let new_ssts = take (nat (insert_l + 1)) next_ssts @ [sst] @ drop insert_r next_ssts;
          Some (mf\<lparr>mf_max_sst_id := max_id,
                   mf_levels := levels[level := cur\<lparr>lv_ssts := []\<rparr>,
                     level + 1 := (levels ! (level + 1))\<lparr>lv_ssts := new_ssts\<rparr>]\<rparr>, fsc) })"

definition level_max_binary_size :: "nat \<Rightarrow> nat" where
  "level_max_binary_size level =
     [1024, 10 * 1024 * 1024, 100 * 1024 * 1024, 1000 * 1024 * 1024, 10000 * 1024 * 1024] ! level"

abbreviation (input) max_level_size :: nat where "max_level_size \<equiv> 5"

text \<open>The loop over the levels; \<open>n\<close> counts the levels left below \<^verbatim>\<open>max_level_size()\<close>.\<close>

fun compact_from ::
    "'c sst_env \<Rightarrow> CompressionConfig \<Rightarrow> int \<Rightarrow> nat \<Rightarrow> nat \<Rightarrow> Manifest \<times> files \<times> 64 word \<Rightarrow>
     (Manifest \<times> files \<times> 64 word) option" where
  "compact_from env compression fid 0 i w = Some w"
| "compact_from env compression fid (Suc n) i w =
     (if i < length (mf_levels (fst w)) \<and>
         level_max_binary_size i < level_binary_size (mf_levels (fst w) ! i)
      then do { w \<leftarrow> compact_level env compression i fid w; compact_from env compression fid n (i + 1) w }
      else Some w)"

definition SizeTieredCompaction ::
    "'c sst_env \<Rightarrow> CompressionConfig \<Rightarrow> int \<Rightarrow> Manifest \<times> files \<times> 64 word \<Rightarrow>
     (Manifest \<times> files \<times> 64 word) option" where
  "SizeTieredCompaction env compression fid w = compact_from env compression fid max_level_size 0 w"

definition CanDoCompaction :: "Manifest \<Rightarrow> bool option" where
  "CanDoCompaction mf =
     (case mf_levels mf of [] \<Rightarrow> None | lv # _ \<Rightarrow> Some (level_max_binary_size 0 < level_binary_size lv))"

subsection \<open>The manifest file\<close>

abbreviation end_mark :: nat where "end_mark \<equiv> size_max - 1"

definition id_size :: "SST \<Rightarrow> nat" where
  "id_size sst = unat (word_of_int (sst_id sst) :: 64 word)"

definition level_save :: "Level \<Rightarrow> nat list" where
  "level_save lv = map id_size (lv_ssts lv) @ [end_mark]"

text \<open>
  \<^verbatim>\<open>Save\<close> writes a sequence of \<^verbatim>\<open>size_t\<close> words from offset 0 to the end of the resized file.
\<close>

definition manifest_words :: "Manifest \<Rightarrow> nat list" where
  "manifest_words mf = mf_version mf # length (mf_levels mf) # concat (map level_save (mf_levels mf))"

fun write_sizes :: "bytes \<Rightarrow> nat \<Rightarrow> nat list \<Rightarrow> bytes option" where
  "write_sizes mem index [] = Some mem"
| "write_sizes mem index (w # ws) = do { mem \<leftarrow> WriteSize mem index w; write_sizes mem (index + 8) ws }"

definition manifest_binary_size :: "Manifest \<Rightarrow> nat" where
  "manifest_binary_size mf = 2 * 8 + (\<Sum>lv\<leftarrow>mf_levels mf. (length (lv_ssts lv) + 1) * 8)"

definition manifest_Save :: "Manifest \<Rightarrow> bytes option \<Rightarrow> bytes option" where
  "manifest_Save mf file =
     write_sizes (resize_bytes (case file of None \<Rightarrow> [] | Some old \<Rightarrow> old) (manifest_binary_size mf)) 0
       (manifest_words mf)"

text \<open>A table object whose file could not be loaded stays as constructed.\<close>

definition sst_default :: "int \<Rightarrow> SST" where
  "sst_default fid =
     \<lparr>sst_id = fid, sst_data = [], sst_index = \<lparr>ibi_binary_size = 0, ibi_blocks = []\<rparr>, sst_ready = False,
      sst_loaded = False, sst_file_size = 0, sst_config = no_compression, sst_uncompressed_size = 0,
      sst_compressed = False\<rparr>"

definition load_table :: "'c sst_env \<Rightarrow> files \<Rightarrow> nat \<Rightarrow> SST option" where
  "load_table env fs n =
     do { r \<leftarrow> sst_Load env fs (int_of_size n);
          Some (case r of None \<Rightarrow> sst_default (int_of_size n) | Some sst \<Rightarrow> sst) }"

partial_function (option) level_Load ::
    "'c sst_env \<Rightarrow> files \<Rightarrow> bytes \<Rightarrow> nat \<Rightarrow> nat \<Rightarrow> (SST list \<times> nat \<times> nat) option" where
  "level_Load env fs data index max_id =
     do { fid \<leftarrow> ReadSize data index;
          if fid \<noteq> end_mark
          then do {
            sst \<leftarrow> load_table env fs fid;
            (ssts, index', max_id') \<leftarrow>
              level_Load env fs data (index + 8) (if max_id < fid then fid else max_id);
            Some (sst # ssts, index', max_id') }
          else Some ([], index + 8, max_id) }"

fun levels_Load ::
    "'c sst_env \<Rightarrow> files \<Rightarrow> bytes \<Rightarrow> nat \<Rightarrow> nat \<Rightarrow> nat \<Rightarrow> nat \<Rightarrow> (Level list \<times> nat) option" where
  "levels_Load env fs data i 0 index max_id = Some ([], max_id)"
| "levels_Load env fs data i (Suc n) index max_id =
     do { (ssts, index, max_id) \<leftarrow> level_Load env fs data index max_id;
          (lvs, max_id) \<leftarrow> levels_Load env fs data (i + 1) n index max_id;
          Some (\<lparr>lv_level = i, lv_ssts = ssts\<rparr> # lvs, max_id) }"

definition manifest_open :: "'c sst_env \<Rightarrow> files \<Rightarrow> bytes option \<Rightarrow> Manifest option" where
  "manifest_open env fs file =
     (case file of
        None \<Rightarrow> Some \<lparr>mf_version = 1, mf_levels = [\<lparr>lv_level = 0, lv_ssts = []\<rparr>], mf_max_sst_id = 0\<rparr>
      | Some data \<Rightarrow>
          do { version \<leftarrow> ReadSize data 0;
               level_count \<leftarrow> ReadSize data 8;
               (lvs, max_id) \<leftarrow> levels_Load env fs data 0 level_count 16 0;
               Some \<lparr>mf_version = version, mf_levels = lvs, mf_max_sst_id = max_id\<rparr> })"

text \<open>The loops as code equations.\<close>

lemmas manifest_loops [code] =
  merge_loop.simps level_Load.simps

end
