(* ===== verification/Merge.thy ===== *)
theory Merge
  imports Manifest "HOL-Library.Multiset"
begin

text \<open>
  Correctness of the merge of \<^verbatim>\<open>SizeTieredCompaction\<close>: the loop over the priority queue of iterators
  ends, its entries are strictly sorted, and every key has the value of the table that was queued
  first among those that contain it.
\<close>

subsection \<open>Cursors\<close>

definition cu_ok :: "cursor \<Rightarrow> bool" where
  "cu_ok c = (\<exists>es i. sst_holds (cu_sst c) es \<and> i < length es \<and> cu_it c = it_at es i)"

definition cu_rest :: "cursor \<Rightarrow> entry list" where
  "cu_rest c = drop (snd (cu_it c)) (map ei_entry (block_entries (cu_sst c) 0))"

definition cu_next :: "cursor \<Rightarrow> cursor" where
  "cu_next c = c\<lparr>cu_it := it_next (cu_sst c) (cu_it c)\<rparr>"

abbreviation head_key :: "cursor \<Rightarrow> string" where
  "head_key c \<equiv> fst (hd (cu_rest c))"

lemma cu_restD:
  assumes "sst_holds (cu_sst c) es" "i < length es" "cu_it c = it_at es i"
  shows "cu_rest c = drop i es"
  using assms sst_holds_entries(2) [OF assms(1)] by (simp add: cu_rest_def it_at_def)

lemma cu_ok_rest:
  assumes "cu_ok c"
  shows "cu_rest c \<noteq> []" "sorted_keys (cu_rest c)"
    and "\<exists>e. cu_head c = Some e \<and> ei_entry e = hd (cu_rest c)"
proof -
  obtain es i where h: "sst_holds (cu_sst c) es" "i < length es" "cu_it c = it_at es i"
    using assms by (auto simp: cu_ok_def)
  note rest = cu_restD [OF h]
  show "cu_rest c \<noteq> []" using rest h(2) by simp
  have "sorted_keys (take i es @ drop i es)" using sst_holds_entries(4) [OF h(1)] by simp
  then show "sorted_keys (cu_rest c)" unfolding rest by (simp add: sorted_keys_append del: append_take_drop_id)
  show "\<exists>e. cu_head c = Some e \<and> ei_entry e = hd (cu_rest c)"
    using it_deref_holds [OF h(1,2)] h(2,3) rest by (metis cu_head_def hd_drop_conv_nth)
qed

lemma cu_next_ok:
  assumes "cu_ok c"
  shows "it_valid (cu_sst (cu_next c)) (cu_it (cu_next c)) \<longleftrightarrow> tl (cu_rest c) \<noteq> []"
    and "tl (cu_rest c) \<noteq> [] \<Longrightarrow> cu_ok (cu_next c) \<and> cu_rest (cu_next c) = tl (cu_rest c)"
proof -
  obtain es i where h: "sst_holds (cu_sst c) es" "i < length es" "cu_it c = it_at es i"
    using assms by (auto simp: cu_ok_def)
  have tl: "tl (cu_rest c) = drop (Suc i) es" using cu_restD [OF h] by (simp add: drop_Suc tl_drop)
  have n: "cu_sst (cu_next c) = cu_sst c" "cu_it (cu_next c) = it_at es (Suc i)"
    using it_next_holds [OF h(1,2)] h(3) by (simp_all add: cu_next_def)
  show "it_valid (cu_sst (cu_next c)) (cu_it (cu_next c)) \<longleftrightarrow> tl (cu_rest c) \<noteq> []"
    using n tl it_valid_holds [OF h(1)] by (simp add: not_le)
  assume "tl (cu_rest c) \<noteq> []"
  then have "Suc i < length es" using tl by simp
  then show "cu_ok (cu_next c) \<and> cu_rest (cu_next c) = tl (cu_rest c)"
    using n tl h(1) cu_restD [of "cu_next c" es "Suc i"] unfolding cu_ok_def by metis
qed

lemma cu_value_next [simp]: "cu_value (cu_next c) = cu_value c"
  by (simp add: cu_next_def)

lemma cursor_new_ok:
  assumes "sst_holds sst es"
  shows "cu_ok (cursor_new sst n)" "cu_rest (cursor_new sst n) = es" "cu_value (cursor_new sst n) = n"
proof -
  have "0 < length es" using sst_holds_entries(3) [OF assms] by simp
  moreover have "cu_it (cursor_new sst n) = it_at es 0" "cu_sst (cursor_new sst n) = sst"
    using it_begin_holds [OF assms] by (simp_all add: cursor_new_def)
  ultimately show "cu_ok (cursor_new sst n)" "cu_rest (cursor_new sst n) = es"
    using assms cu_restD [of "cursor_new sst n" es 0] by (auto simp: cu_ok_def)
qed (simp add: cursor_new_def)

subsection \<open>The queue\<close>

definition queue_ok :: "cursor list \<Rightarrow> bool" where
  "queue_ok q = ((\<forall>c \<in> set q. cu_ok c) \<and> distinct (map cu_value q))"

definition before :: "cursor \<Rightarrow> cursor \<Rightarrow> bool" where
  "before a b = (head_key a < head_key b \<or> head_key a = head_key b \<and> cu_value a < cu_value b)"

lemma cursor_before_ok: "cu_ok a \<Longrightarrow> cu_ok b \<Longrightarrow> cursor_before a b = Some (before a b)"
  using cu_ok_rest(3) [of a] cu_ok_rest(3) [of b]
  by (auto simp: cursor_before_def before_def ei_entry_def) (metis fst_conv less_irrefl)+

lemma before_total: "cu_value a \<noteq> cu_value b \<Longrightarrow> \<not> before a b \<Longrightarrow> before b a"
  by (auto simp: before_def)

lemma before_trans: "before a b \<Longrightarrow> before b c \<Longrightarrow> before a c"
  by (auto simp: before_def intro: less_trans)

lemma pop_top_ok:
  assumes "q \<noteq> []" "queue_ok q"
  shows "\<exists>tp rest. pop_top q = Some (tp, rest) \<and> mset q = add_mset tp (mset rest) \<and>
    (\<forall>c \<in> set rest. before tp c)"
  using assms
proof (induction q rule: pop_top.induct)
  case (3 c c' cs)
  have "queue_ok (c' # cs)" using 3(3) by (simp add: queue_ok_def)
  then obtain tp rest where t: "pop_top (c' # cs) = Some (tp, rest)"
    "mset (c' # cs) = add_mset tp (mset rest)" "\<forall>c \<in> set rest. before tp c"
    using 3(1) by blast
  then have set: "set (c' # cs) = insert tp (set rest)"
    by (metis set_mset_add_mset_insert set_mset_mset)
  then have tp: "tp \<in> set (c' # cs)" by simp
  have ok: "cu_ok c" "cu_ok tp" "cu_value c \<noteq> cu_value tp"
    using 3(3) tp by (auto simp: queue_ok_def)
  note cb = cursor_before_ok [OF ok(1,2)]
  show ?case
  proof (cases "before c tp")
    case True
    then have "pop_top (c # c' # cs) = Some (c, tp # rest)" using t(1) cb by simp
    moreover have "\<forall>x \<in> set (tp # rest). before c x" using True t(3) before_trans by auto
    ultimately show ?thesis using t(2) by auto
  next
    case False
    then have "pop_top (c # c' # cs) = Some (tp, c # rest)" using t(1) cb by simp
    moreover have "\<forall>x \<in> set (c # rest). before tp x"
      using before_total [OF ok(3) False] t(3) by auto
    ultimately show ?thesis using t(2) by auto
  qed
qed auto

text \<open>The value that the queue holds for a key: that of the cursor with the least rank.\<close>

definition wins :: "cursor list \<Rightarrow> string \<Rightarrow> string \<Rightarrow> bool" where
  "wins q k v =
     (\<exists>c \<in> set q. map_of (cu_rest c) k = Some v \<and>
       (\<forall>c' \<in> set q. cu_value c' < cu_value c \<longrightarrow> map_of (cu_rest c') k = None))"

text \<open>One turn of the loop on the queue: the head of the first cursor is taken.\<close>

definition queue_step :: "cursor \<Rightarrow> cursor list \<Rightarrow> cursor list" where
  "queue_step tp rest = (if tl (cu_rest tp) = [] then rest else cu_next tp # rest)"

definition queue_size :: "cursor list \<Rightarrow> nat" where
  "queue_size q = (\<Sum>c\<leftarrow>q. length (cu_rest c))"

lemma queue_step_ok:
  assumes "queue_ok (tp # rest)"
  shows "queue_ok (queue_step tp rest)" "queue_size (queue_step tp rest) < queue_size (tp # rest)"
proof -
  have tp: "cu_ok tp" using assms by (simp add: queue_ok_def)
  show "queue_ok (queue_step tp rest)"
    using assms cu_next_ok(2) [OF tp] by (simp add: queue_ok_def queue_step_def)
  show "queue_size (queue_step tp rest) < queue_size (tp # rest)"
    using cu_next_ok(2) [OF tp] cu_ok_rest(1) [OF tp] by (simp add: queue_size_def queue_step_def)
qed

lemma queue_step_heads:
  assumes "queue_ok (tp # rest)" "\<forall>c \<in> set rest. before tp c" "c \<in> set (queue_step tp rest)"
  shows "head_key tp \<le> head_key c"
proof (cases "c = cu_next tp \<and> tl (cu_rest tp) \<noteq> []")
  case True
  have tp: "cu_ok tp" using assms(1) by (simp add: queue_ok_def)
  have "sorted_keys (hd (cu_rest tp) # tl (cu_rest tp))" using cu_ok_rest(1,2) [OF tp] by simp
  moreover have "cu_rest c = tl (cu_rest tp)" using True cu_next_ok(2) [OF tp] by simp
  ultimately show ?thesis
    using True by (cases "cu_rest tp"; cases "tl (cu_rest tp)") (auto simp: less_imp_le)
next
  case False
  then have "c \<in> set rest" using assms(3) by (auto simp: queue_step_def split: if_splits)
  then show ?thesis using assms(2) by (auto simp: before_def)
qed

text \<open>For another key, the turn changes nothing.\<close>

lemma wins_step_other:
  assumes "queue_ok (tp # rest)" "k \<noteq> head_key tp"
  shows "wins (queue_step tp rest) k v \<longleftrightarrow> wins (tp # rest) k v"
proof -
  have tp: "cu_ok tp" using assms(1) by (simp add: queue_ok_def)
  obtain k0 v0 es where r: "cu_rest tp = (k0, v0) # es"
    using cu_ok_rest(1) [OF tp] by (cases "cu_rest tp") auto
  then have m: "map_of (cu_rest tp) k = map_of es k" using assms(2) by simp
  show ?thesis
  proof (cases "es = []")
    case True
    then show ?thesis using m r by (auto simp: wins_def queue_step_def)
  next
    case False
    then have "cu_rest (cu_next tp) = es" using cu_next_ok(2) [OF tp] r by (metis list.sel(3))
    then show ?thesis using m r False by (auto simp: wins_def queue_step_def)
  qed
qed

text \<open>The popped cursor has the winning value of its head key.\<close>

lemma wins_top:
  assumes "queue_ok (tp # rest)" "\<forall>c \<in> set rest. before tp c"
  shows "wins (tp # rest) (head_key tp) v \<longleftrightarrow> v = snd (hd (cu_rest tp))"
proof -
  have tp: "cu_ok tp" using assms(1) by (simp add: queue_ok_def)
  have m: "map_of (cu_rest tp) (head_key tp) = Some (snd (hd (cu_rest tp)))"
    using cu_ok_rest(1) [OF tp] by (cases "cu_rest tp") auto
  have later: "cu_value tp < cu_value c" if "c \<in> set rest" "map_of (cu_rest c) (head_key tp) = Some w" for c w
  proof -
    have ok: "cu_ok c" using that(1) assms(1) by (simp add: queue_ok_def)
    have "head_key tp \<in> fst ` set (cu_rest c)" using that(2) by (metis domI dom_map_of_conv_image_fst)
    then have "head_key c \<le> head_key tp" using sorted_keys_hd_le [OF cu_ok_rest(2) [OF ok]] by blast
    then show ?thesis using assms(2) that(1) by (auto simp: before_def)
  qed
  show ?thesis
    using m later unfolding wins_def by (auto simp: not_less_iff_gr_or_eq) (metis less_not_sym option.distinct(1) option.exhaust)+
qed

subsection \<open>The loop\<close>

lemma add_entry_sorted:
  assumes "sorted_keys acc" "\<forall>x \<in> fst ` set acc. x \<le> ei_key e"
  shows "sorted_keys (add_entry acc e)"
    and "fst ` set (add_entry acc e) = insert (ei_key e) (fst ` set acc)"
    and "map_of (add_entry acc e) =
      (if map_of acc (ei_key e) = None then (map_of acc)(ei_key e \<mapsto> ei_value e) else map_of acc)"
proof -
  have iff: "acc = [] \<or> fst (last acc) \<noteq> ei_key e \<longleftrightarrow> ei_key e \<notin> fst ` set acc"
  proof (cases acc rule: rev_cases)
    case (snoc ys y)
    then show ?thesis
      using assms by (cases y) (fastforce simp: sorted_keys_append)
  qed simp
  note iff' = iff [unfolded map_of_eq_None_iff [symmetric]]
  show "sorted_keys (add_entry acc e)"
    using assms iff by (simp add: add_entry_def sorted_keys_append order.strict_iff_order) force
  show "fst ` set (add_entry acc e) = insert (ei_key e) (fst ` set acc)"
    using iff by (auto simp: add_entry_def)
  show "map_of (add_entry acc e) =
      (if map_of acc (ei_key e) = None then (map_of acc)(ei_key e \<mapsto> ei_value e) else map_of acc)"
    using iff' by (auto simp: add_entry_def fun_eq_iff map_add_def split: option.splits)
qed

lemma merge_loop_step:
  assumes "q \<noteq> []" "queue_ok q"
  obtains tp rest e where "pop_top q = Some (tp, rest)" "mset q = mset (tp # rest)"
    "\<forall>c \<in> set rest. before tp c" "queue_ok (tp # rest)" "ei_entry e = hd (cu_rest tp)"
    "\<And>acc. merge_loop q acc = merge_loop (queue_step tp rest) (add_entry acc e)"
proof -
  obtain tp rest where t: "pop_top q = Some (tp, rest)" "mset q = mset (tp # rest)"
    "\<forall>c \<in> set rest. before tp c"
    using pop_top_ok [OF assms] by auto
  have ok: "queue_ok (tp # rest)"
    using assms(2) t(2) unfolding queue_ok_def
    by (metis mset_eq_setD mset_eq_imp_distinct_iff mset_map)
  then have tp: "cu_ok tp" by (simp add: queue_ok_def)
  obtain e where e: "cu_head tp = Some e" "ei_entry e = hd (cu_rest tp)" using cu_ok_rest(3) [OF tp] by blast
  have "merge_loop q acc = merge_loop (queue_step tp rest) (add_entry acc e)" for acc
    using assms(1) t(1) e(1) cu_next_ok(1) [OF tp]
    by (subst merge_loop.simps) (auto simp: Let_def queue_step_def cu_next_def)
  then show thesis using that t ok e(2) by blast
qed

lemma wins_mset: "mset q = mset q' \<Longrightarrow> wins q k v = wins q' k v"
  unfolding wins_def by (metis mset_eq_setD)

lemma queue_size_mset: "mset q = mset q' \<Longrightarrow> queue_size q = queue_size q'"
  unfolding queue_size_def by (metis mset_map sum_mset_sum_list)

lemma merge_loop_ok:
  assumes "queue_ok q" "sorted_keys acc" "\<forall>x \<in> fst ` set acc. \<forall>c \<in> set q. x \<le> head_key c"
  shows "\<exists>out. merge_loop q acc = Some out \<and> sorted_keys out \<and>
    (\<forall>k v. map_of out k = Some v \<longleftrightarrow> map_of acc k = Some v \<or> map_of acc k = None \<and> wins q k v)"
  using assms
proof (induction "queue_size q" arbitrary: q acc rule: less_induct)
  case less
  show ?case
  proof (cases "q = []")
    case True
    then show ?thesis using less.prems(2) by (simp add: merge_loop.simps wins_def)
  next
    case False
    obtain tp rest e where t: "mset q = mset (tp # rest)" "\<forall>c \<in> set rest. before tp c"
      "queue_ok (tp # rest)" "ei_entry e = hd (cu_rest tp)"
      and step: "merge_loop q acc = merge_loop (queue_step tp rest) (add_entry acc e)"
      using merge_loop_step [OF False less.prems(1)] by metis
    have e: "ei_key e = head_key tp" "ei_value e = snd (hd (cu_rest tp))"
      using t(4) by (metis ei_entry_def fst_conv, metis ei_entry_def snd_conv)
    have "tp \<in> set q" using t(1) by (metis list.set_intros(1) mset_eq_setD)
    then have acc: "\<forall>x \<in> fst ` set acc. x \<le> ei_key e" using less.prems(3) e(1) by simp
    note add = add_entry_sorted [OF less.prems(2) acc]
    have heads: "\<forall>c \<in> set (queue_step tp rest). ei_key e \<le> head_key c"
      using queue_step_heads [OF t(3,2)] e(1) by simp
    have bound: "\<forall>x \<in> fst ` set (add_entry acc e). \<forall>c \<in> set (queue_step tp rest). x \<le> head_key c"
      unfolding add(2) using heads acc order_trans by blast
    have smaller: "queue_size (queue_step tp rest) < queue_size q"
      using queue_step_ok(2) [OF t(3)] queue_size_mset [OF t(1)] by simp
    obtain out where out: "merge_loop (queue_step tp rest) (add_entry acc e) = Some out" "sorted_keys out"
      "\<forall>k v. map_of out k = Some v \<longleftrightarrow> map_of (add_entry acc e) k = Some v \<or>
         map_of (add_entry acc e) k = None \<and> wins (queue_step tp rest) k v"
      using less.hyps [OF smaller queue_step_ok(1) [OF t(3)] add(1) bound] by blast
    have "map_of out k = Some v \<longleftrightarrow> map_of acc k = Some v \<or> map_of acc k = None \<and> wins q k v" for k v
    proof (cases "k = head_key tp")
      case True
      then show ?thesis using out(3) add(3) e wins_top [OF t(3,2), of v] wins_mset [OF t(1)] by auto
    next
      case False
      then show ?thesis using out(3) add(3) e wins_step_other [OF t(3) False, of v] wins_mset [OF t(1)] by auto
    qed
    then show ?thesis using step out(1,2) by auto
  qed
qed

subsection \<open>Merging tables in the order of their ranks\<close>

text \<open>Cursors whose ranks follow their positions.\<close>

definition ranked :: "cursor list \<Rightarrow> nat \<Rightarrow> bool" where
  "ranked q n = (map cu_value q = [n..<n + length q])"

lemma ranked_wins:
  assumes "ranked q n"
  shows "wins q k v \<longleftrightarrow> map_of (concat (map cu_rest q)) k = Some v"
  using assms
proof (induction q arbitrary: n)
  case (Cons c q)
  have r: "cu_value c = n" "map cu_value q = [Suc n..<Suc n + length q]"
    using Cons.prems upt_conv_Cons [of n "n + length (c # q)"] by (simp_all add: ranked_def del: upt.simps)
  have gt: "n < cu_value c'" if "c' \<in> set q" for c'
  proof -
    have "cu_value c' \<in> set (map cu_value q)" using that by simp
    then show ?thesis using r(2) by auto
  qed
  have IH: "wins q k v \<longleftrightarrow> map_of (concat (map cu_rest q)) k = Some v"
    using Cons.IH [of "Suc n"] r(2) by (simp add: ranked_def)
  show ?case
  proof (cases "map_of (cu_rest c) k")
    case None
    then have "wins (c # q) k v \<longleftrightarrow> wins q k v" by (auto simp: wins_def)
    then show ?thesis using IH None by (simp add: map_add_def)
  next
    case (Some w)
    then have "wins (c # q) k v \<longleftrightarrow> v = w"
      using gt r(1) by (auto simp: wins_def dest: less_asym)
    then show ?thesis using Some by auto
  qed
qed (simp add: wins_def)

lemma merge_ranked:
  assumes "\<forall>c \<in> set q. cu_ok c" "ranked q n"
  shows "merge_loop q [] = Some (smerge (concat (map cu_rest q)))"
proof -
  have ok: "queue_ok q" using assms by (simp add: queue_ok_def ranked_def)
  obtain out where out: "merge_loop q [] = Some out" "sorted_keys out"
    "\<forall>k v. map_of out k = Some v \<longleftrightarrow> wins q k v"
    using merge_loop_ok [OF ok, of "[]"] by auto
  have "map_of out k = map_of (smerge (concat (map cu_rest q))) k" for k
    using out(3) ranked_wins [OF assms(2)] by (metis map_of_smerge not_Some_eq)
  then have "out = smerge (concat (map cu_rest q))"
    using sorted_keys_unique [OF out(2) sorted_keys_smerge] by blast
  then show ?thesis using out(1) by simp
qed

end
