(* ===== verification/Compaction.thy ===== *)
theory Compaction
  imports Merge
begin

text \<open>
  The manifest as a map.  The entries of the levels form one sequence, newest first, in which the
  first binding of a key is the current one; \<open>manifest_ok\<close> is the invariant (level 0 in order of
  insertion, the tables of every deeper level sorted with disjoint ranges).  Lookup, insertion
  and compaction are shown to respect that sequence.
\<close>

subsection \<open>The invariant\<close>

definition level_ok :: "'c sst_env \<Rightarrow> files \<Rightarrow> nat \<Rightarrow> Level \<Rightarrow> entry list list \<Rightarrow> bool" where
  "level_ok env fs i lv ess =
     (lv_level lv = i \<and> list_all2 (table_ok env fs) (lv_ssts lv) ess \<and> (0 < i \<longrightarrow> sorted_keys (concat ess)))"

definition level_seq :: "nat \<Rightarrow> entry list list \<Rightarrow> entry list" where
  "level_seq i ess = concat (if i = 0 then rev ess else ess)"

fun levels_ok :: "'c sst_env \<Rightarrow> files \<Rightarrow> nat \<Rightarrow> Level list \<Rightarrow> entry list list list \<Rightarrow> bool" where
  "levels_ok env fs i [] [] = True"
| "levels_ok env fs i (lv # lvs) (ess # esss) = (level_ok env fs i lv ess \<and> levels_ok env fs (Suc i) lvs esss)"
| "levels_ok env fs i _ _ = False"

fun levels_seq :: "nat \<Rightarrow> entry list list list \<Rightarrow> entry list" where
  "levels_seq i [] = []"
| "levels_seq i (ess # esss) = level_seq i ess @ levels_seq (Suc i) esss"

definition manifest_ok :: "'c sst_env \<Rightarrow> files \<Rightarrow> Manifest \<Rightarrow> entry list list list \<Rightarrow> bool" where
  "manifest_ok env fs mf esss = (esss \<noteq> [] \<and> levels_ok env fs 0 (mf_levels mf) esss)"

lemma levels_ok_length: "levels_ok env fs i lvs esss \<Longrightarrow> length lvs = length esss"
  by (induction env fs i lvs esss rule: levels_ok.induct) auto

lemma levels_ok_append:
  "length lvs = length xs \<Longrightarrow> levels_ok env fs i (lvs @ lvs') (xs @ ys) \<longleftrightarrow>
     levels_ok env fs i lvs xs \<and> levels_ok env fs (i + length lvs) lvs' ys"
  by (induction lvs xs arbitrary: i rule: list_induct2) auto

lemma levels_seq_append: "levels_seq i (xs @ ys) = levels_seq i xs @ levels_seq (i + length xs) ys"
  by (induction xs arbitrary: i) auto

lemma tables_hold: "list_all2 (table_ok env fs) ssts ess \<Longrightarrow> list_all2 sst_holds ssts ess"
  by (auto simp: list_all2_conv_all_nth table_ok_def)

subsection \<open>Lookup\<close>

lemma get_newest_holds:
  "list_all2 sst_holds ssts ess \<Longrightarrow> get_newest ssts k = Some (map_of (concat ess) k)"
  by (induction ssts ess rule: list_all2_induct) (auto simp: sst_Get_holds map_add_def split: option.splits)

lemma key_in_concat:
  "x \<in> fst ` set (concat ess) \<longleftrightarrow> (\<exists>i < length ess. x \<in> fst ` set (ess ! i))"
proof -
  have "x \<in> fst ` set (concat ess) \<longleftrightarrow> (\<exists>es \<in> set ess. x \<in> fst ` set es)" by auto
  then show ?thesis by (metis in_set_conv_nth)
qed

lemma sorted_concat_nth:
  assumes "sorted_keys (concat ess)" "i < j" "j < length ess"
    and "x \<in> fst ` set (ess ! i)" "y \<in> fst ` set (ess ! j)"
  shows "x < y"
proof -
  have "concat ess = concat (take j ess) @ concat (drop j ess)"
    by (metis append_take_drop_id concat_append)
  then have "\<forall>x \<in> fst ` set (concat (take j ess)). \<forall>y \<in> fst ` set (concat (drop j ess)). x < y"
    using assms(1) by (simp add: sorted_keys_append)
  moreover have "x \<in> fst ` set (concat (take j ess))"
    unfolding key_in_concat using assms(2-4) by (intro exI [of _ i]) simp
  moreover have "y \<in> fst ` set (concat (drop j ess))"
    unfolding key_in_concat using assms(3,5) by (intro exI [of _ 0]) simp
  ultimately show ?thesis by blast
qed

lemma sorted_concat_each: "sorted_keys (concat ess) \<Longrightarrow> es \<in> set ess \<Longrightarrow> sorted_keys es"
  by (induction ess) (auto simp: sorted_keys_append)

lemma segment_first_keys:
  assumes "sorted_keys (concat ess)" "\<forall>es \<in> set ess. es \<noteq> []"
  shows "segment (\<lambda>i. \<not> fst (hd (ess ! i)) > k) (length ess)"
  unfolding segment_def
proof (intro allI impI)
  fix i j assume ij: "i \<le> j" "j < length ess" "\<not> fst (hd (ess ! j)) > k"
  show "\<not> fst (hd (ess ! i)) > k"
  proof (cases "i = j")
    case False
    then have "fst (hd (ess ! i)) < fst (hd (ess ! j))"
      using sorted_concat_nth [OF assms(1), of i j] ij assms(2) by (simp add: hd_in_set)
    then show ?thesis using ij(3) by auto
  qed (use ij in simp)
qed

text \<open>The binary search over the first keys finds the only table that can hold a key.\<close>

lemma search_sorted_level:
  fixes k :: string and ess :: "entry list list"
  assumes sorted: "sorted_keys (concat ess)" and ne: "\<forall>es \<in> set ess. es \<noteq> []"
  defines "l \<equiv> bsearch (\<lambda>i. \<not> fst (hd (ess ! i)) > k) 0 (length ess)"
  shows "map_of (concat ess) k = (if 0 < l then map_of (ess ! (l - 1)) k else None)"
proof -
  have notin: "k \<notin> fst ` set (ess ! i)" if "i < length ess" "i \<noteq> l - 1 \<or> l = 0" for i
  proof
    assume k: "k \<in> fst ` set (ess ! i)"
    show False
    proof (cases "l \<le> i")
      case True
      then have "k < fst (hd (ess ! i))"
        using bsearch_above [OF segment_first_keys [OF sorted ne], of k i] that(1) unfolding l_def by auto
      moreover have "fst (hd (ess ! i)) \<le> k"
        using sorted_keys_hd_le [OF sorted_concat_each [OF sorted] k] that(1) by simp
      ultimately show False by simp
    next
      case False
      then have i: "i < l - 1" "l - 1 < length ess"
        using that bsearch_le [of "\<lambda>i. \<not> fst (hd (ess ! i)) > k" "length ess"] unfolding l_def by auto
      then have "k < fst (hd (ess ! (l - 1)))"
        using sorted_concat_nth [OF sorted i k] ne by simp
      moreover have "\<not> fst (hd (ess ! (l - 1))) > k"
        using bsearch_below [OF segment_first_keys [OF sorted ne], of "l - 1" k] False unfolding l_def by auto
      ultimately show False by simp
    qed
  qed
  show ?thesis
  proof (cases "0 < l")
    case True
    have "l - 1 < length ess"
      using True bsearch_le [of "\<lambda>i. \<not> fst (hd (ess ! i)) > k" "length ess"] unfolding l_def by auto
    then have split: "concat ess = concat (take (l - 1) ess) @ ess ! (l - 1) @ concat (drop l ess)"
      using True by (metis Suc_pred' append_take_drop_id concat.simps(2) concat_append Cons_nth_drop_Suc)
    have "map_of (concat (take (l - 1) ess)) k = None"
      unfolding map_of_eq_None_iff key_in_concat using notin by auto
    moreover have "map_of (concat (drop l ess)) k = None"
    proof -
      have "k \<notin> fst ` set (ess ! (l + i))" if "i < length ess - l" for i
        using notin [of "l + i"] that True by auto
      then show ?thesis unfolding map_of_eq_None_iff key_in_concat by simp
    qed
    ultimately show ?thesis using True split by (simp add: map_add_def split: option.splits)
  next
    case False
    then have "k \<notin> fst ` set (concat ess)" unfolding key_in_concat using notin by auto
    then show ?thesis using False by (metis map_of_eq_None_iff)
  qed
qed

lemma level_Get_ok:
  assumes "level_ok env fs i lv ess"
  shows "level_Get lv k = Some (map_of (level_seq i ess) k)"
proof -
  let ?ssts = "lv_ssts lv"
  have h: "list_all2 sst_holds ?ssts ess" using assms tables_hold by (auto simp: level_ok_def)
  show ?thesis
  proof (cases "i = 0")
    case True
    then have "lv_level lv = 0" using assms by (simp add: level_ok_def)
    then show ?thesis
      using get_newest_holds [of "rev ?ssts" "rev ess"] h True by (simp add: level_Get_def level_seq_def)
  next
    case False
    then have lv: "lv_level lv \<noteq> 0" and sorted: "sorted_keys (concat ess)"
      using assms by (auto simp: level_ok_def)
    have keys: "sst_key (?ssts ! j) = Some (fst (hd (ess ! j)))" "ess ! j \<noteq> []" if "j < length ess" for j
      using h that sst_key_holds sst_holds_entries(3) by (auto simp: list_all2_conv_all_nth)
    have len: "length ?ssts = length ess" using h by (rule list_all2_lengthD)
    have defined: "list_all (\<lambda>sst. sst_key sst \<noteq> None) ?ssts"
      using keys(1) len by (simp add: list_all_length)
    have search: "bsearch (\<lambda>j. \<not> the (sst_key (?ssts ! j)) > k) 0 (length ?ssts) =
        bsearch (\<lambda>j. \<not> fst (hd (ess ! j)) > k) 0 (length ess)"
      unfolding len by (rule bsearch_cong) (simp add: keys(1))
    let ?l = "bsearch (\<lambda>j. \<not> fst (hd (ess ! j)) > k) 0 (length ess)"
    have "?l \<le> length ess" by (rule bsearch_le)
    then have "0 < ?l \<Longrightarrow> sst_Get (?ssts ! (?l - 1)) k = Some (map_of (ess ! (?l - 1)) k)"
      using h by (auto simp: list_all2_conv_all_nth sst_Get_holds)
    moreover have "\<forall>es \<in> set ess. es \<noteq> []" using keys(2) by (auto simp: in_set_conv_nth)
    ultimately show ?thesis
      using search_sorted_level [OF sorted, of k] lv defined search False
      by (simp add: level_Get_def level_seq_def Let_def)
  qed
qed

lemma levels_Get_ok: "levels_ok env fs i lvs esss \<Longrightarrow> levels_Get lvs k = Some (map_of (levels_seq i esss) k)"
  by (induction env fs i lvs esss rule: levels_ok.induct)
    (auto simp: level_Get_ok map_add_def split: option.splits)

lemma manifest_Get_ok:
  "manifest_ok env fs mf esss \<Longrightarrow> manifest_Get mf k = Some (map_of (levels_seq 0 esss) k)"
  unfolding manifest_ok_def manifest_Get_def using levels_Get_ok by blast

subsection \<open>Insertion\<close>

lemma manifest_Insert_ok:
  assumes "manifest_ok env fs mf (ess # esss)" "table_ok env fs sst es"
  shows "\<exists>mf'. manifest_Insert mf sst = Some mf' \<and> manifest_ok env fs mf' ((ess @ [es]) # esss) \<and>
    mf_max_sst_id mf' = mf_max_sst_id mf"
proof -
  obtain lv lvs where "mf_levels mf = lv # lvs" "level_ok env fs 0 lv ess" "levels_ok env fs 1 lvs esss"
    using assms(1) unfolding manifest_ok_def by (cases "mf_levels mf") auto
  then show ?thesis
    using assms(2)
    by (simp add: manifest_Insert_def manifest_ok_def level_Insert_def level_ok_def list_all2_appendI)
qed

lemma levels_seq_Insert: "levels_seq 0 ((ess @ [es]) # esss) = es @ levels_seq 0 (ess # esss)"
  by (simp add: level_seq_def)

subsection \<open>Collecting the inputs of a compaction\<close>

lemma first_last_key:
  assumes "sst_holds sst es"
  shows "first_key sst = Some (fst (hd es))" "last_key sst = Some (fst (last es))"
proof -
  have ne: "es \<noteq> []" using sst_holds_entries(3) [OF assms] .
  have ei: "ei_key e = fst (ei_entry e)" for e by (simp add: ei_entry_def)
  obtain e where "it_deref sst (it_at es 0) = Some e" "ei_entry e = es ! 0"
    using it_deref_holds [OF assms, of 0] ne by auto
  then show "first_key sst = Some (fst (hd es))"
    using it_begin_holds [OF assms] ne by (simp add: first_key_def ei hd_conv_nth)
  obtain e where "it_deref sst (it_at es (length es - 1)) = Some e" "ei_entry e = es ! (length es - 1)"
    using it_deref_holds [OF assms, of "length es - 1"] ne by auto
  then show "last_key sst = Some (fst (last es))"
    using it_rbegin_holds [OF assms] ne by (simp add: last_key_def ei last_conv_nth)
qed

lemma sst_holds_range:
  assumes "sst_holds sst es" "x \<in> fst ` set es"
  shows "fst (hd es) \<le> x" "x \<le> fst (last es)"
  using sorted_keys_hd_le sorted_keys_le_last sst_holds_entries(4) [OF assms(1)] assms(2) by blast+

lemma ranked_Cons: "ranked (c # q) n \<longleftrightarrow> cu_value c = n \<and> ranked q (Suc n)"
  using upt_conv_Cons [of n "n + length (c # q)"] by (auto simp: ranked_def simp del: upt.simps)

lemma ranked_append: "ranked p n \<Longrightarrow> ranked q (n + length p) \<Longrightarrow> ranked (p @ q) n"
  by (induction p arbitrary: n) (auto simp: ranked_Cons)

text \<open>Cursors that stand at the start of tables with the given entries, ranked from \<open>n\<close> on.\<close>

definition starts :: "cursor list \<Rightarrow> nat \<Rightarrow> entry list list \<Rightarrow> bool" where
  "starts cs n ess = (ranked cs n \<and> (\<forall>c \<in> set cs. cu_ok c) \<and> map cu_rest cs = ess)"

lemma starts_Nil: "starts [] n []"
  by (simp add: starts_def ranked_def)

lemma starts_Cons: "sst_holds sst es \<Longrightarrow> starts cs (Suc n) ess \<Longrightarrow> starts (cursor_new sst n # cs) n (es # ess)"
  by (auto simp: starts_def ranked_Cons cursor_new_ok)

lemma starts_append: "starts cs n ess \<Longrightarrow> starts cs' (n + length cs) ess' \<Longrightarrow> starts (cs @ cs') n (ess @ ess')"
  by (auto simp: starts_def ranked_append)

lemma merge_starts: "starts cs n ess \<Longrightarrow> merge_loop cs [] = Some (smerge (concat ess))"
  unfolding starts_def using merge_ranked by blast

lemma starts_length: "starts cs n ess \<Longrightarrow> length cs = length ess"
  by (auto simp: starts_def)

lemma min_update:
  fixes h m e :: "'a::linorder"
  assumes "h \<noteq> e"
  shows "(if m = e \<or> h < m then h else m) \<noteq> e \<and> (if m = e \<or> h < m then h else m) \<le> h \<and>
    (m \<noteq> e \<longrightarrow> (if m = e \<or> h < m then h else m) \<le> m)"
  using assms by auto

lemma max_update:
  fixes h m e :: "'a::linorder"
  assumes "h \<noteq> e"
  shows "(if m = e \<or> m < h then h else m) \<noteq> e \<and> h \<le> (if m = e \<or> m < h then h else m) \<and>
    (m \<noteq> e \<longrightarrow> m \<le> (if m = e \<or> m < h then h else m))"
  using assms by auto

text \<open>The key range is right as long as no key is empty.\<close>

lemma collect_level_ok:
  assumes "list_all2 sst_holds ssts ess" "[] \<notin> fst ` set (concat ess)"
  shows "\<exists>cs lo hi. collect_level ssts n mn mx = Some (cs, lo, hi) \<and> starts cs n ess \<and>
    (mn \<noteq> [] \<longrightarrow> lo \<le> mn) \<and> (mx \<noteq> [] \<longrightarrow> mx \<le> hi) \<and> (\<forall>x \<in> fst ` set (concat ess). lo \<le> x \<and> x \<le> hi)"
  using assms
proof (induction ssts ess arbitrary: n mn mx rule: list_all2_induct)
  case (Cons sst ssts es ess)
  note fl = first_last_key [OF Cons.hyps(1)] and rng = sst_holds_range [OF Cons.hyps(1)]
  have ne: "es \<noteq> []" using sst_holds_entries(3) [OF Cons.hyps(1)] .
  then have ks: "fst (hd es) \<in> fst ` set es" "fst (last es) \<in> fst ` set es" by simp_all
  then have nz: "fst (hd es) \<noteq> []" "fst (last es) \<noteq> []" using Cons.prems by (simp_all add: image_Un) metis+
  let ?mn = "if mn = [] \<or> fst (hd es) < mn then fst (hd es) else mn"
  let ?mx = "if mx = [] \<or> fst (last es) > mx then fst (last es) else mx"
  have upd: "?mn \<noteq> []" "?mx \<noteq> []" "?mn \<le> fst (hd es)" "fst (last es) \<le> ?mx"
    "mn \<noteq> [] \<longrightarrow> ?mn \<le> mn" "mx \<noteq> [] \<longrightarrow> mx \<le> ?mx"
    using min_update [OF nz(1)] max_update [OF nz(2)] by blast+
  obtain cs lo hi where IH: "collect_level ssts (n + 1) ?mn ?mx = Some (cs, lo, hi)" "starts cs (n + 1) ess"
    "lo \<le> ?mn" "?mx \<le> hi" "\<forall>x \<in> fst ` set (concat ess). lo \<le> x \<and> x \<le> hi"
    using Cons.IH [of "n + 1" ?mn ?mx] Cons.prems upd(1,2) by (auto simp: image_Un)
  have "collect_level (sst # ssts) n mn mx = Some (cursor_new sst n # cs, lo, hi)"
    using fl IH(1) by (simp add: Let_def)
  moreover have "starts (cursor_new sst n # cs) n (es # ess)"
    using starts_Cons [OF Cons.hyps(1)] IH(2) by simp
  moreover have "lo \<le> x \<and> x \<le> hi" if "x \<in> fst ` set es" for x
    using rng [OF that] IH(3,4) upd(3,4) by (meson order_trans)
  then have "\<forall>x \<in> fst ` set (concat (es # ess)). lo \<le> x \<and> x \<le> hi"
    using IH(5) by (simp only: concat.simps set_append image_Un ball_Un) blast
  moreover have "mn \<noteq> [] \<longrightarrow> lo \<le> mn" using IH(3) upd(5) order_trans by blast
  moreover have "mx \<noteq> [] \<longrightarrow> mx \<le> hi" using IH(4) upd(6) order_trans by blast
  ultimately show ?case by blast
qed (auto intro: starts_Nil)

text \<open>
  On a sorted level, the tables left of the range, those that overlap it and those right of it
  are consecutive, and the insert positions are their borders.
\<close>

definition outside :: "string \<Rightarrow> string \<Rightarrow> nat \<Rightarrow> nat \<Rightarrow> entry list list \<Rightarrow> bool" where
  "outside lo hi a b ess =
     ((\<forall>x \<in> fst ` set (concat (take a ess)). x < lo) \<and> (\<forall>x \<in> fst ` set (concat (drop b ess)). hi < x))"

text \<open>How the range that is kept changes with one more table in front.\<close>

lemma outside_left: "outside lo hi a b ess \<Longrightarrow> \<forall>x \<in> fst ` set es. x < lo \<Longrightarrow> outside lo hi (Suc a) (Suc b) (es # ess)"
  unfolding outside_def by (simp only: take_Suc_Cons drop_Suc_Cons concat.simps set_append image_Un ball_Un) blast

lemma outside_right: "\<forall>x \<in> fst ` set (concat ess). hi < x \<Longrightarrow> outside lo hi 0 0 ess"
  unfolding outside_def by (simp only: drop_0 take_0 concat.simps) simp

lemma outside_overlap:
  assumes "outside lo hi a b ess" "a \<le> length ess" "\<forall>es \<in> set ess. es \<noteq> []" "\<forall>y \<in> fst ` set (concat ess). lo < y"
  shows "a = 0"
proof (rule ccontr)
  assume a: "a \<noteq> 0"
  then obtain e ess' where e: "ess = e # ess'" using assms(2) by (cases ess) auto
  then have "e \<noteq> []" using assms(3) by simp
  then have "fst (hd e) \<in> fst ` set (concat (take a ess))" "fst (hd e) \<in> fst ` set (concat ess)"
    using e a by (simp_all add: take_Cons' image_Un)
  then have "fst (hd e) < lo" "lo < fst (hd e)" using assms(1,4) unfolding outside_def by blast+
  then show False by simp
qed

lemma collect_next_ok:
  assumes "list_all2 sst_holds ssts ess" "sorted_keys (concat ess)" "ir = i + length ssts"
  shows "\<exists>cs a b il. collect_next ssts i n lo hi l0 ir = Some (cs, il, i + b) \<and> a \<le> b \<and> b \<le> length ess \<and>
    il = (if a = 0 then l0 else int (i + a) - 1) \<and> starts cs n (take (b - a) (drop a ess)) \<and>
    outside lo hi a b ess"
  using assms
proof (induction ssts ess arbitrary: i n l0 rule: list_all2_induct)
  case Nil
  then show ?case by (auto simp: starts_Nil outside_def)
next
  case (Cons sst ssts es ess)
  note fl = first_last_key [OF Cons.hyps(1)] and rng = sst_holds_range [OF Cons.hyps(1)]
  have ne: "es \<noteq> []" using sst_holds_entries(3) [OF Cons.hyps(1)] .
  have sorted: "sorted_keys (concat ess)" "\<forall>x \<in> fst ` set es. \<forall>y \<in> fst ` set (concat ess). x < y"
    using Cons.prems(1) by (simp_all add: sorted_keys_append)
  have ir: "ir = (i + 1) + length ssts" using Cons.prems(2) by simp
  consider (left) "fst (last es) < lo" | (right) "\<not> fst (last es) < lo" "fst (hd es) > hi"
    | (mid) "\<not> fst (last es) < lo" "\<not> fst (hd es) > hi" by blast
  then show ?case
  proof cases
    case left
    obtain cs a b il where IH: "collect_next ssts (i + 1) n lo hi (int i) ir = Some (cs, il, i + 1 + b)"
      "a \<le> b" "b \<le> length ess" "il = (if a = 0 then int i else int (i + 1 + a) - 1)"
      "starts cs n (take (b - a) (drop a ess))" "outside lo hi a b ess"
      using Cons.IH [OF sorted(1) ir] by blast
    have "\<forall>x \<in> fst ` set es. x < lo" using left rng(2) le_less_trans by blast
    then have "outside lo hi (Suc a) (Suc b) (es # ess)" by (rule outside_left [OF IH(6)])
    moreover have "collect_next (sst # ssts) i n lo hi l0 ir = Some (cs, il, i + Suc b)"
      using IH(1) fl left by simp
    moreover have "il = (if Suc a = 0 then l0 else int (i + Suc a) - 1)" using IH(4) by simp
    ultimately show ?thesis
      using IH(2,3,5)
      by (intro exI [of _ cs] exI [of _ "Suc a"] exI [of _ "Suc b"] exI [of _ il]) simp
  next
    case right
    have "\<forall>x \<in> fst ` set es. hi < x" using right(2) rng(1) less_le_trans by blast
    moreover have "\<forall>y \<in> fst ` set (concat ess). hi < y"
      using sorted(2) right(2) imageI [OF hd_in_set [OF ne], of fst] less_trans by blast
    ultimately have "outside lo hi 0 0 (es # ess)" by (intro outside_right) auto
    moreover have "collect_next (sst # ssts) i n lo hi l0 ir = Some ([], l0, i + 0)"
      using fl right by simp
    ultimately show ?thesis
      by (intro exI [of _ "[]"] exI [of _ 0] exI [of _ 0] exI [of _ l0]) (simp add: starts_Nil)
  next
    case mid
    obtain cs a b il where IH: "collect_next ssts (i + 1) (n + 1) lo hi l0 ir = Some (cs, il, i + 1 + b)"
      "a \<le> b" "b \<le> length ess" "il = (if a = 0 then l0 else int (i + 1 + a) - 1)"
      "starts cs (n + 1) (take (b - a) (drop a ess))" "outside lo hi a b ess"
      using Cons.IH [OF sorted(1) ir] by blast
    have "\<forall>y \<in> fst ` set (concat ess). lo < y"
      using sorted(2) mid(1) imageI [OF last_in_set [OF ne], of fst] le_less_trans by (meson not_less)
    moreover have "\<forall>es \<in> set ess. es \<noteq> []" using Cons.hyps(2) by (induction rule: list_all2_induct) (auto dest: sst_holds_entries(3))
    ultimately have "a = 0" using outside_overlap [OF IH(6)] IH(2,3) by simp
    moreover have "outside lo hi 0 (Suc b) (es # ess)"
      using IH(6) \<open>a = 0\<close> by (simp add: outside_def)
    moreover have "collect_next (sst # ssts) i n lo hi l0 ir = Some (cursor_new sst n # cs, il, i + Suc b)"
      using IH(1) fl mid by simp
    ultimately show ?thesis
      using IH(3-5) starts_Cons [OF Cons.hyps(1), of cs n]
      by (intro exI [of _ "cursor_new sst n # cs"] exI [of _ 0] exI [of _ "Suc b"] exI [of _ l0]) simp
  qed
qed

lemma collect_next_start:
  assumes "list_all2 sst_holds ssts ess" "sorted_keys (concat ess)"
  obtains cs a b where "collect_next ssts 0 n lo hi (- 1) (length ssts) = Some (cs, int a - 1, b)"
    "a \<le> b" "b \<le> length ess" "starts cs n (take (b - a) (drop a ess))" "outside lo hi a b ess"
proof -
  have len: "length ssts = 0 + length ssts" by simp
  show thesis
    using collect_next_ok [OF assms len, of n lo hi "- 1"]
  proof (elim exE conjE)
    fix cs a b il
    assume c: "collect_next ssts 0 n lo hi (- 1) (length ssts) = Some (cs, il, 0 + b)"
      "a \<le> b" "b \<le> length ess" "il = (if a = 0 then - 1 else int (0 + a) - 1)"
      "starts cs n (take (b - a) (drop a ess))" "outside lo hi a b ess"
    have "il = int a - 1" using c(4) by simp
    then show thesis using that [OF _ c(2,3,5,6)] c(1) by simp
  qed
qed

subsection \<open>The effect of a compaction on the sequence of entries\<close>

lemma map_of_concat_rev:
  "sorted_keys (concat ess) \<Longrightarrow> map_of (concat (rev ess)) = map_of (concat ess)"
proof (induction ess)
  case (Cons es ess)
  have "fst ` set es \<inter> fst ` set (concat ess) = {}"
    using Cons.prems unfolding concat.simps sorted_keys_append using less_irrefl by blast
  then have "map_of (concat ess) ++ map_of es = map_of es ++ map_of (concat ess)"
    by (intro map_add_comm) (simp add: dom_map_of_conv_image_fst Int_commute)
  then show ?case using Cons by (simp add: sorted_keys_append)
qed simp

lemma map_of_level_seq:
  "level_ok env fs i lv ess \<Longrightarrow> map_of (level_seq i ess) = map_of (concat (rev ess))"
  using map_of_concat_rev [of ess] by (auto simp: level_ok_def level_seq_def)

lemma merged_level:
  assumes sorted: "sorted_keys (concat L @ concat M @ concat R)"
    and cur: "\<forall>x \<in> fst ` set A. lo \<le> x \<and> x \<le> hi"
    and L: "\<forall>x \<in> fst ` set (concat L). x < lo" and R: "\<forall>x \<in> fst ` set (concat R). hi < x"
  shows "sorted_keys (concat (L @ [smerge (A @ concat M)] @ R))"
    and "map_of (concat (L @ [smerge (A @ concat M)] @ R)) = map_of (A @ concat (L @ M @ R))"
    and "A \<noteq> [] \<Longrightarrow> smerge (A @ concat M) \<noteq> []"
proof -
  have LM: "\<forall>x \<in> fst ` set (concat L). \<forall>y \<in> fst ` set (concat M). x < y"
    and LR: "\<forall>x \<in> fst ` set (concat L). \<forall>y \<in> fst ` set (concat R). x < y"
    and MR: "\<forall>x \<in> fst ` set (concat M). \<forall>y \<in> fst ` set (concat R). x < y"
    and S: "sorted_keys (concat L)" "sorted_keys (concat R)"
    using sorted unfolding sorted_keys_append set_append image_Un by blast+
  have LA: "\<forall>x \<in> fst ` set (concat L). \<forall>y \<in> fst ` set A. x < y"
  proof (intro ballI)
    fix x y assume "x \<in> fst ` set (concat L)" "y \<in> fst ` set A"
    then have "x < lo" "lo \<le> y" using cur L by blast+
    then show "x < y" by (rule less_le_trans)
  qed
  have AR: "\<forall>x \<in> fst ` set A. \<forall>y \<in> fst ` set (concat R). x < y"
  proof (intro ballI)
    fix x y assume "x \<in> fst ` set A" "y \<in> fst ` set (concat R)"
    then have "x \<le> hi" "hi < y" using cur R by blast+
    then show "x < y" by (rule le_less_trans)
  qed
  have split: "concat (L @ [smerge (A @ concat M)] @ R) = concat L @ smerge (A @ concat M) @ concat R" by simp
  show "sorted_keys (concat (L @ [smerge (A @ concat M)] @ R))"
    unfolding split sorted_keys_append set_append image_Un keys_smerge ball_Un ball_conj_distrib
    using S LM LR MR LA AR sorted_keys_smerge by (intro conjI)
  have "fst ` set (concat L) \<inter> fst ` set A = {}" using LA less_irrefl by blast
  then have "map_of A ++ map_of (concat L) = map_of (concat L) ++ map_of A"
    by (intro map_add_comm) (simp add: dom_map_of_conv_image_fst Int_commute)
  then show "map_of (concat (L @ [smerge (A @ concat M)] @ R)) = map_of (A @ concat (L @ M @ R))"
    unfolding split by (simp add: map_of_append) (metis map_add_assoc)
  show "A \<noteq> [] \<Longrightarrow> smerge (A @ concat M) \<noteq> []"
    using keys_smerge [of "A @ concat M"] by force
qed

text \<open>A set of entries such that every sorted part of it makes a file within the offset limit.\<close>

definition fits :: "'c sst_env \<Rightarrow> entry set \<Rightarrow> bool" where
  "fits env E = (\<forall>xs. xs \<noteq> [] \<longrightarrow> sorted_keys xs \<longrightarrow> set xs \<subseteq> E \<longrightarrow> sst_bound env xs < max_file)"

lemma new_table_ok:
  assumes "es \<noteq> []" "sorted_keys es" "sst_bound env es < max_file" "codec_ok env config"
  shows "\<exists>sst c'. new_table env config es fid (fs, c) = Some (sst, fs(fid \<mapsto> sst_data sst), c') \<and>
    sst_id sst = fid \<and> table_ok env (fs(fid \<mapsto> sst_data sst)) sst es"
  using SST_entries_ok [OF assms(1-3)] SST_entries_compressed_ok [OF assms] by (simp add: new_table_def)

definition level_ids :: "Level \<Rightarrow> int set" where
  "level_ids lv = sst_id ` set (lv_ssts lv)"

lemma level_ok_other:
  "level_ok env fs i lv ess \<Longrightarrow> fid \<notin> level_ids lv \<Longrightarrow> level_ok env (fs(fid \<mapsto> mem)) i lv ess"
  unfolding level_ok_def level_ids_def
  by (auto elim!: list_all2_mono [rotated] simp: list_all2_conv_all_nth intro!: table_ok_other)

lemma levels_ok_other:
  "levels_ok env fs i lvs esss \<Longrightarrow> fid \<notin> (\<Union>lv \<in> set lvs. level_ids lv) \<Longrightarrow>
     levels_ok env (fs(fid \<mapsto> mem)) i lvs esss"
  by (induction env fs i lvs esss rule: levels_ok.induct) (auto intro: level_ok_other)

subsection \<open>One level\<close>

text \<open>The level list with the next level present.\<close>

definition with_next :: "nat \<Rightarrow> Level list \<Rightarrow> Level list" where
  "with_next l lvs = (if l + 1 = length lvs then lvs @ [\<lparr>lv_level = l + 1, lv_ssts = []\<rparr>] else lvs)"

lemma split_at:
  assumes "l + 1 < length xs"
  obtains pre x y post where "xs = pre @ x # y # post" "length pre = l" "xs ! l = x" "xs ! (l + 1) = y"
proof -
  have "xs = take l xs @ xs ! l # xs ! (l + 1) # drop (l + 2) xs"
    using assms by (metis Cons_nth_drop_Suc Suc_eq_plus1 add_2_eq_Suc' add_lessD1 append_take_drop_id)
  then show thesis using that [of "take l xs"] assms by simp
qed

lemma with_next_ok:
  assumes "levels_ok env fs 0 lvs esss" "l < length esss"
  obtains esss1 where "levels_ok env fs 0 (with_next l lvs) esss1" "levels_seq 0 esss1 = levels_seq 0 esss"
    "set (concat (concat esss1)) = set (concat (concat esss))" "l + 1 < length esss1" "esss1 ! l = esss ! l"
    "length esss1 = max (length esss) (l + 2)"
proof (cases "l + 1 = length lvs")
  case True
  have len: "length lvs = length esss" using levels_ok_length [OF assms(1)] .
  then have "levels_ok env fs 0 (with_next l lvs) (esss @ [[]])"
    using assms True by (simp add: with_next_def levels_ok_append level_ok_def)
  then show thesis using that [of "esss @ [[]]"] assms(2) True len
    by (simp add: levels_seq_append level_seq_def nth_append)
next
  case False
  then show thesis
    using that [of esss] assms levels_ok_length [OF assms(1)] by (auto simp: with_next_def)
qed

lemma with_next_split:
  assumes ok: "levels_ok env fs 0 (with_next l lvs) esss1" and l: "l + 1 < length esss1"
  obtains lpre lcur lnx lpost pre cur nx post where
    "with_next l lvs = lpre @ lcur # lnx # lpost" "esss1 = pre @ cur # nx # post"
    "length lpre = l" "length pre = l" "levels_ok env fs 0 lpre pre" "level_ok env fs l lcur cur"
    "level_ok env fs (Suc l) lnx nx" "levels_ok env fs (Suc (Suc l)) lpost post"
proof -
  have len: "length (with_next l lvs) = length esss1" using levels_ok_length [OF ok] .
  obtain pre cur nx post where e: "esss1 = pre @ cur # nx # post" "length pre = l"
    using split_at [OF l] by metis
  obtain lpre lcur lnx lpost where lv: "with_next l lvs = lpre @ lcur # lnx # lpost" "length lpre = l"
    using split_at [of l "with_next l lvs"] l len by metis
  show thesis using that [OF lv(1) e(1) lv(2) e(2)] ok e lv by (simp add: levels_ok_append)
qed

lemma compact_level_eq:
  assumes "l < length (mf_levels mf)" "fid \<notin> manifest_ids mf"
    and lv: "with_next l (mf_levels mf) = lpre @ lcur # lnx # lpost" "length lpre = l"
    and "collect_level (rev (lv_ssts lcur)) 0 [] [] = Some (cs, lo, hi)"
    and "collect_next (lv_ssts lnx) 0 (length cs) lo hi (- 1) (length (lv_ssts lnx)) = Some (cs2, il, ir)"
    and "merge_loop (cs @ cs2) [] = Some es" "new_table env config es fid (fs, c) = Some (sst, w)"
  shows "\<exists>max_id. compact_level env config l fid (mf, fs, c) =
    Some (mf\<lparr>mf_max_sst_id := max_id, mf_levels := lpre @ lcur\<lparr>lv_ssts := []\<rparr> #
      lnx\<lparr>lv_ssts := take (nat (il + 1)) (lv_ssts lnx) @ [sst] @ drop ir (lv_ssts lnx)\<rparr> # lpost\<rparr>, w) \<and>
    max_id = max (mf_max_sst_id mf) (unat (word_of_int fid :: 64 word))"
proof -
  have nth: "mf_levels mf ! l = lcur"
  proof -
    have "with_next l (mf_levels mf) ! l = mf_levels mf ! l" using assms(1) by (simp add: with_next_def nth_append)
    then show ?thesis using lv by (metis nth_append_length)
  qed
  have n1: "(lpre @ lcur # lnx # lpost) ! (l + 1) = lnx" using lv(2) by (simp add: nth_append)
  have upd: "(lpre @ lcur # lnx # lpost)[l := x, l + 1 := y] = lpre @ x # y # lpost" for x y
    using lv(2) by (simp add: list_update_append)
  show ?thesis
    unfolding compact_level_def Let_def prod.case with_next_def [symmetric] lv(1) nth n1 upd
    using assms(1,2,5-8) by (simp add: max_def)
qed

text \<open>The collected inputs and what their merge does to the two levels.\<close>

lemma compact_inputs:
  assumes cur: "level_ok env fs l lcur cur" "cur \<noteq> []" and nx: "level_ok env fs (Suc l) lnx nx"
    and keys: "[] \<notin> fst ` set (concat cur)"
  obtains cs lo hi cs2 a b new where "collect_level (rev (lv_ssts lcur)) 0 [] [] = Some (cs, lo, hi)"
    "collect_next (lv_ssts lnx) 0 (length cs) lo hi (- 1) (length (lv_ssts lnx)) = Some (cs2, int a - 1, b)"
    "merge_loop (cs @ cs2) [] = Some new" "new \<noteq> []" "sorted_keys new"
    "set new \<subseteq> set (concat cur) \<union> set (concat nx)" "sorted_keys (concat (take a nx @ [new] @ drop b nx))"
    "map_of (concat (take a nx @ [new] @ drop b nx)) = map_of (level_seq l cur @ concat nx)"
proof -
  have curh: "list_all2 sst_holds (rev (lv_ssts lcur)) (rev cur)"
    using tables_hold [of env fs "lv_ssts lcur" cur] cur(1) by (simp add: level_ok_def)
  have nxh: "list_all2 sst_holds (lv_ssts lnx) nx" and nxs: "sorted_keys (concat nx)"
    using tables_hold [of env fs "lv_ssts lnx" nx] nx by (simp_all add: level_ok_def)
  have "[] \<notin> fst ` set (concat (rev cur))" using keys by simp
  then obtain cs lo hi where coll: "collect_level (rev (lv_ssts lcur)) 0 [] [] = Some (cs, lo, hi)"
    and st: "starts cs 0 (rev cur)" and range: "\<forall>x \<in> fst ` set (concat (rev cur)). lo \<le> x \<and> x \<le> hi"
    using collect_level_ok [OF curh, of 0 "[]" "[]"] by blast
  obtain cs2 a b where next_eq:
    "collect_next (lv_ssts lnx) 0 (length cs) lo hi (- 1) (length (lv_ssts lnx)) = Some (cs2, int a - 1, b)"
    and ab: "a \<le> b" "b \<le> length nx"
    and st2: "starts cs2 (length cs) (take (b - a) (drop a nx))" and out: "outside lo hi a b nx"
    using collect_next_start [OF nxh nxs, of "length cs" lo hi] .
  define M where "M = take (b - a) (drop a nx)"
  define new where "new = smerge (concat (rev cur) @ concat M)"
  have nx_split: "nx = take a nx @ M @ drop b nx"
    using ab unfolding M_def by (metis append_take_drop_id drop_drop le_add_diff_inverse2)
  then have csplit: "concat nx = concat (take a nx) @ concat M @ concat (drop b nx)"
    by (metis concat_append)
  have sortedLMR: "sorted_keys (concat (take a nx) @ concat M @ concat (drop b nx))" using nxs csplit by simp
  have merge: "merge_loop (cs @ cs2) [] = Some new"
    using merge_starts [OF starts_append [OF st]] st2 by (simp add: new_def M_def)
  note ml = merged_level [OF sortedLMR range conjunct1 [OF out [unfolded outside_def]]
      conjunct2 [OF out [unfolded outside_def]], folded new_def]
  have "concat (rev cur) \<noteq> []"
    using cur sst_holds_entries(3) curh by (cases cur) (auto simp: list_all2_append2 list_all2_Cons2)
  then have ne: "new \<noteq> []" using ml(3) by blast
  have mp: "map_of (concat (take a nx @ [new] @ drop b nx)) = map_of (level_seq l cur @ concat nx)"
    using ml(2) csplit map_of_level_seq [OF cur(1)] by (simp add: map_of_append)
  have sub: "set new \<subseteq> set (concat cur) \<union> set (concat nx)"
    using set_smerge [of "concat (rev cur) @ concat M"] csplit unfolding new_def by auto
  have "sorted_keys new" by (simp add: new_def)
  then show thesis using that [OF coll next_eq merge ne _ sub ml(1) mp] by blast
qed

lemma manifest_ids_next: "manifest_ids mf = (\<Union>lv \<in> set (with_next l (mf_levels mf)). level_ids lv)"
  by (auto simp: manifest_ids_def with_next_def level_ids_def)

lemma level_ok_replace:
  assumes "level_ok env fs (Suc l) lv ess" "table_ok env fs sst new"
    and "sorted_keys (concat (take a ess @ [new] @ drop b ess))"
  shows "level_ok env fs (Suc l) (lv\<lparr>lv_ssts := take a (lv_ssts lv) @ [sst] @ drop b (lv_ssts lv)\<rparr>)
    (take a ess @ [new] @ drop b ess)"
  using assms unfolding level_ok_def
  by (simp add: list_all2_appendI list_all2_takeI list_all2_dropI)

text \<open>A level and the next one are replaced by an empty one and the merged one.\<close>

lemma levels_seq_replaced:
  assumes "length pre = l" "map_of (concat nx') = map_of (level_seq l cur @ concat nx)"
  shows "map_of (levels_seq 0 (pre @ [] # nx' # post)) = map_of (levels_seq 0 (pre @ cur # nx # post))"
proof -
  have "map_of (levels_seq 0 (pre @ [] # nx' # post)) = map_of (levels_seq 0 pre @ concat nx' @ levels_seq (l + 2) post)"
    using assms(1) by (simp add: levels_seq_append level_seq_def)
  also have "\<dots> = map_of (levels_seq 0 pre @ (level_seq l cur @ concat nx) @ levels_seq (l + 2) post)"
    using assms(2) by (simp only: map_of_append)
  also have "levels_seq 0 pre @ (level_seq l cur @ concat nx) @ levels_seq (l + 2) post = levels_seq 0 (pre @ cur # nx # post)"
    using assms(1) by (simp add: levels_seq_append level_seq_def)
  finally show ?thesis .
qed

lemma levels_ok_replaced:
  assumes ok: "levels_ok env fs 0 lpre pre" "level_ok env fs l lcur cur" "level_ok env fs (Suc l) lnx nx" "levels_ok env fs (Suc (Suc l)) lpost post"
    and len: "length lpre = l" "length pre = l" and new: "fid \<notin> (\<Union>lv \<in> set (lpre @ lcur # lnx # lpost). level_ids lv)"
    and sst: "table_ok env (fs(fid \<mapsto> d)) sst es" and sorted: "sorted_keys (concat (take a nx @ [es] @ drop b nx))"
  shows "levels_ok env (fs(fid \<mapsto> d)) 0
    (lpre @ lcur\<lparr>lv_ssts := []\<rparr> # lnx\<lparr>lv_ssts := take a (lv_ssts lnx) @ [sst] @ drop b (lv_ssts lnx)\<rparr> # lpost)
    (pre @ [] # (take a nx @ [es] @ drop b nx) # post)"
proof -
  have others: "levels_ok env (fs(fid \<mapsto> d)) 0 lpre pre" "level_ok env (fs(fid \<mapsto> d)) (Suc l) lnx nx"
    "levels_ok env (fs(fid \<mapsto> d)) (Suc (Suc l)) lpost post"
    using levels_ok_other [OF ok(1)] level_ok_other [OF ok(3)] levels_ok_other [OF ok(4)] new by auto
  have "level_ok env (fs(fid \<mapsto> d)) (Suc l) (lnx\<lparr>lv_ssts := take a (lv_ssts lnx) @ [sst] @ drop b (lv_ssts lnx)\<rparr>) (take a nx @ [es] @ drop b nx)"
    using level_ok_replace [OF others(2) sst sorted] .
  moreover have "level_ok env (fs(fid \<mapsto> d)) l (lcur\<lparr>lv_ssts := []\<rparr>) []" using ok(2) by (simp add: level_ok_def)
  ultimately show ?thesis using others(1,3) len by (simp add: levels_ok_append)
qed

lemma compact_level_ok:
  assumes ok: "manifest_ok env fs mf esss" and l: "l < length esss" "esss ! l \<noteq> []"
    and fid: "fid \<notin> manifest_ids mf" and keys: "[] \<notin> fst ` set (concat (concat esss))"
    and fits: "fits env (set (concat (concat esss)))" and codec: "codec_ok env config"
  obtains mf' fs' c' esss' where "compact_level env config l fid (mf, fs, c) = Some (mf', fs', c')"
    "manifest_ok env fs' mf' esss'" "map_of (levels_seq 0 esss') = map_of (levels_seq 0 esss)"
    "set (concat (concat esss')) \<subseteq> set (concat (concat esss))" "length esss' = max (length esss) (l + 2)"
    "mf_version mf' = mf_version mf" "manifest_ids mf' \<subseteq> insert fid (manifest_ids mf)"
    "mf_max_sst_id mf' = max (mf_max_sst_id mf) (unat (word_of_int fid :: 64 word))"
proof -
  have lok: "levels_ok env fs 0 (mf_levels mf) esss" using ok by (simp add: manifest_ok_def)
  have len: "l < length (mf_levels mf)" using levels_ok_length [OF lok] l by simp
  obtain esss1 where 1: "levels_ok env fs 0 (with_next l (mf_levels mf)) esss1"
    "levels_seq 0 esss1 = levels_seq 0 esss" "set (concat (concat esss1)) = set (concat (concat esss))"
    "l + 1 < length esss1" "esss1 ! l = esss ! l" "length esss1 = max (length esss) (l + 2)"
    using with_next_ok [OF lok l(1)] .
  obtain lpre lcur lnx lpost pre cur nx post where lv: "with_next l (mf_levels mf) = lpre @ lcur # lnx # lpost"
    and e: "esss1 = pre @ cur # nx # post" and pl: "length lpre = l" "length pre = l"
    and preok: "levels_ok env fs 0 lpre pre" and curok: "level_ok env fs l lcur cur"
    and nxok: "level_ok env fs (Suc l) lnx nx" and postok: "levels_ok env fs (Suc (Suc l)) lpost post"
    using with_next_split [OF 1(1,4)] .
  have cur: "cur \<noteq> []" using 1(5) e pl(2) l(2) by auto
  have entries: "set (concat (concat esss)) =
      set (concat (concat pre)) \<union> set (concat cur) \<union> set (concat nx) \<union> set (concat (concat post))"
    unfolding 1(3) [symmetric] e by (simp add: Un_assoc)
  have "[] \<notin> fst ` set (concat cur)" using keys unfolding entries image_Un by blast
  from compact_inputs [OF curok cur nxok this] obtain cs lo hi cs2 a b new
    where coll: "collect_level (rev (lv_ssts lcur)) 0 [] [] = Some (cs, lo, hi)"
      "collect_next (lv_ssts lnx) 0 (length cs) lo hi (- 1) (length (lv_ssts lnx)) = Some (cs2, int a - 1, b)"
      "merge_loop (cs @ cs2) [] = Some new"
    and new: "new \<noteq> []" "sorted_keys new" "set new \<subseteq> set (concat cur) \<union> set (concat nx)"
    and next_sorted: "sorted_keys (concat (take a nx @ [new] @ drop b nx))"
    and same: "map_of (concat (take a nx @ [new] @ drop b nx)) = map_of (level_seq l cur @ concat nx)" .
  have "sst_bound env new < max_file"
    using fits new(1-3) unfolding fits_def entries by blast
  from new_table_ok [OF new(1,2) this codec, of fid fs c] obtain sst c' where
    sst: "new_table env config new fid (fs, c) = Some (sst, fs(fid \<mapsto> sst_data sst), c')" "sst_id sst = fid"
      "table_ok env (fs(fid \<mapsto> sst_data sst)) sst new" by blast
  let ?fs = "fs(fid \<mapsto> sst_data sst)"
  let ?ssts = "take a (lv_ssts lnx) @ [sst] @ drop b (lv_ssts lnx)"
  let ?lvs = "lpre @ lcur\<lparr>lv_ssts := []\<rparr> # lnx\<lparr>lv_ssts := ?ssts\<rparr> # lpost"
  let ?esss = "pre @ [] # (take a nx @ [new] @ drop b nx) # post"
  obtain mf' where mf': "compact_level env config l fid (mf, fs, c) = Some (mf', ?fs, c')"
    "mf_levels mf' = ?lvs" "mf_version mf' = mf_version mf" "mf_max_sst_id mf' = max (mf_max_sst_id mf) (unat (word_of_int fid :: 64 word))"
    using compact_level_eq [OF len fid lv pl(1) coll sst(1)] that by fastforce
  have ids: "fid \<notin> (\<Union>lv \<in> set (lpre @ lcur # lnx # lpost). level_ids lv)"
    using fid manifest_ids_next [of mf l] unfolding lv by simp
  have "levels_ok env ?fs 0 ?lvs ?esss"
    by (rule levels_ok_replaced [OF preok curok nxok postok pl ids sst(3) next_sorted])
  then have "manifest_ok env ?fs mf' ?esss" using mf'(2) by (simp add: manifest_ok_def)
  moreover have "map_of (levels_seq 0 ?esss) = map_of (levels_seq 0 esss)"
    using levels_seq_replaced [OF pl(2) same, of post] 1(2) e by simp
  moreover have "set (concat (concat ?esss)) \<subseteq> set (concat (concat esss))"
    using new(3) set_take_subset [of a nx] set_drop_subset [of b nx] unfolding entries by auto
  moreover have "manifest_ids mf' \<subseteq> insert fid (manifest_ids mf)"
    using manifest_ids_next [of mf l] set_take_subset [of a "lv_ssts lnx"] set_drop_subset [of b "lv_ssts lnx"]
    unfolding lv manifest_ids_def [of mf'] mf'(2) by (auto simp: level_ids_def sst(2))
  moreover have "length ?esss = max (length esss) (l + 2)" using 1(6) e by simp
  ultimately show thesis using that [OF mf'(1)] mf'(3,4) by simp
qed

subsection \<open>The loop over the levels\<close>

lemma tables_size_bound:
  "list_all2 (table_ok env fs) ssts ess \<Longrightarrow> (\<Sum>sst\<leftarrow>ssts. sst_file_size sst) \<le> (\<Sum>es\<leftarrow>ess. sst_bound env es)"
  by (induction ssts ess rule: list_all2_induct) (auto simp: table_ok_def)

lemma level_size_bound:
  "level_ok env fs i lv ess \<Longrightarrow> level_binary_size lv \<le> (\<Sum>es\<leftarrow>ess. sst_bound env es)"
  unfolding level_ok_def level_binary_size_def using tables_size_bound by blast

lemma tables_nonempty: "list_all2 (table_ok env fs) ssts ess \<Longrightarrow> \<forall>es \<in> set ess. es \<noteq> []"
  by (induction ssts ess rule: list_all2_induct) (auto simp: table_ok_def dest: sst_holds_entries(3))

text \<open>A set of entries that can never fill level 1, so that a compaction does not go on to level 2.\<close>

definition shallow :: "'c sst_env \<Rightarrow> entry set \<Rightarrow> bool" where
  "shallow env E =
     (\<forall>ess. sorted_keys (concat ess) \<longrightarrow> (\<forall>es \<in> set ess. es \<noteq> []) \<longrightarrow> set (concat ess) \<subseteq> E \<longrightarrow>
        (\<Sum>es\<leftarrow>ess. sst_bound env es) \<le> level_max_binary_size 1)"

lemma levels_ok_nth: "levels_ok env fs i lvs esss \<Longrightarrow> j < length esss \<Longrightarrow> level_ok env fs (i + j) (lvs ! j) (esss ! j)"
proof (induction env fs i lvs esss arbitrary: j rule: levels_ok.induct)
  case (2 env fs i lv lvs ess esss)
  then show ?case by (cases j) auto
qed auto

lemma compact_stops:
  assumes ok: "manifest_ok env fs mf esss" and "shallow env E" "set (concat (concat esss)) \<subseteq> E"
  shows "compact_from env config fid n 1 (mf, fs, c) = Some (mf, fs, c)"
proof (cases "1 < length (mf_levels mf)")
  case True
  have lok: "levels_ok env fs 0 (mf_levels mf) esss" using ok by (simp add: manifest_ok_def)
  then have l: "1 < length esss" using True levels_ok_length by metis
  have one: "level_ok env fs 1 (mf_levels mf ! 1) (esss ! 1)" using levels_ok_nth [OF lok l] by simp
  have "set (concat (esss ! 1)) \<subseteq> E" using assms(3) nth_mem [OF l] by auto
  moreover have "sorted_keys (concat (esss ! 1))" "\<forall>es \<in> set (esss ! 1). es \<noteq> []"
    using one tables_nonempty unfolding level_ok_def by (simp, blast)
  ultimately have "(\<Sum>es\<leftarrow>esss ! 1. sst_bound env es) \<le> level_max_binary_size 1"
    using assms(2) unfolding shallow_def by blast
  then have "level_binary_size (mf_levels mf ! 1) \<le> level_max_binary_size 1"
    using level_size_bound [OF one] by simp
  then show ?thesis by (cases n) auto
qed (cases n; simp)

lemma SizeTieredCompaction_ok:
  assumes ok: "manifest_ok env fs mf esss" and can: "CanDoCompaction mf = Some True"
    and fid: "fid \<notin> manifest_ids mf" and keys: "[] \<notin> fst ` set (concat (concat esss))"
    and E: "set (concat (concat esss)) \<subseteq> E" "fits env E" "shallow env E" and codec: "codec_ok env config"
  obtains mf' fs' c' esss' where "SizeTieredCompaction env config fid (mf, fs, c) = Some (mf', fs', c')"
    "manifest_ok env fs' mf' esss'" "map_of (levels_seq 0 esss') = map_of (levels_seq 0 esss)"
    "set (concat (concat esss')) \<subseteq> set (concat (concat esss))" "length esss' = max (length esss) 2"
    "mf_version mf' = mf_version mf" "manifest_ids mf' \<subseteq> insert fid (manifest_ids mf)"
    "mf_max_sst_id mf' = max (mf_max_sst_id mf) (unat (word_of_int fid :: 64 word))"
proof -
  have lok: "levels_ok env fs 0 (mf_levels mf) esss" using ok by (simp add: manifest_ok_def)
  obtain lv lvs where lv: "mf_levels mf = lv # lvs" "level_max_binary_size 0 < level_binary_size lv"
    using can by (auto simp: CanDoCompaction_def split: list.splits)
  have l: "0 < length esss" using levels_ok_length [OF lok] lv(1) by (cases esss) simp_all
  have "lv_ssts lv \<noteq> []" using lv(2) by (auto simp: level_binary_size_def)
  then have ne: "esss ! 0 \<noteq> []" using levels_ok_nth [OF lok l] lv(1) by (auto simp: level_ok_def)
  have fits: "fits env (set (concat (concat esss)))" using E(1,2) unfolding fits_def by blast
  obtain mf' fs' c' esss' where c: "compact_level env config 0 fid (mf, fs, c) = Some (mf', fs', c')"
    "manifest_ok env fs' mf' esss'" "map_of (levels_seq 0 esss') = map_of (levels_seq 0 esss)"
    "set (concat (concat esss')) \<subseteq> set (concat (concat esss))" "length esss' = max (length esss) (0 + 2)"
    "mf_version mf' = mf_version mf" "manifest_ids mf' \<subseteq> insert fid (manifest_ids mf)"
    "mf_max_sst_id mf' = max (mf_max_sst_id mf) (unat (word_of_int fid :: 64 word))"
    using compact_level_ok [OF ok l ne fid keys fits codec] .
  have "compact_from env config fid 4 1 (mf', fs', c') = Some (mf', fs', c')"
    using compact_stops [OF c(2) E(3)] c(4) E(1) by blast
  then have "SizeTieredCompaction env config fid (mf, fs, c) = Some (mf', fs', c')"
    using lv c(1) by (simp add: SizeTieredCompaction_def numeral_eq_Suc)
  then show thesis using that c by simp
qed

text \<open>
  When level 1 is over its limit after the first round, the second round writes a file that is in
  use: both rounds are given the same id.
\<close>

lemma new_table_id: "new_table env config es fid w = Some (sst, w') \<Longrightarrow> sst_id sst = fid"
  by (cases es; cases w)
    (auto simp: new_table_def SST_entries_def SST_plain_def SST_entries_compressed_def SST_encoded_def
      Let_def bind_eq_Some_conv split: if_splits prod.splits)

lemma compact_level_uses_id:
  assumes "compact_level env config l fid (mf, w) = Some (mf', w')"
  shows "fid \<in> manifest_ids mf'"
proof -
  have l: "l < length (mf_levels mf)" using assms by (auto simp: compact_level_def split: if_splits)
  have len: "l + 1 < length (with_next l (mf_levels mf))" using l by (auto simp: with_next_def)
  let ?lvs = "with_next l (mf_levels mf)"
  have "\<exists>es sst i j lv0. new_table env config es fid w = Some (sst, w') \<and> mf_levels mf' = ?lvs[l := lv0,
      l + 1 := (?lvs ! (l + 1))\<lparr>lv_ssts := take i (lv_ssts (?lvs ! (l + 1))) @ [sst] @ drop j (lv_ssts (?lvs ! (l + 1)))\<rparr>]"
    using assms unfolding compact_level_def Let_def with_next_def [symmetric]
    by (auto simp: bind_eq_Some_conv split: if_splits) (intro exI conjI, assumption, rule refl)+
  then obtain es sst i j lv0 lv1 where nt: "new_table env config es fid w = Some (sst, w')"
    and m: "mf_levels mf' = ?lvs[l := lv0, l + 1 := lv1]" and "sst \<in> set (lv_ssts lv1)" by fastforce
  moreover have "lv1 \<in> set (mf_levels mf')" unfolding m using len by (intro set_update_memI) simp
  ultimately show ?thesis using new_table_id [OF nt] unfolding manifest_ids_def by force
qed

lemma cascade_reuses_id:
  assumes "compact_level env config 0 fid w = Some w'"
    and "level_max_binary_size 0 < level_binary_size (mf_levels (fst w) ! 0)" "mf_levels (fst w) \<noteq> []"
    and "level_max_binary_size 1 < level_binary_size (mf_levels (fst w') ! 1)" "1 < length (mf_levels (fst w'))"
  shows "SizeTieredCompaction env config fid w = None"
proof -
  have "fid \<in> manifest_ids (fst w')"
    using compact_level_uses_id assms(1) by (metis prod.collapse)
  then have "compact_level env config 1 fid w' = None" by (cases w') (simp add: compact_level_def)
  then show ?thesis
    using assms by (simp add: SizeTieredCompaction_def numeral_eq_Suc)
qed

end
