(* ===== verification/Manifest_File.thy ===== *)
theory Manifest_File
  imports Compaction
begin

text \<open>
  The manifest file: opening what \<^verbatim>\<open>Manifest::Save\<close> wrote restores every level with tables that hold
  the same entries, and the greatest file id.  Also the drive of the compaction over the levels.
\<close>

subsection \<open>Words of the file\<close>

definition sizes_bytes :: "nat list \<Rightarrow> bytes" where
  "sizes_bytes ws = concat (map (le_bytes 8) ws)"

lemma sizes_bytes_simps [simp]:
  "sizes_bytes [] = []" "sizes_bytes (w # ws) = le_bytes 8 w @ sizes_bytes ws"
  "sizes_bytes (ws @ ws') = sizes_bytes ws @ sizes_bytes ws'"
  by (simp_all add: sizes_bytes_def)

lemma length_sizes_bytes [simp, size_simps]: "length (sizes_bytes ws) = 8 * length ws"
  by (induction ws) auto

lemma write_sizes_filled:
  assumes "filled mem pre" "length pre + 8 * length ws \<le> length mem"
  shows "\<exists>mem'. write_sizes mem (length pre) ws = Some mem' \<and> filled mem' (pre @ sizes_bytes ws) \<and>
    length mem' = length mem"
  using assms
proof (induction ws arbitrary: mem pre)
  case (Cons w ws)
  obtain m1 where m1: "WriteSize mem (length pre) w = Some m1" "filled m1 (pre @ le_bytes 8 w)"
    "length m1 = length mem"
    using WriteSize_filled [OF Cons.prems(1) refl, of w] Cons.prems(2) by auto
  show ?case using Cons.IH [OF m1(2)] m1(1,3) Cons.prems(2) by simp
qed simp

lemma length_manifest_words: "8 * length (manifest_words mf) = manifest_binary_size mf"
proof -
  have "8 * length (concat (map level_save lvs)) = (\<Sum>lv\<leftarrow>lvs. (length (lv_ssts lv) + 1) * 8)" for lvs
    by (induction lvs) (auto simp: level_save_def)
  then show ?thesis by (simp add: manifest_words_def manifest_binary_size_def)
qed

lemma manifest_Save_bytes: "manifest_Save mf file = Some (sizes_bytes (manifest_words mf))"
proof -
  let ?mem = "resize_bytes (case file of None \<Rightarrow> [] | Some old \<Rightarrow> old) (manifest_binary_size mf)"
  have len: "length ?mem = 8 * length (manifest_words mf)" by (simp add: length_manifest_words)
  obtain mem' where "write_sizes ?mem 0 (manifest_words mf) = Some mem'"
    "filled mem' (sizes_bytes (manifest_words mf))" "length mem' = length ?mem"
    using write_sizes_filled [OF filled_Nil, of "manifest_words mf" ?mem] len by auto
  then show ?thesis using filled_complete [of mem'] len by (simp add: manifest_Save_def)
qed

subsection \<open>Loading the levels\<close>

definition ids_ok :: "nat \<Rightarrow> int set \<Rightarrow> bool" where
  "ids_ok B ids = (B < 2 ^ 31 \<and> (\<forall>fid \<in> ids. 0 < fid \<and> fid \<le> int B))"

lemma id_size_ok:
  assumes "0 < sst_id sst" "sst_id sst < 2 ^ 31"
  shows "id_size sst = nat (sst_id sst)" "int_of_size (id_size sst) = sst_id sst" "id_size sst < end_mark"
proof -
  show i: "id_size sst = nat (sst_id sst)"
    using assms by (simp add: id_size_def unsigned_of_int take_bit_int_eq_self)
  show "int_of_size (id_size sst) = sst_id sst"
    unfolding i using assms by (simp add: int_of_size_def signed_of_int signed_take_bit_int_eq_self)
  show "id_size sst < end_mark" unfolding i using assms by simp
qed

lemma load_table_ok:
  assumes "table_ok env fs sst es" "0 < sst_id sst" "sst_id sst < 2 ^ 31"
  obtains sst' where "load_table env fs (id_size sst) = Some sst'" "table_ok env fs sst' es" "sst_id sst' = sst_id sst"
  using assms id_size_ok [OF assms(2,3)] that by (auto simp: table_ok_def stored_def load_table_def)

lemma level_Load_ok:
  assumes "list_all2 (table_ok env fs) ssts ess" "ids_ok B (sst_id ` set ssts)"
  shows "\<exists>ssts' m'. level_Load env fs (pre @ sizes_bytes (map id_size ssts @ [end_mark]) @ rest) (length pre) m =
      Some (ssts', length pre + 8 * (length ssts + 1), m') \<and> list_all2 (table_ok env fs) ssts' ess \<and>
      map sst_id ssts' = map sst_id ssts \<and> m \<le> m' \<and> m' \<le> max m B \<and> (\<forall>sst \<in> set ssts. id_size sst \<le> m')"
  using assms
proof (induction ssts ess arbitrary: pre m rule: list_all2_induct)
  case Nil
  have "ReadSize (pre @ sizes_bytes [end_mark] @ rest) (length pre) = Some end_mark"
    using ReadSize_at [OF refl, of end_mark pre rest] by simp
  then show ?case by (subst level_Load.simps) simp
next
  case (Cons sst ssts es ess)
  let ?mem = "pre @ sizes_bytes (map id_size (sst # ssts) @ [end_mark]) @ rest"
  let ?m = "if m < id_size sst then id_size sst else m"
  have id: "0 < sst_id sst" "sst_id sst < 2 ^ 31" "sst_id sst \<le> int B"
    using Cons.prems by (auto simp: ids_ok_def)
  note sz = id_size_ok [OF id(1,2)]
  obtain sst' where s: "load_table env fs (id_size sst) = Some sst'" "table_ok env fs sst' es" "sst_id sst' = sst_id sst"
    using load_table_ok [OF Cons.hyps(1) id(1,2)] .
  have rd: "ReadSize ?mem (length pre) = Some (id_size sst)"
    using ReadSize_at [OF refl, of "id_size sst" pre] sz(3) by simp
  have "ids_ok B (sst_id ` set ssts)" using Cons.prems by (simp add: ids_ok_def)
  then obtain ssts' m' where IH: "level_Load env fs ?mem (length pre + 8) ?m =
      Some (ssts', length pre + 8 + 8 * (length ssts + 1), m')" "list_all2 (table_ok env fs) ssts' ess"
    "map sst_id ssts' = map sst_id ssts" "?m \<le> m'" "m' \<le> max ?m B" "\<forall>sst \<in> set ssts. id_size sst \<le> m'"
    using Cons.IH [of "pre @ le_bytes 8 (id_size sst)" ?m] by auto
  have "level_Load env fs ?mem (length pre) m = Some (sst' # ssts', length pre + 8 * (length (sst # ssts) + 1), m')"
    using rd s(1) IH(1) sz(3) by (subst level_Load.simps) simp
  moreover have "m \<le> m'" "id_size sst \<le> m'" "m' \<le> max m B"
    using IH(4,5) sz(1) id by (auto split: if_splits)
  ultimately show ?case using s(2,3) IH(2,3,6) by auto
qed

lemma levels_Load_ok:
  assumes "levels_ok env fs i lvs esss" "ids_ok B (\<Union>lv \<in> set lvs. level_ids lv)"
  shows "\<exists>lvs' m'. levels_Load env fs (pre @ sizes_bytes (concat (map level_save lvs)) @ rest) i (length lvs) (length pre) m =
      Some (lvs', m') \<and> levels_ok env fs i lvs' esss \<and> map level_ids lvs' = map level_ids lvs \<and>
      m \<le> m' \<and> m' \<le> max m B \<and> (\<forall>lv \<in> set lvs. \<forall>sst \<in> set (lv_ssts lv). id_size sst \<le> m')"
  using assms
proof (induction env fs i lvs esss arbitrary: pre m rule: levels_ok.induct)
  case (2 env fs i lv lvs ess esss)
  let ?rest = "sizes_bytes (concat (map level_save lvs)) @ rest"
  let ?mem = "pre @ sizes_bytes (concat (map level_save (lv # lvs))) @ rest"
  have ids: "ids_ok B (sst_id ` set (lv_ssts lv))" "ids_ok B (\<Union>lv \<in> set lvs. level_ids lv)"
    using 2(3) by (auto simp: ids_ok_def level_ids_def)
  have lv: "level_ok env fs i lv ess" "levels_ok env fs (Suc i) lvs esss" using 2(2) by simp_all
  have mem: "?mem = pre @ sizes_bytes (map id_size (lv_ssts lv) @ [end_mark]) @ ?rest"
    by (simp add: level_save_def)
  obtain ssts' m1 where L: "level_Load env fs ?mem (length pre) m =
      Some (ssts', length pre + 8 * (length (lv_ssts lv) + 1), m1)"
    "list_all2 (table_ok env fs) ssts' ess" "map sst_id ssts' = map sst_id (lv_ssts lv)"
    "m \<le> m1" "m1 \<le> max m B" "\<forall>sst \<in> set (lv_ssts lv). id_size sst \<le> m1"
    using level_Load_ok [OF _ ids(1), of env fs ess pre ?rest m] lv(1) unfolding mem level_ok_def by blast
  let ?pre = "pre @ sizes_bytes (map id_size (lv_ssts lv) @ [end_mark])"
  obtain lvs' m2 where R: "levels_Load env fs ?mem (Suc i) (length lvs) (length ?pre) m1 = Some (lvs', m2)"
    "levels_ok env fs (Suc i) lvs' esss" "map level_ids lvs' = map level_ids lvs" "m1 \<le> m2" "m2 \<le> max m1 B"
    "\<forall>lv \<in> set lvs. \<forall>sst \<in> set (lv_ssts lv). id_size sst \<le> m2"
    using 2(1) [OF lv(2) ids(2), of ?pre m1] unfolding mem by auto
  have "levels_Load env fs ?mem i (length (lv # lvs)) (length pre) m =
      Some (\<lparr>lv_level = i, lv_ssts = ssts'\<rparr> # lvs', m2)"
    using L(1) R(1) by (simp add: algebra_simps)
  moreover have "level_ok env fs i \<lparr>lv_level = i, lv_ssts = ssts'\<rparr> ess" using L(2) lv(1) by (simp add: level_ok_def)
  moreover have "level_ids \<lparr>lv_level = i, lv_ssts = ssts'\<rparr> = level_ids lv"
    using L(3) by (metis Level.select_convs(2) level_ids_def list.set_map)
  ultimately show ?case using R(2-6) L(4-6) by fastforce
qed auto

text \<open>
  The round trip.  The version and the number of levels fit a word.
\<close>

lemma manifest_open_Save:
  assumes ok: "manifest_ok env fs mf esss" and ids: "ids_ok B (manifest_ids mf)"
    and small: "mf_version mf < size_max" "length (mf_levels mf) < size_max"
  obtains data mf' where "manifest_Save mf file = Some data" "manifest_open env fs (Some data) = Some mf'"
    "manifest_ok env fs mf' esss" "manifest_ids mf' = manifest_ids mf" "mf_version mf' = mf_version mf"
    "mf_max_sst_id mf' \<le> B" "\<forall>fid \<in> manifest_ids mf. fid \<le> int (mf_max_sst_id mf')"
proof -
  let ?lvs = "mf_levels mf"
  let ?pre = "le_bytes 8 (mf_version mf) @ le_bytes 8 (length ?lvs)"
  let ?data = "?pre @ sizes_bytes (concat (map level_save ?lvs)) @ []"
  have save: "manifest_Save mf file = Some ?data" by (simp add: manifest_Save_bytes manifest_words_def)
  have lids: "ids_ok B (\<Union>lv \<in> set ?lvs. level_ids lv)"
    using ids by (simp add: manifest_ids_def level_ids_def)
  obtain lvs' m' where L: "levels_Load env fs ?data 0 (length ?lvs) (length ?pre) 0 = Some (lvs', m')"
    "levels_ok env fs 0 lvs' esss" "map level_ids lvs' = map level_ids ?lvs" "m' \<le> max 0 B"
    "\<forall>lv \<in> set ?lvs. \<forall>sst \<in> set (lv_ssts lv). id_size sst \<le> m'"
    using levels_Load_ok [OF _ lids, of env fs 0 esss ?pre "[]" 0] ok by (auto simp: manifest_ok_def)
  have rd: "ReadSize ?data 0 = Some (mf_version mf)" "ReadSize ?data 8 = Some (length ?lvs)"
    using ReadSize_at [OF _ small(1), of 0 "[]"]
      ReadSize_at [OF _ small(2), of 8 "le_bytes 8 (mf_version mf)"] by simp_all
  let ?mf = "\<lparr>mf_version = mf_version mf, mf_levels = lvs', mf_max_sst_id = m'\<rparr>"
  have "manifest_open env fs (Some ?data) = Some ?mf" using rd L(1) by (simp add: manifest_open_def)
  moreover have "manifest_ok env fs ?mf esss" using L(2) ok by (simp add: manifest_ok_def)
  moreover have "manifest_ids ?mf = manifest_ids mf"
    using arg_cong [OF L(3), of set] by (simp add: manifest_ids_def level_ids_def)
  moreover have "\<forall>fid \<in> manifest_ids mf. fid \<le> int m'"
    using L(5) ids id_size_ok(1) by (fastforce simp: manifest_ids_def ids_ok_def)
  ultimately show thesis using that [OF save] L(4) by simp
qed

end
