(* ===== verification/Example_Env.thy ===== *)
theory Example_Env
  imports SST_Correct
begin

text \<open>
  A concrete instance of the functions that come from outside the repository, at which the theorems
  are applied: the parameters of the Bloom filter for 22 bits per key, and a codec that
  stores constant data as one byte and everything else behind a marker.
\<close>

definition run_codec :: "unit lz4_api" where
  "run_codec =
     \<lparr>LZ4F_compressFrameBound = (\<lambda>n. n + 1),
      LZ4F_compressFrame = (\<lambda>cap n d. Some (if list_all (\<lambda>c. c = hd d) d then [hd d] else CHR ''x'' # d)),
      LZ4F_createDecompressionContext = Some (),
      LZ4F_decompress = (\<lambda>ctx n f. Some (0, length f, if length f = 1 then replicate n (hd f) else tl f, ctx))\<rparr>"

definition example_env :: "unit sst_env" where
  "example_env = \<lparr>calc_length = (\<lambda>n. 22 * n), calc_hash_num = (\<lambda>n. 15), lz4 = run_codec\<rparr>"

lemma run_codec_roundtrip: "lz4_frame_roundtrip run_codec"
proof -
  have "replicate (length d) (hd d) = d" if "list_all (\<lambda>c. c = hd d) d" for d :: bytes
    using that by (intro replicate_length_same) (simp add: list_all_iff)
  then show ?thesis
    unfolding lz4_frame_roundtrip_def by (intro allI impI) (auto simp: run_codec_def split: if_splits)
qed

end
