(* ===== verification/Table_Theorems.thy ===== *)
theory Table_Theorems
  imports Manifest_File Example_Env
begin

text \<open>
  The properties of the on-disk structures: filters, codecs, table files, the merge of tables,
  compaction and the manifest file.
\<close>

section \<open>Filters and codecs\<close>

text \<open>
  C11: The Bloom filter has no false negatives: whatever the size, the seeds and the other keys, a key that
  was inserted passes \<^verbatim>\<open>Check\<close>, also in the filter that \<^verbatim>\<open>Load\<close> reads from the bytes of \<^verbatim>\<open>Save\<close>.
\<close>
theorem bloom_no_false_negative:
  assumes "k \<in> set keys" "bf_binary_size (fst (bf_Init n h c)) < 2 ^ 60"
  shows "\<exists>mem n' bf'. let bf = bf_insert_all keys (fst (bf_Init n h c)) in
    bf_Check bf k \<and> bf_Save (replicate (bf_binary_size bf) (CHR 0x00)) 0 bf = Some (mem, n') \<and>
    bf_Load mem 0 = Some (bf', n') \<and> bf_Check bf' k"
proof -
  let ?bf = "bf_insert_all keys (fst (bf_Init n h c))"
  have wf: "bf_wf ?bf" and check: "bf_Check ?bf k"
    using bf_insert_all_props [OF bf_wf_Init] assms(1) by blast+
  have size: "bf_binary_size ?bf < 2 ^ 60"
    using assms(2) wf bf_wf_Init [of n h c] by (simp add: bf_binary_size_def bf_wf_def bf_insert_all_frame)
  let ?mem = "replicate (bf_binary_size ?bf) (CHR 0x00)"
  have "filled ?mem []" by (simp add: filled_def)
  then obtain mem pad where s: "bf_Save ?mem 0 ?bf = Some (mem, bf_binary_size ?bf)" "length pad = 8"
    "filled mem (bf_bytes ?bf pad)" "length mem = length ?mem"
    using bf_Save_filled [OF _ wf, of ?mem "[]"] by auto
  obtain rest where "mem = bf_bytes ?bf pad @ rest" using s(3) by (auto simp: filled_def elim: prefixE)
  then have "bf_Load mem 0 = Some (?bf, bf_binary_size ?bf)"
    using bf_Load_at [OF wf size s(2), of "[]" rest] by simp
  then show ?thesis using s(1) check by (auto simp: Let_def)
qed

theorem bloom_no_false_negative_witness:
  "\<exists>mem n' bf'. let bf = bf_insert_all [''a'', ''b''] (fst (bf_Init 45 15 7)) in
    bf_Check bf ''b'' \<and> bf_Save (replicate (bf_binary_size bf) (CHR 0x00)) 0 bf = Some (mem, n') \<and>
    bf_Load mem 0 = Some (bf', n') \<and> bf_Check bf' ''b''"
proof -
  have "bf_binary_size (fst (bf_Init 45 15 7)) < 2 ^ 60"
    using bf_binary_size_alt [OF bf_wf_Init, of 45 15 7] by (simp add: bf_Init_def split: prod.split)
  from bloom_no_false_negative [OF _ this, of "''b''" "[''a'', ''b'']"] show ?thesis by simp
qed

text \<open>
  Whatever the compressor factory compresses without error, it decompresses to the same bytes, provided
  the type is not the embedded codec and the LZ4 library restores the frames it makes.
\<close>
theorem compression_roundtrip:
  assumes "lz4_frame_roundtrip api" "ty \<noteq> kSnappy"
    and "factory_Compress api ty d = Some (Some cd)" "cd_data cd \<noteq> []"
  shows "factory_Decompress api ty cd (length d) = Some (Some (length d, d))"
proof -
  have "ty = kLZ4" using assms(2,3) by (cases ty) auto
  then have "cd_original_size cd = length d"
    using assms(3,4) by (auto simp: lz4_Compress_def split: if_splits option.splits)
  then have "\<lparr>cd_data = cd_data cd, cd_original_size = length d\<rparr> = cd" by simp
  with factory_roundtrip [OF assms] show ?thesis by metis
qed

theorem compression_roundtrip_witness:
  "factory_Compress run_codec kLZ4 ''aaaa'' = Some (Some \<lparr>cd_data = ''a'', cd_original_size = 4\<rparr>) \<and>
   factory_Decompress run_codec kLZ4 \<lparr>cd_data = ''a'', cd_original_size = 4\<rparr> 4 = Some (Some (4, ''aaaa''))"
proof -
  have "factory_Compress run_codec kLZ4 ''aaaa'' = Some (Some \<lparr>cd_data = ''a'', cd_original_size = 4\<rparr>)"
    by (simp add: lz4_Compress_def run_codec_def)
  with compression_roundtrip [OF run_codec_roundtrip _ this] show ?thesis by (simp add: numeral_eq_Suc)
qed

text \<open>
  The embedded codec does not restore data: for every block of 4 to 60 pairwise different bytes, \<^verbatim>\<open>Compress\<close>
  succeeds and \<^verbatim>\<open>Decompress\<close> of the result reads past the end of the compressed bytes.
\<close>
theorem snappy_not_restored:
  assumes "distinct d" "4 \<le> length d" "length d \<le> 60"
  shows "\<exists>cd. snappy_Compress d = Some cd \<and> cd_original_size cd = length d \<and> snappy_Decompress cd (length d) = None"
  using snappy_Compress_distinct [OF assms] snappy_Decompress_distinct [OF assms(2,3)] by simp

theorem snappy_not_restored_witness:
  "\<exists>cd. snappy_Compress ''mokv'' = Some cd \<and> snappy_Decompress cd 4 = None"
  using snappy_not_restored [of "''mokv''"] by (auto simp: numeral_eq_Suc)

section \<open>Table files\<close>

text \<open>
  C8: Writing sorted entries as a table file returns, and lookups in the new object and in the
  object that \<^verbatim>\<open>Load\<close> makes from the file find exactly those entries, with and without compression.
\<close>
theorem table_roundtrip:
  assumes "es \<noteq> []" "sorted_keys es" "sst_bound env es < max_file" "codec_ok env config"
  shows "\<exists>sst fs' c' sst'. new_table env config es fid (fs, c) = Some (sst, fs', c') \<and>
    sst_Load env fs' fid = Some (Some sst') \<and>
    (\<forall>k. sst_Get sst k = Some (map_of es k) \<and> sst_Get sst' k = Some (map_of es k)) \<and>
    (\<forall>i. i \<noteq> fid \<longrightarrow> fs' i = fs i)"
proof -
  obtain sst c' where t: "new_table env config es fid (fs, c) = Some (sst, fs(fid \<mapsto> sst_data sst), c')"
    "sst_id sst = fid" "table_ok env (fs(fid \<mapsto> sst_data sst)) sst es"
    using new_table_ok [OF assms] by blast
  then obtain sst' where "sst_Load env (fs(fid \<mapsto> sst_data sst)) fid = Some (Some sst')" "sst_holds sst' es" "sst_holds sst es"
    by (auto simp: table_ok_def stored_def)
  then show ?thesis using t(1) sst_Get_holds by (intro exI conjI) auto
qed

abbreviation (input) example_entries :: "entry list" where
  "example_entries \<equiv> [(''a'', ''1''), (''b'', ''2'')]"

abbreviation (input) example_lz4 :: CompressionConfig where
  "example_lz4 \<equiv> \<lparr>cc_type = kLZ4, cc_enable = True, cc_min_size = 0\<rparr>"

lemma example_table:
  "example_entries \<noteq> []" "sorted_keys example_entries" "sst_bound example_env example_entries < max_file"
  "codec_ok example_env example_lz4"
  using run_codec_roundtrip
  by (simp_all add: sorted_keys_def sst_bound_def bloom_size_def example_env_def length_entry_bytes codec_ok_def)

theorem table_roundtrip_witness:
  "\<exists>sst fs' c' sst'. new_table example_env example_lz4 example_entries 7 (Map.empty, 0) = Some (sst, fs', c') \<and>
    sst_Load example_env fs' 7 = Some (Some sst') \<and> sst_Get sst' ''b'' = Some (Some ''2'') \<and> sst_Get sst' ''c'' = Some None"
proof -
  obtain sst fs' c' sst' where
    "new_table example_env example_lz4 example_entries 7 (Map.empty, 0) = Some (sst, fs', c')"
    "sst_Load example_env fs' 7 = Some (Some sst')" "\<forall>k. sst_Get sst' k = Some (map_of example_entries k)"
    using table_roundtrip [OF example_table, of 7 Map.empty 0] by blast
  then show ?thesis by (intro exI conjI) auto
qed

text \<open>
  C9: The merge of compaction, a loop over a priority queue of iterators, returns on any tables and yields the
  sorted union of their entries in which the table queued first wins: the result of inserting
  the entries, last table first, into a sorted list one by one.
\<close>
theorem merge_equals_reference:
  assumes "list_all2 sst_holds ssts ess"
  shows "merge_loop (map2 cursor_new ssts [0..<length ssts]) [] = Some (smerge (concat ess))"
proof -
  have "starts (map2 cursor_new ssts [n..<n + length ssts]) n ess" for n
    using assms
  proof (induction ssts ess arbitrary: n rule: list_all2_induct)
    case (Cons sst ssts es ess)
    have "[n..<n + length (sst # ssts)] = n # [Suc n..<Suc n + length ssts]"
      by (simp add: upt_conv_Cons del: upt_Suc)
    then show ?case using starts_Cons [OF Cons.hyps(1) Cons.IH [of "Suc n"]] by (simp del: upt_Suc)
  qed (simp add: starts_Nil)
  from merge_starts [OF this [of 0]] show ?thesis by simp
qed

theorem merge_equals_reference_witness:
  "\<exists>x y. sst_holds x [(''a'', ''1''), (''b'', ''2'')] \<and> sst_holds y [(''b'', ''3''), (''c'', ''4'')] \<and>
     merge_loop [cursor_new x 0, cursor_new y 1] [] = Some [(''a'', ''1''), (''b'', ''2''), (''c'', ''4'')]"
proof -
  have y: "[(''b'', ''3''), (''c'', ''4'')] \<noteq> []" "sorted_keys [(''b'', ''3''), (''c'', ''4'')]"
    "sst_bound example_env [(''b'', ''3''), (''c'', ''4'')] < max_file"
    by (simp_all add: sorted_keys_def sst_bound_def bloom_size_def example_env_def length_entry_bytes)
  obtain x where x: "sst_holds x [(''a'', ''1''), (''b'', ''2'')]"
    using new_table_ok [OF example_table, of 1 Map.empty 0] by (auto simp: table_ok_def)
  obtain z where z: "sst_holds z [(''b'', ''3''), (''c'', ''4'')]"
    using new_table_ok [OF y example_table(4), of 2 Map.empty 0] by (auto simp: table_ok_def)
  from merge_equals_reference [of "[x, z]" "[[(''a'', ''1''), (''b'', ''2'')], [(''b'', ''3''), (''c'', ''4'')]]"] x z
  show ?thesis by (intro exI [of _ x] exI [of _ z]) (simp add: smerge_Cons, simp add: smerge_def)
qed

section \<open>Compaction and the manifest file\<close>

text \<open>
  C7: Compacting a level that is not empty into the next one, under a fresh file id, returns (no iterator is
  read past its end, every file access is in range); the tables of the new manifest are in their files,
  and every lookup has the same answer as before.
\<close>
theorem compaction_keeps_lookups:
  assumes "manifest_ok env fs mf esss" "l < length esss" "esss ! l \<noteq> []"
    and "fid \<notin> manifest_ids mf" "[] \<notin> fst ` set (concat (concat esss))"
    and "fits env (set (concat (concat esss)))" "codec_ok env config"
  shows "\<exists>mf' fs' c' esss'. compact_level env config l fid (mf, fs, c) = Some (mf', fs', c') \<and>
    manifest_ok env fs' mf' esss' \<and> (\<forall>k. manifest_Get mf' k = manifest_Get mf k)"
proof -
  obtain mf' fs' c' esss' where c: "compact_level env config l fid (mf, fs, c) = Some (mf', fs', c')"
    "manifest_ok env fs' mf' esss'" "map_of (levels_seq 0 esss') = map_of (levels_seq 0 esss)"
    by (rule compact_level_ok [OF assms])
  then have "manifest_Get mf' k = manifest_Get mf k" for k
    using manifest_Get_ok [OF c(2)] manifest_Get_ok [OF assms(1)] by metis
  then show ?thesis using c by blast
qed

text \<open>A manifest with two overlapping tables in level 0.\<close>

abbreviation (input) example_esss :: "entry list list list" where
  "example_esss \<equiv> [[[(''b'', ''0'')], [(''a'', ''1''), (''b'', ''2'')]]]"

lemma example_small: "es \<noteq> [] \<Longrightarrow> length es \<le> 3 \<Longrightarrow> set es \<subseteq> {(''b'', ''0''), (''a'', ''1''), (''b'', ''2'')} \<Longrightarrow>
  sst_bound example_env es < max_file"
proof -
  assume ne: "es \<noteq> []" and a: "length es \<le> 3" "set es \<subseteq> {(''b'', ''0''), (''a'', ''1''), (''b'', ''2'')}"
  have "length k + length v = 2" if "(k, v) \<in> set es" for k v using that a(2) by auto
  then have "(\<Sum>(k, v)\<leftarrow>es. length k + length v) = 2 * length es" by (induction es) auto
  moreover have "length (fst (hd es)) = 1" using ne a(2) by (cases es) auto
  moreover have "bloom_size example_env (length es) \<le> 152 + 8 * ((22 * 3 + 1) div 64 + 1)"
    using div_le_mono [of "22 * length es + 1" "22 * 3 + 1" 64] a(1) by (simp add: bloom_size_def example_env_def)
  ultimately show ?thesis using a(1) by (auto simp: sst_bound_def length_entry_bytes)
qed

lemma example_manifest:
  obtains fs mf where "manifest_ok example_env fs mf example_esss" "manifest_ids mf = {1, 2}" "mf_version mf = 3"
    "length (mf_levels mf) = 1"
proof -
  let ?es = "[(''b'', ''0'')]" and ?es' = "[(''a'', ''1''), (''b'', ''2'')]"
  have small: "sst_bound example_env ?es < max_file" "sst_bound example_env ?es' < max_file"
    by (rule example_small; simp)+
  obtain x c where x: "sst_id x = 1" "table_ok example_env (Map.empty(1 \<mapsto> sst_data x)) x ?es"
    using new_table_ok [OF _ _ small(1) example_table(4), of 1 Map.empty 0] by (auto simp: sorted_keys_def)
  obtain y where y: "sst_id y = 2" "table_ok example_env (Map.empty(1 \<mapsto> sst_data x, 2 \<mapsto> sst_data y)) y ?es'"
    using new_table_ok [OF _ _ small(2) example_table(4), of 2 "Map.empty(1 \<mapsto> sst_data x)" 0]
    by (auto simp: sorted_keys_def)
  let ?mf = "\<lparr>mf_version = 3, mf_levels = [\<lparr>lv_level = 0, lv_ssts = [x, y]\<rparr>], mf_max_sst_id = 2\<rparr>"
  have "table_ok example_env (Map.empty(1 \<mapsto> sst_data x, 2 \<mapsto> sst_data y)) x ?es"
    using x table_ok_other [OF x(2), of 2] by simp
  then have "manifest_ok example_env (Map.empty(1 \<mapsto> sst_data x, 2 \<mapsto> sst_data y)) ?mf example_esss"
    using y by (simp add: manifest_ok_def level_ok_def)
  then show thesis using that x y by (simp add: manifest_ids_def)
qed

lemma example_fits: "fits example_env (set (concat (concat example_esss)))"
  unfolding fits_def
proof (intro allI impI)
  fix xs :: "entry list"
  assume ne: "xs \<noteq> []" and a: "sorted_keys xs" "set xs \<subseteq> set (concat (concat example_esss))"
  have "distinct xs" using sorted_keys_distinct [OF a(1)] by (simp add: distinct_map)
  then have "length xs = card (set xs)" by (rule distinct_card [symmetric])
  also have "\<dots> \<le> card (set (concat (concat example_esss)))" using a(2) by (intro card_mono) auto
  also have "\<dots> \<le> 3" by (simp add: card_insert_if)
  finally show "sst_bound example_env xs < max_file" using ne a(2) by (intro example_small) auto
qed

theorem compaction_keeps_lookups_witness:
  "\<exists>mf fs mf' w. manifest_Get mf ''b'' = Some (Some ''2'') \<and>
     compact_level example_env example_lz4 0 5 (mf, fs, 9) = Some (mf', w) \<and> manifest_Get mf' ''b'' = Some (Some ''2'')"
proof -
  obtain fs mf where m: "manifest_ok example_env fs mf example_esss" "manifest_ids mf = {1, 2}"
    using example_manifest .
  have "manifest_Get mf ''b'' = Some (Some ''2'')" using manifest_Get_ok [OF m(1)] by (simp add: level_seq_def)
  moreover have "(5::int) \<notin> manifest_ids mf" "[] \<notin> fst ` set (concat (concat example_esss))" using m(2) by auto
  ultimately show ?thesis
    using compaction_keeps_lookups [OF m(1) _ _ _ _ example_fits example_table(4), of 0 5 9] by fastforce
qed

text \<open>
  C10: Saving a manifest whose tables are in their files and opening the directory again yields a manifest with
  the same tables in the same levels: its lookups agree with the old one, and the largest id it finds
  is at least every id in use, so ids are not used twice.
\<close>
theorem manifest_file_roundtrip:
  assumes "manifest_ok env fs mf esss" "ids_ok B (manifest_ids mf)"
    and "mf_version mf < size_max" "length (mf_levels mf) < size_max"
  shows "\<exists>data mf'. manifest_Save mf file = Some data \<and> manifest_open env fs (Some data) = Some mf' \<and>
    manifest_ok env fs mf' esss \<and> (\<forall>k. manifest_Get mf' k = manifest_Get mf k) \<and>
    mf_version mf' = mf_version mf \<and> manifest_ids mf' = manifest_ids mf \<and>
    (\<forall>fid \<in> manifest_ids mf'. fid \<le> int (mf_max_sst_id mf'))"
proof -
  obtain data mf' where d: "manifest_Save mf file = Some data" "manifest_open env fs (Some data) = Some mf'"
    "manifest_ok env fs mf' esss" "manifest_ids mf' = manifest_ids mf" "mf_version mf' = mf_version mf"
    "\<forall>fid \<in> manifest_ids mf. fid \<le> int (mf_max_sst_id mf')"
    by (rule manifest_open_Save [OF assms])
  then have "manifest_Get mf' k = manifest_Get mf k" for k
    using manifest_Get_ok [OF d(3)] manifest_Get_ok [OF assms(1)] by metis
  then show ?thesis using d by auto
qed

theorem manifest_file_roundtrip_witness:
  "\<exists>mf fs data mf'. manifest_Get mf ''a'' = Some (Some ''1'') \<and> manifest_Save mf None = Some data \<and>
     manifest_open example_env fs (Some data) = Some mf' \<and> manifest_Get mf' ''a'' = Some (Some ''1'')"
proof -
  obtain fs mf where m: "manifest_ok example_env fs mf example_esss" "manifest_ids mf = {1, 2}" "mf_version mf = 3"
    "length (mf_levels mf) = 1"
    using example_manifest .
  have "manifest_Get mf ''a'' = Some (Some ''1'')" using manifest_Get_ok [OF m(1)] by (simp add: level_seq_def)
  moreover have "ids_ok 2 (manifest_ids mf)" using m(2) by (simp add: ids_ok_def)
  ultimately show ?thesis
    using manifest_file_roundtrip [OF m(1), of 2 None] m(3,4) by fastforce
qed

end
