(* ===== verification/Codec.thy ===== *)
theory Codec
  imports Prelude
begin

text \<open>
  The text codec of \<^verbatim>\<open>src/mokv/utils/codec.hpp\<close>: escaping of payload fields and of key parts,
  splitting, integer parsing by \<^verbatim>\<open>std::from_chars\<close>, and joining key parts with colons.  The
  decimal printing of an integer by an output stream, which the callers of the codec use, is
  \<open>show_int\<close>.  The lemmas show that unescaping inverts both escapes, that escaped text holds no
  delimiter, that printing and parsing integers are inverse within the range of the type, and
  that a joined key determines its parts, even up to prefixes.
\<close>

abbreviation BS :: char where "BS \<equiv> CHR 0x5C"
abbreviation NL :: char where "NL \<equiv> CHR 0x0A"
abbreviation TAB :: char where "TAB \<equiv> CHR 0x09"

fun Escape :: "string \<Rightarrow> string" where
  "Escape [] = []"
| "Escape (ch # raw) =
     (if ch = BS then [BS, BS]
      else if ch = NL then [BS, CHR ''n'']
      else if ch = TAB then [BS, CHR ''t'']
      else [ch]) @ Escape raw"

fun EscapeKeyPart :: "string \<Rightarrow> string" where
  "EscapeKeyPart [] = []"
| "EscapeKeyPart (ch # raw) =
     (if ch = BS then [BS, BS]
      else if ch = NL then [BS, CHR ''n'']
      else if ch = TAB then [BS, CHR ''t'']
      else if ch = CHR '':'' then [BS, CHR '':'']
      else [ch]) @ EscapeKeyPart raw"

text \<open>The loop of \<^verbatim>\<open>Unescape\<close> with its flag \<^verbatim>\<open>escaped\<close>; a trailing backslash is kept.\<close>

fun unescape_loop :: "bool \<Rightarrow> string \<Rightarrow> string" where
  "unescape_loop escaped [] = (if escaped then [BS] else [])"
| "unescape_loop False (ch # raw) =
     (if ch = BS then unescape_loop True raw else ch # unescape_loop False raw)"
| "unescape_loop True (ch # raw) =
     (if ch = CHR ''n'' then NL else if ch = CHR ''t'' then TAB else ch) # unescape_loop False raw"

definition Unescape :: "string \<Rightarrow> string" where
  "Unescape raw = unescape_loop False raw"

text \<open>One token up to the next delimiter, then the rest after it.\<close>

function Split :: "string \<Rightarrow> char \<Rightarrow> string list" where
  "Split raw delimiter =
     (case dropWhile (\<lambda>c. c \<noteq> delimiter) raw of
        [] \<Rightarrow> [raw]
      | _ # rest \<Rightarrow> takeWhile (\<lambda>c. c \<noteq> delimiter) raw # Split rest delimiter)"
  by pat_completeness auto
termination
  by (relation "measure (\<lambda>(raw, d). length raw)")
     (auto dest: arg_cong [where f = length] simp: Suc_le_eq [symmetric],
      metis Suc_le_lessD length_Cons length_dropWhile_le)

declare Split.simps [simp del]

definition is_digit :: "char \<Rightarrow> bool" where
  "is_digit c = (CHR ''0'' \<le> c \<and> c \<le> CHR ''9'')"

definition digit_val :: "char \<Rightarrow> nat" where
  "digit_val c = of_char c - 48"

definition digits_val :: "string \<Rightarrow> nat" where
  "digits_val ds = foldl (\<lambda>acc c. acc * 10 + digit_val c) 0 ds"

text \<open>
  \<^verbatim>\<open>std::from_chars\<close> in base 10 on the whole range: an optional minus sign for signed types only,
  at least one digit, the value within the type's range, and, as \<^verbatim>\<open>ParseInteger\<close> asks, nothing
  after the digits.
\<close>

definition ParseInteger :: "bool \<Rightarrow> int \<Rightarrow> int \<Rightarrow> string \<Rightarrow> int option" where
  "ParseInteger is_signed lo hi raw =
     (let neg = (is_signed \<and> raw \<noteq> [] \<and> hd raw = CHR ''-'');
          ds = (if neg then tl raw else raw);
          value = (if neg then - int (digits_val ds) else int (digits_val ds))
      in if ds = [] \<or> \<not> list_all is_digit ds then None
         else if value < lo \<or> hi < value then None
         else Some value)"

abbreviation int64_min :: int where "int64_min \<equiv> - (2 ^ 63)"
abbreviation int64_max :: int where "int64_max \<equiv> 2 ^ 63 - 1"
abbreviation uint32_max :: int where "uint32_max \<equiv> 2 ^ 32 - 1"

definition ParseInt64 :: "string \<Rightarrow> int option" where
  "ParseInt64 raw = ParseInteger True int64_min int64_max raw"

definition ParseUInt32 :: "string \<Rightarrow> int option" where
  "ParseUInt32 raw = ParseInteger False 0 uint32_max raw"

definition int64 :: "int \<Rightarrow> bool" where
  "int64 x = (int64_min \<le> x \<and> x \<le> int64_max)"

definition uint32 :: "int \<Rightarrow> bool" where
  "uint32 x = (0 \<le> x \<and> x \<le> uint32_max)"

fun join_loop :: "bool \<Rightarrow> string list \<Rightarrow> string" where
  "join_loop first [] = []"
| "join_loop first (part # parts) =
     (if first then [] else '':'') @ EscapeKeyPart part @ join_loop False parts"

definition JoinKeyParts :: "string list \<Rightarrow> string" where
  "JoinKeyParts parts = join_loop True parts"

text \<open>What \<^verbatim>\<open>operator<<\<close> prints for an integer.\<close>

fun show_nat :: "nat \<Rightarrow> string" where
  "show_nat n = (if n < 10 then [char_of (48 + n)] else show_nat (n div 10) @ [char_of (48 + n mod 10)])"

declare show_nat.simps [simp del]

definition show_int :: "int \<Rightarrow> string" where
  "show_int i = (if i < 0 then CHR ''-'' # show_nat (nat (- i)) else show_nat (nat i))"

subsection \<open>Escaping and unescaping\<close>

lemma unescape_loop_Escape: "unescape_loop False (Escape raw @ rest) = raw @ unescape_loop False rest"
  by (induction raw) auto

lemma unescape_loop_EscapeKeyPart:
  "unescape_loop False (EscapeKeyPart raw @ rest) = raw @ unescape_loop False rest"
  by (induction raw) auto

lemma Unescape_Escape [simp]: "Unescape (Escape raw) = raw"
  using unescape_loop_Escape [of raw "[]"] by (simp add: Unescape_def)

lemma Unescape_EscapeKeyPart [simp]: "Unescape (EscapeKeyPart raw) = raw"
  using unescape_loop_EscapeKeyPart [of raw "[]"] by (simp add: Unescape_def)

lemma Escape_no_delims [simp]: "NL \<notin> set (Escape raw)" "TAB \<notin> set (Escape raw)"
  by (induction raw) auto

lemma EscapeKeyPart_no_delims: "NL \<notin> set (EscapeKeyPart raw)" "TAB \<notin> set (EscapeKeyPart raw)"
  by (induction raw) auto

lemma Escape_eq_Nil [simp]: "Escape raw = [] \<longleftrightarrow> raw = []"
  by (cases raw) auto

subsection \<open>Splitting\<close>

lemma Split_no_delim: "d \<notin> set raw \<Longrightarrow> Split raw d = [raw]"
proof -
  assume "d \<notin> set raw"
  then have *: "dropWhile (\<lambda>c. c \<noteq> d) raw = []" by auto
  show ?thesis by (subst Split.simps) (simp only: * list.case)
qed

lemma dropWhile_neq_notin: "d \<notin> set raw \<Longrightarrow> dropWhile (\<lambda>c. c \<noteq> d) (raw @ d # rest) = d # rest"
  by (induction raw) auto

lemma takeWhile_neq_notin: "d \<notin> set raw \<Longrightarrow> takeWhile (\<lambda>c. c \<noteq> d) (raw @ d # rest) = raw"
  by (induction raw) auto

lemma Split_delim: "d \<notin> set raw \<Longrightarrow> Split (raw @ d # rest) d = raw # Split rest d"
  by (subst Split.simps) (simp add: dropWhile_neq_notin takeWhile_neq_notin)

lemma Split_not_Nil [simp]: "Split raw d \<noteq> []"
  by (subst Split.simps) (auto split: list.splits)

subsection \<open>Printing and parsing integers\<close>

lemma of_char_digit: "(n::nat) < 10 \<Longrightarrow> of_char (char_of (48 + n) :: char) = 48 + n"
  by simp

lemma is_digit_char_of: "(n::nat) < 10 \<Longrightarrow> is_digit (char_of (48 + n))"
  by (auto simp: is_digit_def less_eq_char_def)

lemma digit_val_char_of: "(n::nat) < 10 \<Longrightarrow> digit_val (char_of (48 + n)) = n"
  by (simp add: digit_val_def)

lemma digits_val_append [simp]: "digits_val (ds @ [c]) = digits_val ds * 10 + digit_val c"
  by (simp add: digits_val_def)

lemma show_nat_correct:
  "show_nat n \<noteq> [] \<and> list_all is_digit (show_nat n) \<and> digits_val (show_nat n) = n"
proof (induction n rule: show_nat.induct)
  case (1 n)
  show ?case
  proof (cases "n < 10")
    case True
    then show ?thesis
      by (subst (1 2 3) show_nat.simps)
         (simp add: is_digit_char_of digits_val_def digit_val_char_of)
  next
    case False
    with 1 show ?thesis
      by (subst (1 2 3) show_nat.simps) (simp add: is_digit_char_of digit_val_char_of)
  qed
qed

lemmas show_nat_facts = show_nat_correct [THEN conjunct1]
  show_nat_correct [THEN conjunct2, THEN conjunct1]
  show_nat_correct [THEN conjunct2, THEN conjunct2]

lemma not_digit_delims [simp]:
  "\<not> is_digit NL" "\<not> is_digit TAB" "\<not> is_digit (CHR ''-'')" "\<not> is_digit (CHR '':'')"
  "\<not> is_digit BS"
  by (simp_all add: is_digit_def less_eq_char_def)

lemma hd_show_nat: "hd (show_nat n) \<noteq> CHR ''-''"
proof -
  have "is_digit (hd (show_nat n))"
    using show_nat_facts(1,2) [of n] by (cases "show_nat n") auto
  then show ?thesis by auto
qed

lemma show_int_no_delims [simp]: "NL \<notin> set (show_int i)" "TAB \<notin> set (show_int i)"
proof -
  have *: "c \<notin> set (show_nat n)" if "\<not> is_digit c" for c n
    using show_nat_facts(2) [of n] that by (auto simp: list_all_iff)
  show "NL \<notin> set (show_int i)" "TAB \<notin> set (show_int i)"
    using * [of NL] * [of TAB] by (auto simp: show_int_def)
qed

lemma ParseInteger_signed_show:
  assumes "lo \<le> i" "i \<le> hi"
  shows "ParseInteger True lo hi (show_int i) = Some i"
  using assms show_nat_facts [of "nat i"] show_nat_facts [of "nat (- i)"] hd_show_nat [of "nat i"]
  by (auto simp: ParseInteger_def show_int_def Let_def)

lemma ParseInteger_unsigned_show:
  assumes "0 \<le> i" "lo \<le> i" "i \<le> hi"
  shows "ParseInteger False lo hi (show_int i) = Some i"
  using assms show_nat_facts [of "nat i"]
  by (auto simp: ParseInteger_def show_int_def Let_def)

lemma ParseInt64_show [simp]: "int64 i \<Longrightarrow> ParseInt64 (show_int i) = Some i"
  unfolding ParseInt64_def int64_def by (rule ParseInteger_signed_show) auto

lemma ParseUInt32_show [simp]: "uint32 i \<Longrightarrow> ParseUInt32 (show_int i) = Some i"
  unfolding ParseUInt32_def uint32_def by (rule ParseInteger_unsigned_show) auto

lemma ParseInteger_range: "ParseInteger s lo hi raw = Some i \<Longrightarrow> lo \<le> i \<and> i \<le> hi"
  by (auto simp: ParseInteger_def Let_def split: if_splits)

lemma ParseInt64_range: "ParseInt64 raw = Some i \<Longrightarrow> int64 i"
  unfolding ParseInt64_def int64_def by (rule ParseInteger_range)

lemma ParseUInt32_range: "ParseUInt32 raw = Some i \<Longrightarrow> uint32 i"
  unfolding ParseUInt32_def uint32_def by (rule ParseInteger_range)

subsection \<open>Joined keys determine their parts\<close>

text \<open>
  The scanner that inverts \<^const>\<open>JoinKeyParts\<close>: it cuts at the colons that no backslash
  precedes.  It is a specification device; the program never parses a key.
\<close>

fun key_scan :: "string \<Rightarrow> string \<Rightarrow> string list" where
  "key_scan acc [] = [acc]"
| "key_scan acc (c # cs) =
     (if c = BS then (case cs of [] \<Rightarrow> [acc @ [BS]] | d # ds \<Rightarrow> key_scan (acc @ [BS, d]) ds)
      else if c = CHR '':'' then acc # key_scan [] cs
      else key_scan (acc @ [c]) cs)"

lemma key_scan_EscapeKeyPart: "key_scan acc (EscapeKeyPart p @ rest) = key_scan (acc @ EscapeKeyPart p) rest"
  by (induction p arbitrary: acc) auto

lemma key_scan_join:
  "key_scan acc (join_loop False ps) = acc # map EscapeKeyPart ps"
  by (induction ps arbitrary: acc) (auto simp: key_scan_EscapeKeyPart)

lemma key_scan_JoinKeyParts: "ps \<noteq> [] \<Longrightarrow> key_scan [] (JoinKeyParts ps) = map EscapeKeyPart ps"
  by (cases ps) (auto simp: JoinKeyParts_def key_scan_EscapeKeyPart key_scan_join)

lemma inj_EscapeKeyPart: "inj EscapeKeyPart"
  by (metis Unescape_EscapeKeyPart injI)

lemma EscapeKeyPart_prefix_iff: "prefix (EscapeKeyPart x) (EscapeKeyPart y) \<longleftrightarrow> prefix x y"
  by (induction x y rule: list_induct2') (auto split: if_splits)

lemma join_loop_prefix_part:
  "prefix (EscapeKeyPart x) (EscapeKeyPart y @ join_loop False qs) \<longleftrightarrow> prefix x y"
proof (induction x y rule: list_induct2')
  case (2 x xs)
  then show ?case by (cases qs) (auto split: if_splits)
qed (auto split: if_splits)

lemma join_loop_prefix_sep:
  "prefix (EscapeKeyPart x @ CHR '':'' # s) (EscapeKeyPart y @ join_loop False qs) \<longleftrightarrow>
     x = y \<and> prefix (CHR '':'' # s) (join_loop False qs)"
proof (induction x y rule: list_induct2')
  case (2 x xs)
  then show ?case by (cases qs) (auto split: if_splits)
qed (auto split: if_splits)

fun parts_prefix :: "string list \<Rightarrow> string list \<Rightarrow> bool" where
  "parts_prefix [] qs = True"
| "parts_prefix [p] (q # qs) = prefix p q"
| "parts_prefix (p # ps) (q # qs) = (p = q \<and> parts_prefix ps qs)"
| "parts_prefix (p # ps) [] = False"

lemma join_loop_prefix:
  "ps \<noteq> [] \<Longrightarrow> prefix (join_loop False ps) (join_loop False qs) \<longleftrightarrow> parts_prefix ps qs"
proof (induction ps qs rule: parts_prefix.induct)
  case (2 p q qs)
  then show ?case by (simp add: join_loop_prefix_part)
next
  case (3 p p' ps q qs)
  then show ?case by (simp add: join_loop_prefix_sep [of p _ q qs, simplified])
qed auto

lemma JoinKeyParts_prefix_iff:
  "ps \<noteq> [] \<Longrightarrow> qs \<noteq> [] \<Longrightarrow> prefix (JoinKeyParts ps) (JoinKeyParts qs) \<longleftrightarrow> parts_prefix ps qs"
  using join_loop_prefix [of ps qs] by (cases ps; cases qs) (auto simp: JoinKeyParts_def)

lemma JoinKeyParts_inj:
  "ps \<noteq> [] \<Longrightarrow> qs \<noteq> [] \<Longrightarrow> JoinKeyParts ps = JoinKeyParts qs \<longleftrightarrow> ps = qs"
  using key_scan_JoinKeyParts [of ps] key_scan_JoinKeyParts [of qs]
  by (metis inj_EscapeKeyPart inj_map_eq_map)

lemma JoinKeyParts_snoc:
  "ps \<noteq> [] \<Longrightarrow> JoinKeyParts ps @ CHR '':'' # EscapeKeyPart q = JoinKeyParts (ps @ [q])"
proof -
  have *: "join_loop False ps @ CHR '':'' # EscapeKeyPart q = join_loop False (ps @ [q])" for ps
    by (induction ps) auto
  assume "ps \<noteq> []"
  then show ?thesis by (cases ps) (auto simp: JoinKeyParts_def * [simplified])
qed

subsection \<open>Lines\<close>

text \<open>The lines that repeated \<^verbatim>\<open>std::getline\<close> reads: the empty rest after a final newline is no line.\<close>

definition getlines :: "string \<Rightarrow> string list" where
  "getlines payload = (let ls = Split payload NL in if last ls = [] then butlast ls else ls)"

text \<open>Text made of lines without newlines is read back line by line.\<close>

definition unlines :: "string list \<Rightarrow> string" where
  "unlines ls = concat (map (\<lambda>l. l @ [NL]) ls)"

lemma Split_unlines: "\<forall>l \<in> set ls. NL \<notin> set l \<Longrightarrow> Split (unlines ls) NL = ls @ [[]]"
  by (induction ls) (simp_all add: unlines_def Split_no_delim Split_delim)

lemma getlines_unlines: "\<forall>l \<in> set ls. NL \<notin> set l \<Longrightarrow> getlines (unlines ls) = ls"
  by (simp add: getlines_def Split_unlines)

end
