(* ===== verification/LLM_Codec.thy ===== *)
theory LLM_Codec
  imports Codec "HOL-Library.Monad_Syntax"
begin

text \<open>
  The records of \<^verbatim>\<open>src/mokv/llm/store.hpp\<close> and their text format: one line per field, the name, a tab and the
  escaped value.  Each parser is a loop over the lines (\<open>parse_fields\<close>) that applies the branch of
  the line's name; a number that does not parse ends it with \<^verbatim>\<open>nullopt\<close>.  Integers of 64 and 32 bits are
  integers with the ranges \<open>int64\<close> and \<open>uint32\<close>.
\<close>

record PromptCacheEntry =
  pc_tenant :: string
  pc_app_id :: string
  pc_model :: string
  pc_prompt_hash :: string
  pc_response :: string
  pc_cached_at_ms :: int
  pc_input_tokens :: int
  pc_output_tokens :: int

record ConversationTurn =
  tn_role :: string
  tn_content :: string
  tn_created_at_ms :: int

record ConversationSession =
  cs_tenant :: string
  cs_app_id :: string
  cs_session_id :: string
  cs_model :: string
  cs_turns :: "ConversationTurn list"

record ConversationDescriptor =
  ds_tenant :: string
  ds_app_id :: string
  ds_session_id :: string
  ds_model :: string

record ConversationSummary =
  sm_tenant :: string
  sm_app_id :: string
  sm_session_id :: string
  sm_model :: string
  sm_turn_count :: int
  sm_updated_at_ms :: int

record RetrievalChunk =
  rc_tenant :: string
  rc_knowledge_base :: string
  rc_document_id :: string
  rc_chunk_id :: string
  rc_content :: string
  rc_embedding_ref :: string
  rc_metadata :: "(string \<times> string) list"

record RuntimeConfigRecord =
  rr_tenant :: string
  rr_app_id :: string
  rr_profile :: string
  rr_payload :: string
  rr_updated_at_ms :: int

section \<open>Helpers\<close>

definition EndsWith :: "string \<Rightarrow> string \<Rightarrow> bool" where
  "EndsWith val sfx =
     (if length val < length sfx then False else drop (length val - length sfx) val = sfx)"

definition FormatSequence :: "nat \<Rightarrow> string" where
  "FormatSequence n = replicate (10 - length (show_nat n)) (CHR ''0'') @ show_nat n"

definition LastTurnTimestamp :: "ConversationTurn list \<Rightarrow> int" where
  "LastTurnTimestamp turns = (if turns = [] then 0 else tn_created_at_ms (last turns))"

definition field :: "string \<Rightarrow> string \<Rightarrow> string" where
  "field name val = name @ TAB # val"

fun parse_fields :: "(string list \<Rightarrow> 'r \<Rightarrow> 'r option) \<Rightarrow> string list \<Rightarrow> 'r \<Rightarrow> 'r option" where
  "parse_fields step [] r = Some r"
| "parse_fields step (line # lines) r = do { r \<leftarrow> step (Split line TAB) r; parse_fields step lines r }"

section \<open>Formats\<close>

definition SerializePromptCache :: "PromptCacheEntry \<Rightarrow> string" where
  "SerializePromptCache e = unlines
     [field ''tenant'' (Escape (pc_tenant e)), field ''app_id'' (Escape (pc_app_id e)),
      field ''model'' (Escape (pc_model e)), field ''prompt_hash'' (Escape (pc_prompt_hash e)),
      field ''response'' (Escape (pc_response e)), field ''cached_at_ms'' (show_int (pc_cached_at_ms e)),
      field ''input_tokens'' (show_int (pc_input_tokens e)), field ''output_tokens'' (show_int (pc_output_tokens e))]"

fun prompt_step :: "string list \<Rightarrow> PromptCacheEntry \<Rightarrow> PromptCacheEntry option" where
  "prompt_step [name, val] e =
     (if name = ''tenant'' then Some (e\<lparr>pc_tenant := Unescape val\<rparr>)
      else if name = ''app_id'' then Some (e\<lparr>pc_app_id := Unescape val\<rparr>)
      else if name = ''model'' then Some (e\<lparr>pc_model := Unescape val\<rparr>)
      else if name = ''prompt_hash'' then Some (e\<lparr>pc_prompt_hash := Unescape val\<rparr>)
      else if name = ''response'' then Some (e\<lparr>pc_response := Unescape val\<rparr>)
      else if name = ''cached_at_ms'' then map_option (\<lambda>i. e\<lparr>pc_cached_at_ms := i\<rparr>) (ParseInt64 val)
      else if name = ''input_tokens'' then map_option (\<lambda>i. e\<lparr>pc_input_tokens := i\<rparr>) (ParseUInt32 val)
      else if name = ''output_tokens'' then map_option (\<lambda>i. e\<lparr>pc_output_tokens := i\<rparr>) (ParseUInt32 val)
      else Some e)"
| "prompt_step parts e = Some e"

definition ParsePromptCache :: "string \<Rightarrow> PromptCacheEntry option" where
  "ParsePromptCache payload =
     do { e \<leftarrow> parse_fields prompt_step (getlines payload)
            \<lparr>pc_tenant = [], pc_app_id = [], pc_model = [], pc_prompt_hash = [], pc_response = [],
             pc_cached_at_ms = 0, pc_input_tokens = 0, pc_output_tokens = 0\<rparr>;
          if pc_model e = [] \<or> pc_prompt_hash e = [] then None else Some e }"

definition SerializeConversationTurn :: "ConversationTurn \<Rightarrow> string" where
  "SerializeConversationTurn t = unlines
     [field ''role'' (Escape (tn_role t)), field ''content'' (Escape (tn_content t)),
      field ''created_at_ms'' (show_int (tn_created_at_ms t))]"

fun turn_step :: "string list \<Rightarrow> ConversationTurn \<Rightarrow> ConversationTurn option" where
  "turn_step [name, val] t =
     (if name = ''role'' then Some (t\<lparr>tn_role := Unescape val\<rparr>)
      else if name = ''content'' then Some (t\<lparr>tn_content := Unescape val\<rparr>)
      else if name = ''created_at_ms'' then map_option (\<lambda>i. t\<lparr>tn_created_at_ms := i\<rparr>) (ParseInt64 val)
      else Some t)"
| "turn_step parts t = Some t"

definition ParseConversationTurn :: "string \<Rightarrow> ConversationTurn option" where
  "ParseConversationTurn payload =
     do { t \<leftarrow> parse_fields turn_step (getlines payload) \<lparr>tn_role = [], tn_content = [], tn_created_at_ms = 0\<rparr>;
          if tn_role t = [] then None else Some t }"

definition SerializeConversationSummary :: "ConversationSummary \<Rightarrow> string" where
  "SerializeConversationSummary m = unlines
     [field ''tenant'' (Escape (sm_tenant m)), field ''app_id'' (Escape (sm_app_id m)),
      field ''session_id'' (Escape (sm_session_id m)), field ''model'' (Escape (sm_model m)),
      field ''turn_count'' (show_int (sm_turn_count m)), field ''updated_at_ms'' (show_int (sm_updated_at_ms m))]"

fun summary_step :: "string list \<Rightarrow> ConversationSummary \<Rightarrow> ConversationSummary option" where
  "summary_step [name, val] m =
     (if name = ''tenant'' then Some (m\<lparr>sm_tenant := Unescape val\<rparr>)
      else if name = ''app_id'' then Some (m\<lparr>sm_app_id := Unescape val\<rparr>)
      else if name = ''session_id'' then Some (m\<lparr>sm_session_id := Unescape val\<rparr>)
      else if name = ''model'' then Some (m\<lparr>sm_model := Unescape val\<rparr>)
      else if name = ''turn_count'' then map_option (\<lambda>i. m\<lparr>sm_turn_count := i\<rparr>) (ParseUInt32 val)
      else if name = ''updated_at_ms'' then map_option (\<lambda>i. m\<lparr>sm_updated_at_ms := i\<rparr>) (ParseInt64 val)
      else Some m)"
| "summary_step parts m = Some m"

definition ParseConversationSummary :: "string \<Rightarrow> ConversationSummary option" where
  "ParseConversationSummary payload =
     do { m \<leftarrow> parse_fields summary_step (getlines payload)
            \<lparr>sm_tenant = [], sm_app_id = [], sm_session_id = [], sm_model = [], sm_turn_count = 0, sm_updated_at_ms = 0\<rparr>;
          if sm_session_id m = [] then None else Some m }"

definition turn_line :: "ConversationTurn \<Rightarrow> string" where
  "turn_line t = field ''turn'' (Escape (tn_role t) @ TAB # show_int (tn_created_at_ms t) @ TAB # Escape (tn_content t))"

definition SerializeLegacyConversation :: "ConversationSession \<Rightarrow> string" where
  "SerializeLegacyConversation s = unlines
     ([field ''tenant'' (Escape (cs_tenant s)), field ''app_id'' (Escape (cs_app_id s)),
       field ''session_id'' (Escape (cs_session_id s)), field ''model'' (Escape (cs_model s))] @ map turn_line (cs_turns s))"

fun legacy_step :: "string list \<Rightarrow> ConversationSession \<Rightarrow> ConversationSession option" where
  "legacy_step [name, val] s =
     (if name = ''tenant'' then Some (s\<lparr>cs_tenant := Unescape val\<rparr>)
      else if name = ''app_id'' then Some (s\<lparr>cs_app_id := Unescape val\<rparr>)
      else if name = ''session_id'' then Some (s\<lparr>cs_session_id := Unescape val\<rparr>)
      else if name = ''model'' then Some (s\<lparr>cs_model := Unescape val\<rparr>)
      else Some s)"
| "legacy_step [name, role, created, content] s =
     (if name = ''turn''
      then map_option (\<lambda>i. s\<lparr>cs_turns := cs_turns s @
             [\<lparr>tn_role = Unescape role, tn_content = Unescape content, tn_created_at_ms = i\<rparr>]\<rparr>) (ParseInt64 created)
      else Some s)"
| "legacy_step parts s = Some s"

definition ParseLegacyConversation :: "string \<Rightarrow> ConversationSession option" where
  "ParseLegacyConversation payload =
     do { s \<leftarrow> parse_fields legacy_step (getlines payload)
            \<lparr>cs_tenant = [], cs_app_id = [], cs_session_id = [], cs_model = [], cs_turns = []\<rparr>;
          if cs_session_id s = [] then None else Some s }"

definition meta_line :: "string \<times> string \<Rightarrow> string" where
  "meta_line kv = field ''meta'' (Escape (fst kv) @ TAB # Escape (snd kv))"

definition SerializeRetrievalChunk :: "RetrievalChunk \<Rightarrow> string" where
  "SerializeRetrievalChunk c = unlines
     ([field ''tenant'' (Escape (rc_tenant c)), field ''knowledge_base'' (Escape (rc_knowledge_base c)),
       field ''document_id'' (Escape (rc_document_id c)), field ''chunk_id'' (Escape (rc_chunk_id c)),
       field ''content'' (Escape (rc_content c)), field ''embedding_ref'' (Escape (rc_embedding_ref c))] @
      map meta_line (rc_metadata c))"

fun chunk_step :: "string list \<Rightarrow> RetrievalChunk \<Rightarrow> RetrievalChunk option" where
  "chunk_step [name, val] c =
     Some (if name = ''tenant'' then c\<lparr>rc_tenant := Unescape val\<rparr>
           else if name = ''knowledge_base'' then c\<lparr>rc_knowledge_base := Unescape val\<rparr>
           else if name = ''document_id'' then c\<lparr>rc_document_id := Unescape val\<rparr>
           else if name = ''chunk_id'' then c\<lparr>rc_chunk_id := Unescape val\<rparr>
           else if name = ''content'' then c\<lparr>rc_content := Unescape val\<rparr>
           else if name = ''embedding_ref'' then c\<lparr>rc_embedding_ref := Unescape val\<rparr>
           else c)"
| "chunk_step [name, key, val] c =
     Some (if name = ''meta'' then c\<lparr>rc_metadata := rc_metadata c @ [(Unescape key, Unescape val)]\<rparr> else c)"
| "chunk_step parts c = Some c"

definition ParseRetrievalChunk :: "string \<Rightarrow> RetrievalChunk option" where
  "ParseRetrievalChunk payload =
     do { c \<leftarrow> parse_fields chunk_step (getlines payload)
            \<lparr>rc_tenant = [], rc_knowledge_base = [], rc_document_id = [], rc_chunk_id = [], rc_content = [],
             rc_embedding_ref = [], rc_metadata = []\<rparr>;
          if rc_document_id c = [] \<or> rc_chunk_id c = [] then None else Some c }"

definition SerializeRuntimeConfig :: "RuntimeConfigRecord \<Rightarrow> string" where
  "SerializeRuntimeConfig r = unlines
     [field ''tenant'' (Escape (rr_tenant r)), field ''app_id'' (Escape (rr_app_id r)),
      field ''profile'' (Escape (rr_profile r)), field ''updated_at_ms'' (show_int (rr_updated_at_ms r)),
      field ''payload'' (Escape (rr_payload r))]"

fun runtime_step :: "string list \<Rightarrow> RuntimeConfigRecord \<Rightarrow> RuntimeConfigRecord option" where
  "runtime_step [name, val] r =
     (if name = ''tenant'' then Some (r\<lparr>rr_tenant := Unescape val\<rparr>)
      else if name = ''app_id'' then Some (r\<lparr>rr_app_id := Unescape val\<rparr>)
      else if name = ''profile'' then Some (r\<lparr>rr_profile := Unescape val\<rparr>)
      else if name = ''updated_at_ms'' then map_option (\<lambda>i. r\<lparr>rr_updated_at_ms := i\<rparr>) (ParseInt64 val)
      else if name = ''payload'' then Some (r\<lparr>rr_payload := Unescape val\<rparr>)
      else Some r)"
| "runtime_step parts r = Some r"

definition ParseRuntimeConfig :: "string \<Rightarrow> RuntimeConfigRecord option" where
  "ParseRuntimeConfig payload =
     do { r \<leftarrow> parse_fields runtime_step (getlines payload)
            \<lparr>rr_tenant = [], rr_app_id = [], rr_profile = [], rr_payload = [], rr_updated_at_ms = 0\<rparr>;
          if rr_profile r = [] then None else Some r }"

section \<open>Round trips\<close>

text \<open>How the lines split into their parts.\<close>

lemma field_no_NL: "NL \<notin> set name \<Longrightarrow> NL \<notin> set val \<Longrightarrow> NL \<notin> set (field name val)"
  by (simp add: field_def)

lemma Split_field: "TAB \<notin> set name \<Longrightarrow> Split (field name val) TAB = name # Split val TAB"
  by (simp add: field_def Split_delim)

lemma Split_plain [simp]: "Split (Escape s) TAB = [Escape s]" "Split (show_int i) TAB = [show_int i]"
  by (simp_all add: Split_no_delim)

lemmas format_simps = Split_field Split_delim getlines_unlines field_no_NL

lemma ParsePromptCache_Serialize:
  assumes "int64 (pc_cached_at_ms e)" "uint32 (pc_input_tokens e)" "uint32 (pc_output_tokens e)"
  shows "ParsePromptCache (SerializePromptCache e) = (if pc_model e = [] \<or> pc_prompt_hash e = [] then None else Some e)"
  using assms by (simp add: ParsePromptCache_def SerializePromptCache_def format_simps)

lemma ParseConversationTurn_Serialize:
  assumes "int64 (tn_created_at_ms t)"
  shows "ParseConversationTurn (SerializeConversationTurn t) = (if tn_role t = [] then None else Some t)"
  using assms by (simp add: ParseConversationTurn_def SerializeConversationTurn_def format_simps)

lemma ParseConversationSummary_Serialize:
  assumes "uint32 (sm_turn_count m)" "int64 (sm_updated_at_ms m)"
  shows "ParseConversationSummary (SerializeConversationSummary m) = (if sm_session_id m = [] then None else Some m)"
  using assms by (simp add: ParseConversationSummary_def SerializeConversationSummary_def format_simps)

lemma ParseRuntimeConfig_Serialize:
  assumes "int64 (rr_updated_at_ms r)"
  shows "ParseRuntimeConfig (SerializeRuntimeConfig r) = (if rr_profile r = [] then None else Some r)"
  using assms by (simp add: ParseRuntimeConfig_def SerializeRuntimeConfig_def format_simps)

lemma parse_fields_append:
  "parse_fields step (ls @ ls') r = Option.bind (parse_fields step ls r) (parse_fields step ls')"
  by (induction ls arbitrary: r) (auto split: bind_splits)

lemma parse_turn_lines:
  assumes "\<forall>t \<in> set ts. int64 (tn_created_at_ms t)"
  shows "parse_fields legacy_step (map turn_line ts) s = Some (s\<lparr>cs_turns := cs_turns s @ ts\<rparr>)"
  using assms by (induction ts arbitrary: s) (simp_all add: turn_line_def format_simps)

lemma ParseLegacyConversation_Serialize:
  assumes "\<forall>t \<in> set (cs_turns s). int64 (tn_created_at_ms t)"
  shows "ParseLegacyConversation (SerializeLegacyConversation s) = (if cs_session_id s = [] then None else Some s)"
  using parse_turn_lines [OF assms]
  by (simp add: ParseLegacyConversation_def SerializeLegacyConversation_def format_simps turn_line_def)

lemma parse_meta_lines: "parse_fields chunk_step (map meta_line kvs) c = Some (c\<lparr>rc_metadata := rc_metadata c @ kvs\<rparr>)"
  by (induction kvs arbitrary: c) (simp_all add: meta_line_def format_simps)

lemma ParseRetrievalChunk_Serialize:
  "ParseRetrievalChunk (SerializeRetrievalChunk c) = (if rc_document_id c = [] \<or> rc_chunk_id c = [] then None else Some c)"
  by (simp add: ParseRetrievalChunk_def SerializeRetrievalChunk_def format_simps parse_meta_lines meta_line_def)

end
