(* ===== verification/LLM_Keys.thy ===== *)
theory LLM_Keys
  imports LLM_Codec
begin

text \<open>
  \<^verbatim>\<open>Keyspace\<close> of \<^verbatim>\<open>src/mokv/llm/store.hpp\<close>: the keys of the LLM records.  Each key is a join of parts, so keys of
  different records differ, and a prefix scan meets exactly the keys whose parts extend the prefix
  (\<open>parts_prefix\<close>: the last part of the prefix may be continued).
\<close>

definition AppendKeyPart :: "string \<Rightarrow> string \<Rightarrow> string" where
  "AppendKeyPart key part = key @ CHR '':'' # EscapeKeyPart part"

definition PromptCachePrefix :: "string \<Rightarrow> string \<Rightarrow> string \<Rightarrow> string" where
  "PromptCachePrefix tenant app_id model =
     (let key = JoinKeyParts [''llm'', ''prompt-cache'', tenant, app_id] in
      if model \<noteq> [] then AppendKeyPart key model else key)"

definition PromptCache_key :: "string \<Rightarrow> string \<Rightarrow> string \<Rightarrow> string \<Rightarrow> string" where
  "PromptCache_key tenant app_id model prompt_hash =
     AppendKeyPart (PromptCachePrefix tenant app_id model) prompt_hash"

definition ConversationPrefix :: "string \<Rightarrow> string \<Rightarrow> string" where
  "ConversationPrefix tenant app_id = JoinKeyParts [''llm'', ''conversation'', tenant, app_id]"

definition ConversationSessionPrefix :: "string \<Rightarrow> string \<Rightarrow> string \<Rightarrow> string" where
  "ConversationSessionPrefix tenant app_id session_id = AppendKeyPart (ConversationPrefix tenant app_id) session_id"

definition Conversation_key :: "string \<Rightarrow> string \<Rightarrow> string \<Rightarrow> string" where
  "Conversation_key tenant app_id session_id = ConversationSessionPrefix tenant app_id session_id"

definition ConversationMeta :: "string \<Rightarrow> string \<Rightarrow> string \<Rightarrow> string" where
  "ConversationMeta tenant app_id session_id =
     AppendKeyPart (ConversationSessionPrefix tenant app_id session_id) ''meta''"

definition ConversationTurnPrefix :: "string \<Rightarrow> string \<Rightarrow> string \<Rightarrow> string" where
  "ConversationTurnPrefix tenant app_id session_id =
     AppendKeyPart (ConversationSessionPrefix tenant app_id session_id) ''turn''"

definition ConversationTurn_key :: "string \<Rightarrow> string \<Rightarrow> string \<Rightarrow> nat \<Rightarrow> string" where
  "ConversationTurn_key tenant app_id session_id sequence =
     AppendKeyPart (ConversationTurnPrefix tenant app_id session_id) (FormatSequence sequence)"

definition RetrievalPrefix :: "string \<Rightarrow> string \<Rightarrow> string \<Rightarrow> string" where
  "RetrievalPrefix tenant knowledge_base document_id =
     (let key = JoinKeyParts [''llm'', ''retrieval'', tenant, knowledge_base] in
      if document_id \<noteq> [] then AppendKeyPart key document_id else key)"

definition Retrieval_key :: "string \<Rightarrow> string \<Rightarrow> string \<Rightarrow> string \<Rightarrow> string" where
  "Retrieval_key tenant knowledge_base document_id chunk_id =
     AppendKeyPart (RetrievalPrefix tenant knowledge_base document_id) chunk_id"

definition RuntimeConfigPrefix :: "string \<Rightarrow> string \<Rightarrow> string" where
  "RuntimeConfigPrefix tenant app_id = JoinKeyParts [''llm'', ''runtime-config'', tenant, app_id]"

definition RuntimeConfig_key :: "string \<Rightarrow> string \<Rightarrow> string \<Rightarrow> string" where
  "RuntimeConfig_key tenant app_id profile = AppendKeyPart (RuntimeConfigPrefix tenant app_id) profile"

section \<open>Keys as joins\<close>

lemma AppendKeyPart_join: "ps \<noteq> [] \<Longrightarrow> AppendKeyPart (JoinKeyParts ps) q = JoinKeyParts (ps @ [q])"
  by (simp add: AppendKeyPart_def JoinKeyParts_snoc)

lemma key_parts:
  "PromptCachePrefix t a m = JoinKeyParts ([''llm'', ''prompt-cache'', t, a] @ (if m = [] then [] else [m]))"
  "PromptCache_key t a m h = JoinKeyParts ([''llm'', ''prompt-cache'', t, a] @ (if m = [] then [] else [m]) @ [h])"
  "ConversationPrefix t a = JoinKeyParts [''llm'', ''conversation'', t, a]"
  "Conversation_key t a s = JoinKeyParts [''llm'', ''conversation'', t, a, s]"
  "ConversationMeta t a s = JoinKeyParts [''llm'', ''conversation'', t, a, s, ''meta'']"
  "ConversationTurnPrefix t a s = JoinKeyParts [''llm'', ''conversation'', t, a, s, ''turn'']"
  "ConversationTurn_key t a s i = JoinKeyParts [''llm'', ''conversation'', t, a, s, ''turn'', FormatSequence i]"
  "RetrievalPrefix t b d = JoinKeyParts ([''llm'', ''retrieval'', t, b] @ (if d = [] then [] else [d]))"
  "Retrieval_key t b d c = JoinKeyParts ([''llm'', ''retrieval'', t, b] @ (if d = [] then [] else [d]) @ [c])"
  "RuntimeConfigPrefix t a = JoinKeyParts [''llm'', ''runtime-config'', t, a]"
  "RuntimeConfig_key t a p = JoinKeyParts [''llm'', ''runtime-config'', t, a, p]"
  by (simp_all add: PromptCachePrefix_def PromptCache_key_def ConversationPrefix_def ConversationSessionPrefix_def
      Conversation_key_def ConversationMeta_def ConversationTurnPrefix_def ConversationTurn_key_def RetrievalPrefix_def
      Retrieval_key_def RuntimeConfigPrefix_def RuntimeConfig_key_def AppendKeyPart_join)

text \<open>Every key and prefix starts with \<^verbatim>\<open>llm:\<close>.\<close>

lemma JoinKeyParts_llm: "ps \<noteq> [] \<Longrightarrow> \<exists>rest. JoinKeyParts (''llm'' # ps) = ''llm:'' @ rest"
  by (cases ps) (auto simp: JoinKeyParts_def)

section \<open>Sequence numbers\<close>

lemma digits_val_replicate: "digits_val (replicate n (CHR ''0'') @ ds) = digits_val ds"
  by (induction n) (simp_all add: digits_val_def digit_val_def)

lemma digits_val_Cons: "digits_val (c # ds) = digit_val c * 10 ^ length ds + digits_val ds"
proof -
  have fold: "foldl (\<lambda>acc c. acc * 10 + digit_val c) x ds = x * 10 ^ length ds + foldl (\<lambda>acc c. acc * 10 + digit_val c) 0 ds" for x
  proof (induction ds rule: rev_induct)
    case (snoc d ds)
    then show ?case by (simp add: algebra_simps)
  qed simp
  show ?thesis using fold [of "digit_val c"] by (simp add: digits_val_def)
qed

lemma digits_val_less: "list_all is_digit ds \<Longrightarrow> digits_val ds < 10 ^ length ds"
proof (induction ds)
  case (Cons c ds)
  have "digit_val c \<le> 9" using Cons.prems by (auto simp: is_digit_def digit_val_def less_eq_char_def)
  then have "digit_val c * 10 ^ length ds \<le> 9 * 10 ^ length ds" by simp
  moreover have "digits_val ds < 10 ^ length ds" using Cons by simp
  moreover have "10 ^ length (c # ds) = 10 * (10 :: nat) ^ length ds" by simp
  ultimately show ?case unfolding digits_val_Cons by linarith
qed (simp add: digits_val_def)

lemma digits_lex:
  assumes "length xs = length ys" "list_all is_digit xs" "list_all is_digit ys" "digits_val xs < digits_val ys"
  shows "xs < ys"
  using assms
proof (induction xs ys rule: list_induct2)
  case (Cons x xs y ys)
  have b: "digits_val xs < 10 ^ length ys" "digits_val ys < 10 ^ length ys"
    using Cons.prems Cons.hyps digits_val_less [of xs] digits_val_less [of ys] by simp_all
  have d: "is_digit x" "is_digit y" using Cons.prems by simp_all
  have le: "digit_val x \<le> digit_val y"
  proof (rule ccontr)
    assume "\<not> digit_val x \<le> digit_val y"
    then have "(digit_val y + 1) * 10 ^ length ys \<le> digit_val x * 10 ^ length ys" by (intro mult_right_mono) simp_all
    then show False using b Cons.prems(3) Cons.hyps by (simp add: digits_val_Cons)
  qed
  have inj: "x = y" if "digit_val x = digit_val y" 
  proof -
    have "48 \<le> (of_char x :: nat)" "48 \<le> (of_char y :: nat)" using d by (simp_all add: is_digit_def less_eq_char_def)
    then have "(of_char x :: nat) = of_char y" using that eq_diff_iff [of 48 "of_char x" "of_char y"]
      unfolding digit_val_def by blast
    then show ?thesis by simp
  qed
  have lt: "x < y" if "digit_val x < digit_val y" using that d by (auto simp: is_digit_def digit_val_def less_char_def)
  show ?case
  proof (cases "digit_val x = digit_val y")
    case True
    then show ?thesis using Cons inj by (simp add: digits_val_Cons)
  next
    case False
    then show ?thesis using lt le by simp
  qed
qed (simp add: digits_val_def)

lemma length_show_nat: "n < 10 ^ k \<Longrightarrow> 0 < k \<Longrightarrow> length (show_nat n) \<le> k"
proof (induction k arbitrary: n)
  case (Suc k)
  show ?case
  proof (cases "n < 10")
    case False
    then have "0 < k" using Suc.prems(1) by (cases k) auto
    moreover have "n div 10 < 10 ^ k" using Suc.prems(1) by (simp add: less_mult_imp_div_less mult.commute)
    ultimately show ?thesis using Suc.IH [of "n div 10"] False by (subst show_nat.simps) simp
  qed (subst show_nat.simps, simp)
qed simp

lemma FormatSequence_facts:
  assumes "n < 10 ^ 10"
  shows "length (FormatSequence n) = 10" "list_all is_digit (FormatSequence n)" "digits_val (FormatSequence n) = n"
  using length_show_nat [OF assms] show_nat_facts [of n]
  by (simp_all add: FormatSequence_def digits_val_replicate list_all_iff set_replicate_conv_if is_digit_def less_eq_char_def)

text \<open>The padding makes the order of the keys that of the numbers.\<close>

lemma FormatSequence_mono: "m < n \<Longrightarrow> n < 10 ^ 10 \<Longrightarrow> FormatSequence m < FormatSequence n"
  using digits_lex FormatSequence_facts [of m] FormatSequence_facts [of n] by simp

end
