(* ===== verification/KV_Spec.thy ===== *)
theory KV_Spec
  imports Codec
begin

text \<open>
  The abstract class \<^verbatim>\<open>KVStore\<close> of \<^verbatim>\<open>src/mokv/kvstore.hpp\<close>: \<open>kv_vtable\<close> holds the virtual functions that the
  clients in \<^verbatim>\<open>src/mokv/llm/store.hpp\<close> call, and the locale \<open>kv_interface\<close> the contract they rely on.  A
  result \<open>None\<close> stands for a call that does not return a value (undefined behaviour below).
\<close>

record KVResult =
  res_success :: bool
  res_value :: string
  res_message :: string
  res_leader_id :: int

definition KVResult_OK :: KVResult where
  "KVResult_OK = \<lparr>res_success = True, res_value = [], res_message = ''OK'', res_leader_id = - 1\<rparr>"

definition KVResult_OK_value :: "string \<Rightarrow> KVResult" where
  "KVResult_OK_value v = \<lparr>res_success = True, res_value = v, res_message = ''OK'', res_leader_id = - 1\<rparr>"

definition KVResult_Fail :: "string \<Rightarrow> KVResult" where
  "KVResult_Fail message = \<lparr>res_success = False, res_value = [], res_message = message, res_leader_id = - 1\<rparr>"

definition KVResult_NotLeader :: "int \<Rightarrow> string \<Rightarrow> KVResult" where
  "KVResult_NotLeader leader message =
     \<lparr>res_success = False, res_value = [], res_message = message, res_leader_id = leader\<rparr>"

lemma KVResult_success [simp]:
  "res_success KVResult_OK" "res_success (KVResult_OK_value v)" "\<not> res_success (KVResult_Fail m)"
  "\<not> res_success (KVResult_NotLeader i m)"
  by (simp_all add: KVResult_OK_def KVResult_OK_value_def KVResult_Fail_def KVResult_NotLeader_def)

record 's kv_vtable =
  vt_Get :: "'s \<Rightarrow> string \<Rightarrow> string option option"
  vt_Put :: "string \<Rightarrow> string \<Rightarrow> 's \<Rightarrow> (KVResult \<times> 's) option"
  vt_Delete :: "string \<Rightarrow> 's \<Rightarrow> (KVResult \<times> 's) option"
  vt_ListKeysByPrefix :: "'s \<Rightarrow> string \<Rightarrow> string list"
  vt_ListEntriesByPrefix :: "'s \<Rightarrow> string \<Rightarrow> (string \<times> string) list option"
  vt_Batch :: "(string \<times> string) list \<Rightarrow> 's \<Rightarrow> (KVResult \<times> 's) option"
  vt_BatchDelete :: "string list \<Rightarrow> 's \<Rightarrow> (KVResult \<times> 's) option"

text \<open>The sorted keys of a map that start with a prefix, and their entries.\<close>

definition keys_under :: "string \<Rightarrow> (string \<rightharpoonup> string) \<Rightarrow> string list" where
  "keys_under p f = sorted_list_of_set {k \<in> dom f. prefix p k}"

definition entries_under :: "string \<Rightarrow> (string \<rightharpoonup> string) \<Rightarrow> (string \<times> string) list" where
  "entries_under p f = map (\<lambda>k. (k, the (f k))) (keys_under p f)"

lemma set_keys_under [simp]: "finite (dom f) \<Longrightarrow> set (keys_under p f) = {k \<in> dom f. prefix p k}"
  by (simp add: keys_under_def)

lemma set_entries_under:
  "finite (dom f) \<Longrightarrow> set (entries_under p f) = {(k, v). f k = Some v \<and> prefix p k}"
  by (force simp: entries_under_def)

lemma map_of_entries_under:
  "finite (dom f) \<Longrightarrow> map_of (entries_under p f) = f |` {k. prefix p k}"
  by (rule ext) (auto simp: entries_under_def map_of_map_restrict restrict_map_def)

text \<open>
  The contract.  \<open>rep s f\<close>: the store \<open>s\<close> is open and holds the finite map \<open>f\<close>.  \<open>user_key\<close> and
  \<open>user_value\<close> are what clients may write.
\<close>

locale kv_interface =
  fixes kv :: "'s kv_vtable"
    and rep :: "'s \<Rightarrow> (string \<rightharpoonup> string) \<Rightarrow> bool"
    and user_key :: "string \<Rightarrow> bool"
    and user_value :: "string \<Rightarrow> bool"
  assumes rep_finite: "rep s f \<Longrightarrow> finite (dom f)"
    and rep_Get: "rep s f \<Longrightarrow> user_key k \<Longrightarrow> vt_Get kv s k = Some (f k)"
    and rep_Put: "rep s f \<Longrightarrow> user_key k \<Longrightarrow> user_value v \<Longrightarrow>
      \<exists>s'. vt_Put kv k v s = Some (KVResult_OK, s') \<and> rep s' (f(k \<mapsto> v))"
    and rep_Delete: "rep s f \<Longrightarrow> user_key k \<Longrightarrow>
      \<exists>s'. vt_Delete kv k s = Some (KVResult_OK, s') \<and> rep s' (f(k := None))"
    and rep_ListKeys: "rep s f \<Longrightarrow> vt_ListKeysByPrefix kv s p = keys_under p f"
    and rep_ListEntries: "rep s f \<Longrightarrow> vt_ListEntriesByPrefix kv s p = Some (entries_under p f)"
    and rep_Batch: "rep s f \<Longrightarrow> \<forall>(k, v) \<in> set es. user_key k \<and> user_value v \<Longrightarrow>
      \<exists>s'. vt_Batch kv es s = Some (KVResult_OK, s') \<and> rep s' (f ++ map_of (rev es))"
    and rep_BatchDelete: "rep s f \<Longrightarrow> \<forall>k \<in> set ks. user_key k \<Longrightarrow>
      \<exists>s'. vt_BatchDelete kv ks s = Some (KVResult_OK, s') \<and> rep s' (f |` (- set ks))"

end
