(* ===== verification/LLM_Store.thy ===== *)
theory LLM_Store
  imports LLM_Keys KV_Spec
begin

text \<open>
  The stores of \<^verbatim>\<open>src/mokv/llm/store.hpp\<close> over the abstract \<^verbatim>\<open>KVStore\<close>: prompt cache, conversations, retrieval
  chunks and runtime configurations.  \<^verbatim>\<open>LLMStore\<close> only forwards to them.  \<^verbatim>\<open>std::sort\<close> with a comparison of
  time stamps is \<open>sort_key\<close>; the theorems do not depend on the order of equal stamps.
\<close>

section \<open>Prompt cache\<close>

definition pc_Put :: "'s kv_vtable \<Rightarrow> PromptCacheEntry \<Rightarrow> 's \<Rightarrow> (KVResult \<times> 's) option" where
  "pc_Put kv e s =
     (if pc_prompt_hash e = [] \<or> pc_model e = []
      then Some (KVResult_Fail ''prompt cache entry requires model and prompt_hash'', s)
      else vt_Put kv (PromptCache_key (pc_tenant e) (pc_app_id e) (pc_model e) (pc_prompt_hash e))
             (SerializePromptCache e) s)"

definition pc_Get :: "'s kv_vtable \<Rightarrow> 's \<Rightarrow> string \<Rightarrow> string \<Rightarrow> string \<Rightarrow> string \<Rightarrow> PromptCacheEntry option option" where
  "pc_Get kv s tenant app_id model prompt_hash =
     do { payload \<leftarrow> vt_Get kv s (PromptCache_key tenant app_id model prompt_hash);
          Some (case payload of None \<Rightarrow> None | Some p \<Rightarrow> ParsePromptCache p) }"

definition pc_List :: "'s kv_vtable \<Rightarrow> 's \<Rightarrow> string \<Rightarrow> string \<Rightarrow> string \<Rightarrow> PromptCacheEntry list option" where
  "pc_List kv s tenant app_id model =
     do { items \<leftarrow> vt_ListEntriesByPrefix kv s (PromptCachePrefix tenant app_id model);
          Some (sort_key (\<lambda>e. - pc_cached_at_ms e) (List.map_filter (\<lambda>item. ParsePromptCache (snd item)) items)) }"

definition pc_Delete :: "'s kv_vtable \<Rightarrow> string \<Rightarrow> string \<Rightarrow> string \<Rightarrow> string \<Rightarrow> 's \<Rightarrow> (KVResult \<times> 's) option" where
  "pc_Delete kv tenant app_id model prompt_hash s = vt_Delete kv (PromptCache_key tenant app_id model prompt_hash) s"

section \<open>Conversations\<close>

definition conv_summary :: "ConversationSession \<Rightarrow> ConversationSummary" where
  "conv_summary session =
     \<lparr>sm_tenant = cs_tenant session, sm_app_id = cs_app_id session, sm_session_id = cs_session_id session,
      sm_model = cs_model session, sm_turn_count = int (length (cs_turns session)) mod 2 ^ 32,
      sm_updated_at_ms = LastTurnTimestamp (cs_turns session)\<rparr>"

definition conv_entries :: "ConversationSession \<Rightarrow> (string \<times> string) list" where
  "conv_entries session =
     (let t = cs_tenant session; a = cs_app_id session; i = cs_session_id session in
      [(Conversation_key t a i, SerializeLegacyConversation session),
       (ConversationMeta t a i, SerializeConversationSummary (conv_summary session))] @
      map (\<lambda>(n, turn). (ConversationTurn_key t a i n, SerializeConversationTurn turn))
        (enumerate 0 (cs_turns session)))"

text \<open>With \<open>2\<^sup>3\<^sup>2\<close> turns the 32-bit loop counter of \<^verbatim>\<open>Save\<close> never reaches the size: no result.\<close>

definition conv_Save :: "'s kv_vtable \<Rightarrow> ConversationSession \<Rightarrow> 's \<Rightarrow> (KVResult \<times> 's) option" where
  "conv_Save kv session s =
     (if cs_session_id session = [] then Some (KVResult_Fail ''conversation requires session_id'', s)
      else do {
        let stale = vt_ListKeysByPrefix kv s
              (ConversationTurnPrefix (cs_tenant session) (cs_app_id session) (cs_session_id session));
        (r, s) \<leftarrow> (if stale \<noteq> [] then vt_BatchDelete kv stale s else Some (KVResult_OK, s));
        if \<not> res_success r then Some (r, s)
        else if 2 ^ 32 \<le> length (cs_turns session) then None
        else vt_Batch kv (conv_entries session) s })"

definition conv_ListTurns :: "'s kv_vtable \<Rightarrow> 's \<Rightarrow> string \<Rightarrow> string \<Rightarrow> string \<Rightarrow> ConversationTurn list option" where
  "conv_ListTurns kv s tenant app_id session_id =
     do { items \<leftarrow> vt_ListEntriesByPrefix kv s (ConversationTurnPrefix tenant app_id session_id);
          Some (List.map_filter (\<lambda>item. ParseConversationTurn (snd item)) items) }"

definition conv_Get :: "'s kv_vtable \<Rightarrow> 's \<Rightarrow> string \<Rightarrow> string \<Rightarrow> string \<Rightarrow> ConversationSession option option" where
  "conv_Get kv s tenant app_id session_id =
     do { meta \<leftarrow> vt_Get kv s (ConversationMeta tenant app_id session_id);
          (case meta of
             Some p \<Rightarrow>
               (case ParseConversationSummary p of
                  None \<Rightarrow> Some None
                | Some m \<Rightarrow> do {
                    turns \<leftarrow> conv_ListTurns kv s tenant app_id session_id;
                    Some (Some \<lparr>cs_tenant = sm_tenant m, cs_app_id = sm_app_id m, cs_session_id = sm_session_id m,
                                cs_model = sm_model m, cs_turns = turns\<rparr>) })
           | None \<Rightarrow> do {
               legacy \<leftarrow> vt_Get kv s (Conversation_key tenant app_id session_id);
               Some (case legacy of None \<Rightarrow> None | Some p \<Rightarrow> ParseLegacyConversation p) }) }"

definition append_turn :: "ConversationDescriptor \<Rightarrow> ConversationTurn \<Rightarrow> ConversationSession option \<Rightarrow> ConversationSession" where
  "append_turn d turn existing =
     (let session = (case existing of
            Some e \<Rightarrow> e
          | None \<Rightarrow> \<lparr>cs_tenant = ds_tenant d, cs_app_id = ds_app_id d, cs_session_id = ds_session_id d,
                     cs_model = ds_model d, cs_turns = []\<rparr>);
          session = (if ds_model d \<noteq> [] then session\<lparr>cs_model := ds_model d\<rparr> else session)
      in session\<lparr>cs_turns := cs_turns session @ [turn]\<rparr>)"

definition conv_AppendTurn ::
    "'s kv_vtable \<Rightarrow> ConversationDescriptor \<Rightarrow> ConversationTurn \<Rightarrow> 's \<Rightarrow> (KVResult \<times> 's) option" where
  "conv_AppendTurn kv d turn s =
     do { existing \<leftarrow> conv_Get kv s (ds_tenant d) (ds_app_id d) (ds_session_id d);
          conv_Save kv (append_turn d turn existing) s }"

definition conv_List :: "'s kv_vtable \<Rightarrow> 's \<Rightarrow> string \<Rightarrow> string \<Rightarrow> ConversationSummary list option" where
  "conv_List kv s tenant app_id =
     do { items \<leftarrow> vt_ListEntriesByPrefix kv s (ConversationPrefix tenant app_id);
          Some (sort_key (\<lambda>m. - sm_updated_at_ms m)
            (List.map_filter (\<lambda>item. ParseConversationSummary (snd item))
              (filter (\<lambda>item. EndsWith (fst item) '':meta'') items))) }"

definition conv_TrimToLastTurns ::
    "'s kv_vtable \<Rightarrow> string \<Rightarrow> string \<Rightarrow> string \<Rightarrow> nat \<Rightarrow> 's \<Rightarrow> (KVResult \<times> 's) option" where
  "conv_TrimToLastTurns kv tenant app_id session_id keep s =
     do { session \<leftarrow> conv_Get kv s tenant app_id session_id;
          (case session of
             None \<Rightarrow> Some (KVResult_Fail ''conversation not found'', s)
           | Some session \<Rightarrow>
               if length (cs_turns session) \<le> keep then Some (KVResult_OK, s)
               else conv_Save kv (session\<lparr>cs_turns := drop (length (cs_turns session) - keep) (cs_turns session)\<rparr>) s) }"

definition conv_Delete :: "'s kv_vtable \<Rightarrow> string \<Rightarrow> string \<Rightarrow> string \<Rightarrow> 's \<Rightarrow> (KVResult \<times> 's) option" where
  "conv_Delete kv tenant app_id session_id s =
     vt_BatchDelete kv (vt_ListKeysByPrefix kv s (ConversationTurnPrefix tenant app_id session_id) @
       [ConversationMeta tenant app_id session_id, Conversation_key tenant app_id session_id]) s"

section \<open>Retrieval chunks\<close>

definition rv_Put :: "'s kv_vtable \<Rightarrow> RetrievalChunk \<Rightarrow> 's \<Rightarrow> (KVResult \<times> 's) option" where
  "rv_Put kv c s =
     (if rc_document_id c = [] \<or> rc_chunk_id c = []
      then Some (KVResult_Fail ''retrieval chunk requires document_id and chunk_id'', s)
      else vt_Put kv (Retrieval_key (rc_tenant c) (rc_knowledge_base c) (rc_document_id c) (rc_chunk_id c))
             (SerializeRetrievalChunk c) s)"

definition rv_Get :: "'s kv_vtable \<Rightarrow> 's \<Rightarrow> string \<Rightarrow> string \<Rightarrow> string \<Rightarrow> string \<Rightarrow> RetrievalChunk option option" where
  "rv_Get kv s tenant knowledge_base document_id chunk_id =
     do { payload \<leftarrow> vt_Get kv s (Retrieval_key tenant knowledge_base document_id chunk_id);
          Some (case payload of None \<Rightarrow> None | Some p \<Rightarrow> ParseRetrievalChunk p) }"

definition rv_List :: "'s kv_vtable \<Rightarrow> 's \<Rightarrow> string \<Rightarrow> string \<Rightarrow> string \<Rightarrow> RetrievalChunk list option" where
  "rv_List kv s tenant knowledge_base document_id =
     do { items \<leftarrow> vt_ListEntriesByPrefix kv s (RetrievalPrefix tenant knowledge_base document_id);
          Some (List.map_filter (\<lambda>item. ParseRetrievalChunk (snd item)) items) }"

definition rv_Delete :: "'s kv_vtable \<Rightarrow> string \<Rightarrow> string \<Rightarrow> string \<Rightarrow> string \<Rightarrow> 's \<Rightarrow> (KVResult \<times> 's) option" where
  "rv_Delete kv tenant knowledge_base document_id chunk_id s =
     vt_Delete kv (Retrieval_key tenant knowledge_base document_id chunk_id) s"

section \<open>Runtime configurations\<close>

definition rt_Put :: "'s kv_vtable \<Rightarrow> RuntimeConfigRecord \<Rightarrow> 's \<Rightarrow> (KVResult \<times> 's) option" where
  "rt_Put kv r s =
     (if rr_profile r = [] then Some (KVResult_Fail ''runtime config requires profile'', s)
      else vt_Put kv (RuntimeConfig_key (rr_tenant r) (rr_app_id r) (rr_profile r)) (SerializeRuntimeConfig r) s)"

definition rt_Get :: "'s kv_vtable \<Rightarrow> 's \<Rightarrow> string \<Rightarrow> string \<Rightarrow> string \<Rightarrow> RuntimeConfigRecord option option" where
  "rt_Get kv s tenant app_id profile =
     do { payload \<leftarrow> vt_Get kv s (RuntimeConfig_key tenant app_id profile);
          Some (case payload of None \<Rightarrow> None | Some p \<Rightarrow> ParseRuntimeConfig p) }"

definition rt_List :: "'s kv_vtable \<Rightarrow> 's \<Rightarrow> string \<Rightarrow> string \<Rightarrow> RuntimeConfigRecord list option" where
  "rt_List kv s tenant app_id =
     do { items \<leftarrow> vt_ListEntriesByPrefix kv s (RuntimeConfigPrefix tenant app_id);
          Some (sort_key (\<lambda>r. - rr_updated_at_ms r) (List.map_filter (\<lambda>item. ParseRuntimeConfig (snd item)) items)) }"

definition rt_Delete :: "'s kv_vtable \<Rightarrow> string \<Rightarrow> string \<Rightarrow> string \<Rightarrow> 's \<Rightarrow> (KVResult \<times> 's) option" where
  "rt_Delete kv tenant app_id profile s = vt_Delete kv (RuntimeConfig_key tenant app_id profile) s"

end
