(* ===== verification/LLM_Correct.thy ===== *)
theory LLM_Correct
  imports LLM_Store
begin

text \<open>
  The LLM stores against maps.  The first part says what \<^verbatim>\<open>Save\<close> and \<^verbatim>\<open>Delete\<close> of a conversation do to a map and
  what a later \<^verbatim>\<open>Get\<close> finds there; the locale \<open>llm_host\<close> transfers this to every implementation of
  \<^verbatim>\<open>KVStore\<close> that lets clients write keys that start with \<^verbatim>\<open>llm:\<close> and text that ends in a newline.
\<close>

section \<open>Keys of conversations\<close>

lemmas join_simps = JoinKeyParts_inj JoinKeyParts_prefix_iff

lemma append_less_iff: "(p @ x < p @ y) = (x < (y :: 'a :: linorder list))"
  by (induction p) simp_all

lemma EscapeKeyPart_digits: "list_all is_digit ds \<Longrightarrow> EscapeKeyPart ds = ds"
proof (induction ds)
  case (Cons c ds)
  then have "c \<noteq> BS" "c \<noteq> NL" "c \<noteq> TAB" "c \<noteq> CHR '':''" by auto
  then show ?case using Cons by simp
qed simp

lemma turn_key_eq: "n < 10 ^ 10 \<Longrightarrow>
    ConversationTurn_key t a s n = ConversationTurnPrefix t a s @ CHR '':'' # FormatSequence n"
  using FormatSequence_facts(2) EscapeKeyPart_digits by (simp add: ConversationTurn_key_def AppendKeyPart_def)

lemma turn_key_mono: "m < n \<Longrightarrow> n < 10 ^ 10 \<Longrightarrow> ConversationTurn_key t a s m < ConversationTurn_key t a s n"
  using FormatSequence_mono [of m n] by (simp add: turn_key_eq append_less_iff)

lemma turn_keys_sorted: "n \<le> 10 ^ 10 \<Longrightarrow> sorted_wrt (<) (map (ConversationTurn_key t a s) [0..<n])"
  by (auto simp: sorted_wrt_map sorted_wrt_iff_nth_less intro!: turn_key_mono)

lemma turn_prefix_iff:
  "prefix (ConversationTurnPrefix t a s) (ConversationTurn_key t' a' s' n) \<longleftrightarrow> (t, a, s) = (t', a', s')"
  "\<not> prefix (ConversationTurnPrefix t a s) (ConversationMeta t' a' s')"
  "\<not> prefix (ConversationTurnPrefix t a s) (Conversation_key t' a' s')"
  by (auto simp: key_parts join_simps)

text \<open>No key lies under the turn prefixes of two conversations.\<close>

lemma turn_prefix_disjoint:
  assumes "prefix (ConversationTurnPrefix t a s) k" "prefix (ConversationTurnPrefix t' a' s') k"
  shows "(t, a, s) = (t', a', s')"
  using prefix_same_cases [OF assms] by (auto simp: key_parts join_simps)

section \<open>Conversations in a map\<close>

definition turns_view :: "(string \<rightharpoonup> string) \<Rightarrow> string \<Rightarrow> string \<Rightarrow> string \<Rightarrow> ConversationTurn list" where
  "turns_view f t a s = List.map_filter (\<lambda>item. ParseConversationTurn (snd item)) (entries_under (ConversationTurnPrefix t a s) f)"

definition conv_view :: "(string \<rightharpoonup> string) \<Rightarrow> string \<Rightarrow> string \<Rightarrow> string \<Rightarrow> ConversationSession option" where
  "conv_view f t a s =
     (case f (ConversationMeta t a s) of
        Some p \<Rightarrow>
          (case ParseConversationSummary p of
             None \<Rightarrow> None
           | Some m \<Rightarrow> Some \<lparr>cs_tenant = sm_tenant m, cs_app_id = sm_app_id m, cs_session_id = sm_session_id m,
                             cs_model = sm_model m, cs_turns = turns_view f t a s\<rparr>)
      | None \<Rightarrow> (case f (Conversation_key t a s) of None \<Rightarrow> None | Some p \<Rightarrow> ParseLegacyConversation p))"

definition save_map :: "ConversationSession \<Rightarrow> (string \<rightharpoonup> string) \<Rightarrow> (string \<rightharpoonup> string)" where
  "save_map session f =
     f |` (- set (keys_under (ConversationTurnPrefix (cs_tenant session) (cs_app_id session) (cs_session_id session)) f)) ++
     map_of (rev (conv_entries session))"

definition delete_map :: "string \<Rightarrow> string \<Rightarrow> string \<Rightarrow> (string \<rightharpoonup> string) \<Rightarrow> (string \<rightharpoonup> string)" where
  "delete_map t a s f =
     f |` (- set (keys_under (ConversationTurnPrefix t a s) f @ [ConversationMeta t a s, Conversation_key t a s]))"

definition session_ok :: "ConversationSession \<Rightarrow> bool" where
  "session_ok session =
     (cs_session_id session \<noteq> [] \<and> length (cs_turns session) < 2 ^ 32 \<and>
      (\<forall>t \<in> set (cs_turns session). int64 (tn_created_at_ms t)))"

lemma keys_conv_entries:
  "fst ` set (conv_entries session) = {Conversation_key t a s, ConversationMeta t a s} \<union>
     ConversationTurn_key t a s ` {..<length (cs_turns session)}"
  if "t = cs_tenant session" "a = cs_app_id session" "s = cs_session_id session"
  using that by (force simp: conv_entries_def Let_def in_set_enumerate_eq image_iff)

lemma map_zip_index: "map (\<lambda>x. g (fst x)) (zip [0..<length ys] ys) = map g [0..<length ys]"
  by (rule nth_equalityI) auto

lemma distinct_conv_entries: "length (cs_turns session) \<le> 10 ^ 10 \<Longrightarrow> distinct (map fst (conv_entries session))"
proof -
  assume l: "length (cs_turns session) \<le> 10 ^ 10"
  let ?t = "cs_tenant session" and ?a = "cs_app_id session" and ?s = "cs_session_id session"
  have "map fst (conv_entries session) = [Conversation_key ?t ?a ?s, ConversationMeta ?t ?a ?s] @
      map (ConversationTurn_key ?t ?a ?s) [0..<length (cs_turns session)]"
    by (simp add: conv_entries_def Let_def enumerate_eq_zip case_prod_unfold o_def map_zip_index)
  moreover have "distinct (map (ConversationTurn_key ?t ?a ?s) [0..<length (cs_turns session)])"
    using turn_keys_sorted [OF l] strict_sorted_iff by blast
  ultimately show ?thesis by (auto simp: key_parts join_simps)
qed

lemma save_map_lookup:
  assumes "session_ok session" "(k, v) \<in> set (conv_entries session)"
  shows "save_map session f k = Some v"
proof -
  have "distinct (map fst (rev (conv_entries session)))"
    using distinct_conv_entries [of session] assms(1) by (simp add: session_ok_def rev_map [symmetric])
  then have "map_of (rev (conv_entries session)) k = Some v" using assms(2) by (intro map_of_is_SomeI) auto
  then show ?thesis unfolding save_map_def by (rule map_add_find_right)
qed

lemma save_map_other:
  assumes "k \<notin> fst ` set (conv_entries session)" "finite (dom f)"
    and "\<not> prefix (ConversationTurnPrefix (cs_tenant session) (cs_app_id session) (cs_session_id session)) k"
  shows "save_map session f k = f k"
proof -
  have "map_of (rev (conv_entries session)) k = None" using assms(1) by (simp add: map_of_eq_None_iff)
  then show ?thesis using assms(2,3) by (simp add: save_map_def map_add_def restrict_map_def)
qed

lemma finite_save_map: "finite (dom f) \<Longrightarrow> finite (dom (save_map session f))"
  by (simp add: save_map_def dom_map_of_conv_image_fst)

lemma save_map_meta:
  assumes "session_ok session"
  shows "save_map session f (ConversationMeta (cs_tenant session) (cs_app_id session) (cs_session_id session)) =
    Some (SerializeConversationSummary (conv_summary session))"
  using save_map_lookup [OF assms] by (simp add: conv_entries_def Let_def)

lemma save_map_turn:
  assumes "session_ok session" "n < length (cs_turns session)"
  shows "save_map session f (ConversationTurn_key (cs_tenant session) (cs_app_id session) (cs_session_id session) n) =
    Some (SerializeConversationTurn (cs_turns session ! n))"
proof (rule save_map_lookup [OF assms(1)])
  have "(n, cs_turns session ! n) \<in> set (enumerate 0 (cs_turns session))" using assms(2) by (simp add: in_set_enumerate_eq)
  from imageI [OF this, of "\<lambda>(n, turn). (ConversationTurn_key (cs_tenant session) (cs_app_id session) (cs_session_id session) n,
      SerializeConversationTurn turn)"]
  show "(ConversationTurn_key (cs_tenant session) (cs_app_id session) (cs_session_id session) n,
      SerializeConversationTurn (cs_turns session ! n)) \<in> set (conv_entries session)"
    by (simp add: conv_entries_def Let_def)
qed

lemma save_map_keys:
  assumes ok: "session_ok session" and fin: "finite (dom f)"
    and ids: "t = cs_tenant session" "a = cs_app_id session" "s = cs_session_id session"
  shows "keys_under (ConversationTurnPrefix t a s) (save_map session f) =
    map (ConversationTurn_key t a s) [0..<length (cs_turns session)]" (is "?l = map ?k ?ns")
proof -
  have "{k \<in> dom (save_map session f). prefix (ConversationTurnPrefix t a s) k} = ?k ` {..<length (cs_turns session)}"
  proof (intro set_eqI iffI)
    fix k assume k: "k \<in> {k \<in> dom (save_map session f). prefix (ConversationTurnPrefix t a s) k}"
    show "k \<in> ?k ` {..<length (cs_turns session)}"
    proof (cases "k \<in> fst ` set (conv_entries session)")
      case True
      then show ?thesis using k turn_prefix_iff unfolding keys_conv_entries [OF ids] by auto
    next
      case False
      then have "map_of (rev (conv_entries session)) k = None" by (simp add: map_of_eq_None_iff)
      then have "save_map session f k = None"
        using k fin ids by (auto simp: save_map_def map_add_def restrict_map_def domIff)
      then show ?thesis using k by (simp add: domIff)
    qed
  next
    fix k assume "k \<in> ?k ` {..<length (cs_turns session)}"
    then show "k \<in> {k \<in> dom (save_map session f). prefix (ConversationTurnPrefix t a s) k}"
      using save_map_turn [OF ok, of _ f] ids turn_prefix_iff(1) by (auto simp: domIff)
  qed
  moreover have "sorted_wrt (<) (map ?k ?ns)" using ok by (intro turn_keys_sorted) (simp add: session_ok_def)
  moreover have "set (map ?k ?ns) = ?k ` {..<length (cs_turns session)}" by auto
  ultimately show ?thesis unfolding keys_under_def using sorted_list_of_set.idem_if_sorted_distinct
    by (metis (no_types, lifting) strict_sorted_iff)
qed

lemma map_filter_map: "List.map_filter g (map h xs) = List.map_filter (\<lambda>x. g (h x)) xs"
  by (simp add: List.map_filter_def o_def filter_map)

lemma map_filter_cong: "(\<And>x. x \<in> set xs \<Longrightarrow> g x = h x) \<Longrightarrow> List.map_filter g xs = List.map_filter h xs"
  by (induction xs) (auto simp: List.map_filter_simps split: option.splits)

lemma set_map_filter_eq: "set (List.map_filter g xs) = {y. \<exists>x \<in> set xs. g x = Some y}"
  by (induction xs) (auto simp: List.map_filter_simps split: option.splits)

lemma map_filter_if: "List.map_filter (\<lambda>x. if P x then None else Some x) xs = filter (\<lambda>x. \<not> P x) xs"
  by (induction xs) (auto simp: List.map_filter_simps)

text \<open>What is saved is found again, except for turns without a role.\<close>

lemma conv_view_save:
  assumes ok: "session_ok session" and fin: "finite (dom f)"
  shows "conv_view (save_map session f) (cs_tenant session) (cs_app_id session) (cs_session_id session) =
    Some (session\<lparr>cs_turns := filter (\<lambda>t. tn_role t \<noteq> []) (cs_turns session)\<rparr>)"
proof -
  let ?t = "cs_tenant session" and ?a = "cs_app_id session" and ?s = "cs_session_id session" and ?ts = "cs_turns session"
  have "int64 (LastTurnTimestamp ?ts)" using ok by (auto simp: session_ok_def LastTurnTimestamp_def int64_def)
  then have p: "ParseConversationSummary (SerializeConversationSummary (conv_summary session)) = Some (conv_summary session)"
    using ok by (simp add: ParseConversationSummary_Serialize conv_summary_def uint32_def session_ok_def)
  have "turns_view (save_map session f) ?t ?a ?s =
      List.map_filter (\<lambda>n. ParseConversationTurn (the (save_map session f (ConversationTurn_key ?t ?a ?s n)))) [0..<length ?ts]"
    by (simp add: turns_view_def entries_under_def save_map_keys [OF ok fin refl refl refl] map_filter_map)
  also have "\<dots> = List.map_filter (\<lambda>n. if tn_role (?ts ! n) = [] then None else Some (?ts ! n)) [0..<length ?ts]"
    using ok save_map_turn [OF ok, of _ f]
    by (intro map_filter_cong) (auto simp: ParseConversationTurn_Serialize session_ok_def)
  also have "\<dots> = List.map_filter (\<lambda>t. if tn_role t = [] then None else Some t) (map ((!) ?ts) [0..<length ?ts])"
    by (simp add: map_filter_map)
  also have "\<dots> = filter (\<lambda>t. tn_role t \<noteq> []) ?ts" by (simp add: map_nth map_filter_if)
  finally have turns: "turns_view (save_map session f) ?t ?a ?s = filter (\<lambda>t. tn_role t \<noteq> []) ?ts" .
  show ?thesis by (simp add: conv_view_def save_map_meta [OF ok] p turns) (simp add: conv_summary_def)
qed

lemma conv_view_cong:
  assumes "f (ConversationMeta t a s) = g (ConversationMeta t a s)" "f (Conversation_key t a s) = g (Conversation_key t a s)"
    and "\<And>k. prefix (ConversationTurnPrefix t a s) k \<Longrightarrow> f k = g k"
  shows "conv_view f t a s = conv_view g t a s"
proof -
  have keys: "keys_under (ConversationTurnPrefix t a s) f = keys_under (ConversationTurnPrefix t a s) g"
    unfolding keys_under_def using assms(3) by (metis (mono_tags, lifting) domIff)
  have "entries_under (ConversationTurnPrefix t a s) f = entries_under (ConversationTurnPrefix t a s) g"
  proof (cases "finite {k \<in> dom g. prefix (ConversationTurnPrefix t a s) k}")
    case True
    then have "\<forall>k \<in> set (keys_under (ConversationTurnPrefix t a s) g). prefix (ConversationTurnPrefix t a s) k"
      by (simp add: keys_under_def)
    then show ?thesis using keys assms(3) by (simp add: entries_under_def)
  next
    case False
    then have "keys_under (ConversationTurnPrefix t a s) g = []" by (simp add: keys_under_def)
    then show ?thesis by (simp add: entries_under_def keys)
  qed
  then have turns: "turns_view f t a s = turns_view g t a s" by (simp add: turns_view_def)
  show ?thesis unfolding conv_view_def turns assms(1,2) ..
qed

text \<open>Other conversations are not touched.\<close>

lemma conv_view_save_other:
  assumes "finite (dom f)" "(t, a, s) \<noteq> (cs_tenant session, cs_app_id session, cs_session_id session)"
  shows "conv_view (save_map session f) t a s = conv_view f t a s"
proof (rule conv_view_cong)
  note keys = keys_conv_entries [OF refl refl refl, of session]
  show "save_map session f (ConversationMeta t a s) = f (ConversationMeta t a s)"
    using assms keys turn_prefix_iff by (intro save_map_other) (auto simp: key_parts join_simps)
  show "save_map session f (Conversation_key t a s) = f (Conversation_key t a s)"
    using assms keys turn_prefix_iff by (intro save_map_other) (auto simp: key_parts join_simps)
  fix k assume k: "prefix (ConversationTurnPrefix t a s) k"
  then have "\<not> prefix (ConversationTurnPrefix (cs_tenant session) (cs_app_id session) (cs_session_id session)) k"
    using turn_prefix_disjoint assms(2) by blast
  moreover have "k \<notin> fst ` set (conv_entries session)" using k keys turn_prefix_iff assms(2) by auto
  ultimately show "save_map session f k = f k" using assms(1) by (intro save_map_other)
qed

lemma conv_view_delete:
  assumes "finite (dom f)"
  shows "conv_view (delete_map t a s f) t a s = None"
    and "(t', a', s') \<noteq> (t, a, s) \<Longrightarrow> conv_view (delete_map t a s f) t' a' s' = conv_view f t' a' s'"
proof -
  show "conv_view (delete_map t a s f) t a s = None"
    by (simp add: conv_view_def delete_map_def restrict_map_def)
  assume ne: "(t', a', s') \<noteq> (t, a, s)"
  show "conv_view (delete_map t a s f) t' a' s' = conv_view f t' a' s'"
  proof (rule conv_view_cong)
    show "delete_map t a s f (ConversationMeta t' a' s') = f (ConversationMeta t' a' s')"
      "delete_map t a s f (Conversation_key t' a' s') = f (Conversation_key t' a' s')"
      using ne assms turn_prefix_iff by (auto simp: delete_map_def restrict_map_def key_parts join_simps)
    fix k assume k: "prefix (ConversationTurnPrefix t' a' s') k"
    then have "k \<noteq> ConversationMeta t a s" "k \<noteq> Conversation_key t a s" using turn_prefix_iff(2,3) by metis+
    moreover have "\<not> prefix (ConversationTurnPrefix t a s) k" using turn_prefix_disjoint [OF k] ne by blast
    ultimately show "delete_map t a s f k = f k" using assms by (simp add: delete_map_def restrict_map_def)
  qed
qed

section \<open>On an implementation of the store\<close>

lemma llm_keys:
  "prefix ''llm:'' (PromptCache_key t a m h)" "prefix ''llm:'' (Conversation_key t a s)" "prefix ''llm:'' (ConversationMeta t a s)"
  "prefix ''llm:'' (ConversationTurnPrefix t a s)" "prefix ''llm:'' (ConversationTurn_key t a s n)"
  "prefix ''llm:'' (Retrieval_key t b d c)" "prefix ''llm:'' (RuntimeConfig_key t a p)"
  using JoinKeyParts_llm by (fastforce simp: key_parts prefix_def)+

lemma unlines_text: "ls \<noteq> [] \<Longrightarrow> \<exists>v. unlines ls = v @ [NL]"
  by (cases ls rule: rev_cases) (auto simp: unlines_def)

locale llm_host = kv_interface +
  assumes llm_key: "prefix ''llm:'' k \<Longrightarrow> user_key k"
    and text_value: "user_value (v @ [NL])"
begin

lemma lines_value: "ls \<noteq> [] \<Longrightarrow> user_value (unlines ls)"
  using unlines_text [of ls] text_value by auto

lemma serialized_values:
  "user_value (SerializePromptCache e)" "user_value (SerializeConversationTurn t)"
  "user_value (SerializeConversationSummary m)" "user_value (SerializeLegacyConversation s)"
  "user_value (SerializeRetrievalChunk c)" "user_value (SerializeRuntimeConfig r)"
  by (auto simp: SerializePromptCache_def SerializeConversationTurn_def SerializeConversationSummary_def
      SerializeLegacyConversation_def SerializeRetrievalChunk_def SerializeRuntimeConfig_def intro!: lines_value)

lemma under_llm: "finite (dom f) \<Longrightarrow> prefix ''llm:'' p \<Longrightarrow> k \<in> set (keys_under p f) \<Longrightarrow> user_key k"
  by (auto intro!: llm_key elim: prefix_order.trans)

lemma conv_Get_rep: "rep st f \<Longrightarrow> conv_Get kv st t a s = Some (conv_view f t a s)"
  by (simp add: conv_Get_def conv_view_def conv_ListTurns_def turns_view_def rep_Get rep_ListEntries llm_key llm_keys
      split: option.splits)

lemma conv_entries_user: "\<forall>(k, v) \<in> set (conv_entries session). user_key k \<and> user_value v"
  by (auto simp: conv_entries_def Let_def serialized_values llm_key llm_keys)

lemma conv_Save_holds:
  assumes rep: "rep st f" and ok: "cs_session_id session \<noteq> []" "length (cs_turns session) < 2 ^ 32"
  shows "\<exists>st'. conv_Save kv session st = Some (KVResult_OK, st') \<and> rep st' (save_map session f)"
proof -
  let ?P = "ConversationTurnPrefix (cs_tenant session) (cs_app_id session) (cs_session_id session)"
  have fin: "finite (dom f)" using rep_finite [OF rep] .
  have stale: "vt_ListKeysByPrefix kv st ?P = keys_under ?P f" using rep_ListKeys [OF rep] .
  obtain st1 where 1: "(if keys_under ?P f \<noteq> [] then vt_BatchDelete kv (keys_under ?P f) st else Some (KVResult_OK, st)) =
      Some (KVResult_OK, st1)" "rep st1 (f |` (- set (keys_under ?P f)))"
  proof (cases "keys_under ?P f = []")
    case True
    moreover have "f |` (- {}) = f" by (simp add: restrict_map_def)
    ultimately show thesis using that rep by simp
  next
    case False
    then show thesis using that rep_BatchDelete [OF rep, of "keys_under ?P f"] under_llm [OF fin llm_keys(4)] by auto
  qed
  obtain st2 where "vt_Batch kv (conv_entries session) st1 = Some (KVResult_OK, st2)" "rep st2 (save_map session f)"
    using rep_Batch [OF 1(2) conv_entries_user] unfolding save_map_def by blast
  then show ?thesis using 1(1) stale ok by (simp add: conv_Save_def Let_def)
qed

lemma conv_Save_rep:
  "rep st f \<Longrightarrow> session_ok session \<Longrightarrow> \<exists>st'. conv_Save kv session st = Some (KVResult_OK, st') \<and> rep st' (save_map session f)"
  using conv_Save_holds by (simp add: session_ok_def)

lemma conv_Delete_rep:
  assumes rep: "rep st f"
  shows "\<exists>st'. conv_Delete kv t a s st = Some (KVResult_OK, st') \<and> rep st' (delete_map t a s f)"
proof -
  have "\<forall>k \<in> set (keys_under (ConversationTurnPrefix t a s) f @ [ConversationMeta t a s, Conversation_key t a s]). user_key k"
    using under_llm [OF rep_finite [OF rep] llm_keys(4)] llm_key llm_keys by auto
  from rep_BatchDelete [OF rep this] show ?thesis
    by (simp add: conv_Delete_def delete_map_def rep_ListKeys [OF rep])
qed

lemma conv_Append_rep:
  assumes rep: "rep st f" and view: "conv_view f (ds_tenant d) (ds_app_id d) (ds_session_id d) = existing"
    and ok: "session_ok (append_turn d turn existing)"
  shows "\<exists>st'. conv_AppendTurn kv d turn st = Some (KVResult_OK, st') \<and> rep st' (save_map (append_turn d turn existing) f)"
  using conv_Save_rep [OF rep ok] view by (simp add: conv_AppendTurn_def conv_Get_rep [OF rep])

lemma conv_Trim_rep:
  assumes rep: "rep st f" and view: "conv_view f t a s = Some session" and ok: "session_ok session"
    and ids: "t = cs_tenant session" "a = cs_app_id session" "s = cs_session_id session"
    and roles: "\<forall>turn \<in> set (cs_turns session). tn_role turn \<noteq> []"
  shows "\<exists>st' f'. conv_TrimToLastTurns kv t a s keep st = Some (KVResult_OK, st') \<and> rep st' f' \<and>
    conv_view f' t a s = Some (session\<lparr>cs_turns := drop (length (cs_turns session) - keep) (cs_turns session)\<rparr>) \<and>
    (\<forall>t' a' s'. (t', a', s') \<noteq> (t, a, s) \<longrightarrow> conv_view f' t' a' s' = conv_view f t' a' s')"
proof (cases "length (cs_turns session) \<le> keep")
  case True
  then show ?thesis
    using rep view by (intro exI [of _ st] exI [of _ f]) (simp add: conv_TrimToLastTurns_def conv_Get_rep [OF rep])
next
  case False
  let ?s = "session\<lparr>cs_turns := drop (length (cs_turns session) - keep) (cs_turns session)\<rparr>"
  have ok': "session_ok ?s" using ok by (auto simp: session_ok_def dest: in_set_dropD)
  obtain st' where st': "conv_Save kv ?s st = Some (KVResult_OK, st')" "rep st' (save_map ?s f)"
    using conv_Save_rep [OF rep ok'] by blast
  have "filter (\<lambda>turn. tn_role turn \<noteq> []) (cs_turns ?s) = cs_turns ?s"
    using roles by (auto simp: filter_id_conv dest: in_set_dropD)
  then have "conv_view (save_map ?s f) t a s = Some ?s"
    using conv_view_save [OF ok' rep_finite [OF rep]] ids by simp
  moreover have "conv_view (save_map ?s f) t' a' s' = conv_view f t' a' s'" if "(t', a', s') \<noteq> (t, a, s)" for t' a' s'
    using conv_view_save_other [OF rep_finite [OF rep], of t' a' s' ?s] that ids by simp
  ultimately show ?thesis
    using st' False view by (intro exI [of _ st'] exI [of _ "save_map ?s f"]) (simp add: conv_TrimToLastTurns_def conv_Get_rep [OF rep])
qed

text \<open>The stores with one key per record.\<close>

lemma pc_Put_rep:
  assumes "rep st f" "pc_model e \<noteq> []" "pc_prompt_hash e \<noteq> []"
  shows "\<exists>st'. pc_Put kv e st = Some (KVResult_OK, st') \<and>
    rep st' (f(PromptCache_key (pc_tenant e) (pc_app_id e) (pc_model e) (pc_prompt_hash e) \<mapsto> SerializePromptCache e))"
  using rep_Put [OF assms(1) llm_key [OF llm_keys(1)] serialized_values(1)] assms(2,3) by (simp add: pc_Put_def)

lemma pc_Get_rep:
  "rep st f \<Longrightarrow> pc_Get kv st t a m h = Some (case f (PromptCache_key t a m h) of None \<Rightarrow> None | Some p \<Rightarrow> ParsePromptCache p)"
  by (simp add: pc_Get_def rep_Get llm_key llm_keys)

lemma pc_Delete_rep:
  "rep st f \<Longrightarrow> \<exists>st'. pc_Delete kv t a m h st = Some (KVResult_OK, st') \<and> rep st' (f(PromptCache_key t a m h := None))"
  unfolding pc_Delete_def by (rule rep_Delete) (simp_all add: llm_key llm_keys)

lemma rv_Put_rep:
  assumes "rep st f" "rc_document_id c \<noteq> []" "rc_chunk_id c \<noteq> []"
  shows "\<exists>st'. rv_Put kv c st = Some (KVResult_OK, st') \<and>
    rep st' (f(Retrieval_key (rc_tenant c) (rc_knowledge_base c) (rc_document_id c) (rc_chunk_id c) \<mapsto> SerializeRetrievalChunk c))"
  using rep_Put [OF assms(1) llm_key [OF llm_keys(6)] serialized_values(5)] assms(2,3) by (simp add: rv_Put_def)

lemma rv_Get_rep:
  "rep st f \<Longrightarrow> rv_Get kv st t b d c = Some (case f (Retrieval_key t b d c) of None \<Rightarrow> None | Some p \<Rightarrow> ParseRetrievalChunk p)"
  by (simp add: rv_Get_def rep_Get llm_key llm_keys)

lemma rv_Delete_rep:
  "rep st f \<Longrightarrow> \<exists>st'. rv_Delete kv t b d c st = Some (KVResult_OK, st') \<and> rep st' (f(Retrieval_key t b d c := None))"
  unfolding rv_Delete_def by (rule rep_Delete) (simp_all add: llm_key llm_keys)

lemma rt_Put_rep:
  assumes "rep st f" "rr_profile r \<noteq> []"
  shows "\<exists>st'. rt_Put kv r st = Some (KVResult_OK, st') \<and>
    rep st' (f(RuntimeConfig_key (rr_tenant r) (rr_app_id r) (rr_profile r) \<mapsto> SerializeRuntimeConfig r))"
  using rep_Put [OF assms(1) llm_key [OF llm_keys(7)] serialized_values(6)] assms(2) by (simp add: rt_Put_def)

lemma rt_Get_rep:
  "rep st f \<Longrightarrow> rt_Get kv st t a p = Some (case f (RuntimeConfig_key t a p) of None \<Rightarrow> None | Some v \<Rightarrow> ParseRuntimeConfig v)"
  by (simp add: rt_Get_def rep_Get llm_key llm_keys)

lemma rt_Delete_rep:
  "rep st f \<Longrightarrow> \<exists>st'. rt_Delete kv t a p st = Some (KVResult_OK, st') \<and> rep st' (f(RuntimeConfig_key t a p := None))"
  unfolding rt_Delete_def by (rule rep_Delete) (simp_all add: llm_key llm_keys)

text \<open>\<^verbatim>\<open>List\<close> of the prompt cache returns, latest first, the entries whose key extends the prefix.\<close>

lemma pc_List_rep:
  assumes "rep st f"
  shows "\<exists>es. pc_List kv st t a m = Some es \<and> sorted (map (\<lambda>e. - pc_cached_at_ms e) es) \<and>
    set es = {e. \<exists>k v. f k = Some v \<and> prefix (PromptCachePrefix t a m) k \<and> ParsePromptCache v = Some e}"
  by (auto simp: pc_List_def rep_ListEntries [OF assms] set_map_filter_eq set_entries_under [OF rep_finite [OF assms]])

end

end
