(* ===== verification/DB.thy ===== *)
theory DB
  imports Manifest_File
begin

text \<open>
  The database of \<^verbatim>\<open>src/mokv/db.hpp\<close>.  The state keeps what the object owns (active memtable, flush
  queue, manifest versions, file id counter), the files of the data directory, the counter of the
  random generator, and the two local variables that hold a memtable between critical sections:
  \<^verbatim>\<open>pending_flush\<close> of \<^verbatim>\<open>Put\<close> (\<open>client\<close>) and \<^verbatim>\<open>memtable\<close> of \<^verbatim>\<open>ToSSTLoop\<close> (\<open>db_flushing\<close>).  Each critical
  section is one operation; \<open>db_step\<close> interleaves the sections of a client with those of the
  flush thread.
\<close>

definition TombstoneValue :: string where
  "TombstoneValue = [CHR 0x1E] @ ''__mokv_deleted__'' @ [CHR 0x1F]"

definition IsTombstone :: "string \<Rightarrow> bool" where
  "IsTombstone v = (v = TombstoneValue)"

record DBConfig =
  cfg_compression :: CompressionConfig
  cfg_memtable_max_size :: nat

record DB =
  db_config :: DBConfig
  db_memtable :: memtable
  db_flush_queue :: "memtable list"
  db_flushing :: "memtable option"
  db_manifests :: "Manifest list"
  db_sst_id :: nat
  db_files :: files
  db_manifest_file :: "bytes option"
  db_counter :: "64 word"

subsection \<open>Opening\<close>

definition db_open ::
    "'c sst_env \<Rightarrow> DBConfig \<Rightarrow> files \<times> bytes option \<times> 64 word \<Rightarrow> DB option" where
  "db_open env config w =
     (case w of (fs, mfile, c) \<Rightarrow>
        do { mf \<leftarrow> manifest_open env fs mfile;
             Some \<lparr>db_config = config, db_memtable = mt_new, db_flush_queue = [], db_flushing = None,
               db_manifests = [mf], db_sst_id = mf_max_sst_id mf, db_files = fs,
               db_manifest_file = mfile, db_counter = c\<rparr> })"

subsection \<open>Reading\<close>

definition visible :: "string option \<Rightarrow> string option" where
  "visible r = (case r of None \<Rightarrow> None | Some v \<Rightarrow> if IsTombstone v then None else Some v)"

fun queue_Get :: "memtable list \<Rightarrow> string \<Rightarrow> string option option" where
  "queue_Get [] key = Some None"
| "queue_Get (m # ms) key =
     do { r \<leftarrow> mt_Get m key; (case r of Some v \<Rightarrow> Some (Some v) | None \<Rightarrow> queue_Get ms key) }"

definition db_Get :: "DB \<Rightarrow> string \<Rightarrow> string option option" where
  "db_Get d key =
     do { r \<leftarrow> mt_Get (db_memtable d) key;
          (case r of Some v \<Rightarrow> Some (visible (Some v))
           | None \<Rightarrow> do {
               r \<leftarrow> queue_Get (rev (db_flush_queue d)) key;
               (case r of Some v \<Rightarrow> Some (visible (Some v))
                | None \<Rightarrow> if db_manifests d = [] then None
                          else do { r \<leftarrow> manifest_Get (last (db_manifests d)) key; Some (visible r) }) }) }"

definition db_Exists :: "DB \<Rightarrow> string \<Rightarrow> bool option" where
  "db_Exists d key = map_option (\<lambda>r. r \<noteq> None) (db_Get d key)"

subsection \<open>Writing\<close>

definition over_limit :: "DB \<Rightarrow> bool" where
  "over_limit d = (cfg_memtable_max_size (db_config d) < unat (mt_binary_size (db_memtable d)))"

text \<open>The three critical sections of \<^verbatim>\<open>Put\<close>.\<close>

definition put_mem :: "string \<Rightarrow> string \<Rightarrow> DB \<Rightarrow> DB option" where
  "put_mem key val d =
     do { (m, c) \<leftarrow> mt_Put (db_counter d) (db_memtable d) key val;
          Some (d\<lparr>db_memtable := m, db_counter := c\<rparr>) }"

definition put_swap :: "DB \<Rightarrow> DB \<times> memtable option" where
  "put_swap d =
     (if over_limit d then (d\<lparr>db_memtable := mt_new\<rparr>, Some (db_memtable d)) else (d, None))"

definition put_enqueue :: "memtable \<Rightarrow> DB \<Rightarrow> DB" where
  "put_enqueue m d = d\<lparr>db_flush_queue := db_flush_queue d @ [m]\<rparr>"

definition db_Put :: "string \<Rightarrow> string \<Rightarrow> DB \<Rightarrow> DB option" where
  "db_Put key val d =
     do { d \<leftarrow> put_mem key val d;
          if \<not> over_limit d then Some d
          else (case put_swap d of (d, None) \<Rightarrow> Some d | (d, Some m) \<Rightarrow> Some (put_enqueue m d)) }"

definition db_Delete :: "string \<Rightarrow> DB \<Rightarrow> DB option" where
  "db_Delete key d = db_Put key TombstoneValue d"

subsection \<open>The flush thread\<close>

definition flush_take :: "DB \<Rightarrow> DB option" where
  "flush_take d =
     (case db_flush_queue d of
        [] \<Rightarrow> None
      | m # ms \<Rightarrow> Some (d\<lparr>db_flush_queue := ms, db_flushing := Some m\<rparr>))"

text \<open>The choice of the constructor at the start of \<^verbatim>\<open>ToSST\<close>.\<close>

definition flush_sst ::
    "'c sst_env \<Rightarrow> CompressionConfig \<Rightarrow> memtable \<Rightarrow> nat \<Rightarrow> files \<times> 64 word \<Rightarrow> (SST \<times> files \<times> 64 word) option" where
  "flush_sst env compression m next_id w =
     (if cc_enable compression then SST_memtable_compressed env compression m next_id w
      else SST_memtable env m next_id w)"

definition ToSST :: "'c sst_env \<Rightarrow> memtable \<Rightarrow> DB \<Rightarrow> DB option" where
  "ToSST env m d =
     (let next_id = db_sst_id d + 1; compression = cfg_compression (db_config d) in
      do {
        (sst, fs, c) \<leftarrow> flush_sst env compression m next_id (db_files d, db_counter d);
        if db_manifests d = [] then None
        else do {
          (old, new) \<leftarrow> InsertAndUpdate (last (db_manifests d)) sst;
          can \<leftarrow> CanDoCompaction new;
          (new, fs, c, next_id) \<leftarrow>
            (if can
             then do { (new, fs, c) \<leftarrow>
                         SizeTieredCompaction env compression (int_of_size (next_id + 1)) (new, fs, c);
                       Some (new, fs, c, next_id + 1) }
             else Some (new, fs, c, next_id));
          Some (d\<lparr>db_sst_id := next_id, db_files := fs, db_counter := c,
                  db_manifests := butlast (db_manifests d) @ [old, new]\<rparr>) } })"

definition flush_done :: "'c sst_env \<Rightarrow> DB \<Rightarrow> DB option" where
  "flush_done env d =
     (case db_flushing d of
        None \<Rightarrow> None
      | Some m \<Rightarrow> do { d \<leftarrow> ToSST env m d; Some (d\<lparr>db_flushing := None\<rparr>) })"

subsection \<open>Closing\<close>

text \<open>
  The destructor queues the memtable if it has entries, lets the flush thread finish the memtable
  it holds and drain the queue, and saves the last manifest version.
\<close>

fun flush_all :: "'c sst_env \<Rightarrow> memtable list \<Rightarrow> DB \<Rightarrow> DB option" where
  "flush_all env [] d = Some d"
| "flush_all env (m # ms) d = do { d \<leftarrow> ToSST env m d; flush_all env ms d }"

definition db_close :: "'c sst_env \<Rightarrow> DB \<Rightarrow> (files \<times> bytes option \<times> 64 word) option" where
  "db_close env d =
     do { let ms = (case db_flushing d of None \<Rightarrow> [] | Some m \<Rightarrow> [m]) @ db_flush_queue d @
                     (if 0 < mt_size (db_memtable d) then [db_memtable d] else []);
          d \<leftarrow> flush_all env ms d;
          data \<leftarrow> manifest_Save (last (db_manifests d)) (db_manifest_file d);
          Some (db_files d, Some data, db_counter d) }"

text \<open>\<^verbatim>\<open>GetCompressionRatio\<close> as the quotient of two sizes; the second one is twice the first.\<close>

definition compression_sizes :: "DB \<Rightarrow> nat \<times> nat" where
  "compression_sizes d =
     (let total = (\<Sum>mf\<leftarrow>db_manifests d. \<Sum>lv\<leftarrow>mf_levels mf. level_binary_size lv) in (total, 2 * total))"

subsection \<open>Interleaving\<close>

datatype client = Idle | NeedSwap | NeedQueue memtable
datatype label = LPut string string | LClient | LWorker

inductive db_step :: "'c sst_env \<Rightarrow> DB \<times> client \<Rightarrow> label \<Rightarrow> DB \<times> client \<Rightarrow> bool" for env where
  small: "put_mem k v d = Some d' \<Longrightarrow> \<not> over_limit d' \<Longrightarrow> db_step env (d, Idle) (LPut k v) (d', Idle)"
| big: "put_mem k v d = Some d' \<Longrightarrow> over_limit d' \<Longrightarrow> db_step env (d, Idle) (LPut k v) (d', NeedSwap)"
| swap: "put_swap d = (d', Some m) \<Longrightarrow> db_step env (d, NeedSwap) LClient (d', NeedQueue m)"
| noswap: "put_swap d = (d', None) \<Longrightarrow> db_step env (d, NeedSwap) LClient (d', Idle)"
| enqueue: "db_step env (d, NeedQueue m) LClient (put_enqueue m d, Idle)"
| take: "db_flushing d = None \<Longrightarrow> flush_take d = Some d' \<Longrightarrow> db_step env (d, cl) LWorker (d', cl)"
| flush: "flush_done env d = Some d' \<Longrightarrow> db_step env (d, cl) LWorker (d', cl)"

inductive db_run :: "'c sst_env \<Rightarrow> DB \<times> client \<Rightarrow> label list \<Rightarrow> DB \<times> client \<Rightarrow> bool" for env where
  run_nil: "db_run env s [] s"
| run_snoc: "db_run env s ls s' \<Longrightarrow> db_step env s' l s'' \<Longrightarrow> db_run env s (ls @ [l]) s''"

text \<open>The same steps as a function, since each label leaves the section no choice.\<close>

fun exec_step :: "'c sst_env \<Rightarrow> label \<Rightarrow> DB \<times> client \<Rightarrow> (DB \<times> client) option" where
  "exec_step env (LPut k v) (d, Idle) =
     map_option (\<lambda>d'. (d', if over_limit d' then NeedSwap else Idle)) (put_mem k v d)"
| "exec_step env (LPut k v) (d, NeedSwap) = None"
| "exec_step env (LPut k v) (d, NeedQueue m) = None"
| "exec_step env LClient (d, Idle) = None"
| "exec_step env LClient (d, NeedSwap) =
     (case put_swap d of (d', Some m) \<Rightarrow> Some (d', NeedQueue m) | (d', None) \<Rightarrow> Some (d', Idle))"
| "exec_step env LClient (d, NeedQueue m) = Some (put_enqueue m d, Idle)"
| "exec_step env LWorker (d, cl) =
     map_option (\<lambda>d'. (d', cl)) (if db_flushing d = None then flush_take d else flush_done env d)"

fun exec_run :: "'c sst_env \<Rightarrow> label list \<Rightarrow> DB \<times> client \<Rightarrow> (DB \<times> client) option" where
  "exec_run env [] s = Some s"
| "exec_run env (l # ls) s = do { s \<leftarrow> exec_step env l s; exec_run env ls s }"

lemma exec_step_iff: "db_step env s l s' \<longleftrightarrow> exec_step env l s = Some s'"
proof
  show "exec_step env l s = Some s'" if "db_step env s l s'"
    using that by cases (auto simp: flush_done_def)
  show "db_step env s l s'" if "exec_step env l s = Some s'"
    using that
    by (induction env l s rule: exec_step.induct)
      (auto intro: db_step.intros split: prod.splits option.splits if_splits)
qed

lemma db_run_trans: "db_run env s ls s' \<Longrightarrow> db_run env s' ls' s'' \<Longrightarrow> db_run env s (ls @ ls') s''"
proof (rotate_tac, induction rule: db_run.induct)
  case (run_snoc t ks t' l t'')
  then show ?case using db_run.run_snoc [of env s "ls @ ks" t' l t''] by simp
qed simp

lemma exec_run_append: "exec_run env (ls @ ls') s = Option.bind (exec_run env ls s) (exec_run env ls')"
  by (induction ls arbitrary: s) (auto split: bind_splits)

lemma exec_run_iff: "db_run env s ls s' \<longleftrightarrow> exec_run env ls s = Some s'"
proof
  show "exec_run env ls s = Some s'" if "db_run env s ls s'"
    using that by induction (auto simp: exec_run_append exec_step_iff)
  show "db_run env s ls s'" if "exec_run env ls s = Some s'"
    using that
  proof (induction ls arbitrary: s)
    case (Cons l ls)
    then obtain t where "exec_step env l s = Some t" "db_run env t ls s'" by (auto simp: bind_eq_Some_conv)
    then show ?case
      using db_run_trans [OF db_run.run_snoc [OF db_run.run_nil], of env s l t ls s'] by (simp add: exec_step_iff)
  qed (auto intro: db_run.run_nil)
qed

end
