(* ===== verification/DB_Correct.thy ===== *)
theory DB_Correct
  imports DB
begin

text \<open>
  The database as a map.  \<open>db_holds\<close> relates a state to the sequence of its entries, newest first:
  memtable, memtable in the client's hand, flush queue, memtable in the flush thread's hand,
  levels.  Every critical section keeps the map of that sequence, except the first one of \<^verbatim>\<open>Put\<close>,
  which overrides one key.
\<close>

subsection \<open>The disk\<close>

definition disk_entries :: "entry list list list \<Rightarrow> entry set" where
  "disk_entries esss = set (concat (concat esss))"

text \<open>\<open>N\<close> bounds the number of flushes so far.\<close>

definition disk_ok :: "'c sst_env \<Rightarrow> nat \<Rightarrow> DB \<Rightarrow> entry list list list \<Rightarrow> bool" where
  "disk_ok env N d esss =
     (db_manifests d \<noteq> [] \<and> manifest_ok env (db_files d) (last (db_manifests d)) esss \<and> length esss \<le> 2 \<and>
      ids_ok (db_sst_id d) (manifest_ids (last (db_manifests d))) \<and> db_sst_id d \<le> 2 * N \<and>
      mf_version (last (db_manifests d)) \<le> N + 1)"

text \<open>What is required of all entries that are ever written.\<close>

definition store_ok :: "'c sst_env \<Rightarrow> CompressionConfig \<Rightarrow> entry set \<Rightarrow> bool" where
  "store_ok env config E = (fits env E \<and> shallow env E \<and> codec_ok env config \<and> [] \<notin> fst ` E)"

lemma int_of_size_small: "n < 2 ^ 31 \<Longrightarrow> int_of_size n = int n"
  by (simp add: int_of_size_def signed_of_nat signed_take_bit_int_eq_self)

lemma fits_small: "fits env E \<Longrightarrow> es \<noteq> [] \<Longrightarrow> sorted_keys es \<Longrightarrow> set es \<subseteq> E \<Longrightarrow> sst_bound env es < max_file"
  by (simp add: fits_def)

lemma manifest_ok_other:
  assumes "manifest_ok env fs mf esss" "fid \<notin> manifest_ids mf"
  shows "manifest_ok env (fs(fid \<mapsto> mem)) mf esss"
  using assms levels_ok_other [of env fs 0 "mf_levels mf" esss fid mem]
  by (auto simp: manifest_ok_def manifest_ids_def level_ids_def)

lemma InsertAndUpdate_ok:
  assumes "manifest_ok env fs mf esss" "table_ok env fs sst es"
  obtains old new where "InsertAndUpdate mf sst = Some (old, new)"
    "manifest_ok env fs new ((hd esss @ [es]) # tl esss)" "mf_version new = mf_version mf + 1"
    "manifest_ids new = insert (sst_id sst) (manifest_ids mf)"
proof -
  obtain ess rest where esss: "esss = ess # rest" using assms(1) by (cases esss) (auto simp: manifest_ok_def)
  obtain lv lvs where lv: "mf_levels mf = lv # lvs"
    using assms(1) esss by (cases "mf_levels mf") (auto simp: manifest_ok_def)
  define mf1 where "mf1 = (if mf_max_sst_id mf < unat (word_of_int (sst_id sst) :: 64 word)
    then mf\<lparr>mf_max_sst_id := unat (word_of_int (sst_id sst) :: 64 word)\<rparr> else mf)"
  have mf1: "mf_levels mf1 = mf_levels mf" "mf_version mf1 = mf_version mf" by (simp_all add: mf1_def)
  have "manifest_ok env fs (manifest_copy mf1) (ess # rest)"
    using assms(1) esss mf1 by (simp add: manifest_ok_def manifest_copy_def)
  from manifest_Insert_ok [OF this assms(2)] obtain new where
    new: "manifest_Insert (manifest_copy mf1) sst = Some new" "manifest_ok env fs new ((ess @ [es]) # rest)" by blast
  have "InsertAndUpdate mf sst = Some (mf1, new)"
    using new(1) by (simp add: InsertAndUpdate_def Let_def mf1_def [symmetric])
  moreover have "mf_version new = mf_version mf + 1" "manifest_ids new = insert (sst_id sst) (manifest_ids mf)"
    using new(1) lv mf1 by (auto simp: manifest_Insert_def manifest_copy_def manifest_ids_def level_Insert_def) blast
  ultimately show thesis using that new(2) esss by simp
qed

lemma flush_table_ok:
  assumes "mt_holds m es" "es \<noteq> []" "sst_bound env es < max_file" "codec_ok env config" "n < 2 ^ 31"
  obtains sst c' where
    "flush_sst env config m n (fs, c) = Some (sst, fs(int n \<mapsto> sst_data sst), c')"
    "sst_id sst = int n" "table_ok env (fs(int n \<mapsto> sst_data sst)) sst es"
proof -
  have sorted: "sorted_keys es" using mt_reads(1) [OF assms(1)] .
  have "length es < size_max" using assms(3) by (simp add: sst_bound_def)
  note eqs = SST_memtable_eq [OF assms(1) this]
  have "flush_sst env config m n (fs, c) = new_table env config es (int n) (fs, c)"
    by (simp add: flush_sst_def eqs new_table_def int_of_size_small [OF assms(5)])
  then show thesis
    using new_table_ok [OF assms(2) sorted assms(3,4), of "int n" fs c] that by auto
qed

lemma levels_seq_flush:
  "esss \<noteq> [] \<Longrightarrow> levels_seq 0 ((hd esss @ [es]) # tl esss) = es @ levels_seq 0 esss"
  by (cases esss) (auto simp: level_seq_def)

lemma disk_entries_flush: "esss \<noteq> [] \<Longrightarrow> disk_entries ((hd esss @ [es]) # tl esss) = set es \<union> disk_entries esss"
  by (cases esss) (auto simp: disk_entries_def)

lemma CanDoCompaction_ok: "manifest_ok env fs mf esss \<Longrightarrow> \<exists>b. CanDoCompaction mf = Some b"
  by (cases "mf_levels mf"; cases esss) (auto simp: CanDoCompaction_def manifest_ok_def)

lemma ToSST_ok:
  assumes disk: "disk_ok env N d esss" and m: "mt_holds m es" "es \<noteq> []"
    and E: "set es \<subseteq> E" "disk_entries esss \<subseteq> E" and ok: "store_ok env (cfg_compression (db_config d)) E"
    and N: "2 * N + 2 < 2 ^ 31"
  obtains fs c n mfs esss' where "ToSST env m d = Some (d\<lparr>db_sst_id := n, db_files := fs, db_counter := c, db_manifests := mfs\<rparr>)"
    "disk_ok env (N + 1) (d\<lparr>db_sst_id := n, db_files := fs, db_counter := c, db_manifests := mfs\<rparr>) esss'"
    "map_of (levels_seq 0 esss') = map_of (es @ levels_seq 0 esss)" "disk_entries esss' \<subseteq> set es \<union> disk_entries esss"
proof -
  let ?mf = "last (db_manifests d)" and ?id = "db_sst_id d + 1" and ?cfg = "cfg_compression (db_config d)"
  have D: "db_manifests d \<noteq> []" "manifest_ok env (db_files d) ?mf esss" "length esss \<le> 2"
    "ids_ok (db_sst_id d) (manifest_ids ?mf)" "db_sst_id d \<le> 2 * N" "mf_version ?mf \<le> N + 1"
    using disk by (simp_all add: disk_ok_def)
  have S: "fits env E" "shallow env E" "codec_ok env ?cfg" "[] \<notin> fst ` E" using ok by (simp_all add: store_ok_def)
  have ne: "esss \<noteq> []" using D(2) by (simp add: manifest_ok_def)
  have id: "?id < 2 ^ 31" "?id + 1 < 2 ^ 31" using D(5) N by simp_all
  have fresh: "int ?id \<notin> manifest_ids ?mf" "int (?id + 1) \<notin> manifest_ids ?mf"
    using D(4) by (auto simp: ids_ok_def)
  obtain sst c1 where sst: "flush_sst env ?cfg m ?id (db_files d, db_counter d) =
      Some (sst, (db_files d)(int ?id \<mapsto> sst_data sst), c1)"
    "sst_id sst = int ?id" "table_ok env ((db_files d)(int ?id \<mapsto> sst_data sst)) sst es"
    using flush_table_ok [OF m fits_small [OF S(1) m(2) mt_reads(1) [OF m(1)] E(1)] S(3) id(1)] .
  let ?fs = "(db_files d)(int ?id \<mapsto> sst_data sst)"
  obtain old new where ins: "InsertAndUpdate ?mf sst = Some (old, new)"
    "manifest_ok env ?fs new ((hd esss @ [es]) # tl esss)" "mf_version new = mf_version ?mf + 1"
    "manifest_ids new = insert (int ?id) (manifest_ids ?mf)"
    using InsertAndUpdate_ok [OF manifest_ok_other [OF D(2) fresh(1)] sst(3)] sst(2) by metis
  let ?esss = "(hd esss @ [es]) # tl esss"
  have len: "length ?esss \<le> 2" using D(3) ne by (cases esss) auto
  have ent: "disk_entries ?esss \<subseteq> E" "disk_entries ?esss = set es \<union> disk_entries esss"
    using disk_entries_flush [OF ne] E by auto
  have mp: "map_of (levels_seq 0 ?esss) = map_of (es @ levels_seq 0 esss)" by (simp only: levels_seq_flush [OF ne])
  obtain b where can: "CanDoCompaction new = Some b" using CanDoCompaction_ok [OF ins(2)] by blast
  show thesis
  proof (cases b)
    case False
    have "ToSST env m d = Some (d\<lparr>db_sst_id := ?id, db_files := ?fs, db_counter := c1,
        db_manifests := butlast (db_manifests d) @ [old, new]\<rparr>)"
      using sst(1) ins(1) can False D(1) by (simp add: ToSST_def Let_def)
    moreover have "ids_ok ?id (manifest_ids new)" using D(4) id(1) ins(4) by (auto simp: ids_ok_def)
    ultimately show thesis
      using that [where n = ?id and fs = ?fs and c = c1 and mfs = "butlast (db_manifests d) @ [old, new]", OF _ _ mp] ins(2,3) D(5,6) len ent
      by (simp add: disk_ok_def)
  next
    case True
    have keys: "[] \<notin> fst ` set (concat (concat ?esss))" using S(4) ent(1) unfolding disk_entries_def by blast
    have sub: "set (concat (concat ?esss)) \<subseteq> E" using ent(1) by (simp only: disk_entries_def)
    have fresh2: "int (?id + 1) \<notin> manifest_ids new" using fresh(2) ins(4) by simp
    from True can have can': "CanDoCompaction new = Some True" by simp
    obtain mf' fs' c' esss' where C: "SizeTieredCompaction env ?cfg (int (?id + 1)) (new, ?fs, c1) = Some (mf', fs', c')"
      "manifest_ok env fs' mf' esss'" "map_of (levels_seq 0 esss') = map_of (levels_seq 0 ?esss)"
      "set (concat (concat esss')) \<subseteq> set (concat (concat ?esss))" "length esss' = max (length ?esss) 2"
      "mf_version mf' = mf_version new" "manifest_ids mf' \<subseteq> insert (int (?id + 1)) (manifest_ids new)"
      using SizeTieredCompaction_ok [OF ins(2) can' fresh2 keys sub S(1,2,3)] .
    have "ToSST env m d = Some (d\<lparr>db_sst_id := ?id + 1, db_files := fs', db_counter := c',
        db_manifests := butlast (db_manifests d) @ [old, mf']\<rparr>)"
      using sst(1) ins(1) can' C(1) D(1) int_of_size_small [OF id(2)] by (simp add: ToSST_def Let_def)
    moreover have "ids_ok (?id + 1) (manifest_ids mf')"
      using D(4) id(2) ins(4) C(7) by (fastforce simp: ids_ok_def)
    moreover have "disk_entries esss' \<subseteq> set es \<union> disk_entries esss" using C(4) ent(2) by (simp add: disk_entries_def)
    moreover have "length esss' \<le> 2" using C(5) len by simp
    moreover have mp': "map_of (levels_seq 0 esss') = map_of (es @ levels_seq 0 esss)" using C(3) mp by simp
    ultimately show thesis
      using that [where n = "?id + 1" and fs = fs' and c = c' and mfs = "butlast (db_manifests d) @ [old, mf']", OF _ _ mp'] C(2,6) ins(3) D(5,6)
      by (simp add: disk_ok_def)
  qed
qed

subsection \<open>The whole state\<close>

definition opt_holds :: "memtable option \<Rightarrow> entry list \<Rightarrow> bool" where
  "opt_holds m es = (case m of None \<Rightarrow> es = [] | Some m \<Rightarrow> mt_holds m es \<and> es \<noteq> [])"

definition in_hand :: "client \<Rightarrow> memtable option" where
  "in_hand cl = (case cl of NeedQueue m \<Rightarrow> Some m | _ \<Rightarrow> None)"

record contents =
  co_mem :: "entry list"
  co_hand :: "entry list"
  co_queue :: "entry list list"
  co_flushing :: "entry list"
  co_disk :: "entry list list list"

definition co_seq :: "contents \<Rightarrow> entry list" where
  "co_seq co = co_mem co @ co_hand co @ concat (rev (co_queue co)) @ co_flushing co @ levels_seq 0 (co_disk co)"

definition co_entries :: "contents \<Rightarrow> entry set" where
  "co_entries co =
     set (co_mem co) \<union> set (co_hand co) \<union> set (concat (co_queue co)) \<union> set (co_flushing co) \<union>
     disk_entries (co_disk co)"

definition db_holds :: "'c sst_env \<Rightarrow> nat \<Rightarrow> DB \<times> client \<Rightarrow> contents \<Rightarrow> bool" where
  "db_holds env N s co =
     (case s of (d, cl) \<Rightarrow>
        mt_holds (db_memtable d) (co_mem co) \<and> opt_holds (in_hand cl) (co_hand co) \<and>
        list_all2 mt_holds (db_flush_queue d) (co_queue co) \<and> [] \<notin> set (co_queue co) \<and>
        opt_holds (db_flushing d) (co_flushing co) \<and> disk_ok env N d (co_disk co))"

lemma queue_Get_holds:
  "list_all2 mt_holds ms ess \<Longrightarrow> queue_Get ms k = Some (map_of (concat ess) k)"
  by (induction ms ess rule: list_all2_induct) (auto simp: mt_reads(2) map_add_def split: option.splits)

text \<open>A lookup sees everything but the memtables in the hands of the client and the flush thread.\<close>

lemma db_Get_holds:
  assumes "db_holds env N (d, cl) co"
  shows "db_Get d k = Some (visible (map_of (co_mem co @ concat (rev (co_queue co)) @ levels_seq 0 (co_disk co)) k))"
proof -
  have h: "mt_holds (db_memtable d) (co_mem co)" "list_all2 mt_holds (rev (db_flush_queue d)) (rev (co_queue co))"
    "db_manifests d \<noteq> []" "manifest_ok env (db_files d) (last (db_manifests d)) (co_disk co)"
    using assms by (simp_all add: db_holds_def disk_ok_def)
  show ?thesis
    using h(3) by (simp add: db_Get_def mt_reads(2) [OF h(1)] queue_Get_holds [OF h(2)] manifest_Get_ok [OF h(4)]
        map_add_def split: option.splits)
qed

lemma mt_over_nonempty: "mt_holds m es \<Longrightarrow> n < unat (mt_binary_size m) \<Longrightarrow> es \<noteq> []"
  using mt_sizes [of m es] by (auto simp: esize_def)

lemma put_mem_ok:
  assumes "db_holds env N (d, Idle) co"
  obtains d' where "put_mem k v d = Some d'"
    "\<forall>cl. in_hand cl = None \<longrightarrow> db_holds env N (d', cl) (co\<lparr>co_mem := sput k v (co_mem co)\<rparr>)"
proof -
  have "mt_holds (db_memtable d) (co_mem co)" using assms by (simp add: db_holds_def)
  then obtain m' c' where m: "mt_Put (db_counter d) (db_memtable d) k v = Some (m', c')"
    "mt_holds m' (sput k v (co_mem co))"
    using mt_Put_holds by blast
  have "put_mem k v d = Some (d\<lparr>db_memtable := m', db_counter := c'\<rparr>)" using m(1) by (simp add: put_mem_def)
  moreover have "db_holds env N (d\<lparr>db_memtable := m', db_counter := c'\<rparr>, cl) (co\<lparr>co_mem := sput k v (co_mem co)\<rparr>)"
    if "in_hand cl = None" for cl
    using assms m(2) that by (simp add: db_holds_def disk_ok_def) (simp add: in_hand_def)
  ultimately show thesis using that by simp
qed

lemma step_config: "db_step env (d, cl) l (d', cl') \<Longrightarrow> db_config d' = db_config d"
  by (erule db_step.cases)
    (auto simp: put_mem_def put_swap_def put_enqueue_def flush_take_def flush_done_def ToSST_def Let_def
      bind_eq_Some_conv split: if_splits list.splits option.splits)

subsection \<open>Steps\<close>

fun lab_map :: "label \<Rightarrow> (string \<rightharpoonup> string) \<Rightarrow> (string \<rightharpoonup> string)" where
  "lab_map (LPut k v) m = m(k \<mapsto> v)"
| "lab_map LClient m = m"
| "lab_map LWorker m = m"

fun lab_entries :: "label \<Rightarrow> entry set" where
  "lab_entries (LPut k v) = {(k, v)}"
| "lab_entries LClient = {}"
| "lab_entries LWorker = {}"

lemma sput_subset: "set (sput k v es) \<subseteq> insert (k, v) (set es)"
  by (induction k v es rule: sput.induct) auto

lemma map_of_prefix: "map_of xs = map_of ys \<Longrightarrow> map_of (xs @ zs) = map_of (ys @ zs)"
  by simp

lemma co_put:
  "map_of (co_seq (co\<lparr>co_mem := sput k v (co_mem co)\<rparr>)) = (map_of (co_seq co))(k \<mapsto> v)"
  "co_entries (co\<lparr>co_mem := sput k v (co_mem co)\<rparr>) \<subseteq> insert (k, v) (co_entries co)"
  using sput_subset [of k v "co_mem co"] by (auto simp: co_seq_def co_entries_def)

lemma disk_ok_mono: "disk_ok env N d esss \<Longrightarrow> disk_ok env (N + 1) d esss"
  by (auto simp: disk_ok_def)

lemma db_holds_mono: "db_holds env N s co \<Longrightarrow> db_holds env (N + 1) s co"
  using disk_ok_mono by (auto simp: db_holds_def)

lemma in_hand_simps [simp]: "in_hand Idle = None" "in_hand NeedSwap = None" "in_hand (NeedQueue m) = Some m"
  by (simp_all add: in_hand_def)

lemma disk_ok_cong:
  "disk_ok env N (d\<lparr>db_flushing := x\<rparr>) esss = disk_ok env N d esss"
  "disk_ok env N (d\<lparr>db_flush_queue := q\<rparr>) esss = disk_ok env N d esss"
  "disk_ok env N (d\<lparr>db_memtable := m\<rparr>) esss = disk_ok env N d esss"
  by (simp_all add: disk_ok_def)

lemma flush_done_ok:
  assumes h: "db_holds env N (d, cl) co" and f: "db_flushing d = Some m"
    and E: "co_entries co \<subseteq> E" and ok: "store_ok env (cfg_compression (db_config d)) E" and N: "2 * N + 2 < 2 ^ 31"
  obtains d' co' where "flush_done env d = Some d'" "db_holds env (N + 1) (d', cl) co'"
    "map_of (co_seq co') = map_of (co_seq co)" "co_entries co' \<subseteq> co_entries co"
proof -
  have m: "mt_holds m (co_flushing co)" "co_flushing co \<noteq> []" and disk: "disk_ok env N d (co_disk co)"
    using h f by (simp_all add: db_holds_def opt_holds_def)
  have sub: "set (co_flushing co) \<subseteq> E" "disk_entries (co_disk co) \<subseteq> E" using E by (auto simp: co_entries_def)
  obtain fs c n mfs esss' where T: "ToSST env m d = Some (d\<lparr>db_sst_id := n, db_files := fs, db_counter := c, db_manifests := mfs\<rparr>)"
    "disk_ok env (N + 1) (d\<lparr>db_sst_id := n, db_files := fs, db_counter := c, db_manifests := mfs\<rparr>) esss'"
    "map_of (levels_seq 0 esss') = map_of (co_flushing co @ levels_seq 0 (co_disk co))"
    "disk_entries esss' \<subseteq> set (co_flushing co) \<union> disk_entries (co_disk co)"
    using ToSST_ok [OF disk m sub ok N] .
  let ?d = "d\<lparr>db_flushing := None, db_sst_id := n, db_files := fs, db_counter := c, db_manifests := mfs\<rparr>"
  let ?co = "co\<lparr>co_flushing := [], co_disk := esss'\<rparr>"
  have "flush_done env d = Some ?d" using f T(1) by (simp add: flush_done_def)
  moreover have "db_holds env (N + 1) (?d, cl) ?co"
    using h T(2) by (simp add: db_holds_def opt_holds_def disk_ok_def)
  moreover have "map_of (co_seq ?co) = map_of (co_seq co)" using T(3) by (simp add: co_seq_def map_add_assoc)
  moreover have "co_entries ?co \<subseteq> co_entries co" using T(4) by (auto simp: co_entries_def)
  ultimately show thesis using that by blast
qed

lemma flush_take_ok:
  assumes h: "db_holds env N (d, cl) co" and f: "db_flushing d = None" "flush_take d = Some d'"
  obtains co' where "db_holds env N (d', cl) co'" "map_of (co_seq co') = map_of (co_seq co)"
    "co_entries co' = co_entries co"
proof -
  obtain m ms where q: "db_flush_queue d = m # ms" "d' = d\<lparr>db_flush_queue := ms, db_flushing := Some m\<rparr>"
    using f(2) by (auto simp: flush_take_def split: list.splits)
  obtain es ess where c: "co_queue co = es # ess" "mt_holds m es" "list_all2 mt_holds ms ess" "es \<noteq> []"
    using h q(1) by (auto simp: db_holds_def list_all2_Cons1)
  have empty: "co_flushing co = []" using h f(1) by (simp add: db_holds_def opt_holds_def)
  let ?co = "co\<lparr>co_queue := ess, co_flushing := es\<rparr>"
  have "db_holds env N (d', cl) ?co"
    using h q c by (auto simp: db_holds_def opt_holds_def disk_ok_def)
  moreover have "map_of (co_seq ?co) = map_of (co_seq co)" using c(1) empty by (simp add: co_seq_def)
  moreover have "co_entries ?co = co_entries co" using c(1) empty by (auto simp: co_entries_def)
  ultimately show thesis using that by blast
qed

text \<open>The sections of a put: the write to the memtable, and the exchange of a full one.\<close>

lemma put_mem_step:
  assumes "db_holds env N (d, Idle) co" "put_mem k v d = Some d'" "in_hand cl = None"
  shows "db_holds env (N + 1) (d', cl) (co\<lparr>co_mem := sput k v (co_mem co)\<rparr>)"
  using put_mem_ok [where d = d and co = co and k = k and v = v] assms db_holds_mono by (metis option.sel)

lemma put_swap_step:
  assumes h: "db_holds env N (d, cl) co" "in_hand cl = None" and s: "put_swap d = (d', Some m)" "in_hand cl' = Some m"
  shows "db_holds env (N + 1) (d', cl') (co\<lparr>co_mem := [], co_hand := co_mem co\<rparr>)" "co_hand co = []"
proof -
  have m: "m = db_memtable d" "d' = d\<lparr>db_memtable := mt_new\<rparr>" "over_limit d" using s(1) by (auto simp: put_swap_def split: if_splits)
  have ne: "co_mem co \<noteq> []" using h(1) m(3) mt_over_nonempty by (auto simp: db_holds_def over_limit_def)
  show "co_hand co = []" using h by (simp add: db_holds_def opt_holds_def)
  show "db_holds env (N + 1) (d', cl') (co\<lparr>co_mem := [], co_hand := co_mem co\<rparr>)"
    using h m ne s mt_new_holds disk_ok_mono by (auto simp: db_holds_def opt_holds_def disk_ok_cong)
qed

lemma db_step_ok:
  assumes step: "db_step env (d, cl) l (d', cl')" and h: "db_holds env N (d, cl) co"
    and E: "co_entries co \<union> lab_entries l \<subseteq> E" and ok: "store_ok env (cfg_compression (db_config d)) E"
    and N: "2 * N + 2 < 2 ^ 31"
  obtains co' where "db_holds env (N + 1) (d', cl') co'" "map_of (co_seq co') = lab_map l (map_of (co_seq co))"
    "co_entries co' \<subseteq> co_entries co \<union> lab_entries l"
  using step
proof (cases rule: db_step.cases)
  case (small k v)
  then have "db_holds env (N + 1) (d', cl') (co\<lparr>co_mem := sput k v (co_mem co)\<rparr>)" using put_mem_step h by (metis in_hand_simps(1,2))
  then show thesis using that [of "co\<lparr>co_mem := sput k v (co_mem co)\<rparr>"] co_put [where co = co and k = k and v = v] small by simp
next
  case (big k v)
  then have "db_holds env (N + 1) (d', cl') (co\<lparr>co_mem := sput k v (co_mem co)\<rparr>)" using put_mem_step h by (metis in_hand_simps(1,2))
  then show thesis using that [of "co\<lparr>co_mem := sput k v (co_mem co)\<rparr>"] co_put [where co = co and k = k and v = v] big by simp
next
  case (swap m)
  then have "db_holds env (N + 1) (d', cl') (co\<lparr>co_mem := [], co_hand := co_mem co\<rparr>)" "co_hand co = []"
    using put_swap_step [OF h, where m = m and d' = d' and cl' = cl'] by simp_all
  then show thesis using that [of "co\<lparr>co_mem := [], co_hand := co_mem co\<rparr>"] swap by (auto simp: co_seq_def co_entries_def)
next
  case noswap
  then have "d' = d" by (auto simp: put_swap_def split: if_splits)
  then show thesis
    using that [of co] db_holds_mono [OF h] noswap by (auto simp: db_holds_def)
next
  case (enqueue m)
  let ?co = "co\<lparr>co_hand := [], co_queue := co_queue co @ [co_hand co]\<rparr>"
  have "db_holds env (N + 1) (d', cl') ?co"
    using h enqueue disk_ok_mono
    by (auto simp: db_holds_def opt_holds_def in_hand_def put_enqueue_def disk_ok_cong intro!: list_all2_appendI)
  then show thesis using that [of ?co] enqueue by (auto simp: co_seq_def co_entries_def)
next
  case take
  obtain co' where "db_holds env N (d', cl') co'" "map_of (co_seq co') = map_of (co_seq co)"
    "co_entries co' = co_entries co"
    using flush_take_ok [OF h] take by metis
  then show thesis using that [of co'] take db_holds_mono by fastforce
next
  case flush
  obtain m where f: "db_flushing d = Some m" using flush by (auto simp: flush_done_def split: option.splits)
  have sub: "co_entries co \<subseteq> E" using E by simp
  obtain d1 co' where "flush_done env d = Some d1" "db_holds env (N + 1) (d1, cl) co'"
    "map_of (co_seq co') = map_of (co_seq co)" "co_entries co' \<subseteq> co_entries co"
    using flush_done_ok [OF h f sub ok N] .
  then show thesis using that [of co'] flush by simp
qed

subsection \<open>Runs\<close>

definition run_entries :: "label list \<Rightarrow> entry set" where
  "run_entries ls = (\<Union>l \<in> set ls. lab_entries l)"

lemma db_run_config: "db_run env s ls s' \<Longrightarrow> db_config (fst s') = db_config (fst s)"
proof (induction rule: db_run.induct)
  case (run_snoc s ls s' l s'')
  then show ?case using step_config [of env "fst s'" "snd s'" l "fst s''" "snd s''"] by simp
qed simp

lemma db_run_ok:
  assumes "db_run env s ls s'" "db_holds env N s co"
    and "co_entries co \<union> run_entries ls \<subseteq> E" "store_ok env (cfg_compression (db_config (fst s))) E"
    and "2 * (N + length ls) + 2 < 2 ^ 31"
  shows "\<exists>co'. db_holds env (N + length ls) s' co' \<and> map_of (co_seq co') = fold lab_map ls (map_of (co_seq co)) \<and>
    co_entries co' \<subseteq> co_entries co \<union> run_entries ls"
  using assms
proof (induction rule: db_run.induct)
  case (run_nil s)
  then show ?case by auto
next
  case (run_snoc s ls s' l s'')
  obtain d cl d' cl' where s: "s' = (d, cl)" "s'' = (d', cl')" by (cases s'; cases s'')
  have ent: "run_entries (ls @ [l]) = run_entries ls \<union> lab_entries l" by (auto simp: run_entries_def)
  obtain co' where IH: "db_holds env (N + length ls) (d, cl) co'"
    "map_of (co_seq co') = fold lab_map ls (map_of (co_seq co))" "co_entries co' \<subseteq> co_entries co \<union> run_entries ls"
    using run_snoc.IH run_snoc.prems s ent by auto
  have cfg: "db_config d = db_config (fst s)" using db_run_config [OF run_snoc.hyps(1)] s by simp
  have st: "db_step env (d, cl) l (d', cl')" using run_snoc.hyps(2) s by simp
  have sub: "co_entries co' \<union> lab_entries l \<subseteq> E" using IH(3) run_snoc.prems(2) ent by auto
  have n: "2 * (N + length ls) + 2 < 2 ^ 31" using run_snoc.prems(4) by simp
  obtain co'' where "db_holds env (N + length ls + 1) (d', cl') co''"
    "map_of (co_seq co'') = lab_map l (map_of (co_seq co'))" "co_entries co'' \<subseteq> co_entries co' \<union> lab_entries l"
    using db_step_ok [OF st IH(1) sub _ n] run_snoc.prems(3) cfg by metis
  then show ?case using IH(2,3) s ent by (intro exI [of _ co'']) auto
qed

text \<open>A fresh database.\<close>

definition fresh :: contents where
  "fresh = \<lparr>co_mem = [], co_hand = [], co_queue = [], co_flushing = [], co_disk = [[]]\<rparr>"

lemma fresh_simps [simp]: "co_seq fresh = []" "co_entries fresh = {}"
  by (simp_all add: fresh_def co_seq_def co_entries_def level_seq_def disk_entries_def)

lemma db_open_fresh:
  obtains d where "db_open env config (Map.empty, None, c) = Some d" "db_holds env 0 (d, Idle) fresh"
    "db_config d = config" "db_flushing d = None"
proof -
  let ?mf = "\<lparr>mf_version = 1, mf_levels = [\<lparr>lv_level = 0, lv_ssts = []\<rparr>], mf_max_sst_id = 0\<rparr>"
  have "manifest_ok env Map.empty ?mf [[]]" "manifest_ids ?mf = {}"
    by (simp_all add: manifest_ok_def level_ok_def manifest_ids_def)
  then show thesis
    using that mt_new_holds
    by (simp add: db_open_def manifest_open_def db_holds_def fresh_def opt_holds_def disk_ok_def ids_ok_def)
qed

text \<open>The whole of \<^verbatim>\<open>Put\<close>, run without interruption, is a run of its sections.\<close>

lemma db_Put_run:
  assumes "db_Put k v d = Some d'"
  shows "\<exists>ls. set ls \<subseteq> {LClient} \<and> length ls \<le> 2 \<and> db_run env (d, Idle) (LPut k v # ls) (d', Idle)"
proof -
  obtain d1 where 1: "put_mem k v d = Some d1" using assms by (auto simp: db_Put_def bind_eq_Some_conv)
  show ?thesis
  proof (cases "over_limit d1")
    case False
    then have "d' = d1" using assms 1 by (simp add: db_Put_def)
    then show ?thesis
      using db_run.run_snoc [OF db_run.run_nil db_step.small [OF 1 False]] by (intro exI [of _ "[]"]) auto
  next
    case True
    then have sw: "put_swap d1 = (d1\<lparr>db_memtable := mt_new\<rparr>, Some (db_memtable d1))" by (simp add: put_swap_def)
    then have d': "d' = put_enqueue (db_memtable d1) (d1\<lparr>db_memtable := mt_new\<rparr>)"
      using assms 1 True by (simp add: db_Put_def)
    have "db_run env (d, Idle) [LPut k v] (d1, NeedSwap)"
      using db_run.run_snoc [OF db_run.run_nil db_step.big [OF 1 True]] by simp
    from db_run.run_snoc [OF db_run.run_snoc [OF this db_step.swap [OF sw]] db_step.enqueue] d'
    show ?thesis by (intro exI [of _ "[LClient, LClient]"]) auto
  qed
qed

subsection \<open>Closing and opening again\<close>

lemma flush_all_ok:
  assumes "list_all2 mt_holds ms ess" "[] \<notin> set ess" "disk_ok env N d esss"
    and "set (concat ess) \<union> disk_entries esss \<subseteq> E" "store_ok env (cfg_compression (db_config d)) E"
    and "2 * (N + length ms) + 2 < 2 ^ 31"
  shows "\<exists>d' esss'. flush_all env ms d = Some d' \<and> disk_ok env (N + length ms) d' esss' \<and>
    map_of (levels_seq 0 esss') = map_of (concat (rev ess) @ levels_seq 0 esss) \<and>
    db_manifest_file d' = db_manifest_file d"
  using assms
proof (induction ms ess arbitrary: d N esss rule: list_all2_induct)
  case (Cons m ms es ess)
  have sub: "set es \<subseteq> E" "disk_entries esss \<subseteq> E" and es: "es \<noteq> []" and n: "2 * N + 2 < 2 ^ 31"
    using Cons.prems by auto
  obtain fs c i mfs esss1 where T: "ToSST env m d = Some (d\<lparr>db_sst_id := i, db_files := fs, db_counter := c, db_manifests := mfs\<rparr>)"
    "disk_ok env (N + 1) (d\<lparr>db_sst_id := i, db_files := fs, db_counter := c, db_manifests := mfs\<rparr>) esss1"
    "map_of (levels_seq 0 esss1) = map_of (es @ levels_seq 0 esss)" "disk_entries esss1 \<subseteq> set es \<union> disk_entries esss"
    using ToSST_ok [OF Cons.prems(2) Cons.hyps(1) es sub Cons.prems(4) n] .
  let ?d = "d\<lparr>db_sst_id := i, db_files := fs, db_counter := c, db_manifests := mfs\<rparr>"
  have "set (concat ess) \<union> disk_entries esss1 \<subseteq> E" using T(4) Cons.prems(3) by auto
  then obtain d' esss' where R: "flush_all env ms ?d = Some d'" "disk_ok env (N + 1 + length ms) d' esss'"
    "map_of (levels_seq 0 esss') = map_of (concat (rev ess) @ levels_seq 0 esss1)"
    "db_manifest_file d' = db_manifest_file ?d"
    using Cons.IH [of "N + 1" ?d esss1] Cons.prems T(2) by auto
  then show ?case using T(1,3) by (intro exI [of _ d'] exI [of _ esss']) simp
qed auto

lemma db_close_ok:
  assumes h: "db_holds env N (d, Idle) co" and E: "co_entries co \<subseteq> E"
    and ok: "store_ok env (cfg_compression (db_config d)) E"
    and N: "2 * (N + length (co_queue co) + 2) + 2 < 2 ^ 31"
    and len: "length (co_mem co) < size_max"
  shows "\<exists>w d' co'. db_close env d = Some w \<and> db_open env config w = Some d' \<and>
    db_holds env (N + length (co_queue co) + 2) (d', Idle) co' \<and> map_of (co_seq co') = map_of (co_seq co)"
proof -
  let ?ms = "(case db_flushing d of None \<Rightarrow> [] | Some m \<Rightarrow> [m]) @ db_flush_queue d @
     (if 0 < mt_size (db_memtable d) then [db_memtable d] else [])"
  let ?ess = "(if co_flushing co = [] then [] else [co_flushing co]) @ co_queue co @
     (if co_mem co = [] then [] else [co_mem co])"
  have mem: "mt_holds (db_memtable d) (co_mem co)" using h by (simp add: db_holds_def)
  have "0 < mt_size (db_memtable d) \<longleftrightarrow> co_mem co \<noteq> []"
    using mt_sizes [OF mem] len by (auto simp: word_gt_0 word_of_nat_eq_0_iff dest: nat_dvd_not_less)
  then have l2: "list_all2 mt_holds ?ms ?ess" "[] \<notin> set ?ess"
    using h by (auto simp: db_holds_def opt_holds_def intro!: list_all2_appendI split: option.splits)
  have seq: "concat (rev ?ess) @ levels_seq 0 (co_disk co) = co_seq co"
    using h by (auto simp: co_seq_def db_holds_def opt_holds_def)
  have msl: "length ?ms \<le> length (co_queue co) + 2"
    using list_all2_lengthD [OF l2(1)] by simp
  have sub: "set (concat ?ess) \<union> disk_entries (co_disk co) \<subseteq> E" using E by (auto simp: co_entries_def)
  have disk: "disk_ok env N d (co_disk co)" using h by (simp add: db_holds_def)
  obtain d1 esss where F: "flush_all env ?ms d = Some d1" "disk_ok env (N + length ?ms) d1 esss"
    "map_of (levels_seq 0 esss) = map_of (co_seq co)"
    using flush_all_ok [OF l2 disk sub ok] N msl seq by fastforce
  let ?mf = "last (db_manifests d1)"
  have m: "manifest_ok env (db_files d1) ?mf esss" "ids_ok (db_sst_id d1) (manifest_ids ?mf)"
    "mf_version ?mf \<le> N + length ?ms + 1" "length esss \<le> 2" "db_sst_id d1 \<le> 2 * (N + length ?ms)"
    using F(2) by (simp_all add: disk_ok_def)
  have small: "mf_version ?mf < size_max" "length (mf_levels ?mf) < size_max"
    using m(3,4) N msl levels_ok_length [OF conjunct2 [OF m(1) [unfolded manifest_ok_def]]] by simp_all
  obtain data mf' where S: "manifest_Save ?mf (db_manifest_file d1) = Some data"
    "manifest_open env (db_files d1) (Some data) = Some mf'" "manifest_ok env (db_files d1) mf' esss"
    "manifest_ids mf' = manifest_ids ?mf" "mf_version mf' = mf_version ?mf" "mf_max_sst_id mf' \<le> db_sst_id d1"
    "\<forall>fid \<in> manifest_ids ?mf. fid \<le> int (mf_max_sst_id mf')"
    using manifest_open_Save [OF m(1,2) small, of "db_manifest_file d1"] .
  let ?w = "(db_files d1, Some data, db_counter d1)"
  have close: "db_close env d = Some ?w" using F(1) S(1) by (simp add: db_close_def)
  obtain d' where d': "db_open env config ?w = Some d'" "db_manifests d' = [mf']" "db_files d' = db_files d1"
    "db_sst_id d' = mf_max_sst_id mf'" "db_memtable d' = mt_new" "db_flush_queue d' = []" "db_flushing d' = None"
    using S(2) by (simp add: db_open_def)
  let ?co = "\<lparr>co_mem = [], co_hand = [], co_queue = [], co_flushing = [], co_disk = esss\<rparr>"
  have "disk_ok env (N + length (co_queue co) + 2) d' esss"
    using d' S(3-7) m(2-5) msl by (auto simp: disk_ok_def ids_ok_def)
  then have "db_holds env (N + length (co_queue co) + 2) (d', Idle) ?co"
    using d' mt_new_holds by (simp add: db_holds_def opt_holds_def)
  moreover have "map_of (co_seq ?co) = map_of (co_seq co)" using F(3) by (simp add: co_seq_def)
  ultimately show ?thesis using close d'(1) by blast
qed

lemma db_run_queue:
  "db_run env s ls s' \<Longrightarrow> length (db_flush_queue (fst s')) \<le> length (db_flush_queue (fst s)) + length ls"
proof (induction rule: db_run.induct)
  case (run_snoc s ls s' l s'')
  have "length (db_flush_queue (fst s'')) \<le> length (db_flush_queue (fst s')) + 1"
    using run_snoc.hyps(2)
    by (cases rule: db_step.cases)
      (auto simp: put_mem_def put_swap_def put_enqueue_def flush_take_def flush_done_def ToSST_def Let_def
        bind_eq_Some_conv split: if_splits list.splits option.splits)
  then show ?case using run_snoc.IH by simp
qed simp

subsection \<open>Limits\<close>

text \<open>
  What the floating-point formulas of the Bloom filter yield for the error rate 0.01:
  \<^verbatim>\<open>-log(0.01) / log(2) / log(2) * 2.35\<close> is about 22.53 bits per key, and
  \<^verbatim>\<open>0.69 * length_ / n\<close> at most 16 hash functions.
\<close>

definition bloom_params_ok :: "'c sst_env \<Rightarrow> bool" where
  "bloom_params_ok env = (\<forall>n. 0 < n \<longrightarrow> calc_length env n \<le> 23 * n \<and> calc_hash_num env n \<le> 16)"

fun weight :: "entry \<Rightarrow> nat" where
  "weight (k, v) = 245 + 2 * length k + length v"

lemma bloom_size_bound: "bloom_params_ok env \<Longrightarrow> 0 < n \<Longrightarrow> bloom_size env n \<le> 161 + 3 * n"
proof -
  assume a: "bloom_params_ok env" "0 < n"
  have "calc_hash_num env n \<le> 16" using a unfolding bloom_params_ok_def by blast
  then have "nat (max 1 (calc_hash_num env n)) \<le> 16" by simp
  moreover have "(calc_length env n + 1) div 64 \<le> (23 * n + 1) div 64"
    using a by (intro div_le_mono) (simp add: bloom_params_ok_def)
  moreover have "64 * ((23 * n + 1) div 64) \<le> 23 * n + 1" by (rule times_div_less_eq_dividend)
  moreover have "24 + 8 * h + 8 * (p + 1) \<le> 161 + 3 * n" if "h \<le> 16" "p \<le> q" "64 * q \<le> 23 * n + 1" for h p q :: nat
  proof -
    have "8 * p \<le> 3 * n + 1" using that(2,3) by linarith
    then show ?thesis using that(1) by simp
  qed
  ultimately show ?thesis unfolding bloom_size_def by blast
qed

lemma sum_weight: "(\<Sum>(k, v)\<leftarrow>xs. length k + length v) + 245 * length xs + length (fst (hd xs)) \<le> sum_list (map weight xs)"
  if "xs \<noteq> []"
proof -
  have "(\<Sum>(k, v)\<leftarrow>xs. length k + length v) + 245 * length xs + (\<Sum>(k, v)\<leftarrow>xs. length k) = sum_list (map weight xs)" for xs
    by (induction xs) auto
  moreover have "length (fst (hd xs)) \<le> (\<Sum>(k, v)\<leftarrow>xs. length k)" using that by (cases xs) auto
  ultimately show ?thesis by (metis add_le_cancel_left)
qed

lemma sst_bound_weight:
  assumes "bloom_params_ok env" "xs \<noteq> []"
  shows "sst_bound env xs \<le> sum_list (map weight xs)"
proof -
  have "1 \<le> length xs" using assms(2) by (cases xs) auto
  then show ?thesis
    using bloom_size_bound [OF assms(1), of "length xs"] assms(2) sum_weight [OF assms(2)]
    by (simp add: sst_bound_def length_entry_bytes)
qed

lemma sum_list_distinct_le:
  assumes "sorted_keys xs" "set xs \<subseteq> E" "finite E"
  shows "sum_list (map weight xs) \<le> sum weight E"
proof -
  have "distinct xs" using sorted_keys_distinct [OF assms(1)] by (simp add: distinct_map)
  then have "sum_list (map weight xs) = sum weight (set xs)" by (simp add: sum_list_distinct_conv_sum_set)
  then show ?thesis using sum_mono2 [OF assms(3,2), of weight] by simp
qed

lemma limits:
  assumes bl: "bloom_params_ok env" and E: "finite E" "sum weight E \<le> 10 * 1024 * 1024"
  shows "fits env E" "shallow env E"
proof -
  show "fits env E"
    unfolding fits_def
  proof (intro allI impI)
    fix xs :: "entry list" assume xs: "xs \<noteq> []" "sorted_keys xs" "set xs \<subseteq> E"
    show "sst_bound env xs < max_file"
      using sst_bound_weight [OF bl xs(1)] sum_list_distinct_le [OF xs(2,3) E(1)] E(2) by simp
  qed
  show "shallow env E"
    unfolding shallow_def
  proof (intro allI impI)
    fix ess :: "entry list list"
    assume a: "sorted_keys (concat ess)" "\<forall>es \<in> set ess. es \<noteq> []" "set (concat ess) \<subseteq> E"
    have "(\<Sum>es\<leftarrow>ess. sst_bound env es) \<le> (\<Sum>es\<leftarrow>ess. sum_list (map weight es))"
      using a(2) sst_bound_weight [OF bl] by (intro sum_list_mono) simp
    also have "\<dots> = sum_list (map weight (concat ess))" by (induction ess) auto
    also have "\<dots> \<le> sum weight E" using sum_list_distinct_le [OF a(1,3) E(1)] .
    finally show "(\<Sum>es\<leftarrow>ess. sst_bound env es) \<le> level_max_binary_size 1"
      using E(2) by (simp add: level_max_binary_size_def)
  qed
qed

text \<open>A history that stays within the limits of the store.\<close>

definition within_limits :: "'c sst_env \<Rightarrow> CompressionConfig \<Rightarrow> label list \<Rightarrow> bool" where
  "within_limits env config ls =
     (bloom_params_ok env \<and> codec_ok env config \<and> [] \<notin> fst ` run_entries ls \<and>
      sum weight (run_entries ls) \<le> 10 * 1024 * 1024 \<and> length ls < 2 ^ 28)"

lemma finite_run_entries: "finite (run_entries ls)"
proof -
  have "finite (lab_entries l)" for l by (cases l) auto
  then show ?thesis by (simp add: run_entries_def)
qed

lemma within_store_ok: "within_limits env config ls \<Longrightarrow> store_ok env config (run_entries ls)"
  using limits [OF _ finite_run_entries] by (auto simp: within_limits_def store_ok_def)

lemma run_from_fresh:
  assumes lim: "within_limits env (cfg_compression config) ls"
    and op: "db_open env config (Map.empty, None, c) = Some d0" and run: "db_run env (d0, Idle) ls s"
  obtains co where "db_holds env (length ls) s co" "map_of (co_seq co) = fold lab_map ls Map.empty"
    "co_entries co \<subseteq> run_entries ls" "db_config (fst s) = config" "length (co_queue co) \<le> length ls"
proof -
  have d0: "db_holds env 0 (d0, Idle) fresh" "db_config d0 = config"
    using db_open_fresh [of env config c] op by auto
  have sub: "co_entries fresh \<union> run_entries ls \<subseteq> run_entries ls" by simp
  have n: "2 * (0 + length ls) + 2 < 2 ^ 31" using lim by (simp add: within_limits_def)
  obtain co where co: "db_holds env (length ls) s co" "map_of (co_seq co) = fold lab_map ls Map.empty"
    "co_entries co \<subseteq> run_entries ls"
    using db_run_ok [OF run d0(1) sub _ n] within_store_ok [OF lim] d0(2) by auto
  have "db_flush_queue d0 = []" using op by (auto simp: db_open_def bind_eq_Some_conv)
  then have "length (db_flush_queue (fst s)) \<le> length ls" using db_run_queue [OF run] by simp
  moreover have "length (db_flush_queue (fst s)) = length (co_queue co)"
    using co(1) by (auto simp: db_holds_def dest: list_all2_lengthD split: prod.splits)
  ultimately show thesis using that co db_run_config [OF run] d0(2) by simp
qed

subsection \<open>Progress\<close>

text \<open>No section of the client or of the flush thread gets stuck on a store within its limits.\<close>

lemma client_progress:
  assumes "db_holds env N (d, cl) co"
  shows "cl = Idle \<Longrightarrow> \<exists>s. db_step env (d, cl) (LPut k v) s"
    and "cl \<noteq> Idle \<Longrightarrow> \<exists>s. db_step env (d, cl) LClient s"
proof -
  show "\<exists>s. db_step env (d, cl) (LPut k v) s" if idle: "cl = Idle"
  proof -
    obtain d' where "put_mem k v d = Some d'"
      by (rule put_mem_ok [where d = d and co = co and k = k and v = v and env = env and N = N]) (use assms idle in auto)
    then show ?thesis using idle db_step.small db_step.big by metis
  qed
  show "\<exists>s. db_step env (d, cl) LClient s" if "cl \<noteq> Idle"
  proof (cases cl)
    case NeedSwap
    then show ?thesis
      using db_step.swap [of d] db_step.noswap [of d] by (cases "put_swap d"; cases "snd (put_swap d)") auto
  next
    case (NeedQueue m)
    then show ?thesis using db_step.enqueue by blast
  qed (use that in simp)
qed

lemma worker_flush:
  assumes h: "db_holds env N (d, cl) co" and E: "co_entries co \<subseteq> E"
    and ok: "store_ok env (cfg_compression (db_config d)) E" and N: "2 * N + 2 < 2 ^ 31"
  obtains d' co' ls where "db_run env (d, cl) ls (d', cl)" "set ls \<subseteq> {LWorker}" "length ls \<le> 1"
    "db_flushing d' = None" "db_flush_queue d' = db_flush_queue d" "db_holds env (N + 1) (d', cl) co'"
    "co_entries co' \<subseteq> E" "db_config d' = db_config d" "map_of (co_seq co') = map_of (co_seq co)"
proof (cases "db_flushing d")
  case None
  then show thesis using that [OF db_run.run_nil, of co] db_holds_mono [OF h] E by simp
next
  case (Some m)
  obtain d' co' where f: "flush_done env d = Some d'" "db_holds env (N + 1) (d', cl) co'"
    "map_of (co_seq co') = map_of (co_seq co)" "co_entries co' \<subseteq> co_entries co"
    using flush_done_ok [OF h Some E ok N] .
  have st: "db_step env (d, cl) LWorker (d', cl)" using f(1) by (rule db_step.flush)
  have "db_flushing d' = None" "db_flush_queue d' = db_flush_queue d"
    using f(1) by (auto simp: flush_done_def ToSST_def Let_def bind_eq_Some_conv split: option.splits if_splits)
  moreover have "db_run env (d, cl) [LWorker] (d', cl)" using db_run.run_snoc [OF db_run.run_nil st] by simp
  ultimately show thesis using that [of "[LWorker]" d' co'] f E step_config [OF st] by auto
qed

text \<open>The flush thread alone empties the queue.\<close>

lemma worker_drains:
  assumes "db_holds env N (d, cl) co" "co_entries co \<subseteq> E" "store_ok env (cfg_compression (db_config d)) E"
    and "2 * (N + 2 * length (db_flush_queue d)) + 2 < 2 ^ 31"
  shows "\<exists>d' ls. db_run env (d, cl) ls (d', cl) \<and> set ls \<subseteq> {LWorker} \<and> length ls \<le> 2 * length (db_flush_queue d) + 1 \<and>
    db_flushing d' = None \<and> db_flush_queue d' = []"
  using assms
proof (induction "length (db_flush_queue d)" arbitrary: d co N)
  case 0
  have "2 * N + 2 < 2 ^ 31" using 0(5) by simp
  then obtain d1 ls1 where "db_run env (d, cl) ls1 (d1, cl)" "set ls1 \<subseteq> {LWorker}" "length ls1 \<le> 1"
    "db_flushing d1 = None" "db_flush_queue d1 = db_flush_queue d"
    using worker_flush [OF 0(2,3,4)] by metis
  then show ?case using 0(1) by (intro exI [of _ d1] exI [of _ ls1]) auto
next
  case (Suc n)
  have "2 * N + 2 < 2 ^ 31" using Suc.prems(4) by simp
  then obtain d1 co1 ls1 where 1: "db_run env (d, cl) ls1 (d1, cl)" "set ls1 \<subseteq> {LWorker}" "length ls1 \<le> 1"
    "db_flushing d1 = None" "db_flush_queue d1 = db_flush_queue d" "db_holds env (N + 1) (d1, cl) co1"
    "co_entries co1 \<subseteq> E" "db_config d1 = db_config d"
    by (rule worker_flush [OF Suc.prems(1-3)]) (rule that)
  obtain m ms where q: "db_flush_queue d1 = m # ms" "length ms = n"
    using Suc.hyps(2) 1(5) by (metis length_Suc_conv)
  then obtain d2 where d2: "flush_take d1 = Some d2" "db_flush_queue d2 = ms" "db_config d2 = db_config d1"
    by (auto simp: flush_take_def)
  obtain co2 where co2: "db_holds env (N + 1) (d2, cl) co2" "co_entries co2 = co_entries co1"
    using flush_take_ok [OF 1(6,4) d2(1)] by metis
  have "\<exists>d' ls. db_run env (d2, cl) ls (d', cl) \<and> set ls \<subseteq> {LWorker} \<and> length ls \<le> 2 * length (db_flush_queue d2) + 1 \<and>
      db_flushing d' = None \<and> db_flush_queue d' = []"
    proof (rule Suc.hyps(1) [OF _ co2(1)])
    show "n = length (db_flush_queue d2)" using d2(2) q(2) by simp
    show "co_entries co2 \<subseteq> E" using co2(2) 1(7) by simp
    show "store_ok env (cfg_compression (db_config d2)) E" using Suc.prems(3) d2(3) 1(8) by simp
    show "2 * (N + 1 + 2 * length (db_flush_queue d2)) + 2 < 2 ^ 31"
      using Suc.prems(4) Suc.hyps(2) d2(2) q(2) by simp
  qed
  then obtain d' ls where 2: "db_run env (d2, cl) ls (d', cl)" "set ls \<subseteq> {LWorker}" "length ls \<le> 2 * n + 1"
    "db_flushing d' = None" "db_flush_queue d' = []"
    using d2(2) q(2) by auto
  have "db_run env (d, cl) (ls1 @ [LWorker] @ ls) (d', cl)"
    using db_run_trans [OF 1(1) db_run_trans [OF db_run.run_snoc [OF db_run.run_nil db_step.take [OF 1(4) d2(1)]] 2(1)]] by simp
  then show ?case using 1(2,3) 2 Suc.hyps(2)
    by (intro exI [of _ d'] exI [of _ "ls1 @ [LWorker] @ ls"]) auto
qed

end
