(* ===== verification/DB_Theorems.thy ===== *)
theory DB_Theorems
  imports DB_Correct Example_Env
begin

text \<open>
  The properties of the database as its clients see it: lookups answer like the map of the writes,
  closing and reopening keeps that map, no section gets stuck and the flush thread empties its queue;
  and the two situations in which a written value is not seen.
\<close>

definition example_config :: "bool \<Rightarrow> nat \<Rightarrow> DBConfig" where
  "example_config compressed limit =
     \<lparr>cfg_compression = \<lparr>cc_type = kLZ4, cc_enable = compressed, cc_min_size = 0\<rparr>, cfg_memtable_max_size = limit\<rparr>"

lemma example_params: "bloom_params_ok example_env" "codec_ok example_env (cfg_compression (example_config b n))"
  using run_codec_roundtrip by (simp_all add: bloom_params_ok_def example_env_def codec_ok_def example_config_def)

section \<open>Lookups\<close>

text \<open>
  C1: Let any history of client and flush-thread sections run on a new store (within the limits: non-empty
  keys, at most 10 MB of weighted entries, a codec that restores its input).  When the client is
  between calls and the flush thread holds no memtable, \<^verbatim>\<open>DB::Get\<close> returns, for every key, the last value
  put and not deleted since, wherever it lies by then: in the memtable, in the flush queue, in a table
  file or in a file that compaction has merged.
\<close>
theorem db_Get_latest:
  assumes "within_limits env (cfg_compression config) ls"
    and "db_open env config (Map.empty, None, c) = Some d0" and "db_run env (d0, Idle) ls (d, Idle)"
    and "db_flushing d = None"
  shows "db_Get d k = Some (visible (fold lab_map ls Map.empty k))"
proof -
  obtain co where co: "db_holds env (length ls) (d, Idle) co" "map_of (co_seq co) = fold lab_map ls Map.empty"
    using run_from_fresh [OF assms(1-3)] by metis
  have "co_hand co = []" "co_flushing co = []"
    using co(1) assms(4) by (simp_all add: db_holds_def opt_holds_def)
  then show ?thesis using db_Get_holds [OF co(1)] co(2) by (simp add: co_seq_def)
qed

text \<open>Two full memtables are queued and the flush thread writes them to table files.\<close>

definition example_puts :: "label list" where
  "example_puts = [LPut ''a'' ''1'', LClient, LClient, LPut ''b'' ''2'', LClient, LClient]"

definition example_d0 :: "bool \<Rightarrow> DB" where
  "example_d0 compressed = the (db_open example_env (example_config compressed 1) (Map.empty, None, 0))"

lemma example_open: "db_open example_env (example_config b 1) (Map.empty, None, 0) = Some (example_d0 b)"
  by (simp add: example_d0_def db_open_def manifest_open_def)

lemma example_limits:
  "set ls \<subseteq> {LWorker, LClient} \<Longrightarrow> length ls \<le> 1000 \<Longrightarrow>
     within_limits example_env (cfg_compression (example_config b 1)) (example_puts @ ls)"
proof -
  assume a: "set ls \<subseteq> {LWorker, LClient}" "length ls \<le> 1000"
  have "run_entries (example_puts @ ls) = {(''a'', ''1''), (''b'', ''2'')}"
    using a(1) by (fastforce simp: run_entries_def example_puts_def)
  then show ?thesis
    using example_params(1) example_params(2) [of b 1] a(2) by (simp add: within_limits_def example_puts_def)
qed

lemma example_queued:
  obtains d where "db_run example_env (example_d0 b, Idle) example_puts (d, Idle)" "length (db_flush_queue d) = 2"
    "db_flushing d = None"
proof -
  let ?s = "exec_run example_env example_puts (example_d0 b, Idle)"
  have "case ?s of Some (d, Idle) \<Rightarrow> length (db_flush_queue d) = 2 \<and> Option.is_none (db_flushing d) | _ \<Rightarrow> False"
    by (cases b) code_simp+
  then show thesis
    using that by (auto simp: exec_run_iff Option.is_none_def split: option.splits prod.splits client.splits)
qed

lemma example_flushed:
  obtains d ls where "db_run example_env (example_d0 b, Idle) (example_puts @ ls) (d, Idle)" "set ls \<subseteq> {LWorker}"
    "length ls \<le> 1000" "db_flush_queue d = []" "db_flushing d = None"
proof -
  obtain d where d: "db_run example_env (example_d0 b, Idle) example_puts (d, Idle)" "length (db_flush_queue d) = 2"
    "db_flushing d = None"
    using example_queued .
  have lim: "within_limits example_env (cfg_compression (example_config b 1)) example_puts"
    using example_limits [of "[]"] by simp
  obtain co where co: "db_holds example_env (length example_puts) (d, Idle) co"
    "co_entries co \<subseteq> run_entries example_puts" "db_config d = example_config b 1"
    using run_from_fresh [OF lim example_open d(1)] by (metis fst_conv)
  have "2 * (length example_puts + 2 * length (db_flush_queue d)) + 2 < 2 ^ 31" using d(2) by (simp add: example_puts_def)
  from worker_drains [OF co(1,2) _ this] within_store_ok [OF lim] co(3) d(2)
  obtain d' ls where "db_run example_env (d, Idle) ls (d', Idle)" "set ls \<subseteq> {LWorker}" "length ls \<le> 5"
    "db_flushing d' = None" "db_flush_queue d' = []" by auto
  then show thesis using that [of ls d'] db_run_trans [OF d(1)] by simp
qed

theorem db_Get_latest_witness:
  "\<exists>d ls. set ls \<subseteq> {LWorker} \<and> db_run example_env (example_d0 True, Idle) (example_puts @ ls) (d, Idle) \<and>
     db_flush_queue d = [] \<and> db_Get d ''a'' = Some (Some ''1'')"
proof -
  obtain d ls where r: "db_run example_env (example_d0 True, Idle) (example_puts @ ls) (d, Idle)" "set ls \<subseteq> {LWorker}"
    "length ls \<le> 1000" "db_flush_queue d = []" "db_flushing d = None"
    using example_flushed .
  have "fold lab_map ls m = m" for m using r(2) by (induction ls) auto
  then have "fold lab_map (example_puts @ ls) Map.empty ''a'' = Some ''1''" by (simp add: example_puts_def)
  moreover have "set ls \<subseteq> {LWorker, LClient}" using r(2) by auto
  ultimately have "db_Get d ''a'' = Some (visible (Some ''1''))"
    using db_Get_latest [OF example_limits example_open r(1,5), of "''a''"] r(3) by simp
  then show ?thesis using r by (auto simp: visible_def IsTombstone_def TombstoneValue_def)
qed

section \<open>Closing and opening again\<close>

text \<open>
  C2: After any such history, at a moment when the client is between calls (whatever the flush thread is
  doing), destroying the store succeeds and opening its directory again succeeds; the new store
  answers every lookup like the old history demands.
\<close>
theorem db_reopen:
  assumes "within_limits env (cfg_compression config) ls"
    and "db_open env config (Map.empty, None, c) = Some d0" and "db_run env (d0, Idle) ls (d, Idle)"
  shows "\<exists>w d'. db_close env d = Some w \<and> db_open env config' w = Some d' \<and>
    (\<forall>k. db_Get d' k = Some (visible (fold lab_map ls Map.empty k)))"
proof -
  obtain co where co: "db_holds env (length ls) (d, Idle) co" "map_of (co_seq co) = fold lab_map ls Map.empty"
    "co_entries co \<subseteq> run_entries ls" "db_config d = config" "length (co_queue co) \<le> length ls"
    using run_from_fresh [OF assms] by (metis fst_conv)
  note ok = within_store_ok [OF assms(1)]
  have mem: "sorted_keys (co_mem co)" "set (co_mem co) \<subseteq> run_entries ls"
    using co(1,3) mt_reads(1) by (auto simp: db_holds_def co_entries_def)
  have "length (co_mem co) < size_max"
  proof (cases "co_mem co = []")
    case False
    then have "sst_bound env (co_mem co) < max_file" using fits_small [OF _ False mem, of env] ok by (simp add: store_ok_def)
    then show ?thesis by (simp add: sst_bound_def)
  qed simp
  moreover have "2 * (length ls + length (co_queue co) + 2) + 2 < 2 ^ 31"
    using assms(1) co(5) by (simp add: within_limits_def)
  ultimately obtain w d' co' where w: "db_close env d = Some w" "db_open env config' w = Some d'"
    "db_holds env (length ls + length (co_queue co) + 2) (d', Idle) co'" "map_of (co_seq co') = map_of (co_seq co)"
    using db_close_ok [OF co(1,3)] ok co(4) by metis
  have "db_flushing d' = None" using w(2) by (auto simp: db_open_def bind_eq_Some_conv split: prod.splits)
  then have "co_hand co' = []" "co_flushing co' = []" using w(3) by (simp_all add: db_holds_def opt_holds_def)
  then have "db_Get d' k = Some (visible (fold lab_map ls Map.empty k))" for k
    using db_Get_holds [OF w(3)] w(4) co(2) by (simp add: co_seq_def)
  then show ?thesis using w by blast
qed

theorem db_reopen_witness:
  "\<exists>d w d'. db_run example_env (example_d0 True, Idle) example_puts (d, Idle) \<and> db_close example_env d = Some w \<and>
     db_open example_env (example_config False 7) w = Some d' \<and> db_Get d' ''b'' = Some (Some ''2'')"
proof -
  obtain d where d: "db_run example_env (example_d0 True, Idle) example_puts (d, Idle)"
    using example_queued .
  have "within_limits example_env (cfg_compression (example_config True 1)) example_puts"
    using example_limits [of "[]"] by simp
  from db_reopen [OF this example_open d, of "example_config False 7"] obtain w d' where
    w: "db_close example_env d = Some w" "db_open example_env (example_config False 7) w = Some d'"
    "db_Get d' ''b'' = Some (visible (fold lab_map example_puts Map.empty ''b''))" by blast
  then have "db_Get d' ''b'' = Some (Some ''2'')"
    by (simp add: example_puts_def visible_def IsTombstone_def TombstoneValue_def)
  then show ?thesis using d w by blast
qed

section \<open>Progress\<close>

text \<open>
  C5: In every state of such a history no section is stuck: an idle client can put any entry, a client
  inside \<^verbatim>\<open>Put\<close> can finish its next section, and the flush thread alone, in at most two steps
  per queued memtable and one more, reaches a state with an empty flush queue and no memtable in hand.
\<close>
theorem db_progress:
  assumes "within_limits env (cfg_compression config) ls"
    and "db_open env config (Map.empty, None, c) = Some d0" and "db_run env (d0, Idle) ls (d, cl)"
  shows "(if cl = Idle then \<forall>k v. \<exists>s. db_step env (d, cl) (LPut k v) s else \<exists>s. db_step env (d, cl) LClient s) \<and>
    (\<exists>d' ls'. db_run env (d, cl) ls' (d', cl) \<and> set ls' \<subseteq> {LWorker} \<and>
       length ls' \<le> 2 * length (db_flush_queue d) + 1 \<and> db_flush_queue d' = [] \<and> db_flushing d' = None)"
proof -
  obtain co where co: "db_holds env (length ls) (d, cl) co" "co_entries co \<subseteq> run_entries ls"
    "db_config d = config" "length (co_queue co) \<le> length ls"
    using run_from_fresh [OF assms] by (metis fst_conv)
  have "length (db_flush_queue d) = length (co_queue co)"
    using co(1) by (auto simp: db_holds_def dest: list_all2_lengthD)
  then have "2 * (length ls + 2 * length (db_flush_queue d)) + 2 < 2 ^ 31"
    using assms(1) co(4) by (simp add: within_limits_def)
  from worker_drains [OF co(1,2) _ this] within_store_ok [OF assms(1)] co(3) client_progress [OF co(1)]
  show ?thesis by auto
qed

theorem db_progress_witness:
  "\<exists>d d' ls. db_run example_env (example_d0 False, Idle) example_puts (d, Idle) \<and> length (db_flush_queue d) = 2 \<and>
     db_run example_env (d, Idle) ls (d', Idle) \<and> length ls \<le> 5 \<and> db_flush_queue d' = []"
proof -
  obtain d where d: "db_run example_env (example_d0 False, Idle) example_puts (d, Idle)" "length (db_flush_queue d) = 2"
    using example_queued .
  have "within_limits example_env (cfg_compression (example_config False 1)) example_puts"
    using example_limits [of "[]"] by simp
  from db_progress [OF this example_open d(1)] d show ?thesis by auto
qed

section \<open>What a lookup can miss\<close>

text \<open>
  With a memtable limit of 0, the entry of the first \<^verbatim>\<open>Put\<close> into a new store is not found by \<^verbatim>\<open>Get\<close> from
  the moment the flush thread has taken its memtable from the queue until the table is in the manifest,
  although the call has returned.
\<close>
theorem db_Get_gap:
  assumes "db_open env config (Map.empty, None, c) = Some d0" and "cfg_memtable_max_size config = 0"
    and "0 < length k + length v" "length k + length v < 2 ^ 64"
  shows "\<exists>d. db_run env (d0, Idle) [LPut k v, LClient, LClient, LWorker] (d, Idle) \<and> db_Get d k = Some None"
proof -
  have d0: "db_holds env 0 (d0, Idle) fresh" "db_config d0 = config" "db_flushing d0 = None"
    using db_open_fresh [of env config c] assms(1) by auto
  have queue: "db_flush_queue d0 = []" using assms(1) by (auto simp: db_open_def bind_eq_Some_conv)
  obtain d1 where d1: "put_mem k v d0 = Some d1"
    "db_holds env 0 (d1, Idle) (fresh\<lparr>co_mem := sput k v (co_mem fresh)\<rparr>)"
    by (rule put_mem_ok [OF d0(1), where k = k and v = v]) auto
  have same: "db_flush_queue d1 = []" "db_flushing d1 = None" "db_config d1 = config"
    using d1(1) d0(2,3) queue by (auto simp: put_mem_def bind_eq_Some_conv)
  have "mt_holds (db_memtable d1) [(k, v)]" using d1(2) by (simp add: db_holds_def fresh_def)
  then have "unat (mt_binary_size (db_memtable d1)) = length k + length v"
    using assms(4) mt_sizes by (simp add: esize_def unat_of_nat del: of_nat_add)
  then have ov: "over_limit d1" using assms(2,3) same(3) by (simp add: over_limit_def)
  let ?d = "d1\<lparr>db_memtable := mt_new, db_flush_queue := [], db_flushing := Some (db_memtable d1)\<rparr>"
  have "exec_run env [LPut k v, LClient, LClient, LWorker] (d0, Idle) = Some (?d, Idle)"
    using d1(1) ov same by (simp add: put_swap_def put_enqueue_def flush_take_def)
  then have run: "db_run env (d0, Idle) [LPut k v, LClient, LClient, LWorker] (?d, Idle)" by (simp add: exec_run_iff)
  have "db_holds env 0 (?d, Idle) (fresh\<lparr>co_flushing := [(k, v)]\<rparr>)"
    using d1(2) mt_new_holds by (auto simp: db_holds_def fresh_def opt_holds_def disk_ok_def)
  from db_Get_holds [OF this, of k] have "db_Get ?d k = Some None"
    by (simp add: fresh_def level_seq_def visible_def)
  then show ?thesis using run by blast
qed

theorem db_Get_gap_witness:
  "\<exists>d0 d. db_open example_env (example_config False 0) (Map.empty, None, 0) = Some d0 \<and>
     db_run example_env (d0, Idle) [LPut ''a'' ''1'', LClient, LClient, LWorker] (d, Idle) \<and> db_Get d ''a'' = Some None"
proof -
  obtain d0 where d0: "db_open example_env (example_config False 0) (Map.empty, None, 0) = Some d0"
    using db_open_fresh [of example_env "example_config False 0" 0] by auto
  from db_Get_gap [OF this, of "''a''" "''1''"] d0 show ?thesis by (simp add: example_config_def)
qed

lemma db_Put_holds:
  assumes "db_holds env N (d, Idle) co"
  obtains d' co' where "db_Put k v d = Some d'" "db_holds env N (d', Idle) co'"
    "map_of (co_mem co' @ concat (rev (co_queue co')) @ levels_seq 0 (co_disk co')) =
      (map_of (co_mem co @ concat (rev (co_queue co)) @ levels_seq 0 (co_disk co)))(k \<mapsto> v)"
    "co_hand co' = co_hand co" "co_flushing co' = co_flushing co" "co_entries co' \<subseteq> insert (k, v) (co_entries co)"
    "db_config d' = db_config d"
proof -
  obtain d1 where d1: "put_mem k v d = Some d1"
    "\<forall>cl. in_hand cl = None \<longrightarrow> db_holds env N (d1, cl) (co\<lparr>co_mem := sput k v (co_mem co)\<rparr>)"
    by (rule put_mem_ok [OF assms, where k = k and v = v]) auto
  then have h1: "db_holds env N (d1, Idle) (co\<lparr>co_mem := sput k v (co_mem co)\<rparr>)" by simp
  have cfg: "db_config d1 = db_config d" using d1(1) by (auto simp: put_mem_def bind_eq_Some_conv)
  note sub = co_put(2) [where co = co and k = k and v = v]
  show thesis
  proof (cases "over_limit d1")
    case False
    then show thesis using that [OF _ h1] d1(1) cfg sub by (simp add: db_Put_def)
  next
    case True
    let ?d = "put_enqueue (db_memtable d1) (d1\<lparr>db_memtable := mt_new\<rparr>)"
    let ?co = "co\<lparr>co_mem := [], co_queue := co_queue co @ [sput k v (co_mem co)]\<rparr>"
    have "list_all2 mt_holds (db_flush_queue d1 @ [db_memtable d1]) (co_queue co @ [sput k v (co_mem co)])"
      using h1 by (intro list_all2_appendI) (simp_all add: db_holds_def)
    moreover have "[] \<notin> set (co_queue co @ [sput k v (co_mem co)])"
      using h1 sput_not_Nil [of k v "co_mem co", symmetric] by (simp add: db_holds_def)
    ultimately have "db_holds env N (?d, Idle) ?co"
      using h1 mt_new_holds by (simp add: db_holds_def put_enqueue_def disk_ok_def)
    moreover have "db_Put k v d = Some ?d" using True d1(1) by (simp add: db_Put_def put_swap_def)
    moreover have "co_entries ?co \<subseteq> insert (k, v) (co_entries co)" using sub by (auto simp: co_entries_def)
    ultimately show thesis using that [of ?d ?co] cfg by (simp add: put_enqueue_def)
  qed
qed

text \<open>
  C6: \<^verbatim>\<open>Delete\<close> is a \<^verbatim>\<open>Put\<close> of the tombstone: it returns, the key no longer exists, every other key keeps
  its answer; a \<^verbatim>\<open>Put\<close> of any other value is read back, with every other key unchanged.  (So a
  client that stores the tombstone string itself reads it as deleted.)
\<close>
theorem db_Put_Delete_spec:
  assumes "db_holds env N (d, Idle) co"
  shows "\<exists>d'. db_Put k v d = Some d' \<and> db_Get d' k = Some (if v = TombstoneValue then None else Some v) \<and>
      (\<forall>j. j \<noteq> k \<longrightarrow> db_Get d' j = db_Get d j) \<and>
    (\<exists>d''. db_Delete k d = Some d'' \<and> db_Exists d'' k = Some False \<and> (\<forall>j. j \<noteq> k \<longrightarrow> db_Get d'' j = db_Get d j))"
proof -
  have put: "\<exists>d'. db_Put k v d = Some d' \<and> db_Get d' k = Some (visible (Some v)) \<and>
      (\<forall>j. j \<noteq> k \<longrightarrow> db_Get d' j = db_Get d j)" for v
  proof -
    obtain d' co' where d': "db_Put k v d = Some d'" "db_holds env N (d', Idle) co'"
      "map_of (co_mem co' @ concat (rev (co_queue co')) @ levels_seq 0 (co_disk co')) =
        (map_of (co_mem co @ concat (rev (co_queue co)) @ levels_seq 0 (co_disk co)))(k \<mapsto> v)"
      by (rule db_Put_holds [OF assms, where k = k and v = v])
    show ?thesis
      by (intro exI [of _ d']) (simp only: d' db_Get_holds [OF d'(2)] db_Get_holds [OF assms], simp)
  qed
  from put [of v] put [of TombstoneValue] show ?thesis
    by (auto simp: db_Delete_def db_Exists_def visible_def IsTombstone_def)
qed

theorem db_Put_Delete_witness:
  "\<exists>d. db_Put ''a'' ''1'' (example_d0 False) = Some d \<and> db_Get d ''a'' = Some (Some ''1'') \<and> db_Get d ''b'' = Some None"
proof -
  obtain d where d: "db_open example_env (example_config False 1) (Map.empty, None, 0) = Some d"
    "db_holds example_env 0 (d, Idle) fresh" using db_open_fresh .
  then have h: "db_holds example_env 0 (example_d0 False, Idle) fresh" using example_open by simp
  have b: "db_Get (example_d0 False) ''b'' = Some None" by code_simp
  have t: "''1'' \<noteq> TombstoneValue" by (simp add: TombstoneValue_def)
  from db_Put_Delete_spec [OF h, of "''a''" "''1''"] b t show ?thesis by auto
qed

end
