(* ===== verification/KVStore_Correct.thy ===== *)
theory KVStore_Correct
  imports KVStore
begin

text \<open>
  What \<^verbatim>\<open>DBKVStore\<close> keeps: \<open>db_rep\<close> relates a database with an idle flush thread to the map of its raw
  entries, \<open>kv_rep\<close> the store to the map of its user entries.  Each operation keeps \<open>kv_rep\<close>; closing
  and opening keeps the map, the index and the sizes.
\<close>

section \<open>The database as a map\<close>

definition db_rep :: "'c sst_env \<Rightarrow> nat \<Rightarrow> entry set \<Rightarrow> DB \<Rightarrow> (string \<rightharpoonup> string) \<Rightarrow> bool" where
  "db_rep env N E d m =
     (\<exists>co. db_holds env N (d, Idle) co \<and> co_flushing co = [] \<and> map_of (co_seq co) = m \<and> co_entries co \<subseteq> E)"

lemma db_holds_idle:
  assumes "db_holds env N (d, Idle) co" "co_flushing co = []"
  shows "co_seq co = co_mem co @ concat (rev (co_queue co)) @ levels_seq 0 (co_disk co)"
  using assms by (simp add: co_seq_def db_holds_def opt_holds_def)

lemma db_rep_Get: "db_rep env N E d m \<Longrightarrow> db_Get d k = Some (visible (m k))"
  using db_Get_holds db_holds_idle by (fastforce simp: db_rep_def)

lemma db_rep_Put:
  assumes "db_rep env N E d m"
  obtains d' where "db_Put k v d = Some d'" "db_rep env N (insert (k, v) E) d' (m(k \<mapsto> v))" "db_config d' = db_config d"
proof -
  obtain co where co: "db_holds env N (d, Idle) co" "co_flushing co = []" "map_of (co_seq co) = m" "co_entries co \<subseteq> E"
    using assms by (auto simp: db_rep_def)
  obtain d' co' where d': "db_Put k v d = Some d'" "db_holds env N (d', Idle) co'"
    "map_of (co_mem co' @ concat (rev (co_queue co')) @ levels_seq 0 (co_disk co')) =
      (map_of (co_mem co @ concat (rev (co_queue co)) @ levels_seq 0 (co_disk co)))(k \<mapsto> v)"
    "co_hand co' = co_hand co" "co_flushing co' = co_flushing co" "co_entries co' \<subseteq> insert (k, v) (co_entries co)"
    "db_config d' = db_config d"
    by (rule db_Put_holds [OF co(1), where k = k and v = v])
  have fl: "co_flushing co' = []" using d'(5) co(2) by simp
  have "map_of (co_seq co') = m(k \<mapsto> v)"
    unfolding db_holds_idle [OF d'(2) fl] d'(3) using co(3) unfolding db_holds_idle [OF co(1,2)] by simp
  moreover have "co_entries co' \<subseteq> insert (k, v) E" using d'(6) co(4) by blast
  ultimately have "db_rep env N (insert (k, v) E) d' (m(k \<mapsto> v))" using d'(2) fl unfolding db_rep_def by blast
  then show thesis using that d'(1,7) by blast
qed

lemma db_rep_open: "db_open env config (Map.empty, None, c) = Some d \<Longrightarrow> db_rep env 0 {} d Map.empty"
proof -
  assume "db_open env config (Map.empty, None, c) = Some d"
  then have "db_holds env 0 (d, Idle) fresh" using db_open_fresh [of env config c] by auto
  moreover have "co_flushing fresh = []" by (simp add: fresh_def)
  ultimately show ?thesis unfolding db_rep_def by (intro exI [of _ fresh]) simp
qed

text \<open>A complete run of the flush thread keeps the map.\<close>

lemma db_rep_flush:
  assumes "db_rep env N E d m" "db_flush_queue d \<noteq> []" "store_ok env (cfg_compression (db_config d)) E"
    and "2 * N + 2 < 2 ^ 31"
  shows "\<exists>d'. db_run env (d, Idle) [LWorker, LWorker] (d', Idle) \<and> db_rep env (N + 1) E d' m"
proof -
  obtain co where co: "db_holds env N (d, Idle) co" "co_flushing co = []" "map_of (co_seq co) = m" "co_entries co \<subseteq> E"
    using assms(1) by (auto simp: db_rep_def)
  have fl: "db_flushing d = None" using co(1,2) by (auto simp: db_holds_def opt_holds_def split: option.splits)
  obtain x xs where "db_flush_queue d = x # xs" using assms(2) by (cases "db_flush_queue d") auto
  then obtain d1 where d1: "flush_take d = Some d1" "db_flushing d1 = Some x" "db_config d1 = db_config d"
    by (simp add: flush_take_def)
  obtain co1 where co1: "db_holds env N (d1, Idle) co1" "map_of (co_seq co1) = map_of (co_seq co)"
    "co_entries co1 = co_entries co"
    using flush_take_ok [OF co(1) fl d1(1)] .
  have E: "co_entries co1 \<subseteq> E" using co1(3) co(4) by simp
  obtain d2 co2 where d2: "flush_done env d1 = Some d2" "db_holds env (N + 1) (d2, Idle) co2"
    "map_of (co_seq co2) = map_of (co_seq co1)" "co_entries co2 \<subseteq> co_entries co1"
    using flush_done_ok [OF co1(1) d1(2) E _ assms(4)] assms(3) d1(3) by metis
  have "db_flushing d2 = None" using d2(1) by (auto simp: flush_done_def bind_eq_Some_conv split: option.splits)
  then have "co_flushing co2 = []" using d2(2) by (simp add: db_holds_def opt_holds_def)
  then have "db_rep env (N + 1) E d2 m" using d2 co1(2) co(3) E unfolding db_rep_def by (intro exI [of _ co2]) auto
  moreover have "exec_run env [LWorker, LWorker] (d, Idle) = Some (d2, Idle)"
    using fl d1(1,2) d2(1) by simp
  ultimately show ?thesis unfolding exec_run_iff by blast
qed

section \<open>The key index\<close>

lemma getlines_SerializeKeys: "getlines (SerializeKeys keys) = map Escape (sort keys)"
  using getlines_unlines [of "map Escape (sort keys)"] by (simp add: SerializeKeys_def unlines_def o_def)

lemma DeserializeKeys_SerializeKeys: "[] \<notin> set keys \<Longrightarrow> DeserializeKeys (SerializeKeys keys) = sort keys"
proof -
  assume "[] \<notin> set keys"
  then have "filter (\<lambda>line. line \<noteq> []) (map Escape (sort keys)) = map Escape (sort keys)"
    by (auto simp: filter_id_conv)
  then show ?thesis
    by (simp add: DeserializeKeys_def getlines_SerializeKeys o_def)
qed

lemma SerializeKeys_not_Tombstone: "SerializeKeys keys \<noteq> TombstoneValue"
proof
  assume eq: "SerializeKeys keys = TombstoneValue"
  then have "keys \<noteq> []" by (auto simp: SerializeKeys_def TombstoneValue_def)
  then obtain k ks where "sort keys = ks @ [k]" by (metis length_0_conv length_sort rev_exhaust)
  then have "last (SerializeKeys keys) = NL" by (simp add: SerializeKeys_def)
  then show False unfolding eq by (simp add: TombstoneValue_def)
qed

lemma visible_SerializeKeys [simp]: "visible (Some (SerializeKeys keys)) = Some (SerializeKeys keys)"
  using SerializeKeys_not_Tombstone by (simp add: visible_def IsTombstone_def)

lemma reserved_meta [simp]: "IsReservedKey kMetaKeyIndex"
  by (simp add: IsReservedKey_def kMetaKeyIndex_def)

section \<open>Sizes\<close>

definition kv_bytes :: "(string \<rightharpoonup> string) \<Rightarrow> nat" where
  "kv_bytes f = (\<Sum>k \<in> dom f. length k + length (the (f k)))"

lemma kv_bytes_remove:
  assumes "finite (dom f)" "f k = Some p"
  shows "kv_bytes f = length k + length p + kv_bytes (f(k := None))"
proof -
  have "kv_bytes f = (length k + length (the (f k))) + (\<Sum>k' \<in> dom f - {k}. length k' + length (the (f k')))"
    using assms unfolding kv_bytes_def by (intro sum.remove) auto
  also have "(\<Sum>k' \<in> dom f - {k}. length k' + length (the (f k'))) = kv_bytes (f(k := None))"
    unfolding kv_bytes_def by (intro sum.cong) auto
  finally show ?thesis using assms(2) by simp
qed

lemma kv_bytes_upd:
  assumes "finite (dom f)"
  shows "kv_bytes (f(k \<mapsto> v)) = length k + length v + kv_bytes (f(k := None))"
  using kv_bytes_remove [of "f(k \<mapsto> v)" k v] assms by simp

lemma kv_bytes_None: "f k = None \<Longrightarrow> kv_bytes (f(k := None)) = kv_bytes f"
  by (simp add: fun_upd_idem)

section \<open>The store as a map\<close>

definition kv_rep :: "'c sst_env \<Rightarrow> nat \<Rightarrow> entry set \<Rightarrow> KVStore \<Rightarrow> (string \<rightharpoonup> string) \<Rightarrow> bool" where
  "kv_rep env N E s f =
     (\<exists>d m. kv_db s = Some d \<and> \<not> kv_closed s \<and> db_rep env N E d m \<and>
        (\<forall>k. \<not> IsReservedKey k \<longrightarrow> visible (m k) = f k) \<and> (\<forall>k \<in> dom f. \<not> IsReservedKey k) \<and>
        distinct (kv_known_keys s) \<and> set (kv_known_keys s) = dom f \<and> kv_tracked s = of_nat (kv_bytes f) \<and>
        visible (m kMetaKeyIndex) = (if m kMetaKeyIndex = None then None else Some (SerializeKeys (kv_known_keys s))) \<and>
        (m kMetaKeyIndex = None \<longrightarrow> kv_known_keys s = []))"

lemma kv_repE:
  assumes "kv_rep env N E s f"
  obtains d m where "kv_db s = Some d" "HealthCheck s" "db_rep env N E d m"
    "\<And>k. \<not> IsReservedKey k \<Longrightarrow> visible (m k) = f k" "\<And>k. IsReservedKey k \<Longrightarrow> f k = None"
    "distinct (kv_known_keys s)" "set (kv_known_keys s) = dom f" "kv_tracked s = of_nat (kv_bytes f)" "finite (dom f)"
    "m kMetaKeyIndex = None \<Longrightarrow> kv_known_keys s = []"
    "m kMetaKeyIndex \<noteq> None \<Longrightarrow> visible (m kMetaKeyIndex) = Some (SerializeKeys (kv_known_keys s))"
  using assms unfolding kv_rep_def HealthCheck_def by (metis List.finite_set domIff option.distinct(1))

lemma kv_repI:
  assumes "kv_db s = Some d" "\<not> kv_closed s" "db_rep env N E d (m(kMetaKeyIndex \<mapsto> SerializeKeys (kv_known_keys s)))"
    and "\<And>k. \<not> IsReservedKey k \<Longrightarrow> visible (m k) = f k" "\<And>k. IsReservedKey k \<Longrightarrow> f k = None"
    and "distinct (kv_known_keys s)" "set (kv_known_keys s) = dom f" "kv_tracked s = of_nat (kv_bytes f)"
  shows "kv_rep env N E s f"
proof -
  let ?m = "m(kMetaKeyIndex \<mapsto> SerializeKeys (kv_known_keys s))"
  have "\<forall>k. \<not> IsReservedKey k \<longrightarrow> visible (?m k) = f k" using assms(4) reserved_meta by (metis fun_upd_other)
  moreover have "\<forall>k \<in> dom f. \<not> IsReservedKey k" using assms(5) by auto
  moreover have "visible (?m kMetaKeyIndex) = (if ?m kMetaKeyIndex = None then None else Some (SerializeKeys (kv_known_keys s)))"
    by simp
  ultimately show ?thesis
    unfolding kv_rep_def using assms by (intro exI [of _ d] exI [of _ ?m]) simp
qed

lemma kv_rep_finite: "kv_rep env N E s f \<Longrightarrow> finite (dom f)"
  by (erule kv_repE)

lemma kv_rep_raw_Get: "kv_rep env N E s f \<Longrightarrow> \<not> IsReservedKey k \<Longrightarrow> kv_Get s k = Some (f k)"
  by (erule kv_repE) (simp add: kv_Get_def db_rep_Get)

lemma visible_user: "v \<noteq> TombstoneValue \<Longrightarrow> visible (Some v) = Some v"
  by (simp add: visible_def IsTombstone_def)

lemma visible_Tombstone: "visible (Some TombstoneValue) = None"
  by (simp add: visible_def IsTombstone_def)

lemma kv_rep_Put:
  assumes rep: "kv_rep env N E s f" and k: "\<not> IsReservedKey k" and v: "v \<noteq> TombstoneValue"
  shows "\<exists>s' keys. kv_Put k v s = Some (KVResult_OK, s') \<and>
    kv_rep env N (insert (kMetaKeyIndex, SerializeKeys keys) (insert (k, v) E)) s' (f(k \<mapsto> v)) \<and>
    distinct keys \<and> set keys = insert k (dom f)"
  using rep
proof (rule kv_repE)
  fix d m
  assume d: "kv_db s = Some d" "HealthCheck s" "db_rep env N E d m"
    and m: "\<And>k. \<not> IsReservedKey k \<Longrightarrow> visible (m k) = f k" "\<And>k. IsReservedKey k \<Longrightarrow> f k = None"
    and keys: "distinct (kv_known_keys s)" "set (kv_known_keys s) = dom f"
    and size: "kv_tracked s = of_nat (kv_bytes f)" "finite (dom f)"
  let ?known = "if k \<in> set (kv_known_keys s) then kv_known_keys s else kv_known_keys s @ [k]"
  obtain d1 where d1: "db_Put k v d = Some d1" "db_rep env N (insert (k, v) E) d1 (m(k \<mapsto> v))"
    by (rule db_rep_Put [OF d(3), where k = k and v = v])
  obtain d2 where d2: "db_Put kMetaKeyIndex (SerializeKeys ?known) d1 = Some d2"
    "db_rep env N (insert (kMetaKeyIndex, SerializeKeys ?known) (insert (k, v) E)) d2
       ((m(k \<mapsto> v))(kMetaKeyIndex \<mapsto> SerializeKeys ?known))"
    by (rule db_rep_Put [OF d1(2), where k = kMetaKeyIndex and v = "SerializeKeys ?known"])
  define tr where "tr = (case f k of None \<Rightarrow> kv_tracked s | Some p \<Rightarrow> kv_tracked s - of_nat (length k + length p)) +
    of_nat (length k + length v)"
  let ?s = "s\<lparr>kv_db := Some d2, kv_known_keys := ?known, kv_tracked := tr\<rparr>"
  have "kv_Put k v s = Some (KVResult_OK, ?s)"
    using d(1,2) k d1(1) d2(1) kv_rep_raw_Get [OF rep k] by (simp add: kv_Put_def Let_def tr_def)
  moreover have "kv_tracked ?s = of_nat (kv_bytes (f(k \<mapsto> v)))"
    using size kv_bytes_upd [OF size(2), of k v] kv_bytes_None [of f k] kv_bytes_remove [OF size(2), of k]
    by (cases "f k") (simp_all add: tr_def algebra_simps)
  moreover have "visible ((m(k \<mapsto> v)) j) = (f(k \<mapsto> v)) j" if "\<not> IsReservedKey j" for j
    using that m(1) visible_user [OF v] by simp
  moreover have "(f(k \<mapsto> v)) j = None" if "IsReservedKey j" for j using that m(2) k by auto
  moreover have "distinct ?known" "set ?known = dom (f(k \<mapsto> v))" using keys by auto
  ultimately show ?thesis
    using d(2) d2(2) by (intro exI [of _ ?s] exI [of _ ?known] conjI kv_repI [where m = "m(k \<mapsto> v)" and d = d2])
      (simp_all add: HealthCheck_def)
qed

lemma kv_rep_Delete:
  assumes rep: "kv_rep env N E s f" and k: "\<not> IsReservedKey k"
  shows "\<exists>s' E'. kv_Delete k s = Some (KVResult_OK, s') \<and> kv_rep env N E' s' (f(k := None))"
proof (cases "f k")
  case None
  then have "kv_Delete k s = Some (KVResult_OK, s)" "f(k := None) = f"
    using rep k kv_rep_raw_Get [OF rep k] by (auto simp: kv_Delete_def fun_upd_idem elim: kv_repE)
  then show ?thesis using rep by metis
next
  case (Some p)
  show ?thesis
    using rep
  proof (rule kv_repE)
    fix d m
    assume d: "kv_db s = Some d" "HealthCheck s" "db_rep env N E d m"
      and m: "\<And>k. \<not> IsReservedKey k \<Longrightarrow> visible (m k) = f k" "\<And>k. IsReservedKey k \<Longrightarrow> f k = None"
      and keys: "distinct (kv_known_keys s)" "set (kv_known_keys s) = dom f"
      and size: "kv_tracked s = of_nat (kv_bytes f)" "finite (dom f)"
    let ?known = "remove1 k (kv_known_keys s)" and ?m = "m(k \<mapsto> TombstoneValue)"
    obtain d1 where d1: "db_Put k TombstoneValue d = Some d1" "db_rep env N (insert (k, TombstoneValue) E) d1 ?m"
      by (rule db_rep_Put [OF d(3), where k = k and v = TombstoneValue])
    obtain d2 where d2: "db_Put kMetaKeyIndex (SerializeKeys ?known) d1 = Some d2"
      "db_rep env N (insert (kMetaKeyIndex, SerializeKeys ?known) (insert (k, TombstoneValue) E)) d2
         (?m(kMetaKeyIndex \<mapsto> SerializeKeys ?known))"
      by (rule db_rep_Put [OF d1(2), where k = kMetaKeyIndex and v = "SerializeKeys ?known"])
    let ?s = "s\<lparr>kv_db := Some d2, kv_known_keys := ?known, kv_tracked := kv_tracked s - of_nat (length k + length p)\<rparr>"
    have "kv_Delete k s = Some (KVResult_OK, ?s)"
      using d(1,2) k d1(1) d2(1) kv_rep_raw_Get [OF rep k] Some by (simp add: kv_Delete_def Let_def db_Delete_def)
    moreover have "kv_tracked ?s = of_nat (kv_bytes (f(k := None)))"
      using size kv_bytes_remove [OF size(2) Some] by simp
    moreover have "visible (?m j) = (f(k := None)) j" if "\<not> IsReservedKey j" for j
      using that m(1) visible_Tombstone by simp
    moreover have "(f(k := None)) j = None" if "IsReservedKey j" for j using that m(2) by simp
    moreover have "distinct ?known" "set ?known = dom (f(k := None))" using keys by (auto simp: set_remove1_eq)
    ultimately show ?thesis
      using d(2) d2(2) by (intro exI [of _ ?s] exI conjI kv_repI [where m = ?m and d = d2]) (simp_all add: HealthCheck_def)
  qed
qed

section \<open>Listing and batches\<close>

lemma prefix_take: "prefix p k \<longleftrightarrow> take (length p) k = p"
  by (metis append_eq_conv_conj prefix_def take_is_prefix)

lemma kv_rep_ListKeys:
  assumes "kv_rep env N E s f"
  shows "kv_ListKeysByPrefix s p = keys_under p f"
  using assms
proof (rule kv_repE)
  assume keys: "distinct (kv_known_keys s)" "set (kv_known_keys s) = dom f"
  let ?ks = "filter (\<lambda>key. p = [] \<or> take (length p) key = p) (kv_known_keys s)"
  have "set ?ks = {k \<in> dom f. prefix p k}" using keys(2) by (auto simp: prefix_take)
  moreover have "sort ?ks = sorted_list_of_set (set ?ks)"
    using keys(1) sorted_list_of_set_sort_remdups [of ?ks] by (simp add: distinct_remdups_id)
  ultimately show ?thesis by (simp add: kv_ListKeysByPrefix_def keys_under_def)
qed

lemma get_entries_rep:
  assumes "kv_rep env N E s f" "set ks \<subseteq> dom f"
  shows "get_entries s ks = Some (map (\<lambda>k. (k, the (f k))) ks)"
proof -
  have user: "\<not> IsReservedKey k" if "k \<in> dom f" for k using assms(1) that by (auto elim: kv_repE)
  show ?thesis
    using assms(2)
  proof (induction ks)
    case (Cons k ks)
    then show ?case using kv_rep_raw_Get [OF assms(1) user, of k] by auto
  qed simp
qed

lemma kv_rep_ListEntries: "kv_rep env N E s f \<Longrightarrow> kv_ListEntriesByPrefix s p = Some (entries_under p f)"
proof -
  assume rep: "kv_rep env N E s f"
  then have "set (keys_under p f) \<subseteq> dom f" using kv_rep_finite [OF rep] by auto
  from get_entries_rep [OF rep this] show ?thesis
    using rep kv_rep_ListKeys [OF rep]
    by (auto simp: kv_ListEntriesByPrefix_def entries_under_def elim: kv_repE)
qed

lemma kv_rep_Batch:
  assumes "kv_rep env N E s f" "\<forall>(k, v) \<in> set es. \<not> IsReservedKey k \<and> v \<noteq> TombstoneValue"
  shows "\<exists>s' E'. kv_Batch es s = Some (KVResult_OK, s') \<and> kv_rep env N E' s' (f ++ map_of (rev es))"
  using assms
proof (induction es arbitrary: s f E)
  case (Cons e es)
  obtain k v where e: "e = (k, v)" by (cases e)
  then have kv: "\<not> IsReservedKey k" "v \<noteq> TombstoneValue" using Cons.prems(2) by auto
  obtain s1 E1 where 1: "kv_Put k v s = Some (KVResult_OK, s1)" "kv_rep env N E1 s1 (f(k \<mapsto> v))"
    using kv_rep_Put [OF Cons.prems(1) kv] by blast
  have "\<forall>(k, v) \<in> set es. \<not> IsReservedKey k \<and> v \<noteq> TombstoneValue" using Cons.prems(2) by simp
  from Cons.IH [OF 1(2) this] obtain s2 E2 where 2: "kv_Batch es s1 = Some (KVResult_OK, s2)"
    "kv_rep env N E2 s2 (f(k \<mapsto> v) ++ map_of (rev es))" by blast
  have "f ++ map_of (rev (e # es)) = f(k \<mapsto> v) ++ map_of (rev es)" by (simp add: e)
  moreover have "kv_Batch (e # es) s = Some (KVResult_OK, s2)" using 1(1) 2(1) e by simp
  ultimately show ?case using 2(2) by metis
qed auto

lemma kv_rep_BatchDelete:
  assumes "kv_rep env N E s f" "\<forall>k \<in> set ks. \<not> IsReservedKey k"
  shows "\<exists>s' E'. kv_BatchDelete ks s = Some (KVResult_OK, s') \<and> kv_rep env N E' s' (f |` (- set ks))"
  using assms
proof (induction ks arbitrary: s f E)
  case Nil
  have "f |` (- {}) = f" by (simp add: restrict_map_def)
  then show ?case using Nil by auto
next
  case (Cons k ks)
  obtain s1 E1 where 1: "kv_Delete k s = Some (KVResult_OK, s1)" "kv_rep env N E1 s1 (f(k := None))"
    using kv_rep_Delete [OF Cons.prems(1), of k] Cons.prems(2) by auto
  have "\<forall>k \<in> set ks. \<not> IsReservedKey k" using Cons.prems(2) by simp
  from Cons.IH [OF 1(2) this] obtain s2 E2 where 2: "kv_BatchDelete ks s1 = Some (KVResult_OK, s2)"
    "kv_rep env N E2 s2 (f(k := None) |` (- set ks))" by blast
  have "f |` (- set (k # ks)) = f(k := None) |` (- set ks)" by (auto simp: restrict_map_def fun_eq_iff)
  moreover have "kv_BatchDelete (k # ks) s = Some (KVResult_OK, s2)" using 1(1) 2(1) by simp
  ultimately show ?case using 2(2) by metis
qed

definition kv_holds :: "'c sst_env \<Rightarrow> KVStore \<Rightarrow> (string \<rightharpoonup> string) \<Rightarrow> bool" where
  "kv_holds env s f = (\<exists>N E. kv_rep env N E s f)"

interpretation dbkv: kv_interface DBKVStore_vtable "kv_holds env" "\<lambda>k. \<not> IsReservedKey k" "\<lambda>v. v \<noteq> TombstoneValue"
  for env :: "'c sst_env"
proof (unfold_locales, goal_cases)
  case (1 s f)
  then show ?case using kv_rep_finite by (auto simp: kv_holds_def)
next
  case (2 s f k)
  then show ?case using kv_rep_raw_Get by (auto simp: kv_holds_def DBKVStore_vtable_def)
next
  case (3 s f k v)
  then show ?case using kv_rep_Put unfolding kv_holds_def DBKVStore_vtable_def by simp blast
next
  case (4 s f k)
  then show ?case using kv_rep_Delete unfolding kv_holds_def DBKVStore_vtable_def by simp blast
next
  case (5 s f p)
  then show ?case using kv_rep_ListKeys unfolding kv_holds_def DBKVStore_vtable_def by auto
next
  case (6 s f p)
  then show ?case using kv_rep_ListEntries unfolding kv_holds_def DBKVStore_vtable_def by auto
next
  case (7 s f es)
  then show ?case using kv_rep_Batch [of env _ _ s f es] unfolding kv_holds_def DBKVStore_vtable_def by simp blast
next
  case (8 s f ks)
  then show ?case using kv_rep_BatchDelete [of env _ _ s f ks] unfolding kv_holds_def DBKVStore_vtable_def by simp blast
qed

section \<open>Closing and opening\<close>

lemma load_sizes_rep:
  assumes "\<And>k. k \<in> set ks \<Longrightarrow> db_Get d k = Some (f k)" "distinct ks" "set ks \<subseteq> dom f"
  shows "load_sizes d ks n = Some (n + of_nat (kv_bytes (f |` set ks)))"
  using assms
proof (induction ks arbitrary: n)
  case Nil
  have "f |` {} = Map.empty" by simp
  then show ?case by (simp add: kv_bytes_def)
next
  case (Cons k ks)
  then obtain v where v: "f k = Some v" by auto
  let ?g = "f |` set (k # ks)"
  have "finite (dom ?g)" by (auto intro: finite_subset)
  moreover have "?g k = Some v" using v by simp
  moreover have "?g(k := None) = f |` set ks" using Cons.prems(2) by (auto simp: restrict_map_def fun_eq_iff)
  ultimately have "kv_bytes ?g = length k + length v + kv_bytes (f |` set ks)" using kv_bytes_remove by metis
  then show ?case using Cons.IH Cons.prems v by simp
qed

lemma restrict_dom: "f |` dom f = f"
  by (auto simp: restrict_map_def fun_eq_iff domIff)

lemma kv_rep_no_empty_key:
  assumes "db_rep env N E d m" "[] \<notin> fst ` E"
  shows "m [] = None"
proof -
  obtain co where co: "map_of (co_seq co) = m" "co_entries co \<subseteq> E" using assms(1) by (auto simp: db_rep_def)
  have "set (levels_seq i esss) \<subseteq> set (concat (concat esss))" for i esss
    by (induction i esss rule: levels_seq.induct) (auto simp: level_seq_def split: if_splits)
  then have "set (co_seq co) \<subseteq> co_entries co" by (auto simp: co_seq_def co_entries_def disk_entries_def)
  then have "[] \<notin> fst ` set (co_seq co)" using co(2) assms(2) by blast
  then show ?thesis using co(1) by (metis map_of_eq_None_iff)
qed

lemma db_rep_reopen:
  assumes rep: "db_rep env N E d m" and ok: "store_ok env (cfg_compression (db_config d)) E"
    and N: "2 * (N + length (db_flush_queue d) + 2) + 2 < 2 ^ 31"
  obtains w d' N' E' where "db_close env d = Some w" "db_open env config w = Some d'" "db_rep env N' E' d' m"
proof -
  obtain co where co: "db_holds env N (d, Idle) co" "co_flushing co = []" "map_of (co_seq co) = m" "co_entries co \<subseteq> E"
    using rep by (auto simp: db_rep_def)
  have q: "length (co_queue co) = length (db_flush_queue d)"
    using co(1) by (auto simp: db_holds_def dest: list_all2_lengthD)
  have mem: "sorted_keys (co_mem co)" "set (co_mem co) \<subseteq> E"
    using co(1,4) mt_reads(1) by (auto simp: db_holds_def co_entries_def)
  have len: "length (co_mem co) < size_max"
  proof (cases "co_mem co = []")
    case False
    then have "sst_bound env (co_mem co) < max_file" using fits_small [OF _ False mem, of env] ok by (simp add: store_ok_def)
    then show ?thesis by (simp add: sst_bound_def)
  qed simp
  obtain w d' co' where w: "db_close env d = Some w" "db_open env config w = Some d'"
    "db_holds env (N + length (co_queue co) + 2) (d', Idle) co'" "map_of (co_seq co') = map_of (co_seq co)"
    using db_close_ok [OF co(1,4) ok _ len, of config] N q by auto
  have "db_flushing d' = None" using w(2) by (auto simp: db_open_def bind_eq_Some_conv split: prod.splits)
  then have "co_flushing co' = []" using w(3) by (simp add: db_holds_def opt_holds_def)
  then have "db_rep env (N + length (co_queue co) + 2) (co_entries co') d' m"
    using w(3,4) co(3) unfolding db_rep_def by (intro exI [of _ co']) simp
  then show thesis using that w(1,2) by blast
qed

end
