(* ===== verification/KV_Theorems.thy ===== *)
theory KV_Theorems
  imports KVStore_Correct
begin




















lemma kv_rep_open:
  assumes "kv_open env config (Map.empty, None, c) = Some s"
  shows "kv_rep env 0 {} s Map.empty"
proof -
  obtain d where d: "db_open env config (Map.empty, None, c) = Some d" using assms by (auto simp: kv_open_def bind_eq_Some_conv)
  have rep: "db_rep env 0 {} d Map.empty" using db_rep_open [OF d] .
  have "db_Get d kMetaKeyIndex = Some None" using db_rep_Get [OF rep] by (simp add: visible_def)
  then have "s = \<lparr>kv_db = Some d, kv_known_keys = [], kv_tracked = 0, kv_closed = False\<rparr>"
    using assms d by (simp add: kv_open_def LoadKeyIndex_def)
  then show ?thesis using rep by (auto simp: kv_rep_def kv_bytes_def visible_def)
qed

section \<open>Histories\<close>


lemma kv_open_returns: "\<exists>s. kv_open env config (Map.empty, None, c) = Some s"
proof -
  obtain d where d: "db_open env config (Map.empty, None, c) = Some d" using db_open_fresh by metis
  have "db_Get d kMetaKeyIndex = Some None" using db_rep_Get [OF db_rep_open [OF d]] by (simp add: visible_def)
  then show ?thesis using d by (simp add: kv_open_def LoadKeyIndex_def)
qed


text \<open>
  C14: Closing a store and opening its directory again restores the map, the key index (now sorted) and the byte
  count, as long as the written entries stay within the limits of the table files.
\<close>
theorem kv_reopen:
  assumes rep: "kv_rep env N E s f" and d: "kv_db s = Some d"
    and ok: "store_ok env (cfg_compression (db_config d)) E" and N: "2 * (N + length (db_flush_queue d) + 2) + 2 < 2 ^ 31"
  shows "\<exists>w s0 s'. kv_Close env s = Some (Some w, s0) \<and> kv_Get s0 k = Some None \<and> kv_open env config w = Some s' \<and>
    kv_holds env s' f \<and> kv_known_keys s' = sort (kv_known_keys s) \<and> kv_tracked s' = kv_tracked s"
  using rep
proof (rule kv_repE)
  fix d1 m
  assume "kv_db s = Some d1" and rd: "db_rep env N E d1 m" and m: "\<And>k. \<not> IsReservedKey k \<Longrightarrow> visible (m k) = f k"
    and res: "\<And>k. IsReservedKey k \<Longrightarrow> f k = None"
    and keys: "distinct (kv_known_keys s)" "set (kv_known_keys s) = dom f" and size: "kv_tracked s = of_nat (kv_bytes f)"
    and idx: "m kMetaKeyIndex = None \<Longrightarrow> kv_known_keys s = []"
      "m kMetaKeyIndex \<noteq> None \<Longrightarrow> visible (m kMetaKeyIndex) = Some (SerializeKeys (kv_known_keys s))"
  then have d1: "d1 = d" using d by simp
  obtain w d' N' E' where w: "db_close env d = Some w" "db_open env config w = Some d'" "db_rep env N' E' d' m"
    using db_rep_reopen [OF rd [unfolded d1] ok N] .
  let ?ks = "sort (kv_known_keys s)"
  let ?s = "\<lparr>kv_db = Some d', kv_known_keys = ?ks, kv_tracked = kv_tracked s, kv_closed = False\<rparr>"
  have get: "db_Get d' k = Some (f k)" if "\<not> IsReservedKey k" for k using db_rep_Get [OF w(3)] m [OF that] by simp
  have "m [] = None" using kv_rep_no_empty_key [OF rd] ok by (simp add: store_ok_def)
  then have "f [] = None" using m [of "[]"] by (simp add: IsReservedKey_def visible_def)
  then have des: "DeserializeKeys (SerializeKeys (kv_known_keys s)) = ?ks"
    using DeserializeKeys_SerializeKeys [of "kv_known_keys s"] keys(2) by (auto simp: domIff)
  have "load_sizes d' ?ks 0 = Some (0 + of_nat (kv_bytes (f |` set ?ks)))"
    using load_sizes_rep [of ?ks d' f 0] get res keys by (metis distinct_sort domD option.distinct(1) set_sort subset_refl)
  then have sizes: "load_sizes d' ?ks 0 = Some (kv_tracked s)" using size keys(2) by (simp add: restrict_dom)
  have "kv_open env config w = Some ?s"
  proof (cases "m kMetaKeyIndex")
    case None
    then show ?thesis
      using w(2) db_rep_Get [OF w(3)] idx(1) size keys(2)
      by (simp add: kv_open_def LoadKeyIndex_def visible_def kv_bytes_def)
  next
    case (Some p)
    then show ?thesis
      using w(2) db_rep_Get [OF w(3)] idx(2) des sizes by (simp add: kv_open_def LoadKeyIndex_def Let_def)
  qed
  moreover have "visible (m kMetaKeyIndex) = (if m kMetaKeyIndex = None then None else Some (SerializeKeys ?ks))"
    using idx by (simp add: visible_def SerializeKeys_def sorted_sort_id)
  then have "kv_rep env N' E' ?s f"
    using w(3) m res keys size idx(1) unfolding kv_rep_def by (intro exI [of _ d'] exI [of _ m]) auto
  ultimately show ?thesis
    using w(1) d by (auto simp: kv_Close_def Let_def kv_holds_def kv_Get_def HealthCheck_def)
qed

lemma distinct_singleton: "distinct xs \<Longrightarrow> set xs = {x} \<Longrightarrow> xs = [x]"
  by (cases xs; cases "tl xs") auto

theorem kv_reopen_witness:
  "\<exists>s w s0 s'. kv_Close example_env s = Some (Some w, s0) \<and> kv_open example_env (example_config False 5) w = Some s' \<and>
     kv_Get s ''a'' = Some (Some ''1'') \<and> kv_Get s' ''a'' = Some (Some ''1'') \<and> kv_known_keys s' = [''a'']"
proof -
  let ?r = "do { s \<leftarrow> kv_open example_env (example_config True 1000) (Map.empty, None, 0); kv_Put ''a'' ''1'' s }"
  have ev: "case ?r of None \<Rightarrow> False | Some (r, s) \<Rightarrow>
      (case kv_db s of None \<Rightarrow> False | Some d \<Rightarrow> length (db_flush_queue d) = 0 \<and> cc_type (cfg_compression (db_config d)) = kLZ4)"
    by code_simp
  obtain s0 where s0: "kv_open example_env (example_config True 1000) (Map.empty, None, 0) = Some s0" using kv_open_returns by metis
  have a: "\<not> IsReservedKey ''a''" "''1'' \<noteq> TombstoneValue" by (simp_all add: IsReservedKey_def TombstoneValue_def)
  obtain s keys where s: "kv_Put ''a'' ''1'' s0 = Some (KVResult_OK, s)" "distinct keys" "set keys = {''a''}"
    "kv_rep example_env 0 {(kMetaKeyIndex, SerializeKeys keys), (''a'', ''1'')} s [''a'' \<mapsto> ''1'']"
    using kv_rep_Put [OF kv_rep_open [OF s0] a] by auto
  have keys: "keys = [''a'']" using s(2,3) by (rule distinct_singleton)
  obtain d where d: "kv_db s = Some d" "db_flush_queue d = []" "cc_type (cfg_compression (db_config d)) = kLZ4"
    using ev s0 s(1) by (auto split: option.splits)
  have "codec_ok example_env (cfg_compression (db_config d))"
    using d(3) run_codec_roundtrip by (simp add: codec_ok_def example_env_def)
  moreover have "fits example_env {(kMetaKeyIndex, SerializeKeys keys), (''a'', ''1'')}"
    "shallow example_env {(kMetaKeyIndex, SerializeKeys keys), (''a'', ''1'')}"
    by (rule limits; simp add: example_params keys SerializeKeys_def kMetaKeyIndex_def)+
  ultimately have ok: "store_ok example_env (cfg_compression (db_config d)) {(kMetaKeyIndex, SerializeKeys keys), (''a'', ''1'')}"
    by (simp add: store_ok_def kMetaKeyIndex_def)
  have "2 * (0 + length (db_flush_queue d) + 2) + 2 < 2 ^ 31" using d(2) by simp
  from kv_reopen [OF s(4) d(1) ok this, of "''b''" "example_config False 5"] obtain w s1 s' where
    w: "kv_Close example_env s = Some (Some w, s1)" "kv_open example_env (example_config False 5) w = Some s'"
    "kv_holds example_env s' [''a'' \<mapsto> ''1'']" "kv_known_keys s' = sort (kv_known_keys s)" by blast
  have "distinct (kv_known_keys s)" "set (kv_known_keys s) = {''a''}" using s(4) by (auto elim: kv_repE)
  then have "kv_known_keys s = [''a'']" by (rule distinct_singleton)
  moreover have "kv_Get s ''a'' = Some (Some ''1'')" using kv_rep_raw_Get [OF s(4) a(1)] by simp
  moreover obtain N E where "kv_rep example_env N E s' [''a'' \<mapsto> ''1'']" using w(3) by (auto simp: kv_holds_def)
  then have "kv_Get s' ''a'' = Some (Some ''1'')" using kv_rep_raw_Get [OF _ a(1)] by fastforce
  ultimately show ?thesis using w by (intro exI [of _ s] exI [of _ w] exI [of _ s1] exI [of _ s']) simp
qed

text \<open>
  The key index that is stored and read back is the sorted list of the keys, whatever characters they
  contain, with the exception that the empty key is lost.
\<close>
theorem key_index_roundtrip:
  "DeserializeKeys (SerializeKeys keys) = sort (filter (\<lambda>k. k \<noteq> []) keys)"
proof -
  have "filter (\<lambda>line. line \<noteq> []) (map Escape ks) = map Escape (filter (\<lambda>k. k \<noteq> []) ks)" for ks
    by (induction ks) auto
  then show ?thesis
    by (simp add: DeserializeKeys_def getlines_SerializeKeys o_def filter_sort)
qed

end
