(* ===== verification/LLM_Theorems.thy ===== *)
theory LLM_Theorems
  imports LLM_Correct KV_Theorems
begin

text \<open>
  The properties of the LLM stores on \<^verbatim>\<open>DBKVStore\<close>: the contract of \<open>llm_host\<close> holds there, so the records that
  are written are read back through the key-value store, the database and the text formats.
\<close>

lemma llm_not_reserved: "prefix ''llm:'' k \<Longrightarrow> \<not> IsReservedKey k"
  by (auto simp: IsReservedKey_def prefix_def)

lemma text_not_Tombstone: "v @ [NL] \<noteq> TombstoneValue"
proof
  assume eq: "v @ [NL] = TombstoneValue"
  have "last (v @ [NL]) = NL" by simp
  then show False unfolding eq by (simp add: TombstoneValue_def)
qed

interpretation llm: llm_host DBKVStore_vtable "kv_holds env" "\<lambda>k. \<not> IsReservedKey k" "\<lambda>v. v \<noteq> TombstoneValue"
  for env :: "'c sst_env"
  by unfold_locales (simp_all add: llm_not_reserved text_not_Tombstone)

section \<open>Text formats\<close>

text \<open>
  C16: Every record that the LLM stores write is parsed back to the same record, whatever characters its strings
  contain (tabs, newlines and backslashes included); records without their required fields are rejected.
\<close>
theorem llm_formats_roundtrip:
  assumes "int64 (pc_cached_at_ms e)" "uint32 (pc_input_tokens e)" "uint32 (pc_output_tokens e)"
    and "int64 (tn_created_at_ms t)" "uint32 (sm_turn_count m)" "int64 (sm_updated_at_ms m)"
    and "\<forall>t \<in> set (cs_turns s). int64 (tn_created_at_ms t)" "int64 (rr_updated_at_ms r)"
  shows "ParsePromptCache (SerializePromptCache e) = (if pc_model e = [] \<or> pc_prompt_hash e = [] then None else Some e) \<and>
    ParseConversationTurn (SerializeConversationTurn t) = (if tn_role t = [] then None else Some t) \<and>
    ParseConversationSummary (SerializeConversationSummary m) = (if sm_session_id m = [] then None else Some m) \<and>
    ParseLegacyConversation (SerializeLegacyConversation s) = (if cs_session_id s = [] then None else Some s) \<and>
    ParseRetrievalChunk (SerializeRetrievalChunk c) = (if rc_document_id c = [] \<or> rc_chunk_id c = [] then None else Some c) \<and>
    ParseRuntimeConfig (SerializeRuntimeConfig r) = (if rr_profile r = [] then None else Some r)"
  by (intro conjI ParsePromptCache_Serialize ParseConversationTurn_Serialize ParseConversationSummary_Serialize
      ParseLegacyConversation_Serialize ParseRetrievalChunk_Serialize ParseRuntimeConfig_Serialize assms)

definition example_turn :: ConversationTurn where
  "example_turn = \<lparr>tn_role = ''user'', tn_content = ''a'' @ [TAB, NL, BS], tn_created_at_ms = - 5\<rparr>"

definition example_session :: ConversationSession where
  "example_session = \<lparr>cs_tenant = ''t:1'', cs_app_id = ''a'', cs_session_id = ''s'', cs_model = ''m'', cs_turns = [example_turn]\<rparr>"

definition example_prompt :: PromptCacheEntry where
  "example_prompt = \<lparr>pc_tenant = ''t'', pc_app_id = ''a'', pc_model = ''gpt-4'', pc_prompt_hash = ''h'',
     pc_response = ''r'' @ [NL], pc_cached_at_ms = 3, pc_input_tokens = 7, pc_output_tokens = 4294967295\<rparr>"

lemma example_ranges: "int64 (- 5)" "int64 3" "int64 0" "uint32 7" "uint32 1" "uint32 4294967295"
  by (simp_all add: int64_def uint32_def)

theorem llm_formats_roundtrip_witness:
  "ParsePromptCache (SerializePromptCache example_prompt) = Some example_prompt \<and>
   ParseConversationTurn (SerializeConversationTurn example_turn) = Some example_turn \<and>
   ParseLegacyConversation (SerializeLegacyConversation example_session) = Some example_session"
  using llm_formats_roundtrip [of example_prompt example_turn
      "\<lparr>sm_tenant = [], sm_app_id = [], sm_session_id = [], sm_model = [], sm_turn_count = 1, sm_updated_at_ms = 0\<rparr>"
      example_session "\<lparr>rr_tenant = [], rr_app_id = [], rr_profile = [], rr_payload = [], rr_updated_at_ms = 0\<rparr>"
      "\<lparr>rc_tenant = [], rc_knowledge_base = [], rc_document_id = [], rc_chunk_id = [], rc_content = [], rc_embedding_ref = [],
        rc_metadata = []\<rparr>"]
  by (simp add: example_prompt_def example_turn_def example_session_def example_ranges)

section \<open>Conversations\<close>

text \<open>
  C15: On \<^verbatim>\<open>DBKVStore\<close>: a saved conversation is read back with its turns in order; appending a turn adds
  it at the end (and sets a model that the descriptor names); trimming keeps the last turns; deleting
  removes it.  All four calls succeed, and no other conversation changes, whatever colons, prefixes or
  extensions its identifiers share with this one.
\<close>
theorem conversation_lifecycle:
  assumes "kv_holds env st f" "session_ok session" "\<forall>turn \<in> set (cs_turns session). tn_role turn \<noteq> []"
    and "d = \<lparr>ds_tenant = t, ds_app_id = a, ds_session_id = s, ds_model = model\<rparr>"
    and "t = cs_tenant session" "a = cs_app_id session" "s = cs_session_id session"
    and "tn_role turn \<noteq> []" "int64 (tn_created_at_ms turn)" "length (cs_turns session) + 1 < 2 ^ 32"
  defines "session' \<equiv> session\<lparr>cs_model := if model = [] then cs_model session else model, cs_turns := cs_turns session @ [turn]\<rparr>"
  shows "\<exists>st1 st2 st3 st4.
    conv_Save DBKVStore_vtable session st = Some (KVResult_OK, st1) \<and>
    conv_Get DBKVStore_vtable st1 t a s = Some (Some session) \<and>
    conv_AppendTurn DBKVStore_vtable d turn st1 = Some (KVResult_OK, st2) \<and>
    conv_Get DBKVStore_vtable st2 t a s = Some (Some session') \<and>
    conv_TrimToLastTurns DBKVStore_vtable t a s keep st2 = Some (KVResult_OK, st3) \<and>
    conv_Get DBKVStore_vtable st3 t a s =
      Some (Some (session'\<lparr>cs_turns := drop (length (cs_turns session') - keep) (cs_turns session')\<rparr>)) \<and>
    conv_Delete DBKVStore_vtable t a s st3 = Some (KVResult_OK, st4) \<and>
    conv_Get DBKVStore_vtable st4 t a s = Some None \<and>
    (\<forall>t' a' s'. (t', a', s') \<noteq> (t, a, s) \<longrightarrow> conv_Get DBKVStore_vtable st4 t' a' s' = conv_Get DBKVStore_vtable st t' a' s')"
proof -
  note ids = assms(5-7)
  have fin: "finite (dom f)" using dbkv.rep_finite [OF assms(1)] .
  have full: "filter (\<lambda>t. tn_role t \<noteq> []) (cs_turns session) = cs_turns session"
    "filter (\<lambda>t. tn_role t \<noteq> []) (cs_turns session') = cs_turns session'"
    using assms(3,8) by (auto simp: filter_id_conv session'_def)
  let ?f1 = "save_map session f"
  obtain st1 where 1: "conv_Save DBKVStore_vtable session st = Some (KVResult_OK, st1)" "kv_holds env st1 ?f1"
    using llm.conv_Save_rep [OF assms(1,2)] by blast
  have v1: "conv_view ?f1 t a s = Some session" using conv_view_save [OF assms(2) fin] full(1) ids by simp
  have app: "append_turn d turn (Some session) = session'"
    unfolding append_turn_def session'_def using assms(4) by (simp add: Let_def)
  have ok': "session_ok session'" using assms(2,9,10) by (auto simp: session_ok_def session'_def)
  let ?f2 = "save_map session' ?f1"
  obtain st2 where 2: "conv_AppendTurn DBKVStore_vtable d turn st1 = Some (KVResult_OK, st2)" "kv_holds env st2 ?f2"
    using llm.conv_Append_rep [OF 1(2), of d "Some session" turn] v1 app ok' assms(4) by auto
  have ids': "t = cs_tenant session'" "a = cs_app_id session'" "s = cs_session_id session'" using ids by (simp_all add: session'_def)
  have v2: "conv_view ?f2 t a s = Some session'"
    using conv_view_save [OF ok' dbkv.rep_finite [OF 1(2)]] full(2) ids' by simp
  obtain st3 f3 where 3: "conv_TrimToLastTurns DBKVStore_vtable t a s keep st2 = Some (KVResult_OK, st3)" "kv_holds env st3 f3"
    "conv_view f3 t a s = Some (session'\<lparr>cs_turns := drop (length (cs_turns session') - keep) (cs_turns session')\<rparr>)"
    "\<And>t' a' s'. (t', a', s') \<noteq> (t, a, s) \<Longrightarrow> conv_view f3 t' a' s' = conv_view ?f2 t' a' s'"
    using llm.conv_Trim_rep [OF 2(2) v2 ok' ids', of keep] assms(3,8) unfolding session'_def by auto
  obtain st4 where 4: "conv_Delete DBKVStore_vtable t a s st3 = Some (KVResult_OK, st4)" "kv_holds env st4 (delete_map t a s f3)"
    using llm.conv_Delete_rep [OF 3(2)] by blast
  have "conv_view (delete_map t a s f3) t' a' s' = conv_view f t' a' s'" if "(t', a', s') \<noteq> (t, a, s)" for t' a' s'
    using conv_view_delete(2) [OF dbkv.rep_finite [OF 3(2)] that] 3(4) [OF that] that
      conv_view_save_other [OF dbkv.rep_finite [OF 1(2)], of t' a' s' session']
      conv_view_save_other [OF fin, of t' a' s' session] ids ids' by simp
  then show ?thesis
    using 1 2 3 4 v1 v2 conv_view_delete(1) [OF dbkv.rep_finite [OF 3(2)]]
      llm.conv_Get_rep [OF assms(1)] llm.conv_Get_rep [OF 1(2)] llm.conv_Get_rep [OF 2(2)] llm.conv_Get_rep [OF 3(2)]
      llm.conv_Get_rep [OF 4(2)]
    by (intro exI [of _ st1] exI [of _ st2] exI [of _ st3] exI [of _ st4]) simp
qed

lemma example_store:
  obtains st where "kv_open example_env (example_config True 1) (Map.empty, None, 0) = Some st" "kv_holds example_env st Map.empty"
proof -
  obtain st where st: "kv_open example_env (example_config True 1) (Map.empty, None, 0) = Some st" using kv_open_returns by metis
  then show thesis using that kv_rep_open [OF st] by (auto simp: kv_holds_def)
qed

theorem conversation_lifecycle_witness:
  "\<exists>st st1. kv_open example_env (example_config True 1) (Map.empty, None, 0) = Some st \<and>
     conv_Save DBKVStore_vtable example_session st = Some (KVResult_OK, st1) \<and>
     conv_Get DBKVStore_vtable st1 ''t:1'' ''a'' ''s'' = Some (Some example_session)"
proof -
  obtain st where st: "kv_open example_env (example_config True 1) (Map.empty, None, 0) = Some st" "kv_holds example_env st Map.empty"
    using example_store .
  have "session_ok example_session" "\<forall>turn \<in> set (cs_turns example_session). tn_role turn \<noteq> []" "tn_role example_turn \<noteq> []"
    "int64 (tn_created_at_ms example_turn)" "length (cs_turns example_session) + 1 < 2 ^ 32"
    "''t:1'' = cs_tenant example_session" "''a'' = cs_app_id example_session" "''s'' = cs_session_id example_session"
    by (simp_all add: session_ok_def example_session_def example_turn_def example_ranges)
  note h = this
  from conversation_lifecycle [OF st(2) h(1,2) refl h(6,7,8) h(3,4,5)] st(1) show ?thesis by blast
qed

section \<open>Records with one key\<close>

lemma record_keys_inj:
  "PromptCache_key t a m h = PromptCache_key t' a' m' h' \<longleftrightarrow> (t, a, m, h) = (t', a', m', h')"
  "d \<noteq> [] \<Longrightarrow> d' \<noteq> [] \<Longrightarrow> Retrieval_key t b d c = Retrieval_key t' b' d' c' \<longleftrightarrow> (t, b, d, c) = (t', b', d', c')"
  "RuntimeConfig_key t a p = RuntimeConfig_key t' a' p' \<longleftrightarrow> (t, a, p) = (t', a', p')"
  by (auto simp: key_parts join_simps)

text \<open>
  On \<^verbatim>\<open>DBKVStore\<close>: a cached response is found under its four identifiers and nothing else changes;
  deleting it makes it absent.  Entries without model or hash are refused and leave the store as it is.
\<close>
theorem prompt_cache_spec:
  assumes "kv_holds env st f"
    and "int64 (pc_cached_at_ms e)" "uint32 (pc_input_tokens e)" "uint32 (pc_output_tokens e)"
  shows "if pc_model e = [] \<or> pc_prompt_hash e = []
    then \<exists>r. pc_Put DBKVStore_vtable e st = Some (r, st) \<and> \<not> res_success r
    else \<exists>st1 st2. pc_Put DBKVStore_vtable e st = Some (KVResult_OK, st1) \<and>
      (\<forall>t a m h. pc_Get DBKVStore_vtable st1 t a m h =
         (if (t, a, m, h) = (pc_tenant e, pc_app_id e, pc_model e, pc_prompt_hash e) then Some (Some e)
          else pc_Get DBKVStore_vtable st t a m h)) \<and>
      pc_Delete DBKVStore_vtable (pc_tenant e) (pc_app_id e) (pc_model e) (pc_prompt_hash e) st1 = Some (KVResult_OK, st2) \<and>
      pc_Get DBKVStore_vtable st2 (pc_tenant e) (pc_app_id e) (pc_model e) (pc_prompt_hash e) = Some None"
proof (cases "pc_model e = [] \<or> pc_prompt_hash e = []")
  case True
  then show ?thesis by (auto simp: pc_Put_def)
next
  case False
  let ?k = "PromptCache_key (pc_tenant e) (pc_app_id e) (pc_model e) (pc_prompt_hash e)"
  obtain st1 where 1: "pc_Put DBKVStore_vtable e st = Some (KVResult_OK, st1)" "kv_holds env st1 (f(?k \<mapsto> SerializePromptCache e))"
    using llm.pc_Put_rep [OF assms(1)] False by blast
  obtain st2 where 2: "pc_Delete DBKVStore_vtable (pc_tenant e) (pc_app_id e) (pc_model e) (pc_prompt_hash e) st1 = Some (KVResult_OK, st2)"
    "kv_holds env st2 (f(?k \<mapsto> SerializePromptCache e, ?k := None))"
    using llm.pc_Delete_rep [OF 1(2)] by blast
  have "ParsePromptCache (SerializePromptCache e) = Some e" using ParsePromptCache_Serialize [OF assms(2-4)] False by simp
  then have "pc_Get DBKVStore_vtable st1 t a m h =
      (if (t, a, m, h) = (pc_tenant e, pc_app_id e, pc_model e, pc_prompt_hash e) then Some (Some e)
       else pc_Get DBKVStore_vtable st t a m h)" for t a m h
    unfolding llm.pc_Get_rep [OF 1(2)] llm.pc_Get_rep [OF assms(1)] using record_keys_inj(1) by auto
  then show ?thesis using False 1(1) 2(1) llm.pc_Get_rep [OF 2(2)] by simp
qed

theorem prompt_cache_spec_witness:
  "\<exists>st st1. kv_open example_env (example_config True 1) (Map.empty, None, 0) = Some st \<and>
     pc_Put DBKVStore_vtable example_prompt st = Some (KVResult_OK, st1) \<and>
     pc_Get DBKVStore_vtable st1 ''t'' ''a'' ''gpt-4'' ''h'' = Some (Some example_prompt)"
proof -
  obtain st where st: "kv_open example_env (example_config True 1) (Map.empty, None, 0) = Some st" "kv_holds example_env st Map.empty"
    using example_store .
  have "int64 (pc_cached_at_ms example_prompt)" "uint32 (pc_input_tokens example_prompt)" "uint32 (pc_output_tokens example_prompt)"
    by (simp_all add: example_prompt_def example_ranges)
  from prompt_cache_spec [OF st(2) this] st(1) show ?thesis by (auto simp: example_prompt_def)
qed

text \<open>
  On \<^verbatim>\<open>DBKVStore\<close>: retrieval chunks and runtime configurations are read back under their identifiers, and
  writing one leaves every other one unchanged.
\<close>
theorem chunk_and_config_spec:
  assumes "kv_holds env st f" "rc_document_id c \<noteq> []" "rc_chunk_id c \<noteq> []" "rr_profile r \<noteq> []" "int64 (rr_updated_at_ms r)"
  shows "\<exists>st1 st2. rv_Put DBKVStore_vtable c st = Some (KVResult_OK, st1) \<and>
    (\<forall>t b d i. d \<noteq> [] \<longrightarrow> rv_Get DBKVStore_vtable st1 t b d i =
       (if (t, b, d, i) = (rc_tenant c, rc_knowledge_base c, rc_document_id c, rc_chunk_id c) then Some (Some c)
        else rv_Get DBKVStore_vtable st t b d i)) \<and>
    rt_Put DBKVStore_vtable r st1 = Some (KVResult_OK, st2) \<and>
    (\<forall>t a p. rt_Get DBKVStore_vtable st2 t a p =
       (if (t, a, p) = (rr_tenant r, rr_app_id r, rr_profile r) then Some (Some r) else rt_Get DBKVStore_vtable st1 t a p))"
proof -
  obtain st1 where 1: "rv_Put DBKVStore_vtable c st = Some (KVResult_OK, st1)" "kv_holds env st1
      (f(Retrieval_key (rc_tenant c) (rc_knowledge_base c) (rc_document_id c) (rc_chunk_id c) \<mapsto> SerializeRetrievalChunk c))"
    using llm.rv_Put_rep [OF assms(1-3)] by blast
  obtain st2 where 2: "rt_Put DBKVStore_vtable r st1 = Some (KVResult_OK, st2)" "kv_holds env st2
      (f(Retrieval_key (rc_tenant c) (rc_knowledge_base c) (rc_document_id c) (rc_chunk_id c) \<mapsto> SerializeRetrievalChunk c,
         RuntimeConfig_key (rr_tenant r) (rr_app_id r) (rr_profile r) \<mapsto> SerializeRuntimeConfig r))"
    using llm.rt_Put_rep [OF 1(2) assms(4)] by blast
  have "ParseRetrievalChunk (SerializeRetrievalChunk c) = Some c" using assms(2,3) by (simp add: ParseRetrievalChunk_Serialize)
  then have "rv_Get DBKVStore_vtable st1 t b d i =
      (if (t, b, d, i) = (rc_tenant c, rc_knowledge_base c, rc_document_id c, rc_chunk_id c) then Some (Some c)
       else rv_Get DBKVStore_vtable st t b d i)" if "d \<noteq> []" for t b d i
    unfolding llm.rv_Get_rep [OF 1(2)] llm.rv_Get_rep [OF assms(1)]
    using record_keys_inj(2) [OF that assms(2), of t b i "rc_tenant c" "rc_knowledge_base c" "rc_chunk_id c"] by auto
  moreover have "ParseRuntimeConfig (SerializeRuntimeConfig r) = Some r" using assms(4,5) by (simp add: ParseRuntimeConfig_Serialize)
  then have "rt_Get DBKVStore_vtable st2 t a p =
      (if (t, a, p) = (rr_tenant r, rr_app_id r, rr_profile r) then Some (Some r) else rt_Get DBKVStore_vtable st1 t a p)" for t a p
    unfolding llm.rt_Get_rep [OF 2(2)] llm.rt_Get_rep [OF 1(2)] using record_keys_inj(3) by auto
  ultimately show ?thesis using 1(1) 2(1) by blast
qed

theorem chunk_and_config_spec_witness:
  "\<exists>st st1. kv_open example_env (example_config True 1) (Map.empty, None, 0) = Some st \<and>
     rv_Put DBKVStore_vtable \<lparr>rc_tenant = ''t'', rc_knowledge_base = ''b'', rc_document_id = ''d'', rc_chunk_id = ''0'',
       rc_content = ''x'' @ [TAB], rc_embedding_ref = [], rc_metadata = [(''k'', ''v'')]\<rparr> st = Some (KVResult_OK, st1) \<and>
     rv_Get DBKVStore_vtable st1 ''t'' ''b'' ''d'' ''0'' = Some (Some \<lparr>rc_tenant = ''t'', rc_knowledge_base = ''b'',
       rc_document_id = ''d'', rc_chunk_id = ''0'', rc_content = ''x'' @ [TAB], rc_embedding_ref = [], rc_metadata = [(''k'', ''v'')]\<rparr>)"
proof -
  let ?c = "\<lparr>rc_tenant = ''t'', rc_knowledge_base = ''b'', rc_document_id = ''d'', rc_chunk_id = ''0'',
    rc_content = ''x'' @ [TAB], rc_embedding_ref = [], rc_metadata = [(''k'', ''v'')]\<rparr>"
  let ?r = "\<lparr>rr_tenant = ''t'', rr_app_id = ''a'', rr_profile = ''p'', rr_payload = [], rr_updated_at_ms = 0\<rparr>"
  obtain st where st: "kv_open example_env (example_config True 1) (Map.empty, None, 0) = Some st" "kv_holds example_env st Map.empty"
    using example_store .
  from chunk_and_config_spec [OF st(2), of ?c ?r] st(1) show ?thesis by (auto simp: example_ranges)
qed

text \<open>
  \<^verbatim>\<open>List\<close> of the prompt cache returns exactly the stored entries whose tenant and application match and whose
  model starts with the requested one, latest first.  The request is a string prefix: asking for one model
  also lists every model whose name extends it.
\<close>
theorem prompt_cache_list:
  assumes "kv_holds env st f" "m \<noteq> []"
    and "\<forall>k v. prefix ''llm:prompt-cache:'' k \<and> f k = Some v \<longleftrightarrow>
      (\<exists>e \<in> C. k = PromptCache_key (pc_tenant e) (pc_app_id e) (pc_model e) (pc_prompt_hash e) \<and> v = SerializePromptCache e)"
    and "\<forall>e \<in> C. pc_model e \<noteq> [] \<and> pc_prompt_hash e \<noteq> [] \<and> int64 (pc_cached_at_ms e) \<and> uint32 (pc_input_tokens e) \<and>
      uint32 (pc_output_tokens e)"
  shows "\<exists>es. pc_List DBKVStore_vtable st t a m = Some es \<and> sorted (map (\<lambda>e. - pc_cached_at_ms e) es) \<and>
    set es = {e \<in> C. pc_tenant e = t \<and> pc_app_id e = a \<and> prefix m (pc_model e)}"
proof -
  have pre: "prefix ''llm:prompt-cache:'' k" if "prefix (PromptCachePrefix t a m) k" for k
  proof (rule prefix_order.trans [OF _ that])
    show "prefix ''llm:prompt-cache:'' (PromptCachePrefix t a m)"
      using assms(2) by (simp add: key_parts JoinKeyParts_def)
  qed
  have iff: "prefix (PromptCachePrefix t a m) (PromptCache_key (pc_tenant e) (pc_app_id e) (pc_model e) (pc_prompt_hash e)) \<longleftrightarrow>
      pc_tenant e = t \<and> pc_app_id e = a \<and> prefix m (pc_model e)" if "e \<in> C" for e
    using assms(2,4) that by (auto simp: key_parts join_simps)
  have parse: "ParsePromptCache (SerializePromptCache e) = Some e" if "e \<in> C" for e
    using assms(4) that ParsePromptCache_Serialize by simp
  have "{e. \<exists>k v. f k = Some v \<and> prefix (PromptCachePrefix t a m) k \<and> ParsePromptCache v = Some e} =
      {e \<in> C. pc_tenant e = t \<and> pc_app_id e = a \<and> prefix m (pc_model e)}" (is "?l = ?r")
  proof (intro set_eqI iffI)
    fix e assume "e \<in> ?l"
    then obtain k v where kv: "f k = Some v" "prefix (PromptCachePrefix t a m) k" "ParsePromptCache v = Some e" by blast
    then obtain e' where "e' \<in> C" "k = PromptCache_key (pc_tenant e') (pc_app_id e') (pc_model e') (pc_prompt_hash e')"
      "v = SerializePromptCache e'" using assms(3) pre by blast
    then show "e \<in> ?r" using kv iff parse by auto
  next
    fix e assume e: "e \<in> ?r"
    then have "f (PromptCache_key (pc_tenant e) (pc_app_id e) (pc_model e) (pc_prompt_hash e)) = Some (SerializePromptCache e)"
      using assms(3) by blast
    then show "e \<in> ?l" using e iff parse by blast
  qed
  then show ?thesis using llm.pc_List_rep [OF assms(1), of t a m] by simp
qed

theorem prompt_cache_list_witness:
  "\<exists>st st1. kv_open example_env (example_config True 1) (Map.empty, None, 0) = Some st \<and>
     pc_Put DBKVStore_vtable example_prompt st = Some (KVResult_OK, st1) \<and>
     (\<exists>es. pc_List DBKVStore_vtable st1 ''t'' ''a'' ''gpt'' = Some es \<and> set es = {example_prompt})"
proof -
  obtain st where st: "kv_open example_env (example_config True 1) (Map.empty, None, 0) = Some st" "kv_holds example_env st Map.empty"
    using example_store .
  let ?k = "PromptCache_key (pc_tenant example_prompt) (pc_app_id example_prompt) (pc_model example_prompt) (pc_prompt_hash example_prompt)"
  obtain st1 where 1: "pc_Put DBKVStore_vtable example_prompt st = Some (KVResult_OK, st1)"
    "kv_holds example_env st1 [?k \<mapsto> SerializePromptCache example_prompt]"
    using llm.pc_Put_rep [OF st(2), of example_prompt] by (auto simp: example_prompt_def)
  have "prefix ''llm:prompt-cache:'' ?k" by (simp add: key_parts JoinKeyParts_def example_prompt_def)
  then have c: "\<forall>k v. prefix ''llm:prompt-cache:'' k \<and> [?k \<mapsto> SerializePromptCache example_prompt] k = Some v \<longleftrightarrow>
      (\<exists>e \<in> {example_prompt}. k = PromptCache_key (pc_tenant e) (pc_app_id e) (pc_model e) (pc_prompt_hash e) \<and> v = SerializePromptCache e)"
    by auto
  have r: "\<forall>e \<in> {example_prompt}. pc_model e \<noteq> [] \<and> pc_prompt_hash e \<noteq> [] \<and> int64 (pc_cached_at_ms e) \<and> uint32 (pc_input_tokens e) \<and>
      uint32 (pc_output_tokens e)" by (simp add: example_prompt_def example_ranges)
  have "{e \<in> {example_prompt}. pc_tenant e = ''t'' \<and> pc_app_id e = ''a'' \<and> prefix ''gpt'' (pc_model e)} = {example_prompt}"
    by (auto simp: example_prompt_def)
  with prompt_cache_list [OF 1(2) _ c r, of "''gpt''" "''t''" "''a''"] st(1) 1(1) show ?thesis by auto
qed

end
