(* ===== verification/BlockCache.thy ===== *)
theory BlockCache
  imports SST Complex_Main
begin

text \<open>
  The block cache of \<^verbatim>\<open>src/mokv/lsm/block_cache.hpp\<close>.  Blocks are shared between the hash table and the list, so
  they live in a heap of block objects; the table and the list hold their addresses, the most
  recently used block first.  The statistics are 64-bit counters.  The classes of \<^verbatim>\<open>src/mokv/lsm/sst.hpp\<close>
  that use the cache follow at the end.
\<close>

record CacheBlock =
  cb_data :: bytes
  cb_sst_id :: "64 word"
  cb_block_offset :: "64 word"
  cb_access_time :: "64 word"
  cb_hit_count :: "64 word"

record CacheConfig =
  cfg_max_capacity :: nat
  cfg_min_block_size :: nat
  cfg_max_block_size :: nat
  cfg_max_block_count :: nat
  cfg_min_utilization :: rat

record CacheStats =
  st_total_access :: "64 word"
  st_hit_count :: "64 word"
  st_miss_count :: "64 word"
  st_rejected_count :: "64 word"
  st_evicted_count :: "64 word"
  st_current_size :: "64 word"
  st_current_count :: "64 word"
  st_access_counter :: "64 word"

record BlockCache =
  bc_config :: CacheConfig
  bc_heap :: "nat \<rightharpoonup> CacheBlock"
  bc_fresh :: nat
  bc_map :: "64 word \<rightharpoonup> nat"
  bc_lru :: "nat list"
  bc_stats :: CacheStats
  bc_access_counter :: "64 word"

definition default_cache_config :: CacheConfig where
  "default_cache_config =
     \<lparr>cfg_max_capacity = 256 * 1024 * 1024, cfg_min_block_size = 4096, cfg_max_block_size = 64 * 1024,
      cfg_max_block_count = 0, cfg_min_utilization = 1 / 2\<rparr>"

definition zero_stats :: CacheStats where
  "zero_stats = \<lparr>st_total_access = 0, st_hit_count = 0, st_miss_count = 0, st_rejected_count = 0,
     st_evicted_count = 0, st_current_size = 0, st_current_count = 0, st_access_counter = 0\<rparr>"

definition bc_new :: "CacheConfig \<Rightarrow> BlockCache" where
  "bc_new config =
     \<lparr>bc_config = config, bc_heap = Map.empty, bc_fresh = 0, bc_map = Map.empty, bc_lru = [],
      bc_stats = zero_stats, bc_access_counter = 0\<rparr>"

unbundle bit_operations_syntax

definition MakeKey :: "64 word \<Rightarrow> 64 word \<Rightarrow> 64 word" where
  "MakeKey sid block_offset = push_bit 32 sid OR block_offset"

definition MoveToFront :: "nat \<Rightarrow> BlockCache \<Rightarrow> BlockCache" where
  "MoveToFront block c = c\<lparr>bc_lru := block # removeAll block (bc_lru c)\<rparr>"

text \<open>\<open>None\<close>: the table or the list holds an address without a block.\<close>

definition RemoveBlock :: "nat \<Rightarrow> BlockCache \<Rightarrow> BlockCache option" where
  "RemoveBlock block c =
     do { b \<leftarrow> bc_heap c block;
          Some (c\<lparr>bc_lru := removeAll block (bc_lru c),
                  bc_stats := (bc_stats c)\<lparr>st_current_size := st_current_size (bc_stats c) - of_nat (length (cb_data b)),
                                           st_current_count := st_current_count (bc_stats c) - 1\<rparr>\<rparr>) }"

definition bc_Get :: "64 word \<Rightarrow> 64 word \<Rightarrow> BlockCache \<Rightarrow> (bytes option \<times> BlockCache) option" where
  "bc_Get sid block_offset c =
     (case bc_map c (MakeKey sid block_offset) of
        Some i \<Rightarrow> do {
          b \<leftarrow> bc_heap c i;
          let now = bc_access_counter c + 1;
          let c = c\<lparr>bc_heap := (bc_heap c)(i \<mapsto> b\<lparr>cb_hit_count := cb_hit_count b + 1, cb_access_time := now\<rparr>),
                    bc_access_counter := now\<rparr>;
          let c = MoveToFront i c;
          let c = c\<lparr>bc_stats := (bc_stats c)\<lparr>st_hit_count := st_hit_count (bc_stats c) + 1,
                                             st_total_access := st_total_access (bc_stats c) + 1\<rparr>\<rparr>;
          Some (Some (cb_data b), c) }
      | None \<Rightarrow>
          Some (None, c\<lparr>bc_stats := (bc_stats c)\<lparr>st_miss_count := st_miss_count (bc_stats c) + 1,
                                                 st_total_access := st_total_access (bc_stats c) + 1\<rparr>\<rparr>))"

definition over_capacity :: "BlockCache \<Rightarrow> nat \<Rightarrow> bool" where
  "over_capacity c new_block_size =
     (cfg_max_capacity (bc_config c) < unat (st_current_size (bc_stats c) + of_nat new_block_size) \<or>
      0 < cfg_max_block_count (bc_config c) \<and>
      cfg_max_block_count (bc_config c) \<le> unat (st_current_count (bc_stats c)))"

text \<open>One round of the loop of \<^verbatim>\<open>EvictIfNeeded\<close>; the fuel is the length of the list, which a round shortens.\<close>

definition evict_last :: "BlockCache \<Rightarrow> BlockCache option" where
  "evict_last c =
     do { let i = last (bc_lru c);
          b \<leftarrow> bc_heap c i;
          let key = MakeKey (cb_sst_id b) (cb_block_offset b);
          c \<leftarrow> RemoveBlock i c;
          Some (c\<lparr>bc_map := (bc_map c)(key := None),
                  bc_stats := (bc_stats c)\<lparr>st_evicted_count := st_evicted_count (bc_stats c) + 1\<rparr>\<rparr>) }"

fun evict_loop :: "nat \<Rightarrow> nat \<Rightarrow> BlockCache \<Rightarrow> BlockCache option" where
  "evict_loop 0 n c = Some c"
| "evict_loop (Suc fuel) n c =
     (if \<not> over_capacity c n then Some c
      else if bc_lru c = [] then Some c
      else do { c \<leftarrow> evict_last c; evict_loop fuel n c })"

definition EvictIfNeeded :: "nat \<Rightarrow> BlockCache \<Rightarrow> BlockCache option" where
  "EvictIfNeeded n c = evict_loop (length (bc_lru c)) n c"

text \<open>
  A utilization below the minimum; division by a zero \<^verbatim>\<open>min_block_size\<close> is infinite.  The quotient is exact
  here; the code rounds it to a double, which changes the comparison only for sizes of more than 53 bits.
\<close>

definition low_utilization :: "CacheConfig \<Rightarrow> nat \<Rightarrow> bool" where
  "low_utilization config n =
     (cfg_min_block_size config \<noteq> 0 \<and> of_nat n / of_nat (cfg_min_block_size config) < cfg_min_utilization config)"

definition reject :: "BlockCache \<Rightarrow> BlockCache" where
  "reject c = c\<lparr>bc_stats := (bc_stats c)\<lparr>st_rejected_count := st_rejected_count (bc_stats c) + 1\<rparr>\<rparr>"

definition bc_Put :: "64 word \<Rightarrow> 64 word \<Rightarrow> bytes \<Rightarrow> BlockCache \<Rightarrow> (bool \<times> BlockCache) option" where
  "bc_Put sid block_offset data c =
     (if data = [] then Some (False, c)
      else if cfg_max_block_size (bc_config c) < length data then Some (False, reject c)
      else if low_utilization (bc_config c) (length data) then Some (False, reject c)
      else
        let key = MakeKey sid block_offset in
        case bc_map c key of
          Some i \<Rightarrow> do {
            b \<leftarrow> bc_heap c i;
            let now = bc_access_counter c + 1;
            let c = c\<lparr>bc_heap := (bc_heap c)(i \<mapsto> b\<lparr>cb_data := data, cb_access_time := now\<rparr>), bc_access_counter := now\<rparr>;
            Some (True, MoveToFront i c) }
        | None \<Rightarrow> do {
            c \<leftarrow> EvictIfNeeded (length data) c;
            let now = bc_access_counter c + 1;
            let i = bc_fresh c;
            let b = \<lparr>cb_data = data, cb_sst_id = sid, cb_block_offset = block_offset, cb_access_time = now, cb_hit_count = 0\<rparr>;
            Some (True, c\<lparr>bc_heap := (bc_heap c)(i \<mapsto> b), bc_fresh := i + 1, bc_map := (bc_map c)(key \<mapsto> i),
                          bc_lru := i # bc_lru c, bc_access_counter := now,
                          bc_stats := (bc_stats c)\<lparr>st_current_size := st_current_size (bc_stats c) + of_nat (length data),
                                                   st_current_count := st_current_count (bc_stats c) + 1\<rparr>\<rparr>) })"

definition bc_Remove :: "64 word \<Rightarrow> 64 word \<Rightarrow> BlockCache \<Rightarrow> (bool \<times> BlockCache) option" where
  "bc_Remove sid block_offset c =
     (let key = MakeKey sid block_offset in
      case bc_map c key of
        Some i \<Rightarrow> do { c \<leftarrow> RemoveBlock i c; Some (True, c\<lparr>bc_map := (bc_map c)(key := None)\<rparr>) }
      | None \<Rightarrow> Some (False, c))"

definition bc_Clear :: "BlockCache \<Rightarrow> BlockCache" where
  "bc_Clear c = c\<lparr>bc_map := Map.empty, bc_lru := [],
     bc_stats := (bc_stats c)\<lparr>st_current_size := 0, st_current_count := 0\<rparr>\<rparr>"

definition bc_ResetStats :: "BlockCache \<Rightarrow> BlockCache" where
  "bc_ResetStats c = c\<lparr>bc_stats := zero_stats\<rparr>"

section \<open>Users of the cache\<close>

text \<open>\<^verbatim>\<open>CacheGuard\<close>: the constructor looks the block up, the destructor puts what was set after a miss.\<close>

record CacheGuard =
  cg_sst_id :: "64 word"
  cg_block_offset :: "64 word"
  cg_hit :: bool
  cg_data :: "bytes option"
  cg_pending :: bytes

definition guard_new :: "64 word \<Rightarrow> 64 word \<Rightarrow> BlockCache \<Rightarrow> (CacheGuard \<times> BlockCache) option" where
  "guard_new sid block_offset c =
     do { (data, c) \<leftarrow> bc_Get sid block_offset c;
          Some (\<lparr>cg_sst_id = sid, cg_block_offset = block_offset, cg_hit = (data \<noteq> None), cg_data = data, cg_pending = []\<rparr>, c) }"

definition guard_SetData :: "bytes \<Rightarrow> CacheGuard \<Rightarrow> CacheGuard" where
  "guard_SetData data g = (if \<not> cg_hit g then g\<lparr>cg_pending := data\<rparr> else g)"

definition guard_close :: "CacheGuard \<Rightarrow> BlockCache \<Rightarrow> BlockCache option" where
  "guard_close g c =
     (if \<not> cg_hit g \<and> cg_pending g \<noteq> []
      then map_option snd (bc_Put (cg_sst_id g) (cg_block_offset g) (cg_pending g) c) else Some c)"

definition guard_DataOrPending :: "CacheGuard \<Rightarrow> bytes" where
  "guard_DataOrPending g = (case cg_data g of Some d \<Rightarrow> d | None \<Rightarrow> cg_pending g)"

text \<open>\<^verbatim>\<open>CachedDataBlock\<close> of \<^verbatim>\<open>sst.hpp\<close>, without its base class; the cache pointer may be null.\<close>

record CachedDataBlock =
  cdb_has_cache :: bool
  cdb_sst_id :: "64 word"
  cdb_block_offset :: "64 word"
  cdb_cached :: bool

definition InitCache :: "bool \<Rightarrow> 64 word \<Rightarrow> 64 word \<Rightarrow> CachedDataBlock \<Rightarrow> CachedDataBlock" where
  "InitCache has_cache sid block_offset b =
     b\<lparr>cdb_has_cache := has_cache, cdb_sst_id := sid, cdb_block_offset := block_offset\<rparr>"

definition LoadFromCache :: "CachedDataBlock \<Rightarrow> BlockCache \<Rightarrow> (bytes option \<times> CachedDataBlock \<times> BlockCache) option" where
  "LoadFromCache b c =
     (if \<not> cdb_has_cache b then Some (None, b, c)
      else do { (data, c) \<leftarrow> bc_Get (cdb_sst_id b) (cdb_block_offset b) c;
                Some (data, if data \<noteq> None then b\<lparr>cdb_cached := True\<rparr> else b, c) })"

definition PutToCache :: "bytes \<Rightarrow> CachedDataBlock \<Rightarrow> BlockCache \<Rightarrow> (bool \<times> BlockCache) option" where
  "PutToCache data b c =
     (if \<not> cdb_has_cache b \<or> cdb_cached b then Some (False, c)
      else bc_Put (cdb_sst_id b) (cdb_block_offset b) data c)"

text \<open>\<^verbatim>\<open>SST::PrefetchDataBlock\<close>: \<open>None\<close> in place of a cache is the null pointer.\<close>

definition PrefetchDataBlock :: "SST \<Rightarrow> nat \<Rightarrow> BlockCache option \<Rightarrow> (bool \<times> BlockCache option) option" where
  "PrefetchDataBlock sst block_index cache =
     (case cache of
        None \<Rightarrow> Some (False, None)
      | Some c \<Rightarrow>
          if length (sst_blocks sst) \<le> block_index then Some (False, cache)
          else do {
            let block_offset = dii_offset (sst_blocks sst ! block_index);
            let sid = (word_of_int (sst_id sst) :: 64 word);
            (found, c) \<leftarrow> bc_Get sid (of_nat block_offset) c;
            if found \<noteq> None then Some (True, Some c)
            else do {
              block_size \<leftarrow> ReadSize (sst_data sst) block_offset;
              if block_size = 0 \<or> sst_file_size sst < wrap (block_offset + block_size) then Some (False, Some c)
              else if block_size < 8 then None
              else do {
                block_data \<leftarrow> read_bytes (sst_data sst) (block_offset + 8) (block_size - 8);
                (ok, c) \<leftarrow> bc_Put sid (of_nat block_offset) block_data c;
                Some (ok, Some c) } } })"

fun PrefetchDataBlocks :: "SST \<Rightarrow> nat \<Rightarrow> nat \<Rightarrow> BlockCache option \<Rightarrow> (nat \<times> BlockCache option) option" where
  "PrefetchDataBlocks sst start 0 cache = Some (0, cache)"
| "PrefetchDataBlocks sst start (Suc n) cache =
     do { (ok, cache) \<leftarrow> PrefetchDataBlock sst start cache;
          (k, cache) \<leftarrow> PrefetchDataBlocks sst (start + 1) n cache;
          Some ((if ok then 1 else 0) + k, cache) }"

definition PrefetchAllBlocks :: "SST \<Rightarrow> BlockCache option \<Rightarrow> (nat \<times> BlockCache option) option" where
  "PrefetchAllBlocks sst cache = PrefetchDataBlocks sst 0 (length (sst_blocks sst)) cache"

end
