(* ===== verification/BlockCache_Correct.thy ===== *)
theory BlockCache_Correct
  imports BlockCache
begin

text \<open>
  The block cache against a list of keys and data, most recently used first: \<open>bc_wf\<close> says that the table and
  the list agree, \<open>bc_accounted\<close> that the counters do, and each operation acts on \<open>bc_view\<close> like an LRU list.
\<close>

section \<open>Keys\<close>

lemma MakeKey_unat:
  assumes "unat s < 2 ^ 32" "unat b < 2 ^ 32"
  shows "unat (MakeKey s b) = unat s * 2 ^ 32 + unat b"
proof -
  have "push_bit 32 s AND b = 0"
  proof (rule bit_eqI)
    fix n
    have "\<not> bit b n" if "32 \<le> n"
    proof -
      have "unat (take_bit 32 b) = unat b" using assms(2) by (simp add: unsigned_take_bit_eq take_bit_nat_eq_self_iff)
      then have "take_bit 32 b = b" by (simp add: word_unat_eq_iff)
      then show ?thesis using that by (metis bit_take_bit_iff not_le)
    qed
    then show "bit (push_bit 32 s AND b) n = bit 0 n" by (auto simp: bit_and_iff bit_push_bit_iff)
  qed
  then have "MakeKey s b = push_bit 32 s + b" unfolding MakeKey_def by (simp add: disjunctive_add_eq_or)
  moreover have "unat (push_bit 32 s) = unat s * 2 ^ 32"
    using assms(1) by (simp add: push_bit_eq_mult unat_word_ariths)
  ultimately show ?thesis using assms by (simp add: unat_word_ariths)
qed

lemma MakeKey_inj:
  assumes "unat s < 2 ^ 32" "unat b < 2 ^ 32" "unat s' < 2 ^ 32" "unat b' < 2 ^ 32"
  shows "MakeKey s b = MakeKey s' b' \<longleftrightarrow> s = s' \<and> b = b'"
proof
  assume "MakeKey s b = MakeKey s' b'"
  then have eq: "unat s * 2 ^ 32 + unat b = unat s' * 2 ^ 32 + unat b'"
    using MakeKey_unat [OF assms(1,2)] MakeKey_unat [OF assms(3,4)] by simp
  then have "unat b = unat b'" using assms(2,4) by (metis mod_less mod_mult_self3)
  then show "s = s' \<and> b = b'" using eq by (simp add: word_unat_eq_iff)
qed simp

section \<open>The abstraction\<close>

definition key_of :: "CacheBlock \<Rightarrow> 64 word" where
  "key_of b = MakeKey (cb_sst_id b) (cb_block_offset b)"

definition bc_view :: "BlockCache \<Rightarrow> (64 word \<times> bytes) list" where
  "bc_view c = map (\<lambda>i. let b = the (bc_heap c i) in (key_of b, cb_data b)) (bc_lru c)"

definition bc_wf :: "BlockCache \<Rightarrow> bool" where
  "bc_wf c =
     (distinct (bc_lru c) \<and>
      (\<forall>i \<in> set (bc_lru c). \<exists>b. bc_heap c i = Some b \<and> bc_map c (key_of b) = Some i) \<and>
      (\<forall>k i. bc_map c k = Some i \<longrightarrow> i \<in> set (bc_lru c) \<and> key_of (the (bc_heap c i)) = k) \<and>
      (\<forall>i \<in> dom (bc_heap c). i < bc_fresh c))"

definition total_size :: "(64 word \<times> bytes) list \<Rightarrow> nat" where
  "total_size v = (\<Sum>(k, d)\<leftarrow>v. length d)"

definition bc_accounted :: "BlockCache \<Rightarrow> bool" where
  "bc_accounted c =
     (st_current_size (bc_stats c) = of_nat (total_size (bc_view c)) \<and>
      st_current_count (bc_stats c) = of_nat (length (bc_lru c)))"

text \<open>The reference: an LRU list with a capacity in bytes and, unless zero, in blocks.\<close>

definition lru_touch :: "64 word \<Rightarrow> bytes \<Rightarrow> (64 word \<times> bytes) list \<Rightarrow> (64 word \<times> bytes) list" where
  "lru_touch k d v = (k, d) # filter (\<lambda>e. fst e \<noteq> k) v"

function lru_evict :: "nat \<Rightarrow> nat \<Rightarrow> nat \<Rightarrow> (64 word \<times> bytes) list \<Rightarrow> (64 word \<times> bytes) list" where
  "lru_evict cap count n v =
     (if v \<noteq> [] \<and> (cap < total_size v + n \<or> 0 < count \<and> count \<le> length v) then lru_evict cap count n (butlast v) else v)"
  by auto
termination by (relation "measure (\<lambda>(_, _, _, v). length v)") auto

declare lru_evict.simps [simp del]

lemma bc_wfD:
  assumes "bc_wf c"
  shows "distinct (bc_lru c)" "\<And>i. i \<in> set (bc_lru c) \<Longrightarrow> \<exists>b. bc_heap c i = Some b \<and> bc_map c (key_of b) = Some i"
    "\<And>k i. bc_map c k = Some i \<Longrightarrow> i \<in> set (bc_lru c) \<and> key_of (the (bc_heap c i)) = k"
    "\<And>i b. bc_heap c i = Some b \<Longrightarrow> i < bc_fresh c"
  using assms unfolding bc_wf_def by blast+

lemma bc_map_Some:
  assumes "bc_wf c" "bc_map c k = Some i"
  obtains b where "bc_heap c i = Some b" "key_of b = k" "i \<in> set (bc_lru c)"
  using bc_wfD(2,3) [OF assms(1)] assms(2) by (metis option.sel)

lemma keys_view: "bc_wf c \<Longrightarrow> fst ` set (bc_view c) = dom (bc_map c)"
proof -
  assume wf: "bc_wf c"
  have *: "k \<in> fst ` set (bc_view c) \<longleftrightarrow> (\<exists>i \<in> set (bc_lru c). key_of (the (bc_heap c i)) = k)" for k
    by (force simp: bc_view_def Let_def)
  show ?thesis
  proof (rule set_eqI)
    fix k
    show "k \<in> fst ` set (bc_view c) \<longleftrightarrow> k \<in> dom (bc_map c)"
      unfolding * using bc_wfD(2,3) [OF wf] by (metis domD domI option.sel)
  qed
qed

lemma lru_key_inj:
  assumes "bc_wf c" "i \<in> set (bc_lru c)" "j \<in> set (bc_lru c)" "key_of (the (bc_heap c i)) = key_of (the (bc_heap c j))"
  shows "i = j"
  using bc_wfD(2) [OF assms(1) assms(2)] bc_wfD(2) [OF assms(1) assms(3)] assms(4) by auto

lemma distinct_view: "bc_wf c \<Longrightarrow> distinct (map fst (bc_view c))"
proof -
  assume wf: "bc_wf c"
  have "inj_on (\<lambda>i. key_of (the (bc_heap c i))) (set (bc_lru c))" using lru_key_inj [OF wf] by (auto simp: inj_on_def)
  then show ?thesis using bc_wfD(1) [OF wf] by (simp add: bc_view_def distinct_map o_def Let_def)
qed

lemma view_lookup:
  assumes "bc_wf c" "bc_map c k = Some i"
  shows "map_of (bc_view c) k = Some (cb_data (the (bc_heap c i)))"
proof -
  have "(k, cb_data (the (bc_heap c i))) \<in> set (bc_view c)"
    using bc_wfD(3) [OF assms] by (force simp: bc_view_def Let_def)
  then show ?thesis using distinct_view [OF assms(1)] by (simp add: map_of_is_SomeI)
qed

lemma view_lookup_None: "bc_wf c \<Longrightarrow> bc_map c k = None \<Longrightarrow> map_of (bc_view c) k = None"
  using keys_view [of c] by (auto simp: map_of_eq_None_iff)

section \<open>Operations\<close>

text \<open>Updating the data of a block and moving it to the front.\<close>

lemma touch_block:
  assumes wf: "bc_wf c" and i: "bc_map c k = Some i" "bc_heap c i = Some b"
    and b': "key_of b' = key_of b" and c': "bc_heap c' = (bc_heap c)(i \<mapsto> b')" "bc_lru c' = i # removeAll i (bc_lru c)"
      "bc_map c' = bc_map c" "bc_fresh c' = bc_fresh c"
  shows "bc_wf c'" "bc_view c' = lru_touch k (cb_data b') (bc_view c)"
proof -
  have k: "key_of b = k" "i \<in> set (bc_lru c)" using bc_wfD(3) [OF wf i(1)] i(2) by auto
  have other: "the (bc_heap c' j) = the (bc_heap c j)" if "j \<noteq> i" for j using that c'(1) by simp
  have ne: "key_of (the (bc_heap c j)) \<noteq> k" if "j \<in> set (bc_lru c)" "j \<noteq> i" for j
    using lru_key_inj [OF wf that(1) k(2)] that(2) i(2) k(1) by auto
  show "bc_wf c'"
    unfolding bc_wf_def
  proof (intro conjI)
    show "distinct (bc_lru c')" using bc_wfD(1) [OF wf] c'(2) by (simp add: distinct_removeAll)
    show "\<forall>j \<in> set (bc_lru c'). \<exists>b. bc_heap c' j = Some b \<and> bc_map c' (key_of b) = Some j"
      using bc_wfD(2) [OF wf] c' b' k i by auto
    show "\<forall>k j. bc_map c' k = Some j \<longrightarrow> j \<in> set (bc_lru c') \<and> key_of (the (bc_heap c' j)) = k"
      using bc_wfD(3) [OF wf] c' b' i(2) k(2) by fastforce
    show "\<forall>j \<in> dom (bc_heap c'). j < bc_fresh c'" using bc_wfD(4) [OF wf] c' i(2) by auto
  qed
  have "filter (\<lambda>e. fst e \<noteq> k) (bc_view c) =
      map (\<lambda>j. let b = the (bc_heap c j) in (key_of b, cb_data b)) (filter (\<lambda>j. j \<noteq> i) (bc_lru c))"
    unfolding bc_view_def filter_map using ne k i(2)
    by (intro arg_cong [where f = "map _"] filter_cong) (auto simp: Let_def)
  also have "\<dots> = map (\<lambda>j. let b = the (bc_heap c' j) in (key_of b, cb_data b)) (removeAll i (bc_lru c))"
    using other by (auto simp: removeAll_filter_not_eq eq_commute)
  finally show "bc_view c' = lru_touch k (cb_data b') (bc_view c)"
    using c'(1,2) b' k(1) by (simp add: bc_view_def lru_touch_def Let_def)
qed

lemma filter_absent: "distinct (map fst (e # v)) \<Longrightarrow> filter (\<lambda>x. fst x \<noteq> fst e) v = v"
  by (force simp: filter_id_conv image_iff)

lemma total_size_touch:
  assumes "distinct (map fst v)" "map_of v k = Some d"
  shows "total_size (lru_touch k d' v) + length d = total_size v + length d'"
proof -
  have "total_size (filter (\<lambda>e. fst e \<noteq> k) v) + length d = total_size v"
    using assms
  proof (induction v)
    case (Cons e v)
    show ?case
    proof (cases "fst e = k")
      case True
      then have "filter (\<lambda>e. fst e \<noteq> k) v = v" using filter_absent Cons.prems(1) by metis
      then show ?thesis using True Cons.prems(2) by (cases e) (simp add: total_size_def)
    next
      case False
      then show ?thesis using Cons by (cases e) (simp add: total_size_def)
    qed
  qed simp
  then show ?thesis by (simp add: lru_touch_def total_size_def)
qed

lemma bc_Get_ok:
  assumes wf: "bc_wf c"
  shows "\<exists>c'. bc_Get s b c = Some (map_of (bc_view c) (MakeKey s b), c') \<and> bc_wf c' \<and> bc_config c' = bc_config c \<and>
    bc_view c' = (case map_of (bc_view c) (MakeKey s b) of None \<Rightarrow> bc_view c | Some d \<Rightarrow> lru_touch (MakeKey s b) d (bc_view c)) \<and>
    st_current_size (bc_stats c') = st_current_size (bc_stats c) \<and> st_current_count (bc_stats c') = st_current_count (bc_stats c)"
proof (cases "bc_map c (MakeKey s b)")
  case None
  let ?c = "c\<lparr>bc_stats := (bc_stats c)\<lparr>st_miss_count := st_miss_count (bc_stats c) + 1,
    st_total_access := st_total_access (bc_stats c) + 1\<rparr>\<rparr>"
  have "bc_wf ?c" "bc_view ?c = bc_view c" using wf by (simp_all add: bc_wf_def bc_view_def)
  then show ?thesis using None view_lookup_None [OF wf None]
    by (intro exI [of _ ?c]) (simp add: bc_Get_def)
next
  case (Some i)
  obtain x where x: "bc_heap c i = Some x" "key_of x = MakeKey s b" "i \<in> set (bc_lru c)" using bc_map_Some [OF wf Some] .
  define x' where "x' = x\<lparr>cb_hit_count := cb_hit_count x + 1, cb_access_time := bc_access_counter c + 1\<rparr>"
  obtain c' where c': "bc_Get s b c = Some (Some (cb_data x), c')" "bc_heap c' = (bc_heap c)(i \<mapsto> x')"
    "bc_lru c' = i # removeAll i (bc_lru c)" "bc_map c' = bc_map c" "bc_fresh c' = bc_fresh c" "bc_config c' = bc_config c"
    "st_current_size (bc_stats c') = st_current_size (bc_stats c)" "st_current_count (bc_stats c') = st_current_count (bc_stats c)"
    using Some x(1) by (simp add: bc_Get_def MoveToFront_def Let_def x'_def)
  have x': "key_of x' = key_of x" "cb_data x' = cb_data x" by (simp_all add: x'_def key_of_def)
  note touch = touch_block [OF wf Some x(1) x'(1) c'(2-5)]
  have look: "map_of (bc_view c) (MakeKey s b) = Some (cb_data x)" using view_lookup [OF wf Some] x(1) by simp
  show ?thesis using c'(1,6-8) touch look x'(2) by (intro exI [of _ c']) simp
qed

lemma length_view [simp]: "length (bc_view c) = length (bc_lru c)" by (simp add: bc_view_def)

text \<open>Taking a block out of the list and the table.\<close>

lemma drop_block:
  assumes wf: "bc_wf c" and i: "bc_map c k = Some i"
    and c': "bc_heap c' = bc_heap c" "bc_lru c' = removeAll i (bc_lru c)" "bc_map c' = (bc_map c)(k := None)"
      "bc_fresh c' = bc_fresh c"
  shows "bc_wf c'" "bc_view c' = filter (\<lambda>e. fst e \<noteq> k) (bc_view c)"
proof -
  obtain b where b: "bc_heap c i = Some b" "key_of b = k" "i \<in> set (bc_lru c)" using bc_map_Some [OF wf i] .
  have ne: "key_of (the (bc_heap c j)) \<noteq> k" if "j \<in> set (bc_lru c)" "j \<noteq> i" for j
    using lru_key_inj [OF wf that(1) b(3)] that(2) b by auto
  show "bc_wf c'"
    unfolding bc_wf_def
  proof (intro conjI)
    show "distinct (bc_lru c')" using bc_wfD(1) [OF wf] c'(2) by (simp add: distinct_removeAll)
    show "\<forall>j \<in> set (bc_lru c'). \<exists>b. bc_heap c' j = Some b \<and> bc_map c' (key_of b) = Some j"
    proof
      fix j
      assume "j \<in> set (bc_lru c')"
      then have j: "j \<in> set (bc_lru c)" "j \<noteq> i" using c'(2) by auto
      obtain b where b: "bc_heap c j = Some b" "bc_map c (key_of b) = Some j" using bc_wfD(2) [OF wf j(1)] by blast
      then have "key_of b \<noteq> k" using ne [OF j] by simp
      then show "\<exists>b. bc_heap c' j = Some b \<and> bc_map c' (key_of b) = Some j" using b c'(1,3) by simp
    qed
    show "\<forall>l j. bc_map c' l = Some j \<longrightarrow> j \<in> set (bc_lru c') \<and> key_of (the (bc_heap c' j)) = l"
    proof (intro allI impI)
      fix l j
      assume "bc_map c' l = Some j"
      then have l: "bc_map c l = Some j" "l \<noteq> k" using c'(3) by (auto split: if_splits)
      then have "j \<noteq> i" using bc_wfD(3) [OF wf l(1)] b by auto
      then show "j \<in> set (bc_lru c') \<and> key_of (the (bc_heap c' j)) = l" using bc_wfD(3) [OF wf l(1)] c' by simp
    qed
    show "\<forall>j \<in> dom (bc_heap c'). j < bc_fresh c'" using bc_wfD(4) [OF wf] c' by auto
  qed
  have "filter (\<lambda>e. fst e \<noteq> k) (bc_view c) =
      map (\<lambda>j. let b = the (bc_heap c j) in (key_of b, cb_data b)) (filter (\<lambda>j. j \<noteq> i) (bc_lru c))"
    unfolding bc_view_def filter_map using ne b
    by (intro arg_cong [where f = "map _"] filter_cong) (auto simp: Let_def)
  then show "bc_view c' = filter (\<lambda>e. fst e \<noteq> k) (bc_view c)"
    using c'(1,2) by (simp add: bc_view_def removeAll_filter_not_eq eq_commute)
qed

lemma total_size_filter:
  "distinct (map fst v) \<Longrightarrow> map_of v k = Some d \<Longrightarrow> total_size (filter (\<lambda>e. fst e \<noteq> k) v) + length d = total_size v"
  using total_size_touch [of v k d d] by (simp add: lru_touch_def total_size_def)

lemma length_removeAll_lru:
  assumes "bc_wf c" "i \<in> set (bc_lru c)"
  shows "Suc (length (removeAll i (bc_lru c))) = length (bc_lru c)"
  using assms bc_wfD(1) [OF assms(1)]
  by (simp add: distinct_remove1_removeAll [symmetric] length_remove1) (metis length_pos_if_in_set Suc_pred)

lemma accounted_drop:
  assumes "total_size (bc_view c) = total_size (bc_view c') + n" "length (bc_lru c) = Suc (length (bc_lru c'))"
    "st_current_size (bc_stats c') = st_current_size (bc_stats c) - of_nat n"
    "st_current_count (bc_stats c') = st_current_count (bc_stats c) - 1" "bc_accounted c"
  shows "bc_accounted c'"
  using assms by (simp add: bc_accounted_def)

text \<open>\<^verbatim>\<open>RemoveBlock\<close> followed by the erasure from the table.\<close>

lemma RemoveBlock_ok:
  assumes wf: "bc_wf c" and i: "bc_map c k = Some i"
  obtains c1 where "RemoveBlock i c = Some c1" "bc_wf (c1\<lparr>bc_map := (bc_map c1)(k := None)\<rparr>)"
    "bc_view (c1\<lparr>bc_map := (bc_map c1)(k := None)\<rparr>) = filter (\<lambda>e. fst e \<noteq> k) (bc_view c)"
    "bc_config c1 = bc_config c" "bc_map c1 = bc_map c"
    "bc_accounted c \<Longrightarrow> bc_accounted (c1\<lparr>bc_map := (bc_map c1)(k := None)\<rparr>)"
proof -
  obtain b where b: "bc_heap c i = Some b" "key_of b = k" "i \<in> set (bc_lru c)" using bc_map_Some [OF wf i] .
  define c1 where "c1 = c\<lparr>bc_lru := removeAll i (bc_lru c),
    bc_stats := (bc_stats c)\<lparr>st_current_size := st_current_size (bc_stats c) - of_nat (length (cb_data b)),
      st_current_count := st_current_count (bc_stats c) - 1\<rparr>\<rparr>"
  let ?c = "c1\<lparr>bc_map := (bc_map c1)(k := None)\<rparr>"
  have c': "bc_heap ?c = bc_heap c" "bc_lru ?c = removeAll i (bc_lru c)" "bc_map ?c = (bc_map c)(k := None)"
    "bc_fresh ?c = bc_fresh c" by (simp_all add: c1_def)
  note dropped = drop_block [OF wf i c']
  have "map_of (bc_view c) k = Some (cb_data b)" using view_lookup [OF wf i] b(1) by simp
  from total_size_filter [OF distinct_view [OF wf] this]
  have "total_size (bc_view c) = total_size (bc_view ?c) + length (cb_data b)" using dropped(2) by simp
  moreover have "length (bc_lru c) = Suc (length (bc_lru ?c))" using length_removeAll_lru [OF wf b(3)] c'(2) by simp
  moreover have "st_current_size (bc_stats ?c) = st_current_size (bc_stats c) - of_nat (length (cb_data b))"
    "st_current_count (bc_stats ?c) = st_current_count (bc_stats c) - 1" by (simp_all add: c1_def)
  ultimately have acc: "bc_accounted c \<Longrightarrow> bc_accounted ?c" by (rule accounted_drop)
  have "RemoveBlock i c = Some c1" using b(1) by (simp add: RemoveBlock_def c1_def)
  then show thesis using that [of c1] dropped acc by (simp add: c1_def)
qed

lemma bc_Remove_ok:
  assumes wf: "bc_wf c"
  shows "\<exists>c'. bc_Remove s b c = Some (map_of (bc_view c) (MakeKey s b) \<noteq> None, c') \<and> bc_wf c' \<and> bc_config c' = bc_config c \<and>
    bc_view c' = filter (\<lambda>e. fst e \<noteq> MakeKey s b) (bc_view c) \<and> (bc_accounted c \<longrightarrow> bc_accounted c')"
proof (cases "bc_map c (MakeKey s b)")
  case None
  have "filter (\<lambda>e. fst e \<noteq> MakeKey s b) (bc_view c) = bc_view c"
    using keys_view [OF wf] None by (intro filter_True ballI) (metis domIff imageI)
  then show ?thesis using None wf view_lookup_None [OF wf None] by (simp add: bc_Remove_def Let_def)
next
  case (Some i)
  obtain c1 where c1: "RemoveBlock i c = Some c1" "bc_wf (c1\<lparr>bc_map := (bc_map c1)(MakeKey s b := None)\<rparr>)"
    "bc_view (c1\<lparr>bc_map := (bc_map c1)(MakeKey s b := None)\<rparr>) = filter (\<lambda>e. fst e \<noteq> MakeKey s b) (bc_view c)"
    "bc_config c1 = bc_config c" "bc_map c1 = bc_map c"
    "bc_accounted c \<Longrightarrow> bc_accounted (c1\<lparr>bc_map := (bc_map c1)(MakeKey s b := None)\<rparr>)"
    using RemoveBlock_ok [OF wf Some] by blast
  show ?thesis using c1 Some view_lookup [OF wf Some] by (simp add: bc_Remove_def Let_def)
qed

lemma bc_Clear_ok: "bc_wf c \<Longrightarrow> bc_wf (bc_Clear c) \<and> bc_view (bc_Clear c) = [] \<and> bc_accounted (bc_Clear c)"
  by (auto simp: bc_Clear_def bc_wf_def bc_view_def bc_accounted_def total_size_def)

section \<open>Eviction\<close>

text \<open>A cache whose counters are right and whose size leaves room in 64 bits.\<close>

definition bc_sized :: "BlockCache \<Rightarrow> bool" where
  "bc_sized c =
     (bc_accounted c \<and> (\<forall>e \<in> set (bc_view c). snd e \<noteq> []) \<and>
      total_size (bc_view c) \<le> max (cfg_max_capacity (bc_config c)) (cfg_max_block_size (bc_config c)) \<and>
      (0 < cfg_max_block_count (bc_config c) \<longrightarrow> length (bc_view c) \<le> cfg_max_block_count (bc_config c)))"

definition config_ok :: "CacheConfig \<Rightarrow> bool" where
  "config_ok cfg = (cfg_max_capacity cfg + 2 * cfg_max_block_size cfg < 2 ^ 64)"

lemma length_le_total: "\<forall>e \<in> set v. snd e \<noteq> [] \<Longrightarrow> length v \<le> total_size v"
proof (induction v)
  case (Cons e v)
  then show ?case by (cases e) (auto simp: total_size_def Suc_le_eq intro: add_le_mono [of 1, simplified])
qed (simp add: total_size_def)

lemma over_capacity_iff:
  assumes "bc_sized c" "config_ok (bc_config c)" "n \<le> cfg_max_block_size (bc_config c)"
  shows "over_capacity c n \<longleftrightarrow>
    cfg_max_capacity (bc_config c) < total_size (bc_view c) + n \<or>
    0 < cfg_max_block_count (bc_config c) \<and> cfg_max_block_count (bc_config c) \<le> length (bc_view c)"
proof -
  have small: "total_size (bc_view c) + n < 2 ^ 64" using assms by (auto simp: bc_sized_def config_ok_def)
  have "length (bc_view c) \<le> total_size (bc_view c)" using length_le_total [of "bc_view c"] assms(1) by (simp add: bc_sized_def)
  then have "length (bc_lru c) < 2 ^ 64" using small by simp
  then have "unat (of_nat (length (bc_lru c)) :: 64 word) = length (bc_lru c)" by (simp add: unat_of_nat)
  moreover have "unat (of_nat (total_size (bc_view c)) + of_nat n :: 64 word) = total_size (bc_view c) + n"
    using small unat_of_nat [of "total_size (bc_view c) + n", where ?'a = 64] by simp
  ultimately show ?thesis using assms(1) by (simp add: over_capacity_def bc_sized_def bc_accounted_def)
qed


lemma filter_last:
  assumes "distinct (map fst v)" "v \<noteq> []"
  shows "filter (\<lambda>e. fst e \<noteq> fst (last v)) v = butlast v"
proof -
  have v: "v = butlast v @ [last v]" using assms(2) by simp
  then have "map fst v = map fst (butlast v) @ [fst (last v)]" by (metis list.simps(8,9) map_append)
  then have "fst (last v) \<notin> fst ` set (butlast v)" using assms(1) by (metis distinct_append distinct.simps(2) list.set_map not_distinct_conv_prefix)
  then have "filter (\<lambda>e. fst e \<noteq> fst (last v)) (butlast v) = butlast v" by (intro filter_True) (metis imageI)
  then show ?thesis by (subst v) simp
qed

lemma evict_last_ok:
  assumes wf: "bc_wf c" and ne: "bc_lru c \<noteq> []" and sized: "bc_sized c"
  obtains c' where "evict_last c = Some c'" "bc_wf c'" "bc_view c' = butlast (bc_view c)" "bc_sized c'" "bc_config c' = bc_config c"
proof -
  let ?i = "last (bc_lru c)"
  have "?i \<in> set (bc_lru c)" using ne by simp
  then obtain b where b: "bc_heap c ?i = Some b" "bc_map c (key_of b) = Some ?i" using bc_wfD(2) [OF wf] by blast
  obtain c1 where c1: "RemoveBlock ?i c = Some c1" "bc_wf (c1\<lparr>bc_map := (bc_map c1)(key_of b := None)\<rparr>)"
    "bc_view (c1\<lparr>bc_map := (bc_map c1)(key_of b := None)\<rparr>) = filter (\<lambda>e. fst e \<noteq> key_of b) (bc_view c)"
    "bc_config c1 = bc_config c"
    "bc_accounted c \<Longrightarrow> bc_accounted (c1\<lparr>bc_map := (bc_map c1)(key_of b := None)\<rparr>)"
    using RemoveBlock_ok [OF wf b(2)] by blast
  define c' where "c' = c1\<lparr>bc_map := (bc_map c1)(key_of b := None),
    bc_stats := (bc_stats c1)\<lparr>st_evicted_count := st_evicted_count (bc_stats c1) + 1\<rparr>\<rparr>"
  have "fst (last (bc_view c)) = key_of b" using ne b(1) by (simp add: bc_view_def last_map Let_def)
  moreover have "bc_view c \<noteq> []" using ne by (simp add: bc_view_def)
  ultimately have bl: "filter (\<lambda>e. fst e \<noteq> key_of b) (bc_view c) = butlast (bc_view c)"
    using filter_last [OF distinct_view [OF wf]] by simp
  have view: "bc_view c' = butlast (bc_view c)" using c1(3) bl by (simp add: c'_def bc_view_def)
  have "total_size (butlast (bc_view c)) \<le> total_size (bc_view c)"
    using \<open>bc_view c \<noteq> []\<close> by (cases "bc_view c" rule: rev_cases) (auto simp: total_size_def)
  moreover have "bc_accounted c'" using c1(5) sized by (simp add: c'_def bc_sized_def bc_accounted_def bc_view_def)
  moreover have "bc_config c' = bc_config c" "length (bc_view c') \<le> length (bc_view c)" using c1(4) view by (simp_all add: c'_def)
  ultimately have "bc_sized c'" using sized view unfolding bc_sized_def by (auto dest: in_set_butlastD)
  moreover have "evict_last c = Some c'" using b(1) c1(1) by (simp add: evict_last_def c'_def key_of_def Let_def)
  moreover have "bc_wf c'" using c1(2) by (simp add: c'_def bc_wf_def)
  ultimately show thesis using that [of c'] view c1(4) by (simp add: c'_def)
qed

lemma EvictIfNeeded_ok:
  assumes "bc_wf c" "bc_sized c" "config_ok (bc_config c)" "n \<le> cfg_max_block_size (bc_config c)" "fuel = length (bc_lru c)"
  shows "\<exists>c'. evict_loop fuel n c = Some c' \<and> bc_wf c' \<and> bc_sized c' \<and> bc_config c' = bc_config c \<and>
    bc_view c' = lru_evict (cfg_max_capacity (bc_config c)) (cfg_max_block_count (bc_config c)) n (bc_view c)"
  using assms
proof (induction fuel arbitrary: c)
  case 0
  then have "bc_view c = []" by (simp add: bc_view_def)
  then show ?case using 0 by (simp add: lru_evict.simps [of _ _ _ "[]"])
next
  case (Suc fuel)
  have ne: "bc_lru c \<noteq> []" "bc_view c \<noteq> []" using Suc.prems(5) by (auto simp: bc_view_def)
  show ?case
  proof (cases "over_capacity c n")
    case False
    then have "lru_evict (cfg_max_capacity (bc_config c)) (cfg_max_block_count (bc_config c)) n (bc_view c) = bc_view c"
      using over_capacity_iff [OF Suc.prems(2-4)] by (subst lru_evict.simps) auto
    moreover have "evict_loop (Suc fuel) n c = Some c" using False by simp
    ultimately show ?thesis using Suc.prems by simp
  next
    case True
    obtain c1 where c1: "evict_last c = Some c1" "bc_wf c1" "bc_view c1 = butlast (bc_view c)" "bc_sized c1" "bc_config c1 = bc_config c"
      using evict_last_ok [OF Suc.prems(1) ne(1) Suc.prems(2)] .
    have "length (bc_view c1) = fuel" using c1(3) Suc.prems(5) by simp
    then have "fuel = length (bc_lru c1)" by simp
    from Suc.IH [OF c1(2,4) _ _ this] obtain c' where "evict_loop fuel n c1 = Some c'" "bc_wf c'" "bc_sized c'" "bc_config c' = bc_config c1"
      "bc_view c' = lru_evict (cfg_max_capacity (bc_config c)) (cfg_max_block_count (bc_config c)) n (butlast (bc_view c))"
      using Suc.prems(3,4) c1(3,5) by auto
    then show ?thesis
      using True ne c1(1,5) over_capacity_iff [OF Suc.prems(2-4)]
      by (simp add: lru_evict.simps [of _ _ _ "bc_view c"])
  qed
qed

text \<open>What the reference keeps: a prefix, with room for the new block when a block fits at all.\<close>

lemma lru_evict_prefix: "\<exists>w. v = lru_evict cap count n v @ w"
proof (induction cap count n v rule: lru_evict.induct)
  case (1 cap count n v)
  show ?case
  proof (cases "v \<noteq> [] \<and> (cap < total_size v + n \<or> 0 < count \<and> count \<le> length v)")
    case True
    then obtain w where "butlast v = lru_evict cap count n (butlast v) @ w" using 1 by blast
    then have "v = lru_evict cap count n (butlast v) @ w @ [last v]" using True by (metis append_assoc append_butlast_last_id)
    then show ?thesis using True by (subst lru_evict.simps) auto
  qed (subst lru_evict.simps, auto)
qed

lemma lru_evict_fits:
  "lru_evict cap count n v = [] \<or>
   total_size (lru_evict cap count n v) + n \<le> cap \<and> (count = 0 \<or> length (lru_evict cap count n v) < count)"
proof (induction cap count n v rule: lru_evict.induct)
  case (1 cap count n v)
  then show ?case by (subst (1 2 3) lru_evict.simps) (auto simp: not_less)
qed


section \<open>The cache as an LRU list\<close>

definition lru_put :: "CacheConfig \<Rightarrow> 64 word \<Rightarrow> bytes \<Rightarrow> (64 word \<times> bytes) list \<Rightarrow> bool \<times> (64 word \<times> bytes) list" where
  "lru_put cfg k d v =
     (if d = [] \<or> cfg_max_block_size cfg < length d \<or> low_utilization cfg (length d) then (False, v)
      else if map_of v k \<noteq> None then (True, lru_touch k d v)
      else (True, (k, d) # lru_evict (cfg_max_capacity cfg) (cfg_max_block_count cfg) (length d) v))"

text \<open>The blocks of a table never change, so a block that is put again has the size it had.\<close>

definition same_size :: "64 word \<Rightarrow> bytes \<Rightarrow> (64 word \<times> bytes) list \<Rightarrow> bool" where
  "same_size k d v = (case map_of v k of None \<Rightarrow> True | Some d' \<Rightarrow> length d' = length d)"

lemma insert_block:
  assumes wf: "bc_wf c" and none: "bc_map c k = None" and b: "key_of b = k"
    and c': "bc_heap c' = (bc_heap c)(bc_fresh c \<mapsto> b)" "bc_lru c' = bc_fresh c # bc_lru c"
      "bc_map c' = (bc_map c)(k \<mapsto> bc_fresh c)" "bc_fresh c' = bc_fresh c + 1"
  shows "bc_wf c'" "bc_view c' = (k, cb_data b) # bc_view c"
proof -
  have old: "j \<noteq> bc_fresh c" if "j \<in> set (bc_lru c)" for j using bc_wfD(2,4) [OF wf] that by (metis less_irrefl)
  show "bc_wf c'"
    unfolding bc_wf_def
  proof (intro conjI)
    show "distinct (bc_lru c')" using bc_wfD(1) [OF wf] old c'(2) by auto
    show "\<forall>j \<in> set (bc_lru c'). \<exists>b. bc_heap c' j = Some b \<and> bc_map c' (key_of b) = Some j"
    proof
      fix j
      assume "j \<in> set (bc_lru c')"
      then consider "j = bc_fresh c" | "j \<in> set (bc_lru c)" using c'(2) by auto
      then show "\<exists>b. bc_heap c' j = Some b \<and> bc_map c' (key_of b) = Some j"
      proof cases
        case 2
        then obtain x where x: "bc_heap c j = Some x" "bc_map c (key_of x) = Some j" using bc_wfD(2) [OF wf] by blast
        then have "key_of x \<noteq> k" using none by auto
        then show ?thesis using x c'(1,3) old [OF 2] by simp
      qed (use c' b in simp)
    qed
    show "\<forall>l j. bc_map c' l = Some j \<longrightarrow> j \<in> set (bc_lru c') \<and> key_of (the (bc_heap c' j)) = l"
    proof (intro allI impI)
      fix l j
      assume l: "bc_map c' l = Some j"
      show "j \<in> set (bc_lru c') \<and> key_of (the (bc_heap c' j)) = l"
      proof (cases "l = k")
        case False
        then have "bc_map c l = Some j" using l c'(3) by simp
        then show ?thesis using bc_wfD(3) [OF wf] old c'(1,2) by simp
      qed (use l c' b in simp)
    qed
    show "\<forall>j \<in> dom (bc_heap c'). j < bc_fresh c'" using bc_wfD(4) [OF wf] c'(1,4) by (auto intro: less_SucI)
  qed
  show "bc_view c' = (k, cb_data b) # bc_view c"
    using c'(1,2) b old by (simp add: bc_view_def Let_def)
qed

lemma total_size_Cons [simp]: "total_size ((k, d) # v) = length d + total_size v" by (simp add: total_size_def)

lemma bc_Put_new:
  assumes wf: "bc_wf c" and sized: "bc_sized c" and cfg: "config_ok (bc_config c)"
    and ok: "d \<noteq> []" "length d \<le> cfg_max_block_size (bc_config c)" "\<not> low_utilization (bc_config c) (length d)"
    and none: "bc_map c (MakeKey s b) = None"
  shows "\<exists>c'. bc_Put s b d c = Some (True, c') \<and> bc_wf c' \<and> bc_sized c' \<and> bc_config c' = bc_config c \<and>
    bc_view c' = (MakeKey s b, d) # lru_evict (cfg_max_capacity (bc_config c)) (cfg_max_block_count (bc_config c)) (length d) (bc_view c)"
proof -
  let ?v = "lru_evict (cfg_max_capacity (bc_config c)) (cfg_max_block_count (bc_config c)) (length d) (bc_view c)"
  obtain c1 where c1: "EvictIfNeeded (length d) c = Some c1" "bc_wf c1" "bc_sized c1" "bc_config c1 = bc_config c" "bc_view c1 = ?v"
    using EvictIfNeeded_ok [OF wf sized cfg ok(2)] unfolding EvictIfNeeded_def by blast
  obtain w where w: "bc_view c = ?v @ w" using lru_evict_prefix by blast
  have "MakeKey s b \<notin> fst ` set (bc_view c)" using keys_view [OF wf] none by auto
  then have "MakeKey s b \<notin> fst ` set (bc_view c1)" using c1(5) w by (metis UnI1 image_Un set_append)
  then have none1: "bc_map c1 (MakeKey s b) = None" using keys_view [OF c1(2)] by auto
  define x where "x = \<lparr>cb_data = d, cb_sst_id = s, cb_block_offset = b, cb_access_time = bc_access_counter c1 + 1, cb_hit_count = 0\<rparr>"
  define c' where "c' = c1\<lparr>bc_heap := (bc_heap c1)(bc_fresh c1 \<mapsto> x), bc_fresh := bc_fresh c1 + 1,
     bc_map := (bc_map c1)(MakeKey s b \<mapsto> bc_fresh c1), bc_lru := bc_fresh c1 # bc_lru c1,
     bc_access_counter := bc_access_counter c1 + 1,
     bc_stats := (bc_stats c1)\<lparr>st_current_size := st_current_size (bc_stats c1) + of_nat (length d),
       st_current_count := st_current_count (bc_stats c1) + 1\<rparr>\<rparr>"
  have x: "key_of x = MakeKey s b" "cb_data x = d" by (simp_all add: x_def key_of_def)
  have upd: "bc_heap c' = (bc_heap c1)(bc_fresh c1 \<mapsto> x)" "bc_lru c' = bc_fresh c1 # bc_lru c1"
    "bc_map c' = (bc_map c1)(MakeKey s b \<mapsto> bc_fresh c1)" "bc_fresh c' = bc_fresh c1 + 1"
    "bc_config c' = bc_config c1" "st_current_size (bc_stats c') = st_current_size (bc_stats c1) + of_nat (length d)"
    "st_current_count (bc_stats c') = st_current_count (bc_stats c1) + 1"
    by (simp_all add: c'_def)
  note ins = insert_block [OF c1(2) none1 x(1) upd(1-4)]
  have put: "bc_Put s b d c = Some (True, c')"
    using ok none c1(1) by (simp add: bc_Put_def Let_def c'_def x_def)
  have "length d + total_size ?v \<le> max (cfg_max_capacity (bc_config c)) (cfg_max_block_size (bc_config c))"
    using lru_evict_fits [of "cfg_max_capacity (bc_config c)" "cfg_max_block_count (bc_config c)" "length d" "bc_view c"] ok(2)
    by (auto simp: total_size_def)
  moreover have "0 < cfg_max_block_count (bc_config c) \<longrightarrow> Suc (length ?v) \<le> cfg_max_block_count (bc_config c)"
    using lru_evict_fits [of "cfg_max_capacity (bc_config c)" "cfg_max_block_count (bc_config c)" "length d" "bc_view c"] by auto
  moreover have "bc_accounted c'" using c1(3) ins(2) upd(2,6,7) x(2) by (simp add: bc_sized_def bc_accounted_def add.commute)
  moreover have "\<forall>e \<in> set (bc_view c'). snd e \<noteq> []" using c1(3) ins(2) x(2) ok(1) by (simp add: bc_sized_def)
  ultimately have "bc_sized c'" using c1(4,5) ins(2) upd(5) x(2) unfolding bc_sized_def by simp
  then show ?thesis using put ins upd(5) c1(4,5) x(2) by simp
qed

lemma bc_Put_again:
  assumes wf: "bc_wf c" and ok: "d \<noteq> []" "length d \<le> cfg_max_block_size (bc_config c)" "\<not> low_utilization (bc_config c) (length d)"
    and some: "bc_map c (MakeKey s b) = Some i"
  shows "\<exists>c'. bc_Put s b d c = Some (True, c') \<and> bc_wf c' \<and> bc_config c' = bc_config c \<and>
    bc_view c' = lru_touch (MakeKey s b) d (bc_view c) \<and> bc_stats c' = bc_stats c"
proof -
  obtain x where x: "bc_heap c i = Some x" "key_of x = MakeKey s b" "i \<in> set (bc_lru c)" using bc_map_Some [OF wf some] .
  define x' where "x' = x\<lparr>cb_data := d, cb_access_time := bc_access_counter c + 1\<rparr>"
  obtain c' where c': "bc_Put s b d c = Some (True, c')" "bc_heap c' = (bc_heap c)(i \<mapsto> x')"
    "bc_lru c' = i # removeAll i (bc_lru c)" "bc_map c' = bc_map c" "bc_fresh c' = bc_fresh c" "bc_config c' = bc_config c"
    "bc_stats c' = bc_stats c"
    using ok some x(1) by (simp add: bc_Put_def MoveToFront_def Let_def x'_def)
  have x': "key_of x' = key_of x" "cb_data x' = d" by (simp_all add: x'_def key_of_def)
  show ?thesis using touch_block [OF wf some x(1) x'(1) c'(2-5)] c'(1,6,7) x'(2) by (intro exI [of _ c']) simp
qed


lemma length_lru_touch:
  assumes "distinct (map fst v)" "map_of v k = Some d"
  shows "length (lru_touch k d' v) = length v"
  using assms
proof (induction v)
  case (Cons e v)
  show ?case
  proof (cases "fst e = k")
    case True
    then have "filter (\<lambda>e. fst e \<noteq> k) v = v" using filter_absent Cons.prems(1) by metis
    then show ?thesis using True by (simp add: lru_touch_def)
  next
    case False
    then show ?thesis using Cons by (cases e) (simp add: lru_touch_def)
  qed
qed simp

lemma sized_touch:
  assumes wf: "bc_wf c" and sized: "bc_sized c" and look: "map_of (bc_view c) k = Some d'" "length d' = length d"
    and c': "bc_view c' = lru_touch k d (bc_view c)" "bc_config c' = bc_config c"
      "st_current_size (bc_stats c') = st_current_size (bc_stats c)" "st_current_count (bc_stats c') = st_current_count (bc_stats c)"
  shows "bc_sized c'"
proof -
  have "(k, d') \<in> set (bc_view c)" using look(1) by (rule map_of_SomeD)
  then have "d' \<noteq> []" using sized unfolding bc_sized_def by (metis snd_conv)
  then have "d \<noteq> []" using look(2) by auto
  then have ne: "\<forall>e \<in> set (bc_view c'). snd e \<noteq> []" using sized c'(1) by (auto simp: bc_sized_def lru_touch_def)
  have len: "length (bc_view c') = length (bc_view c)" "total_size (bc_view c') = total_size (bc_view c)"
    using length_lru_touch [OF distinct_view [OF wf] look(1)] total_size_touch [OF distinct_view [OF wf] look(1), of d] look(2) c'(1)
    by simp_all
  then show ?thesis using sized ne c'(2-4) unfolding bc_sized_def bc_accounted_def by simp
qed

text \<open>Requests to the cache and to the reference.\<close>

datatype cache_op =
    CGet "64 word" "64 word"
  | CPut "64 word" "64 word" bytes
  | CRemove "64 word" "64 word"
  | CClear

datatype cache_reply = Block "bytes option" | Flag bool | Cleared

fun bc_exec :: "cache_op \<Rightarrow> BlockCache \<Rightarrow> (cache_reply \<times> BlockCache) option" where
  "bc_exec (CGet s b) c = map_option (apfst Block) (bc_Get s b c)"
| "bc_exec (CPut s b d) c = map_option (apfst Flag) (bc_Put s b d c)"
| "bc_exec (CRemove s b) c = map_option (apfst Flag) (bc_Remove s b c)"
| "bc_exec CClear c = Some (Cleared, bc_Clear c)"

fun bc_run :: "cache_op list \<Rightarrow> BlockCache \<Rightarrow> (cache_reply list \<times> BlockCache) option" where
  "bc_run [] c = Some ([], c)"
| "bc_run (r # rs) c = do { (x, c) \<leftarrow> bc_exec r c; (xs, c) \<leftarrow> bc_run rs c; Some (x # xs, c) }"

fun lru_exec :: "CacheConfig \<Rightarrow> cache_op \<Rightarrow> (64 word \<times> bytes) list \<Rightarrow> cache_reply \<times> (64 word \<times> bytes) list" where
  "lru_exec cfg (CGet s b) v =
     (case map_of v (MakeKey s b) of None \<Rightarrow> (Block None, v) | Some d \<Rightarrow> (Block (Some d), lru_touch (MakeKey s b) d v))"
| "lru_exec cfg (CPut s b d) v = apfst Flag (lru_put cfg (MakeKey s b) d v)"
| "lru_exec cfg (CRemove s b) v = (Flag (map_of v (MakeKey s b) \<noteq> None), filter (\<lambda>e. fst e \<noteq> MakeKey s b) v)"
| "lru_exec cfg CClear v = (Cleared, [])"

fun lru_run :: "CacheConfig \<Rightarrow> cache_op list \<Rightarrow> (64 word \<times> bytes) list \<Rightarrow> cache_reply list \<times> (64 word \<times> bytes) list" where
  "lru_run cfg [] v = ([], v)"
| "lru_run cfg (r # rs) v = (let (x, v) = lru_exec cfg r v; (xs, v) = lru_run cfg rs v in (x # xs, v))"

fun steady_op :: "cache_op \<Rightarrow> (64 word \<times> bytes) list \<Rightarrow> bool" where
  "steady_op (CPut s b d) v = same_size (MakeKey s b) d v"
| "steady_op _ v = True"

fun steady :: "CacheConfig \<Rightarrow> cache_op list \<Rightarrow> (64 word \<times> bytes) list \<Rightarrow> bool" where
  "steady cfg [] v = True"
| "steady cfg (r # rs) v = (steady_op r v \<and> steady cfg rs (snd (lru_exec cfg r v)))"


text \<open>One request against the abstract list: the answer, the invariants and the list agree.\<close>

definition exec_refines :: "cache_op \<Rightarrow> BlockCache \<Rightarrow> bool" where
  "exec_refines r c =
     (\<exists>c'. bc_exec r c = Some (fst (lru_exec (bc_config c) r (bc_view c)), c') \<and> bc_wf c' \<and> bc_sized c' \<and>
        bc_config c' = bc_config c \<and> bc_view c' = snd (lru_exec (bc_config c) r (bc_view c)))"

lemma exec_Get:
  assumes wf: "bc_wf c" and sized: "bc_sized c"
  shows "exec_refines (CGet s b) c"
proof -
  obtain c' where c': "bc_Get s b c = Some (map_of (bc_view c) (MakeKey s b), c')" "bc_wf c'" "bc_config c' = bc_config c"
    "bc_view c' = (case map_of (bc_view c) (MakeKey s b) of None \<Rightarrow> bc_view c | Some d \<Rightarrow> lru_touch (MakeKey s b) d (bc_view c))"
    "st_current_size (bc_stats c') = st_current_size (bc_stats c)" "st_current_count (bc_stats c') = st_current_count (bc_stats c)"
    using bc_Get_ok [OF wf] by blast
  show ?thesis
  proof (cases "map_of (bc_view c) (MakeKey s b)")
    case None
    then have "bc_view c' = bc_view c" using c'(4) by simp
    then have "bc_sized c'" using sized c'(3,5,6) unfolding bc_sized_def bc_accounted_def
      by (metis length_view)
    then show ?thesis using c'(1-4) None by (simp add: exec_refines_def)
  next
    case (Some d)
    then have "bc_view c' = lru_touch (MakeKey s b) d (bc_view c)" using c'(4) by simp
    from sized_touch [OF wf sized Some refl this c'(3,5,6)] show ?thesis using c'(1-4) Some by (simp add: exec_refines_def)
  qed
qed

lemma exec_Put:
  assumes wf: "bc_wf c" and sized: "bc_sized c" and cfg: "config_ok (bc_config c)" and st: "steady_op (CPut s b d) (bc_view c)"
  shows "exec_refines (CPut s b d) c"
proof -
  let ?bad = "d = [] \<or> cfg_max_block_size (bc_config c) < length d \<or> low_utilization (bc_config c) (length d)"
  show ?thesis
  proof (cases ?bad)
    case True
    obtain c' where c': "bc_Put s b d c = Some (False, c')" "c' = c \<or> c' = reject c"
      using True by (cases "d = []"; cases "cfg_max_block_size (bc_config c) < length d") (auto simp: bc_Put_def)
    have "bc_wf c'" "bc_sized c'" "bc_view c' = bc_view c" "bc_config c' = bc_config c"
      using c'(2) wf sized by (auto simp: reject_def bc_wf_def bc_view_def bc_sized_def bc_accounted_def)
    then show ?thesis using c'(1) True by (simp add: lru_put_def exec_refines_def)
  next
    case False
    then have ok: "d \<noteq> []" "length d \<le> cfg_max_block_size (bc_config c)" "\<not> low_utilization (bc_config c) (length d)" by auto
    show ?thesis
    proof (cases "bc_map c (MakeKey s b)")
      case None
      then show ?thesis using bc_Put_new [OF wf sized cfg ok None] view_lookup_None [OF wf None] ok
        by (auto simp: lru_put_def exec_refines_def)
    next
      case (Some i)
      obtain c' where c': "bc_Put s b d c = Some (True, c')" "bc_wf c'" "bc_config c' = bc_config c"
        "bc_view c' = lru_touch (MakeKey s b) d (bc_view c)" "bc_stats c' = bc_stats c"
        using bc_Put_again [OF wf ok Some] by blast
      obtain d' where d': "map_of (bc_view c) (MakeKey s b) = Some d'" using view_lookup [OF wf Some] by blast
      then have "length d' = length d" using st by (simp add: same_size_def)
      from sized_touch [OF wf sized d' this c'(4,3)] c'(5) have "bc_sized c'" by simp
      then show ?thesis using c'(1-4) d' ok by (simp add: lru_put_def exec_refines_def)
    qed
  qed
qed

lemma exec_Remove:
  assumes wf: "bc_wf c" and sized: "bc_sized c"
  shows "exec_refines (CRemove s b) c"
proof -
  let ?v = "filter (\<lambda>e. fst e \<noteq> MakeKey s b) (bc_view c)"
  obtain c' where c': "bc_Remove s b c = Some (map_of (bc_view c) (MakeKey s b) \<noteq> None, c')" "bc_wf c'"
    "bc_config c' = bc_config c" "bc_view c' = ?v" "bc_accounted c \<longrightarrow> bc_accounted c'"
    using bc_Remove_ok [OF wf] by blast
  have "total_size ?v \<le> total_size (bc_view c)"
    unfolding total_size_def by (induction "bc_view c" rule: list.induct) (auto intro: sum_list_filter_le_nat)
  moreover have "length ?v \<le> length (bc_view c)" by (rule length_filter_le)
  ultimately have "bc_sized c'" using sized c'(3-5) unfolding bc_sized_def by (auto simp del: length_view intro: le_trans [OF length_filter_le])
  then show ?thesis using c'(1-4) by (simp add: exec_refines_def)
qed

lemma exec_Clear:
  assumes wf: "bc_wf c"
  shows "exec_refines CClear c"
proof -
  have "bc_sized (bc_Clear c)" using bc_Clear_ok [OF wf] by (simp add: bc_sized_def total_size_def bc_Clear_def bc_view_def)
  then show ?thesis using bc_Clear_ok [OF wf] by (simp add: bc_Clear_def exec_refines_def)
qed

lemma bc_exec_ok:
  assumes wf: "bc_wf c" and sized: "bc_sized c" and cfg: "config_ok (bc_config c)" and st: "steady_op r (bc_view c)"
  shows "\<exists>c'. bc_exec r c = Some (fst (lru_exec (bc_config c) r (bc_view c)), c') \<and> bc_wf c' \<and> bc_sized c' \<and>
    bc_config c' = bc_config c \<and> bc_view c' = snd (lru_exec (bc_config c) r (bc_view c))"
  unfolding exec_refines_def [symmetric]
  using exec_Get [OF wf sized] exec_Put [OF wf sized cfg] exec_Remove [OF wf sized] exec_Clear [OF wf] st by (cases r) auto

lemma bc_run_ok:
  assumes "bc_wf c" "bc_sized c" "config_ok (bc_config c)" "steady (bc_config c) rs (bc_view c)"
  shows "\<exists>c'. bc_run rs c = Some (fst (lru_run (bc_config c) rs (bc_view c)), c') \<and> bc_wf c' \<and> bc_sized c' \<and>
    bc_config c' = bc_config c \<and> bc_view c' = snd (lru_run (bc_config c) rs (bc_view c))"
  using assms
proof (induction rs arbitrary: c)
  case (Cons r rs)
  let ?x = "lru_exec (bc_config c) r (bc_view c)"
  obtain c1 where c1: "bc_exec r c = Some (fst ?x, c1)" "bc_wf c1" "bc_sized c1" "bc_config c1 = bc_config c" "bc_view c1 = snd ?x"
    using bc_exec_ok [OF Cons.prems(1-3)] Cons.prems(4) by auto
  have "config_ok (bc_config c1)" "steady (bc_config c1) rs (bc_view c1)" using Cons.prems(3,4) c1(4,5) by simp_all
  from Cons.IH [OF c1(2,3) this] show ?case using c1 by (auto simp: split_beta Let_def)
qed simp

lemma bc_new_ok: "bc_wf (bc_new cfg)" "bc_sized (bc_new cfg)" "bc_view (bc_new cfg) = []" "bc_config (bc_new cfg) = cfg"
  by (simp_all add: bc_new_def bc_wf_def bc_sized_def bc_accounted_def bc_view_def total_size_def zero_stats_def)

end
