(* ===== verification/Cache_Theorems.thy ===== *)
theory Cache_Theorems
  imports BlockCache_Correct
begin

text \<open>
  The properties of the block cache: it is an LRU list under every sequence of requests, the keys of blocks, what
  the guard and the prefetch of a table put in it, and the size it may reach when a block is put twice.
\<close>

section \<open>Lookups after an insertion\<close>

lemma steady_absent: "map_of v (MakeKey s b) = None \<Longrightarrow> steady_op (CPut s b d) v" by (simp add: same_size_def)

lemma put_absent_get:
  assumes c: "bc_wf c" "bc_sized c" "config_ok (bc_config c)" and absent: "map_of (bc_view c) (MakeKey s b) = None"
    and d: "d \<noteq> []" "length d \<le> cfg_max_block_size (bc_config c)" "\<not> low_utilization (bc_config c) (length d)"
  obtains c' c'' where "bc_Put s b d c = Some (True, c')" "bc_wf c'" "bc_sized c'" "bc_Get s b c' = Some (Some d, c'')"
proof -
  obtain c' where c': "bc_exec (CPut s b d) c = Some (fst (lru_exec (bc_config c) (CPut s b d) (bc_view c)), c')" "bc_wf c'" "bc_sized c'"
    "bc_view c' = snd (lru_exec (bc_config c) (CPut s b d) (bc_view c))"
    using bc_exec_ok [OF c steady_absent [OF absent, where d = d]] by blast
  have "bc_Put s b d c = Some (True, c')" using c'(1) absent d by (auto simp: lru_put_def apfst_def)
  moreover have "map_of (bc_view c') (MakeKey s b) = Some d" using c'(4) absent d by (simp add: lru_put_def)
  then obtain c'' where "bc_Get s b c' = Some (Some d, c'')" using bc_Get_ok [OF c'(2)] by metis
  ultimately show thesis using that c'(2,3) by blast
qed

lemma miss_view:
  assumes "bc_wf c" "bc_sized c" "config_ok (bc_config c)" "bc_Get s b c = Some (None, c')"
  shows "bc_wf c' \<and> bc_sized c' \<and> bc_config c' = bc_config c \<and> bc_view c' = bc_view c \<and> map_of (bc_view c) (MakeKey s b) = None"
proof -
  obtain x where x: "bc_exec (CGet s b) c = Some (fst (lru_exec (bc_config c) (CGet s b) (bc_view c)), x)" "bc_wf x" "bc_sized x"
    "bc_config x = bc_config c" "bc_view x = snd (lru_exec (bc_config c) (CGet s b) (bc_view c))"
    using bc_exec_ok [OF assms(1-3), of "CGet s b"] by auto
  have "map_of (bc_view c) (MakeKey s b) = None" using x(1) assms(4) by (auto split: option.splits)
  moreover have "x = c'" using x(1) assms(4) by simp
  ultimately show ?thesis using x(2-5) by simp
qed

section \<open>Properties\<close>


definition small_cache :: CacheConfig where
  "small_cache = \<lparr>cfg_max_capacity = 4, cfg_min_block_size = 1, cfg_max_block_size = 4, cfg_max_block_count = 0, cfg_min_utilization = 1 / 2\<rparr>"

definition cache_requests :: "cache_op list" where
  "cache_requests = [CPut 1 0 ''hh'', CPut 1 8 ''ii'', CGet 1 0, CPut 2 0 ''j'', CGet 1 8, CGet 1 0]"

lemma cache_requests_ok: "config_ok small_cache" "steady small_cache cache_requests []"
  "fst (lru_run small_cache cache_requests []) = [Flag True, Flag True, Block (Some ''hh''), Flag True, Block None, Block (Some ''hh'')]"
  subgoal by (simp add: config_ok_def small_cache_def)
  subgoal by code_simp
  subgoal by code_simp
  done


text \<open>
  Two blocks have the same key in the cache exactly when they are the same block of the same table, as long as
  table numbers and block offsets are below four gigabytes.
\<close>
theorem cache_keys_distinct:
  assumes "unat s < 2 ^ 32" "unat b < 2 ^ 32" "unat s' < 2 ^ 32" "unat b' < 2 ^ 32"
  shows "MakeKey s b = MakeKey s' b' \<longleftrightarrow> s = s' \<and> b = b'"
  using assms by (rule MakeKey_inj)

theorem cache_keys_distinct_witness:
  "MakeKey 1 0 \<noteq> MakeKey 0 4294967295 \<and> MakeKey 1 0 = MakeKey 0 4294967296"
  using cache_keys_distinct [of 1 0 0 4294967295] by (simp add: MakeKey_def)

text \<open>
  A prefetch of a block that is not cached copies the bytes of the block behind its size field from the file into
  the cache, provided the size field is right and the cache accepts the size, and the next lookup finds them.
\<close>
theorem prefetch_fills_cache:
  assumes c: "bc_wf c" "bc_sized c" "config_ok (bc_config c)"
    and i: "i < length (sst_blocks sst)" "block_offset = dii_offset (sst_blocks sst ! i)"
    and sid: "s = word_of_int (sst_id sst)" and absent: "map_of (bc_view c) (MakeKey s (of_nat block_offset)) = None"
    and size: "ReadSize (sst_data sst) block_offset = Some n" "8 \<le> n" "wrap (block_offset + n) \<le> sst_file_size sst"
    and d: "read_bytes (sst_data sst) (block_offset + 8) (n - 8) = Some d" "d \<noteq> []"
      "length d \<le> cfg_max_block_size (bc_config c)" "\<not> low_utilization (bc_config c) (length d)"
  shows "\<exists>c' c''. PrefetchDataBlock sst i (Some c) = Some (True, Some c') \<and> bc_Get s (of_nat block_offset) c' = Some (Some d, c'')"
proof -
  obtain c1 where c1: "bc_Get s (of_nat block_offset) c = Some (None, c1)" using bc_Get_ok [OF c(1)] absent by metis
  note m = miss_view [OF c c1]
  obtain c' c'' where put: "bc_Put s (of_nat block_offset) d c1 = Some (True, c')" "bc_Get s (of_nat block_offset) c' = Some (Some d, c'')"
    using put_absent_get [of c1 s "of_nat block_offset" d] m c(3) d(2-4) by metis
  have "PrefetchDataBlock sst i (Some c) = Some (True, Some c')"
    using i sid size d(1) c1 put(1) by (simp add: PrefetchDataBlock_def Let_def)
  then show ?thesis using put(2) by blast
qed

definition one_block_table :: SST where
  "one_block_table =
     \<lparr>sst_id = 1, sst_data = le_bytes 8 12 @ ''data'',
      sst_index = \<lparr>ibi_binary_size = 0, ibi_blocks = [\<lparr>dii_offset = 0, dii_key = ''k'',
        dii_block = \<lparr>dbi_offset = 0, dbi_entries = [], dbi_bloom = \<lparr>bf_length = 0, bf_hash_num = 0, bf_seed = [], bf_data = []\<rparr>,
          dbi_binary_size = 12, dbi_compressed = False, dbi_type = kNone\<rparr>\<rparr>]\<rparr>,
      sst_ready = True, sst_loaded = True, sst_file_size = 12, sst_config = \<lparr>cc_type = kNone, cc_enable = False, cc_min_size = 64\<rparr>,
      sst_uncompressed_size = 0, sst_compressed = False\<rparr>"

theorem prefetch_fills_cache_witness:
  "\<exists>c' c''. PrefetchDataBlock one_block_table 0 (Some (bc_new small_cache)) = Some (True, Some c') \<and>
     bc_Get 1 0 c' = Some (Some ''data'', c'')"
  using prefetch_fills_cache [of "bc_new small_cache" 0 one_block_table 0 1 12 "''data''"] bc_new_ok cache_requests_ok(1)
  by (simp add: one_block_table_def small_cache_def low_utilization_def ReadSize_def read_bytes_def wrap_def le_val_le_bytes)

text \<open>
  Putting a longer block under a key that is cached leaves the counter of bytes alone, so that later insertions
  evict nothing: a cache of four bytes holds seven.
\<close>
theorem block_cache_exceeds_capacity:
  "\<exists>c. bc_run [CPut 1 0 ''h'', CPut 1 0 ''hhhh'', CPut 2 0 ''iii''] (bc_new small_cache) = Some ([Flag True, Flag True, Flag True], c) \<and>
     total_size (bc_view c) = 7 \<and> st_current_size (bc_stats c) = 4 \<and> cfg_max_capacity (bc_config c) = 4"
  by (simp add: small_cache_def bc_new_def bc_Put_def low_utilization_def MakeKey_def EvictIfNeeded_def over_capacity_def
      zero_stats_def MoveToFront_def total_size_def bc_view_def)

end
