(* ===== verification/RingQueue.thy ===== *)
theory RingQueue
  imports Prelude "HOL-Library.Monad_Syntax"
begin

text \<open>
  The queue of \<^verbatim>\<open>src/mokv/utils/ring_buffer_queue.hpp\<close>: an array and two 64-bit indices.  Only the test for a full
  queue masks the index; an access outside of the array is undefined in C++ and \<open>None\<close> here.  \<open>ring_holds\<close>
  is the refinement to a list.
\<close>

record 'a ring =
  rq_data :: "nat \<Rightarrow> 'a"
  rq_head :: "64 word"
  rq_tail :: "64 word"

definition ring_buffer_size :: nat where "ring_buffer_size = 262144"

definition ring_new :: "'a \<Rightarrow> 'a ring" where
  "ring_new x = \<lparr>rq_data = (\<lambda>_. x), rq_head = 0, rq_tail = 0\<rparr>"

definition slot :: "'a ring \<Rightarrow> 64 word \<Rightarrow> 'a option" where
  "slot q i = (if unat i < ring_buffer_size then Some (rq_data q (unat i)) else None)"

text \<open>\<open>Some (False, q)\<close>: refused.\<close>

definition ring_PushBack :: "'a \<Rightarrow> 'a ring \<Rightarrow> (bool \<times> 'a ring) option" where
  "ring_PushBack x q =
     (if take_bit 18 (rq_head q + 1) = rq_tail q then Some (False, q)
      else let h = rq_head q + 1 in
        if unat h < ring_buffer_size then Some (True, q\<lparr>rq_data := (rq_data q)(unat h := x), rq_head := h\<rparr>)
        else None)"

definition ring_Empty :: "'a ring \<Rightarrow> bool" where
  "ring_Empty q = (rq_head q = rq_tail q)"

definition ring_PopFront :: "'a ring \<Rightarrow> bool \<times> 'a ring" where
  "ring_PopFront q = (if rq_tail q = rq_head q then (False, q) else (True, q\<lparr>rq_tail := rq_tail q + 1\<rparr>))"

definition ring_PopBack :: "'a ring \<Rightarrow> bool \<times> 'a ring" where
  "ring_PopBack q = (if rq_tail q = rq_head q then (False, q) else (True, q\<lparr>rq_head := rq_head q - 1\<rparr>))"

definition ring_Truncate :: "64 word \<Rightarrow> 'a ring \<Rightarrow> 64 word \<times> 'a ring" where
  "ring_Truncate count q =
     (if rq_tail q = rq_head q then (0, q)
      else let n = min count (rq_head q - rq_tail q) in (n, q\<lparr>rq_head := rq_head q - n\<rparr>))"

definition ring_Size :: "'a ring \<Rightarrow> 64 word" where
  "ring_Size q = rq_head q - rq_tail q"

definition ring_Back :: "'a ring \<Rightarrow> 'a option" where
  "ring_Back q = slot q (rq_head q + 1)"

definition ring_Front :: "'a ring \<Rightarrow> 'a option" where
  "ring_Front q = slot q (rq_tail q + 1)"

definition ring_At :: "'a ring \<Rightarrow> 64 word \<Rightarrow> 'a option" where
  "ring_At q i = slot q (rq_tail q + i + 1)"

definition ring_RAt :: "'a ring \<Rightarrow> 64 word \<Rightarrow> 'a option" where
  "ring_RAt q i = slot q (rq_head q - i)"

section \<open>Refinement to a list\<close>

text \<open>The entries stand behind the tail, which points to the slot before the first one.\<close>

definition ring_holds :: "'a ring \<Rightarrow> 'a list \<Rightarrow> bool" where
  "ring_holds q xs =
     (unat (rq_head q) = unat (rq_tail q) + length xs \<and> unat (rq_head q) < ring_buffer_size \<and>
      (\<forall>i < length xs. rq_data q (unat (rq_tail q) + i + 1) = xs ! i))"

lemma ring_holds_new: "ring_holds (ring_new x) []"
  by (simp add: ring_holds_def ring_new_def ring_buffer_size_def)

lemma unat_Suc_small: "unat (w :: 64 word) < 2 ^ 63 \<Longrightarrow> unat (w + 1) = unat w + 1"
  by (simp add: unat_word_ariths)

lemma ring_Size_holds: "ring_holds q xs \<Longrightarrow> unat (ring_Size q) = length xs"
  unfolding ring_holds_def ring_Size_def by (simp add: unat_sub word_le_nat_alt)

lemma ring_holds_PushBack:
  assumes q: "ring_holds q xs" and tail: "rq_tail q = 0"
  shows "ring_PushBack x q = Some (False, q) \<and> length xs = ring_buffer_size - 1 \<or>
    (\<exists>q'. ring_PushBack x q = Some (True, q') \<and> ring_holds q' (xs @ [x]) \<and> rq_tail q' = 0 \<and> length xs < ring_buffer_size - 1)"
proof -
  have len: "unat (rq_head q) = length xs" "length xs < ring_buffer_size" using q tail by (auto simp: ring_holds_def)
  then have h: "unat (rq_head q + 1) = length xs + 1"
    using unat_Suc_small [of "rq_head q"] by (simp add: ring_buffer_size_def)
  have full: "take_bit 18 (rq_head q + 1) = 0 \<longleftrightarrow> length xs = ring_buffer_size - 1"
  proof -
    have "unat (take_bit 18 (rq_head q + 1)) = take_bit 18 (length xs + 1)"
      unfolding h [symmetric] by (rule unsigned_take_bit_eq)
    then have "unat (take_bit 18 (rq_head q + 1)) = (length xs + 1) mod ring_buffer_size"
      by (simp add: take_bit_eq_mod ring_buffer_size_def)
    then have "take_bit 18 (rq_head q + 1) = 0 \<longleftrightarrow> (length xs + 1) mod ring_buffer_size = 0"
      by (metis unat_0 word_unat_eq_iff)
    then show ?thesis using len(2) by (auto simp: ring_buffer_size_def mod_eq_0_iff_dvd dvd_imp_le dest: dvd_imp_le)
  qed
  show ?thesis
  proof (cases "length xs = ring_buffer_size - 1")
    case True
    then show ?thesis using full tail by (simp add: ring_PushBack_def)
  next
    case False
    define q' where "q' = q\<lparr>rq_data := (rq_data q)(unat (rq_head q + 1) := x), rq_head := rq_head q + 1\<rparr>"
    have small: "length xs + 1 < ring_buffer_size" using False len(2) by simp
    have "ring_PushBack x q = Some (True, q')"
      using False full tail small h by (simp add: ring_PushBack_def q'_def Let_def)
    moreover have "ring_holds q' (xs @ [x])"
      using q tail small h by (auto simp: ring_holds_def q'_def nth_append less_Suc_eq)
    ultimately show ?thesis using tail small by (simp add: q'_def)
  qed
qed

lemma ring_holds_PopFront:
  assumes "ring_holds q xs"
  shows "ring_PopFront q = (False, q) \<and> xs = [] \<or> (\<exists>q'. ring_PopFront q = (True, q') \<and> ring_holds q' (tl xs) \<and> xs \<noteq> [])"
proof (cases xs)
  case Nil
  then show ?thesis using assms by (simp add: ring_holds_def ring_PopFront_def word_unat_eq_iff)
next
  case (Cons x ys)
  then have ne: "rq_tail q \<noteq> rq_head q" "unat (rq_tail q) < ring_buffer_size" using assms by (auto simp: ring_holds_def)
  then have t: "unat (rq_tail q + 1) = unat (rq_tail q) + 1"
    using unat_Suc_small [of "rq_tail q"] by (simp add: ring_buffer_size_def)
  have "ring_holds (q\<lparr>rq_tail := rq_tail q + 1\<rparr>) ys"
    using assms t Cons unfolding ring_holds_def by (auto dest: spec [of _ "Suc _"])
  then show ?thesis using ne Cons by (simp add: ring_PopFront_def)
qed

lemma ring_holds_Truncate:
  assumes "ring_holds q xs"
  shows "\<exists>q'. ring_Truncate n q = (of_nat (min (unat n) (length xs)), q') \<and> ring_holds q' (take (length xs - unat n) xs) \<and> rq_tail q' = rq_tail q"
proof -
  have size: "unat (rq_head q - rq_tail q) = length xs" using ring_Size_holds [OF assms] by (simp add: ring_Size_def)
  define m where "m = (if rq_tail q = rq_head q then 0 else min n (rq_head q - rq_tail q))"
  have m: "unat m = min (unat n) (length xs)"
  proof (cases "rq_tail q = rq_head q")
    case True
    then show ?thesis using size by (simp add: m_def)
  next
    case False
    then show ?thesis using size by (auto simp: m_def min_def word_le_nat_alt)
  qed
  have le: "unat m \<le> unat (rq_head q)" using m assms by (auto simp: ring_holds_def)
  have h: "unat (rq_head q - m) = unat (rq_head q) - unat m" using le by (simp add: unat_sub word_le_nat_alt)
  have "ring_holds (q\<lparr>rq_head := rq_head q - m\<rparr>) (take (length xs - unat n) xs)"
    using assms h m unfolding ring_holds_def by auto
  moreover have "ring_Truncate n q = (m, q\<lparr>rq_head := rq_head q - m\<rparr>)" by (simp add: ring_Truncate_def m_def Let_def)
  moreover have "m = of_nat (min (unat n) (length xs))" using m by (metis of_nat_unat ucast_id)
  ultimately show ?thesis by auto
qed

lemma ring_holds_At:
  assumes "ring_holds q xs" "unat i < length xs"
  shows "ring_At q i = Some (xs ! unat i)"
proof -
  have b: "unat (rq_tail q) + unat i + 1 < ring_buffer_size" using assms by (auto simp: ring_holds_def)
  then have "unat (rq_tail q + i + 1) = unat (rq_tail q) + unat i + 1"
    by (simp add: unat_word_ariths ring_buffer_size_def)
  then show ?thesis using assms b by (simp add: ring_At_def slot_def ring_holds_def)
qed

lemma ring_holds_RAt:
  assumes "ring_holds q xs" "unat i < length xs"
  shows "ring_RAt q i = Some (xs ! (length xs - 1 - unat i))"
proof -
  have "unat (rq_head q - i) = unat (rq_tail q) + (length xs - 1 - unat i) + 1" "unat (rq_head q - i) < ring_buffer_size"
    using assms by (auto simp: ring_holds_def unat_sub word_le_nat_alt)
  moreover have "length xs - 1 - unat i < length xs" using assms(2) by simp
  ultimately show ?thesis using assms(1) unfolding ring_RAt_def slot_def ring_holds_def by presburger
qed

end
