(* ===== verification/RaftLog.thy ===== *)
theory RaftLog
  imports RingQueue DB Bytes
begin

text \<open>
  The replicated log of \<^verbatim>\<open>src/mokv/raft/raft_log.hpp\<close>.  The entries are the messages of
  \<^verbatim>\<open>src/mokv/raft/protos/raft.proto\<close>; the conversions between their 32-bit and the 64-bit fields of the log are
  those of C++.  The thread that applies committed entries to the database is \<open>sync_take\<close> (its critical section)
  followed by a \<^verbatim>\<open>Put\<close> of the database.  \<open>None\<close> is an access outside of the array of the queue.
\<close>

section \<open>Data\<close>

record Entry =
  en_term :: "32 word"
  en_index :: "32 word"
  en_key :: string
  en_value :: string
  en_mode :: "32 word"
  en_commited :: "32 word"

definition default_entry :: Entry where
  "default_entry = \<lparr>en_term = 0, en_index = 0, en_key = [], en_value = [], en_mode = 0, en_commited = 0\<rparr>"

record RaftLog =
  rl_stop :: bool
  rl_index :: "64 word"
  rl_queue :: "Entry ring"
  rl_commited :: "64 word"
  rl_last_append :: "64 word"
  rl_start_index :: "64 word"

text \<open>An \<^verbatim>\<open>int32_t\<close> where a \<^verbatim>\<open>size_t\<close> is expected, and back.\<close>

definition size_of_int32 :: "32 word \<Rightarrow> 64 word" where "size_of_int32 w = scast w"

definition int32_of :: "64 word \<Rightarrow> 32 word" where "int32_of w = ucast w"

section \<open>Opening and closing\<close>

text \<open>
  The file of the log holds eight bytes, the commit index.  A shorter file reads as zeros behind its end, an
  empty one faults.
\<close>

definition log_at :: "64 word \<Rightarrow> RaftLog" where
  "log_at n = \<lparr>rl_stop = False, rl_index = n, rl_queue = ring_new default_entry, rl_commited = n, rl_last_append = n, rl_start_index = n\<rparr>"

definition log_open :: "bytes option \<Rightarrow> RaftLog option" where
  "log_open meta =
     (case meta of
        None \<Rightarrow> Some (log_at 0)
      | Some data \<Rightarrow>
          if data = [] then None
          else map_option (\<lambda>n. log_at (of_nat n)) (ReadSize (data @ replicate 8 (CHR 0x00)) 0))"

definition log_Save :: "RaftLog \<Rightarrow> bytes" where
  "log_Save l = le_bytes 8 (unat (rl_commited l))"

section \<open>Operations\<close>

definition log_PopFront :: "RaftLog \<Rightarrow> RaftLog" where
  "log_PopFront l = l\<lparr>rl_queue := snd (ring_PopFront (rl_queue l))\<rparr>"

definition log_At :: "64 word \<Rightarrow> RaftLog \<Rightarrow> Entry option" where
  "log_At index l = ring_RAt (rl_queue l) (rl_index l - index)"

definition push_entry :: "Entry \<Rightarrow> RaftLog \<Rightarrow> (bool \<times> RaftLog) option" where
  "push_entry entry l =
     (if rl_stop l then Some (False, l)
      else do {
        (ok, q) \<leftarrow> ring_PushBack entry (rl_queue l);
        if ok then
          let l = l\<lparr>rl_queue := q, rl_index := rl_index l + 1\<rparr>; c = size_of_int32 (en_commited entry) in
          Some (True, if rl_commited l < c then l\<lparr>rl_commited := c\<rparr> else l)
        else Some (False, l) })"

text \<open>The two overloads of \<^verbatim>\<open>Put\<close>; the first one returns the index of the new entry.\<close>

definition log_Put :: "string \<Rightarrow> string \<Rightarrow> 64 word \<Rightarrow> RaftLog \<Rightarrow> (64 word option \<times> RaftLog) option" where
  "log_Put key val term l =
     do { let entry = \<lparr>en_term = int32_of term, en_index = int32_of (rl_index l + 1), en_key = key, en_value = val,
                       en_mode = 0, en_commited = 0\<rparr>;
          (ok, l) \<leftarrow> push_entry entry l;
          Some (if ok then Some (rl_index l) else None, l) }"

definition log_PutEntry :: "Entry \<Rightarrow> RaftLog \<Rightarrow> (bool \<times> RaftLog) option" where
  "log_PutEntry entry l = push_entry entry l"

definition log_Reset :: "64 word \<Rightarrow> RaftLog \<Rightarrow> RaftLog" where
  "log_Reset expect_index l =
     (if expect_index < rl_index l then
        let (removed, q) = ring_Truncate (rl_index l - expect_index) (rl_queue l) in
        l\<lparr>rl_queue := q, rl_index := rl_index l - removed\<rparr>
      else l)"

definition log_UpdateCommit :: "64 word \<Rightarrow> RaftLog \<Rightarrow> RaftLog" where
  "log_UpdateCommit leader_commit l =
     l\<lparr>rl_commited := max (rl_commited l) (min (rl_index l) leader_commit)\<rparr>"

text \<open>The condition \<^verbatim>\<open>WaitUntilApplied\<close> waits for.\<close>

definition log_applied :: "64 word \<Rightarrow> RaftLog \<Rightarrow> bool" where
  "log_applied index l = (rl_stop l \<or> index \<le> rl_last_append l)"

section \<open>The applying thread\<close>

datatype sync_state = Waiting | Finished | Taken Entry RaftLog

definition sync_take :: "RaftLog \<Rightarrow> sync_state option" where
  "sync_take l =
     (if \<not> (rl_stop l \<or> rl_last_append l < rl_commited l) then Some Waiting
      else if rl_stop l \<and> rl_commited l \<le> rl_last_append l then Some Finished
      else do {
        entry \<leftarrow> ring_At (rl_queue l) (rl_last_append l - rl_start_index l);
        Some (Taken entry (l\<lparr>rl_last_append := rl_last_append l + 1\<rparr>)) })"

definition sync_apply :: "RaftLog \<times> DB \<Rightarrow> (RaftLog \<times> DB) option" where
  "sync_apply = (\<lambda>(l, d).
     do { r \<leftarrow> sync_take l;
          case r of
            Taken entry l \<Rightarrow> do { d \<leftarrow> db_Put (en_key entry) (en_value entry) d; Some (l, d) }
          | _ \<Rightarrow> Some (l, d) })"

text \<open>
  The destructor: it sets \<^verbatim>\<open>stop_\<close> and joins the thread, which applies what is committed; then it writes the file.
  The number of rounds is the number of committed entries that are not applied.
\<close>

fun drain :: "nat \<Rightarrow> RaftLog \<times> DB \<Rightarrow> (RaftLog \<times> DB) option" where
  "drain 0 s = Some s"
| "drain (Suc n) s = do { s \<leftarrow> sync_apply s; drain n s }"

definition log_close :: "RaftLog \<times> DB \<Rightarrow> (bytes \<times> DB) option" where
  "log_close = (\<lambda>(l, d).
     do { let l = l\<lparr>rl_stop := True\<rparr>;
          (l, d) \<leftarrow> drain (unat (rl_commited l) - unat (rl_last_append l)) (l, d);
          Some (log_Save l, d) })"

end
