(* ===== verification/Pod.thy ===== *)
theory Pod
  imports RaftLog
begin

text \<open>
  The Raft node of \<^verbatim>\<open>src/mokv/raft/pod.hpp\<close> and the handlers of \<^verbatim>\<open>src/mokv/raft/service.hpp\<close>.  The messages are those of
  \<^verbatim>\<open>src/mokv/raft/protos/raft.proto\<close>, with the widths of their fields; a field that the code does not set is zero.  Each
  function is a critical section of the source; the loops of the threads (an election, a client waiting for a
  quorum, the replication to a follower) are the events of a cluster at the end.  The clock is an argument.
\<close>

section \<open>Messages\<close>

record Address =
  ad_id :: "32 word"
  ad_ip :: string
  ad_port :: "32 word"

record RequestVoteReq =
  rv_id :: "32 word"
  rv_term :: "32 word"
  rv_index :: "32 word"

record AppendReq =
  ap_term :: "64 word"
  ap_commited_index :: "64 word"
  ap_id :: "64 word"
  ap_entrys :: "Entry list"

text \<open>A reply: the code, and the address of the leader or the value where it is set.\<close>

record Reply =
  rp_code :: int
  rp_value :: string
  rp_leader_addr :: "Address option"

definition reply :: "int \<Rightarrow> Reply" where
  "reply code = \<lparr>rp_code = code, rp_value = [], rp_leader_addr = None\<rparr>"

section \<open>State\<close>

datatype PodStatus = Candidate | Leader | Follower

text \<open>
  A peer: its address, the index it has acknowledged, whether its replication thread runs (and is not told to
  stop), and whether the thread is in its inner loop, sending an entry.  The peers of one pod know each other
  (\<^verbatim>\<open>other_followers_\<close>) through the list of the pod.
\<close>

record FollowerPeer =
  fo_addr :: Address
  fo_nextindex :: "64 word"
  fo_running :: bool
  fo_sending :: bool

text \<open>\<open>pd_ballot\<close> is the local state of \<^verbatim>\<open>RequestVote\<close> while it runs: the peers to ask and \<^verbatim>\<open>ticket_num\<close>.\<close>

record Pod =
  pd_id :: "32 word"
  pd_leader_id :: "32 word"
  pd_voted :: bool
  pd_status :: PodStatus
  pd_term :: "64 word"
  pd_followers :: "FollowerPeer list"
  pd_log :: RaftLog
  pd_db :: DB
  pd_last_time :: "64 word"
  pd_ballot :: "(nat \<times> nat) option"

definition follower_new :: "Address \<Rightarrow> FollowerPeer" where
  "follower_new addr = \<lparr>fo_addr = addr, fo_nextindex = 0, fo_running = False, fo_sending = False\<rparr>"

definition pod_new :: "32 word \<Rightarrow> Address list \<Rightarrow> RaftLog \<Rightarrow> DB \<Rightarrow> 64 word \<Rightarrow> Pod" where
  "pod_new i addresses log d now =
     \<lparr>pd_id = i, pd_leader_id = - 1, pd_voted = False, pd_status = Follower, pd_term = 0,
      pd_followers = map follower_new (filter (\<lambda>a. ad_id a \<noteq> i) addresses),
      pd_log = log, pd_db = d, pd_last_time = now, pd_ballot = None\<rparr>"

definition other_followers :: "Pod \<Rightarrow> FollowerPeer \<Rightarrow> FollowerPeer list" where
  "other_followers p f = filter (\<lambda>g. ad_id (fo_addr g) \<noteq> ad_id (fo_addr f)) (pd_followers p)"

definition commit_quorum :: "Pod \<Rightarrow> FollowerPeer \<Rightarrow> bool" where
  "commit_quorum p f =
     ((length (other_followers p f) + 2) div 2 <
      2 + length (filter (\<lambda>g. sint (fo_nextindex f) \<le> sint (fo_nextindex g)) (other_followers p f)))"

text \<open>The end of a round of the thread, behind the inner loop.\<close>

definition commit_round :: "nat \<Rightarrow> Pod \<Rightarrow> Pod" where
  "commit_round i p =
     (let f = pd_followers p ! i in
      if commit_quorum p f then p\<lparr>pd_log := log_UpdateCommit (fo_nextindex f) (pd_log p)\<rparr> else p)"

text \<open>\<^verbatim>\<open>Follower::Stop\<close> joins the thread; one that is told to stop inside of the inner loop still ends its round.\<close>

definition stop_follower :: "nat \<Rightarrow> Pod \<Rightarrow> Pod" where
  "stop_follower i p =
     (let f = pd_followers p ! i;
          p' = p\<lparr>pd_followers := (pd_followers p)[i := f\<lparr>fo_running := False, fo_sending := False\<rparr>]\<rparr> in
      if fo_running f \<and> fo_sending f then commit_round i p' else p')"

definition stop_followers :: "Pod \<Rightarrow> Pod" where
  "stop_followers p = fold stop_follower [0..<length (pd_followers p)] p"

section \<open>Requests from other pods\<close>

definition step_down :: "Pod \<Rightarrow> Pod" where
  "step_down p = (if pd_status p = Leader then stop_followers p else p)\<lparr>pd_status := Follower\<rparr>"

text \<open>The term of the request is 32 bits wide, the term of the pod 64; both are signed.\<close>

definition Vote :: "64 word \<Rightarrow> RequestVoteReq \<Rightarrow> Pod \<Rightarrow> bool \<times> Pod" where
  "Vote now req p =
     (let p = p\<lparr>pd_last_time := now\<rparr>; t = sint (rv_term req) in
      if t < sint (pd_term p) then (False, p)
      else if t = sint (pd_term p) \<and> size_of_int32 (rv_index req) < rl_index (pd_log p) then (False, p)
      else if t = sint (pd_term p) \<and> pd_voted p then (False, p)
      else (True, (if sint (pd_term p) < t then step_down (p\<lparr>pd_term := scast (rv_term req)\<rparr>) else p)\<lparr>pd_voted := True\<rparr>))"

definition UpdateRaftLog :: "Entry list \<Rightarrow> 64 word \<Rightarrow> RaftLog \<Rightarrow> (int \<times> RaftLog) option" where
  "UpdateRaftLog entries leader_commit l =
     (case entries of
        [entry] \<Rightarrow>
          if size_of_int32 (en_index entry) \<noteq> rl_index l + 1 then
            let l = (if leader_commit < rl_index l \<and> rl_commited l < leader_commit then log_Reset (rl_commited l) l else l) in
            if size_of_int32 (en_index entry) \<noteq> rl_index l + 1 then Some (- 2, l)
            else map_option (\<lambda>(ok, l). (0, l)) (log_PutEntry entry l)
          else map_option (\<lambda>(ok, l). (0, l)) (log_PutEntry entry l)
      | _ \<Rightarrow> Some (- 3, l))"

definition append_newer :: "AppendReq \<Rightarrow> Pod \<Rightarrow> bool" where
  "append_newer req p =
     (sint (pd_term p) < sint (ap_term req) \<or>
      ap_term req = pd_term p \<and> ap_entrys req \<noteq> [] \<and>
      sint (int32_of (rl_index (pd_log p))) < sint (en_index (ap_entrys req ! 0)))"

definition append_election :: "AppendReq \<Rightarrow> Pod \<Rightarrow> Pod" where
  "append_election req p =
     (if append_newer req p
      then (step_down (p\<lparr>pd_term := ap_term req, pd_voted := False\<rparr>))\<lparr>pd_leader_id := int32_of (ap_id req)\<rparr>
      else p)"

definition SolveAppend :: "64 word \<Rightarrow> AppendReq \<Rightarrow> Pod \<Rightarrow> (int \<times> Pod) option" where
  "SolveAppend now req p =
     (let p = append_election req (p\<lparr>pd_last_time := now\<rparr>);
          p = p\<lparr>pd_log := log_UpdateCommit (ap_commited_index req) (pd_log p)\<rparr> in
      if ap_entrys req \<noteq> []
      then map_option (\<lambda>(code, l). (code, p\<lparr>pd_log := l\<rparr>)) (UpdateRaftLog (ap_entrys req) (ap_commited_index req) (pd_log p))
      else Some (0, p))"

text \<open>The handlers of the service turn the results into codes.\<close>

definition service_RequestVote :: "64 word \<Rightarrow> RequestVoteReq \<Rightarrow> Pod \<Rightarrow> Reply \<times> Pod" where
  "service_RequestVote now req p = (let (voted, p) = Vote now req p in (reply (if voted then 0 else - 1), p))"

definition service_Append :: "64 word \<Rightarrow> AppendReq \<Rightarrow> Pod \<Rightarrow> (Reply \<times> Pod) option" where
  "service_Append now req p = map_option (\<lambda>(code, p). (reply code, p)) (SolveAppend now req p)"

section \<open>Requests from clients\<close>

definition FindLeaderAddress :: "Pod \<Rightarrow> Address option" where
  "FindLeaderAddress p =
     map_option fo_addr (find (\<lambda>f. ad_id (fo_addr f) = pd_leader_id p) (pd_followers p))"

definition redirect :: "Pod \<Rightarrow> Reply" where
  "redirect p =
     (case FindLeaderAddress p of
        None \<Rightarrow> reply (- 1)
      | Some addr \<Rightarrow> (reply (- 2))\<lparr>rp_leader_addr := Some addr\<rparr>)"

text \<open>
  \<^verbatim>\<open>Put\<close> up to the loop of \<^verbatim>\<open>InnerPut\<close>: a reply, or the index to wait for.  \<open>put_poll\<close> is one round of the loop, which
  commits the entry when enough peers have passed it; the reply follows when \<open>log_applied\<close> holds.
\<close>

definition Put_begin :: "string \<Rightarrow> string \<Rightarrow> Pod \<Rightarrow> ((Reply + 64 word) \<times> Pod) option" where
  "Put_begin key val p =
     (if pd_status p \<noteq> Leader then Some (Inl (redirect p), p)
      else do {
        (r, l) \<leftarrow> log_Put key val (pd_term p) (pd_log p);
        Some (case r of None \<Rightarrow> Inl (reply (- 1)) | Some now_idx \<Rightarrow> Inr now_idx, p\<lparr>pd_log := l\<rparr>) })"

definition put_quorum :: "64 word \<Rightarrow> Pod \<Rightarrow> bool" where
  "put_quorum now_idx p =
     ((length (pd_followers p) + 1) div 2 <
      1 + length (filter (\<lambda>f. now_idx < fo_nextindex f) (pd_followers p)))"

definition put_poll :: "64 word \<Rightarrow> Pod \<Rightarrow> Pod option" where
  "put_poll now_idx p =
     (if put_quorum now_idx p then Some (p\<lparr>pd_log := log_UpdateCommit now_idx (pd_log p)\<rparr>) else None)"

definition put_end :: "64 word \<Rightarrow> Pod \<Rightarrow> Reply option" where
  "put_end now_idx p = (if log_applied now_idx (pd_log p) then Some (reply 0) else None)"

definition pod_Get :: "string \<Rightarrow> bool \<Rightarrow> Pod \<Rightarrow> Reply option" where
  "pod_Get key read_from_leader p =
     (if read_from_leader \<and> pd_status p \<noteq> Leader then Some (redirect p)
      else do {
        r \<leftarrow> db_Get (pd_db p) key;
        Some (case r of None \<Rightarrow> reply 1 | Some v \<Rightarrow> (reply 0)\<lparr>rp_value := v\<rparr>) })"

text \<open>The applying thread of the log of a pod.\<close>

definition pod_sync :: "Pod \<Rightarrow> Pod option" where
  "pod_sync p = do { (l, d) \<leftarrow> sync_apply (pd_log p, pd_db p); Some (p\<lparr>pd_log := l, pd_db := d\<rparr>) }"

section \<open>Elections\<close>

definition timed_out :: "64 word \<Rightarrow> Pod \<Rightarrow> bool" where
  "timed_out now p = (pd_status p \<noteq> Leader \<and> \<not> now - pd_last_time p < 5000)"

definition RequestVote_begin :: "Pod \<Rightarrow> Pod" where
  "RequestVote_begin p = p\<lparr>pd_status := Candidate, pd_term := pd_term p + 1, pd_ballot := Some (0, 1)\<rparr>"

definition vote_request :: "Pod \<Rightarrow> RequestVoteReq" where
  "vote_request p = \<lparr>rv_id = pd_id p, rv_term = int32_of (pd_term p), rv_index = int32_of (rl_index (pd_log p))\<rparr>"

text \<open>After the peer at the position has answered (\<open>True\<close>: a vote; a refusal and a failed call count alike).\<close>

definition RequestVote_next :: "bool \<Rightarrow> Pod \<Rightarrow> Pod" where
  "RequestVote_next vote p =
     (case pd_ballot p of
        None \<Rightarrow> p
      | Some (i, tickets) \<Rightarrow> p\<lparr>pd_ballot := Some (i + 1, if vote then tickets + 1 else tickets)\<rparr>)"

definition run_follower :: "RaftLog \<Rightarrow> FollowerPeer \<Rightarrow> FollowerPeer" where
  "run_follower l f = f\<lparr>fo_nextindex := rl_commited l, fo_running := True, fo_sending := False\<rparr>"

definition RequestVote_end :: "Pod \<Rightarrow> Pod" where
  "RequestVote_end p =
     (case pd_ballot p of
        None \<Rightarrow> p
      | Some (i, tickets) \<Rightarrow>
          let p = p\<lparr>pd_ballot := None\<rparr> in
          if pd_status p \<noteq> Candidate then p
          else if (length (pd_followers p) + 1) div 2 < tickets
          then p\<lparr>pd_status := Leader, pd_followers := map (run_follower (pd_log p)) (pd_followers p)\<rparr>
          else p)"

section \<open>Replication\<close>

text \<open>
  The thread of a peer: \<open>append_ready\<close> is the test of the outer loop, \<open>append_request\<close> the message of a round of the inner
  loop (the term and the commit index of the request stay zero), \<open>append_reply\<close> what follows the reply.
\<close>

definition append_ready :: "Pod \<Rightarrow> FollowerPeer \<Rightarrow> bool" where
  "append_ready p f = (fo_running f \<and> (fo_sending f \<or> fo_nextindex f < rl_index (pd_log p)))"

definition append_request :: "Pod \<Rightarrow> FollowerPeer \<Rightarrow> AppendReq option" where
  "append_request p f =
     do { main_entry \<leftarrow> log_At (fo_nextindex f + 1) (pd_log p);
          Some \<lparr>ap_term = 0, ap_commited_index = 0, ap_id = scast (pd_id p),
                ap_entrys = [\<lparr>en_term = en_term main_entry, en_index = int32_of (fo_nextindex f + 1),
                              en_key = en_key main_entry, en_value = en_value main_entry, en_mode = 0,
                              en_commited = int32_of (rl_commited (pd_log p))\<rparr>]\<rparr> }"

definition append_reply :: "int \<Rightarrow> nat \<Rightarrow> Pod \<Rightarrow> Pod" where
  "append_reply code i p =
     (let f = pd_followers p ! i in
      if code \<noteq> 0
      then p\<lparr>pd_followers := (pd_followers p)[i := f\<lparr>fo_nextindex := fo_nextindex f - 1, fo_sending := True\<rparr>]\<rparr>
      else commit_round i (p\<lparr>pd_followers := (pd_followers p)[i := f\<lparr>fo_nextindex := fo_nextindex f + 1, fo_sending := False\<rparr>]\<rparr>))"

definition append_retry :: "nat \<Rightarrow> Pod \<Rightarrow> Pod" where
  "append_retry i p = p\<lparr>pd_followers := (pd_followers p)[i := (pd_followers p ! i)\<lparr>fo_sending := True\<rparr>]\<rparr>"

definition heartbeat_request :: "Pod \<Rightarrow> AppendReq" where
  "heartbeat_request p =
     \<lparr>ap_term = scast (int32_of (pd_term p)), ap_commited_index = rl_commited (pd_log p), ap_id = scast (pd_id p), ap_entrys = []\<rparr>"

section \<open>A cluster\<close>

text \<open>
  The pods of a cluster exchange remote calls.  A call may fail before it reaches the other pod, after the other pod
  has handled it, or succeed.  An event is one section of a thread of the pod at the position given first; the
  votes and entries go to the pod with the identifier of the peer.  \<open>AskVote\<close> is a round of the loop of
  \<^verbatim>\<open>RequestVote\<close>: the test call of \<^verbatim>\<open>PutTest\<close>, which is a client request for the empty key, and the vote.  \<open>None\<close>: the event
  is not possible, or the code accesses memory out of bounds.
\<close>

datatype delivery = Dropped | ReplyLost | Delivered

datatype raft_event =
    Timeout nat "64 word"
  | AskVote nat "64 word" delivery delivery
  | EndVote nat
  | ClientPut nat string string
  | PollPut nat "64 word"
  | SendEntry nat nat "64 word" delivery
  | SendHeartbeat nat nat "64 word" delivery
  | ApplyEntry nat

definition pod_pos :: "Pod list \<Rightarrow> 32 word \<Rightarrow> nat option" where
  "pod_pos ps i = find (\<lambda>j. pd_id (ps ! j) = i) [0..<length ps]"

definition put_test :: "delivery \<Rightarrow> nat \<Rightarrow> Pod list \<Rightarrow> Pod list option" where
  "put_test dl j ps =
     (if dl = Dropped then Some ps
      else do { (r, q) \<leftarrow> Put_begin [] [] (ps ! j); Some (ps[j := q]) })"

definition ask_vote :: "nat \<Rightarrow> nat \<Rightarrow> 64 word \<Rightarrow> delivery \<Rightarrow> Pod list \<Rightarrow> Pod list" where
  "ask_vote i j now dl ps =
     (if pd_status (ps ! i) \<noteq> Candidate then ps[i := (ps ! i)\<lparr>pd_ballot := None\<rparr>]
      else if dl = Dropped then ps[i := RequestVote_next False (ps ! i)]
      else let (r, q) = service_RequestVote now (vote_request (ps ! i)) (ps ! j); ps = ps[j := q] in
           ps[i := RequestVote_next (dl = Delivered \<and> rp_code r = 0) (ps ! i)])"

fun raft_step :: "raft_event \<Rightarrow> Pod list \<Rightarrow> Pod list option" where
  "raft_step (Timeout i now) ps =
     (if i < length ps \<and> pd_ballot (ps ! i) = None \<and> timed_out now (ps ! i) then Some (ps[i := RequestVote_begin (ps ! i)]) else None)"
| "raft_step (AskVote i now dt dv) ps =
     (if i < length ps then
        case pd_ballot (ps ! i) of
          Some (n, tickets) \<Rightarrow>
            if n < length (pd_followers (ps ! i)) then
              (case pod_pos ps (ad_id (fo_addr (pd_followers (ps ! i) ! n))) of
                 Some j \<Rightarrow> if j = i then None else do { ps \<leftarrow> put_test dt j ps; Some (ask_vote i j now dv ps) }
               | None \<Rightarrow> None)
            else None
        | None \<Rightarrow> None
      else None)"
| "raft_step (EndVote i) ps =
     (if i < length ps \<and> map_option fst (pd_ballot (ps ! i)) = Some (length (pd_followers (ps ! i)))
      then Some (ps[i := RequestVote_end (ps ! i)]) else None)"
| "raft_step (ClientPut i k v) ps =
     (if i < length ps then do { (r, p) \<leftarrow> Put_begin k v (ps ! i); Some (ps[i := p]) } else None)"
| "raft_step (PollPut i now_idx) ps =
     (if i < length ps then do { p \<leftarrow> put_poll now_idx (ps ! i); Some (ps[i := p]) } else None)"
| "raft_step (SendEntry i n now dl) ps =
     (if i < length ps \<and> n < length (pd_followers (ps ! i)) \<and> append_ready (ps ! i) (pd_followers (ps ! i) ! n) then
        do { req \<leftarrow> append_request (ps ! i) (pd_followers (ps ! i) ! n);
             if dl = Dropped then Some (ps[i := append_retry n (ps ! i)])
             else do {
               j \<leftarrow> pod_pos ps (ad_id (fo_addr (pd_followers (ps ! i) ! n)));
               if j = i then None
               else do {
                 (r, q) \<leftarrow> service_Append now req (ps ! j);
                 let ps = ps[j := q];
                 Some (ps[i := if dl = Delivered then append_reply (rp_code r) n (ps ! i) else append_retry n (ps ! i)]) } } }
      else None)"
| "raft_step (SendHeartbeat i n now dl) ps =
     (if i < length ps \<and> n < length (pd_followers (ps ! i)) \<and> pd_status (ps ! i) = Leader then
        if dl = Dropped then Some ps
        else do {
          j \<leftarrow> pod_pos ps (ad_id (fo_addr (pd_followers (ps ! i) ! n)));
          if j = i then None
          else do { (r, q) \<leftarrow> service_Append now (heartbeat_request (ps ! i)) (ps ! j); Some (ps[j := q]) } }
      else None)"
| "raft_step (ApplyEntry i) ps =
     (if i < length ps then do { p \<leftarrow> pod_sync (ps ! i); Some (ps[i := p]) } else None)"

fun raft_run :: "raft_event list \<Rightarrow> Pod list \<Rightarrow> Pod list option" where
  "raft_run [] ps = Some ps"
| "raft_run (e # es) ps = do { ps \<leftarrow> raft_step e ps; raft_run es ps }"

end
