(* ===== verification/RaftLog_Correct.thy ===== *)
theory RaftLog_Correct
  imports RaftLog KVStore_Correct
begin

text \<open>
  The log against a list of entries with a committed and an applied prefix.  \<open>log_rep\<close> relates the two, every
  operation acts on the list, and the locale \<open>kv_sink\<close> states what the applying thread needs of the database.
\<close>

section \<open>The abstract log\<close>

text \<open>The entries since the log was opened; \<open>S\<close> is the index it was opened at.\<close>

record alog =
  al_entries :: "Entry list"
  al_commit :: nat
  al_applied :: nat

definition alog_new :: alog where "alog_new = \<lparr>al_entries = [], al_commit = 0, al_applied = 0\<rparr>"

definition start_ok :: "nat \<Rightarrow> bool" where "start_ok S = (S + ring_buffer_size < 2 ^ 31)"

definition log_rep :: "nat \<Rightarrow> RaftLog \<Rightarrow> alog \<Rightarrow> bool" where
  "log_rep S l a =
     (start_ok S \<and> unat (rl_start_index l) = S \<and> unat (rl_index l) = S + length (al_entries a) \<and>
      unat (rl_commited l) = S + al_commit a \<and> unat (rl_last_append l) = S + al_applied a \<and>
      ring_holds (rl_queue l) (al_entries a) \<and> rq_tail (rl_queue l) = 0 \<and>
      al_applied a \<le> al_commit a \<and> al_commit a \<le> length (al_entries a))"

datatype log_op = LPut string string "64 word" | LEntry Entry | LReset "64 word" | LCommit "64 word" | LSync

definition new_entry :: "nat \<Rightarrow> string \<Rightarrow> string \<Rightarrow> 64 word \<Rightarrow> Entry" where
  "new_entry index key val term =
     \<lparr>en_term = int32_of term, en_index = of_nat index, en_key = key, en_value = val, en_mode = 0, en_commited = 0\<rparr>"

definition log_full :: "alog \<Rightarrow> bool" where
  "log_full a = (length (al_entries a) = ring_buffer_size - 1)"

definition alog_push :: "nat \<Rightarrow> Entry \<Rightarrow> alog \<Rightarrow> alog" where
  "alog_push S e a =
     (if log_full a then a
      else a\<lparr>al_entries := al_entries a @ [e], al_commit := max (al_commit a) (unat (size_of_int32 (en_commited e)) - S)\<rparr>)"

fun alog_exec :: "nat \<Rightarrow> log_op \<Rightarrow> alog \<Rightarrow> alog" where
  "alog_exec S (LPut k v t) a = alog_push S (new_entry (S + length (al_entries a) + 1) k v t) a"
| "alog_exec S (LEntry e) a = alog_push S e a"
| "alog_exec S (LReset n) a = a\<lparr>al_entries := take (unat n - S) (al_entries a)\<rparr>"
| "alog_exec S (LCommit n) a = a\<lparr>al_commit := max (al_commit a) (min (length (al_entries a)) (unat n - S))\<rparr>"
| "alog_exec S LSync a = (if al_applied a < al_commit a then a\<lparr>al_applied := al_applied a + 1\<rparr> else a)"

text \<open>
  What the callers must respect: an entry does not commit more than the log then holds, and a reset keeps the
  committed entries.
\<close>

fun log_op_ok :: "nat \<Rightarrow> log_op \<Rightarrow> alog \<Rightarrow> bool" where
  "log_op_ok S (LEntry e) a = (unat (size_of_int32 (en_commited e)) \<le> S + length (al_entries a) + 1)"
| "log_op_ok S (LReset n) a = (S + al_commit a \<le> unat n)"
| "log_op_ok S _ a = True"

fun log_ops_ok :: "nat \<Rightarrow> log_op list \<Rightarrow> alog \<Rightarrow> bool" where
  "log_ops_ok S [] a = True"
| "log_ops_ok S (r # rs) a = (log_op_ok S r a \<and> log_ops_ok S rs (alog_exec S r a))"

text \<open>The operations of the log with the trace of the entries that are applied.\<close>

fun log_exec :: "log_op \<Rightarrow> RaftLog \<times> Entry list \<Rightarrow> (RaftLog \<times> Entry list) option" where
  "log_exec (LPut k v t) (l, tr) = map_option (\<lambda>(r, l). (l, tr)) (log_Put k v t l)"
| "log_exec (LEntry e) (l, tr) = map_option (\<lambda>(r, l). (l, tr)) (log_PutEntry e l)"
| "log_exec (LReset n) (l, tr) = Some (log_Reset n l, tr)"
| "log_exec (LCommit n) (l, tr) = Some (log_UpdateCommit n l, tr)"
| "log_exec LSync (l, tr) = map_option (\<lambda>r. case r of Taken e l \<Rightarrow> (l, tr @ [e]) | _ \<Rightarrow> (l, tr)) (sync_take l)"

fun log_run :: "log_op list \<Rightarrow> RaftLog \<times> Entry list \<Rightarrow> (RaftLog \<times> Entry list) option" where
  "log_run [] s = Some s"
| "log_run (r # rs) s = do { s \<leftarrow> log_exec r s; log_run rs s }"

section \<open>Refinement\<close>

lemma log_rep_new: "start_ok S \<Longrightarrow> log_rep S (log_at (of_nat S)) alog_new"
  using ring_holds_new by (simp add: log_rep_def log_at_def alog_new_def start_ok_def unat_of_nat ring_new_def ring_holds_def)

lemma log_rep_length: "log_rep S l a \<Longrightarrow> length (al_entries a) < ring_buffer_size"
  by (auto simp: log_rep_def ring_holds_def)

lemma word_of_index:
  assumes "log_rep S l a" "n \<le> S + ring_buffer_size"
  shows "unat (of_nat n :: 64 word) = n"
  using assms by (simp add: log_rep_def start_ok_def unat_of_nat)

lemma push_entry_rep:
  assumes rep: "log_rep S l a" "\<not> rl_stop l" and e: "unat (size_of_int32 (en_commited e)) \<le> S + length (al_entries a) + 1"
  shows "\<exists>l'. push_entry e l = Some (\<not> log_full a, l') \<and> log_rep S l' (alog_push S e a) \<and> \<not> rl_stop l' \<and>
    (\<not> log_full a \<longrightarrow> unat (rl_index l') = S + length (al_entries a) + 1)"
proof -
  have q: "ring_holds (rl_queue l) (al_entries a)" "rq_tail (rl_queue l) = 0" using rep by (simp_all add: log_rep_def)
  from ring_holds_PushBack [OF q, of e] show ?thesis
  proof (elim disjE conjE exE)
    assume "ring_PushBack e (rl_queue l) = Some (False, rl_queue l)" "length (al_entries a) = ring_buffer_size - 1"
    then show ?thesis using rep by (simp add: push_entry_def alog_push_def log_full_def)
  next
    fix q'
    assume push: "ring_PushBack e (rl_queue l) = Some (True, q')" "ring_holds q' (al_entries a @ [e])" "rq_tail q' = 0"
      "length (al_entries a) < ring_buffer_size - 1"
    let ?c = "size_of_int32 (en_commited e)"
    define l' where "l' = l\<lparr>rl_queue := q', rl_index := rl_index l + 1, rl_commited := max (rl_commited l) ?c\<rparr>"
    have "unat (rl_index l) < 2 ^ 63" using rep log_rep_length [OF rep(1)] by (simp add: log_rep_def start_ok_def)
    then have idx: "unat (rl_index l') = S + length (al_entries a) + 1"
      using unat_Suc_small [of "rl_index l"] rep(1) by (simp add: l'_def log_rep_def)
    have com: "unat (rl_commited l') = S + max (al_commit a) (unat ?c - S)"
      using rep(1) by (auto simp: l'_def log_rep_def max_def word_le_nat_alt)
    have "log_rep S l' (alog_push S e a)"
      using rep push(2-4) idx com e unfolding log_rep_def alog_push_def log_full_def by (auto simp: l'_def)
    moreover have "push_entry e l = Some (True, l')"
      using rep(2) push(1) by (auto simp: push_entry_def l'_def Let_def max_def)
    ultimately show ?thesis using idx push(4) rep(2) by (auto simp: log_full_def l'_def)
  qed
qed

lemma log_Put_rep:
  assumes rep: "log_rep S l a" "\<not> rl_stop l"
  shows "\<exists>l'. log_Put k v t l = Some (if log_full a then None else Some (of_nat (S + length (al_entries a) + 1)), l') \<and>
    log_rep S l' (alog_exec S (LPut k v t) a) \<and> \<not> rl_stop l'"
proof -
  let ?i = "S + length (al_entries a) + 1"
  have "unat (rl_index l) < 2 ^ 63" using rep log_rep_length [OF rep(1)] by (simp add: log_rep_def start_ok_def)
  then have "unat (rl_index l + 1) = ?i" using unat_Suc_small [of "rl_index l"] rep(1) by (simp add: log_rep_def)
  then have "int32_of (rl_index l + 1) = of_nat ?i" unfolding int32_of_def by (metis of_nat_unat)
  then have e: "\<lparr>en_term = int32_of t, en_index = int32_of (rl_index l + 1), en_key = k, en_value = v, en_mode = 0, en_commited = 0\<rparr> = new_entry ?i k v t"
    by (simp add: new_entry_def)
  have "unat (size_of_int32 (en_commited (new_entry ?i k v t))) \<le> ?i" by (simp add: new_entry_def size_of_int32_def)
  from push_entry_rep [OF rep this] obtain l' where l': "push_entry (new_entry ?i k v t) l = Some (\<not> log_full a, l')"
    "log_rep S l' (alog_push S (new_entry ?i k v t) a)" "\<not> rl_stop l'" "\<not> log_full a \<longrightarrow> unat (rl_index l') = ?i" by blast
  have "\<not> log_full a \<longrightarrow> rl_index l' = of_nat ?i" using l'(4) by (metis of_nat_unat ucast_id)
  then have "log_Put k v t l = Some (if log_full a then None else Some (of_nat ?i), l')"
    using l'(1) unfolding log_Put_def e by simp
  then show ?thesis using l'(2,3) by auto
qed


lemma log_Reset_rep:
  assumes rep: "log_rep S l a" and n: "S + al_commit a \<le> unat n"
  shows "log_rep S (log_Reset n l) (alog_exec S (LReset n) a)"
proof (cases "n < rl_index l")
  case False
  then have "take (unat n - S) (al_entries a) = al_entries a" using rep by (simp add: log_rep_def word_less_nat_alt)
  then show ?thesis using rep False by (simp add: log_Reset_def)
next
  case True
  let ?es = "al_entries a"
  have le: "unat n < S + length ?es" using True rep by (simp add: log_rep_def word_less_nat_alt)
  have k: "unat (rl_index l - n) = S + length ?es - unat n"
    using True rep by (simp add: unat_sub log_rep_def word_le_nat_alt word_less_nat_alt)
  have "ring_holds (rl_queue l) ?es" using rep by (simp add: log_rep_def)
  from ring_holds_Truncate [OF this, of "rl_index l - n"] obtain q' where
    q': "ring_Truncate (rl_index l - n) (rl_queue l) = (of_nat (min (S + length ?es - unat n) (length ?es)), q')"
      "ring_holds q' (take (length ?es - (S + length ?es - unat n)) ?es)" "rq_tail q' = rq_tail (rl_queue l)"
    unfolding k by blast
  have m: "min (S + length ?es - unat n) (length ?es) = S + length ?es - unat n" "length ?es - (S + length ?es - unat n) = unat n - S"
    using n le by auto
  have r: "log_Reset n l = l\<lparr>rl_queue := q', rl_index := rl_index l - of_nat (S + length ?es - unat n)\<rparr>"
    using True q'(1) by (simp add: log_Reset_def m)
  have "of_nat (S + length ?es - unat n) = rl_index l - n" using k by (metis of_nat_unat ucast_id)
  then have "unat (rl_index l - of_nat (S + length ?es - unat n)) = unat n" by simp
  then show ?thesis unfolding r using rep q'(2,3) n le m(2) by (auto simp: log_rep_def min_def)
qed

lemma log_UpdateCommit_rep:
  assumes rep: "log_rep S l a"
  shows "log_rep S (log_UpdateCommit n l) (alog_exec S (LCommit n) a)"
proof -
  have "unat (max (rl_commited l) (min (rl_index l) n)) = S + max (al_commit a) (min (length (al_entries a)) (unat n - S))"
    using rep by (auto simp: log_rep_def max_def min_def word_le_nat_alt)
  then show ?thesis using rep by (auto simp: log_rep_def log_UpdateCommit_def)
qed

lemma sync_take_rep:
  assumes rep: "log_rep S l a" and todo: "al_applied a < al_commit a"
  shows "\<exists>l'. sync_take l = Some (Taken (al_entries a ! al_applied a) l') \<and> log_rep S l' (a\<lparr>al_applied := al_applied a + 1\<rparr>) \<and>
    rl_stop l' = rl_stop l \<and> rl_commited l' = rl_commited l"
proof -
  have less: "rl_last_append l < rl_commited l" using rep todo by (simp add: log_rep_def word_less_nat_alt)
  have pos: "unat (rl_last_append l - rl_start_index l) = al_applied a" using rep by (simp add: log_rep_def unat_sub word_le_nat_alt)
  have "ring_holds (rl_queue l) (al_entries a)" "al_applied a < length (al_entries a)" using rep todo by (auto simp: log_rep_def)
  then have at: "ring_At (rl_queue l) (rl_last_append l - rl_start_index l) = Some (al_entries a ! al_applied a)"
    using ring_holds_At pos by metis
  have "unat (rl_last_append l) < 2 ^ 63" using rep log_rep_length [OF rep] by (simp add: log_rep_def start_ok_def)
  then have "unat (rl_last_append l + 1) = S + al_applied a + 1" using unat_Suc_small [of "rl_last_append l"] rep by (simp add: log_rep_def)
  then have "log_rep S (l\<lparr>rl_last_append := rl_last_append l + 1\<rparr>) (a\<lparr>al_applied := al_applied a + 1\<rparr>)"
    using rep todo by (simp add: log_rep_def)
  then show ?thesis using less at by (auto simp: sync_take_def)
qed

lemma sync_take_idle:
  assumes "log_rep S l a" "\<not> al_applied a < al_commit a" "\<not> rl_stop l"
  shows "sync_take l = Some Waiting"
  using assms by (simp add: sync_take_def log_rep_def word_less_nat_alt)

text \<open>The index of the newest entry has position zero from the back of the queue.\<close>

lemma log_At_rep:
  assumes rep: "log_rep S l a" and i: "i < length (al_entries a)"
  shows "log_At (of_nat (S + i + 1)) l = Some (al_entries a ! i)"
proof -
  have len: "length (al_entries a) < ring_buffer_size" using log_rep_length [OF rep] .
  have n: "unat (of_nat (S + i + 1) :: 64 word) = S + i + 1" by (rule word_of_index [OF rep]) (use i len in simp)
  have "unat (rl_index l - of_nat (S + i + 1)) = length (al_entries a) - 1 - i"
    using rep n i by (simp add: unat_sub log_rep_def word_le_nat_alt)
  moreover have "ring_holds (rl_queue l) (al_entries a)" using rep by (simp add: log_rep_def)
  ultimately show ?thesis using ring_holds_RAt [of "rl_queue l" "al_entries a" "rl_index l - of_nat (S + i + 1)"] i
    by (simp add: log_At_def)
qed

section \<open>Runs\<close>

lemma take_Suc_app: "n < length xs \<Longrightarrow> take (Suc n) xs = take n xs @ [xs ! n]" by (rule take_Suc_conv_app_nth)

definition trace_ok :: "nat \<Rightarrow> RaftLog \<times> Entry list \<Rightarrow> alog \<Rightarrow> bool" where
  "trace_ok S s a = (log_rep S (fst s) a \<and> \<not> rl_stop (fst s) \<and> snd s = take (al_applied a) (al_entries a))"

lemma take_push: "n \<le> length (al_entries a) \<Longrightarrow> take n (al_entries (alog_push S e a)) = take n (al_entries a)"
  by (simp add: alog_push_def)

lemma log_exec_ok:
  assumes "trace_ok S s a" "log_op_ok S r a"
  shows "\<exists>s'. log_exec r s = Some s' \<and> trace_ok S s' (alog_exec S r a)"
proof -
  obtain l tr where s: "s = (l, tr)" "log_rep S l a" "\<not> rl_stop l" "tr = take (al_applied a) (al_entries a)"
    using assms(1) by (cases s) (auto simp: trace_ok_def)
  have app: "al_applied a \<le> al_commit a" "al_commit a \<le> length (al_entries a)" using s(2) by (simp_all add: log_rep_def)
  show ?thesis
  proof (cases r)
    case (LPut k v t)
    obtain l' where "log_Put k v t l = Some (if log_full a then None else Some (of_nat (S + length (al_entries a) + 1)), l')"
      "log_rep S l' (alog_exec S r a)" "\<not> rl_stop l'"
      using log_Put_rep [OF s(2,3)] LPut by blast
    then show ?thesis using s(1,4) app LPut by (simp add: trace_ok_def take_push) (simp add: alog_push_def)
  next
    case (LEntry e)
    then obtain l' where "push_entry e l = Some (\<not> log_full a, l')" "log_rep S l' (alog_push S e a)" "\<not> rl_stop l'"
      using push_entry_rep [OF s(2,3)] assms(2) by auto
    then show ?thesis using s(1,4) app LEntry by (simp add: trace_ok_def take_push log_PutEntry_def) (simp add: alog_push_def)
  next
    case (LReset n)
    then have n: "S + al_commit a \<le> unat n" using assms(2) by simp
    have "\<not> rl_stop (log_Reset n l)" using s(3) by (simp add: log_Reset_def split: prod.split)
    then show ?thesis using s log_Reset_rep [OF s(2) n] LReset n app by (simp add: trace_ok_def min_def)
  next
    case (LCommit n)
    then show ?thesis using s log_UpdateCommit_rep [OF s(2), of n] by (simp add: trace_ok_def log_UpdateCommit_def)
  next
    case LSync
    show ?thesis
    proof (cases "al_applied a < al_commit a")
      case True
      then obtain l' where "sync_take l = Some (Taken (al_entries a ! al_applied a) l')" "log_rep S l' (a\<lparr>al_applied := al_applied a + 1\<rparr>)"
        "rl_stop l' = rl_stop l" using sync_take_rep [OF s(2)] by blast
      then show ?thesis using s LSync True app by (simp add: trace_ok_def take_Suc_app)
    next
      case False
      then show ?thesis using s LSync sync_take_idle [OF s(2) False s(3)] by (simp add: trace_ok_def)
    qed
  qed
qed

lemma log_run_ok:
  assumes "trace_ok S s a" "log_ops_ok S rs a"
  shows "\<exists>s'. log_run rs s = Some s' \<and> trace_ok S s' (fold (alog_exec S) rs a)"
  using assms
proof (induction rs arbitrary: s a)
  case (Cons r rs)
  have "log_op_ok S r a" using Cons.prems(2) by simp
  with log_exec_ok [OF Cons.prems(1)] obtain s1 where s1: "log_exec r s = Some s1" "trace_ok S s1 (alog_exec S r a)" by blast
  then show ?case using Cons.IH [OF s1(2)] Cons.prems(2) by simp
qed simp

lemma log_run_append: "log_run (rs @ rs') s = Option.bind (log_run rs s) (log_run rs')"
  by (induction rs arbitrary: s) (auto split: bind_splits)

lemma log_ops_ok_append: "log_ops_ok S (rs @ rs') a \<longleftrightarrow> log_ops_ok S rs a \<and> log_ops_ok S rs' (fold (alog_exec S) rs a)"
  by (induction rs arbitrary: a) auto

lemma committed_stable_step:
  assumes "log_op_ok S r a" "al_commit a \<le> length (al_entries a)"
  shows "take (al_commit a) (al_entries (alog_exec S r a)) = take (al_commit a) (al_entries a) \<and>
    al_commit a \<le> al_commit (alog_exec S r a) \<and> al_commit a \<le> length (al_entries (alog_exec S r a))"
  using assms by (cases r) (auto simp: alog_push_def min_def)


lemma take_le_eq: "take n xs = take n ys \<Longrightarrow> k \<le> n \<Longrightarrow> take k xs = take k ys"
  by (drule arg_cong [where f = "take k"]) (simp add: min_absorb1)

lemma committed_stable:
  assumes "trace_ok S s a" "log_ops_ok S rs a"
  shows "take (al_commit a) (al_entries (fold (alog_exec S) rs a)) = take (al_commit a) (al_entries a) \<and>
    al_commit a \<le> al_commit (fold (alog_exec S) rs a) \<and> al_commit a \<le> length (al_entries (fold (alog_exec S) rs a))"
  using assms
proof (induction rs arbitrary: s a)
  case Nil
  then show ?case by (simp add: trace_ok_def log_rep_def)
next
  case (Cons r rs)
  have "log_op_ok S r a" using Cons.prems(2) by simp
  with log_exec_ok [OF Cons.prems(1)] obtain s1 where s1: "trace_ok S s1 (alog_exec S r a)" by blast
  have op: "log_op_ok S r a" and len: "al_commit a \<le> length (al_entries a)"
    using Cons.prems by (auto simp: trace_ok_def log_rep_def)
  have st: "take (al_commit a) (al_entries (alog_exec S r a)) = take (al_commit a) (al_entries a)" "al_commit a \<le> al_commit (alog_exec S r a)"
    using committed_stable_step [OF op len] by blast+
  have "log_ops_ok S rs (alog_exec S r a)" using Cons.prems(2) by simp
  note ih = Cons.IH [OF s1 this]
  have "take (al_commit a) (al_entries (fold (alog_exec S) rs (alog_exec S r a))) = take (al_commit a) (al_entries (alog_exec S r a))"
    by (rule take_le_eq [OF conjunct1 [OF ih] st(2)])
  moreover have "al_commit a \<le> al_commit (fold (alog_exec S) rs (alog_exec S r a)) \<and>
      al_commit a \<le> length (al_entries (fold (alog_exec S) rs (alog_exec S r a)))"
    using conjunct2 [OF ih] st(2) by linarith
  ultimately show ?case unfolding fold_simps st(1) [symmetric] by (rule conjI)
qed

section \<open>Applying entries to a store\<close>

text \<open>What the applying thread needs of the store: a write returns and updates its key.\<close>

definition entry_map :: "Entry \<Rightarrow> (string \<rightharpoonup> string) \<Rightarrow> (string \<rightharpoonup> string)" where
  "entry_map e m = m(en_key e \<mapsto> en_value e)"

locale kv_sink =
  fixes put :: "string \<Rightarrow> string \<Rightarrow> 'd \<Rightarrow> 'd option" and holds :: "'d \<Rightarrow> (string \<rightharpoonup> string) \<Rightarrow> bool"
  assumes put_ok: "holds d m \<Longrightarrow> \<exists>d'. put k v d = Some d' \<and> holds d' (m(k \<mapsto> v))"
begin

fun put_all :: "Entry list \<Rightarrow> 'd \<Rightarrow> 'd option" where
  "put_all [] d = Some d"
| "put_all (e # es) d = do { d \<leftarrow> put (en_key e) (en_value e) d; put_all es d }"

lemma put_all_ok:
  "holds d m \<Longrightarrow> \<exists>d'. put_all es d = Some d' \<and> holds d' (fold entry_map es m)"
proof (induction es arbitrary: d m)
  case (Cons e es)
  from put_ok [OF Cons.prems, of "en_key e" "en_value e"] obtain d1 where
    "put (en_key e) (en_value e) d = Some d1" "holds d1 (entry_map e m)" unfolding entry_map_def by blast
  then show ?case using Cons.IH by simp
qed simp

end

definition db_view :: "'c sst_env \<Rightarrow> nat \<Rightarrow> DB \<Rightarrow> (string \<rightharpoonup> string) \<Rightarrow> bool" where
  "db_view env N d m = (\<exists>E. db_rep env N E d m)"

interpretation raft_sink: kv_sink db_Put "db_view env N" for env N
proof
  fix d m k v
  assume "db_view env N d m"
  then obtain E where "db_rep env N E d m" by (auto simp: db_view_def)
  then obtain d' where "db_Put k v d = Some d'" "db_rep env N (insert (k, v) E) d' (m(k \<mapsto> v))" by (rule db_rep_Put)
  then show "\<exists>d'. db_Put k v d = Some d' \<and> db_view env N d' (m(k \<mapsto> v))" unfolding db_view_def by blast
qed

lemma drain_ok:
  assumes "log_rep S l a" "al_applied a + n \<le> al_commit a" "raft_sink.put_all (take n (drop (al_applied a) (al_entries a))) d = Some d'"
  shows "\<exists>l'. drain n (l, d) = Some (l', d') \<and> rl_commited l' = rl_commited l"
  using assms
proof (induction n arbitrary: l a d)
  case (Suc n)
  have less: "al_applied a < al_commit a" "al_applied a < length (al_entries a)" using Suc.prems(1,2) by (auto simp: log_rep_def)
  obtain l1 where l1: "sync_take l = Some (Taken (al_entries a ! al_applied a) l1)" "log_rep S l1 (a\<lparr>al_applied := al_applied a + 1\<rparr>)"
    "rl_commited l1 = rl_commited l" using sync_take_rep [OF Suc.prems(1) less(1)] by blast
  have es: "take (Suc n) (drop (al_applied a) (al_entries a)) = al_entries a ! al_applied a # take n (drop (al_applied a + 1) (al_entries a))"
    using less(2) by (simp add: Cons_nth_drop_Suc [symmetric])
  obtain d1 where d1: "db_Put (en_key (al_entries a ! al_applied a)) (en_value (al_entries a ! al_applied a)) d = Some d1"
    "raft_sink.put_all (take n (drop (al_applied a + 1) (al_entries a))) d1 = Some d'"
    using Suc.prems(3) unfolding es by (auto split: bind_splits)
  then show ?case using Suc.IH [OF l1(2)] Suc.prems(2) l1(1,3) by (simp add: sync_apply_def)
qed simp

lemma log_close_ok:
  assumes rep: "log_rep S l a" and d: "db_view env N d m"
  shows "\<exists>meta d'. log_close (l, d) = Some (meta, d') \<and> log_open (Some meta) = Some (log_at (rl_commited l)) \<and>
    db_view env N d' (fold entry_map (take (al_commit a - al_applied a) (drop (al_applied a) (al_entries a))) m)"
proof -
  let ?es = "take (al_commit a - al_applied a) (drop (al_applied a) (al_entries a))"
  obtain d' where d': "raft_sink.put_all ?es d = Some d'" "db_view env N d' (fold entry_map ?es m)"
    using raft_sink.put_all_ok [OF d] by blast
  have n: "unat (rl_commited l) - unat (rl_last_append l) = al_commit a - al_applied a" using rep by (simp add: log_rep_def)
  have "log_rep S (l\<lparr>rl_stop := True\<rparr>) a" using rep by (simp add: log_rep_def)
  from drain_ok [OF this _ d'(1)] obtain l' where l': "drain (al_commit a - al_applied a) (l\<lparr>rl_stop := True\<rparr>, d) = Some (l', d')"
    "rl_commited l' = rl_commited l" using rep by (auto simp: log_rep_def)
  have "log_close (l, d) = Some (log_Save l', d')" using l'(1) n by (simp add: log_close_def)
  moreover have "log_open (Some (log_Save l')) = Some (log_at (rl_commited l))"
  proof -
    have "unat (rl_commited l) < size_max" using unsigned_less [of "rl_commited l", where ?'a = nat] by simp
    then have "ReadSize ([] @ le_bytes 8 (unat (rl_commited l)) @ replicate 8 (CHR 0x00)) 0 = Some (unat (rl_commited l))"
      by (intro ReadSize_at) simp_all
    moreover have "le_bytes 8 (unat (rl_commited l)) \<noteq> []" by (metis length_le_bytes list.size(3) zero_neq_numeral)
    ultimately show ?thesis using l'(2) by (simp add: log_open_def log_Save_def)
  qed
  ultimately show ?thesis using d'(2) by blast
qed

end
