(* ===== verification/Raft_Correct.thy ===== *)
theory Raft_Correct
  imports Pod RaftLog_Correct
begin

text \<open>
  Lemmas on pods and clusters: what the sections of a pod leave alone, and the order \<open>pod_le\<close> in which a pod only
  moves up: the term, the commit index and the number of applied entries never decrease.
\<close>

section \<open>Votes\<close>

fun votes :: "64 word \<Rightarrow> RequestVoteReq list \<Rightarrow> Pod \<Rightarrow> (bool \<times> int) list \<times> Pod" where
  "votes now [] p = ([], p)"
| "votes now (r # rs) p =
     (let (g, p) = Vote now r p; (gs, p) = votes now rs p in ((g, sint (rv_term r)) # gs, p))"

definition granted :: "(bool \<times> int) list \<Rightarrow> int list" where
  "granted gs = map snd (filter fst gs)"

lemma sint_scast: "sint (scast (w :: 32 word) :: 64 word) = sint w"
  by (simp add: signed_scast_eq signed_take_bit_int_eq_self_iff) (use sint_greater_eq [of w] sint_less [of w] in auto)

lemma stop_follower_fields:
  "pd_term (stop_follower i p) = pd_term p \<and> pd_voted (stop_follower i p) = pd_voted p \<and>
   pd_status (stop_follower i p) = pd_status p \<and> pd_id (stop_follower i p) = pd_id p \<and>
   length (pd_followers (stop_follower i p)) = length (pd_followers p) \<and> pd_db (stop_follower i p) = pd_db p \<and>
   pd_ballot (stop_follower i p) = pd_ballot p \<and>
   rl_last_append (pd_log (stop_follower i p)) = rl_last_append (pd_log p) \<and>
   rl_commited (pd_log p) \<le> rl_commited (pd_log (stop_follower i p))"
  by (simp add: stop_follower_def commit_round_def log_UpdateCommit_def Let_def)

lemma stop_all_fields:
  "pd_term (fold stop_follower is p) = pd_term p \<and> pd_voted (fold stop_follower is p) = pd_voted p \<and>
   pd_status (fold stop_follower is p) = pd_status p \<and> pd_id (fold stop_follower is p) = pd_id p \<and>
   length (pd_followers (fold stop_follower is p)) = length (pd_followers p) \<and> pd_db (fold stop_follower is p) = pd_db p \<and>
   pd_ballot (fold stop_follower is p) = pd_ballot p \<and>
   rl_last_append (pd_log (fold stop_follower is p)) = rl_last_append (pd_log p) \<and>
   rl_commited (pd_log p) \<le> rl_commited (pd_log (fold stop_follower is p))"
proof (induction "is" arbitrary: p)
  case (Cons i "is")
  show ?case using Cons [of "stop_follower i p"] stop_follower_fields [of i p] by auto
qed simp

lemma step_down_fields:
  "pd_term (step_down p) = pd_term p" "pd_voted (step_down p) = pd_voted p" "pd_id (step_down p) = pd_id p"
  "length (pd_followers (step_down p)) = length (pd_followers p)" "pd_db (step_down p) = pd_db p"
  "rl_last_append (pd_log (step_down p)) = rl_last_append (pd_log p)"
  "rl_commited (pd_log p) \<le> rl_commited (pd_log (step_down p))"
  using stop_all_fields [of "[0..<length (pd_followers p)]" p] by (simp_all add: step_down_def stop_followers_def)

lemma Vote_cases:
  "Vote now r p = (True, p') \<Longrightarrow>
     pd_voted p' \<and> sint (pd_term p') = sint (rv_term r) \<and> sint (pd_term p) \<le> sint (rv_term r) \<and>
     (sint (pd_term p) = sint (rv_term r) \<longrightarrow> \<not> pd_voted p)"
  "Vote now r p = (False, p') \<Longrightarrow> p' = p\<lparr>pd_last_time := now\<rparr>"
  by (auto simp: Vote_def Let_def sint_scast step_down_fields split: if_splits)

lemma granted_increasing_from:
  "votes now rs p = (gs, p') \<Longrightarrow>
     sorted_wrt (<) (granted gs) \<and> (\<forall>t \<in> set (granted gs). sint (pd_term p) \<le> t) \<and>
     (pd_voted p \<longrightarrow> (\<forall>t \<in> set (granted gs). sint (pd_term p) < t))"
proof (induction rs arbitrary: p gs)
  case (Cons r rs)
  obtain g p1 where v: "Vote now r p = (g, p1)" by fastforce
  obtain hs where hs: "votes now rs p1 = (hs, p')" "gs = (g, sint (rv_term r)) # hs"
    using Cons.prems v by (auto simp: split: prod.splits)
  show ?case
  proof (cases g)
    case True
    have v': "Vote now r p = (True, p1)" using v True by simp
    have c: "pd_voted p1" "sint (pd_term p1) = sint (rv_term r)" "sint (pd_term p) \<le> sint (rv_term r)"
      "sint (pd_term p) = sint (rv_term r) \<longrightarrow> \<not> pd_voted p" using Vote_cases(1) [OF v'] by blast+
    have gs: "granted gs = sint (rv_term r) # granted hs" using hs(2) True by (simp add: granted_def)
    have ih: "sorted_wrt (<) (granted hs)" "\<forall>t \<in> set (granted hs). sint (rv_term r) < t"
      using Cons.IH [OF hs(1)] c(1,2) by auto
    show ?thesis unfolding gs using ih c(3,4) by (auto simp: order_le_less)
  next
    case False
    then have p1: "p1 = p\<lparr>pd_last_time := now\<rparr>" using Vote_cases(2) v by simp
    have "granted gs = granted hs" using hs(2) False by (simp add: granted_def)
    then show ?thesis using Cons.IH [OF hs(1)] p1 by simp
  qed
qed (simp add: granted_def)


section \<open>Pods only move up\<close>

definition pod_le :: "Pod \<Rightarrow> Pod \<Rightarrow> bool" where
  "pod_le p q =
     (pd_id q = pd_id p \<and> length (pd_followers q) = length (pd_followers p) \<and> sint (pd_term p) \<le> sint (pd_term q) \<and>
      rl_commited (pd_log p) \<le> rl_commited (pd_log q) \<and> rl_last_append (pd_log p) \<le> rl_last_append (pd_log q))"

lemma pod_le_refl [simp]: "pod_le p p" by (simp add: pod_le_def)

lemma pod_le_trans: "pod_le p q \<Longrightarrow> pod_le q r \<Longrightarrow> pod_le p r" by (auto simp: pod_le_def)

definition log_le :: "RaftLog \<Rightarrow> RaftLog \<Rightarrow> bool" where
  "log_le l l' = (rl_commited l \<le> rl_commited l' \<and> rl_last_append l \<le> rl_last_append l')"

lemma log_le_intros:
  "log_le l (log_UpdateCommit n l)"
  "log_le l (log_Reset n l)"
  "push_entry e l = Some (b, l') \<Longrightarrow> log_le l l'"
  "log_Put k v t l = Some (r, l') \<Longrightarrow> log_le l l'"
  by (auto simp: log_le_def log_UpdateCommit_def log_Reset_def push_entry_def log_Put_def Let_def split: bind_splits if_splits prod.splits)

lemma log_le_trans: "log_le l l' \<Longrightarrow> log_le l' l'' \<Longrightarrow> log_le l l''" by (auto simp: log_le_def)

lemma log_le_refl [simp]: "log_le l l" by (simp add: log_le_def)

lemma pod_le_log: "log_le (pd_log p) l \<Longrightarrow> pod_le p (p\<lparr>pd_log := l\<rparr>)" by (simp add: pod_le_def log_le_def)

lemma UpdateRaftLog_le: "UpdateRaftLog es n l = Some (c, l') \<Longrightarrow> log_le l l'"
proof -
  have put: "log_le l l'" if "log_PutEntry e (log_Reset m l) = Some (b, l')" for e m b l'
    using that log_le_intros(2,3) log_le_trans unfolding log_PutEntry_def by blast
  assume "UpdateRaftLog es n l = Some (c, l')"
  then show ?thesis
    by (auto simp: UpdateRaftLog_def log_PutEntry_def Let_def intro: log_le_intros(2,3) put [unfolded log_PutEntry_def]
        split: list.splits if_splits)
qed

lemma Vote_le: "Vote now r p = (g, p') \<Longrightarrow> pod_le p p' \<and> (pd_term p' = pd_term p \<or> sint (pd_term p') = sint (rv_term r))"
  using step_down_fields [of "p\<lparr>pd_last_time := now, pd_term := scast (rv_term r)\<rparr>"]
  by (auto simp: Vote_def pod_le_def Let_def sint_scast step_down_fields split: if_splits)

lemma append_election_le:
  "pod_le p (append_election req p) \<and> (pd_term (append_election req p) = pd_term p \<or> pd_term (append_election req p) = ap_term req)"
  using step_down_fields [of "p\<lparr>pd_term := ap_term req, pd_voted := False\<rparr>"]
  by (auto simp: append_election_def append_newer_def pod_le_def)

lemma SolveAppend_le:
  assumes "SolveAppend now req p = Some (c, p')"
  shows "pod_le p p' \<and> (pd_term p' = pd_term p \<or> pd_term p' = ap_term req)"
proof -
  define p1 where "p1 = append_election req (p\<lparr>pd_last_time := now\<rparr>)"
  define l1 where "l1 = log_UpdateCommit (ap_commited_index req) (pd_log p1)"
  have "pod_le (p\<lparr>pd_last_time := now\<rparr>) p1" "pd_term p1 = pd_term p \<or> pd_term p1 = ap_term req"
    using append_election_le [of "p\<lparr>pd_last_time := now\<rparr>" req] by (simp_all add: p1_def)
  then have p1: "pod_le p p1" "pd_term p1 = pd_term p \<or> pd_term p1 = ap_term req" by (simp_all add: pod_le_def)
  have "\<exists>l. p' = p1\<lparr>pd_log := l\<rparr> \<and> log_le l1 l"
    using assms UpdateRaftLog_le [of "ap_entrys req" "ap_commited_index req" l1]
    by (auto simp: SolveAppend_def Let_def p1_def [symmetric] l1_def [symmetric] split: if_splits)
  then obtain l where l: "p' = p1\<lparr>pd_log := l\<rparr>" "log_le l1 l" by blast
  have "log_le (pd_log p1) l" using log_le_trans [OF log_le_intros(1) l(2) [unfolded l1_def]] .
  then have "pod_le p1 p'" unfolding l(1) by (rule pod_le_log)
  then show ?thesis using p1 l(1) pod_le_trans by auto
qed

lemma Put_begin_le: "Put_begin k v p = Some (r, p') \<Longrightarrow> pod_le p p' \<and> pd_term p' = pd_term p"
  by (auto simp: Put_begin_def intro: pod_le_log log_le_intros(4) split: if_splits bind_splits)

lemma put_poll_le: "put_poll n p = Some p' \<Longrightarrow> pod_le p p' \<and> pd_term p' = pd_term p"
  by (auto simp: put_poll_def intro: pod_le_log log_le_intros(1) split: if_splits)

lemma le_Suc_word: "(w :: 64 word) < c \<Longrightarrow> w \<le> w + 1"
proof -
  assume "w < c"
  then have "unat w + 1 < 2 ^ 64" using unsigned_less [of c, where ?'a = nat] by (simp add: word_less_nat_alt)
  then have "unat (w + 1) = unat w + 1" by (simp add: unat_word_ariths)
  then show ?thesis by (simp add: word_le_nat_alt)
qed

lemma sync_take_le: "sync_take l = Some (Taken e l') \<Longrightarrow> log_le l l'"
proof -
  assume a: "sync_take l = Some (Taken e l')"
  then have "rl_last_append l < rl_commited l" "l' = l\<lparr>rl_last_append := rl_last_append l + 1\<rparr>"
    by (auto simp: sync_take_def split: if_splits bind_splits)
  then show ?thesis using le_Suc_word by (simp add: log_le_def)
qed

lemma pod_sync_le: "pod_sync p = Some p' \<Longrightarrow> pod_le p p' \<and> pd_term p' = pd_term p"
  by (auto simp: pod_sync_def sync_apply_def pod_le_def dest: sync_take_le [unfolded log_le_def]
      split: bind_splits sync_state.splits)

lemma RequestVote_end_le: "pod_le p (RequestVote_end p) \<and> pd_term (RequestVote_end p) = pd_term p"
  by (auto simp: RequestVote_end_def pod_le_def Let_def split: option.splits)

lemma RequestVote_next_le: "pod_le p (RequestVote_next b p) \<and> pd_term (RequestVote_next b p) = pd_term p"
  by (auto simp: RequestVote_next_def pod_le_def split: option.splits)

lemma append_reply_le: "pod_le p (append_reply c i p) \<and> pd_term (append_reply c i p) = pd_term p"
  by (simp add: append_reply_def commit_round_def pod_le_def log_UpdateCommit_def Let_def)

lemma append_retry_le: "pod_le p (append_retry i p) \<and> pd_term (append_retry i p) = pd_term p"
  by (simp add: append_retry_def pod_le_def)


section \<open>Steps of a cluster\<close>

text \<open>\<open>T\<close> bounds the terms, which stay within 31 bits.\<close>

definition terms_ok :: "int \<Rightarrow> Pod list \<Rightarrow> bool" where
  "terms_ok T ps = (T < 2 ^ 31 \<and> (\<forall>p \<in> set ps. 0 \<le> sint (pd_term p) \<and> sint (pd_term p) \<le> T))"

definition cluster_le :: "Pod list \<Rightarrow> Pod list \<Rightarrow> bool" where
  "cluster_le ps qs = list_all2 pod_le ps qs"

lemma cluster_le_refl [simp]: "cluster_le ps ps" by (simp add: cluster_le_def list_all2_refl)

lemma cluster_le_trans: "cluster_le ps qs \<Longrightarrow> cluster_le qs rs \<Longrightarrow> cluster_le ps rs"
  unfolding cluster_le_def by (rule list_all2_trans [OF pod_le_trans])

text \<open>One pod is replaced by a later state of it.\<close>

lemma cluster_update:
  assumes "i < length ps" "pod_le (ps ! i) q" "terms_ok T ps" "0 \<le> sint (pd_term q)" "sint (pd_term q) \<le> T"
  shows "cluster_le ps (ps[i := q]) \<and> terms_ok T (ps[i := q])"
proof
  show "cluster_le ps (ps[i := q])"
    unfolding cluster_le_def using assms(1,2) by (auto simp: list_all2_conv_all_nth nth_list_update)
  show "terms_ok T (ps[i := q])" using assms(3-5) set_update_subset_insert [of ps i q] by (auto simp: terms_ok_def)
qed

lemma terms_okD: "terms_ok T ps \<Longrightarrow> i < length ps \<Longrightarrow> 0 \<le> sint (pd_term (ps ! i)) \<and> sint (pd_term (ps ! i)) \<le> T \<and> sint (pd_term (ps ! i)) < 2 ^ 31"
  unfolding terms_ok_def using nth_mem by fastforce

lemma cluster_update_same:
  assumes "i < length ps" "pod_le (ps ! i) q \<and> pd_term q = pd_term (ps ! i)" "terms_ok T ps"
  shows "cluster_le ps (ps[i := q]) \<and> terms_ok T (ps[i := q])"
  using cluster_update [OF assms(1) _ assms(3)] assms(2) terms_okD [OF assms(3,1)] by auto

lemma sint_int32_of: "0 \<le> sint w \<Longrightarrow> sint w < 2 ^ 31 \<Longrightarrow> sint (int32_of w) = sint w"
proof -
  assume a: "0 \<le> sint w" "sint w < 2 ^ 31"
  have "sint (int32_of w) = signed_take_bit 31 (uint w)" by (simp add: int32_of_def signed_ucast_eq)
  also have "\<dots> = signed_take_bit 31 (sint w)" by (simp add: uint_sint signed_take_bit_take_bit)
  finally show ?thesis using a by (simp add: signed_take_bit_int_eq_self)
qed

lemma pod_pos_Some: "pod_pos ps x = Some j \<Longrightarrow> j < length ps"
  by (auto simp: pod_pos_def find_Some_iff)

lemma put_test_le:
  assumes "put_test dl j ps = Some qs" "j < length ps" "terms_ok T ps"
  shows "cluster_le ps qs \<and> terms_ok T qs \<and> length qs = length ps"
  using assms cluster_update_same [OF assms(2) _ assms(3)] Put_begin_le
  by (fastforce simp: put_test_def split: if_splits bind_splits)


lemma ask_vote_le:
  assumes "i < length ps" "j < length ps" "i \<noteq> j" "terms_ok T ps"
  shows "cluster_le ps (ask_vote i j now dl ps) \<and> terms_ok T (ask_vote i j now dl ps)"
proof -
  let ?p = "ps ! i"
  obtain g q where v: "Vote now (vote_request ?p) (ps ! j) = (g, q)" by fastforce
  note ti = terms_okD [OF assms(4,1)] and tj = terms_okD [OF assms(4,2)]
  have rv: "sint (rv_term (vote_request ?p)) = sint (pd_term ?p)" using ti by (simp add: vote_request_def sint_int32_of)
  have q: "cluster_le ps (ps[j := q]) \<and> terms_ok T (ps[j := q])"
    using cluster_update [OF assms(2) _ assms(4)] Vote_le [OF v] rv ti tj by auto
  have upd: "cluster_le (ps[j := q]) (ps[j := q, i := RequestVote_next b ?p]) \<and> terms_ok T (ps[j := q, i := RequestVote_next b ?p])" for b
    using cluster_update_same [of i "ps[j := q]" "RequestVote_next b ?p" T] assms(1,3) q RequestVote_next_le by simp
  have "cluster_le ps (ps[j := q, i := RequestVote_next b ?p]) \<and> terms_ok T (ps[j := q, i := RequestVote_next b ?p])" for b
    using upd [of b] q cluster_le_trans by blast
  moreover have "cluster_le ps (ps[i := RequestVote_next b ?p]) \<and> terms_ok T (ps[i := RequestVote_next b ?p])" for b
    using cluster_update_same [OF assms(1) RequestVote_next_le assms(4)] by simp
  moreover have "cluster_le ps (ps[i := ?p\<lparr>pd_ballot := None\<rparr>]) \<and> terms_ok T (ps[i := ?p\<lparr>pd_ballot := None\<rparr>])"
    using cluster_update_same [OF assms(1) _ assms(4), of "?p\<lparr>pd_ballot := None\<rparr>"] by (simp add: pod_le_def)
  ultimately show ?thesis
    using assms(3) v by (auto simp: ask_vote_def service_RequestVote_def Let_def)
qed

definition is_timeout :: "raft_event \<Rightarrow> bool" where
  "is_timeout e = (case e of Timeout _ _ \<Rightarrow> True | _ \<Rightarrow> False)"

lemma sint_Suc: "0 \<le> sint (w :: 64 word) \<Longrightarrow> sint w < 2 ^ 31 \<Longrightarrow> sint (w + 1) = sint w + 1"
  by (simp add: sint_word_ariths signed_take_bit_int_eq_self)

lemma append_target_le:
  assumes "j < length ps" "terms_ok T ps" "service_Append now req (ps ! j) = Some (r, q)"
    and "0 \<le> sint (ap_term req)" "sint (ap_term req) \<le> T"
  shows "cluster_le ps (ps[j := q]) \<and> terms_ok T (ps[j := q])"
proof -
  obtain c where "SolveAppend now req (ps ! j) = Some (c, q)" using assms(3) by (auto simp: service_Append_def)
  from SolveAppend_le [OF this] show ?thesis
    using cluster_update [OF assms(1) _ assms(2)] terms_okD [OF assms(2,1)] assms(4,5) by auto
qed

lemma send_entry_le:
  assumes "raft_step (SendEntry i n now dl) ps = Some qs" "terms_ok T ps"
  shows "cluster_le ps qs \<and> terms_ok T qs"
proof -
  let ?f = "pd_followers (ps ! i) ! n"
  obtain req where i: "i < length ps" and req: "append_request (ps ! i) ?f = Some req"
    using assms(1) by (auto split: if_splits bind_splits)
  have t0: "ap_term req = 0" using req by (auto simp: append_request_def split: bind_splits)
  have T: "0 \<le> T" using terms_okD [OF assms(2) i] by linarith
  show ?thesis
  proof (cases "dl = Dropped")
    case True
    then have "qs = ps[i := append_retry n (ps ! i)]" using assms(1) req by (auto split: if_splits)
    then show ?thesis using cluster_update_same [OF i append_retry_le assms(2)] by simp
  next
    case False
    obtain j r q where j: "pod_pos ps (ad_id (fo_addr ?f)) = Some j" "j \<noteq> i" and q: "service_Append now req (ps ! j) = Some (r, q)"
      and qs: "qs = ps[j := q, i := if dl = Delivered then append_reply (rp_code r) n (ps ! i) else append_retry n (ps ! i)]"
      using assms(1) req False by (auto simp: Let_def split: if_splits bind_splits)
    have a: "cluster_le ps (ps[j := q])" "terms_ok T (ps[j := q])"
      using append_target_le [OF pod_pos_Some [OF j(1)] assms(2) q] t0 T by simp_all
    have "pod_le (ps[j := q] ! i) x \<and> pd_term x = pd_term (ps[j := q] ! i)"
      if "x = (if dl = Delivered then append_reply (rp_code r) n (ps ! i) else append_retry n (ps ! i))" for x
      using j(2) append_reply_le append_retry_le that by simp
    from cluster_update_same [OF _ this [OF refl] a(2)] show ?thesis
      using a(1) i unfolding qs by (auto intro: cluster_le_trans)
  qed
qed

lemma send_heartbeat_le:
  assumes "raft_step (SendHeartbeat i n now dl) ps = Some qs" "terms_ok T ps"
  shows "cluster_le ps qs \<and> terms_ok T qs"
proof -
  let ?x = "ad_id (fo_addr (pd_followers (ps ! i) ! n))"
  have i: "i < length ps" using assms(1) by (auto split: if_splits)
  have hb: "sint (ap_term (heartbeat_request (ps ! i))) = sint (pd_term (ps ! i))"
    using terms_okD [OF assms(2) i] by (simp add: heartbeat_request_def sint_scast sint_int32_of)
  show ?thesis
  proof (cases "dl = Dropped")
    case True
    then show ?thesis using assms by (simp split: if_splits)
  next
    case False
    obtain j where j: "pod_pos ps ?x = Some j" using assms(1) False by (simp split: if_splits bind_splits)
    obtain r q where q: "service_Append now (heartbeat_request (ps ! i)) (ps ! j) = Some (r, q)" "qs = ps[j := q]"
      using assms(1) False j by (auto split: if_splits bind_splits)
    show ?thesis
      using append_target_le [OF pod_pos_Some [OF j] assms(2) q(1)] hb terms_okD [OF assms(2) i] q(2) by simp
  qed
qed

lemma raft_step_le:
  assumes "raft_step e ps = Some qs" "terms_ok T ps" "T + 1 < 2 ^ 31"
  shows "cluster_le ps qs \<and> terms_ok (if is_timeout e then T + 1 else T) qs"
proof (cases e)
  case (Timeout i now)
  then have i: "i < length ps" and qs: "qs = ps[i := RequestVote_begin (ps ! i)]" using assms(1) by (auto split: if_splits)
  have up: "terms_ok (T + 1) ps" using assms(2,3) by (auto simp: terms_ok_def)
  note t = terms_okD [OF assms(2) i]
  have "pod_le (ps ! i) (RequestVote_begin (ps ! i))" "sint (pd_term (RequestVote_begin (ps ! i))) = sint (pd_term (ps ! i)) + 1"
    using t by (simp_all add: RequestVote_begin_def pod_le_def sint_Suc)
  then show ?thesis using cluster_update [OF i _ up] t qs Timeout by (simp add: is_timeout_def)
next
  case (AskVote i now dt dv)
  then obtain x j ps1 where i: "i < length ps" and pos: "pod_pos ps x = Some j" "j \<noteq> i" and p1: "put_test dt j ps = Some ps1"
    and qs: "qs = ask_vote i j now dv ps1"
    using assms(1) by (auto split: if_splits option.splits bind_splits)
  have j: "j < length ps" "j \<noteq> i" using pod_pos_Some [OF pos(1)] pos(2) by simp_all
  note le = put_test_le [OF p1 j(1) assms(2)]
  have "i < length ps1" "j < length ps1" using le i j(1) by simp_all
  from ask_vote_le [OF this j(2) [symmetric], of T] show ?thesis using le qs AskVote cluster_le_trans by (auto simp: is_timeout_def)
next
  case (EndVote i)
  then show ?thesis using assms(1,2) cluster_update_same [of i ps, OF _ RequestVote_end_le assms(2)] by (auto simp: is_timeout_def split: if_splits)
next
  case (ClientPut i k v)
  then show ?thesis using assms(1,2) cluster_update_same [of i ps, OF _ Put_begin_le assms(2)]
    by (auto simp: is_timeout_def split: if_splits bind_splits)
next
  case (PollPut i m)
  then show ?thesis using assms(1,2) cluster_update_same [of i ps, OF _ put_poll_le assms(2)]
    by (auto simp: is_timeout_def split: if_splits bind_splits)
next
  case (SendEntry i n now dl)
  then show ?thesis using send_entry_le [of i n now dl ps qs T] assms(1,2) by (simp add: is_timeout_def)
next
  case (SendHeartbeat i n now dl)
  then show ?thesis using send_heartbeat_le [of i n now dl ps qs T] assms(1,2) by (simp add: is_timeout_def)
next
  case (ApplyEntry i)
  then show ?thesis using assms(1,2) cluster_update_same [of i ps, OF _ pod_sync_le assms(2)]
    by (auto simp: is_timeout_def split: if_splits bind_splits)
qed

end
