(* ===== verification/Raft_Theorems.thy ===== *)
theory Raft_Theorems
  imports Raft_Correct DB_Theorems
begin

text \<open>
  The properties of the replicated log and of the pods: what holds of the log under every sequence of operations
  that respects its contract, what a pod keeps, and the executions in which the cluster does not do what Raft
  promises.
\<close>

section \<open>The log\<close>

text \<open>
  C18: From an empty log opened at index \<open>S\<close>, every sequence of operations that respects the contract (an entry commits
  at most what the log then holds, a reset keeps the committed entries) returns, without an access out of the
  array.  The applied entries are the first entries of the log in their order, the number of applied entries is at
  most the commit index and this at most the length; \<^verbatim>\<open>At\<close> reads every entry, and the log takes no entry beyond
  262143, since nothing is removed from its front.
\<close>
theorem raft_log_applies_in_order:
  assumes "start_ok S" "log_ops_ok S rs alog_new" "a = fold (alog_exec S) rs alog_new"
  shows "\<exists>l tr. log_run rs (log_at (of_nat S), []) = Some (l, tr) \<and> tr = take (al_applied a) (al_entries a) \<and>
    unat (rl_index l) = S + length (al_entries a) \<and> unat (rl_commited l) = S + al_commit a \<and>
    unat (rl_last_append l) = S + al_applied a \<and> al_applied a \<le> al_commit a \<and> al_commit a \<le> length (al_entries a) \<and>
    length (al_entries a) < ring_buffer_size \<and>
    (\<forall>i. i < length (al_entries a) \<longrightarrow> log_At (of_nat (S + i + 1)) l = Some (al_entries a ! i))"
proof -
  have "trace_ok S (log_at (of_nat S), []) alog_new"
    using log_rep_new [OF assms(1)] by (simp add: trace_ok_def alog_new_def log_at_def)
  from log_run_ok [OF this assms(2)] obtain l tr where r: "log_run rs (log_at (of_nat S), []) = Some (l, tr)"
    "trace_ok S (l, tr) a" unfolding assms(3) by force
  then have rep: "log_rep S l a" "tr = take (al_applied a) (al_entries a)" by (simp_all add: trace_ok_def)
  then show ?thesis using r(1) log_At_rep [OF rep(1)] log_rep_length [OF rep(1)] unfolding log_rep_def by blast
qed

definition entry_of :: "nat \<Rightarrow> string \<Rightarrow> nat \<Rightarrow> Entry" where
  "entry_of i k c = \<lparr>en_term = 1, en_index = of_nat i, en_key = k, en_value = ''v'', en_mode = 0, en_commited = of_nat c\<rparr>"

definition log_requests :: "log_op list" where
  "log_requests = [LPut ''a'' ''v'' 1, LEntry (entry_of 12 ''b'' 11), LSync, LSync, LReset 11, LEntry (entry_of 12 ''c'' 12), LSync]"

lemma log_requests_ok:
  "start_ok 10" "log_ops_ok 10 log_requests alog_new"
  "fold (alog_exec 10) log_requests alog_new =
     \<lparr>al_entries = [new_entry 11 ''a'' ''v'' 1, entry_of 12 ''c'' 12], al_commit = 2, al_applied = 2\<rparr>"
  by (simp_all add: start_ok_def ring_buffer_size_def log_requests_def alog_new_def alog_push_def log_full_def entry_of_def
      new_entry_def size_of_int32_def)

theorem raft_log_applies_in_order_witness:
  "\<exists>l. log_run log_requests (log_at 10, []) = Some (l, [new_entry 11 ''a'' ''v'' 1, entry_of 12 ''c'' 12])"
  using raft_log_applies_in_order [OF log_requests_ok(1,2) log_requests_ok(3) [symmetric]] by auto

text \<open>
  C19: Committed entries are final: whatever operations follow within the contract, \<^verbatim>\<open>At\<close> reads the same entry at every
  index up to the old commit index, and the commit index does not decrease.
\<close>
theorem raft_log_committed_stable:
  assumes "start_ok S" "log_ops_ok S (rs @ rs') alog_new"
    and "log_run rs (log_at (of_nat S), []) = Some (l, tr)" "log_run rs' (l, tr) = Some (l', tr')"
    and "S < i" "i \<le> unat (rl_commited l)"
  shows "log_At (of_nat i) l' = log_At (of_nat i) l \<and> log_At (of_nat i) l \<noteq> None \<and> rl_commited l \<le> rl_commited l'"
proof -
  let ?a = "fold (alog_exec S) rs alog_new" and ?a' = "fold (alog_exec S) (rs @ rs') alog_new"
  have ok: "log_ops_ok S rs alog_new" "log_ops_ok S rs' ?a" using assms(2) by (simp_all add: log_ops_ok_append)
  have "trace_ok S (log_at (of_nat S), []) alog_new"
    using log_rep_new [OF assms(1)] by (simp add: trace_ok_def alog_new_def log_at_def)
  from log_run_ok [OF this ok(1)] have t: "trace_ok S (l, tr) ?a" using assms(3) by auto
  from log_run_ok [OF this ok(2)] have t': "trace_ok S (l', tr') ?a'" using assms(4) by auto
  have rep: "log_rep S l ?a" "log_rep S l' ?a'" using t t' by (simp_all add: trace_ok_def)
  have st: "take (al_commit ?a) (al_entries ?a') = take (al_commit ?a) (al_entries ?a)" "al_commit ?a \<le> al_commit ?a'"
    "al_commit ?a \<le> length (al_entries ?a')" using committed_stable [OF t ok(2)] unfolding fold_append o_apply by blast+
  define n where "n = i - S - 1"
  have "unat (rl_commited l) = S + al_commit ?a" using rep(1) by (simp add: log_rep_def)
  then have n: "i = S + n + 1" "n < al_commit ?a" using assms(5,6) by (simp_all add: n_def)
  have len: "n < length (al_entries ?a)" "n < length (al_entries ?a')" using n(2) st(3) rep(1) by (auto simp: log_rep_def)
  have "al_entries ?a' ! n = al_entries ?a ! n" using n(2) st(1) by (metis nth_take)
  then have "log_At (of_nat i) l' = log_At (of_nat i) l \<and> log_At (of_nat i) l \<noteq> None"
    unfolding n(1) log_At_rep [OF rep(1) len(1)] log_At_rep [OF rep(2) len(2)] by simp
  moreover have "rl_commited l \<le> rl_commited l'" using st(2) rep by (simp add: log_rep_def word_le_nat_alt)
  ultimately show ?thesis by blast
qed

lemma log_requests_split: "log_requests = take 4 log_requests @ drop 4 log_requests" by simp

theorem raft_log_committed_stable_witness:
  "\<exists>l tr l' tr'. log_run (take 4 log_requests) (log_at 10, []) = Some (l, tr) \<and> log_run (drop 4 log_requests) (l, tr) = Some (l', tr') \<and>
     log_At 11 l' = log_At 11 l \<and> log_At 11 l \<noteq> None"
proof -
  have ok: "log_ops_ok 10 (take 4 log_requests @ drop 4 log_requests) alog_new" using log_requests_ok(2) by simp
  note defs = log_requests_def log_at_def log_Put_def log_PutEntry_def push_entry_def ring_PushBack_def ring_new_def
    ring_buffer_size_def entry_of_def size_of_int32_def sync_take_def ring_At_def slot_def log_Reset_def ring_Truncate_def
  obtain l tr l' tr' where l: "log_run (take 4 log_requests) (log_at 10, []) = Some (l, tr)" "rl_commited l = 11"
    and l': "log_run (drop 4 log_requests) (l, tr) = Some (l', tr')"
    by (simp add: defs Let_def)
  have "log_At (of_nat 11) l' = log_At (of_nat 11) l \<and> log_At (of_nat 11) l \<noteq> None \<and> rl_commited l \<le> rl_commited l'"
    by (rule raft_log_committed_stable [OF log_requests_ok(1) ok _ l']) (use l in auto)
  then show ?thesis using l(1) l' by auto
qed


text \<open>
  C20: Closing a log applies all committed entries to the database and stores the commit index; opening the file again
  yields an empty log at that index.  Entries that were not committed are gone.
\<close>
theorem raft_log_reopen:
  assumes "log_rep S l a" "db_view env N d m"
  shows "\<exists>meta d'. log_close (l, d) = Some (meta, d') \<and> log_open (Some meta) = Some (log_at (rl_commited l)) \<and>
    db_view env N d' (fold entry_map (take (al_commit a - al_applied a) (drop (al_applied a) (al_entries a))) m)"
  using assms by (rule log_close_ok)

lemma example_log:
  obtains l where "log_rep 10 l \<lparr>al_entries = [new_entry 11 ''a'' ''v'' 1, entry_of 12 ''b'' 12, new_entry 13 ''c'' ''v'' 1], al_commit = 2, al_applied = 1\<rparr>"
    "rl_commited l = 12"
proof -
  let ?rs = "[LPut ''a'' ''v'' 1, LEntry (entry_of 12 ''b'' 12), LPut ''c'' ''v'' 1, LSync]"
  have "trace_ok 10 (log_at (of_nat 10), []) alog_new"
    using log_rep_new [OF log_requests_ok(1)] by (simp add: trace_ok_def alog_new_def log_at_def)
  moreover have "log_ops_ok 10 ?rs alog_new"
    by (simp add: alog_new_def alog_push_def log_full_def entry_of_def new_entry_def size_of_int32_def ring_buffer_size_def)
  ultimately obtain s where s: "trace_ok 10 s (fold (alog_exec 10) ?rs alog_new)" using log_run_ok by blast
  have "fold (alog_exec 10) ?rs alog_new =
      \<lparr>al_entries = [new_entry 11 ''a'' ''v'' 1, entry_of 12 ''b'' 12, new_entry 13 ''c'' ''v'' 1], al_commit = 2, al_applied = 1\<rparr>"
    by (simp add: alog_new_def alog_push_def log_full_def entry_of_def new_entry_def size_of_int32_def ring_buffer_size_def)
  then have rep: "log_rep 10 (fst s) \<lparr>al_entries = [new_entry 11 ''a'' ''v'' 1, entry_of 12 ''b'' 12, new_entry 13 ''c'' ''v'' 1], al_commit = 2, al_applied = 1\<rparr>"
    using s by (simp add: trace_ok_def)
  then have "unat (rl_commited (fst s)) = unat (12 :: 64 word)" by (simp add: log_rep_def)
  then have "rl_commited (fst s) = 12" by (simp only: word_unat_eq_iff)
  then show thesis using that rep by blast
qed

lemma example_view: obtains d where "db_view example_env 0 d Map.empty"
proof -
  obtain d where "db_open example_env (example_config True 1) (Map.empty, None, 0) = Some d" using db_open_fresh by metis
  then have "db_rep example_env 0 {} d Map.empty" by (rule db_rep_open)
  then show thesis using that unfolding db_view_def by blast
qed

theorem raft_log_reopen_witness:
  "\<exists>l d meta d'. log_close (l, d) = Some (meta, d') \<and> log_open (Some meta) = Some (log_at 12) \<and>
     db_view example_env 0 d' [''b'' \<mapsto> ''v'']"
proof -
  obtain l where l: "log_rep 10 l \<lparr>al_entries = [new_entry 11 ''a'' ''v'' 1, entry_of 12 ''b'' 12, new_entry 13 ''c'' ''v'' 1], al_commit = 2, al_applied = 1\<rparr>"
    "rl_commited l = 12" using example_log .
  obtain d where d: "db_view example_env 0 d Map.empty" using example_view .
  from raft_log_reopen [OF l(1) d] l(2) show ?thesis by (simp add: entry_map_def entry_of_def) blast
qed

text \<open>
  Outside of the contract: a follower that is behind receives its next entry together with the commit index of the
  leader, takes this as its own, and the applying thread writes entries that were never received (the default
  message, an empty key and value).  When the real entries arrive, they are not applied any more.
\<close>
theorem follower_applies_missing_entries:
  "\<exists>l. log_run [LEntry (entry_of 1 ''a'' 3), LSync, LSync, LSync, LEntry (entry_of 2 ''b'' 3), LEntry (entry_of 3 ''c'' 3), LSync] (log_at 0, []) =
       Some (l, [entry_of 1 ''a'' 3, default_entry, default_entry]) \<and>
     log_At 2 l = Some (entry_of 2 ''b'' 3) \<and> rl_last_append l = rl_index l"
  by (simp add: log_at_def log_PutEntry_def push_entry_def ring_PushBack_def ring_new_def ring_buffer_size_def
      entry_of_def size_of_int32_def sync_take_def ring_At_def slot_def default_entry_def log_At_def ring_RAt_def Let_def)

section \<open>Pods\<close>

text \<open>
  C21: In every execution of a cluster, with any loss of calls and replies, each pod keeps its identity and its peers, and
  its term, its commit index and its number of applied entries never decrease (as long as the terms stay within
  31 bits, the width in which the votes carry them).
\<close>
theorem raft_monotone:
  assumes "raft_run es ps = Some qs" "\<forall>p \<in> set ps. 0 \<le> sint (pd_term p) \<and> sint (pd_term p) \<le> T"
    and "0 \<le> T" "T + int (length es) < 2 ^ 31"
  shows "length qs = length ps \<and> (\<forall>i < length ps. pod_le (ps ! i) (qs ! i))"
proof -
  have "cluster_le ps qs" if "raft_run es ps = Some qs" "terms_ok T ps" "T + int (length es) < 2 ^ 31" for es ps T
    using that
  proof (induction es arbitrary: ps T)
    case (Cons e es)
    obtain ps1 where s: "raft_step e ps = Some ps1" "raft_run es ps1 = Some qs" using Cons.prems(1) by (auto split: bind_splits)
    have "T + 1 < 2 ^ 31" using Cons.prems(3) by simp
    from raft_step_le [OF s(1) Cons.prems(2) this] have le: "cluster_le ps ps1" "terms_ok (if is_timeout e then T + 1 else T) ps1" by simp_all
    have "cluster_le ps1 qs" using Cons.IH [OF s(2) le(2)] Cons.prems(3) by (simp split: if_splits)
    then show ?case using le(1) cluster_le_trans by blast
  qed simp
  then have "cluster_le ps qs" using assms by (simp add: terms_ok_def)
  then show ?thesis by (simp add: cluster_le_def list_all2_conv_all_nth)
qed


definition trio_addresses :: "Address list" where
  "trio_addresses = [\<lparr>ad_id = 1, ad_ip = ''a'', ad_port = 9001\<rparr>, \<lparr>ad_id = 2, ad_ip = ''b'', ad_port = 9002\<rparr>, \<lparr>ad_id = 3, ad_ip = ''c'', ad_port = 9003\<rparr>]"

definition trio :: "DB \<Rightarrow> Pod list" where
  "trio d = map (\<lambda>i. pod_new i trio_addresses (log_at 0) d 0) [1, 2, 3]"

definition two_elections :: "raft_event list" where
  "two_elections =
     [Timeout 0 5000, Timeout 1 5000, AskVote 0 5000 Delivered Delivered, AskVote 0 5000 Dropped Dropped, EndVote 0,
      AskVote 1 5000 Dropped Delivered, AskVote 1 5000 Dropped Dropped, EndVote 1]"

lemma pod_pos_trio:
  "pod_pos [p, q, r] x = (if pd_id p = x then Some 0 else if pd_id q = x then Some 1 else if pd_id r = x then Some 2 else None)"
  by (simp add: pod_pos_def upt_rec)

lemmas pod_exec_defs = trio_def trio_addresses_def pod_new_def follower_new_def pod_pos_trio timed_out_def RequestVote_begin_def
  put_test_def Put_begin_def redirect_def FindLeaderAddress_def ask_vote_def service_RequestVote_def vote_request_def
  RequestVote_next_def RequestVote_end_def run_follower_def reply_def int32_of_def size_of_int32_def

text \<open>
  Two leaders in one term: a candidate does not mark its own vote as given, so that it votes for another candidate
  of the same term and both reach a majority.  The execution of three pods shows it: two pods time out together,
  the first is elected with the vote of the second, then the second with the vote of the first.
\<close>
theorem two_leaders_in_one_term:
  "\<forall>d. \<exists>qs. raft_run two_elections (trio d) = Some qs \<and>
     pd_status (qs ! 0) = Leader \<and> pd_status (qs ! 1) = Leader \<and> pd_term (qs ! 0) = pd_term (qs ! 1) \<and> pd_id (qs ! 0) \<noteq> pd_id (qs ! 1)"
  by (simp add: two_elections_def pod_exec_defs Vote_def log_at_def Let_def)

theorem raft_monotone_witness:
  "\<forall>d. \<exists>qs. raft_run (take 2 two_elections) (trio d) = Some qs \<and> pod_le (trio d ! 0) (qs ! 0)"
proof
  fix d
  obtain qs where qs: "raft_run (take 2 two_elections) (trio d) = Some qs"
    by (simp add: two_elections_def pod_exec_defs log_at_def Let_def)
  have "\<forall>p \<in> set (trio d). 0 \<le> sint (pd_term p) \<and> sint (pd_term p) \<le> 0" by (simp add: trio_def pod_new_def)
  from raft_monotone [OF qs this] have "\<forall>i < length (trio d). pod_le (trio d ! i) (qs ! i)" by (simp add: two_elections_def)
  moreover have "0 < length (trio d)" by (simp add: trio_def)
  ultimately have "pod_le (trio d ! 0) (qs ! 0)" by blast
  then show "\<exists>qs. raft_run (take 2 two_elections) (trio d) = Some qs \<and> pod_le (trio d ! 0) (qs ! 0)" using qs by blast
qed

text \<open>
  C22: A pod that handles any sequence of vote requests grants them for strictly increasing terms, all at least its own:
  between two entries it never votes twice in a term and never for a lower one.
\<close>
theorem votes_increase:
  "sorted_wrt (<) (granted (fst (votes now rs p))) \<and> (\<forall>t. t \<in> set (granted (fst (votes now rs p))) \<longrightarrow> sint (pd_term p) \<le> t)"
  using granted_increasing_from [of now rs p] by (metis prod.collapse)

definition vote_requests :: "RequestVoteReq list" where
  "vote_requests = [\<lparr>rv_id = 2, rv_term = 3, rv_index = 0\<rparr>, \<lparr>rv_id = 3, rv_term = 3, rv_index = 0\<rparr>, \<lparr>rv_id = 3, rv_term = 4, rv_index = 0\<rparr>]"

theorem votes_increase_witness:
  "\<forall>d. granted (fst (votes 7 vote_requests (trio d ! 0))) = [3, 4] \<and> sint (pd_term (trio d ! 0)) \<le> 3 \<and> sorted_wrt (<) [3, 4 :: int]"
proof
  fix d
  have "granted (fst (votes 7 vote_requests (trio d ! 0))) = [3, 4]"
    by (simp add: vote_requests_def granted_def pod_exec_defs Vote_def step_down_def log_at_def Let_def)
  then show "granted (fst (votes 7 vote_requests (trio d ! 0))) = [3, 4] \<and> sint (pd_term (trio d ! 0)) \<le> 3 \<and> sorted_wrt (<) [3, 4 :: int]"
    using votes_increase [of 7 vote_requests "trio d ! 0"] by simp
qed

text \<open>
  C23: An entry from the leader (which sends neither its term nor its commit index with it): the reply is 0 and the entry
  is stored when its index follows the last one, -2 and the log is unchanged otherwise, -3 for more than one entry.
  A full log drops the entry and still replies 0.
\<close>
theorem append_replies:
  assumes "log_rep S (pd_log p) a" "\<not> rl_stop (pd_log p)" "ap_commited_index req = 0"
  shows "(ap_entrys req = [e] \<longrightarrow> size_of_int32 (en_index e) = rl_index (pd_log p) + 1 \<longrightarrow>
      sint (ap_term req) < sint (pd_term p) \<longrightarrow>
      unat (size_of_int32 (en_commited e)) \<le> S + length (al_entries a) + 1 \<longrightarrow>
      (\<exists>p'. SolveAppend now req p = Some (0, p') \<and> log_rep S (pd_log p') (alog_push S e a) \<and>
        (log_full a \<longrightarrow> pd_log p' = pd_log p))) \<and>
    (ap_entrys req = [e] \<longrightarrow> size_of_int32 (en_index e) \<noteq> rl_index (pd_log p) + 1 \<longrightarrow> sint (ap_term req) < sint (pd_term p) \<longrightarrow>
      SolveAppend now req p = Some (- 2, p\<lparr>pd_last_time := now\<rparr>)) \<and>
    (2 \<le> length (ap_entrys req) \<longrightarrow> map_option fst (SolveAppend now req p) = Some (- 3))"
proof (intro conjI impI)
  have uc: "log_UpdateCommit 0 (pd_log p) = pd_log p" by (simp add: log_UpdateCommit_def max_def)
  have el: "append_election req (p\<lparr>pd_last_time := now\<rparr>) = p\<lparr>pd_last_time := now\<rparr>" if "sint (ap_term req) < sint (pd_term p)"
    using that by (auto simp: append_election_def append_newer_def)
  {
    assume e: "ap_entrys req = [e]" "size_of_int32 (en_index e) = rl_index (pd_log p) + 1" "sint (ap_term req) < sint (pd_term p)"
      "unat (size_of_int32 (en_commited e)) \<le> S + length (al_entries a) + 1"
    obtain l' where l': "push_entry e (pd_log p) = Some (\<not> log_full a, l')" "log_rep S l' (alog_push S e a)"
      using push_entry_rep [OF assms(1,2) e(4)] by blast
    have "log_full a \<longrightarrow> l' = pd_log p" using l'(1) by (auto simp: push_entry_def Let_def split: if_splits bind_splits)
    moreover have "SolveAppend now req p = Some (0, p\<lparr>pd_last_time := now, pd_log := l'\<rparr>)"
      using e(1,2) l'(1) assms(3) uc by (simp add: SolveAppend_def el [OF e(3)] UpdateRaftLog_def log_PutEntry_def Let_def)
    ultimately show "\<exists>p'. SolveAppend now req p = Some (0, p') \<and> log_rep S (pd_log p') (alog_push S e a) \<and> (log_full a \<longrightarrow> pd_log p' = pd_log p)"
      using l'(2) by (intro exI [of _ "p\<lparr>pd_last_time := now, pd_log := l'\<rparr>"]) simp
  next
    assume e: "ap_entrys req = [e]" "size_of_int32 (en_index e) \<noteq> rl_index (pd_log p) + 1" "sint (ap_term req) < sint (pd_term p)"
    then show "SolveAppend now req p = Some (- 2, p\<lparr>pd_last_time := now\<rparr>)"
      using assms(3) uc by (simp add: SolveAppend_def el [OF e(3)] UpdateRaftLog_def Let_def)
  next
    assume "2 \<le> length (ap_entrys req)"
    then obtain x y zs where "ap_entrys req = x # y # zs" by (metis One_nat_def Suc_1 Suc_le_length_iff)
    then show "map_option fst (SolveAppend now req p) = Some (- 3)" by (simp add: SolveAppend_def UpdateRaftLog_def Let_def)
  }
qed


theorem append_replies_witness:
  "\<forall>d. \<exists>p'. SolveAppend 9 \<lparr>ap_term = 0, ap_commited_index = 0, ap_id = 2, ap_entrys = [entry_of 1 ''a'' 0]\<rparr>
       ((trio d ! 0)\<lparr>pd_term := 1\<rparr>) = Some (0, p') \<and> log_rep 0 (pd_log p') (alog_push 0 (entry_of 1 ''a'' 0) alog_new)"
proof
  fix d
  let ?p = "(trio d ! 0)\<lparr>pd_term := 1\<rparr>" and ?req = "\<lparr>ap_term = 0, ap_commited_index = 0, ap_id = 2, ap_entrys = [entry_of 1 ''a'' 0]\<rparr>"
  have "log_rep 0 (log_at (of_nat 0)) alog_new" by (rule log_rep_new) (simp add: start_ok_def ring_buffer_size_def)
  then have r: "log_rep 0 (pd_log ?p) alog_new" "\<not> rl_stop (pd_log ?p)" "pd_log ?p = log_at 0" "pd_term ?p = 1"
    by (simp_all add: trio_def pod_new_def log_at_def)
  show "\<exists>p'. SolveAppend 9 ?req ?p = Some (0, p') \<and> log_rep 0 (pd_log p') (alog_push 0 (entry_of 1 ''a'' 0) alog_new)"
    using append_replies [OF r(1,2), of ?req "entry_of 1 ''a'' 0" 9] r(3,4)
    by (auto simp: entry_of_def size_of_int32_def log_at_def)
qed

text \<open>
  A client that has put an entry waits until a peer has acknowledged a later entry: as long as no peer is past the
  index, a pod with peers does not answer, even when the entry is committed and applied.
\<close>
theorem put_waits_for_next_entry:
  assumes "pd_followers p \<noteq> []" "\<forall>f \<in> set (pd_followers p). fo_nextindex f \<le> now_idx"
  shows "put_poll now_idx p = None"
proof -
  have none: "filter (\<lambda>f. now_idx < fo_nextindex f) (pd_followers p) = []" using assms(2) by (simp add: filter_empty_conv not_less)
  obtain n where "length (pd_followers p) = Suc n" using assms(1) by (metis length_0_conv not0_implies_Suc)
  then show ?thesis unfolding put_poll_def put_quorum_def none by simp
qed

definition replicated_put :: "raft_event list" where
  "replicated_put =
     [Timeout 0 5000, AskVote 0 5000 Delivered Delivered, AskVote 0 5000 Delivered Delivered, EndVote 0, ClientPut 0 ''k'' ''v'',
      SendEntry 0 0 5000 Delivered, SendEntry 0 1 5000 Delivered]"

theorem put_waits_for_next_entry_witness:
  "\<forall>d. \<exists>qs. raft_run replicated_put (trio d) = Some qs \<and> rl_commited (pd_log (qs ! 0)) = 1 \<and> rl_index (pd_log (qs ! 1)) = 1 \<and>
     rl_index (pd_log (qs ! 2)) = 1 \<and> put_poll 1 (qs ! 0) = None"
proof
  fix d
  obtain qs where qs: "raft_run replicated_put (trio d) = Some qs" "rl_commited (pd_log (qs ! 0)) = 1"
    "rl_index (pd_log (qs ! 1)) = 1" "rl_index (pd_log (qs ! 2)) = 1"
    "map fo_nextindex (pd_followers (qs ! 0)) = [1, 1]"
    by (simp add: replicated_put_def pod_exec_defs Vote_def step_down_def stop_followers_def append_ready_def append_request_def log_At_def ring_RAt_def slot_def
        service_Append_def SolveAppend_def append_election_def append_newer_def log_UpdateCommit_def UpdateRaftLog_def
        log_PutEntry_def log_Put_def push_entry_def ring_PushBack_def ring_new_def ring_buffer_size_def default_entry_def
        append_reply_def commit_round_def commit_quorum_def other_followers_def log_at_def Let_def)
  have "pd_followers (qs ! 0) \<noteq> []" using qs(5) by auto
  moreover have "\<forall>f \<in> set (pd_followers (qs ! 0)). fo_nextindex f \<le> 1"
  proof
    fix f
    assume "f \<in> set (pd_followers (qs ! 0))"
    then have "fo_nextindex f \<in> set (map fo_nextindex (pd_followers (qs ! 0)))" by simp
    then show "fo_nextindex f \<le> 1" unfolding qs(5) by simp
  qed
  ultimately show "\<exists>qs. raft_run replicated_put (trio d) = Some qs \<and> rl_commited (pd_log (qs ! 0)) = 1 \<and> rl_index (pd_log (qs ! 1)) = 1 \<and>
     rl_index (pd_log (qs ! 2)) = 1 \<and> put_poll 1 (qs ! 0) = None"
    using put_waits_for_next_entry qs(1-4) by blast
qed


text \<open>
  A pod that serves alone: it has no peers, is leader, its log has room for \<open>n\<close> more entries and is applied, and its database
  holds the map \<open>m\<close>.
\<close>

definition serves_alone :: "'c sst_env \<Rightarrow> nat \<Rightarrow> nat \<Rightarrow> Pod \<Rightarrow> (string \<rightharpoonup> string) \<Rightarrow> bool" where
  "serves_alone env N n p m =
     (pd_followers p = [] \<and> pd_status p = Leader \<and> \<not> rl_stop (pd_log p) \<and> db_view env N (pd_db p) m \<and>
      (\<exists>S a. log_rep S (pd_log p) a \<and> al_applied a = length (al_entries a) \<and> length (al_entries a) + n < ring_buffer_size))"

lemma single_node_steps:
  assumes "serves_alone env N (Suc n) p m"
  obtains i p1 p2 p3 where "Put_begin k v p = Some (Inr i, p1)" "put_poll i p1 = Some p2" "pod_sync p2 = Some p3"
    "put_end i p3 = Some (reply 0)" "serves_alone env N n p3 (m(k \<mapsto> v))"
proof -
  from assms obtain S a where p: "pd_followers p = []" "pd_status p = Leader" "\<not> rl_stop (pd_log p)" "db_view env N (pd_db p) m"
    and rep: "log_rep S (pd_log p) a" and app: "al_applied a = length (al_entries a)" and room: "length (al_entries a) + Suc n < ring_buffer_size"
    by (auto simp: serves_alone_def)
  let ?i = "S + length (al_entries a) + 1"
  let ?e = "new_entry ?i k v (pd_term p)"
  let ?a = "a\<lparr>al_entries := al_entries a @ [?e], al_commit := length (al_entries a) + 1, al_applied := al_applied a + 1\<rparr>"
  have full: "\<not> log_full a" using room by (simp add: log_full_def)
  have com: "al_commit a = length (al_entries a)" "al_applied a = al_commit a" using rep app by (auto simp: log_rep_def)
  obtain l1 where l1: "log_Put k v (pd_term p) (pd_log p) = Some (Some (of_nat ?i), l1)" "log_rep S l1 (alog_exec S (LPut k v (pd_term p)) a)" "\<not> rl_stop l1"
    using log_Put_rep [OF rep p(3), of k v "pd_term p"] full by auto
  have a1: "alog_exec S (LPut k v (pd_term p)) a = a\<lparr>al_entries := al_entries a @ [?e]\<rparr>"
    using full by (simp add: alog_push_def) (simp add: new_entry_def size_of_int32_def)
  define p1 where "p1 = p\<lparr>pd_log := l1\<rparr>"
  have start: "Put_begin k v p = Some (Inr (of_nat ?i), p1)" using p(2) l1(1) by (simp add: Put_begin_def p1_def)
  define l2 where "l2 = log_UpdateCommit (of_nat ?i) l1"
  have "?i \<le> S + ring_buffer_size" using log_rep_length [OF rep] by simp
  then have n: "unat (of_nat ?i :: 64 word) = ?i" by (rule word_of_index [OF rep])
  have rep2: "log_rep S l2 (a\<lparr>al_entries := al_entries a @ [?e], al_commit := length (al_entries a) + 1\<rparr>)"
    using log_UpdateCommit_rep [OF l1(2), of "of_nat ?i"] n com unfolding a1 l2_def by simp
  have poll: "put_poll (of_nat ?i) p1 = Some (p1\<lparr>pd_log := l2\<rparr>)" using p(1) by (simp add: put_poll_def put_quorum_def p1_def l2_def)
  obtain l3 where l3: "sync_take l2 = Some (Taken ?e l3)" "log_rep S l3 ?a" using sync_take_rep [OF rep2] com by auto
  have stop: "\<not> rl_stop l3" using l3(1) l1(3) by (auto simp: l2_def log_UpdateCommit_def sync_take_def Let_def split: if_splits option.splits bind_splits)
  obtain d' where d': "db_Put k v (pd_db p) = Some d'" "db_view env N d' (m(k \<mapsto> v))" using raft_sink.put_ok [OF p(4)] by blast
  define p3 where "p3 = p1\<lparr>pd_log := l3, pd_db := d'\<rparr>"
  have sync: "pod_sync (p1\<lparr>pd_log := l2\<rparr>) = Some p3"
    using l3(1) d'(1) by (simp add: pod_sync_def sync_apply_def p3_def p1_def new_entry_def)
  have fin: "put_end (of_nat ?i) p3 = Some (reply 0)"
    using l3(2) n com by (simp add: put_end_def log_applied_def p3_def log_rep_def word_le_nat_alt)
  have "al_applied ?a = length (al_entries ?a)" "length (al_entries ?a) + n < ring_buffer_size" using app room by simp_all
  with l3(2) have "\<exists>S a. log_rep S l3 a \<and> al_applied a = length (al_entries a) \<and> length (al_entries a) + n < ring_buffer_size" by blast
  then have "serves_alone env N n p3 (m(k \<mapsto> v))"
    using p(1,2) stop d'(2) by (simp add: serves_alone_def p3_def p1_def)
  from that [OF start poll sync fin this] show thesis .
qed

lemma serves_alone_Get:
  "serves_alone env N n p m \<Longrightarrow> pod_Get k fl p = Some (case visible (m k) of None \<Rightarrow> reply 1 | Some w \<Rightarrow> (reply 0)\<lparr>rp_value := w\<rparr>)"
  using db_rep_Get unfolding serves_alone_def db_view_def by (fastforce simp: pod_Get_def)

text \<open>
  A pod without peers that is leader: a put is stored in the log, committed at once, applied by the log's thread to
  the database and acknowledged with code 0; then the database holds the new map and a read returns the value
  (unless it is the tombstone).
\<close>
theorem single_node_put:
  assumes "pd_followers p = []" "pd_status p = Leader" "log_rep S (pd_log p) a" "\<not> rl_stop (pd_log p)" "\<not> log_full a"
    and "al_applied a = length (al_entries a)" "db_view env N (pd_db p) m"
  shows "\<exists>i p1 p2 p3. Put_begin k v p = Some (Inr i, p1) \<and> put_poll i p1 = Some p2 \<and> pod_sync p2 = Some p3 \<and>
    put_end i p3 = Some (reply 0) \<and> db_view env N (pd_db p3) (m(k \<mapsto> v)) \<and>
    pod_Get k fl p3 = Some (if v = TombstoneValue then reply 1 else (reply 0)\<lparr>rp_value := v\<rparr>)"
proof -
  have "length (al_entries a) + Suc 0 < ring_buffer_size" using assms(5) log_rep_length [OF assms(3)] by (simp add: log_full_def)
  then have "serves_alone env N (Suc 0) p m" using assms unfolding serves_alone_def by auto
  from single_node_steps [OF this] obtain i p1 p2 p3 where "Put_begin k v p = Some (Inr i, p1)" "put_poll i p1 = Some p2" "pod_sync p2 = Some p3"
    "put_end i p3 = Some (reply 0)" "serves_alone env N 0 p3 (m(k \<mapsto> v))" .
  moreover from this(5) have "db_view env N (pd_db p3) (m(k \<mapsto> v))" by (simp add: serves_alone_def)
  ultimately show ?thesis using serves_alone_Get [of env N 0 p3 "m(k \<mapsto> v)" k fl]
    by (intro exI [of _ i] exI [of _ p1] exI [of _ p2] exI [of _ p3]) (simp add: visible_def IsTombstone_def)
qed

theorem single_node_put_witness:
  "\<exists>d i p1 p2 p3. Put_begin ''k'' ''v'' ((pod_new 1 [] (log_at 0) d 0)\<lparr>pd_status := Leader\<rparr>) = Some (Inr i, p1) \<and> put_poll i p1 = Some p2 \<and>
     pod_sync p2 = Some p3 \<and> put_end i p3 = Some (reply 0) \<and> pod_Get ''k'' True p3 = Some ((reply 0)\<lparr>rp_value := ''v''\<rparr>)"
proof -
  obtain d where d: "db_view example_env 0 d Map.empty" using example_view .
  let ?p = "(pod_new 1 [] (log_at 0) d 0)\<lparr>pd_status := Leader\<rparr>"
  have "log_rep 0 (log_at (of_nat 0)) alog_new" by (rule log_rep_new) (simp add: start_ok_def ring_buffer_size_def)
  then have r: "pd_followers ?p = []" "pd_status ?p = Leader" "log_rep 0 (pd_log ?p) alog_new" "\<not> rl_stop (pd_log ?p)" "\<not> log_full alog_new"
    "al_applied alog_new = length (al_entries alog_new)" "db_view example_env 0 (pd_db ?p) Map.empty"
    using d by (simp_all add: pod_new_def log_at_def alog_new_def log_full_def ring_buffer_size_def)
  have "''v'' \<noteq> TombstoneValue" by (simp add: TombstoneValue_def)
  then show ?thesis using single_node_put [OF r, of "''k''" "''v''" True] by (intro exI [of _ d]) fastforce
qed

text \<open>
  Reads and redirections: a pod that is not leader answers a put, and a read that asks for the leader, with the address
  of the leader it knows (code -2) or with code -1, and changes nothing; every other read returns the value of the
  database with code 0, or code 1 for an absent key.
\<close>
theorem pod_requests_spec:
  assumes "db_view env N (pd_db p) m"
  shows "(pd_status p \<noteq> Leader \<longrightarrow> Put_begin k v p = Some (Inl (redirect p), p) \<and> pod_Get k True p = Some (redirect p)) \<and>
    (\<forall>a. FindLeaderAddress p = Some a \<longrightarrow> redirect p = \<lparr>rp_code = - 2, rp_value = [], rp_leader_addr = Some a\<rparr> \<and> ad_id a = pd_leader_id p) \<and>
    (FindLeaderAddress p = None \<longrightarrow> redirect p = reply (- 1) \<and> (\<forall>f \<in> set (pd_followers p). ad_id (fo_addr f) \<noteq> pd_leader_id p)) \<and>
    pod_Get k False p = Some (case visible (m k) of None \<Rightarrow> reply 1 | Some w \<Rightarrow> (reply 0)\<lparr>rp_value := w\<rparr>)"
proof (intro conjI impI allI)
  show "pod_Get k False p = Some (case visible (m k) of None \<Rightarrow> reply 1 | Some w \<Rightarrow> (reply 0)\<lparr>rp_value := w\<rparr>)"
    using assms db_rep_Get unfolding db_view_def by (fastforce simp: pod_Get_def)
next
  fix a
  assume a: "FindLeaderAddress p = Some a"
  then show "redirect p = \<lparr>rp_code = - 2, rp_value = [], rp_leader_addr = Some a\<rparr>" by (simp add: redirect_def reply_def)
  show "ad_id a = pd_leader_id p" using a by (auto simp: FindLeaderAddress_def find_Some_iff)
next
  assume a: "FindLeaderAddress p = None"
  then show "redirect p = reply (- 1)" by (simp add: redirect_def)
  show "\<forall>f \<in> set (pd_followers p). ad_id (fo_addr f) \<noteq> pd_leader_id p" using a by (simp add: FindLeaderAddress_def find_None_iff)
qed (simp_all add: Put_begin_def pod_Get_def)

theorem pod_requests_spec_witness:
  "\<exists>d. redirect ((trio d ! 0)\<lparr>pd_leader_id := 2\<rparr>) = \<lparr>rp_code = - 2, rp_value = [], rp_leader_addr = Some (trio_addresses ! 1)\<rparr> \<and>
     Put_begin ''k'' ''v'' ((trio d ! 0)\<lparr>pd_leader_id := 2\<rparr>) = Some (Inl (redirect ((trio d ! 0)\<lparr>pd_leader_id := 2\<rparr>)), (trio d ! 0)\<lparr>pd_leader_id := 2\<rparr>) \<and>
     pod_Get ''k'' False (trio d ! 0) = Some (reply 1)"
proof -
  obtain d where d: "db_view example_env 0 d Map.empty" using example_view .
  have v: "db_view example_env 0 (pd_db (trio d ! 0)) Map.empty" "db_view example_env 0 (pd_db ((trio d ! 0)\<lparr>pd_leader_id := 2\<rparr>)) Map.empty"
    using d by (simp_all add: trio_def pod_new_def)
  have "FindLeaderAddress ((trio d ! 0)\<lparr>pd_leader_id := 2\<rparr>) = Some (trio_addresses ! 1)" "pd_status (trio d ! 0) \<noteq> Leader"
    by (simp_all add: trio_def pod_new_def FindLeaderAddress_def trio_addresses_def follower_new_def)
  then show ?thesis
    using pod_requests_spec [OF v(1), of "''k''" "''v''"] pod_requests_spec [OF v(2), of "''k''" "''v''"]
    by (intro exI [of _ d]) (auto simp: visible_def)
qed

end
