(* ===== verification/Config.thy ===== *)
theory Config
  imports Codec "HOL-Library.Monad_Syntax"
begin

text \<open>
  The configuration of \<^verbatim>\<open>src/mokv/config.hpp\<close> and \<^verbatim>\<open>config.cpp\<close>: the parser of the two file formats, the printer, the environment
  variables, and the validation.  The number parsers model what the source uses of the standard library: \<^verbatim>\<open>std::stoll\<close> and
  its relatives read the longest numeral and ignore the rest, the extraction operators of the streams skip white space.
  Numbers are integers and naturals within the ranges of their types.
\<close>

section \<open>Data\<close>

record RaftPeer =
  pr_id :: int
  pr_host :: string
  pr_port :: nat

record MokvConfig =
  mc_port :: nat
  mc_host :: string
  mc_data_dir :: string
  mc_max_memory_mb :: nat
  mc_block_cache_size_mb :: nat
  mc_memtable_size_mb :: nat
  mc_node_id :: int
  mc_election_timeout_ms :: int
  mc_heartbeat_interval_ms :: int
  mc_snapshot_interval_s :: int
  mc_peers :: "RaftPeer list"
  mc_enable_compaction :: bool
  mc_level0_compaction_threshold :: nat
  mc_background_threads :: nat
  mc_max_background_jobs :: nat
  mc_verbose_logging :: bool
  mc_log_level :: string

definition local_peer :: "MokvConfig \<Rightarrow> RaftPeer" where
  "local_peer c = \<lparr>pr_id = mc_node_id c, pr_host = mc_host c, pr_port = mc_port c\<rparr>"

definition blank_config :: MokvConfig where
  "blank_config =
     \<lparr>mc_port = 9001, mc_host = ''0.0.0.0'', mc_data_dir = ''./data'', mc_max_memory_mb = 4096, mc_block_cache_size_mb = 256,
      mc_memtable_size_mb = 64, mc_node_id = 1, mc_election_timeout_ms = 5000, mc_heartbeat_interval_ms = 1000,
      mc_snapshot_interval_s = 3600, mc_peers = [], mc_enable_compaction = True, mc_level0_compaction_threshold = 4,
      mc_background_threads = 4, mc_max_background_jobs = 8, mc_verbose_logging = False, mc_log_level = ''INFO''\<rparr>"

definition DefaultConfig :: MokvConfig where
  "DefaultConfig = blank_config\<lparr>mc_peers := [local_peer blank_config]\<rparr>"

definition Validate :: "MokvConfig \<Rightarrow> bool" where
  "Validate c =
     (mc_port c \<noteq> 0 \<and> mc_max_memory_mb c \<noteq> 0 \<and> 1000 \<le> mc_election_timeout_ms c \<and> 0 < mc_heartbeat_interval_ms c \<and>
      (\<forall>p \<in> set (mc_peers c). 0 < pr_id p \<and> pr_host p \<noteq> [] \<and> pr_port p \<noteq> 0))"

definition GetMaxMemoryBytes :: "MokvConfig \<Rightarrow> nat" where
  "GetMaxMemoryBytes c = mc_max_memory_mb c * 1024 * 1024 mod 2 ^ 64"

definition GetBlockCacheSizeBytes :: "MokvConfig \<Rightarrow> nat" where
  "GetBlockCacheSizeBytes c = mc_block_cache_size_mb c * 1024 * 1024 mod 2 ^ 64"

definition GetMemTableSizeBytes :: "MokvConfig \<Rightarrow> nat" where
  "GetMemTableSizeBytes c = mc_memtable_size_mb c * 1024 * 1024 mod 2 ^ 64"

definition FindPeer :: "int \<Rightarrow> MokvConfig \<Rightarrow> RaftPeer option" where
  "FindPeer i c = find (\<lambda>p. pr_id p = i) (mc_peers c)"

section \<open>Text\<close>

definition is_space :: "char \<Rightarrow> bool" where
  "is_space ch = (ch \<in> {CHR '' '', CHR 0x09, CHR 0x0A, CHR 0x0B, CHR 0x0C, CHR 0x0D})"

definition Trim :: "string \<Rightarrow> string" where
  "Trim s = rev (dropWhile is_space (rev (dropWhile is_space s)))"

definition to_lower :: "char \<Rightarrow> char" where
  "to_lower ch = (if CHR ''A'' \<le> ch \<and> ch \<le> CHR ''Z'' then char_of (of_char ch + 32 :: nat) else ch)"

definition ParseBool :: "string \<Rightarrow> bool option" where
  "ParseBool raw =
     (let s = map to_lower (Trim raw) in
      if s \<in> {''1'', ''true'', ''yes'', ''on''} then Some True
      else if s \<in> {''0'', ''false'', ''no'', ''off''} then Some False
      else None)"

text \<open>The numeral at the start of a text: a sign, the digits, and the rest behind them.\<close>

definition numeral_at :: "string \<Rightarrow> (bool \<times> nat \<times> string) option" where
  "numeral_at raw =
     (let s = dropWhile is_space raw;
          neg = (s \<noteq> [] \<and> hd s = CHR ''-'');
          t = (if s \<noteq> [] \<and> hd s \<in> {CHR ''-'', CHR ''+''} then tl s else s);
          ds = takeWhile is_digit t
      in if ds = [] then None else Some (neg, digits_val ds, dropWhile is_digit t))"

definition read_signed :: "int \<Rightarrow> int \<Rightarrow> string \<Rightarrow> (int \<times> string) option" where
  "read_signed lo hi raw =
     do { (neg, n, rest) \<leftarrow> numeral_at raw;
          let v = (if neg then - int n else int n);
          if v < lo \<or> hi < v then None else Some (v, rest) }"

definition read_unsigned :: "string \<Rightarrow> (nat \<times> string) option" where
  "read_unsigned raw =
     do { (neg, n, rest) \<leftarrow> numeral_at raw;
          if 2 ^ 64 \<le> n then None
          else Some (if neg then (2 ^ 64 - n) mod 2 ^ 64 else n, rest) }"

abbreviation int32_min :: int where "int32_min \<equiv> - (2 ^ 31)"
abbreviation int32_max :: int where "int32_max \<equiv> 2 ^ 31 - 1"

definition ParseInt32 :: "string \<Rightarrow> int option" where
  "ParseInt32 raw =
     do { (v, rest) \<leftarrow> read_signed int64_min int64_max (Trim raw);
          if v < int32_min \<or> int32_max < v then None else Some v }"

definition ParseUInt16 :: "string \<Rightarrow> nat option" where
  "ParseUInt16 raw =
     do { (v, rest) \<leftarrow> read_unsigned (Trim raw);
          if v = 0 \<or> 65535 < v then None else Some v }"

definition ParseSize :: "string \<Rightarrow> nat option" where
  "ParseSize raw = map_option fst (read_unsigned (Trim raw))"

definition config_Split :: "string \<Rightarrow> char \<Rightarrow> string list" where
  "config_Split s delimiter =
     map Trim (let ls = Codec.Split s delimiter in if last ls = [] then butlast ls else ls)"

definition ParsePeer :: "string \<Rightarrow> RaftPeer option" where
  "ParsePeer raw =
     (case config_Split raw (CHR '','') of
        [a, b, c] \<Rightarrow> do {
          i \<leftarrow> ParseInt32 a;
          port \<leftarrow> ParseUInt16 c;
          if b = [] then None else Some \<lparr>pr_id = i, pr_host = b, pr_port = port\<rparr> }
      | _ \<Rightarrow> None)"

section \<open>The legacy format\<close>

text \<open>The next word of a stream; \<open>None\<close> at its end.\<close>

definition read_word :: "string \<Rightarrow> (string \<times> string) option" where
  "read_word raw =
     (let s = dropWhile is_space raw in
      if s = [] then None else Some (takeWhile (\<lambda>c. \<not> is_space c) s, dropWhile (\<lambda>c. \<not> is_space c) s))"

definition read_int32 :: "string \<Rightarrow> (int \<times> string) option" where
  "read_int32 = read_signed int32_min int32_max"

definition port_ok :: "int \<Rightarrow> bool" where "port_ok port = (0 < port \<and> port \<le> 65535)"

text \<open>The peers that are read before the stream ends, fails or a port is out of range; the flag tells whether all were.\<close>

definition read_peer :: "string \<Rightarrow> (RaftPeer \<times> string) option" where
  "read_peer input =
     do { (i, input) \<leftarrow> read_int32 input; (host, input) \<leftarrow> read_word input; (port, input) \<leftarrow> read_int32 input;
          if port_ok port then Some (\<lparr>pr_id = i, pr_host = host, pr_port = nat port\<rparr>, input) else None }"

fun read_peers :: "nat \<Rightarrow> string \<Rightarrow> RaftPeer list \<Rightarrow> bool \<times> RaftPeer list \<times> string" where
  "read_peers 0 input peers = (True, peers, input)"
| "read_peers (Suc n) input peers =
     (case read_peer input of
        None \<Rightarrow> (False, peers, input)
      | Some (p, input) \<Rightarrow> read_peers n input (peers @ [p]))"

text \<open>\<^verbatim>\<open>LoadLegacyConfig\<close> works on the configuration it is given, also when it returns false.\<close>

definition read_local :: "string \<Rightarrow> MokvConfig \<Rightarrow> bool \<times> MokvConfig" where
  "read_local input c =
     (case read_int32 input of
        None \<Rightarrow> (False, c)
      | Some (local_id, input) \<Rightarrow>
          case read_word input of
            None \<Rightarrow> (False, c)
          | Some (host, input) \<Rightarrow>
              let c = c\<lparr>mc_host := host\<rparr> in
              case read_int32 input of
                None \<Rightarrow> (False, c)
              | Some (port, input) \<Rightarrow>
                  if \<not> port_ok port then (False, c)
                  else
                    let c = c\<lparr>mc_node_id := local_id, mc_port := nat port\<rparr>;
                        c = (case FindPeer (mc_node_id c) c of
                               Some p \<Rightarrow> c\<lparr>mc_host := pr_host p, mc_port := pr_port p\<rparr>
                             | None \<Rightarrow> c\<lparr>mc_peers := mc_peers c @ [local_peer c]\<rparr>)
                    in (Validate c, c))"

definition LoadLegacyConfig :: "string \<Rightarrow> MokvConfig \<Rightarrow> bool \<times> MokvConfig" where
  "LoadLegacyConfig input c =
     (case read_unsigned input of
        None \<Rightarrow> (False, c)
      | Some (n, input) \<Rightarrow>
          let (ok, peers, input) = read_peers n input []; c = DefaultConfig\<lparr>mc_peers := peers\<rparr> in
          if ok then read_local input c else (False, c))"

section \<open>The key=value format\<close>

text \<open>\<^verbatim>\<open>SyncLocalPeer\<close> changes the first peer with the id of the node.\<close>

fun update_first :: "('a \<Rightarrow> bool) \<Rightarrow> ('a \<Rightarrow> 'a) \<Rightarrow> 'a list \<Rightarrow> 'a list" where
  "update_first P f [] = []"
| "update_first P f (x # xs) = (if P x then f x # xs else x # update_first P f xs)"

definition SyncLocalPeer :: "bool \<Rightarrow> bool \<Rightarrow> MokvConfig \<Rightarrow> MokvConfig" where
  "SyncLocalPeer host_explicit port_explicit c =
     (case FindPeer (mc_node_id c) c of
        None \<Rightarrow> c\<lparr>mc_peers := mc_peers c @ [local_peer c]\<rparr>
      | Some p \<Rightarrow>
          let c = (if \<not> host_explicit then c\<lparr>mc_host := pr_host p\<rparr>
                   else c\<lparr>mc_peers := update_first (\<lambda>p. pr_id p = mc_node_id c) (pr_host_update (\<lambda>_. mc_host c)) (mc_peers c)\<rparr>) in
          if \<not> port_explicit then c\<lparr>mc_port := pr_port p\<rparr>
          else c\<lparr>mc_peers := update_first (\<lambda>p. pr_id p = mc_node_id c) (pr_port_update (\<lambda>_. mc_port c)) (mc_peers c)\<rparr>)"

definition finish_peers :: "bool \<Rightarrow> bool \<Rightarrow> MokvConfig \<Rightarrow> MokvConfig" where
  "finish_peers host_explicit port_explicit c =
     (if mc_peers c = [] then c\<lparr>mc_peers := [local_peer c]\<rparr> else SyncLocalPeer host_explicit port_explicit c)"

record loading =
  ld_config :: MokvConfig
  ld_host_explicit :: bool
  ld_port_explicit :: bool

definition ld_set :: "loading \<Rightarrow> (MokvConfig \<Rightarrow> MokvConfig) \<Rightarrow> loading" where
  "ld_set s f = s\<lparr>ld_config := f (ld_config s)\<rparr>"

definition to_uint32 :: "nat \<Rightarrow> nat" where "to_uint32 n = n mod 2 ^ 32"

definition set_key :: "string \<Rightarrow> string \<Rightarrow> loading \<Rightarrow> loading option" where
  "set_key key val s =
     (if key = ''host'' then Some ((ld_set s (mc_host_update (\<lambda>_. val)))\<lparr>ld_host_explicit := True\<rparr>)
      else if key = ''port'' then map_option (\<lambda>n. (ld_set s (mc_port_update (\<lambda>_. n)))\<lparr>ld_port_explicit := True\<rparr>) (ParseUInt16 val)
      else if key = ''data_dir'' then Some (ld_set s (mc_data_dir_update (\<lambda>_. val)))
      else if key = ''max_memory_mb'' then map_option (\<lambda>n. ld_set s (mc_max_memory_mb_update (\<lambda>_. n))) (ParseSize val)
      else if key = ''block_cache_size_mb'' then map_option (\<lambda>n. ld_set s (mc_block_cache_size_mb_update (\<lambda>_. n))) (ParseSize val)
      else if key = ''memtable_size_mb'' then map_option (\<lambda>n. ld_set s (mc_memtable_size_mb_update (\<lambda>_. n))) (ParseSize val)
      else if key = ''node_id'' then map_option (\<lambda>i. ld_set s (mc_node_id_update (\<lambda>_. i))) (ParseInt32 val)
      else if key = ''election_timeout_ms'' then map_option (\<lambda>i. ld_set s (mc_election_timeout_ms_update (\<lambda>_. i))) (ParseInt32 val)
      else if key = ''heartbeat_interval_ms'' then map_option (\<lambda>i. ld_set s (mc_heartbeat_interval_ms_update (\<lambda>_. i))) (ParseInt32 val)
      else if key = ''snapshot_interval_s'' then map_option (\<lambda>i. ld_set s (mc_snapshot_interval_s_update (\<lambda>_. i))) (ParseInt32 val)
      else if key = ''enable_compaction'' then map_option (\<lambda>b. ld_set s (mc_enable_compaction_update (\<lambda>_. b))) (ParseBool val)
      else if key = ''level0_compaction_threshold'' then map_option (\<lambda>n. ld_set s (mc_level0_compaction_threshold_update (\<lambda>_. n))) (ParseSize val)
      else if key = ''background_threads'' then map_option (\<lambda>n. ld_set s (mc_background_threads_update (\<lambda>_. to_uint32 n))) (ParseSize val)
      else if key = ''max_background_jobs'' then map_option (\<lambda>n. ld_set s (mc_max_background_jobs_update (\<lambda>_. to_uint32 n))) (ParseSize val)
      else if key = ''verbose_logging'' then map_option (\<lambda>b. ld_set s (mc_verbose_logging_update (\<lambda>_. b))) (ParseBool val)
      else if key = ''log_level'' then Some (ld_set s (mc_log_level_update (\<lambda>_. val)))
      else if key = ''peer'' then map_option (\<lambda>p. ld_set s (mc_peers_update (\<lambda>ps. ps @ [p]))) (ParsePeer val)
      else None)"

definition load_line :: "string \<Rightarrow> loading \<Rightarrow> loading option" where
  "load_line raw s =
     (let line = Trim raw in
      if line = [] \<or> hd line = CHR ''#'' then Some s
      else if CHR ''='' \<notin> set line then None
      else set_key (Trim (takeWhile (\<lambda>c. c \<noteq> CHR ''='') line)) (Trim (tl (dropWhile (\<lambda>c. c \<noteq> CHR ''='') line))) s)"

fun load_lines :: "string list \<Rightarrow> loading \<Rightarrow> loading option" where
  "load_lines [] s = Some s"
| "load_lines (l # ls) s = do { s \<leftarrow> load_line l s; load_lines ls s }"

definition is_legacy :: "string \<Rightarrow> bool" where
  "is_legacy content =
     (case read_word content of None \<Rightarrow> False | Some (w, _) \<Rightarrow> CHR ''='' \<notin> set w \<and> list_all is_digit w)"

text \<open>The content of the file, \<open>None\<close> when it cannot be opened; the result and the configuration afterwards.\<close>

definition LoadFromFile :: "string option \<Rightarrow> MokvConfig \<Rightarrow> bool \<times> MokvConfig" where
  "LoadFromFile content c =
     (case content of
        None \<Rightarrow> (False, c)
      | Some text \<Rightarrow>
          if is_legacy text then LoadLegacyConfig text c
          else
            case load_lines (getlines text)
                   \<lparr>ld_config = DefaultConfig\<lparr>mc_peers := []\<rparr>, ld_host_explicit = False, ld_port_explicit = False\<rparr> of
              None \<Rightarrow> (False, c)
            | Some s \<Rightarrow>
                let loaded = finish_peers (ld_host_explicit s) (ld_port_explicit s) (ld_config s) in
                if Validate loaded then (True, loaded) else (False, c))"

definition show_bool :: "bool \<Rightarrow> string" where
  "show_bool b = (if b then ''true'' else ''false'')"

definition show_peer :: "RaftPeer \<Rightarrow> string" where
  "show_peer p = show_int (pr_id p) @ '','' @ pr_host p @ '','' @ show_nat (pr_port p)"

definition config_lines :: "MokvConfig \<Rightarrow> string list" where
  "config_lines c =
     [''host='' @ mc_host c, ''port='' @ show_nat (mc_port c), ''data_dir='' @ mc_data_dir c,
      ''max_memory_mb='' @ show_nat (mc_max_memory_mb c), ''block_cache_size_mb='' @ show_nat (mc_block_cache_size_mb c),
      ''memtable_size_mb='' @ show_nat (mc_memtable_size_mb c), ''node_id='' @ show_int (mc_node_id c),
      ''election_timeout_ms='' @ show_int (mc_election_timeout_ms c), ''heartbeat_interval_ms='' @ show_int (mc_heartbeat_interval_ms c),
      ''snapshot_interval_s='' @ show_int (mc_snapshot_interval_s c), ''enable_compaction='' @ show_bool (mc_enable_compaction c),
      ''level0_compaction_threshold='' @ show_nat (mc_level0_compaction_threshold c),
      ''background_threads='' @ show_nat (mc_background_threads c), ''max_background_jobs='' @ show_nat (mc_max_background_jobs c),
      ''verbose_logging='' @ show_bool (mc_verbose_logging c), ''log_level='' @ mc_log_level c] @
     map (\<lambda>p. ''peer='' @ show_peer p) (mc_peers c)"

text \<open>The file that \<^verbatim>\<open>SaveToFile\<close> writes.\<close>

definition SaveToFile :: "MokvConfig \<Rightarrow> string" where
  "SaveToFile c = unlines (config_lines c)"

section \<open>The environment\<close>

text \<open>A variable that does not parse leaves the field alone.\<close>

definition env_field :: "(string \<rightharpoonup> string) \<Rightarrow> string \<Rightarrow> (string \<Rightarrow> 'a option) \<Rightarrow> ('a \<Rightarrow> MokvConfig \<Rightarrow> MokvConfig) \<Rightarrow> MokvConfig \<Rightarrow> MokvConfig" where
  "env_field env name parse upd c =
     (case env name of None \<Rightarrow> c | Some s \<Rightarrow> (case parse s of None \<Rightarrow> c | Some x \<Rightarrow> upd x c))"

definition env_peers :: "string \<Rightarrow> RaftPeer list" where
  "env_peers s = List.map_filter ParsePeer (filter (\<lambda>item. item \<noteq> []) (config_Split s (CHR '';'')))"

definition LoadFromEnv :: "(string \<rightharpoonup> string) \<Rightarrow> MokvConfig \<Rightarrow> MokvConfig" where
  "LoadFromEnv env c =
     (let host_explicit = (env ''MOKV_HOST'' \<noteq> None);
          port_explicit = (case env ''MOKV_PORT'' of None \<Rightarrow> False | Some s \<Rightarrow> ParseUInt16 s \<noteq> None);
          c = env_field env ''MOKV_HOST'' Some (\<lambda>x. mc_host_update (\<lambda>_. x)) c;
          c = env_field env ''MOKV_PORT'' ParseUInt16 (\<lambda>x. mc_port_update (\<lambda>_. x)) c;
          c = env_field env ''MOKV_DATA_DIR'' Some (\<lambda>x. mc_data_dir_update (\<lambda>_. x)) c;
          c = env_field env ''MOKV_MAX_MEMORY'' ParseSize (\<lambda>x. mc_max_memory_mb_update (\<lambda>_. x)) c;
          c = env_field env ''MOKV_BLOCK_CACHE_MB'' ParseSize (\<lambda>x. mc_block_cache_size_mb_update (\<lambda>_. x)) c;
          c = env_field env ''MOKV_MEMTABLE_MB'' ParseSize (\<lambda>x. mc_memtable_size_mb_update (\<lambda>_. x)) c;
          c = env_field env ''MOKV_NODE_ID'' ParseInt32 (\<lambda>x. mc_node_id_update (\<lambda>_. x)) c;
          c = env_field env ''MOKV_ELECTION_TIMEOUT_MS'' ParseInt32 (\<lambda>x. mc_election_timeout_ms_update (\<lambda>_. x)) c;
          c = env_field env ''MOKV_HEARTBEAT_INTERVAL_MS'' ParseInt32 (\<lambda>x. mc_heartbeat_interval_ms_update (\<lambda>_. x)) c;
          c = env_field env ''MOKV_SNAPSHOT_INTERVAL_S'' ParseInt32 (\<lambda>x. mc_snapshot_interval_s_update (\<lambda>_. x)) c;
          c = env_field env ''MOKV_ENABLE_COMPACTION'' ParseBool (\<lambda>x. mc_enable_compaction_update (\<lambda>_. x)) c;
          c = env_field env ''MOKV_VERBOSE_LOGGING'' ParseBool (\<lambda>x. mc_verbose_logging_update (\<lambda>_. x)) c;
          c = env_field env ''MOKV_LOG_LEVEL'' Some (\<lambda>x. mc_log_level_update (\<lambda>_. x)) c;
          c = env_field env ''MOKV_PEERS'' (\<lambda>s. Some (env_peers s)) (\<lambda>x. mc_peers_update (\<lambda>_. x)) c
      in finish_peers host_explicit port_explicit c)"

end
