(* ===== verification/Config_Correct.thy ===== *)
theory Config_Correct
  imports Config
begin

text \<open>
  Lemmas on the configuration: numbers, peers and lines are read back as they are printed, and the local peer is kept
  in agreement with the host and port of the node.
\<close>

section \<open>Trimmed text\<close>

definition trimmed :: "string \<Rightarrow> bool" where
  "trimmed s = (s = [] \<or> \<not> is_space (hd s) \<and> \<not> is_space (last s))"

lemma Trim_trimmed: "trimmed s \<Longrightarrow> Trim s = s"
proof (cases "s = []")
  case False
  assume "trimmed s"
  then have "\<not> is_space (hd s)" "\<not> is_space (hd (rev s))" using False by (simp_all add: trimmed_def hd_rev)
  then have "dropWhile is_space s = s" "dropWhile is_space (rev s) = rev s" using False by (simp_all add: dropWhile_eq_self_iff)
  then show ?thesis by (simp add: Trim_def)
qed (simp add: Trim_def)

lemma digit_not_space: "is_digit ch \<Longrightarrow> \<not> is_space ch"
  by (auto simp: is_digit_def is_space_def less_eq_char_def)

lemma digit_not_sign: "is_digit ch \<Longrightarrow> ch \<noteq> CHR ''-'' \<and> ch \<noteq> CHR ''+'' \<and> ch \<noteq> CHR '','' \<and> ch \<noteq> CHR ''=''"
  by (auto simp: is_digit_def less_eq_char_def)

lemma show_nat_hd_last: "is_digit (hd (show_nat n)) \<and> is_digit (last (show_nat n))"
proof -
  have "show_nat n \<noteq> []" "list_all is_digit (show_nat n)" using show_nat_correct [of n] by (blast+)
  then show ?thesis by (metis hd_in_set last_in_set list_all_iff)
qed

lemma trimmed_show_nat: "trimmed (show_nat n)"
  using show_nat_hd_last digit_not_space by (auto simp: trimmed_def)

lemma trimmed_show_int: "trimmed (show_int i)"
proof (cases "i < 0")
  case True
  have "show_nat (nat (- i)) \<noteq> []" using show_nat_correct [of "nat (- i)"] by blast
  then show ?thesis using True show_nat_hd_last [of "nat (- i)"] digit_not_space
    by (auto simp: trimmed_def show_int_def is_space_def simp del: show_nat.simps)
qed (simp add: show_int_def trimmed_show_nat del: show_nat.simps)

section \<open>Numbers\<close>

lemma digits_whole: "list_all is_digit ds \<Longrightarrow> takeWhile is_digit ds = ds" "list_all is_digit ds \<Longrightarrow> dropWhile is_digit ds = []"
  by (simp_all add: takeWhile_eq_all_conv list_all_iff)

lemma numeral_at_digits:
  assumes "ds \<noteq> []" "list_all is_digit ds"
  shows "numeral_at ds = Some (False, digits_val ds, [])"
proof -
  have "is_digit (hd ds)" using assms by (metis hd_in_set list_all_iff)
  then have h: "\<not> is_space (hd ds)" "hd ds \<noteq> CHR ''-''" "hd ds \<noteq> CHR ''+''" using digit_not_space digit_not_sign by blast+
  have "dropWhile is_space ds = ds" using h(1) assms(1) by (simp add: dropWhile_eq_self_iff)
  then show ?thesis using h assms(1) by (simp add: numeral_at_def digits_whole [OF assms(2)] Let_def)
qed

lemma numeral_at_show_nat: "numeral_at (show_nat n) = Some (False, n, [])"
  using numeral_at_digits show_nat_correct [of n] by metis

lemma numeral_at_minus:
  assumes "ds \<noteq> []" "list_all is_digit ds"
  shows "numeral_at (CHR ''-'' # ds) = Some (True, digits_val ds, [])"
  using assms(1) by (simp add: numeral_at_def is_space_def digits_whole [OF assms(2)] Let_def)

lemma read_signed_show_int:
  assumes "lo \<le> i" "i \<le> hi"
  shows "read_signed lo hi (show_int i) = Some (i, [])"
proof (cases "i < 0")
  case True
  have "numeral_at (CHR ''-'' # show_nat (nat (- i))) = Some (True, nat (- i), [])"
    using numeral_at_minus show_nat_correct [of "nat (- i)"] by metis
  then show ?thesis using True assms by (simp add: read_signed_def show_int_def Let_def del: show_nat.simps)
next
  case False
  then show ?thesis using assms numeral_at_show_nat [of "nat i"] by (simp add: read_signed_def show_int_def Let_def del: show_nat.simps)
qed

lemma read_unsigned_show_nat: "n < 2 ^ 64 \<Longrightarrow> read_unsigned (show_nat n) = Some (n, [])"
  by (simp add: read_unsigned_def numeral_at_show_nat del: show_nat.simps)

definition int32 :: "int \<Rightarrow> bool" where "int32 i = (int32_min \<le> i \<and> i \<le> int32_max)"

lemma ParseInt32_show: "int32 i \<Longrightarrow> ParseInt32 (show_int i) = Some i"
  using read_signed_show_int [of int64_min i int64_max]
  by (simp add: ParseInt32_def Trim_trimmed [OF trimmed_show_int] int32_def)

lemma ParseSize_show: "n < 2 ^ 64 \<Longrightarrow> ParseSize (show_nat n) = Some n"
  by (simp add: ParseSize_def Trim_trimmed [OF trimmed_show_nat] read_unsigned_show_nat del: show_nat.simps)

lemma ParseUInt16_show: "0 < n \<Longrightarrow> n \<le> 65535 \<Longrightarrow> ParseUInt16 (show_nat n) = Some n"
  by (simp add: ParseUInt16_def Trim_trimmed [OF trimmed_show_nat] read_unsigned_show_nat del: show_nat.simps)

lemma ParseBool_show: "ParseBool (show_bool b) = Some b"
  by (cases b) (simp_all add: ParseBool_def show_bool_def Trim_def is_space_def to_lower_def less_eq_char_def)

section \<open>Peers\<close>

definition peer_clean :: "RaftPeer \<Rightarrow> bool" where
  "peer_clean p =
     (int32 (pr_id p) \<and> 0 < pr_port p \<and> pr_port p \<le> 65535 \<and> pr_host p \<noteq> [] \<and> trimmed (pr_host p) \<and>
      CHR '','' \<notin> set (pr_host p) \<and> NL \<notin> set (pr_host p))"

lemma show_nat_chars: "ch \<in> set (show_nat n) \<Longrightarrow> is_digit ch"
  using show_nat_correct [of n] by (metis list_all_iff)

lemma show_int_chars: "ch \<in> set (show_int i) \<Longrightarrow> is_digit ch \<or> ch = CHR ''-''"
  unfolding show_int_def using show_nat_chars by (auto simp del: show_nat.simps split: if_splits)

lemma ParsePeer_show:
  assumes "peer_clean p"
  shows "ParsePeer (show_peer p) = Some p"
proof -
  let ?c = "CHR '',''"
  have nc: "?c \<notin> set (show_int (pr_id p))" "?c \<notin> set (pr_host p)" "?c \<notin> set (show_nat (pr_port p))"
    using show_int_chars show_nat_chars digit_not_sign assms by (fastforce simp: peer_clean_def)+
  have "Codec.Split (show_peer p) ?c = [show_int (pr_id p), pr_host p, show_nat (pr_port p)]"
    unfolding show_peer_def append.simps append_assoc append_Cons append_Nil using nc by (simp add: Split_delim Split_no_delim del: show_nat.simps)
  moreover have "show_nat (pr_port p) \<noteq> []" using show_nat_correct [of "pr_port p"] by blast
  moreover have "trimmed (pr_host p)" using assms by (simp add: peer_clean_def)
  ultimately have "config_Split (show_peer p) ?c = [show_int (pr_id p), pr_host p, show_nat (pr_port p)]"
    by (simp add: config_Split_def Trim_trimmed trimmed_show_int trimmed_show_nat Let_def del: show_nat.simps)
  then show ?thesis using assms by (simp add: ParsePeer_def ParseInt32_show ParseUInt16_show peer_clean_def del: show_nat.simps)
qed


section \<open>Lines\<close>

text \<open>Keys are words without white space and without the separator.\<close>

definition key_clean :: "string \<Rightarrow> bool" where
  "key_clean k = (k \<noteq> [] \<and> hd k \<noteq> CHR ''#'' \<and> list_all (\<lambda>ch. \<not> is_space ch \<and> ch \<noteq> CHR ''='') k)"

lemma load_line_key:
  assumes k: "key_clean k" and v: "trimmed v"
  shows "load_line (k @ CHR ''='' # v) s = set_key k v s"
proof -
  let ?l = "k @ CHR ''='' # v"
  have sp: "\<not> is_space (hd k)" "\<not> is_space (last k)" "CHR ''='' \<notin> set k" "k \<noteq> []"
    using k by (auto simp: key_clean_def list_all_iff)
  have "\<not> is_space (last ?l)" using v by (auto simp: trimmed_def is_space_def)
  then have l: "Trim ?l = ?l" "hd ?l \<noteq> CHR ''#''" using sp k by (auto intro: Trim_trimmed simp: trimmed_def key_clean_def)
  have tk: "takeWhile (\<lambda>c. c \<noteq> CHR ''='') ?l = k" "dropWhile (\<lambda>c. c \<noteq> CHR ''='') ?l = CHR ''='' # v"
    using takeWhile_neq_notin [OF sp(3)] dropWhile_neq_notin [OF sp(3)] by auto
  have tr: "Trim k = k" "Trim v = v" using sp v by (auto intro: Trim_trimmed simp: trimmed_def)
  show ?thesis using l sp(4) unfolding load_line_def l(1) Let_def tk list.sel tr by simp
qed

lemma key_clean_names:
  "key_clean ''host''" "key_clean ''port''" "key_clean ''data_dir''" "key_clean ''max_memory_mb''" "key_clean ''block_cache_size_mb''"
  "key_clean ''memtable_size_mb''" "key_clean ''node_id''" "key_clean ''election_timeout_ms''" "key_clean ''heartbeat_interval_ms''"
  "key_clean ''snapshot_interval_s''" "key_clean ''enable_compaction''" "key_clean ''level0_compaction_threshold''"
  "key_clean ''background_threads''" "key_clean ''max_background_jobs''" "key_clean ''verbose_logging''" "key_clean ''log_level''"
  "key_clean ''peer''"
  by (simp_all add: key_clean_def is_space_def)

lemma trimmed_show_bool: "trimmed (show_bool b)" by (simp add: show_bool_def trimmed_def is_space_def)

lemma trimmed_show_peer: "trimmed (show_peer p)"
proof -
  have i: "trimmed (show_int (pr_id p))" "show_int (pr_id p) \<noteq> []"
    using trimmed_show_int show_nat_correct by (auto simp: show_int_def simp del: show_nat.simps)
  have n: "trimmed (show_nat (pr_port p))" "show_nat (pr_port p) \<noteq> []" using trimmed_show_nat show_nat_correct by blast+
  show ?thesis using i n by (simp add: show_peer_def trimmed_def del: show_nat.simps)
qed

lemma load_lines_append: "load_lines (ls @ ls') s = Option.bind (load_lines ls s) (load_lines ls')"
  by (induction ls arbitrary: s) (auto split: bind_splits)

lemma load_peers:
  assumes "\<forall>p \<in> set ps. peer_clean p"
  shows "load_lines (map (\<lambda>p. ''peer='' @ show_peer p) ps) s = Some (ld_set s (mc_peers_update (\<lambda>qs. qs @ ps)))"
  using assms
proof (induction ps arbitrary: s)
  case Nil
  then show ?case by (simp add: ld_set_def)
next
  case (Cons p ps)
  have "load_line (''peer'' @ CHR ''='' # show_peer p) s = set_key ''peer'' (show_peer p) s"
    by (rule load_line_key [OF key_clean_names(17) trimmed_show_peer])
  also have "\<dots> = Some (ld_set s (mc_peers_update (\<lambda>ps. ps @ [p])))" using Cons.prems by (simp add: set_key_def ParsePeer_show)
  finally show ?case using Cons by (simp add: ld_set_def)
qed

section \<open>Saving and loading\<close>

definition config_clean :: "MokvConfig \<Rightarrow> bool" where
  "config_clean c =
     (0 < mc_port c \<and> mc_port c \<le> 65535 \<and> trimmed (mc_host c) \<and> trimmed (mc_data_dir c) \<and> trimmed (mc_log_level c) \<and>
      NL \<notin> set (mc_host c) \<and> NL \<notin> set (mc_data_dir c) \<and> NL \<notin> set (mc_log_level c) \<and>
      mc_max_memory_mb c < 2 ^ 64 \<and> mc_block_cache_size_mb c < 2 ^ 64 \<and> mc_memtable_size_mb c < 2 ^ 64 \<and>
      mc_level0_compaction_threshold c < 2 ^ 64 \<and> mc_background_threads c < 2 ^ 32 \<and> mc_max_background_jobs c < 2 ^ 32 \<and>
      int32 (mc_node_id c) \<and> int32 (mc_election_timeout_ms c) \<and> int32 (mc_heartbeat_interval_ms c) \<and> int32 (mc_snapshot_interval_s c) \<and>
      (\<forall>p \<in> set (mc_peers c). peer_clean p))"

text \<open>The local peer is among the peers, with the host and the port of the node.\<close>

definition local_ok :: "MokvConfig \<Rightarrow> bool" where
  "local_ok c = (FindPeer (mc_node_id c) c = Some (local_peer c))"

lemma set_key_names:
  "set_key ''host'' v s = Some ((ld_set s (mc_host_update (\<lambda>_. v)))\<lparr>ld_host_explicit := True\<rparr>)"
  "set_key ''data_dir'' v s = Some (ld_set s (mc_data_dir_update (\<lambda>_. v)))"
  "set_key ''log_level'' v s = Some (ld_set s (mc_log_level_update (\<lambda>_. v)))"
  "0 < n \<Longrightarrow> n \<le> 65535 \<Longrightarrow> set_key ''port'' (show_nat n) s = Some ((ld_set s (mc_port_update (\<lambda>_. n)))\<lparr>ld_port_explicit := True\<rparr>)"
  "n < 2 ^ 64 \<Longrightarrow> set_key ''max_memory_mb'' (show_nat n) s = Some (ld_set s (mc_max_memory_mb_update (\<lambda>_. n)))"
  "n < 2 ^ 64 \<Longrightarrow> set_key ''block_cache_size_mb'' (show_nat n) s = Some (ld_set s (mc_block_cache_size_mb_update (\<lambda>_. n)))"
  "n < 2 ^ 64 \<Longrightarrow> set_key ''memtable_size_mb'' (show_nat n) s = Some (ld_set s (mc_memtable_size_mb_update (\<lambda>_. n)))"
  "n < 2 ^ 64 \<Longrightarrow> set_key ''level0_compaction_threshold'' (show_nat n) s = Some (ld_set s (mc_level0_compaction_threshold_update (\<lambda>_. n)))"
  "n < 2 ^ 32 \<Longrightarrow> set_key ''background_threads'' (show_nat n) s = Some (ld_set s (mc_background_threads_update (\<lambda>_. n)))"
  "n < 2 ^ 32 \<Longrightarrow> set_key ''max_background_jobs'' (show_nat n) s = Some (ld_set s (mc_max_background_jobs_update (\<lambda>_. n)))"
  "int32 i \<Longrightarrow> set_key ''node_id'' (show_int i) s = Some (ld_set s (mc_node_id_update (\<lambda>_. i)))"
  "int32 i \<Longrightarrow> set_key ''election_timeout_ms'' (show_int i) s = Some (ld_set s (mc_election_timeout_ms_update (\<lambda>_. i)))"
  "int32 i \<Longrightarrow> set_key ''heartbeat_interval_ms'' (show_int i) s = Some (ld_set s (mc_heartbeat_interval_ms_update (\<lambda>_. i)))"
  "int32 i \<Longrightarrow> set_key ''snapshot_interval_s'' (show_int i) s = Some (ld_set s (mc_snapshot_interval_s_update (\<lambda>_. i)))"
  "set_key ''enable_compaction'' (show_bool b) s = Some (ld_set s (mc_enable_compaction_update (\<lambda>_. b)))"
  "set_key ''verbose_logging'' (show_bool b) s = Some (ld_set s (mc_verbose_logging_update (\<lambda>_. b)))"
  by (simp_all add: set_key_def ParseUInt16_show ParseSize_show ParseInt32_show ParseBool_show to_uint32_def del: show_nat.simps)


lemmas load_named = key_clean_names [THEN load_line_key, unfolded append_Cons append_Nil]

lemma load_fields:
  assumes "config_clean c"
  shows "load_lines (config_lines (c\<lparr>mc_peers := []\<rparr>)) \<lparr>ld_config = DefaultConfig\<lparr>mc_peers := []\<rparr>, ld_host_explicit = False, ld_port_explicit = False\<rparr> =
    Some \<lparr>ld_config = c\<lparr>mc_peers := []\<rparr>, ld_host_explicit = True, ld_port_explicit = True\<rparr>"
proof (cases c)
  case (fields port host data_dir max_memory block_cache memtable node_id election heartbeat snapshot peers compaction level0 threads jobs verbose log_level)
  then show ?thesis using assms
    by (simp add: config_lines_def config_clean_def load_named trimmed_show_nat trimmed_show_int trimmed_show_bool set_key_names
        ld_set_def DefaultConfig_def blank_config_def del: show_nat.simps)
qed

lemma config_lines_split: "config_lines c = config_lines (c\<lparr>mc_peers := []\<rparr>) @ map (\<lambda>p. ''peer='' @ show_peer p) (mc_peers c)"
  by (simp add: config_lines_def)

lemma load_config_lines:
  assumes "config_clean c"
  shows "load_lines (config_lines c) \<lparr>ld_config = DefaultConfig\<lparr>mc_peers := []\<rparr>, ld_host_explicit = False, ld_port_explicit = False\<rparr> =
    Some \<lparr>ld_config = c, ld_host_explicit = True, ld_port_explicit = True\<rparr>"
proof -
  have "\<forall>p \<in> set (mc_peers c). peer_clean p" using assms by (simp add: config_clean_def)
  note peers = load_peers [OF this]
  show ?thesis
    unfolding config_lines_split [of c] load_lines_append load_fields [OF assms] bind.bind_lunit peers
    by (simp add: ld_set_def)
qed

lemma NL_show [simp]: "NL \<notin> set (show_nat n)" "NL \<notin> set (show_bool b)"
  using show_nat_chars [of NL n] by (auto simp: show_bool_def simp del: show_nat.simps)

lemma lines_no_NL:
  assumes "config_clean c"
  shows "\<forall>l \<in> set (config_lines c). NL \<notin> set l"
proof -
  have "\<forall>p \<in> set (mc_peers c). NL \<notin> set (show_peer p)"
    using assms by (auto simp: config_clean_def peer_clean_def show_peer_def simp del: show_nat.simps)
  then show ?thesis using assms by (auto simp: config_lines_def config_clean_def simp del: show_nat.simps)
qed

lemma update_first_same: "find P xs = Some x \<Longrightarrow> f x = x \<Longrightarrow> update_first P f xs = xs"
  by (induction xs) (auto split: if_splits)

lemma finish_peers_same:
  assumes "local_ok c"
  shows "finish_peers True True c = c"
proof -
  have f: "FindPeer (mc_node_id c) c = Some (local_peer c)" using assms by (simp add: local_ok_def)
  then have "mc_peers c \<noteq> []" by (auto simp: FindPeer_def)
  moreover have "update_first (\<lambda>p. pr_id p = mc_node_id c) (pr_host_update (\<lambda>_. mc_host c)) (mc_peers c) = mc_peers c"
    "update_first (\<lambda>p. pr_id p = mc_node_id c) (pr_port_update (\<lambda>_. mc_port c)) (mc_peers c) = mc_peers c"
    by (rule update_first_same [OF f [unfolded FindPeer_def]], simp add: local_peer_def)+
  ultimately show ?thesis using f by (simp add: finish_peers_def SyncLocalPeer_def Let_def)
qed

lemma not_legacy: "\<not> is_legacy (SaveToFile c)"
proof -
  obtain rest where r: "SaveToFile c = ''host='' @ rest" by (simp add: SaveToFile_def unlines_def config_lines_def)
  have "read_word (''host='' @ rest) = Some (''host='' @ takeWhile (\<lambda>c. \<not> is_space c) rest, dropWhile (\<lambda>c. \<not> is_space c) rest)"
    by (simp add: read_word_def is_space_def)
  then show ?thesis unfolding r is_legacy_def by simp
qed

section \<open>The local peer\<close>

lemma find_update_first:
  "find P xs = Some x \<Longrightarrow> P (f x) \<Longrightarrow> find P (update_first P f xs) = Some (f x)"
  by (induction xs) (auto split: if_splits)

lemma find_snoc: "find P xs = None \<Longrightarrow> P x \<Longrightarrow> find P (xs @ [x]) = Some x"
  by (induction xs) (auto split: if_splits)

lemma SyncLocalPeer_ok: "local_ok (SyncLocalPeer he pe c)"
proof (cases "FindPeer (mc_node_id c) c")
  case None
  then show ?thesis by (simp add: SyncLocalPeer_def local_ok_def FindPeer_def local_peer_def find_snoc)
next
  case (Some p)
  let ?P = "\<lambda>p. pr_id p = mc_node_id c"
  have p: "find ?P (mc_peers c) = Some p" "pr_id p = mc_node_id c" using Some by (auto simp: FindPeer_def find_Some_iff)
  define q where "q = (if he then p\<lparr>pr_host := mc_host c\<rparr> else p)"
  define ps where "ps = (if he then update_first ?P (pr_host_update (\<lambda>_. mc_host c)) (mc_peers c) else mc_peers c)"
  have q: "find ?P ps = Some q" "pr_id q = mc_node_id c" "pr_port q = pr_port p"
    using p find_update_first [OF p(1), of "pr_host_update (\<lambda>_. mc_host c)"] by (simp_all add: q_def ps_def)
  have "find ?P (update_first ?P (pr_port_update (\<lambda>_. mc_port c)) ps) = Some (q\<lparr>pr_port := mc_port c\<rparr>)"
    using find_update_first [OF q(1), of "pr_port_update (\<lambda>_. mc_port c)"] q(2) by simp
  then show ?thesis using Some q
    by (simp add: SyncLocalPeer_def local_ok_def FindPeer_def local_peer_def q_def ps_def Let_def split: if_splits)
qed

lemma finish_peers_ok: "local_ok (finish_peers he pe c)"
  by (simp add: finish_peers_def SyncLocalPeer_ok) (simp add: local_ok_def FindPeer_def local_peer_def)

lemma find_holds: "find P xs = Some x \<Longrightarrow> P x"
  by (induction xs) (auto split: if_splits)

lemma peer_collapse: "\<lparr>pr_id = pr_id p, pr_host = pr_host p, pr_port = pr_port p\<rparr> = p"
  by simp

lemma read_local_ok: "read_local input c = (True, c') \<Longrightarrow> Validate c' \<and> local_ok c'"
proof -
  assume a: "read_local input c = (True, c')"
  then obtain i input1 host input2 port input3 where r: "read_int32 input = Some (i, input1)" "read_word input1 = Some (host, input2)"
    "read_int32 input2 = Some (port, input3)" "port_ok port"
    by (auto simp: read_local_def Let_def split: option.splits if_splits)
  let ?c = "c\<lparr>mc_host := host, mc_node_id := i, mc_port := nat port\<rparr>"
  show ?thesis
  proof (cases "find (\<lambda>p. pr_id p = i) (mc_peers c)")
    case None
    then have "c' = ?c\<lparr>mc_peers := mc_peers c @ [local_peer ?c]\<rparr> \<and> Validate c'"
      using a r by (auto simp: read_local_def FindPeer_def Let_def)
    then show ?thesis using None by (auto simp: local_ok_def FindPeer_def find_snoc local_peer_def)
  next
    case (Some p)
    then have "c' = ?c\<lparr>mc_host := pr_host p, mc_port := pr_port p\<rparr> \<and> Validate c'"
      using a r by (auto simp: read_local_def FindPeer_def Let_def)
    then show ?thesis using Some find_holds [OF Some] peer_collapse [of p] by (auto simp: local_ok_def FindPeer_def local_peer_def)
  qed
qed


lemma config_read_back:
  assumes "config_clean c" "Validate c" "local_ok c"
  shows "LoadFromFile (Some (SaveToFile c)) c0 = (True, c)"
proof -
  have "getlines (SaveToFile c) = config_lines c" unfolding SaveToFile_def by (rule getlines_unlines [OF lines_no_NL [OF assms(1)]])
  then show ?thesis
    using not_legacy [of c] load_config_lines [OF assms(1)] finish_peers_same [OF assms(3)] assms(2)
    by (simp add: LoadFromFile_def Let_def)
qed

end
