(* ===== verification/Config_Theorems.thy ===== *)
theory Config_Theorems
  imports Config_Correct Pod
begin

text \<open>
  The properties of the configuration, and the addresses that \<^verbatim>\<open>ConfigManager\<close> of \<^verbatim>\<open>src/mokv/raft/config.hpp\<close> makes of it for
  the pods.
\<close>

section \<open>Addresses of the pods\<close>

record ConfigManager =
  cm_ready :: bool
  cm_addresses :: "Address list"
  cm_local_address :: Address

definition address_of :: "RaftPeer \<Rightarrow> Address" where
  "address_of p = \<lparr>ad_id = word_of_int (pr_id p), ad_ip = pr_host p, ad_port = of_nat (pr_port p)\<rparr>"

definition cleared_address :: Address where
  "cleared_address = \<lparr>ad_id = 0, ad_ip = [], ad_port = 0\<rparr>"

text \<open>The last peer with the id of the node becomes the local address.\<close>

definition LoadFromMokvConfig :: "MokvConfig \<Rightarrow> bool \<times> ConfigManager" where
  "LoadFromMokvConfig config =
     (let addresses = map address_of (mc_peers config);
          loc = fold (\<lambda>p a. if pr_id p = mc_node_id config then address_of p else a) (mc_peers config) cleared_address;
          (addresses, loc) =
            (if ad_ip loc = [] \<or> ad_port loc = 0
             then (addresses @ [address_of (local_peer config)], address_of (local_peer config))
             else (addresses, loc));
          ready = 0 < sint (ad_port loc)
      in (ready, \<lparr>cm_ready = ready, cm_addresses = addresses, cm_local_address = loc\<rparr>))"

definition ConfigManager_Load :: "string option \<Rightarrow> ConfigManager \<Rightarrow> bool \<times> ConfigManager" where
  "ConfigManager_Load content m =
     (case LoadFromFile content DefaultConfig of
        (False, c) \<Rightarrow> (False, m)
      | (True, c) \<Rightarrow> LoadFromMokvConfig c)"

section \<open>Properties\<close>

text \<open>
  C24: A configuration is read back from the file that \<^verbatim>\<open>SaveToFile\<close> writes, whatever the configuration was before, if it is
  valid, its numbers fit their types, its texts have neither newlines nor white space at their ends (the hosts of
  peers no comma), and the local peer agrees with the host and port of the node.
\<close>
theorem config_roundtrip:
  assumes "config_clean c" "Validate c" "local_ok c"
  shows "LoadFromFile (Some (SaveToFile c)) c0 = (True, c)"
  using assms by (rule config_read_back)

lemma default_clean: "config_clean DefaultConfig" "Validate DefaultConfig" "local_ok DefaultConfig"
  by (simp_all add: config_clean_def DefaultConfig_def blank_config_def local_peer_def peer_clean_def trimmed_def is_space_def int32_def
      Validate_def local_ok_def FindPeer_def)

theorem config_roundtrip_witness:
  "LoadFromFile (Some (SaveToFile DefaultConfig)) (DefaultConfig\<lparr>mc_port := 1\<rparr>) = (True, DefaultConfig)"
  using config_roundtrip [OF default_clean] .

lemma short_legacy:
  "is_legacy ''2 1 a 9001''" "read_unsigned ''2 1 a 9001'' = Some (2, '' 1 a 9001'')"
  "read_peer '' 1 a 9001'' = Some (\<lparr>pr_id = 1, pr_host = ''a'', pr_port = 9001\<rparr>, [])" "read_peer [] = None"
  by (simp_all add: is_legacy_def read_word_def is_space_def is_digit_def less_eq_char_def read_unsigned_def
      numeral_at_def digits_val_def digit_val_def read_peer_def read_int32_def read_signed_def port_ok_def Let_def)

text \<open>
  C25: A file that is accepted, in either format, yields a valid configuration whose local peer has the host and port of
  the node, and the environment never breaks that agreement.  A file of lines that is refused leaves the configuration
  as it was, but a refused file in the legacy format does not.
\<close>
theorem config_load_spec:
  "(LoadFromFile t c = (True, c') \<longrightarrow> Validate c' \<and> local_ok c') \<and>
   (LoadFromFile t c = (False, c') \<longrightarrow> (t = None \<or> \<not> is_legacy (the t)) \<longrightarrow> c' = c) \<and>
   local_ok (LoadFromEnv env c) \<and>
   LoadFromFile (Some ''2 1 a 9001'') (DefaultConfig\<lparr>mc_log_level := ''DEBUG''\<rparr>) =
     (False, DefaultConfig\<lparr>mc_peers := [\<lparr>pr_id = 1, pr_host = ''a'', pr_port = 9001\<rparr>]\<rparr>)"
proof (intro conjI impI)
  assume a: "LoadFromFile t c = (True, c')"
  then obtain body where t: "t = Some body" by (cases t) (simp_all add: LoadFromFile_def)
  show "Validate c'" "local_ok c'"
    using a finish_peers_ok read_local_ok unfolding t
    by (auto simp: LoadFromFile_def LoadLegacyConfig_def Let_def split: if_splits option.splits prod.splits)
next
  assume "LoadFromFile t c = (False, c')" "t = None \<or> \<not> is_legacy (the t)"
  then show "c' = c" by (auto simp: LoadFromFile_def Let_def split: if_splits option.splits)
next
  show "local_ok (LoadFromEnv env c)" unfolding LoadFromEnv_def Let_def by (rule finish_peers_ok)
next
  show "LoadFromFile (Some ''2 1 a 9001'') (DefaultConfig\<lparr>mc_log_level := ''DEBUG''\<rparr>) =
     (False, DefaultConfig\<lparr>mc_peers := [\<lparr>pr_id = 1, pr_host = ''a'', pr_port = 9001\<rparr>]\<rparr>)"
    using short_legacy by (simp add: LoadFromFile_def LoadLegacyConfig_def numeral_2_eq_2)
qed

theorem config_load_spec_witness:
  "\<exists>c'. LoadFromFile (Some (SaveToFile DefaultConfig)) (DefaultConfig\<lparr>mc_port := 1\<rparr>) = (True, c') \<and> Validate c' \<and> local_ok c'"
  using config_read_back [OF default_clean, of "DefaultConfig\<lparr>mc_port := 1\<rparr>"]
    config_load_spec [of "Some (SaveToFile DefaultConfig)" "DefaultConfig\<lparr>mc_port := 1\<rparr>" DefaultConfig Map.empty] by blast

section \<open>Types\<close>





















end
