(* ===== verification/DList.thy ===== *)
theory DList
  imports Prelude "HOL-Library.Monad_Syntax"
begin

text \<open>
  The doubly linked list of \<^verbatim>\<open>src/mokv/cache/list.hpp\<close>: nodes in a heap, a dummy node that closes the circle, and a 64-bit size.
  The element of a node is a shared pointer, \<open>None\<close> in the dummy.  A \<open>None\<close> result is an access to a node that does not
  exist.  \<open>dl_rep\<close> relates a list to the addresses of its nodes in order.
\<close>

record 'v dnode =
  dn_value :: "'v option"
  dn_promotions :: "64 word"
  dn_nxt :: nat
  dn_pre :: nat

record 'v dlist =
  dl_heap :: "nat \<rightharpoonup> 'v dnode"
  dl_fresh :: nat
  dl_dummy :: nat
  dl_size :: "64 word"

section \<open>Operations\<close>

definition dl_new :: "'v dlist" where
  "dl_new = \<lparr>dl_heap = [0 \<mapsto> \<lparr>dn_value = None, dn_promotions = 0, dn_nxt = 0, dn_pre = 0\<rparr>], dl_fresh = 1, dl_dummy = 0, dl_size = 0\<rparr>"

definition set_nxt :: "nat \<Rightarrow> nat \<Rightarrow> (nat \<rightharpoonup> 'v dnode) \<Rightarrow> (nat \<rightharpoonup> 'v dnode) option" where
  "set_nxt a x h = map_option (\<lambda>n. h(a \<mapsto> n\<lparr>dn_nxt := x\<rparr>)) (h a)"

definition set_pre :: "nat \<Rightarrow> nat \<Rightarrow> (nat \<rightharpoonup> 'v dnode) \<Rightarrow> (nat \<rightharpoonup> 'v dnode) option" where
  "set_pre a x h = map_option (\<lambda>n. h(a \<mapsto> n\<lparr>dn_pre := x\<rparr>)) (h a)"

definition link_front :: "nat \<Rightarrow> nat \<Rightarrow> (nat \<rightharpoonup> 'v dnode) \<Rightarrow> (nat \<rightharpoonup> 'v dnode) option" where
  "link_front d a h =
     do { dn \<leftarrow> h d;
          h \<leftarrow> set_nxt a (dn_nxt dn) h;
          h \<leftarrow> set_pre a d h;
          dn \<leftarrow> h d;
          h \<leftarrow> set_pre (dn_nxt dn) a h;
          set_nxt d a h }"

definition link_back :: "nat \<Rightarrow> nat \<Rightarrow> (nat \<rightharpoonup> 'v dnode) \<Rightarrow> (nat \<rightharpoonup> 'v dnode) option" where
  "link_back d a h =
     do { dn \<leftarrow> h d;
          h \<leftarrow> set_pre a (dn_pre dn) h;
          h \<leftarrow> set_nxt a d h;
          dn \<leftarrow> h d;
          h \<leftarrow> set_nxt (dn_pre dn) a h;
          set_pre d a h }"

definition new_node :: "'v \<Rightarrow> 'v dnode" where
  "new_node v = \<lparr>dn_value = Some v, dn_promotions = 0, dn_nxt = 0, dn_pre = 0\<rparr>"

definition dl_PushFront :: "'v \<Rightarrow> 'v dlist \<Rightarrow> (nat \<times> 'v dlist) option" where
  "dl_PushFront v l =
     do { let a = dl_fresh l;
          h \<leftarrow> link_front (dl_dummy l) a ((dl_heap l)(a \<mapsto> new_node v));
          Some (a, l\<lparr>dl_heap := h, dl_fresh := a + 1, dl_size := dl_size l + 1\<rparr>) }"

definition dl_PushBack :: "'v \<Rightarrow> 'v dlist \<Rightarrow> (nat \<times> 'v dlist) option" where
  "dl_PushBack v l =
     do { let a = dl_fresh l;
          h \<leftarrow> link_back (dl_dummy l) a ((dl_heap l)(a \<mapsto> new_node v));
          Some (a, l\<lparr>dl_heap := h, dl_fresh := a + 1, dl_size := dl_size l + 1\<rparr>) }"

definition dl_InsertFront :: "nat \<Rightarrow> 'v dlist \<Rightarrow> 'v dlist option" where
  "dl_InsertFront a l = map_option (\<lambda>h. l\<lparr>dl_heap := h\<rparr>) (link_front (dl_dummy l) a (dl_heap l))"

definition unlink :: "nat \<Rightarrow> (nat \<rightharpoonup> 'v dnode) \<Rightarrow> (nat \<rightharpoonup> 'v dnode) option" where
  "unlink a h =
     do { n \<leftarrow> h a;
          h \<leftarrow> set_nxt (dn_pre n) (dn_nxt n) h;
          n \<leftarrow> h a;
          set_pre (dn_nxt n) (dn_pre n) h }"

definition dl_Extract :: "nat \<Rightarrow> 'v dlist \<Rightarrow> 'v dlist option" where
  "dl_Extract a l = map_option (\<lambda>h. l\<lparr>dl_heap := h\<rparr>) (unlink a (dl_heap l))"

text \<open>\<^verbatim>\<open>PopFront\<close> and \<^verbatim>\<open>PopBack\<close>: the outer \<open>None\<close> is a bad access, the inner one the null pointer of an empty list.  The node is freed.\<close>

definition pop_node :: "nat \<Rightarrow> 'v dlist \<Rightarrow> ('v dnode option \<times> 'v dlist) option" where
  "pop_node a l =
     do { l \<leftarrow> dl_Extract a (l\<lparr>dl_size := dl_size l - 1\<rparr>);
          n \<leftarrow> dl_heap l a;
          Some (Some n, l\<lparr>dl_heap := (dl_heap l)(a := None)\<rparr>) }"

definition dl_PopFront :: "'v dlist \<Rightarrow> ('v dnode option \<times> 'v dlist) option" where
  "dl_PopFront l =
     (if dl_size l = 0 then Some (None, l)
      else do { d \<leftarrow> dl_heap l (dl_dummy l); pop_node (dn_nxt d) l })"

definition dl_PopBack :: "'v dlist \<Rightarrow> ('v dnode option \<times> 'v dlist) option" where
  "dl_PopBack l =
     (if dl_size l = 0 then Some (None, l)
      else do { d \<leftarrow> dl_heap l (dl_dummy l); pop_node (dn_pre d) l })"

text \<open>\<^verbatim>\<open>Insert\<close> behind a node: neither the back pointer of the next node nor the size is changed.\<close>

definition dl_Insert :: "nat \<Rightarrow> 'v \<Rightarrow> 'v dlist \<Rightarrow> 'v dlist option" where
  "dl_Insert b v l =
     do { let a = dl_fresh l;
          n \<leftarrow> dl_heap l b;
          h \<leftarrow> set_nxt b a ((dl_heap l)(a \<mapsto> (new_node v)\<lparr>dn_nxt := dn_nxt n, dn_pre := b\<rparr>));
          Some (l\<lparr>dl_heap := h, dl_fresh := a + 1\<rparr>) }"

section \<open>Chains\<close>

definition nxt_of :: "(nat \<rightharpoonup> 'v dnode) \<Rightarrow> nat \<Rightarrow> nat option" where "nxt_of h a = map_option dn_nxt (h a)"
definition pre_of :: "(nat \<rightharpoonup> 'v dnode) \<Rightarrow> nat \<Rightarrow> nat option" where "pre_of h a = map_option dn_pre (h a)"

fun chain :: "(nat \<rightharpoonup> 'v dnode) \<Rightarrow> nat list \<Rightarrow> bool" where
  "chain h [] = True"
| "chain h [a] = True"
| "chain h (a # b # xs) = (nxt_of h a = Some b \<and> pre_of h b = Some a \<and> chain h (b # xs))"

lemma chain_append: "chain h (xs @ a # b # ys) \<longleftrightarrow> chain h (xs @ [a]) \<and> nxt_of h a = Some b \<and> pre_of h b = Some a \<and> chain h (b # ys)"
proof (induction xs)
  case (Cons x xs)
  then show ?case by (cases xs) auto
qed simp

lemma chain_cong:
  assumes "\<And>a. a \<in> set (butlast xs) \<Longrightarrow> nxt_of h' a = nxt_of h a" "\<And>a. a \<in> set (tl xs) \<Longrightarrow> pre_of h' a = pre_of h a"
  shows "chain h' xs = chain h xs"
  using assms
proof (induction xs rule: induct_list012)
  case (3 x y zs)
  have "chain h' (y # zs) = chain h (y # zs)"
  proof (rule 3(2))
    show "\<And>a. a \<in> set (butlast (y # zs)) \<Longrightarrow> nxt_of h' a = nxt_of h a" using 3(3) by simp
    show "\<And>a. a \<in> set (tl (y # zs)) \<Longrightarrow> pre_of h' a = pre_of h a" using 3(4) by simp
  qed
  then show ?case using 3(3,4) by simp
qed simp_all

definition dl_rep :: "'v dlist \<Rightarrow> nat list \<Rightarrow> bool" where
  "dl_rep l ns =
     (chain (dl_heap l) (dl_dummy l # ns @ [dl_dummy l]) \<and> distinct (dl_dummy l # ns) \<and>
      set (dl_dummy l # ns) \<subseteq> dom (dl_heap l) \<and> (\<forall>a \<in> dom (dl_heap l). a < dl_fresh l) \<and> dl_size l = of_nat (length ns))"

lemma dl_rep_new: "dl_rep dl_new []"
  by (simp add: dl_rep_def dl_new_def nxt_of_def pre_of_def)

text \<open>Two heaps agree on the contents of their nodes.\<close>

definition content :: "(nat \<rightharpoonup> 'v dnode) \<Rightarrow> nat \<Rightarrow> ('v option \<times> 64 word) option" where
  "content h a = map_option (\<lambda>n. (dn_value n, dn_promotions n)) (h a)"

lemma dom_content: "dom (content h) = dom h" by (auto simp: content_def dom_def)

lemma content_dom: "content h' = content h \<Longrightarrow> dom h' = dom h" by (metis dom_content)

lemma set_nxt_ok:
  assumes "a \<in> dom h"
  obtains h' where "set_nxt a x h = Some h'" "nxt_of h' = (nxt_of h)(a \<mapsto> x)" "pre_of h' = pre_of h" "content h' = content h"
proof -
  obtain n where n: "h a = Some n" using assms by blast
  show thesis
    by (rule that [of "h(a \<mapsto> n\<lparr>dn_nxt := x\<rparr>)"]) (auto simp: n set_nxt_def nxt_of_def pre_of_def content_def fun_eq_iff)
qed

lemma set_pre_ok:
  assumes "a \<in> dom h"
  obtains h' where "set_pre a x h = Some h'" "pre_of h' = (pre_of h)(a \<mapsto> x)" "nxt_of h' = nxt_of h" "content h' = content h"
proof -
  obtain n where n: "h a = Some n" using assms by blast
  show thesis
    by (rule that [of "h(a \<mapsto> n\<lparr>dn_pre := x\<rparr>)"]) (auto simp: n set_pre_def nxt_of_def pre_of_def content_def fun_eq_iff)
qed

lemma nxt_of_Some: "nxt_of h a = Some x \<Longrightarrow> \<exists>n. h a = Some n \<and> dn_nxt n = x" by (simp add: nxt_of_def)
lemma pre_of_Some: "pre_of h a = Some x \<Longrightarrow> \<exists>n. h a = Some n \<and> dn_pre n = x" by (simp add: pre_of_def)

text \<open>A node that is not in the chain becomes its first or its last one.\<close>

lemma link_front_ok:
  assumes c: "chain h (d # ns @ [d])" and dist: "distinct (d # ns)" and dom: "set (d # ns) \<subseteq> dom h" and a: "a \<in> dom h" "a \<notin> set (d # ns)"
  obtains h' where "link_front d a h = Some h'" "chain h' (d # a # ns @ [d])" "content h' = content h"
proof -
  obtain f rest where f: "ns @ [d] = f # rest" by (cases ns) auto
  have mem: "f \<in> set (d # ns)" "f \<notin> set rest" "f \<noteq> a" "a \<noteq> d" "a \<notin> set rest"
    using f dist a(2) by (cases ns; auto)+
  have nd: "nxt_of h d = Some f" using c unfolding f by simp
  obtain h1 where h1: "set_nxt a f h = Some h1" "nxt_of h1 = (nxt_of h)(a \<mapsto> f)" "pre_of h1 = pre_of h" "content h1 = content h"
    using set_nxt_ok [OF a(1)] .
  have "a \<in> dom h1" using a(1) content_dom [OF h1(4)] by simp
  from set_pre_ok [OF this] obtain h2 where h2: "set_pre a d h1 = Some h2" "pre_of h2 = (pre_of h1)(a \<mapsto> d)" "nxt_of h2 = nxt_of h1" "content h2 = content h1" .
  have "f \<in> dom h2" using mem(1) dom content_dom [OF h1(4)] content_dom [OF h2(4)] by auto
  from set_pre_ok [OF this] obtain h3 where h3: "set_pre f a h2 = Some h3" "pre_of h3 = (pre_of h2)(f \<mapsto> a)" "nxt_of h3 = nxt_of h2" "content h3 = content h2" .
  have "d \<in> dom h3" using dom content_dom [OF h1(4)] content_dom [OF h2(4)] content_dom [OF h3(4)] by auto
  from set_nxt_ok [OF this] obtain h4 where h4: "set_nxt d a h3 = Some h4" "nxt_of h4 = (nxt_of h3)(d \<mapsto> a)" "pre_of h4 = pre_of h3" "content h4 = content h3" .
  obtain n0 n2 where n: "h d = Some n0" "dn_nxt n0 = f" "h2 d = Some n2" "dn_nxt n2 = f"
    using nxt_of_Some [OF nd] nxt_of_Some [of h2 d f] nd mem(4) h1(2) h2(3) by auto
  have "link_front d a h = Some h4" using n h1(1) h2(1) h3(1) h4(1) by (simp add: link_front_def)
  moreover have "chain h4 (f # rest) = chain h (f # rest)"
  proof (rule chain_cong)
    fix x
    assume "x \<in> set (butlast (f # rest))"
    then have "x \<in> set ns" using f by (metis butlast_snoc)
    then have "x \<noteq> a" "x \<noteq> d" using a(2) dist by auto
    then show "nxt_of h4 x = nxt_of h x" using h1(2) h2(3) h3(3) h4(2) by simp
  next
    fix x
    assume "x \<in> set (tl (f # rest))"
    then have "x \<noteq> a" "x \<noteq> f" using mem by auto
    then show "pre_of h4 x = pre_of h x" using h1(3) h2(2) h3(2) h4(3) by simp
  qed
  then have "chain h4 (d # a # ns @ [d])"
    using c h1(2,3) h2(2,3) h3(2,3) h4(2,3) mem unfolding f by simp
  ultimately show thesis using that h1(4) h2(4) h3(4) h4(4) by simp
qed

text \<open>A node is taken out of the chain; its contents stay.\<close>

lemma unlink_ok:
  assumes c: "chain h (d # as @ x # bs @ [d])" and dist: "distinct (d # as @ x # bs)" and dom: "set (d # as @ x # bs) \<subseteq> dom h"
  obtains h' where "unlink x h = Some h'" "chain h' (d # as @ bs @ [d])" "content h' = content h"
proof -
  obtain ps p where p: "d # as = ps @ [p]" by (metis append_butlast_last_id list.distinct(1))
  obtain n ss where n: "bs @ [d] = n # ss" by (cases bs) auto
  have "distinct (ps @ [p])" using dist by (simp flip: p)
  then have pp: "p \<notin> set ps" "p \<in> set (d # as)" unfolding p by auto
  have nn: "n \<in> set (d # bs)" "n \<notin> set ss" "n \<notin> set as" using n dist by (cases bs; auto)+
  have px: "p \<noteq> x" "p \<notin> set bs" "p \<in> dom h" using pp(2) dist dom by auto
  have nd: "n \<in> dom h" using nn(1) dom by auto
  have "d # as @ x # bs @ [d] = ps @ p # x # n # ss" using p n by (metis append.assoc append_Cons append_Nil)
  then have "chain h (ps @ p # x # n # ss)" using c by simp
  then have links: "chain h (ps @ [p])" "pre_of h x = Some p" "nxt_of h x = Some n" "chain h (n # ss)"
    by (simp_all add: chain_append [of h ps p x])
  obtain h1 where h1: "set_nxt p n h = Some h1" "nxt_of h1 = (nxt_of h)(p \<mapsto> n)" "pre_of h1 = pre_of h" "content h1 = content h"
    using set_nxt_ok [OF px(3)] .
  have "n \<in> dom h1" using nd content_dom [OF h1(4)] by simp
  from set_pre_ok [OF this] obtain h2 where h2: "set_pre n p h1 = Some h2" "pre_of h2 = (pre_of h1)(n \<mapsto> p)" "nxt_of h2 = nxt_of h1" "content h2 = content h1" .
  obtain m where m: "h x = Some m" "dn_pre m = p" "dn_nxt m = n" using links(2,3) by (auto simp: pre_of_def nxt_of_def)
  have "nxt_of h1 x = Some n" "pre_of h1 x = Some p" using h1(2,3) links(2,3) px(1) by simp_all
  then obtain m1 where m1: "h1 x = Some m1" "dn_pre m1 = p" "dn_nxt m1 = n" by (auto simp: pre_of_def nxt_of_def)
  have "unlink x h = Some h2" using m m1 h1(1) h2(1) by (simp add: unlink_def)
  moreover have "chain h2 (ps @ [p]) = chain h (ps @ [p])"
  proof (rule chain_cong)
    fix y
    assume "y \<in> set (butlast (ps @ [p]))"
    then show "nxt_of h2 y = nxt_of h y" using pp(1) h1(2) h2(3) by auto
  next
    fix y
    assume "y \<in> set (tl (ps @ [p]))"
    then have "y \<noteq> n" using nn(3) unfolding p [symmetric] by auto
    then show "pre_of h2 y = pre_of h y" using h1(3) h2(2) by simp
  qed
  moreover have "chain h2 (n # ss) = chain h (n # ss)"
  proof (rule chain_cong)
    fix y
    assume "y \<in> set (butlast (n # ss))"
    then have "y \<in> set bs" using n by (metis butlast_snoc)
    then show "nxt_of h2 y = nxt_of h y" using px(2) h1(2) h2(3) by auto
  next
    fix y
    assume "y \<in> set (tl (n # ss))"
    then show "pre_of h2 y = pre_of h y" using nn(2) h1(3) h2(2) by auto
  qed
  ultimately have "chain h2 (ps @ p # n # ss)" using links(1,4) h1(2) h2(2,3) by (simp add: chain_append)
  moreover have "d # as @ bs @ [d] = ps @ p # n # ss" using p n by (metis append.assoc append_Cons append_Nil)
  ultimately show thesis using that \<open>unlink x h = Some h2\<close> h1(4) h2(4) by simp
qed

section \<open>Operations on the list\<close>

lemma dl_repD:
  assumes "dl_rep l ns"
  shows "chain (dl_heap l) (dl_dummy l # ns @ [dl_dummy l])" "distinct (dl_dummy l # ns)" "set (dl_dummy l # ns) \<subseteq> dom (dl_heap l)"
    "\<And>a. a \<in> dom (dl_heap l) \<Longrightarrow> a < dl_fresh l" "dl_size l = of_nat (length ns)"
  using assms by (auto simp: dl_rep_def)

text \<open>Changing the contents of nodes, but no pointer.\<close>

lemma dl_rep_contents:
  assumes "dl_rep l ns" "nxt_of h = nxt_of (dl_heap l)" "pre_of h = pre_of (dl_heap l)"
  shows "dl_rep (l\<lparr>dl_heap := h\<rparr>) ns"
proof -
  have "dom h = dom (dl_heap l)"
  proof (rule set_eqI)
    fix a
    have "nxt_of h a = nxt_of (dl_heap l) a" using assms(2) by simp
    then show "a \<in> dom h \<longleftrightarrow> a \<in> dom (dl_heap l)" by (cases "h a"; cases "dl_heap l a"; simp add: nxt_of_def domIff)
  qed
  moreover have "chain h xs = chain (dl_heap l) xs" for xs by (rule chain_cong) (simp_all add: assms(2,3))
  ultimately show ?thesis using assms(1) by (simp add: dl_rep_def)
qed

lemma dl_PushFront_ok:
  assumes rep: "dl_rep l ns"
  obtains l' where "dl_PushFront v l = Some (dl_fresh l, l')" "dl_rep l' (dl_fresh l # ns)" "dl_fresh l \<notin> set ns"
    "content (dl_heap l') = (content (dl_heap l))(dl_fresh l \<mapsto> (Some v, 0))"
proof -
  let ?a = "dl_fresh l" and ?d = "dl_dummy l"
  let ?h = "(dl_heap l)(?a \<mapsto> new_node v)"
  note r = dl_repD [OF rep]
  have new: "?a \<notin> set (?d # ns)" using r(3,4) by blast
  have "chain ?h (?d # ns @ [?d]) = chain (dl_heap l) (?d # ns @ [?d])"
  proof (rule chain_cong)
    fix x
    assume "x \<in> set (butlast (?d # ns @ [?d]))"
    then have "x \<noteq> ?a" using new by (auto simp: butlast_append split: if_splits)
    then show "nxt_of ?h x = nxt_of (dl_heap l) x" by (simp add: nxt_of_def)
  next
    fix x
    assume "x \<in> set (tl (?d # ns @ [?d]))"
    then have "x \<noteq> ?a" using new by auto
    then show "pre_of ?h x = pre_of (dl_heap l) x" by (simp add: pre_of_def)
  qed
  then have c: "chain ?h (?d # ns @ [?d])" using r(1) by simp
  have dom: "set (?d # ns) \<subseteq> dom ?h" "?a \<in> dom ?h" using r(3) by auto
  obtain h where h: "link_front ?d ?a ?h = Some h" "chain h (?d # ?a # ns @ [?d])" "content h = content ?h"
    using link_front_ok [OF c r(2) dom(1) dom(2) new] .
  define l' where "l' = l\<lparr>dl_heap := h, dl_fresh := ?a + 1, dl_size := dl_size l + 1\<rparr>"
  have "dom h = insert ?a (dom (dl_heap l))" using content_dom [OF h(3)] by simp
  then have "dl_rep l' (?a # ns)"
    using h(2) r new by (auto simp: dl_rep_def l'_def intro: less_SucI)
  moreover have "content h = (content (dl_heap l))(?a \<mapsto> (Some v, 0))"
    unfolding h(3) by (auto simp: content_def new_node_def fun_eq_iff)
  moreover have "dl_PushFront v l = Some (?a, l')" using h(1) by (simp add: dl_PushFront_def l'_def Let_def)
  ultimately show thesis using that [of l'] new by (simp add: l'_def)
qed


lemma dl_PopBack_ok:
  assumes rep: "dl_rep l (ns @ [a])" and small: "length ns + 1 < 2 ^ 64"
  obtains n l' where "dl_PopBack l = Some (Some n, l')" "dl_rep l' ns" "content (dl_heap l) a = Some (dn_value n, dn_promotions n)"
    "content (dl_heap l') = (content (dl_heap l))(a := None)"
proof -
  let ?d = "dl_dummy l"
  note r = dl_repD [OF rep]
  have "unat (of_nat (length ns + 1) :: 64 word) = length ns + 1" using small by (simp add: unsigned_of_nat take_bit_nat_eq_self del: of_nat_Suc of_nat_add)
  then have ne: "dl_size l \<noteq> 0" using r(5) by (metis Suc_eq_plus1 length_append_singleton nat.distinct(1) unat_0)
  have "pre_of (dl_heap l) ?d = Some a" using r(1) chain_append [of "dl_heap l" "?d # ns" a ?d "[]"] by simp
  then obtain dn where dn: "dl_heap l ?d = Some dn" "dn_pre dn = a" using pre_of_Some by blast
  have c: "chain (dl_heap l) (?d # ns @ a # [] @ [?d])" using r(1) by simp
  have ds: "distinct (?d # ns @ a # [])" "set (?d # ns @ a # []) \<subseteq> dom (dl_heap l)" using r(2,3) by auto
  obtain h where h: "unlink a (dl_heap l) = Some h" "chain h (?d # ns @ [] @ [?d])" "content h = content (dl_heap l)"
    using unlink_ok [OF c ds] .
  have "a \<in> dom h" using ds(2) content_dom [OF h(3)] by auto
  then obtain n where n: "h a = Some n" by blast
  define l' where "l' = l\<lparr>dl_size := dl_size l - 1, dl_heap := h(a := None)\<rparr>"
  have pop: "dl_PopBack l = Some (Some n, l')" using ne dn h(1) n by (simp add: dl_PopBack_def pop_node_def dl_Extract_def l'_def)
  have a: "a \<notin> set (?d # ns)" using ds(1) by auto
  have "chain (h(a := None)) (?d # ns @ [?d]) = chain h (?d # ns @ [?d])"
  proof (rule chain_cong)
    fix x
    assume "x \<in> set (butlast (?d # ns @ [?d]))"
    then have "x \<noteq> a" using a by (auto simp: butlast_append split: if_splits)
    then show "nxt_of (h(a := None)) x = nxt_of h x" by (simp add: nxt_of_def)
  next
    fix x
    assume "x \<in> set (tl (?d # ns @ [?d]))"
    then have "x \<noteq> a" using a by auto
    then show "pre_of (h(a := None)) x = pre_of h x" by (simp add: pre_of_def)
  qed
  then have "dl_rep l' ns"
    using h(2) r a content_dom [OF h(3)] by (auto simp: dl_rep_def l'_def)
  moreover have "content (dl_heap l') = (content (dl_heap l))(a := None)"
    unfolding h(3) [symmetric] by (auto simp: content_def l'_def fun_eq_iff)
  moreover have "content (dl_heap l) a = Some (dn_value n, dn_promotions n)" using n unfolding h(3) [symmetric] by (simp add: content_def)
  ultimately show thesis using that pop by blast
qed

text \<open>A node moves to the front.\<close>

lemma move_front_ok:
  assumes rep: "dl_rep l (as @ x # bs)"
  obtains l1 l' where "dl_Extract x l = Some l1" "dl_InsertFront x l1 = Some l'" "dl_rep l' (x # as @ bs)" "content (dl_heap l') = content (dl_heap l)"
    "dl_fresh l' = dl_fresh l"
proof -
  let ?d = "dl_dummy l"
  note r = dl_repD [OF rep]
  have c: "chain (dl_heap l) (?d # as @ x # bs @ [?d])" using r(1) by simp
  obtain h where h: "unlink x (dl_heap l) = Some h" "chain h (?d # as @ bs @ [?d])" "content h = content (dl_heap l)"
    using unlink_ok [OF c r(2,3)] .
  have dom: "dom h = dom (dl_heap l)" using content_dom [OF h(3)] .
  have c2: "chain h (?d # (as @ bs) @ [?d])" using h(2) by simp
  have ds: "distinct (?d # as @ bs)" "set (?d # as @ bs) \<subseteq> dom h" "x \<in> dom h" "x \<notin> set (?d # as @ bs)" using r(2,3) dom by auto
  obtain h' where h': "link_front ?d x h = Some h'" "chain h' (?d # x # (as @ bs) @ [?d])" "content h' = content h"
    using link_front_ok [OF c2 ds] .
  define l' where "l' = l\<lparr>dl_heap := h'\<rparr>"
  have "dl_rep l' (x # as @ bs)" using r ds h'(2) content_dom [OF h'(3)] dom by (auto simp: dl_rep_def l'_def)
  moreover have "dl_Extract x l = Some (l\<lparr>dl_heap := h\<rparr>)" "dl_InsertFront x (l\<lparr>dl_heap := h\<rparr>) = Some l'"
    using h(1) h'(1) by (simp_all add: dl_Extract_def dl_InsertFront_def l'_def)
  ultimately show thesis using that h(3) h'(3) by (simp add: l'_def)
qed

end
