(* ===== verification/LRUCache.thy ===== *)
theory LRUCache
  imports DList
begin

text \<open>
  The class \<^verbatim>\<open>ConcurrentLRUCache\<close> of \<^verbatim>\<open>src/mokv/cache/concurrent_cache.hpp\<close>: a hash table from keys to list nodes, the list
  of \<open>DList\<close> with the most recently promoted node first, and a counter in every node that delays its promotion.  The hash
  table is the class \<^verbatim>\<open>concurrent_flat_map\<close> of Boost: it is the environment \<open>cache_env\<close>, together with the conversion of a value to
  its key, and \<open>cache_env_ok\<close> states its documented behaviour.  A critical section is one definition, so that the two
  sections of a put can be interleaved with those of other threads; \<open>None\<close> is an access to a node that does not exist or
  through a null pointer.
\<close>

section \<open>The hash table\<close>

record ('k, 'v, 'm) cache_env =
  ce_key :: "'v \<Rightarrow> 'k"
  ce_empty :: 'm
  ce_find :: "'m \<Rightarrow> 'k \<Rightarrow> nat option"
  ce_emplace :: "'k \<Rightarrow> nat \<Rightarrow> 'm \<Rightarrow> 'm"
  ce_erase :: "'k \<Rightarrow> 'm \<Rightarrow> 'm"
  ce_reserve :: "64 word \<Rightarrow> 'm \<Rightarrow> 'm"
  ce_size :: "'m \<Rightarrow> nat"

text \<open>\<^verbatim>\<open>emplace\<close> does not replace an element that is there; \<^verbatim>\<open>reserve\<close> changes no element.\<close>

definition cache_env_ok :: "('k, 'v, 'm) cache_env \<Rightarrow> bool" where
  "cache_env_ok E =
     (ce_find E (ce_empty E) = Map.empty \<and>
      (\<forall>k a m. ce_find E (ce_emplace E k a m) = (if ce_find E m k = None then (ce_find E m)(k \<mapsto> a) else ce_find E m)) \<and>
      (\<forall>k m. ce_find E (ce_erase E k m) = (ce_find E m)(k := None)) \<and>
      (\<forall>n m. ce_find E (ce_reserve E n m) = ce_find E m) \<and>
      (\<forall>m. ce_size E m = card (dom (ce_find E m))))"

section \<open>The class\<close>

record ('v, 'm) lru =
  lru_capacity :: "64 word"
  lru_should_promote_num :: "64 word"
  lru_map :: 'm
  lru_list :: "'v dlist"

definition lru_new :: "('k, 'v, 'm) cache_env \<Rightarrow> 64 word \<Rightarrow> 64 word \<Rightarrow> ('v, 'm) lru" where
  "lru_new E capacity should_promote_num =
     \<lparr>lru_capacity = capacity, lru_should_promote_num = should_promote_num, lru_map = ce_empty E, lru_list = dl_new\<rparr>"

definition lru_Reserve :: "('k, 'v, 'm) cache_env \<Rightarrow> 64 word \<Rightarrow> ('v, 'm) lru \<Rightarrow> ('v, 'm) lru" where
  "lru_Reserve E capacity c = c\<lparr>lru_capacity := capacity, lru_map := ce_reserve E capacity (lru_map c)\<rparr>"

definition set_promotions :: "nat \<Rightarrow> (64 word \<Rightarrow> 64 word) \<Rightarrow> ('v, 'm) lru \<Rightarrow> ('v, 'm) lru option" where
  "set_promotions a f c =
     do { n \<leftarrow> dl_heap (lru_list c) a;
          Some (c\<lparr>lru_list := (lru_list c)\<lparr>dl_heap := (dl_heap (lru_list c))(a \<mapsto> n\<lparr>dn_promotions := f (dn_promotions n)\<rparr>)\<rparr>\<rparr>) }"

definition lru_ShouldPromote :: "nat \<Rightarrow> ('v, 'm) lru \<Rightarrow> (bool \<times> ('v, 'm) lru) option" where
  "lru_ShouldPromote a c =
     do { n \<leftarrow> dl_heap (lru_list c) a;
          c \<leftarrow> set_promotions a (\<lambda>p. p + 1) c;
          Some (lru_should_promote_num c \<le> dn_promotions n, c) }"

definition lru_ResetPromote :: "nat \<Rightarrow> ('v, 'm) lru \<Rightarrow> ('v, 'm) lru option" where
  "lru_ResetPromote a c = set_promotions a (\<lambda>_. 0) c"

definition lru_PromoteNoLock :: "nat \<Rightarrow> ('v, 'm) lru \<Rightarrow> ('v, 'm) lru option" where
  "lru_PromoteNoLock a c =
     do { l \<leftarrow> dl_Extract a (lru_list c);
          l \<leftarrow> dl_InsertFront a l;
          lru_ResetPromote a (c\<lparr>lru_list := l\<rparr>) }"

definition lru_Promote :: "nat \<Rightarrow> ('v, 'm) lru \<Rightarrow> ('v, 'm) lru option" where
  "lru_Promote a c =
     do { (should, c) \<leftarrow> lru_ShouldPromote a c;
          if should then lru_PromoteNoLock a c else Some c }"

text \<open>The first critical section of the puts: is the key there? If so, it is promoted.\<close>

definition lru_check :: "('k, 'v, 'm) cache_env \<Rightarrow> 'k \<Rightarrow> ('v, 'm) lru \<Rightarrow> (bool \<times> ('v, 'm) lru) option" where
  "lru_check E k c =
     (case ce_find E (lru_map c) k of
        None \<Rightarrow> Some (False, c)
      | Some a \<Rightarrow> do { c \<leftarrow> lru_Promote a c; Some (True, c) })"

text \<open>The last node of the list is dropped; \<^verbatim>\<open>PopBack\<close> of an empty list is a null pointer.\<close>

definition lru_drop_back :: "('k, 'v, 'm) cache_env \<Rightarrow> ('v, 'm) lru \<Rightarrow> ('v \<times> ('v, 'm) lru) option" where
  "lru_drop_back E c =
     do { (r, l) \<leftarrow> dl_PopBack (lru_list c);
          n \<leftarrow> r;
          v \<leftarrow> dn_value n;
          Some (v, c\<lparr>lru_list := l, lru_map := ce_erase E (ce_key E v) (lru_map c)\<rparr>) }"

definition lru_make_room :: "('k, 'v, 'm) cache_env \<Rightarrow> ('v, 'm) lru \<Rightarrow> ('v option \<times> ('v, 'm) lru) option" where
  "lru_make_room E c =
     (if dl_size (lru_list c) = lru_capacity c
      then do { (v, c) \<leftarrow> lru_drop_back E c; Some (Some v, c) }
      else Some (None, c))"

definition lru_push :: "'v \<Rightarrow> ('v, 'm) lru \<Rightarrow> (nat \<times> ('v, 'm) lru) option" where
  "lru_push v c = do { (a, l) \<leftarrow> dl_PushFront v (lru_list c); Some (a, c\<lparr>lru_list := l\<rparr>) }"

definition lru_emplace :: "('k, 'v, 'm) cache_env \<Rightarrow> 'k \<Rightarrow> nat \<Rightarrow> ('v, 'm) lru \<Rightarrow> ('v, 'm) lru" where
  "lru_emplace E k a c = c\<lparr>lru_map := ce_emplace E k a (lru_map c)\<rparr>"

text \<open>The second critical section.\<close>

definition lru_insert :: "('k, 'v, 'm) cache_env \<Rightarrow> 'v \<Rightarrow> ('v, 'm) lru \<Rightarrow> ('v option \<times> ('v, 'm) lru) option" where
  "lru_insert E v c =
     do { (r, c) \<leftarrow> lru_make_room E c;
          (a, c) \<leftarrow> lru_push v c;
          Some (r, lru_emplace E (ce_key E v) a c) }"

definition lru_Put :: "('k, 'v, 'm) cache_env \<Rightarrow> 'v \<Rightarrow> ('v, 'm) lru \<Rightarrow> ('v, 'm) lru option" where
  "lru_Put E v c =
     do { (exist, c) \<leftarrow> lru_check E (ce_key E v) c;
          if exist then Some c
          else do { (_, c) \<leftarrow> lru_insert E v c; Some c } }"

definition lru_PutWithDisuse :: "('k, 'v, 'm) cache_env \<Rightarrow> 'v \<Rightarrow> ('v, 'm) lru \<Rightarrow> ('v option \<times> ('v, 'm) lru) option" where
  "lru_PutWithDisuse E v c =
     do { (exist, c) \<leftarrow> lru_check E (ce_key E v) c;
          if exist then Some (None, c) else lru_insert E v c }"

text \<open>\<^verbatim>\<open>PutWithCompair\<close>: a full cache gives up its last value only if the comparison says so.\<close>

definition lru_back :: "('v, 'm) lru \<Rightarrow> 'v option" where
  "lru_back c =
     do { d \<leftarrow> dl_heap (lru_list c) (dl_dummy (lru_list c));
          n \<leftarrow> dl_heap (lru_list c) (dn_pre d);
          dn_value n }"

definition lru_compare_insert :: "('k, 'v, 'm) cache_env \<Rightarrow> 'v \<Rightarrow> ('v \<Rightarrow> 'v \<Rightarrow> bool option) \<Rightarrow> ('v, 'm) lru \<Rightarrow> ('v, 'm) lru option" where
  "lru_compare_insert E v compair c =
     (if dl_size (lru_list c) = lru_capacity c
      then do { w \<leftarrow> lru_back c;
                better \<leftarrow> compair w v;
                if better
                then do { (_, c) \<leftarrow> lru_drop_back E c; (a, c) \<leftarrow> lru_push v c; Some (lru_emplace E (ce_key E v) a c) }
                else Some c }
      else do { (a, c) \<leftarrow> lru_push v c; Some (lru_emplace E (ce_key E v) a c) })"

definition lru_PutWithCompair :: "('k, 'v, 'm) cache_env \<Rightarrow> 'v \<Rightarrow> ('v \<Rightarrow> 'v \<Rightarrow> bool option) \<Rightarrow> ('v, 'm) lru \<Rightarrow> ('v, 'm) lru option" where
  "lru_PutWithCompair E v compair c =
     do { (exist, c) \<leftarrow> lru_check E (ce_key E v) c;
          if exist then Some c else lru_compare_insert E v compair c }"

text \<open>The put of an rvalue: its entry in the hash table is made outside of the critical section.\<close>

definition lru_move_insert :: "('k, 'v, 'm) cache_env \<Rightarrow> 'v \<Rightarrow> ('v, 'm) lru \<Rightarrow> (nat \<times> ('v, 'm) lru) option" where
  "lru_move_insert E v c = do { (_, c) \<leftarrow> lru_make_room E c; lru_push v c }"

definition lru_move_emplace :: "('k, 'v, 'm) cache_env \<Rightarrow> nat \<Rightarrow> ('v, 'm) lru \<Rightarrow> ('v, 'm) lru option" where
  "lru_move_emplace E a c =
     do { n \<leftarrow> dl_heap (lru_list c) a;
          v \<leftarrow> dn_value n;
          Some (lru_emplace E (ce_key E v) a c) }"

definition lru_PutMove :: "('k, 'v, 'm) cache_env \<Rightarrow> 'v \<Rightarrow> ('v, 'm) lru \<Rightarrow> ('v, 'm) lru option" where
  "lru_PutMove E v c =
     do { (exist, c) \<leftarrow> lru_check E (ce_key E v) c;
          if exist then Some c
          else do { (a, c) \<leftarrow> lru_move_insert E v c; lru_move_emplace E a c } }"

text \<open>The inner \<open>None\<close> of \<^verbatim>\<open>Get\<close> and \<^verbatim>\<open>Peek\<close> is the null pointer that they return for an absent key.\<close>

definition lru_Get :: "('k, 'v, 'm) cache_env \<Rightarrow> 'k \<Rightarrow> ('v, 'm) lru \<Rightarrow> ('v option \<times> ('v, 'm) lru) option" where
  "lru_Get E k c =
     (case ce_find E (lru_map c) k of
        None \<Rightarrow> Some (None, c)
      | Some a \<Rightarrow> do { n \<leftarrow> dl_heap (lru_list c) a; c \<leftarrow> lru_Promote a c; Some (dn_value n, c) })"

definition lru_Peek :: "('k, 'v, 'm) cache_env \<Rightarrow> 'k \<Rightarrow> ('v, 'm) lru \<Rightarrow> 'v option option" where
  "lru_Peek E k c =
     (case ce_find E (lru_map c) k of
        None \<Rightarrow> Some None
      | Some a \<Rightarrow> do { n \<leftarrow> dl_heap (lru_list c) a; Some (dn_value n) })"

definition lru_TrueSize :: "('v, 'm) lru \<Rightarrow> 64 word" where
  "lru_TrueSize c = dl_size (lru_list c)"

definition lru_size :: "('k, 'v, 'm) cache_env \<Rightarrow> ('v, 'm) lru \<Rightarrow> nat" where
  "lru_size E c = ce_size E (lru_map c)"

end
