(* ===== verification/LRU_Correct.thy ===== *)
theory LRU_Correct
  imports LRUCache
begin

text \<open>
  The invariant of the LRU cache, which every critical section keeps whatever the interleaving of the threads, and the
  abstract cache it implements when a put runs without interruption: the list of the cached values with their counters.
\<close>

section \<open>Invariant\<close>

text \<open>The nodes of the list in order, each with its address, value and counter.\<close>

definition lru_inv :: "('k, 'v, 'm) cache_env \<Rightarrow> ('v, 'm) lru \<Rightarrow> (nat \<times> 'v \<times> 64 word) list \<Rightarrow> bool" where
  "lru_inv E c zs =
     (cache_env_ok E \<and> dl_rep (lru_list c) (map fst zs) \<and>
      (\<forall>(a, v, p) \<in> set zs. content (dl_heap (lru_list c)) a = Some (Some v, p)) \<and>
      (\<forall>k a. ce_find E (lru_map c) k = Some a \<longrightarrow> (\<exists>v p. (a, v, p) \<in> set zs \<and> ce_key E v = k)) \<and>
      length zs \<le> unat (lru_capacity c) \<and> lru_capacity c \<noteq> 0)"

lemma lru_invD:
  assumes "lru_inv E c zs"
  shows "cache_env_ok E" "dl_rep (lru_list c) (map fst zs)"
    "\<And>a v p. (a, v, p) \<in> set zs \<Longrightarrow> content (dl_heap (lru_list c)) a = Some (Some v, p)"
    "\<And>k a. ce_find E (lru_map c) k = Some a \<Longrightarrow> \<exists>v p. (a, v, p) \<in> set zs \<and> ce_key E v = k"
    "length zs \<le> unat (lru_capacity c)" "lru_capacity c \<noteq> 0"
  using assms by (auto simp: lru_inv_def)

lemma lru_invI:
  assumes "cache_env_ok E" "dl_rep (lru_list c) (map fst zs)"
    "\<And>a v p. (a, v, p) \<in> set zs \<Longrightarrow> content (dl_heap (lru_list c)) a = Some (Some v, p)"
    "\<And>k a. ce_find E (lru_map c) k = Some a \<Longrightarrow> \<exists>v p. (a, v, p) \<in> set zs \<and> ce_key E v = k"
    "length zs \<le> unat (lru_capacity c)" "lru_capacity c \<noteq> 0"
  shows "lru_inv E c zs"
  using assms by (auto simp: lru_inv_def)

lemma cache_envD:
  assumes "cache_env_ok E"
  shows "ce_find E (ce_empty E) = Map.empty"
    "ce_find E (ce_emplace E k a m) = (if ce_find E m k = None then (ce_find E m)(k \<mapsto> a) else ce_find E m)"
    "ce_find E (ce_erase E k m) = (ce_find E m)(k := None)"
    "ce_find E (ce_reserve E n m) = ce_find E m"
    "ce_size E m = card (dom (ce_find E m))"
  using assms by (simp_all add: cache_env_ok_def)

lemma lru_inv_new:
  assumes "cache_env_ok E" "capacity \<noteq> 0"
  shows "lru_inv E (lru_new E capacity n) []"
  using assms by (intro lru_invI) (simp_all add: lru_new_def dl_rep_new cache_envD)

lemma lru_inv_Reserve:
  assumes "lru_inv E c zs" "length zs \<le> unat capacity" "capacity \<noteq> 0"
  shows "lru_inv E (lru_Reserve E capacity c) zs"
  using lru_invD [OF assms(1)] assms(2,3) by (intro lru_invI) (simp_all add: lru_Reserve_def cache_envD)

text \<open>The addresses of the nodes are distinct, and a node is found by its address.\<close>

lemma lru_inv_distinct: "lru_inv E c zs \<Longrightarrow> distinct (map fst zs)"
  by (auto dest!: lru_invD(2) simp: dl_rep_def)

section \<open>Promotion\<close>

definition touch :: "64 word \<Rightarrow> (nat \<times> 'v \<times> 64 word) list \<Rightarrow> nat \<times> 'v \<times> 64 word \<Rightarrow> (nat \<times> 'v \<times> 64 word) list \<Rightarrow> (nat \<times> 'v \<times> 64 word) list" where
  "touch n as z bs = (case z of (a, v, p) \<Rightarrow> if n \<le> p then (a, v, 0) # as @ bs else as @ (a, v, p + 1) # bs)"

lemma touch_node: "(\<exists>q. (b, w, q) \<in> set (touch n as z bs)) \<longleftrightarrow> (\<exists>q. (b, w, q) \<in> set (as @ z # bs))"
  by (cases z) (auto simp: touch_def)

lemma length_touch [simp]: "length (touch n as z bs) = Suc (length as + length bs)"
  by (simp add: touch_def split: prod.splits)

lemma set_promotions_ok:
  assumes "dl_rep (lru_list c) ns" "content (dl_heap (lru_list c)) a = Some (v, p)"
  obtains l where "set_promotions a f c = Some (c\<lparr>lru_list := l\<rparr>)" "dl_rep l ns"
    "content (dl_heap l) = (content (dl_heap (lru_list c)))(a \<mapsto> (v, f p))"
proof -
  obtain n where n: "dl_heap (lru_list c) a = Some n" "dn_value n = v" "dn_promotions n = p"
    using assms(2) by (auto simp: content_def)
  let ?h = "(dl_heap (lru_list c))(a \<mapsto> n\<lparr>dn_promotions := f p\<rparr>)"
  have "nxt_of ?h = nxt_of (dl_heap (lru_list c))" "pre_of ?h = pre_of (dl_heap (lru_list c))"
    using n(1) by (simp_all add: nxt_of_def pre_of_def fun_eq_iff)
  from dl_rep_contents [OF assms(1) this] have "dl_rep ((lru_list c)\<lparr>dl_heap := ?h\<rparr>) ns" .
  moreover have "content ?h = (content (dl_heap (lru_list c)))(a \<mapsto> (v, f p))" using n by (simp add: content_def fun_eq_iff)
  ultimately show thesis using that n by (simp add: set_promotions_def)
qed

lemma lru_Promote_ok:
  assumes inv: "lru_inv E c (as @ (a, v, p) # bs)"
  obtains l where "lru_Promote a c = Some (c\<lparr>lru_list := l\<rparr>)"
    "lru_inv E (c\<lparr>lru_list := l\<rparr>) (touch (lru_should_promote_num c) as (a, v, p) bs)"
proof -
  note i = lru_invD [OF inv]
  let ?n = "lru_should_promote_num c" and ?z = "(a, v, p)"
  have ca: "content (dl_heap (lru_list c)) a = Some (Some v, p)" using i(3) by simp
  have other: "x \<noteq> a" if "(x, w, q) \<in> set (as @ bs)" for x w q using lru_inv_distinct [OF inv] that by (force simp: image_iff)
  obtain l where l: "set_promotions a (\<lambda>p. p + 1) c = Some (c\<lparr>lru_list := l\<rparr>)" "dl_rep l (map fst (as @ ?z # bs))"
    "content (dl_heap l) = (content (dl_heap (lru_list c)))(a \<mapsto> (Some v, p + 1))"
    using set_promotions_ok [OF i(2) ca] .
  obtain d where "dl_heap (lru_list c) a = Some d" "dn_promotions d = p" using ca by (auto simp: content_def)
  then have sp: "lru_ShouldPromote a c = Some (?n \<le> p, c\<lparr>lru_list := l\<rparr>)" using l(1) by (simp add: lru_ShouldPromote_def)
  have find: "\<exists>w q. (x, w, q) \<in> set (touch ?n as ?z bs) \<and> ce_key E w = k" if "ce_find E (lru_map c) k = Some x" for k x
    using i(4) [OF that] touch_node [of x _ ?n as ?z bs] by blast
  show thesis
  proof (cases "?n \<le> p")
    case False
    have "lru_inv E (c\<lparr>lru_list := l\<rparr>) (touch ?n as ?z bs)"
    proof (rule lru_invI)
      show "dl_rep (lru_list (c\<lparr>lru_list := l\<rparr>)) (map fst (touch ?n as ?z bs))" using l(2) False by (simp add: touch_def)
      show "content (dl_heap (lru_list (c\<lparr>lru_list := l\<rparr>))) x = Some (Some w, q)" if "(x, w, q) \<in> set (touch ?n as ?z bs)" for x w q
        using that l(3) i(3) [of x w q] other [of x w q] False by (auto simp: touch_def)
    qed (use i find in simp_all)
    then show thesis using that [of l] sp False by (simp add: lru_Promote_def)
  next
    case True
    have "dl_rep l (map fst as @ a # map fst bs)" using l(2) by simp
    then obtain l1 l2 where l2: "dl_Extract a l = Some l1" "dl_InsertFront a l1 = Some l2" "dl_rep l2 (a # map fst as @ map fst bs)"
      "content (dl_heap l2) = content (dl_heap l)" using move_front_ok by metis
    let ?c = "c\<lparr>lru_list := l2\<rparr>"
    have r: "dl_rep (lru_list ?c) (a # map fst as @ map fst bs)" "content (dl_heap (lru_list ?c)) a = Some (Some v, p + 1)"
      using l2(3,4) l(3) by simp_all
    obtain l3 where l3: "set_promotions a (\<lambda>_. 0) ?c = Some (?c\<lparr>lru_list := l3\<rparr>)" "dl_rep l3 (a # map fst as @ map fst bs)"
      "content (dl_heap l3) = (content (dl_heap (lru_list ?c)))(a \<mapsto> (Some v, 0))"
      using set_promotions_ok [OF r] .
    have "lru_inv E (c\<lparr>lru_list := l3\<rparr>) (touch ?n as ?z bs)"
    proof (rule lru_invI)
      show "dl_rep (lru_list (c\<lparr>lru_list := l3\<rparr>)) (map fst (touch ?n as ?z bs))" using l3(2) True by (simp add: touch_def)
      show "content (dl_heap (lru_list (c\<lparr>lru_list := l3\<rparr>))) x = Some (Some w, q)" if "(x, w, q) \<in> set (touch ?n as ?z bs)" for x w q
        using that l(3) l2(4) l3(3) i(3) [of x w q] other [of x w q] True by (auto simp: touch_def)
    qed (use i find in simp_all)
    moreover have "lru_Promote a c = Some (c\<lparr>lru_list := l3\<rparr>)"
      using sp True l2(1,2) l3(1) by (simp add: lru_Promote_def lru_PromoteNoLock_def lru_ResetPromote_def)
    ultimately show thesis using that by blast
  qed
qed

section \<open>Eviction and insertion\<close>

lemma unat_size: "lru_inv E c zs \<Longrightarrow> unat (dl_size (lru_list c)) = length zs"
proof -
  assume inv: "lru_inv E c zs"
  have "length zs < 2 ^ 64" using lru_invD(5) [OF inv] unsigned_less [of "lru_capacity c", where ?'a = nat] by simp
  moreover have "dl_size (lru_list c) = of_nat (length zs)" using dl_repD(5) [OF lru_invD(2) [OF inv]] by simp
  ultimately show ?thesis by (simp add: unsigned_of_nat take_bit_nat_eq_self)
qed

lemma full_iff: "lru_inv E c zs \<Longrightarrow> dl_size (lru_list c) = lru_capacity c \<longleftrightarrow> length zs = unat (lru_capacity c)"
  using unat_size [of E c zs] by (simp add: word_unat_eq_iff)

lemma lru_drop_back_ok:
  assumes inv: "lru_inv E c (zs @ [(a, v, p)])"
  obtains c' where "lru_drop_back E c = Some (v, c')" "lru_inv E c' zs" "ce_find E (lru_map c') = (ce_find E (lru_map c))(ce_key E v := None)"
    "lru_capacity c' = lru_capacity c" "lru_should_promote_num c' = lru_should_promote_num c"
proof -
  note i = lru_invD [OF inv]
  have rep: "dl_rep (lru_list c) (map fst zs @ [a])" using i(2) by simp
  have small: "length (map fst zs) + 1 < 2 ^ 64" using i(5) unsigned_less [of "lru_capacity c", where ?'a = nat] by simp
  obtain n l where n: "dl_PopBack (lru_list c) = Some (Some n, l)" "dl_rep l (map fst zs)"
    "content (dl_heap (lru_list c)) a = Some (dn_value n, dn_promotions n)"
    "content (dl_heap l) = (content (dl_heap (lru_list c)))(a := None)"
    using dl_PopBack_ok [OF rep small] .
  have nv: "dn_value n = Some v" using n(3) i(3) [of a v p] by simp
  define c' where "c' = c\<lparr>lru_list := l, lru_map := ce_erase E (ce_key E v) (lru_map c)\<rparr>"
  have find: "ce_find E (lru_map c') = (ce_find E (lru_map c))(ce_key E v := None)" using i(1) by (simp add: c'_def cache_envD)
  have "lru_inv E c' zs"
  proof (rule lru_invI)
    show "content (dl_heap (lru_list c')) x = Some (Some w, q)" if "(x, w, q) \<in> set zs" for x w q
      using that i(3) [of x w q] lru_inv_distinct [OF inv] n(4) by (force simp: c'_def)
    show "\<exists>w q. (x, w, q) \<in> set zs \<and> ce_key E w = k" if "ce_find E (lru_map c') k = Some x" for k x
      using that i(4) [of k x] unfolding find by (auto split: if_splits)
  qed (use i n(2) in \<open>simp_all add: c'_def\<close>)
  then show thesis using that [of c'] find n(1) nv by (simp add: lru_drop_back_def c'_def)
qed

lemma lru_push_ok:
  assumes inv: "lru_inv E c zs" and room: "length zs < unat (lru_capacity c)"
  obtains a l where "lru_push v c = Some (a, c\<lparr>lru_list := l\<rparr>)" "lru_inv E (c\<lparr>lru_list := l\<rparr>) ((a, v, 0) # zs)" "a \<notin> fst ` set zs"
proof -
  note i = lru_invD [OF inv]
  let ?a = "dl_fresh (lru_list c)"
  obtain l where l: "dl_PushFront v (lru_list c) = Some (?a, l)" "dl_rep l (?a # map fst zs)" "?a \<notin> set (map fst zs)"
    "content (dl_heap l) = (content (dl_heap (lru_list c)))(?a \<mapsto> (Some v, 0))"
    using dl_PushFront_ok [OF i(2)] .
  have "lru_inv E (c\<lparr>lru_list := l\<rparr>) ((?a, v, 0) # zs)"
  proof (rule lru_invI)
    show "content (dl_heap (lru_list (c\<lparr>lru_list := l\<rparr>))) x = Some (Some w, q)" if "(x, w, q) \<in> set ((?a, v, 0) # zs)" for x w q
      using that i(3) [of x w q] l(3,4) by (force simp: image_iff)
    show "\<exists>w q. (x, w, q) \<in> set ((?a, v, 0) # zs) \<and> ce_key E w = k" if "ce_find E (lru_map (c\<lparr>lru_list := l\<rparr>)) k = Some x" for k x
      using that i(4) [of k x] by auto
  qed (use i l(2) room in simp_all)
  then show thesis using that [of ?a l] l(1,3) by (simp add: lru_push_def)
qed

lemma lru_emplace_ok:
  assumes inv: "lru_inv E c zs" and a: "(a, v, p) \<in> set zs"
  shows "lru_inv E (lru_emplace E (ce_key E v) a c) zs"
    "ce_find E (lru_map (lru_emplace E (ce_key E v) a c)) =
       (if ce_find E (lru_map c) (ce_key E v) = None then (ce_find E (lru_map c))(ce_key E v \<mapsto> a) else ce_find E (lru_map c))"
proof -
  note i = lru_invD [OF inv]
  show f: "ce_find E (lru_map (lru_emplace E (ce_key E v) a c)) =
       (if ce_find E (lru_map c) (ce_key E v) = None then (ce_find E (lru_map c))(ce_key E v \<mapsto> a) else ce_find E (lru_map c))"
    using i(1) by (simp add: lru_emplace_def cache_envD)
  show "lru_inv E (lru_emplace E (ce_key E v) a c) zs"
  proof (rule lru_invI)
    show "\<exists>w q. (x, w, q) \<in> set zs \<and> ce_key E w = k" if "ce_find E (lru_map (lru_emplace E (ce_key E v) a c)) k = Some x" for k x
      using that i(4) [of k x] a unfolding f by (auto split: if_splits)
  qed (use i in \<open>simp_all add: lru_emplace_def\<close>)
qed


section \<open>Critical sections\<close>

text \<open>The values of a cache; no section invents one.\<close>

definition cached :: "(nat \<times> 'v \<times> 64 word) list \<Rightarrow> 'v set" where
  "cached zs = (fst \<circ> snd) ` set zs"

lemma cached_iff: "v \<in> cached zs \<longleftrightarrow> (\<exists>a p. (a, v, p) \<in> set zs)"
  by (force simp: cached_def)

lemma cached_Cons [simp]: "cached ((a, v, p) # zs) = insert v (cached zs)" by (simp add: cached_def)

lemma cached_touch [simp]: "cached (touch n as z bs) = cached (as @ z # bs)"
  using touch_node [of _ _ n as z bs] by (simp add: set_eq_iff cached_iff)

lemma lru_inv_split:
  assumes "lru_inv E c zs" "ce_find E (lru_map c) k = Some a"
  obtains as v p bs where "zs = as @ (a, v, p) # bs" "ce_key E v = k"
  using lru_invD(4) [OF assms] by (metis split_list)

lemma lru_check_ok:
  assumes inv: "lru_inv E c zs"
  obtains c' zs' where "lru_check E k c = Some (ce_find E (lru_map c) k \<noteq> None, c')" "lru_inv E c' zs'" "cached zs' = cached zs"
    "lru_map c' = lru_map c" "lru_capacity c' = lru_capacity c" "lru_should_promote_num c' = lru_should_promote_num c"
proof (cases "ce_find E (lru_map c) k")
  case None
  then show thesis using that [of c zs] inv by (simp add: lru_check_def)
next
  case (Some a)
  then obtain as v p bs where z: "zs = as @ (a, v, p) # bs" using lru_inv_split [OF inv] by metis
  obtain l where l: "lru_Promote a c = Some (c\<lparr>lru_list := l\<rparr>)"
    "lru_inv E (c\<lparr>lru_list := l\<rparr>) (touch (lru_should_promote_num c) as (a, v, p) bs)"
    using lru_Promote_ok [OF inv [unfolded z]] .
  show thesis
    by (rule that [of "c\<lparr>lru_list := l\<rparr>" "touch (lru_should_promote_num c) as (a, v, p) bs"]) (use Some l z in \<open>simp_all add: lru_check_def\<close>)
qed

lemma lru_make_room_ok:
  assumes inv: "lru_inv E c zs"
  obtains r c' zs' where "lru_make_room E c = Some (r, c')" "lru_inv E c' zs'" "length zs' < unat (lru_capacity c)"
    "lru_capacity c' = lru_capacity c" "lru_should_promote_num c' = lru_should_promote_num c"
    "if length zs = unat (lru_capacity c)
     then \<exists>a v p. zs = zs' @ [(a, v, p)] \<and> r = Some v \<and> ce_find E (lru_map c') = (ce_find E (lru_map c))(ce_key E v := None)
     else zs' = zs \<and> r = None \<and> c' = c"
proof (cases "length zs = unat (lru_capacity c)")
  case False
  have "lru_make_room E c = Some (None, c)" using False full_iff [OF inv] by (simp add: lru_make_room_def)
  then show thesis using that [of None c zs] False inv lru_invD(5) [OF inv] by simp
next
  case True
  have "unat (lru_capacity c) \<noteq> 0" using lru_invD(6) [OF inv] by (simp add: unat_eq_0)
  then have "zs \<noteq> []" using True by auto
  then obtain zs' a v p where z: "zs = zs' @ [(a, v, p)]" by (metis append_butlast_last_id prod_cases3)
  obtain c' where c': "lru_drop_back E c = Some (v, c')" "lru_inv E c' zs'" "ce_find E (lru_map c') = (ce_find E (lru_map c))(ce_key E v := None)"
    "lru_capacity c' = lru_capacity c" "lru_should_promote_num c' = lru_should_promote_num c"
    using lru_drop_back_ok [OF inv [unfolded z]] .
  have "lru_make_room E c = Some (Some v, c')" using True full_iff [OF inv] c'(1) by (simp add: lru_make_room_def)
  moreover have "length zs' < unat (lru_capacity c)" using True z by simp
  ultimately show thesis using that [of "Some v" c' zs'] True c' z by auto
qed

lemma lru_insert_ok:
  assumes inv: "lru_inv E c zs"
  obtains r c' a zs1 where "lru_insert E v c = Some (r, c')" "lru_inv E c' ((a, v, 0) # zs1)" "a \<notin> fst ` set zs1"
    "lru_capacity c' = lru_capacity c" "lru_should_promote_num c' = lru_should_promote_num c"
    "if length zs = unat (lru_capacity c) then \<exists>z. zs = zs1 @ [z] \<and> r = Some (fst (snd z)) else zs1 = zs \<and> r = None"
    "ce_find E (lru_map c') =
       (let m = (case r of None \<Rightarrow> ce_find E (lru_map c) | Some w \<Rightarrow> (ce_find E (lru_map c))(ce_key E w := None)) in
        if m (ce_key E v) = None then m(ce_key E v \<mapsto> a) else m)"
proof -
  obtain r c1 zs1 where c1: "lru_make_room E c = Some (r, c1)" "lru_inv E c1 zs1" "length zs1 < unat (lru_capacity c)"
    "lru_capacity c1 = lru_capacity c" "lru_should_promote_num c1 = lru_should_promote_num c"
    and ev: "if length zs = unat (lru_capacity c)
     then \<exists>a v p. zs = zs1 @ [(a, v, p)] \<and> r = Some v \<and> ce_find E (lru_map c1) = (ce_find E (lru_map c))(ce_key E v := None)
     else zs1 = zs \<and> r = None \<and> c1 = c"
    using lru_make_room_ok [OF inv] .
  obtain a l where p: "lru_push v c1 = Some (a, c1\<lparr>lru_list := l\<rparr>)" "lru_inv E (c1\<lparr>lru_list := l\<rparr>) ((a, v, 0) # zs1)" "a \<notin> fst ` set zs1"
    using lru_push_ok [OF c1(2), of v] c1(3,4) by metis
  have mem: "(a, v, 0) \<in> set ((a, v, 0) # zs1)" by simp
  note e = lru_emplace_ok [OF p(2) mem]
  have m: "(case r of None \<Rightarrow> ce_find E (lru_map c) | Some w \<Rightarrow> (ce_find E (lru_map c))(ce_key E w := None)) = ce_find E (lru_map c1)"
    using ev by (auto split: if_splits)
  have mc: "lru_map (c1\<lparr>lru_list := l\<rparr>) = lru_map c1" by simp
  show thesis
  proof (rule that)
    show "lru_insert E v c = Some (r, lru_emplace E (ce_key E v) a (c1\<lparr>lru_list := l\<rparr>))" using c1(1) p(1) by (simp add: lru_insert_def)
    show "if length zs = unat (lru_capacity c) then \<exists>z. zs = zs1 @ [z] \<and> r = Some (fst (snd z)) else zs1 = zs \<and> r = None"
      using ev by (auto split: if_splits)
    show "lru_inv E (lru_emplace E (ce_key E v) a (c1\<lparr>lru_list := l\<rparr>)) ((a, v, 0) # zs1)" by (rule e(1))
    show "ce_find E (lru_map (lru_emplace E (ce_key E v) a (c1\<lparr>lru_list := l\<rparr>))) =
       (let m = (case r of None \<Rightarrow> ce_find E (lru_map c) | Some w \<Rightarrow> (ce_find E (lru_map c))(ce_key E w := None)) in
        if m (ce_key E v) = None then m(ce_key E v \<mapsto> a) else m)"
      using e(2) unfolding m Let_def mc .
  qed (use p(3) c1(4,5) in \<open>simp_all add: lru_emplace_def\<close>)
qed

lemma lru_Get_ok:
  assumes inv: "lru_inv E c zs"
  obtains r c' zs' where "lru_Get E k c = Some (r, c')" "lru_Peek E k c = Some r" "lru_inv E c' zs'" "cached zs' = cached zs"
    "lru_map c' = lru_map c" "lru_capacity c' = lru_capacity c" "lru_should_promote_num c' = lru_should_promote_num c"
    "\<And>v. r = Some v \<Longrightarrow> ce_key E v = k \<and> v \<in> cached zs"
    "r = None \<longleftrightarrow> ce_find E (lru_map c) k = None"
proof (cases "ce_find E (lru_map c) k")
  case None
  then show thesis using that [of None c zs] inv by (simp add: lru_Get_def lru_Peek_def)
next
  case (Some a)
  then obtain as v p bs where z: "zs = as @ (a, v, p) # bs" "ce_key E v = k" using lru_inv_split [OF inv] by metis
  obtain l where l: "lru_Promote a c = Some (c\<lparr>lru_list := l\<rparr>)"
    "lru_inv E (c\<lparr>lru_list := l\<rparr>) (touch (lru_should_promote_num c) as (a, v, p) bs)"
    using lru_Promote_ok [OF inv [unfolded z(1)]] .
  have "content (dl_heap (lru_list c)) a = Some (Some v, p)" using lru_invD(3) [OF inv] z(1) by simp
  then obtain n where n: "dl_heap (lru_list c) a = Some n" "dn_value n = Some v" by (auto simp: content_def)
  show thesis
    by (rule that [of "Some v" "c\<lparr>lru_list := l\<rparr>" "touch (lru_should_promote_num c) as (a, v, p) bs"])
      (use Some l z n in \<open>auto simp: lru_Get_def lru_Peek_def cached_iff\<close>)
qed

lemma lru_back_ok:
  assumes "lru_inv E c (zs @ [(a, v, p)])"
  shows "lru_back c = Some v"
proof -
  note i = lru_invD [OF assms]
  have "pre_of (dl_heap (lru_list c)) (dl_dummy (lru_list c)) = Some a"
    using dl_repD(1) [OF i(2)] chain_append [of "dl_heap (lru_list c)" "dl_dummy (lru_list c) # map fst zs" a "dl_dummy (lru_list c)" "[]"] by simp
  moreover have "content (dl_heap (lru_list c)) a = Some (Some v, p)" using i(3) by simp
  ultimately show ?thesis by (auto simp: lru_back_def pre_of_def content_def)
qed

lemma lru_compare_insert_insert:
  assumes inv: "lru_inv E c zs" and better: "length zs = unat (lru_capacity c) \<Longrightarrow> compair (fst (snd (last zs))) v = Some True"
  shows "lru_compare_insert E v compair c = map_option snd (lru_insert E v c)"
proof (cases "length zs = unat (lru_capacity c)")
  case True
  have "unat (lru_capacity c) \<noteq> 0" using lru_invD(6) [OF inv] by (simp add: unat_eq_0)
  then have "zs \<noteq> []" using True by auto
  then obtain zs' a w p where z: "zs = zs' @ [(a, w, p)]" by (metis append_butlast_last_id prod_cases3)
  then show ?thesis
    using True full_iff [OF inv] lru_back_ok [OF inv [unfolded z]] better
    by (cases "lru_drop_back E c") (simp_all add: lru_compare_insert_def lru_insert_def lru_make_room_def map_option_bind comp_def split_beta case_prod_unfold)
next
  case False
  then show ?thesis using full_iff [OF inv] by (simp add: lru_compare_insert_def lru_insert_def lru_make_room_def map_option_bind comp_def case_prod_unfold)
qed

lemma lru_compare_insert_keep:
  assumes inv: "lru_inv E c zs" and worse: "length zs = unat (lru_capacity c)" "compair (fst (snd (last zs))) v = Some False"
  shows "lru_compare_insert E v compair c = Some c"
proof -
  have "unat (lru_capacity c) \<noteq> 0" using lru_invD(6) [OF inv] by (simp add: unat_eq_0)
  then have "zs \<noteq> []" using worse(1) by auto
  then obtain zs' a w p where z: "zs = zs' @ [(a, w, p)]" by (metis append_butlast_last_id prod_cases3)
  then show ?thesis using worse full_iff [OF inv] lru_back_ok [OF inv [unfolded z]] by (simp add: lru_compare_insert_def)
qed


section \<open>Uninterrupted operations\<close>

text \<open>When no two sections of puts are interleaved, every node is found under its key.\<close>

definition lru_exact :: "('k, 'v, 'm) cache_env \<Rightarrow> ('v, 'm) lru \<Rightarrow> (nat \<times> 'v \<times> 64 word) list \<Rightarrow> bool" where
  "lru_exact E c zs = (lru_inv E c zs \<and> (\<forall>(a, v, p) \<in> set zs. ce_find E (lru_map c) (ce_key E v) = Some a))"

lemma lru_exactD:
  assumes "lru_exact E c zs"
  shows "lru_inv E c zs" "\<And>a v p. (a, v, p) \<in> set zs \<Longrightarrow> ce_find E (lru_map c) (ce_key E v) = Some a"
  using assms by (auto simp: lru_exact_def)

lemma lru_exact_keys:
  assumes "lru_exact E c zs"
  shows "distinct (map (\<lambda>(a, v, p). ce_key E v) zs)"
proof -
  have "inj_on (\<lambda>(a, v, p). ce_key E v) (set zs)"
  proof (rule inj_onI, clarsimp)
    fix a v p b w q
    assume z: "(a, v, p) \<in> set zs" "(b, w, q) \<in> set zs" "ce_key E v = ce_key E w"
    then have "a = b" using lru_exactD(2) [OF assms, of a v p] lru_exactD(2) [OF assms, of b w q] by simp
    then show "a = b \<and> v = w \<and> p = q" using lru_inv_distinct [OF lru_exactD(1) [OF assms]] z(1,2) by (metis eq_key_imp_eq_value prod.inject)
  qed
  moreover have "distinct zs" using lru_inv_distinct [OF lru_exactD(1) [OF assms]] by (simp add: distinct_map)
  ultimately show ?thesis by (simp add: distinct_map)
qed

text \<open>The abstract cache.\<close>

definition spec_lookup :: "('v \<Rightarrow> 'k) \<Rightarrow> 'k \<Rightarrow> ('v \<times> 64 word) list \<Rightarrow> 'v option" where
  "spec_lookup key k xs = map_option fst (List.find (\<lambda>(v, p). key v = k) xs)"

definition spec_touch :: "('v \<Rightarrow> 'k) \<Rightarrow> 64 word \<Rightarrow> 'k \<Rightarrow> ('v \<times> 64 word) list \<Rightarrow> ('v \<times> 64 word) list" where
  "spec_touch key n k xs =
     (case List.find (\<lambda>(v, p). key v = k) xs of
        None \<Rightarrow> xs
      | Some (v, p) \<Rightarrow>
          if n \<le> p then (v, 0) # filter (\<lambda>(w, q). key w \<noteq> k) xs
          else map (\<lambda>(w, q). (w, if key w = k then q + 1 else q)) xs)"

definition spec_put :: "('v \<Rightarrow> 'k) \<Rightarrow> nat \<Rightarrow> 64 word \<Rightarrow> 'v \<Rightarrow> ('v \<times> 64 word) list \<Rightarrow> ('v \<times> 64 word) list" where
  "spec_put key capacity n v xs =
     (if spec_lookup key (key v) xs = None then (v, 0) # (if length xs = capacity then butlast xs else xs)
      else spec_touch key n (key v) xs)"

lemma find_None_keys: "List.find (\<lambda>(v, p). key v = k) xs = None \<longleftrightarrow> (\<forall>(v, p) \<in> set xs. key v \<noteq> k)"
  by (auto simp: find_None_iff)

lemma find_split:
  assumes "\<forall>(w, q) \<in> set xs. key w \<noteq> k" "key v = k"
  shows "List.find (\<lambda>(v, p). key v = k) (xs @ (v, p) # ys) = Some (v, p)"
  using assms by (induction xs) auto

lemma map_keep: "\<forall>(w, q) \<in> set xs. key w \<noteq> k \<Longrightarrow> map (\<lambda>(w, q). (w, if key w = k then q + (1 :: 64 word) else q)) xs = xs"
  by (induction xs) auto

lemma filter_keep: "\<forall>(w, q) \<in> set xs. key w \<noteq> k \<Longrightarrow> filter (\<lambda>(w, q). key w \<noteq> k) xs = xs"
  by (induction xs) auto

lemma spec_touch_split:
  assumes "\<forall>(w, q) \<in> set xs. key w \<noteq> k" "\<forall>(w, q) \<in> set ys. key w \<noteq> k" "key v = k"
  shows "spec_touch key n k (xs @ (v, p) # ys) = (if n \<le> p then (v, 0) # xs @ ys else xs @ (v, p + 1) # ys)"
  using find_split [OF assms(1,3), of p ys] map_keep [OF assms(1)] map_keep [OF assms(2)] filter_keep [OF assms(1)] filter_keep [OF assms(2)] assms(3)
  by (simp add: spec_touch_def)

lemma lru_exact_cases:
  assumes "lru_exact E c zs"
  obtains (absent) "ce_find E (lru_map c) k = None" "spec_lookup (ce_key E) k (map snd zs) = None" "\<forall>(a, v, p) \<in> set zs. ce_key E v \<noteq> k"
  | (present) as a v p bs where "ce_find E (lru_map c) k = Some a" "zs = as @ (a, v, p) # bs" "ce_key E v = k"
      "spec_lookup (ce_key E) k (map snd zs) = Some v"
      "map snd (touch n as (a, v, p) bs) = spec_touch (ce_key E) n k (map snd zs)"
proof (cases "ce_find E (lru_map c) k")
  case None
  have "\<forall>(a, v, p) \<in> set zs. ce_key E v \<noteq> k" using lru_exactD(2) [OF assms] None by force
  moreover from this have "spec_lookup (ce_key E) k (map snd zs) = None" by (auto simp: spec_lookup_def find_None_keys)
  ultimately show thesis using absent None by blast
next
  case (Some a)
  then obtain as v p bs where z: "zs = as @ (a, v, p) # bs" "ce_key E v = k" using lru_inv_split [OF lru_exactD(1) [OF assms]] by metis
  have other: "\<forall>(w, q) \<in> set (map snd as). ce_key E w \<noteq> k" "\<forall>(w, q) \<in> set (map snd bs). ce_key E w \<noteq> k"
    using lru_exact_keys [OF assms] z by (force simp: image_iff)+
  have "spec_lookup (ce_key E) k (map snd zs) = Some v" using find_split [of _ "ce_key E" k v, OF other(1) z(2)] z(1) by (simp add: spec_lookup_def)
  moreover have "map snd (touch n as (a, v, p) bs) = spec_touch (ce_key E) n k (map snd zs)"
    using spec_touch_split [of _ "ce_key E" k _ v, OF other z(2), of n p] z(1) by (simp add: touch_def)
  ultimately show thesis using present Some z by blast
qed

lemma lru_exact_touch:
  assumes "lru_exact E c (as @ z # bs)" "lru_inv E c' (touch n as z bs)" "lru_map c' = lru_map c"
  shows "lru_exact E c' (touch n as z bs)"
proof -
  have "ce_find E (lru_map c') (ce_key E v) = Some a" if "(a, v, p) \<in> set (touch n as z bs)" for a v p
    using that touch_node [of a v n as z bs] lru_exactD(2) [OF assms(1)] assms(3) by metis
  then show ?thesis using assms(2) by (auto simp: lru_exact_def)
qed

lemma lru_insert_exact:
  assumes ex: "lru_exact E c zs" and new: "ce_find E (lru_map c) (ce_key E v) = None"
  obtains r c' zs' where "lru_insert E v c = Some (r, c')" "lru_exact E c' zs'"
    "map snd zs' = (v, 0) # (if length zs = unat (lru_capacity c) then butlast (map snd zs) else map snd zs)"
    "lru_capacity c' = lru_capacity c" "lru_should_promote_num c' = lru_should_promote_num c"
    "cached zs' \<subseteq> insert v (cached zs)" "ce_find E (lru_map c') (ce_key E v) \<noteq> None"
    "case r of None \<Rightarrow> cached zs' = insert v (cached zs) | Some w \<Rightarrow> w \<in> cached zs \<and> insert w (cached zs') = insert v (cached zs)"
proof -
  obtain r c' a zs1 where i: "lru_insert E v c = Some (r, c')" "lru_inv E c' ((a, v, 0) # zs1)" "a \<notin> fst ` set zs1"
    "lru_capacity c' = lru_capacity c" "lru_should_promote_num c' = lru_should_promote_num c"
    and shape: "if length zs = unat (lru_capacity c) then \<exists>z. zs = zs1 @ [z] \<and> r = Some (fst (snd z)) else zs1 = zs \<and> r = None"
    and find: "ce_find E (lru_map c') =
       (let m = (case r of None \<Rightarrow> ce_find E (lru_map c) | Some w \<Rightarrow> (ce_find E (lru_map c))(ce_key E w := None)) in
        if m (ce_key E v) = None then m(ce_key E v \<mapsto> a) else m)"
    using lru_insert_ok [OF lru_exactD(1) [OF ex]] .
  have fv: "ce_find E (lru_map c') (ce_key E v) = Some a" using new unfolding find by (auto simp: Let_def split: option.splits)
  have keep: "ce_find E (lru_map c') (ce_key E u) = Some b" if "(b, u, q) \<in> set zs1" for b u q
  proof -
    have old: "ce_find E (lru_map c) (ce_key E u) = Some b" using that lru_exactD(2) [OF ex, of b u q] shape by (auto split: if_splits)
    moreover have "ce_key E u \<noteq> ce_key E w" if "r = Some w" for w
      using that \<open>(b, u, q) \<in> set zs1\<close> lru_exact_keys [OF ex] shape by (force split: if_splits simp: image_iff)
    moreover have "ce_key E u \<noteq> ce_key E v" using old new by auto
    ultimately show ?thesis using new unfolding find by (auto simp: Let_def split: option.splits)
  qed
  have "lru_exact E c' ((a, v, 0) # zs1)" using i(2) fv keep by (auto simp: lru_exact_def)
  moreover have "map snd ((a, v, 0) # zs1) = (v, 0) # (if length zs = unat (lru_capacity c) then butlast (map snd zs) else map snd zs)"
    using shape by (auto split: if_splits)
  moreover have "cached ((a, v, 0) # zs1) \<subseteq> insert v (cached zs)" using shape by (auto simp: cached_def split: if_splits)
  moreover have "case r of None \<Rightarrow> cached ((a, v, 0) # zs1) = insert v (cached zs)
    | Some w \<Rightarrow> w \<in> cached zs \<and> insert w (cached ((a, v, 0) # zs1)) = insert v (cached zs)"
    using shape by (auto simp: cached_def split: if_splits)
  ultimately show thesis using that [of r c' "(a, v, 0) # zs1"] i(1,4,5) fv by simp
qed


text \<open>\<^verbatim>\<open>Get\<close>, the check of a put and a whole put against the abstract cache.\<close>

lemma lru_check_exact:
  assumes ex: "lru_exact E c zs"
  obtains c' zs' where "lru_check E k c = Some (spec_lookup (ce_key E) k (map snd zs) \<noteq> None, c')" "lru_exact E c' zs'"
    "map snd zs' = spec_touch (ce_key E) (lru_should_promote_num c) k (map snd zs)"
    "lru_map c' = lru_map c" "lru_capacity c' = lru_capacity c" "lru_should_promote_num c' = lru_should_promote_num c" "cached zs' = cached zs"
    "lru_Get E k c = Some (spec_lookup (ce_key E) k (map snd zs), c')" "lru_Peek E k c = Some (spec_lookup (ce_key E) k (map snd zs))"
    "spec_lookup (ce_key E) k (map snd zs) = None \<longleftrightarrow> ce_find E (lru_map c) k = None"
  using ex
proof (cases rule: lru_exact_cases [where k = k and n = "lru_should_promote_num c"])
  case absent
  moreover have "spec_touch (ce_key E) (lru_should_promote_num c) k (map snd zs) = map snd zs"
    using absent(3) find_None_keys [of "ce_key E" k "map snd zs"] by (auto simp: spec_touch_def split: option.splits)
  ultimately show thesis using that [of c zs] ex by (simp add: lru_check_def lru_Get_def lru_Peek_def)
next
  case (present as a v p bs)
  note inv = lru_exactD(1) [OF ex, unfolded present(2)]
  obtain l where l: "lru_Promote a c = Some (c\<lparr>lru_list := l\<rparr>)"
    "lru_inv E (c\<lparr>lru_list := l\<rparr>) (touch (lru_should_promote_num c) as (a, v, p) bs)"
    using lru_Promote_ok [OF inv] .
  have "content (dl_heap (lru_list c)) a = Some (Some v, p)" using lru_invD(3) [OF inv] by simp
  then obtain d where d: "dl_heap (lru_list c) a = Some d" "dn_value d = Some v" by (auto simp: content_def)
  show thesis
  proof (rule that)
    show "lru_exact E (c\<lparr>lru_list := l\<rparr>) (touch (lru_should_promote_num c) as (a, v, p) bs)"
      using lru_exact_touch [OF ex [unfolded present(2)] l(2)] by simp
    show "map snd (touch (lru_should_promote_num c) as (a, v, p) bs) = spec_touch (ce_key E) (lru_should_promote_num c) k (map snd zs)"
      by (rule present(5))
    show "lru_check E k c = Some (spec_lookup (ce_key E) k (map snd zs) \<noteq> None, c\<lparr>lru_list := l\<rparr>)"
      unfolding present(4) using present(1) l(1) by (simp add: lru_check_def)
    show "lru_Get E k c = Some (spec_lookup (ce_key E) k (map snd zs), c\<lparr>lru_list := l\<rparr>)"
      unfolding present(4) using present(1) l(1) d by (simp add: lru_Get_def)
    show "lru_Peek E k c = Some (spec_lookup (ce_key E) k (map snd zs))" unfolding present(4) using present(1) d by (simp add: lru_Peek_def)
    show "spec_lookup (ce_key E) k (map snd zs) = None \<longleftrightarrow> ce_find E (lru_map c) k = None" unfolding present(4) using present(1) by simp
    show "cached (touch (lru_should_promote_num c) as (a, v, p) bs) = cached zs" unfolding present(2) by simp
  qed simp_all
qed

lemma lru_PutWithDisuse_ok:
  assumes ex: "lru_exact E c zs"
  obtains r c' zs' where "lru_PutWithDisuse E v c = Some (r, c')" "lru_Put E v c = Some c'" "lru_exact E c' zs'"
    "map snd zs' = spec_put (ce_key E) (unat (lru_capacity c)) (lru_should_promote_num c) v (map snd zs)"
    "lru_capacity c' = lru_capacity c" "lru_should_promote_num c' = lru_should_promote_num c"
    "ce_find E (lru_map c') (ce_key E v) \<noteq> None" "cached zs' \<subseteq> insert v (cached zs)" "\<And>w. r = Some w \<Longrightarrow> w \<in> cached zs"
proof -
  let ?k = "ce_key E v"
  obtain c1 zs1 where c1: "lru_check E ?k c = Some (spec_lookup (ce_key E) ?k (map snd zs) \<noteq> None, c1)" "lru_exact E c1 zs1"
    "map snd zs1 = spec_touch (ce_key E) (lru_should_promote_num c) ?k (map snd zs)"
    "lru_map c1 = lru_map c" "lru_capacity c1 = lru_capacity c" "lru_should_promote_num c1 = lru_should_promote_num c" "cached zs1 = cached zs"
    and "lru_Get E ?k c = Some (spec_lookup (ce_key E) ?k (map snd zs), c1)" "lru_Peek E ?k c = Some (spec_lookup (ce_key E) ?k (map snd zs))"
    and none: "spec_lookup (ce_key E) ?k (map snd zs) = None \<longleftrightarrow> ce_find E (lru_map c) ?k = None"
    using lru_check_exact [OF ex] .
  show thesis
  proof (cases "spec_lookup (ce_key E) ?k (map snd zs) = None")
    case False
    then show thesis using that [of None c1 zs1] c1 none by (auto simp: lru_PutWithDisuse_def lru_Put_def spec_put_def subset_insertI)
  next
    case True
    have same: "map snd zs1 = map snd zs" using True c1(3) by (simp add: spec_touch_def spec_lookup_def)
    have len: "length zs1 = length zs" using arg_cong [OF same, of length] by simp
    have "ce_find E (lru_map c1) ?k = None" using True none c1(4) by simp
    from lru_insert_exact [OF c1(2) this] obtain r c' zs' where c': "lru_insert E v c1 = Some (r, c')" "lru_exact E c' zs'"
      "map snd zs' = (v, 0) # (if length zs1 = unat (lru_capacity c1) then butlast (map snd zs1) else map snd zs1)"
      "lru_capacity c' = lru_capacity c1" "lru_should_promote_num c' = lru_should_promote_num c1" "cached zs' \<subseteq> insert v (cached zs1)"
      "ce_find E (lru_map c') ?k \<noteq> None"
      "case r of None \<Rightarrow> cached zs' = insert v (cached zs1) | Some w \<Rightarrow> w \<in> cached zs1 \<and> insert w (cached zs') = insert v (cached zs1)" .
    show thesis
    proof (rule that)
      show "lru_PutWithDisuse E v c = Some (r, c')" "lru_Put E v c = Some c'" using True c1(1) c'(1) by (simp_all add: lru_PutWithDisuse_def lru_Put_def)
      show "map snd zs' = spec_put (ce_key E) (unat (lru_capacity c)) (lru_should_promote_num c) v (map snd zs)"
        using True c'(3) same len c1(5) by (simp add: spec_put_def)
      show "\<And>w. r = Some w \<Longrightarrow> w \<in> cached zs" using c'(8) c1(7) by auto
    qed (use c1 c' in simp_all)
  qed
qed

text \<open>Without interruption the put of an rvalue is a put.\<close>

lemma lru_PutMove_eq:
  assumes inv: "lru_inv E c zs"
  shows "lru_PutMove E v c = lru_Put E v c"
proof -
  obtain c1 zs1 where c1: "lru_check E (ce_key E v) c = Some (ce_find E (lru_map c) (ce_key E v) \<noteq> None, c1)" "lru_inv E c1 zs1"
    using lru_check_ok [OF inv] by metis
  obtain r c2 zs2 where c2: "lru_make_room E c1 = Some (r, c2)" "lru_inv E c2 zs2" "length zs2 < unat (lru_capacity c2)"
    using lru_make_room_ok [OF c1(2)] by metis
  obtain a l where p: "lru_push v c2 = Some (a, c2\<lparr>lru_list := l\<rparr>)" "lru_inv E (c2\<lparr>lru_list := l\<rparr>) ((a, v, 0) # zs2)"
    using lru_push_ok [OF c2(2,3)] by metis
  have "content (dl_heap l) a = Some (Some v, 0)" using lru_invD(3) [OF p(2), of a v 0] by simp
  then obtain d where "dl_heap l a = Some d" "dn_value d = Some v" by (auto simp: content_def)
  then show ?thesis using c1(1) c2(1) p(1) by (simp add: lru_PutMove_def lru_Put_def lru_move_insert_def lru_insert_def lru_move_emplace_def)
qed

end
