(* ===== verification/CMSketch.thy ===== *)
theory CMSketch
  imports Prelude "HOL-Library.Monad_Syntax" MemTable
begin

text \<open>
  The sketch of \<^verbatim>\<open>src/mokv/cache/cm_sketch.hpp\<close>: two rows of counters of four bits, two counters in a byte, for items of 64
  bits.  \<open>None\<close> is an access outside of a row, which happens when the sketch has capacity one.  The lemmas show that an
  estimate is never below the number of increments (up to 15); it may be above, because the counter in the upper half
  of a byte is not masked off.
\<close>

unbundle bit_operations_syntax

record CMSketch =
  cm_data :: "8 word list list"
  cm_seed :: "64 word list"
  cm_capacity :: nat

fun new_seeds :: "nat \<Rightarrow> 64 word \<Rightarrow> 64 word list \<times> 64 word" where
  "new_seeds 0 g = ([], g)"
| "new_seeds (Suc n) g = (let (s, g) = GlobalRand g; (ss, g) = new_seeds n g in (s # ss, g))"

text \<open>The capacity is the \<^verbatim>\<open>int\<close> shift \<^verbatim>\<open>1 << capacity_bit\<close>, which is positive below 31 only.\<close>

definition sketch_new :: "nat \<Rightarrow> 64 word \<Rightarrow> (CMSketch \<times> 64 word) option" where
  "sketch_new capacity_bit g =
     (if capacity_bit < 31
      then (let capacity = 2 ^ capacity_bit; (seed, g) = new_seeds 2 g in
            Some (\<lparr>cm_data = replicate 2 (replicate (capacity div 2) 0), cm_seed = seed, cm_capacity = capacity\<rparr>, g))
      else None)"

definition sketch_index :: "CMSketch \<Rightarrow> nat \<Rightarrow> 64 word \<Rightarrow> nat" where
  "sketch_index s i item = unat (item XOR cm_seed s ! i) mod cm_capacity s"

definition sketch_offset :: "nat \<Rightarrow> nat" where
  "sketch_offset index = (if odd index then 4 else 0)"

definition row_get :: "CMSketch \<Rightarrow> nat \<Rightarrow> nat \<Rightarrow> 8 word option" where
  "row_get s i j = (if i < length (cm_data s) \<and> j < length (cm_data s ! i) then Some (cm_data s ! i ! j) else None)"

definition row_set :: "CMSketch \<Rightarrow> nat \<Rightarrow> nat \<Rightarrow> 8 word \<Rightarrow> CMSketch" where
  "row_set s i j x = s\<lparr>cm_data := (cm_data s)[i := (cm_data s ! i)[j := x]]\<rparr>"

definition increment_row :: "64 word \<Rightarrow> nat \<Rightarrow> CMSketch \<Rightarrow> CMSketch option" where
  "increment_row item i s =
     do { let index = sketch_index s i item;
          let offset = sketch_offset index;
          b \<leftarrow> row_get s i (index div 2);
          Some (if drop_bit offset b AND 15 < 15 then row_set s i (index div 2) (b + push_bit offset 1) else s) }"

definition sketch_Increment :: "64 word \<Rightarrow> CMSketch \<Rightarrow> CMSketch option" where
  "sketch_Increment item s = do { s \<leftarrow> increment_row item 0 s; increment_row item 1 s }"

definition estimate_row :: "64 word \<Rightarrow> nat \<Rightarrow> CMSketch \<Rightarrow> nat option" where
  "estimate_row item i s =
     do { let index = sketch_index s i item;
          b \<leftarrow> row_get s i (index div 2);
          Some (unat (drop_bit (sketch_offset index) b)) }"

definition sketch_Estimate :: "64 word \<Rightarrow> CMSketch \<Rightarrow> nat option" where
  "sketch_Estimate item s =
     do { x \<leftarrow> estimate_row item 0 s; y \<leftarrow> estimate_row item 1 s; Some (min (min 15 x) y) }"

definition sketch_Reset :: "CMSketch \<Rightarrow> CMSketch" where
  "sketch_Reset s = s\<lparr>cm_data := map (map (\<lambda>b. drop_bit 1 b AND 0x77)) (cm_data s)\<rparr>"


section \<open>Counters\<close>

definition half :: "nat \<Rightarrow> nat" where "half index = (if odd index then 16 else 1)"

definition counter_in :: "8 word \<Rightarrow> nat \<Rightarrow> nat" where
  "counter_in b index = unat b div half index mod 16"

lemma unat_shift: "unat (drop_bit (sketch_offset index) (b :: 8 word)) = unat b div half index"
  by (cases "odd index") (simp_all add: sketch_offset_def half_def drop_bit_eq_div unat_div_distrib)

lemma unat_counter: "unat (drop_bit (sketch_offset index) (b :: 8 word) AND 15) = counter_in b index"
proof -
  have "(15 :: 8 word) = mask 4" by (simp add: mask_eq_exp_minus_1)
  then have "drop_bit (sketch_offset index) b AND 15 = take_bit 4 (drop_bit (sketch_offset index) b)" by (simp only: take_bit_eq_mask)
  then have "unat (drop_bit (sketch_offset index) b AND 15) = take_bit 4 (unat (drop_bit (sketch_offset index) b))"
    by (simp add: unsigned_take_bit_eq)
  then show ?thesis by (simp add: unat_shift counter_in_def take_bit_eq_mod)
qed

lemma byte_bound: "unat (b :: 8 word) < 256" using unsigned_less [of b, where ?'a = nat] by simp

text \<open>A counter below 15 is incremented without touching its neighbour.\<close>

lemma counter_increment:
  assumes "counter_in b index < 15"
  shows "unat (b + push_bit (sketch_offset index) 1) = unat b + half index"
    "counter_in (b + push_bit (sketch_offset index) 1) index = counter_in b index + 1"
    "odd j \<noteq> odd index \<Longrightarrow> counter_in (b + push_bit (sketch_offset index) 1) j = counter_in b j"
proof -
  have "unat b + half index < 256" using assms byte_bound [of b] by (simp add: counter_in_def half_def split: if_splits) presburger+
  then show e: "unat (b + push_bit (sketch_offset index) 1) = unat b + half index"
    by (auto simp: unat_word_ariths sketch_offset_def half_def split: if_splits)
  show "counter_in (b + push_bit (sketch_offset index) 1) index = counter_in b index + 1"
    using assms unfolding counter_in_def e by (auto simp: half_def mod_Suc div_Suc div_add_self2 split: if_splits)
  show "counter_in (b + push_bit (sketch_offset index) 1) j = counter_in b j" if "odd j \<noteq> odd index"
    using that assms unfolding counter_in_def e by (auto simp: half_def mod_Suc div_Suc split: if_splits)
qed

lemma counter_bound: "counter_in b index \<le> 15" by (simp add: counter_in_def)

definition sketch_ok :: "CMSketch \<Rightarrow> bool" where
  "sketch_ok s = (\<exists>k. cm_capacity s = 2 ^ Suc k \<and> length (cm_data s) = 2 \<and> length (cm_seed s) = 2 \<and>
     (\<forall>i < 2. length (cm_data s ! i) = cm_capacity s div 2))"

definition cell :: "CMSketch \<Rightarrow> nat \<Rightarrow> nat \<Rightarrow> nat" where
  "cell s i index = counter_in (cm_data s ! i ! (index div 2)) index"

lemma sketch_index_less: "sketch_ok s \<Longrightarrow> sketch_index s i item < cm_capacity s"
  by (auto simp: sketch_ok_def sketch_index_def)

lemma row_get_ok: "sketch_ok s \<Longrightarrow> i < 2 \<Longrightarrow> index < cm_capacity s \<Longrightarrow> row_get s i (index div 2) = Some (cm_data s ! i ! (index div 2))"
  by (auto simp: sketch_ok_def row_get_def less_mult_imp_div_less)

lemma increment_row_ok:
  assumes s: "sketch_ok s" and i: "i < 2"
  shows "\<exists>s'. increment_row item i s = Some s' \<and> sketch_ok s' \<and> cm_capacity s' = cm_capacity s \<and> cm_seed s' = cm_seed s \<and>
    (\<forall>r < 2. \<forall>x < cm_capacity s. cell s' r x = (if r = i \<and> x = sketch_index s i item then min 15 (cell s r x + 1) else cell s r x))"
proof -
  let ?x = "sketch_index s i item"
  let ?j = "?x div 2"
  let ?b = "cm_data s ! i ! ?j"
  have x: "?x < cm_capacity s" using s by (rule sketch_index_less)
  have get: "row_get s i ?j = Some ?b" using row_get_ok [OF s i x] .
  have len: "i < length (cm_data s)" "?j < length (cm_data s ! i)" using get by (auto simp: row_get_def split: if_splits)
  show ?thesis
  proof (cases "counter_in ?b ?x < 15")
    case False
    then have "counter_in ?b ?x = 15" using counter_bound [of ?b ?x] by simp
    then have "increment_row item i s = Some s"
      using get unat_counter [of ?x ?b] by (simp add: increment_row_def Let_def word_less_nat_alt)
    then show ?thesis using s \<open>counter_in ?b ?x = 15\<close> by (simp add: cell_def)
  next
    case True
    define b' where "b' = ?b + push_bit (sketch_offset ?x) 1"
    define s' where "s' = row_set s i ?j b'"
    have "increment_row item i s = Some s'"
      using get unat_counter [of ?x ?b] True by (simp add: increment_row_def Let_def word_less_nat_alt s'_def b'_def)
    moreover have "sketch_ok s'" "cm_capacity s' = cm_capacity s" "cm_seed s' = cm_seed s"
      using s i by (auto simp: sketch_ok_def s'_def row_set_def nth_list_update)
    moreover have "cell s' r y = (if r = i \<and> y = ?x then min 15 (cell s r y + 1) else cell s r y)" if "r < 2" "y < cm_capacity s" for r y
    proof (cases "r = i \<and> y div 2 = ?j")
      case False
      then show ?thesis using len by (auto simp: cell_def s'_def row_set_def nth_list_update)
    next
      case same: True
      then have c: "cell s' r y = counter_in b' y" "cell s r y = counter_in ?b y" using len by (simp_all add: cell_def s'_def row_set_def)
      show ?thesis
      proof (cases "y = ?x")
        case True
        then show ?thesis using same c counter_increment(2) [OF \<open>counter_in ?b ?x < 15\<close>] \<open>counter_in ?b ?x < 15\<close> by (simp add: b'_def)
      next
        case False
        then have "odd y \<noteq> odd ?x" using same by (metis dvd_mult_div_cancel odd_two_times_div_two_succ)
        then show ?thesis using False same c counter_increment(3) [OF \<open>counter_in ?b ?x < 15\<close>] by (simp add: b'_def)
      qed
    qed
    ultimately show ?thesis by blast
  qed
qed


section \<open>Estimates\<close>

fun increments :: "64 word list \<Rightarrow> CMSketch \<Rightarrow> CMSketch option" where
  "increments [] s = Some s"
| "increments (x # xs) s = do { s \<leftarrow> sketch_Increment x s; increments xs s }"

lemma sketch_index_cong: "cm_capacity s' = cm_capacity s \<Longrightarrow> cm_seed s' = cm_seed s \<Longrightarrow> sketch_index s' = sketch_index s"
  by (intro ext) (simp add: sketch_index_def)

text \<open>Every counter is at least the number of items that were counted there, up to 15.\<close>

definition counted :: "CMSketch \<Rightarrow> 64 word list \<Rightarrow> bool" where
  "counted s xs = (\<forall>r < 2. \<forall>x < cm_capacity s. min 15 (length (filter (\<lambda>y. sketch_index s r y = x) xs)) \<le> cell s r x)"

lemma one_less_two: "(1 :: nat) < 2" by simp

lemma sketch_Increment_ok:
  assumes s: "sketch_ok s" and c: "counted s xs"
  shows "\<exists>s'. sketch_Increment y s = Some s' \<and> sketch_ok s' \<and> cm_capacity s' = cm_capacity s \<and> cm_seed s' = cm_seed s \<and> counted s' (y # xs)"
proof -
  obtain s1 where s1: "increment_row y 0 s = Some s1" "sketch_ok s1" "cm_capacity s1 = cm_capacity s" "cm_seed s1 = cm_seed s"
    "\<forall>r < 2. \<forall>x < cm_capacity s. cell s1 r x = (if r = 0 \<and> x = sketch_index s 0 y then min 15 (cell s r x + 1) else cell s r x)"
    using increment_row_ok [OF s zero_less_numeral, of y] by blast
  obtain s2 where s2: "increment_row y 1 s1 = Some s2" "sketch_ok s2" "cm_capacity s2 = cm_capacity s1" "cm_seed s2 = cm_seed s1"
    "\<forall>r < 2. \<forall>x < cm_capacity s1. cell s2 r x = (if r = 1 \<and> x = sketch_index s1 1 y then min 15 (cell s1 r x + 1) else cell s1 r x)"
    using increment_row_ok [OF s1(2) one_less_two, of y] by blast
  have idx: "sketch_index s1 = sketch_index s" "sketch_index s2 = sketch_index s1"
    by (rule sketch_index_cong [OF s1(3,4)], rule sketch_index_cong [OF s2(3,4)])
  have "min 15 (length (filter (\<lambda>z. sketch_index s r z = x) (y # xs))) \<le> cell s2 r x" if "r < 2" "x < cm_capacity s" for r x
  proof -
    have "min 15 (length (filter (\<lambda>y. sketch_index s r y = x) xs)) \<le> cell s r x" using c that by (simp add: counted_def)
    moreover have "cell s2 r x = (if x = sketch_index s r y then min 15 (cell s r x + 1) else cell s r x)"
      using s1(5) [rule_format, OF that] s2(5) [rule_format, of r x] that s1(3) idx(1) less_2_cases [OF that(1)] by auto
    ultimately show ?thesis by auto
  qed
  then have "counted s2 (y # xs)" using idx s1(3) s2(3) by (simp add: counted_def)
  then show ?thesis using s1(1,3,4) s2(1-4) by (simp add: sketch_Increment_def)
qed

lemma increments_ok:
  "sketch_ok s \<Longrightarrow> counted s ys \<Longrightarrow> \<exists>s'. increments xs s = Some s' \<and> sketch_ok s' \<and> counted s' (rev xs @ ys)"
proof (induction xs arbitrary: s ys)
  case (Cons x xs)
  obtain s1 where s1: "sketch_Increment x s = Some s1" "sketch_ok s1" "counted s1 (x # ys)" using sketch_Increment_ok [OF Cons.prems] by blast
  then show ?case using Cons.IH [OF s1(2,3)] by simp
qed simp

lemma estimate_row_ok:
  assumes "sketch_ok s" "counted s xs" "i < 2"
  shows "\<exists>n. estimate_row item i s = Some n \<and> min 15 (count_list xs item) \<le> n"
proof -
  let ?x = "sketch_index s i item"
  have x: "?x < cm_capacity s" using assms(1) by (rule sketch_index_less)
  have "count_list xs item \<le> length (filter (\<lambda>y. sketch_index s i y = ?x) xs)" by (induction xs) auto
  moreover have "min 15 (length (filter (\<lambda>y. sketch_index s i y = ?x) xs)) \<le> cell s i ?x" using assms(2,3) x by (simp add: counted_def)
  moreover have "cell s i ?x \<le> unat (cm_data s ! i ! (?x div 2)) div half ?x" by (simp add: cell_def counter_in_def)
  ultimately show ?thesis using row_get_ok [OF assms(1,3) x] by (simp add: estimate_row_def unat_shift Let_def)
qed

lemma sketch_new_ok:
  assumes "k < 30"
  obtains s g' where "sketch_new (Suc k) g = Some (s, g')" "sketch_ok s" "counted s []"
proof -
  obtain s g' where s: "sketch_new (Suc k) g = Some (s, g')" using assms by (auto simp: sketch_new_def GlobalRand_def numeral_2_eq_2 Let_def)
  moreover have "sketch_ok s \<and> counted s []"
    using s by (auto simp: sketch_new_def sketch_ok_def counted_def GlobalRand_def numeral_2_eq_2 less_Suc_eq Let_def split: if_splits)
  ultimately show thesis using that by blast
qed

lemma sketch_Reset_ok: "sketch_ok s \<Longrightarrow> sketch_ok (sketch_Reset s)"
  by (auto simp: sketch_ok_def sketch_Reset_def)

lemma sketch_estimates:
  assumes "sketch_new (Suc k) g = Some (s, g')"
  shows "\<exists>s' n. increments xs s = Some s' \<and> sketch_Estimate item s' = Some n \<and> min 15 (count_list xs item) \<le> n \<and> n \<le> 15"
proof -
  have "k < 30" using assms by (simp add: sketch_new_def split: if_splits)
  from sketch_new_ok [OF this, of g] assms have "sketch_ok s" "counted s []" by simp_all
  then obtain s' where s': "increments xs s = Some s'" "sketch_ok s'" "counted s' (rev xs)"
    using increments_ok [of s "[]" xs] by auto
  obtain a where a: "estimate_row item 0 s' = Some a" "min 15 (count_list xs item) \<le> a"
    using estimate_row_ok [OF s'(2,3), of 0 item] by auto
  obtain b where b: "estimate_row item 1 s' = Some b" "min 15 (count_list xs item) \<le> b"
    using estimate_row_ok [OF s'(2,3), of 1 item] by auto
  show ?thesis using s'(1) a b by (simp add: sketch_Estimate_def)
qed

end
