(* ===== verification/TwoLRU.thy ===== *)
theory TwoLRU
  imports LRU_Correct CMSketch
begin

text \<open>
  The classes \<^verbatim>\<open>Concurrent2LRUCache\<close>, \<^verbatim>\<open>ConcurrentBucketLRUCache\<close> and \<^verbatim>\<open>ConcurrentBucket2LRUCache\<close> of
  \<^verbatim>\<open>src/mokv/cache/concurrent_cache.hpp\<close>: a small window cache in front of a main cache that admits a value only when the sketch
  estimates it as more frequent than the one it replaces, and caches that spread the keys over 64 shards.  The
  conversion of a key to the 64-bit item of the sketch and the hash of a key are parameters.  The fields
  \<^verbatim>\<open>window_size_\<close> and \<^verbatim>\<open>main_size_\<close>, which the class never uses, are left out, as is the name of a cache.
\<close>

section \<open>Window and main cache\<close>

record ('v, 'm) two_lru =
  tl_window :: "('v, 'm) lru"
  tl_main :: "('v, 'm) lru"
  tl_sketch :: CMSketch
  tl_window_ratio :: "64 word"
  tl_window_capacity :: "64 word"
  tl_main_capacity :: "64 word"
  tl_stop :: bool
  tl_refreshing :: bool

text \<open>The loop that counts the bits of the capacity.\<close>

function bits_num :: "64 word \<Rightarrow> nat" where
  "bits_num capacity = (if capacity = 0 then 0 else Suc (bits_num (drop_bit 1 capacity)))"
  by pat_completeness auto
termination
proof (relation "measure unat")
  fix capacity :: "64 word"
  assume "capacity \<noteq> 0"
  then have "0 < unat capacity" by (simp add: unat_gt_0)
  moreover have "unat (drop_bit 1 capacity) = unat capacity div 2" by (simp add: drop_bit_eq_div unat_div_distrib)
  ultimately show "(drop_bit 1 capacity, capacity) \<in> measure unat" by simp
qed simp

declare bits_num.simps [simp del]

definition window_capacity_of :: "64 word \<Rightarrow> 64 word \<Rightarrow> 64 word" where
  "window_capacity_of capacity ratio = (let w = capacity * ratio div 100 in if w = 0 then 1 else w)"

definition main_capacity_of :: "64 word \<Rightarrow> 64 word \<Rightarrow> 64 word" where
  "main_capacity_of capacity ratio = (let m = capacity - window_capacity_of capacity ratio in if m = 0 then 1 else m)"

text \<open>The thread that ages the sketch: \<open>two_refresh\<close> is one round of its loop, after the wait.\<close>

definition two_start :: "('v, 'm) two_lru \<Rightarrow> ('v, 'm) two_lru" where
  "two_start c = c\<lparr>tl_refreshing := True\<rparr>"

definition two_stop :: "('v, 'm) two_lru \<Rightarrow> ('v, 'm) two_lru" where
  "two_stop c = c\<lparr>tl_stop := True, tl_refreshing := False\<rparr>"

definition two_refresh :: "('v, 'm) two_lru \<Rightarrow> ('v, 'm) two_lru" where
  "two_refresh c =
     (if \<not> tl_refreshing c then c
      else if tl_stop c then c\<lparr>tl_refreshing := False\<rparr>
      else c\<lparr>tl_sketch := sketch_Reset (tl_sketch c)\<rparr>)"

definition two_new :: "('k, 'v, 'm) cache_env \<Rightarrow> 64 word \<Rightarrow> 64 word \<Rightarrow> 64 word \<Rightarrow> (('v, 'm) two_lru \<times> 64 word) option" where
  "two_new E capacity ratio g =
     do { let w = window_capacity_of capacity ratio;
          let m = main_capacity_of capacity ratio;
          (s, g) \<leftarrow> sketch_new (bits_num capacity) g;
          Some (two_start \<lparr>tl_window = lru_new E w 8, tl_main = lru_new E m 8, tl_sketch = s, tl_window_ratio = ratio,
            tl_window_capacity = w, tl_main_capacity = m, tl_stop = False, tl_refreshing = False\<rparr>, g) }"

definition two_move :: "('v, 'm) two_lru \<Rightarrow> ('v, 'm) two_lru \<Rightarrow> ('v, 'm) two_lru" where
  "two_move c rhs = two_start ((two_stop c)\<lparr>tl_window := tl_window rhs, tl_main := tl_main rhs, tl_sketch := tl_sketch rhs\<rparr>)"

definition two_compair :: "('k, 'v, 'm) cache_env \<Rightarrow> ('k \<Rightarrow> 64 word) \<Rightarrow> CMSketch \<Rightarrow> 'v \<Rightarrow> 'v \<Rightarrow> bool option" where
  "two_compair E item s old_value new_value =
     do { old \<leftarrow> sketch_Estimate (item (ce_key E old_value)) s;
          new \<leftarrow> sketch_Estimate (item (ce_key E new_value)) s;
          Some (old < new) }"

definition two_Put :: "('k, 'v, 'm) cache_env \<Rightarrow> ('k \<Rightarrow> 64 word) \<Rightarrow> 'v \<Rightarrow> ('v, 'm) two_lru \<Rightarrow> ('v, 'm) two_lru option" where
  "two_Put E item v c =
     do { s \<leftarrow> sketch_Increment (item (ce_key E v)) (tl_sketch c);
          (r, window) \<leftarrow> lru_PutWithDisuse E v (tl_window c);
          let c = c\<lparr>tl_sketch := s, tl_window := window\<rparr>;
          (case r of
             None \<Rightarrow> Some c
           | Some w \<Rightarrow> do { main \<leftarrow> lru_PutWithCompair E w (two_compair E item s) (tl_main c); Some (c\<lparr>tl_main := main\<rparr>) }) }"

definition two_Get :: "('k, 'v, 'm) cache_env \<Rightarrow> ('k \<Rightarrow> 64 word) \<Rightarrow> 'k \<Rightarrow> ('v, 'm) two_lru \<Rightarrow> ('v option \<times> ('v, 'm) two_lru) option" where
  "two_Get E item k c =
     do { s \<leftarrow> sketch_Increment (item k) (tl_sketch c);
          (r, window) \<leftarrow> lru_Get E k (tl_window c);
          let c = c\<lparr>tl_sketch := s, tl_window := window\<rparr>;
          (case r of
             Some v \<Rightarrow> Some (Some v, c)
           | None \<Rightarrow> do { (r, main) \<leftarrow> lru_Get E k (tl_main c); Some (r, c\<lparr>tl_main := main\<rparr>) }) }"

definition two_Peek :: "('k, 'v, 'm) cache_env \<Rightarrow> 'k \<Rightarrow> ('v, 'm) two_lru \<Rightarrow> 'v option option" where
  "two_Peek E k c =
     do { r \<leftarrow> lru_Peek E k (tl_window c);
          (case r of Some v \<Rightarrow> Some (Some v) | None \<Rightarrow> lru_Peek E k (tl_main c)) }"

section \<open>Shards\<close>

definition ShardBits :: nat where "ShardBits = 6"

definition GetShard :: "('k \<Rightarrow> 64 word) \<Rightarrow> 'k \<Rightarrow> nat" where
  "GetShard hash k = unat (hash k AND (push_bit ShardBits 1 - 1))"

definition bucket_Put :: "('v \<Rightarrow> 's \<Rightarrow> 's option) \<Rightarrow> ('v \<Rightarrow> 'k) \<Rightarrow> ('k \<Rightarrow> 64 word) \<Rightarrow> 'v \<Rightarrow> 's list \<Rightarrow> 's list option" where
  "bucket_Put put key hash v ss =
     (let i = GetShard hash (key v) in
      if i < length ss then do { s \<leftarrow> put v (ss ! i); Some (ss[i := s]) } else None)"

definition bucket_Get :: "('k \<Rightarrow> 's \<Rightarrow> ('v option \<times> 's) option) \<Rightarrow> ('k \<Rightarrow> 64 word) \<Rightarrow> 'k \<Rightarrow> 's list \<Rightarrow> ('v option \<times> 's list) option" where
  "bucket_Get get hash k ss =
     (let i = GetShard hash k in
      if i < length ss then do { (r, s) \<leftarrow> get k (ss ! i); Some (r, ss[i := s]) } else None)"

definition bucket_Peek :: "('k \<Rightarrow> 's \<Rightarrow> 'v option option) \<Rightarrow> ('k \<Rightarrow> 64 word) \<Rightarrow> 'k \<Rightarrow> 's list \<Rightarrow> 'v option option" where
  "bucket_Peek peek hash k ss = (let i = GetShard hash k in if i < length ss then peek k (ss ! i) else None)"

text \<open>The two classes, with the capacity of a shard rounded up.\<close>

definition shard_capacity :: "64 word \<Rightarrow> 64 word" where
  "shard_capacity capacity = drop_bit ShardBits capacity + 1"

definition blru_new :: "('k, 'v, 'm) cache_env \<Rightarrow> 64 word \<Rightarrow> ('v, 'm) lru list" where
  "blru_new E capacity = replicate (2 ^ ShardBits) (lru_Reserve E (shard_capacity capacity) (lru_new E 24 8))"

definition blru_Put :: "('k, 'v, 'm) cache_env \<Rightarrow> ('k \<Rightarrow> 64 word) \<Rightarrow> 'v \<Rightarrow> ('v, 'm) lru list \<Rightarrow> ('v, 'm) lru list option" where
  "blru_Put E = bucket_Put (lru_Put E) (ce_key E)"

definition blru_PutMove :: "('k, 'v, 'm) cache_env \<Rightarrow> ('k \<Rightarrow> 64 word) \<Rightarrow> 'v \<Rightarrow> ('v, 'm) lru list \<Rightarrow> ('v, 'm) lru list option" where
  "blru_PutMove E = bucket_Put (lru_PutMove E) (ce_key E)"

definition blru_Get :: "('k, 'v, 'm) cache_env \<Rightarrow> ('k \<Rightarrow> 64 word) \<Rightarrow> 'k \<Rightarrow> ('v, 'm) lru list \<Rightarrow> ('v option \<times> ('v, 'm) lru list) option" where
  "blru_Get E = bucket_Get (lru_Get E)"

definition blru_Peek :: "('k, 'v, 'm) cache_env \<Rightarrow> ('k \<Rightarrow> 64 word) \<Rightarrow> 'k \<Rightarrow> ('v, 'm) lru list \<Rightarrow> 'v option option" where
  "blru_Peek E = bucket_Peek (lru_Peek E)"

text \<open>The constructor of the second one default-constructs all shards, then assigns to each of them a temporary one.\<close>

primrec default_shards :: "('k, 'v, 'm) cache_env \<Rightarrow> nat \<Rightarrow> 64 word \<Rightarrow> (('v, 'm) two_lru list \<times> 64 word) option" where
  "default_shards E 0 g = Some ([], g)"
| "default_shards E (Suc n) g = do { (c, g) \<leftarrow> two_new E 1024 1 g; (cs, g) \<leftarrow> default_shards E n g; Some (c # cs, g) }"

primrec assign_shards :: "('k, 'v, 'm) cache_env \<Rightarrow> 64 word \<Rightarrow> ('v, 'm) two_lru list \<Rightarrow> 64 word \<Rightarrow> (('v, 'm) two_lru list \<times> 64 word) option" where
  "assign_shards E capacity [] g = Some ([], g)"
| "assign_shards E capacity (c # cs) g =
     do { (rhs, g) \<leftarrow> two_new E (shard_capacity capacity) 1 g;
          (cs, g) \<leftarrow> assign_shards E capacity cs g;
          Some (two_move c rhs # cs, g) }"

definition b2lru_new :: "('k, 'v, 'm) cache_env \<Rightarrow> 64 word \<Rightarrow> 64 word \<Rightarrow> (('v, 'm) two_lru list \<times> 64 word) option" where
  "b2lru_new E capacity g = do { (cs, g) \<leftarrow> default_shards E (2 ^ ShardBits) g; assign_shards E capacity cs g }"

definition b2lru_Put :: "('k, 'v, 'm) cache_env \<Rightarrow> ('k \<Rightarrow> 64 word) \<Rightarrow> ('k \<Rightarrow> 64 word) \<Rightarrow> 'v \<Rightarrow> ('v, 'm) two_lru list \<Rightarrow> ('v, 'm) two_lru list option" where
  "b2lru_Put E item = bucket_Put (two_Put E item) (ce_key E)"

definition b2lru_Get :: "('k, 'v, 'm) cache_env \<Rightarrow> ('k \<Rightarrow> 64 word) \<Rightarrow> ('k \<Rightarrow> 64 word) \<Rightarrow> 'k \<Rightarrow> ('v, 'm) two_lru list \<Rightarrow> ('v option \<times> ('v, 'm) two_lru list) option" where
  "b2lru_Get E item = bucket_Get (two_Get E item)"

definition b2lru_Peek :: "('k, 'v, 'm) cache_env \<Rightarrow> ('k \<Rightarrow> 64 word) \<Rightarrow> 'k \<Rightarrow> ('v, 'm) two_lru list \<Rightarrow> 'v option option" where
  "b2lru_Peek E = bucket_Peek (two_Peek E)"

end
