(* ===== verification/Object_Cache.thy ===== *)
theory Object_Cache
  imports TwoLRU
begin

text \<open>
  The contract of the object caches: a put never fails and the key is found afterwards, a get returns what a peek shows,
  and what is returned under a key was put under it.  The contract is proved of the plain cache and of the window
  cache; a sharded cache fulfils it whenever its shards do.
\<close>

section \<open>The contract\<close>

datatype ('k, 'v) cache_request = CachePut 'v | CacheGet 'k | CachePeek 'k

fun cache_run :: "('v \<Rightarrow> 's \<Rightarrow> 's option) \<Rightarrow> ('k \<Rightarrow> 's \<Rightarrow> ('v option \<times> 's) option) \<Rightarrow> ('k \<Rightarrow> 's \<Rightarrow> 'v option option) \<Rightarrow>
    ('k, 'v) cache_request list \<Rightarrow> 's \<Rightarrow> ('v option list \<times> 's) option" where
  "cache_run put get peek [] s = Some ([], s)"
| "cache_run put get peek (CachePut v # rs) s =
     do { s \<leftarrow> put v s; (xs, s) \<leftarrow> cache_run put get peek rs s; Some (None # xs, s) }"
| "cache_run put get peek (CacheGet k # rs) s =
     do { (x, s) \<leftarrow> get k s; (xs, s) \<leftarrow> cache_run put get peek rs s; Some (x # xs, s) }"
| "cache_run put get peek (CachePeek k # rs) s =
     do { x \<leftarrow> peek k s; (xs, s) \<leftarrow> cache_run put get peek rs s; Some (x # xs, s) }"

text \<open>The values put by a sequence of requests, and whether its answers are sound.\<close>

fun puts :: "('k, 'v) cache_request list \<Rightarrow> 'v set" where
  "puts [] = {}"
| "puts (CachePut v # rs) = insert v (puts rs)"
| "puts (_ # rs) = puts rs"

fun sound_answers :: "('v \<Rightarrow> 'k) \<Rightarrow> 'v set \<Rightarrow> ('k, 'v) cache_request list \<Rightarrow> 'v option list \<Rightarrow> bool" where
  "sound_answers key V [] [] = True"
| "sound_answers key V (CachePut v # rs) (x # xs) = (x = None \<and> sound_answers key (insert v V) rs xs)"
| "sound_answers key V (CacheGet k # rs) (x # xs) = (pred_option (\<lambda>v. key v = k \<and> v \<in> V) x \<and> sound_answers key V rs xs)"
| "sound_answers key V (CachePeek k # rs) (x # xs) = (pred_option (\<lambda>v. key v = k \<and> v \<in> V) x \<and> sound_answers key V rs xs)"
| "sound_answers _ _ _ _ = False"

locale object_cache =
  fixes put :: "'v \<Rightarrow> 's \<Rightarrow> 's option"
    and get :: "'k \<Rightarrow> 's \<Rightarrow> ('v option \<times> 's) option"
    and peek :: "'k \<Rightarrow> 's \<Rightarrow> 'v option option"
    and key :: "'v \<Rightarrow> 'k"
    and inv :: "'s \<Rightarrow> 'v set \<Rightarrow> bool"
  assumes put_ok: "inv s V \<Longrightarrow> \<exists>s' w. put v s = Some s' \<and> inv s' (insert v V) \<and> peek (key v) s' = Some (Some w)"
    and get_ok: "inv s V \<Longrightarrow> \<exists>x s'. get k s = Some (x, s') \<and> inv s' V \<and> peek k s = Some x"
    and peek_sound: "inv s V \<Longrightarrow> peek k s = Some (Some v) \<Longrightarrow> key v = k \<and> v \<in> V"
    and weaken: "inv s V \<Longrightarrow> V \<subseteq> W \<Longrightarrow> inv s W"
begin

lemma answer_sound: "inv s V \<Longrightarrow> peek k s = Some x \<Longrightarrow> pred_option (\<lambda>v. key v = k \<and> v \<in> V) x"
  using peek_sound [of s V k] by (cases x) auto

lemma run_ok: "inv s V \<Longrightarrow> \<exists>xs s'. cache_run put get peek rs s = Some (xs, s') \<and> inv s' (V \<union> puts rs) \<and> sound_answers key V rs xs"
proof (induction rs arbitrary: s V rule: puts.induct [case_names Nil Put Get Peek])
  case (Put v rs)
  obtain s1 where s1: "put v s = Some s1" "inv s1 (insert v V)" using put_ok [OF Put(2)] by blast
  then show ?case using Put(1) [OF s1(2)] by auto
next
  case (Get k rs)
  obtain x s1 where s1: "get k s = Some (x, s1)" "inv s1 V" "peek k s = Some x" using get_ok [OF Get(2)] by blast
  then show ?case using Get(1) [OF s1(2)] answer_sound [OF Get(2) s1(3)] by auto
next
  case (Peek k rs)
  obtain x where x: "peek k s = Some x" using get_ok [OF Peek(2)] by blast
  then show ?case using Peek(1) [OF Peek(2)] answer_sound [OF Peek(2) x] by auto
qed simp

text \<open>A value is found right after it was put, or one with the same key that was there before.\<close>

lemma put_get:
  assumes "inv s V"
  shows "\<exists>s1 w s2. put v s = Some s1 \<and> get (key v) s1 = Some (Some w, s2) \<and> key w = key v \<and> w \<in> insert v V"
proof -
  obtain s1 w where s1: "put v s = Some s1" "inv s1 (insert v V)" "peek (key v) s1 = Some (Some w)" using put_ok [OF assms] by blast
  then show ?thesis using get_ok [OF s1(2), of "key v"] peek_sound [OF s1(2,3)] by auto
qed

end

section \<open>Shards\<close>

lemma GetShard_less: "GetShard hash k < 2 ^ ShardBits"
proof -
  have m: "(push_bit ShardBits 1 - 1 :: 64 word) = mask ShardBits" by (simp add: mask_eq_exp_minus_1)
  have "GetShard hash k = take_bit ShardBits (unat (hash k))"
    unfolding GetShard_def m by (simp add: unsigned_take_bit_eq flip: take_bit_eq_mask)
  then show ?thesis by simp
qed

definition shards_inv :: "('s \<Rightarrow> 'v set \<Rightarrow> bool) \<Rightarrow> 's list \<Rightarrow> 'v set \<Rightarrow> bool" where
  "shards_inv I ss V = (length ss = 2 ^ ShardBits \<and> (\<forall>s \<in> set ss. I s V))"

locale sharded_cache = object_cache put get peek key inv
  for put :: "'v \<Rightarrow> 's \<Rightarrow> 's option" and get :: "'k \<Rightarrow> 's \<Rightarrow> ('v option \<times> 's) option" and peek :: "'k \<Rightarrow> 's \<Rightarrow> 'v option option"
    and key :: "'v \<Rightarrow> 'k" and inv :: "'s \<Rightarrow> 'v set \<Rightarrow> bool" +
  fixes hash :: "'k \<Rightarrow> 64 word"
begin

lemma shard_inv: "shards_inv inv ss V \<Longrightarrow> GetShard hash k < length ss \<and> inv (ss ! GetShard hash k) V"
  using GetShard_less [of hash k] by (simp add: shards_inv_def)

lemma shards_inv_update: "shards_inv inv ss V \<Longrightarrow> inv s W \<Longrightarrow> V \<subseteq> W \<Longrightarrow> shards_inv inv (ss[i := s]) W"
  using set_update_subset_insert [of ss i s] weaken [of _ V W] by (auto simp: shards_inv_def)

end

sublocale sharded_cache \<subseteq> sharded: object_cache "bucket_Put put key hash" "bucket_Get get hash" "bucket_Peek peek hash" key "shards_inv inv"
proof
  fix ss V v
  assume inv: "shards_inv inv ss V"
  let ?i = "GetShard hash (key v)"
  have i: "?i < length ss" "inv (ss ! ?i) V" using shard_inv [OF inv] by simp_all
  obtain s' w where s': "put v (ss ! ?i) = Some s'" "inv s' (insert v V)" "peek (key v) s' = Some (Some w)" using put_ok [OF i(2)] by blast
  then have "shards_inv inv (ss[?i := s']) (insert v V)" using shards_inv_update [OF inv s'(2)] by blast
  then show "\<exists>ss' w. bucket_Put put key hash v ss = Some ss' \<and> shards_inv inv ss' (insert v V) \<and> bucket_Peek peek hash (key v) ss' = Some (Some w)"
    using i s' by (auto simp: bucket_Put_def bucket_Peek_def Let_def)
next
  fix ss V k
  assume inv: "shards_inv inv ss V"
  let ?i = "GetShard hash k"
  have i: "?i < length ss" "inv (ss ! ?i) V" using shard_inv [OF inv] by simp_all
  obtain x s' where s': "get k (ss ! ?i) = Some (x, s')" "inv s' V" "peek k (ss ! ?i) = Some x" using get_ok [OF i(2)] by blast
  then have "shards_inv inv (ss[?i := s']) V" using shards_inv_update [OF inv s'(2)] by blast
  then show "\<exists>x ss'. bucket_Get get hash k ss = Some (x, ss') \<and> shards_inv inv ss' V \<and> bucket_Peek peek hash k ss = Some x"
    using i s' by (auto simp: bucket_Get_def bucket_Peek_def Let_def)
next
  fix ss V k v
  assume "shards_inv inv ss V" "bucket_Peek peek hash k ss = Some (Some v)"
  then show "key v = k \<and> v \<in> V" using shard_inv [of ss V k] peek_sound by (auto simp: bucket_Peek_def Let_def split: if_splits)
next
  fix ss V W
  assume "shards_inv inv ss V" "V \<subseteq> W"
  then show "shards_inv inv ss W" using weaken by (auto simp: shards_inv_def)
qed


section \<open>The plain cache\<close>

definition lru_obj :: "('k, 'v, 'm) cache_env \<Rightarrow> 64 word \<Rightarrow> ('v, 'm) lru \<Rightarrow> 'v set \<Rightarrow> bool" where
  "lru_obj E capacity c V = (\<exists>zs. lru_exact E c zs \<and> cached zs \<subseteq> V \<and> lru_capacity c = capacity)"

lemma lru_obj_new: "cache_env_ok E \<Longrightarrow> capacity \<noteq> 0 \<Longrightarrow> lru_obj E capacity (lru_new E capacity n) {}"
  using lru_inv_new [of E capacity n] unfolding lru_obj_def lru_exact_def by (intro exI [of _ "[]"]) (simp add: cached_def lru_new_def)

lemma lru_obj_Reserve:
  assumes "cache_env_ok E" "capacity \<noteq> 0" "capacity' \<noteq> 0"
  shows "lru_obj E capacity' (lru_Reserve E capacity' (lru_new E capacity n)) {}"
  unfolding lru_obj_def lru_exact_def
  using lru_inv_Reserve [OF lru_inv_new [OF assms(1,2)], of capacity' n] assms(3) by (intro exI [of _ "[]"]) (simp add: cached_def lru_Reserve_def)

lemma lru_obj_size: "lru_obj E capacity c V \<Longrightarrow> lru_TrueSize c \<le> capacity"
  using lru_exactD(1) lru_invD(5) unat_size by (fastforce simp: lru_obj_def lru_TrueSize_def word_le_nat_alt)

lemma lru_obj_weaken: "lru_obj E capacity c V \<Longrightarrow> V \<subseteq> W \<Longrightarrow> lru_obj E capacity c W"
  by (auto simp: lru_obj_def)

lemma lru_obj_Get:
  assumes "lru_obj E capacity c V"
  shows "\<exists>x c'. lru_Get E k c = Some (x, c') \<and> lru_obj E capacity c' V \<and> lru_Peek E k c = Some x \<and>
    pred_option (\<lambda>v. ce_key E v = k \<and> v \<in> V) x \<and> (x = None \<longleftrightarrow> ce_find E (lru_map c) k = None)"
proof -
  obtain zs where zs: "lru_exact E c zs" "cached zs \<subseteq> V" "lru_capacity c = capacity" using assms by (auto simp: lru_obj_def)
  obtain c' zs' where c': "lru_exact E c' zs'" "lru_capacity c' = lru_capacity c" "cached zs' = cached zs"
    "lru_Get E k c = Some (spec_lookup (ce_key E) k (map snd zs), c')"
    by (rule lru_check_exact [OF zs(1), of k])
  obtain x c'' where x: "lru_Get E k c = Some (x, c'')" "lru_Peek E k c = Some x" "\<And>v. x = Some v \<Longrightarrow> ce_key E v = k \<and> v \<in> cached zs"
    "x = None \<longleftrightarrow> ce_find E (lru_map c) k = None"
    by (rule lru_Get_ok [OF lru_exactD(1) [OF zs(1)], of k]) (rule that)
  have "lru_obj E capacity c'' V" using c' x(1) zs(2,3) by (auto simp: lru_obj_def)
  moreover have "pred_option (\<lambda>v. ce_key E v = k \<and> v \<in> V) x" using x(3) zs(2) by (cases x) auto
  ultimately show ?thesis using x(1,2,4) by (intro exI [of _ x] exI [of _ c'']) simp
qed

lemma lru_obj_Put:
  assumes "lru_obj E capacity c V"
  shows "\<exists>x c'. lru_PutWithDisuse E v c = Some (x, c') \<and> lru_Put E v c = Some c' \<and> lru_obj E capacity c' (insert v V) \<and>
    ce_find E (lru_map c') (ce_key E v) \<noteq> None \<and> pred_option (\<lambda>w. w \<in> V) x"
proof -
  obtain zs where zs: "lru_exact E c zs" "cached zs \<subseteq> V" "lru_capacity c = capacity" using assms by (auto simp: lru_obj_def)
  obtain x c' zs' where c': "lru_PutWithDisuse E v c = Some (x, c')" "lru_Put E v c = Some c'" "lru_exact E c' zs'"
    "lru_capacity c' = lru_capacity c" "ce_find E (lru_map c') (ce_key E v) \<noteq> None" "cached zs' \<subseteq> insert v (cached zs)" "\<And>w. x = Some w \<Longrightarrow> w \<in> cached zs"
    using lru_PutWithDisuse_ok [OF zs(1)] by metis
  have "lru_obj E capacity c' (insert v V)" using c'(3,4,6) zs(2,3) by (auto simp: lru_obj_def)
  moreover have "pred_option (\<lambda>w. w \<in> V) x" using c'(7) zs(2) by (cases x) auto
  ultimately show ?thesis using c'(1,2,5) by blast
qed

lemma lru_obj_find:
  assumes "lru_obj E capacity c V" "ce_find E (lru_map c) k \<noteq> None"
  shows "\<exists>w. lru_Peek E k c = Some (Some w)"
  using lru_obj_Get [OF assms(1), of k] assms(2) by auto

interpretation lru: object_cache "lru_Put E" "lru_Get E" "lru_Peek E" "ce_key E" "lru_obj E capacity" for E :: "('k, 'v, 'm) cache_env" and capacity
proof
  fix c V and v :: 'v
  assume "lru_obj E capacity c V"
  then show "\<exists>s' w. lru_Put E v c = Some s' \<and> lru_obj E capacity s' (insert v V) \<and> lru_Peek E (ce_key E v) s' = Some (Some w)"
    using lru_obj_Put [of E capacity c V v] lru_obj_find by metis
next
  fix c V and k :: 'k
  assume "lru_obj E capacity c V"
  then show "\<exists>x s'. lru_Get E k c = Some (x, s') \<and> lru_obj E capacity s' V \<and> lru_Peek E k c = Some x"
    using lru_obj_Get [of E capacity c V k] by metis
next
  fix c V k and v :: 'v
  assume "lru_obj E capacity c V" "lru_Peek E k c = Some (Some v)"
  then show "ce_key E v = k \<and> v \<in> V" using lru_obj_Get [of E capacity c V k] by auto
qed (rule lru_obj_weaken)

section \<open>The window cache\<close>

lemma bits_num_bounds:
  assumes "capacity \<noteq> 0" "unat capacity < 2 ^ n"
  shows "\<exists>k < n. bits_num capacity = Suc k"
proof -
  have "unat c < 2 ^ m \<Longrightarrow> bits_num c \<le> m" for c m
  proof (induction c arbitrary: m rule: bits_num.induct)
    case (1 c)
    show ?case
    proof (cases "c = 0")
      case False
      then obtain m' where m': "m = Suc m'" using 1(2) unat_gt_0 [of c] by (cases m) auto
      have "unat (drop_bit 1 c) = unat c div 2" by (simp add: drop_bit_eq_div unat_div_distrib)
      then have "unat (drop_bit 1 c) < 2 ^ m'" using 1(2) m' by simp
      then show ?thesis using 1(1) [OF False] False m' by (simp add: bits_num.simps [of c])
    qed (simp add: bits_num.simps [of 0])
  qed
  then have "bits_num capacity \<le> n" using assms(2) .
  moreover have "bits_num capacity \<noteq> 0" using assms(1) by (simp add: bits_num.simps [of capacity])
  ultimately show ?thesis by (metis Suc_le_eq not0_implies_Suc)
qed

definition two_obj :: "('k, 'v, 'm) cache_env \<Rightarrow> 64 word \<Rightarrow> 64 word \<Rightarrow> ('v, 'm) two_lru \<Rightarrow> 'v set \<Rightarrow> bool" where
  "two_obj E w m c V = (lru_obj E w (tl_window c) V \<and> lru_obj E m (tl_main c) V \<and> sketch_ok (tl_sketch c))"

lemma two_obj_new:
  assumes "cache_env_ok E" "capacity \<noteq> 0" "unat capacity < 2 ^ 30"
  obtains c g' where "two_new E capacity ratio g = Some (c, g')" "two_obj E (window_capacity_of capacity ratio) (main_capacity_of capacity ratio) c {}"
    "\<not> tl_stop c" "tl_refreshing c"
proof -
  obtain k where k: "k < 30" "bits_num capacity = Suc k" using bits_num_bounds [OF assms(2,3)] by blast
  obtain s g' where s: "sketch_new (Suc k) g = Some (s, g')" "sketch_ok s" using sketch_new_ok [OF k(1)] by metis
  have "window_capacity_of capacity ratio \<noteq> 0" "main_capacity_of capacity ratio \<noteq> 0"
    by (simp_all add: window_capacity_of_def main_capacity_of_def Let_def)
  then show thesis using that s k(2) lru_obj_new [OF assms(1)] by (simp add: two_new_def two_obj_def two_start_def Let_def)
qed

lemma two_obj_move: "two_obj E w m rhs V \<Longrightarrow> two_obj E w m (two_move c rhs) V"
  by (simp add: two_obj_def two_move_def two_start_def)

lemma two_obj_refresh: "two_obj E w m c V \<Longrightarrow> two_obj E w m (two_refresh c) V"
  by (simp add: two_obj_def two_refresh_def sketch_Reset_ok)


lemma lru_obj_PutWithCompair:
  assumes c: "lru_obj E capacity c V" "v \<in> V" and total: "\<And>x y. compair x y \<noteq> None"
  shows "\<exists>c'. lru_PutWithCompair E v compair c = Some c' \<and> lru_obj E capacity c' V"
proof -
  obtain zs where zs: "lru_exact E c zs" "cached zs \<subseteq> V" "lru_capacity c = capacity" using c(1) by (auto simp: lru_obj_def)
  obtain c1 zs1 where c1: "lru_check E (ce_key E v) c = Some (spec_lookup (ce_key E) (ce_key E v) (map snd zs) \<noteq> None, c1)" "lru_exact E c1 zs1"
    "lru_map c1 = lru_map c" "lru_capacity c1 = lru_capacity c" "cached zs1 = cached zs"
    and none: "spec_lookup (ce_key E) (ce_key E v) (map snd zs) = None \<longleftrightarrow> ce_find E (lru_map c) (ce_key E v) = None"
    using lru_check_exact [OF zs(1)] by metis
  have keep: "lru_obj E capacity c1 V" using c1(2,4,5) zs(2,3) by (auto simp: lru_obj_def)
  obtain b where b: "compair (fst (snd (last zs1))) v = Some b" using total by blast
  consider (there) "ce_find E (lru_map c) (ce_key E v) \<noteq> None"
    | (worse) "ce_find E (lru_map c) (ce_key E v) = None" "length zs1 = unat (lru_capacity c1)" "compair (fst (snd (last zs1))) v = Some False"
    | (better) "ce_find E (lru_map c) (ce_key E v) = None" "length zs1 = unat (lru_capacity c1) \<Longrightarrow> compair (fst (snd (last zs1))) v = Some True"
    using b by (cases b) auto
  then show ?thesis
  proof cases
    case there
    then show ?thesis using c1(1) none keep by (auto simp: lru_PutWithCompair_def)
  next
    case worse
    then show ?thesis using c1(1) none keep lru_compare_insert_keep [of E c1 zs1 compair v, OF lru_exactD(1) [OF c1(2)] worse(2,3)] by (auto simp: lru_PutWithCompair_def)
  next
    case better
    have "ce_find E (lru_map c1) (ce_key E v) = None" using better(1) c1(3) by simp
    then obtain x c' zs' where "lru_insert E v c1 = Some (x, c')" "lru_exact E c' zs'" "lru_capacity c' = lru_capacity c1" "cached zs' \<subseteq> insert v (cached zs1)"
      using lru_insert_exact [OF c1(2)] by metis
    then show ?thesis
      using c1(1,4,5) none better(1) lru_compare_insert_insert [of E c1 zs1 compair v, OF lru_exactD(1) [OF c1(2)] better(2)] zs(2,3) c(2) by (auto simp: lru_PutWithCompair_def lru_obj_def)
  qed
qed

lemma counted_Nil: "counted s []" by (simp add: counted_def)

lemma sketch_Increment_total: "sketch_ok s \<Longrightarrow> \<exists>s'. sketch_Increment x s = Some s' \<and> sketch_ok s'"
  using sketch_Increment_ok [OF _ counted_Nil] by blast

lemma two_compair_total: "sketch_ok s \<Longrightarrow> two_compair E item s x y \<noteq> None"
  using estimate_row_ok [OF _ counted_Nil, of s 0 "item (ce_key E x)"] estimate_row_ok [OF _ counted_Nil, of s 1 "item (ce_key E x)"]
    estimate_row_ok [OF _ counted_Nil, of s 0 "item (ce_key E y)"] estimate_row_ok [OF _ counted_Nil, of s 1 "item (ce_key E y)"]
  by (auto simp: two_compair_def sketch_Estimate_def)

lemma two_obj_Put:
  assumes "two_obj E w m c V"
  shows "\<exists>c' x. two_Put E item v c = Some c' \<and> two_obj E w m c' (insert v V) \<and> two_Peek E (ce_key E v) c' = Some (Some x)"
proof -
  have c: "lru_obj E w (tl_window c) V" "lru_obj E m (tl_main c) V" "sketch_ok (tl_sketch c)" using assms by (simp_all add: two_obj_def)
  obtain s where s: "sketch_Increment (item (ce_key E v)) (tl_sketch c) = Some s" "sketch_ok s" using sketch_Increment_total [OF c(3)] by blast
  obtain x win where win: "lru_PutWithDisuse E v (tl_window c) = Some (x, win)" "lru_obj E w win (insert v V)"
    "ce_find E (lru_map win) (ce_key E v) \<noteq> None" "pred_option (\<lambda>w. w \<in> V) x" using lru_obj_Put [OF c(1)] by metis
  obtain y where y: "lru_Peek E (ce_key E v) win = Some (Some y)" using lru_obj_find [OF win(2,3)] by blast
  have main: "lru_obj E m (tl_main c) (insert v V)" using lru_obj_weaken [OF c(2)] by blast
  show ?thesis
  proof (cases x)
    case None
    then show ?thesis using s win y main by (auto simp: two_Put_def two_Peek_def two_obj_def)
  next
    case (Some u)
    then have "u \<in> insert v V" using win(4) by simp
    from lru_obj_PutWithCompair [OF main this, of "two_compair E item s", OF two_compair_total [OF s(2)]]
    obtain main' where "lru_PutWithCompair E u (two_compair E item s) (tl_main c) = Some main'" "lru_obj E m main' (insert v V)" by blast
    then show ?thesis using Some s win y by (auto simp: two_Put_def two_Peek_def two_obj_def)
  qed
qed

lemma two_obj_Get:
  assumes "two_obj E w m c V"
  shows "\<exists>x c'. two_Get E item k c = Some (x, c') \<and> two_obj E w m c' V \<and> two_Peek E k c = Some x \<and> pred_option (\<lambda>v. ce_key E v = k \<and> v \<in> V) x"
proof -
  have c: "lru_obj E w (tl_window c) V" "lru_obj E m (tl_main c) V" "sketch_ok (tl_sketch c)" using assms by (simp_all add: two_obj_def)
  obtain s where s: "sketch_Increment (item k) (tl_sketch c) = Some s" "sketch_ok s" using sketch_Increment_total [OF c(3)] by blast
  obtain x win where x: "lru_Get E k (tl_window c) = Some (x, win)" "lru_obj E w win V" "lru_Peek E k (tl_window c) = Some x"
    "pred_option (\<lambda>v. ce_key E v = k \<and> v \<in> V) x" using lru_obj_Get [OF c(1)] by blast
  obtain y main where y: "lru_Get E k (tl_main c) = Some (y, main)" "lru_obj E m main V" "lru_Peek E k (tl_main c) = Some y"
    "pred_option (\<lambda>v. ce_key E v = k \<and> v \<in> V) y" using lru_obj_Get [OF c(2)] by blast
  show ?thesis using s x y c by (cases x) (auto simp: two_Get_def two_Peek_def two_obj_def)
qed

interpretation two: object_cache "two_Put E item" "two_Get E item" "two_Peek E" "ce_key E" "two_obj E w m"
  for E :: "('k, 'v, 'm) cache_env" and item w m
proof
  fix c V k and v :: 'v
  assume "two_obj E w m c V" "two_Peek E k c = Some (Some v)"
  then show "ce_key E v = k \<and> v \<in> V" using two_obj_Get [of E w m c V item k] by auto
next
  fix c V and k :: 'k
  assume "two_obj E w m c V"
  then show "\<exists>x s'. two_Get E item k c = Some (x, s') \<and> two_obj E w m s' V \<and> two_Peek E k c = Some x"
    using two_obj_Get [of E w m c V item k] by metis
next
  fix c V and v :: 'v
  assume "two_obj E w m c V"
  then show "\<exists>s' x. two_Put E item v c = Some s' \<and> two_obj E w m s' (insert v V) \<and> two_Peek E (ce_key E v) s' = Some (Some x)"
    by (rule two_obj_Put)
qed (auto simp: two_obj_def intro: lru_obj_weaken)

interpretation blru: sharded_cache "lru_Put E" "lru_Get E" "lru_Peek E" "ce_key E" "lru_obj E capacity" hash
  for E :: "('k, 'v, 'm) cache_env" and capacity hash ..

interpretation b2lru: sharded_cache "two_Put E item" "two_Get E item" "two_Peek E" "ce_key E" "two_obj E w m" hash
  for E :: "('k, 'v, 'm) cache_env" and item w m hash ..

section \<open>Construction of the sharded caches\<close>

lemma shard_capacity_small:
  assumes "unat capacity < 2 ^ 35"
  shows "shard_capacity capacity \<noteq> 0" "unat (shard_capacity capacity) < 2 ^ 30"
proof -
  have "unat (drop_bit ShardBits capacity) = unat capacity div 64" by (simp add: ShardBits_def drop_bit_eq_div unat_div_distrib)
  then have u: "unat (drop_bit ShardBits capacity) < 2 ^ 29" using assms by simp
  have "unat (shard_capacity capacity) = Suc (unat (drop_bit ShardBits capacity))" unfolding shard_capacity_def using u by (subst unat_word_ariths) simp
  then show "unat (shard_capacity capacity) < 2 ^ 30" "shard_capacity capacity \<noteq> 0" using u by (auto simp: unat_eq_0)
qed

lemma blru_new_inv:
  assumes "cache_env_ok E" "unat capacity < 2 ^ 35"
  shows "shards_inv (lru_obj E (shard_capacity capacity)) (blru_new E capacity) {}"
  using lru_obj_Reserve [OF assms(1) _ shard_capacity_small(1) [OF assms(2)], of 24 8] by (simp add: shards_inv_def blru_new_def)

lemma default_shards_ok:
  assumes "cache_env_ok E"
  shows "\<exists>cs g'. default_shards E n g = Some (cs, g') \<and> length cs = n"
proof (induction n arbitrary: g)
  case (Suc n)
  obtain c g1 where "two_new E 1024 1 g = Some (c, g1)" by (rule two_obj_new [OF assms, of 1024 1 g]) simp_all
  then show ?case using Suc [of g1] by auto
qed simp

lemma assign_shards_ok:
  assumes "cache_env_ok E" "unat capacity < 2 ^ 35"
  shows "\<exists>cs' g'. assign_shards E capacity cs g = Some (cs', g') \<and> length cs' = length cs \<and>
    (\<forall>c \<in> set cs'. two_obj E (window_capacity_of (shard_capacity capacity) 1) (main_capacity_of (shard_capacity capacity) 1) c {} \<and> tl_stop c)"
proof (induction cs arbitrary: g)
  case (Cons c cs)
  obtain rhs g1 where rhs: "two_new E (shard_capacity capacity) 1 g = Some (rhs, g1)"
    "two_obj E (window_capacity_of (shard_capacity capacity) 1) (main_capacity_of (shard_capacity capacity) 1) rhs {}"
    by (rule two_obj_new [OF assms(1) shard_capacity_small [OF assms(2)], of 1 g]) simp_all
  have "tl_stop (two_move c rhs)" by (simp add: two_move_def two_start_def two_stop_def)
  then show ?case using rhs(1) two_obj_move [OF rhs(2), of c] Cons [of g1] by auto
qed simp

lemma b2lru_new_inv:
  assumes "cache_env_ok E" "unat capacity < 2 ^ 35"
  obtains cs g' where "b2lru_new E capacity g = Some (cs, g')" "\<And>c. c \<in> set cs \<Longrightarrow> tl_stop c"
    "shards_inv (two_obj E (window_capacity_of (shard_capacity capacity) 1) (main_capacity_of (shard_capacity capacity) 1)) cs {}"
proof -
  obtain cs0 g0 where c0: "default_shards E (2 ^ ShardBits) g = Some (cs0, g0)" "length cs0 = 2 ^ ShardBits" using default_shards_ok [OF assms(1)] by blast
  then show thesis using that assign_shards_ok [OF assms, of cs0 g0] by (fastforce simp: b2lru_new_def shards_inv_def)
qed

end
