(* ===== verification/Object_Theorems.thy ===== *)
theory Object_Theorems
  imports Object_Cache
begin

text \<open>
  The properties of the object caches: the plain cache implements the abstract list with delayed promotion, the critical
  sections of its puts may be interleaved, the sharded caches fulfil the contract of \<open>Object_Cache\<close>, and the sketch does not
  underestimate.
\<close>

section \<open>Steps\<close>

lemma lru_size_exact:
  assumes "lru_exact E c zs"
  shows "lru_size E c = length zs"
proof -
  note e = lru_exactD [OF assms] and i = lru_invD [OF lru_exactD(1) [OF assms]]
  have "dom (ce_find E (lru_map c)) = set (map (\<lambda>(a, v, p). ce_key E v) zs)"
    using e(2) i(4) by (force simp: dom_def image_iff)
  then show ?thesis using distinct_card [OF lru_exact_keys [OF assms]] i(1) by (simp add: lru_size_def cache_envD(5))
qed

lemma lru_size_inv:
  assumes "lru_inv E c zs"
  shows "lru_size E c \<le> length zs"
proof -
  note i = lru_invD [OF assms]
  have "dom (ce_find E (lru_map c)) \<subseteq> set (map (\<lambda>(a, v, p). ce_key E v) zs)" using i(4) by (force simp: dom_def image_iff)
  then have "card (dom (ce_find E (lru_map c))) \<le> card (set (map (\<lambda>(a, v, p). ce_key E v) zs))" by (intro card_mono) auto
  also have "\<dots> \<le> length zs" using card_length [of "map (\<lambda>(a, v, p). ce_key E v) zs"] by simp
  finally show ?thesis using i(1) by (simp add: lru_size_def cache_envD(5))
qed

text \<open>The requests on the abstract list.\<close>

definition spec_run :: "('v \<Rightarrow> 'k) \<Rightarrow> nat \<Rightarrow> 64 word \<Rightarrow> ('k, 'v) cache_request list \<Rightarrow> ('v \<times> 64 word) list \<Rightarrow> ('v option list \<times> ('v \<times> 64 word) list) option" where
  "spec_run key capacity n =
     cache_run (\<lambda>v xs. Some (spec_put key capacity n v xs)) (\<lambda>k xs. Some (spec_lookup key k xs, spec_touch key n k xs)) (\<lambda>k xs. Some (spec_lookup key k xs))"

lemma lru_run_exact:
  "lru_exact E c zs \<Longrightarrow> \<exists>xs c' zs'. cache_run (lru_Put E) (lru_Get E) (lru_Peek E) rs c = Some (xs, c') \<and> lru_exact E c' zs' \<and>
     spec_run (ce_key E) (unat (lru_capacity c)) (lru_should_promote_num c) rs (map snd zs) = Some (xs, map snd zs') \<and> lru_capacity c' = lru_capacity c"
proof (induction rs arbitrary: c zs rule: puts.induct [case_names Nil Put Get Peek])
  case Nil
  then show ?case by (auto simp: spec_run_def)
next
  case (Put v rs)
  obtain r c1 zs1 where c1: "lru_PutWithDisuse E v c = Some (r, c1)" "lru_Put E v c = Some c1" "lru_exact E c1 zs1"
    "map snd zs1 = spec_put (ce_key E) (unat (lru_capacity c)) (lru_should_promote_num c) v (map snd zs)"
    "lru_capacity c1 = lru_capacity c" "lru_should_promote_num c1 = lru_should_promote_num c"
    by (rule lru_PutWithDisuse_ok [OF Put(2)])
  then show ?case using Put(1) [OF c1(3)] by (auto simp: spec_run_def)
next
  case (Get k rs)
  obtain c1 zs1 where c1: "lru_exact E c1 zs1"
    "map snd zs1 = spec_touch (ce_key E) (lru_should_promote_num c) k (map snd zs)"
    "lru_capacity c1 = lru_capacity c" "lru_should_promote_num c1 = lru_should_promote_num c"
    "lru_Get E k c = Some (spec_lookup (ce_key E) k (map snd zs), c1)"
    by (rule lru_check_exact [OF Get(2), of k])
  then show ?case using Get(1) [OF c1(1)] by (auto simp: spec_run_def)
next
  case (Peek k rs)
  have "lru_Peek E k c = Some (spec_lookup (ce_key E) k (map snd zs))" by (rule lru_check_exact [OF Peek(2), of k])
  then show ?case using Peek(1) [OF Peek(2)] by (auto simp: spec_run_def)
qed

text \<open>The critical sections of the threads in any order: the two sections of a put are separate steps.\<close>

datatype ('k, 'v) cache_section = CheckSection 'k | InsertSection 'v | GetSection 'k

fun lru_section :: "('k, 'v, 'm) cache_env \<Rightarrow> ('k, 'v) cache_section \<Rightarrow> ('v, 'm) lru \<Rightarrow> ('v, 'm) lru option" where
  "lru_section E (CheckSection k) c = map_option snd (lru_check E k c)"
| "lru_section E (InsertSection v) c = map_option snd (lru_insert E v c)"
| "lru_section E (GetSection k) c = map_option snd (lru_Get E k c)"

fun lru_sections :: "('k, 'v, 'm) cache_env \<Rightarrow> ('k, 'v) cache_section list \<Rightarrow> ('v, 'm) lru \<Rightarrow> ('v, 'm) lru option" where
  "lru_sections E [] c = Some c"
| "lru_sections E (t # ts) c = do { c \<leftarrow> lru_section E t c; lru_sections E ts c }"

lemma lru_section_ok:
  assumes "lru_inv E c zs"
  shows "\<exists>c' zs'. lru_section E t c = Some c' \<and> lru_inv E c' zs' \<and> lru_capacity c' = lru_capacity c"
proof (cases t)
  case (CheckSection k)
  obtain c' zs' where "lru_check E k c = Some (ce_find E (lru_map c) k \<noteq> None, c')" "lru_inv E c' zs'" "lru_capacity c' = lru_capacity c"
    by (rule lru_check_ok [OF assms, of k])
  then show ?thesis using CheckSection by auto
next
  case (InsertSection v)
  obtain r c' a zs' where "lru_insert E v c = Some (r, c')" "lru_inv E c' ((a, v, 0) # zs')" "lru_capacity c' = lru_capacity c"
    by (rule lru_insert_ok [OF assms, of v])
  then show ?thesis using InsertSection by auto
next
  case (GetSection k)
  obtain r c' zs' where "lru_Get E k c = Some (r, c')" "lru_inv E c' zs'" "lru_capacity c' = lru_capacity c"
    by (rule lru_Get_ok [OF assms, of k])
  then show ?thesis using GetSection by auto
qed

lemma lru_sections_ok:
  "lru_inv E c zs \<Longrightarrow> \<exists>c' zs'. lru_sections E ts c = Some c' \<and> lru_inv E c' zs' \<and> lru_capacity c' = lru_capacity c"
proof (induction ts arbitrary: c zs)
  case (Cons t ts)
  obtain c1 zs1 where c1: "lru_section E t c = Some c1" "lru_inv E c1 zs1" "lru_capacity c1 = lru_capacity c" using lru_section_ok [OF Cons.prems] by blast
  then show ?case using Cons.IH [OF c1(2)] by auto
qed auto

lemma lru_peek_inv: "lru_inv E c zs \<Longrightarrow> \<exists>x. lru_Peek E k c = Some x \<and> pred_option (\<lambda>v. ce_key E v = k) x"
proof -
  assume "lru_inv E c zs"
  then obtain x where "lru_Peek E k c = Some x" "\<And>v. x = Some v \<Longrightarrow> ce_key E v = k \<and> v \<in> cached zs" by (rule lru_Get_ok [of E c zs k]) (rule that)
  then show ?thesis by (cases x) auto
qed

section \<open>An instance of the environment\<close>

definition map_env :: "(64 word, 64 word \<times> string, 64 word \<rightharpoonup> nat) cache_env" where
  "map_env =
     \<lparr>ce_key = fst, ce_empty = Map.empty, ce_find = (\<lambda>m. m), ce_emplace = (\<lambda>k a m. if m k = None then m(k \<mapsto> a) else m),
      ce_erase = (\<lambda>k m. m(k := None)), ce_reserve = (\<lambda>n m. m), ce_size = (\<lambda>m. card (dom m))\<rparr>"

lemma map_env_ok: "cache_env_ok map_env"
  by (simp add: cache_env_ok_def map_env_def)

section \<open>Properties\<close>

text \<open>
  C26: The LRU cache implements the abstract cache, a list of values with counters: for every sequence of puts, gets and
  peeks no operation touches a node that does not exist, the answers are those of the list (a key is promoted to the
  front after \<^verbatim>\<open>should_promote_num\<close> accesses, the last value is dropped when the cache is full), the list never exceeds the
  capacity, and both sizes that the class reports are its length.
\<close>

theorem lru_cache_refines:
  assumes "cache_env_ok E" "capacity \<noteq> 0"
  shows "\<exists>xs c' l. cache_run (lru_Put E) (lru_Get E) (lru_Peek E) rs (lru_new E capacity n) = Some (xs, c') \<and>
    spec_run (ce_key E) (unat capacity) n rs [] = Some (xs, l) \<and>
    length l \<le> unat capacity \<and> unat (lru_TrueSize c') = length l \<and> lru_size E c' = length l"
proof -
  have "lru_exact E (lru_new E capacity n) []" using lru_inv_new [OF assms] by (simp add: lru_exact_def)
  from lru_run_exact [OF this, of rs] obtain xs c' zs' where r:
    "cache_run (lru_Put E) (lru_Get E) (lru_Peek E) rs (lru_new E capacity n) = Some (xs, c')" "lru_exact E c' zs'"
    "spec_run (ce_key E) (unat capacity) n rs [] = Some (xs, map snd zs')" "lru_capacity c' = capacity"
    by (auto simp: lru_new_def)
  moreover have "length zs' \<le> unat capacity" using lru_invD(5) [OF lru_exactD(1) [OF r(2)]] r(4) by simp
  ultimately show ?thesis
    using lru_size_exact [OF r(2)] unat_size [OF lru_exactD(1) [OF r(2)]] by (intro exI [of _ xs] exI [of _ c'] exI [of _ "map snd zs'"]) (simp add: lru_TrueSize_def)
qed

theorem lru_cache_refines_witness:
  "\<exists>c'. cache_run (lru_Put map_env) (lru_Get map_env) (lru_Peek map_env)
      [CachePut (1, ''a''), CachePut (2, ''b''), CacheGet 1, CachePut (3, ''c''), CachePeek 1, CachePeek 2, CacheGet 3] (lru_new map_env 2 0) =
    Some ([None, None, Some (1, ''a''), None, Some (1, ''a''), None, Some (3, ''c'')], c') \<and> lru_TrueSize c' = 2"
proof -
  have "unat x = 2 \<Longrightarrow> x = 2" for x :: "64 word" by (simp add: word_unat_eq_iff)
  then show ?thesis
    using lru_cache_refines [of map_env 2 "[CachePut (1, ''a''), CachePut (2, ''b''), CacheGet 1, CachePut (3, ''c''), CachePeek 1, CachePeek 2, CacheGet 3]" 0]
      map_env_ok by (auto simp: map_env_def spec_run_def spec_put_def spec_lookup_def spec_touch_def)
qed

text \<open>
  C27: Interleaving is safe: the critical sections of any number of puts and gets, in any order, even when several threads
  put the same key at once, never touch a node that was freed, never exceed the capacity, and leave a hash table whose entries point to nodes of
  the list with that key.
\<close>

theorem lru_sections_safe:
  assumes "cache_env_ok E" "capacity \<noteq> 0"
  shows "\<exists>c. lru_sections E ts (lru_new E capacity n) = Some c \<and> lru_TrueSize c \<le> capacity \<and> lru_size E c \<le> unat (lru_TrueSize c) \<and>
    (\<forall>k. \<exists>x. lru_Peek E k c = Some x \<and> pred_option (\<lambda>v. ce_key E v = k) x)"
proof -
  obtain c zs where c: "lru_sections E ts (lru_new E capacity n) = Some c" "lru_inv E c zs" "lru_capacity c = capacity"
    using lru_sections_ok [OF lru_inv_new [OF assms], of ts n] by (auto simp: lru_new_def)
  moreover have "lru_TrueSize c \<le> capacity" using lru_invD(5) [OF c(2)] unat_size [OF c(2)] c(3) by (simp add: lru_TrueSize_def word_le_nat_alt)
  moreover have "lru_size E c \<le> unat (lru_TrueSize c)" using lru_size_inv [OF c(2)] unat_size [OF c(2)] by (simp add: lru_TrueSize_def)
  ultimately show ?thesis using lru_peek_inv [OF c(2)] by blast
qed

theorem lru_sections_safe_witness:
  "\<exists>c. lru_sections map_env [CheckSection 7, CheckSection 7, InsertSection (7, ''x''), InsertSection (7, ''y''), InsertSection (8, ''z''), GetSection 7]
      (lru_new map_env 2 8) = Some c \<and> lru_TrueSize c \<le> 2"
  using lru_sections_safe [OF map_env_ok, of 2 "[CheckSection 7, CheckSection 7, InsertSection (7, ''x''), InsertSection (7, ''y''), InsertSection (8, ''z''), GetSection 7]" 8]
  by auto

text \<open>
  C28: The sharded window cache fulfils the contract of a cache: for every capacity below 2^35, every hash function and every
  sequence of puts, gets and peeks it never fails, every answer is a value that was put earlier under that key, and
  a value that is put is found by the get that follows, unless one with the same key was there.
\<close>

theorem b2lru_cache:
  assumes "cache_env_ok E" "unat capacity < 2 ^ 35"
  shows "\<exists>cs g' xs cs1 cs2 w cs3. b2lru_new E capacity g = Some (cs, g') \<and>
    cache_run (b2lru_Put E item hash) (b2lru_Get E item hash) (b2lru_Peek E hash) rs cs = Some (xs, cs1) \<and>
    sound_answers (ce_key E) {} rs xs \<and>
    b2lru_Put E item hash v cs1 = Some cs2 \<and> b2lru_Get E item hash (ce_key E v) cs2 = Some (Some w, cs3) \<and>
    ce_key E w = ce_key E v \<and> w \<in> insert v (puts rs)"
proof -
  let ?I = "two_obj E (window_capacity_of (shard_capacity capacity) 1) (main_capacity_of (shard_capacity capacity) 1)"
  obtain cs g' where cs: "b2lru_new E capacity g = Some (cs, g')" "shards_inv ?I cs {}"
    by (rule b2lru_new_inv [OF assms, of g])
  obtain xs cs1 where cs1: "cache_run (b2lru_Put E item hash) (b2lru_Get E item hash) (b2lru_Peek E hash) rs cs = Some (xs, cs1)"
    "shards_inv ?I cs1 ({} \<union> puts rs)" "sound_answers (ce_key E) {} rs xs"
    using b2lru.sharded.run_ok [OF cs(2), of item hash rs] unfolding b2lru_Put_def b2lru_Get_def b2lru_Peek_def by blast
  show ?thesis using cs(1) cs1(1,3) b2lru.sharded.put_get [OF cs1(2), of item hash v] unfolding b2lru_Put_def b2lru_Get_def by auto
qed

theorem b2lru_cache_witness:
  "\<exists>cs g' xs cs1. b2lru_new map_env 1024 5 = Some (cs, g') \<and>
    cache_run (b2lru_Put map_env id id) (b2lru_Get map_env id id) (b2lru_Peek map_env id) [CachePut (1, ''a''), CacheGet 2, CacheGet 1] cs = Some (xs, cs1) \<and>
    sound_answers fst {} [CachePut (1, ''a''), CacheGet 2, CacheGet 1] xs"
  using b2lru_cache [OF map_env_ok, of 1024 5 id id "[CachePut (1, ''a''), CacheGet 2, CacheGet 1]" "(3, ''b'')"] by (auto simp: map_env_def)

text \<open>
  The sharded LRU cache fulfils the same contract, and after any sequence of requests each of its 64 shards holds at most its share
  of the capacity, rounded up.
\<close>

theorem blru_cache:
  assumes "cache_env_ok E" "unat capacity < 2 ^ 35"
  shows "\<exists>xs cs1 cs2 w cs3. cache_run (blru_Put E hash) (blru_Get E hash) (blru_Peek E hash) rs (blru_new E capacity) = Some (xs, cs1) \<and>
    sound_answers (ce_key E) {} rs xs \<and> length cs1 = 64 \<and> (\<forall>c \<in> set cs1. unat (lru_TrueSize c) \<le> unat capacity div 64 + 1) \<and>
    blru_Put E hash v cs1 = Some cs2 \<and> blru_Get E hash (ce_key E v) cs2 = Some (Some w, cs3) \<and>
    ce_key E w = ce_key E v \<and> w \<in> insert v (puts rs)"
proof -
  let ?I = "lru_obj E (shard_capacity capacity)"
  obtain xs cs1 where cs1: "cache_run (blru_Put E hash) (blru_Get E hash) (blru_Peek E hash) rs (blru_new E capacity) = Some (xs, cs1)"
    "shards_inv ?I cs1 ({} \<union> puts rs)" "sound_answers (ce_key E) {} rs xs"
    using blru.sharded.run_ok [OF blru_new_inv [OF assms], of hash rs] unfolding blru_Put_def blru_Get_def blru_Peek_def by blast
  have "unat (drop_bit ShardBits capacity) = unat capacity div 64" by (simp add: ShardBits_def drop_bit_eq_div unat_div_distrib)
  then have "unat (shard_capacity capacity) = unat capacity div 64 + 1" unfolding shard_capacity_def using assms(2) by (subst unat_word_ariths) simp
  then have "\<forall>c \<in> set cs1. unat (lru_TrueSize c) \<le> unat capacity div 64 + 1" "length cs1 = 64"
    using cs1(2) lru_obj_size [of E "shard_capacity capacity"] by (auto simp: shards_inv_def word_le_nat_alt ShardBits_def)
  then show ?thesis using cs1(1,3) blru.sharded.put_get [OF cs1(2), of hash v] unfolding blru_Put_def blru_Get_def by auto
qed

theorem blru_cache_witness:
  "\<exists>xs cs1. cache_run (blru_Put map_env id) (blru_Get map_env id) (blru_Peek map_env id) [CachePut (1, ''a''), CacheGet 1] (blru_new map_env 1024) = Some (xs, cs1) \<and>
    length cs1 = 64 \<and> (\<forall>c \<in> set cs1. unat (lru_TrueSize c) \<le> 17)"
  using blru_cache [OF map_env_ok, of 1024 id "[CachePut (1, ''a''), CacheGet 1]" "(3, ''b'')"] by auto

text \<open>
  C29: The sketch never underestimates: after any sequence of increments the estimate of an item is at least its number of
  increments, up to 15, and at most 15.
\<close>

theorem sketch_never_below:
  assumes "capacity_bit < 30"
  shows "\<exists>s g' s' n. sketch_new (Suc capacity_bit) g = Some (s, g') \<and> increments xs s = Some s' \<and> sketch_Estimate item s' = Some n \<and>
    min 15 (count_list xs item) \<le> n \<and> n \<le> 15"
proof -
  obtain s g' where s: "sketch_new (Suc capacity_bit) g = Some (s, g')" by (rule sketch_new_ok [OF assms, of g])
  then show ?thesis using sketch_estimates [OF s, of xs item] by blast
qed

theorem sketch_never_below_witness:
  "\<exists>s g' s' n. sketch_new (Suc 9) 1 = Some (s, g') \<and> increments [10, 11, 10] s = Some s' \<and> sketch_Estimate 10 s' = Some n \<and> 2 \<le> n \<and> n \<le> 15"
  using sketch_never_below [of 9 1 "[10, 11, 10]" 10] by (simp add: numeral_2_eq_2)

section \<open>Defects\<close>

text \<open>
  The put of an rvalue makes its entry in the hash table after it released the mutex: when another put evicts the node in
  between, it reads a node that was freed.
\<close>

theorem move_put_use_after_free:
  "do { (a, c) \<leftarrow> lru_move_insert map_env (1, ''a'') (lru_new map_env 1 8);
        c \<leftarrow> lru_Put map_env (2, ''b'') c;
        lru_move_emplace map_env a c } = None"
  by (simp add: map_env_def lru_move_insert_def lru_make_room_def lru_push_def lru_new_def dl_new_def dl_PushFront_def link_front_def set_nxt_def set_pre_def
      new_node_def lru_Put_def lru_check_def lru_insert_def lru_drop_back_def dl_PopBack_def pop_node_def dl_Extract_def unlink_def lru_emplace_def lru_move_emplace_def)

text \<open>The shards of the window cache are move-assigned, after which the thread that ages the sketch ends at once.\<close>

theorem moved_cache_is_not_aged:
  "tl_sketch (two_refresh (two_move c rhs)) = tl_sketch rhs \<and> \<not> tl_refreshing (two_refresh (two_move c rhs))"
  by (simp add: two_refresh_def two_move_def two_start_def two_stop_def)

end
