(* ===== verification/BatchCommit.thy ===== *)
theory BatchCommit
  imports MemTable "HOL-Library.Monad_Syntax"
begin

text \<open>
  The batches of \<^verbatim>\<open>src/mokv/lsm/batch_commit.hpp\<close>: a batch collects puts and deletes and applies them to a memtable when it
  is committed.  A batch is shared between the manager and a transaction, so batches live in a heap.  The allocation of a
  node may throw: \<open>throws i\<close> says that the \<open>i\<close>-th entry of a batch, when it is a put, finds no memory.  A \<open>None\<close> result is an
  undefined access.
\<close>

section \<open>A batch\<close>

datatype batch_type = kPut | kDelete

record BatchEntry =
  be_type :: batch_type
  be_key :: string
  be_value :: string

definition MakePut :: "string \<Rightarrow> string \<Rightarrow> BatchEntry" where
  "MakePut key value = \<lparr>be_type = kPut, be_key = key, be_value = value\<rparr>"

definition MakeDelete :: "string \<Rightarrow> BatchEntry" where
  "MakeDelete key = \<lparr>be_type = kDelete, be_key = key, be_value = ''''\<rparr>"

datatype BatchStatus = kIdle | kActive | kCommitting | kRolledBack

record BatchCommit =
  bt_status :: BatchStatus
  bt_entries :: "BatchEntry list"
  bt_size :: "64 word"

definition batch_new :: BatchCommit where
  "batch_new = \<lparr>bt_status = kIdle, bt_entries = [], bt_size = 0\<rparr>"

definition batch_Begin :: "BatchCommit \<Rightarrow> BatchCommit" where
  "batch_Begin b = b\<lparr>bt_status := kActive, bt_entries := [], bt_size := 0\<rparr>"

definition BatchPut :: "string \<Rightarrow> string \<Rightarrow> BatchCommit \<Rightarrow> BatchCommit" where
  "BatchPut key value b =
     (if bt_status b \<noteq> kActive then b
      else b\<lparr>bt_entries := bt_entries b @ [MakePut key value], bt_size := bt_size b + of_nat (length key + length value)\<rparr>)"

definition BatchDelete :: "string \<Rightarrow> BatchCommit \<Rightarrow> BatchCommit" where
  "BatchDelete key b =
     (if bt_status b \<noteq> kActive then b
      else b\<lparr>bt_entries := bt_entries b @ [MakeDelete key], bt_size := bt_size b + of_nat (length key)\<rparr>)"

text \<open>The loop of \<^verbatim>\<open>Commit\<close>; the boolean is false when an exception ended it.  The state is the memtable with the random counter.\<close>

fun apply_entries :: "(nat \<Rightarrow> bool) \<Rightarrow> nat \<Rightarrow> BatchEntry list \<Rightarrow> memtable \<times> 64 word \<Rightarrow> (bool \<times> memtable \<times> 64 word) option" where
  "apply_entries throws i [] s = Some (True, s)"
| "apply_entries throws i (e # es) (m, g) =
     (case be_type e of
        kPut \<Rightarrow>
          if throws i then Some (False, m, g)
          else do { s \<leftarrow> mt_Put g m (be_key e) (be_value e); apply_entries throws (Suc i) es s }
      | kDelete \<Rightarrow> do { m \<leftarrow> mt_Delete m (be_key e); apply_entries throws (Suc i) es (m, g) })"

definition batch_Commit ::
    "(nat \<Rightarrow> bool) \<Rightarrow> memtable \<times> 64 word \<Rightarrow> BatchCommit \<Rightarrow> (bool \<times> BatchCommit \<times> memtable \<times> 64 word) option" where
  "batch_Commit throws s b =
     (if bt_status b \<noteq> kActive then Some (False, b, s)
      else do { let b = b\<lparr>bt_status := kCommitting\<rparr>;
                (ok, s) \<leftarrow> apply_entries throws 0 (bt_entries b) s;
                Some (ok, b\<lparr>bt_status := (if ok then kIdle else kRolledBack)\<rparr>, s) })"

definition batch_Rollback :: "BatchCommit \<Rightarrow> BatchCommit" where
  "batch_Rollback b = (if bt_status b = kActive then b\<lparr>bt_status := kRolledBack, bt_entries := [], bt_size := 0\<rparr> else b)"

definition batch_size :: "BatchCommit \<Rightarrow> nat" where "batch_size b = length (bt_entries b)"
definition batch_data_size :: "BatchCommit \<Rightarrow> 64 word" where "batch_data_size b = bt_size b"
definition batch_empty :: "BatchCommit \<Rightarrow> bool" where "batch_empty b = (bt_entries b = [])"

section \<open>The manager\<close>

record BatchConfig =
  bg_max_batch_size :: "64 word"
  bg_max_batch_entries :: "64 word"
  bg_commit_timeout_ms :: "32 word"
  bg_enable_wal :: bool

definition default_batch_config :: BatchConfig where
  "default_batch_config = \<lparr>bg_max_batch_size = 1024 * 1024, bg_max_batch_entries = 10000, bg_commit_timeout_ms = 1000, bg_enable_wal = True\<rparr>"

record BatchManager =
  bm_config :: BatchConfig
  bm_next_batch_id :: "64 word"
  bm_batches :: "64 word \<rightharpoonup> nat"
  bm_heap :: "nat \<rightharpoonup> BatchCommit"
  bm_fresh :: nat

definition manager_new :: "BatchConfig \<Rightarrow> BatchManager" where
  "manager_new config = \<lparr>bm_config = config, bm_next_batch_id = 1, bm_batches = Map.empty, bm_heap = Map.empty, bm_fresh = 0\<rparr>"

definition CreateBatch :: "BatchManager \<Rightarrow> 64 word \<times> BatchManager" where
  "CreateBatch m =
     (bm_next_batch_id m,
      m\<lparr>bm_next_batch_id := bm_next_batch_id m + 1, bm_batches := (bm_batches m)(bm_next_batch_id m \<mapsto> bm_fresh m),
        bm_heap := (bm_heap m)(bm_fresh m \<mapsto> batch_new), bm_fresh := Suc (bm_fresh m)\<rparr>)"

definition GetBatch :: "64 word \<Rightarrow> BatchManager \<Rightarrow> nat option" where
  "GetBatch batch_id m = bm_batches m batch_id"

definition set_batch :: "nat \<Rightarrow> BatchCommit \<Rightarrow> BatchManager \<Rightarrow> BatchManager" where
  "set_batch a b m = m\<lparr>bm_heap := (bm_heap m)(a \<mapsto> b)\<rparr>"

definition CommitBatch ::
    "(nat \<Rightarrow> bool) \<Rightarrow> 64 word \<Rightarrow> memtable \<times> 64 word \<Rightarrow> BatchManager \<Rightarrow> (bool \<times> BatchManager \<times> memtable \<times> 64 word) option" where
  "CommitBatch throws batch_id s m =
     (case GetBatch batch_id m of
        None \<Rightarrow> Some (False, m, s)
      | Some a \<Rightarrow>
          do { b \<leftarrow> bm_heap m a;
               (success, b, s) \<leftarrow> batch_Commit throws s b;
               let m = set_batch a b m;
               Some (success, if success \<or> bt_status b = kRolledBack then m\<lparr>bm_batches := (bm_batches m)(batch_id := None)\<rparr> else m, s) })"

definition ActiveBatches :: "BatchManager \<Rightarrow> nat" where
  "ActiveBatches m = card (dom (bm_batches m))"

section \<open>Transactions\<close>

record BatchTransaction =
  tx_batch_id :: "64 word"
  tx_batch :: "nat option"
  tx_committed :: bool

definition tx_new :: "BatchManager \<Rightarrow> (BatchTransaction \<times> BatchManager) option" where
  "tx_new m =
     do { let (batch_id, m) = CreateBatch m;
          a \<leftarrow> GetBatch batch_id m;
          b \<leftarrow> bm_heap m a;
          Some (\<lparr>tx_batch_id = batch_id, tx_batch = Some a, tx_committed = False\<rparr>, set_batch a (batch_Begin b) m) }"

definition tx_Put :: "string \<Rightarrow> string \<Rightarrow> BatchTransaction \<Rightarrow> BatchManager \<Rightarrow> BatchManager option" where
  "tx_Put key value t m =
     (case tx_batch t of
        None \<Rightarrow> Some m
      | Some a \<Rightarrow> do { b \<leftarrow> bm_heap m a; Some (set_batch a (BatchPut key value b) m) })"

definition tx_Delete :: "string \<Rightarrow> BatchTransaction \<Rightarrow> BatchManager \<Rightarrow> BatchManager option" where
  "tx_Delete key t m =
     (case tx_batch t of
        None \<Rightarrow> Some m
      | Some a \<Rightarrow> do { b \<leftarrow> bm_heap m a; Some (set_batch a (BatchDelete key b) m) })"

definition tx_Commit ::
    "(nat \<Rightarrow> bool) \<Rightarrow> memtable \<times> 64 word \<Rightarrow> BatchTransaction \<Rightarrow> BatchManager \<Rightarrow>
     (bool \<times> BatchTransaction \<times> BatchManager \<times> memtable \<times> 64 word) option" where
  "tx_Commit throws s t m =
     (if tx_committed t then Some (False, t, m, s)
      else (case tx_batch t of
              None \<Rightarrow> Some (False, t, m, s)
            | Some a \<Rightarrow>
                do { b \<leftarrow> bm_heap m a;
                     (success, b, s) \<leftarrow> batch_Commit throws s b;
                     Some (success, t\<lparr>tx_committed := success\<rparr>, set_batch a b m, s) }))"

definition tx_Rollback :: "BatchTransaction \<Rightarrow> BatchManager \<Rightarrow> BatchManager option" where
  "tx_Rollback t m =
     (case tx_batch t of
        None \<Rightarrow> Some m
      | Some a \<Rightarrow> if tx_committed t then Some m else do { b \<leftarrow> bm_heap m a; Some (set_batch a (batch_Rollback b) m) })"

text \<open>The destructor.\<close>

definition tx_destroy :: "BatchTransaction \<Rightarrow> BatchManager \<Rightarrow> BatchManager option" where
  "tx_destroy t m = (if tx_committed t then Some m else tx_Rollback t m)"

section \<open>The write optimizer\<close>

record WriteOptimizer =
  wo_buffer_size :: "64 word"
  wo_threshold :: "64 word"
  wo_buffer_key :: string
  wo_buffer_value :: string

definition optimizer_new :: "64 word \<Rightarrow> WriteOptimizer" where
  "optimizer_new threshold = \<lparr>wo_buffer_size = 0, wo_threshold = threshold, wo_buffer_key = '''', wo_buffer_value = ''''\<rparr>"

definition optimizer_Flush :: "memtable \<times> 64 word \<Rightarrow> WriteOptimizer \<Rightarrow> (bool \<times> WriteOptimizer \<times> memtable \<times> 64 word) option" where
  "optimizer_Flush s w =
     (if wo_buffer_size w = 0 then Some (False, w, s)
      else do { s \<leftarrow> mt_Put (snd s) (fst s) (wo_buffer_key w) (wo_buffer_value w);
                Some (True, w\<lparr>wo_buffer_key := '''', wo_buffer_value := '''', wo_buffer_size := 0\<rparr>, s) })"

definition AccumulateWrite ::
    "string \<Rightarrow> string \<Rightarrow> memtable \<times> 64 word \<Rightarrow> WriteOptimizer \<Rightarrow> (bool \<times> WriteOptimizer \<times> memtable \<times> 64 word) option" where
  "AccumulateWrite key value s w =
     (let w = w\<lparr>wo_buffer_size := wo_buffer_size w + of_nat (length key + length value)\<rparr> in
      if wo_threshold w \<le> wo_buffer_size w then optimizer_Flush s w else Some (False, w, s))"

section \<open>A batch and its operations\<close>

definition entry_op :: "BatchEntry \<Rightarrow> table_op" where
  "entry_op e = (case be_type e of kPut \<Rightarrow> TPut (be_key e) (be_value e) | kDelete \<Rightarrow> TDelete (be_key e))"

fun op_size :: "table_op \<Rightarrow> nat" where
  "op_size (TPut k v) = length k + length v"
| "op_size (TDelete k) = length k"

text \<open>The size of a batch is that of its entries; only an active batch has been filled.\<close>

definition batch_holds :: "BatchCommit \<Rightarrow> table_op list \<Rightarrow> bool" where
  "batch_holds b ops = (map entry_op (bt_entries b) = ops \<and> bt_size b = of_nat (sum_list (map op_size ops)))"

fun batch_op :: "table_op \<Rightarrow> BatchCommit \<Rightarrow> BatchCommit" where
  "batch_op (TPut k v) = BatchPut k v"
| "batch_op (TDelete k) = BatchDelete k"

lemma batch_Begin_holds: "batch_holds (batch_Begin b) [] \<and> bt_status (batch_Begin b) = kActive"
  by (simp add: batch_holds_def batch_Begin_def)

lemma batch_op_holds:
  "batch_holds b ops \<Longrightarrow> bt_status b = kActive \<Longrightarrow> batch_holds (batch_op op b) (ops @ [op]) \<and> bt_status (batch_op op b) = kActive"
  by (cases op) (auto simp: batch_holds_def entry_op_def BatchPut_def BatchDelete_def MakePut_def MakeDelete_def)

lemma batch_op_idle: "bt_status b \<noteq> kActive \<Longrightarrow> batch_op op b = b"
  by (cases op) (simp_all add: BatchPut_def BatchDelete_def)

lemma batch_ops_holds:
  "batch_holds b ops \<Longrightarrow> bt_status b = kActive \<Longrightarrow> batch_holds (fold batch_op ops' b) (ops @ ops') \<and> bt_status (fold batch_op ops' b) = kActive"
proof (induction ops' arbitrary: b ops)
  case (Cons op ops')
  then show ?case using Cons.IH [of "batch_op op b" "ops @ [op]"] batch_op_holds [of b ops op] by simp
qed simp

text \<open>Every entry is applied, or those before the first one that throws.\<close>

lemma apply_entries_ok:
  assumes "mt_holds m es"
  shows "\<exists>ok m' g'. apply_entries throws i bs (m, g) = Some (ok, m', g') \<and>
    (\<exists>n \<le> length bs. mt_holds m' (fold table_spec (take n (map entry_op bs)) es) \<and>
       (if ok then n = length bs else n < length bs \<and> throws (i + n) \<and> be_type (bs ! n) = kPut))"
  using assms
proof (induction bs arbitrary: i m es g)
  case (Cons b bs)
  show ?case
  proof (cases "be_type b = kPut \<and> throws i")
    case True
    then show ?thesis using Cons.prems by (auto intro!: exI [of _ 0])
  next
    case False
    obtain m1 g1 where step: "apply_entries throws i (b # bs) (m, g) = apply_entries throws (Suc i) bs (m1, g1)"
      and m1: "mt_holds m1 (table_spec (entry_op b) es)"
      using False mt_Put_holds [OF Cons.prems, of g "be_key b" "be_value b"] mt_Delete_holds [OF Cons.prems, of "be_key b"]
      by (cases "be_type b") (auto simp: entry_op_def)
    obtain ok m' g' n where r: "apply_entries throws (Suc i) bs (m1, g1) = Some (ok, m', g')" "n \<le> length bs"
      "mt_holds m' (fold table_spec (take n (map entry_op bs)) (table_spec (entry_op b) es))"
      "if ok then n = length bs else n < length bs \<and> throws (Suc i + n) \<and> be_type (bs ! n) = kPut"
      using Cons.IH [OF m1, of "Suc i" g1] by blast
    show ?thesis unfolding step using r by (intro exI [of _ ok] exI [of _ m'] exI [of _ g'] conjI exI [of _ "Suc n"]) (auto split: if_splits)
  qed
qed auto

lemma batch_Commit_ok:
  assumes "mt_holds m es" "batch_holds b ops" "bt_status b = kActive"
  shows "\<exists>ok m' g'. batch_Commit throws (m, g) b = Some (ok, b\<lparr>bt_status := (if ok then kIdle else kRolledBack)\<rparr>, m', g') \<and>
    (\<exists>n \<le> length ops. mt_holds m' (fold table_spec (take n ops) es) \<and> (if ok then n = length ops else \<exists>i. throws i))"
proof -
  have ops: "ops = map entry_op (bt_entries b)" using assms(2) by (simp add: batch_holds_def)
  obtain ok m' g' n where r: "apply_entries throws 0 (bt_entries b) (m, g) = Some (ok, m', g')" "n \<le> length ops"
    "mt_holds m' (fold table_spec (take n ops) es)" "if ok then n = length ops else n < length ops \<and> throws (0 + n) \<and> be_type (bt_entries b ! n) = kPut"
    using apply_entries_ok [OF assms(1), of throws 0 "bt_entries b" g] unfolding ops length_map by blast
  have "batch_Commit throws (m, g) b = Some (ok, b\<lparr>bt_status := (if ok then kIdle else kRolledBack)\<rparr>, m', g')"
    using r(1) assms(3) by (simp add: batch_Commit_def Let_def)
  then show ?thesis using r(2-4) by (intro exI [of _ ok] exI [of _ m'] exI [of _ g'] conjI exI [of _ n]) (auto split: if_splits)
qed

end
