(* ===== verification/ReadQuorum.thy ===== *)
theory ReadQuorum
  imports Prelude "HOL-Library.Monad_Syntax"
begin

text \<open>
  The versions and quorum reads of \<^verbatim>\<open>src/mokv/lsm/read_quorum.hpp\<close>.  The function that reads a replica is an argument of the
  source's templates: here it is the sequence of attempts, each with the answers of the replicas and the time it takes,
  so that replicas may change between two attempts.  The clock of the version manager is an argument.  \<open>LinearizableRead\<close>
  repeats the read until it is consistent; its value \<open>None\<close> means that it never returns.
  \<^verbatim>\<open>CreateSnapshot\<close> applies \<^verbatim>\<open>operator[]\<close> to a \<^verbatim>\<open>std::unordered_set\<close>, which does not compile, so the set of
  snapshots is given.
\<close>

section \<open>Versions\<close>

record Version =
  version_id :: "64 word"
  version_timestamp :: "64 word"
  version_value :: string

record ReadQuorumConfig =
  rq_replica_count :: nat
  rq_read_quorum :: nat
  rq_write_quorum :: nat
  rq_max_versions :: nat
  rq_enable_version_chain :: bool
  rq_version_expiry_ms :: "64 word"

definition default_quorum_config :: ReadQuorumConfig where
  "default_quorum_config =
     \<lparr>rq_replica_count = 3, rq_read_quorum = 2, rq_write_quorum = 2, rq_max_versions = 10, rq_enable_version_chain = True, rq_version_expiry_ms = 60000\<rparr>"

record VersionManager =
  vm_config :: ReadQuorumConfig
  vm_next_version_id :: "64 word"
  vm_versions :: "string \<rightharpoonup> Version list"
  vm_max_timestamp :: "string \<rightharpoonup> 64 word"

definition vm_new :: "ReadQuorumConfig \<Rightarrow> VersionManager" where
  "vm_new config = \<lparr>vm_config = config, vm_next_version_id = 1, vm_versions = Map.empty, vm_max_timestamp = Map.empty\<rparr>"

text \<open>The loop that drops the oldest versions.\<close>

fun drop_old :: "nat \<Rightarrow> Version list \<Rightarrow> Version list" where
  "drop_old n [] = []"
| "drop_old n (v # vs) = (if n < length (v # vs) then drop_old n vs else v # vs)"

text \<open>The version number is taken before the mutex: \<open>take_version_id\<close> and \<open>store_version\<close> are separate steps of \<^verbatim>\<open>AddVersion\<close>.\<close>

definition take_version_id :: "VersionManager \<Rightarrow> 64 word \<times> VersionManager" where
  "take_version_id m = (vm_next_version_id m, m\<lparr>vm_next_version_id := vm_next_version_id m + 1\<rparr>)"

definition store_version :: "string \<Rightarrow> string \<Rightarrow> 64 word \<Rightarrow> 64 word \<Rightarrow> VersionManager \<Rightarrow> VersionManager" where
  "store_version key value vid timestamp m =
     (let old = (case vm_versions m key of None \<Rightarrow> [] | Some vs \<Rightarrow> vs);
          vs = old @ [\<lparr>version_id = vid, version_timestamp = timestamp, version_value = value\<rparr>] in
      m\<lparr>vm_versions := (vm_versions m)(key \<mapsto> drop_old (rq_max_versions (vm_config m)) vs),
        vm_max_timestamp := (vm_max_timestamp m)(key \<mapsto> timestamp)\<rparr>)"

definition AddVersion :: "64 word \<Rightarrow> string \<Rightarrow> string \<Rightarrow> VersionManager \<Rightarrow> 64 word \<times> VersionManager" where
  "AddVersion now key value m = (let (vid, m) = take_version_id m in (vid, store_version key value vid now m))"

definition GetVersions :: "string \<Rightarrow> VersionManager \<Rightarrow> Version list" where
  "GetVersions key m = (case vm_versions m key of None \<Rightarrow> [] | Some vs \<Rightarrow> vs)"

definition GetLatestVersion :: "string \<Rightarrow> VersionManager \<Rightarrow> Version option" where
  "GetLatestVersion key m = (let vs = GetVersions key m in if vs = [] then None else Some (last vs))"

definition GetVersion :: "string \<Rightarrow> 64 word \<Rightarrow> VersionManager \<Rightarrow> Version option" where
  "GetVersion key vid m = List.find (\<lambda>v. version_id v = vid) (GetVersions key m)"

definition DeleteKey :: "string \<Rightarrow> VersionManager \<Rightarrow> VersionManager" where
  "DeleteKey key m = m\<lparr>vm_versions := (vm_versions m)(key := None), vm_max_timestamp := (vm_max_timestamp m)(key := None)\<rparr>"

definition vm_Size :: "VersionManager \<Rightarrow> nat" where
  "vm_Size m = card (dom (vm_versions m))"

section \<open>Quorum reads\<close>

text \<open>The version number of a result is indeterminate when no replica answered; its time stamp is never set and left out.\<close>

record ReadResult =
  rr_value :: string
  rr_version_id :: "64 word option"
  rr_replicas_read :: nat
  rr_is_strong_consistent :: bool

record attempt =
  at_answer :: "nat \<Rightarrow> (string \<times> 64 word) option"
  at_latency_ns :: "64 word"

record ReadQuorum =
  rd_config :: ReadQuorumConfig
  rd_read_count :: "64 word"
  rd_read_latency_ns :: "64 word"

definition quorum_new :: ReadQuorum where
  "quorum_new = \<lparr>rd_config = default_quorum_config, rd_read_count = 0, rd_read_latency_ns = 0\<rparr>"

definition SetConfig :: "ReadQuorumConfig \<Rightarrow> ReadQuorum \<Rightarrow> ReadQuorum" where
  "SetConfig config q = q\<lparr>rd_config := config\<rparr>"

definition quorum_ResetStats :: "ReadQuorum \<Rightarrow> ReadQuorum" where
  "quorum_ResetStats q = q\<lparr>rd_read_count := 0, rd_read_latency_ns := 0\<rparr>"

definition AvgLatencyNs :: "ReadQuorum \<Rightarrow> 64 word" where
  "AvgLatencyNs q = (if 0 < rd_read_count q then rd_read_latency_ns q div rd_read_count q else 0)"

definition read_values :: "nat \<Rightarrow> attempt \<Rightarrow> (string \<times> 64 word) list" where
  "read_values n a = List.map_filter (at_answer a) [0..<n]"

text \<open>The loop that finds the largest version number: the number, how often it occurs, and its first value.\<close>

fun newest :: "(string \<times> 64 word) list \<Rightarrow> 64 word \<times> nat \<times> string \<Rightarrow> 64 word \<times> nat \<times> string" where
  "newest [] s = s"
| "newest ((value, vid) # vs) (max_version, count, result) =
     newest vs (if max_version < vid then (vid, 1, value)
                else if vid = max_version then (max_version, count + 1, result)
                else (max_version, count, result))"

definition quorum_Read :: "attempt \<Rightarrow> ReadQuorum \<Rightarrow> ReadResult \<times> ReadQuorum" where
  "quorum_Read a q =
     (let vs = read_values (rq_replica_count (rd_config q)) a in
      if vs = [] then (\<lparr>rr_value = '''', rr_version_id = None, rr_replicas_read = 0, rr_is_strong_consistent = True\<rparr>, q)
      else (let (max_version, count, value) = newest vs (0, 0, '''') in
            (\<lparr>rr_value = value, rr_version_id = Some max_version, rr_replicas_read = length vs,
              rr_is_strong_consistent = (rq_read_quorum (rd_config q) \<le> count)\<rparr>,
             q\<lparr>rd_read_count := rd_read_count q + 1, rd_read_latency_ns := rd_read_latency_ns q + at_latency_ns a\<rparr>)))"

text \<open>The result carries the number of the attempt that follows.\<close>

partial_function (option) LinearizableRead :: "(nat \<Rightarrow> attempt) \<Rightarrow> nat \<Rightarrow> ReadQuorum \<Rightarrow> (ReadResult option \<times> nat \<times> ReadQuorum) option" where
  "LinearizableRead attempts t q =
     (let (r, q) = quorum_Read (attempts t) q in
      if rr_replicas_read r < rq_read_quorum (rd_config q) then Some (None, Suc t, q)
      else if \<not> rr_is_strong_consistent r then LinearizableRead attempts (Suc t) q
      else Some (Some r, Suc t, q))"

definition OptimizedRead :: "(nat \<Rightarrow> attempt) \<Rightarrow> string \<Rightarrow> VersionManager \<Rightarrow> ReadQuorum \<Rightarrow> (ReadResult option \<times> nat \<times> ReadQuorum) option" where
  "OptimizedRead attempts key versions q =
     (case GetLatestVersion key versions of
        None \<Rightarrow> LinearizableRead attempts 0 q
      | Some latest \<Rightarrow>
          do { (r, t, q) \<leftarrow> LinearizableRead attempts 0 q;
               (case r of
                  Some x \<Rightarrow> if rr_version_id x = Some (version_id latest) then Some (r, t, q) else LinearizableRead attempts t q
                | None \<Rightarrow> LinearizableRead attempts t q) })"

section \<open>Snapshots\<close>

definition ReadFromSnapshot :: "64 word set \<Rightarrow> string \<Rightarrow> 64 word \<Rightarrow> VersionManager \<Rightarrow> string option" where
  "ReadFromSnapshot snapshots key snapshot_id m =
     (if snapshot_id \<notin> snapshots then None
      else map_option version_value (List.find (\<lambda>v. version_timestamp v \<le> snapshot_id) (rev (GetVersions key m))))"

definition DeleteSnapshot :: "64 word \<Rightarrow> 64 word set \<Rightarrow> 64 word set" where
  "DeleteSnapshot snapshot_id snapshots = snapshots - {snapshot_id}"

section \<open>The history of versions\<close>

lemma drop_old_eq: "drop_old n vs = drop (length vs - n) vs"
proof (induction vs)
  case (Cons v vs)
  then show ?case by (cases "n < length (v # vs)") (simp_all add: Suc_diff_le)
qed simp

text \<open>A sequence of additions, each with its time; the \<open>i\<close>-th gets the version number \<open>i\<close>.\<close>

fun add_all :: "(string \<times> string \<times> 64 word) list \<Rightarrow> VersionManager \<Rightarrow> VersionManager" where
  "add_all [] m = m"
| "add_all ((key, value, now) # hs) m = add_all hs (snd (AddVersion now key value m))"

definition added :: "string \<Rightarrow> (string \<times> string \<times> 64 word) list \<Rightarrow> Version list" where
  "added key hs = map (\<lambda>(i, k, v, t). \<lparr>version_id = of_nat i, version_timestamp = t, version_value = v\<rparr>) (filter (\<lambda>(i, k, v, t). k = key) (enumerate 1 hs))"

definition last_n :: "nat \<Rightarrow> 'a list \<Rightarrow> 'a list" where
  "last_n n xs = drop (length xs - n) xs"

lemma last_n_snoc: "last_n n (last_n n xs @ [x]) = last_n n (xs @ [x])"
proof (cases "n \<le> length xs")
  case True
  then show ?thesis by (cases n) (simp_all add: last_n_def Suc_diff_le Suc_diff_Suc)
next
  case False
  then show ?thesis by (simp add: last_n_def)
qed

lemma added_snoc:
  "added key (hs @ [(k, v, t)]) =
     added key hs @ (if k = key then [\<lparr>version_id = of_nat (Suc (length hs)), version_timestamp = t, version_value = v\<rparr>] else [])"
  by (simp add: added_def enumerate_append_eq)

lemma add_all_snoc: "add_all (hs @ [(k, v, t)]) m = snd (AddVersion t k v (add_all hs m))"
  by (induction hs m rule: add_all.induct) auto

lemma add_all_versions:
  "GetVersions key (add_all hs (vm_new config)) = last_n (rq_max_versions config) (added key hs) \<and>
   vm_next_version_id (add_all hs (vm_new config)) = of_nat (Suc (length hs)) \<and> vm_config (add_all hs (vm_new config)) = config"
proof (induction hs rule: rev_induct)
  case Nil
  show ?case by (simp add: vm_new_def GetVersions_def added_def last_n_def)
next
  case (snoc h hs)
  obtain k v t where h: "h = (k, v, t)" by (metis prod_cases3)
  let ?m = "add_all hs (vm_new config)"
  have same: "GetVersions k (snd (AddVersion t k v ?m)) = last_n (rq_max_versions config) (GetVersions k ?m @ [\<lparr>version_id = vm_next_version_id ?m, version_timestamp = t, version_value = v\<rparr>])"
    using snoc by (simp add: AddVersion_def take_version_id_def store_version_def GetVersions_def drop_old_eq last_n_def Let_def)
  have other: "GetVersions key (snd (AddVersion t k v ?m)) = GetVersions key ?m" if "key \<noteq> k"
    using that by (simp add: AddVersion_def take_version_id_def store_version_def GetVersions_def Let_def)
  have rest: "vm_next_version_id (snd (AddVersion t k v ?m)) = vm_next_version_id ?m + 1" "vm_config (snd (AddVersion t k v ?m)) = vm_config ?m"
    by (simp_all add: AddVersion_def take_version_id_def store_version_def Let_def)
  show ?case
    unfolding h add_all_snoc using same other rest snoc by (cases "key = k") (auto simp: added_snoc last_n_snoc)
qed

section \<open>The newest answer\<close>

lemma newest_spec:
  assumes "newest vs (m, c, r) = (max_version, count, value)"
  shows "m \<le> max_version \<and> (\<forall>(v, i) \<in> set vs. i \<le> max_version) \<and>
    count = (if max_version = m then c else 0) + length (filter (\<lambda>(v, i). i = max_version) vs) \<and>
    (if max_version = m then value = r else (value, max_version) \<in> set vs)"
  using assms
proof (induction vs arbitrary: m c r)
  case (Cons x vs)
  obtain v i where x: "x = (v, i)" by force
  consider "m < i" | "i = m" | "i < m" by (rule linorder_cases [of m i]) auto
  then show ?case
  proof cases
    case 1
    then show ?thesis using Cons.IH [of i 1 v] Cons.prems x by (auto split: if_splits)
  next
    case 2
    then show ?thesis using Cons.IH [of m "c + 1" r] Cons.prems x by (auto split: if_splits)
  next
    case 3
    then show ?thesis using Cons.IH [of m c r] Cons.prems x by (auto split: if_splits)
  qed
qed simp

lemma length_read_values: "length (read_values n a) = card {i. i < n \<and> at_answer a i \<noteq> None}"
proof -
  have "length (read_values n a) = length (filter (\<lambda>i. at_answer a i \<noteq> None) [0..<n])"
    by (simp add: read_values_def map_filter_def)
  also have "\<dots> = card (set (filter (\<lambda>i. at_answer a i \<noteq> None) [0..<n]))" by (rule distinct_card [symmetric]) simp
  also have "set (filter (\<lambda>i. at_answer a i \<noteq> None) [0..<n]) = {i. i < n \<and> at_answer a i \<noteq> None}" by auto
  finally show ?thesis .
qed

lemma set_read_values: "x \<in> set (read_values n a) \<longleftrightarrow> (\<exists>i < n. at_answer a i = Some x)"
  by (force simp: read_values_def map_filter_def)

text \<open>What a read returns.\<close>

lemma quorum_Read_spec:
  assumes "quorum_Read a q = (r, q')" "read_values (rq_replica_count (rd_config q)) a \<noteq> []"
  obtains x where "rr_version_id r = Some x" "\<forall>(v, i) \<in> set (read_values (rq_replica_count (rd_config q)) a). i \<le> x"
    "rr_replicas_read r = length (read_values (rq_replica_count (rd_config q)) a)"
    "rr_is_strong_consistent r \<longleftrightarrow> rq_read_quorum (rd_config q) \<le> length (filter (\<lambda>(v, i). i = x) (read_values (rq_replica_count (rd_config q)) a))"
    "if x = 0 then rr_value r = '''' else (rr_value r, x) \<in> set (read_values (rq_replica_count (rd_config q)) a)"
proof -
  let ?vs = "read_values (rq_replica_count (rd_config q)) a"
  obtain x c v where n: "newest ?vs (0, 0, '''') = (x, c, v)" by (metis prod_cases3)
  note spec = newest_spec [OF n]
  have r: "r = \<lparr>rr_value = v, rr_version_id = Some x, rr_replicas_read = length ?vs, rr_is_strong_consistent = (rq_read_quorum (rd_config q) \<le> c)\<rparr>"
    using assms n by (simp add: quorum_Read_def Let_def)
  have "c = length (filter (\<lambda>(v, i). i = x) ?vs)" using spec by simp
  then show thesis using that [of x] spec r by auto
qed

lemma quorum_Read_config: "quorum_Read a q = (r, q') \<Longrightarrow> rd_config q' = rd_config q"
  by (auto simp: quorum_Read_def Let_def split: if_splits prod.splits)

section \<open>The loop\<close>

definition settled :: "ReadQuorumConfig \<Rightarrow> attempt \<Rightarrow> bool" where
  "settled config a =
     (let r = fst (quorum_Read a (quorum_new\<lparr>rd_config := config\<rparr>)) in rr_replicas_read r < rq_read_quorum config \<or> rr_is_strong_consistent r)"

lemma quorum_Read_result: "fst (quorum_Read a q) = fst (quorum_Read a (quorum_new\<lparr>rd_config := rd_config q\<rparr>))"
  by (simp add: quorum_Read_def Let_def split: prod.splits)

lemma LinearizableRead_unfold:
  assumes "quorum_Read (attempts t) q = (r, q')"
  shows "LinearizableRead attempts t q =
    (if rr_replicas_read r < rq_read_quorum (rd_config q) then Some (None, Suc t, q')
     else if rr_is_strong_consistent r then Some (Some r, Suc t, q') else LinearizableRead attempts (Suc t) q')"
  using quorum_Read_config [OF assms] assms by (subst LinearizableRead.simps) simp

lemma settled_result:
  assumes "quorum_Read a q = (r, q')"
  shows "settled (rd_config q) a \<longleftrightarrow> rr_replicas_read r < rq_read_quorum (rd_config q) \<or> rr_is_strong_consistent r"
  using quorum_Read_result [of a q] assms by (simp add: settled_def Let_def)

lemma LinearizableRead_returns:
  assumes "settled (rd_config q) (attempts (t + n))"
  shows "LinearizableRead attempts t q \<noteq> None"
  using assms
proof (induction n arbitrary: t q)
  case 0
  obtain r q' where r: "quorum_Read (attempts t) q = (r, q')" by force
  show ?case using LinearizableRead_unfold [of attempts t q r q', OF r] settled_result [OF r] 0 by auto
next
  case (Suc n)
  obtain r q' where r: "quorum_Read (attempts t) q = (r, q')" by force
  have "LinearizableRead attempts (Suc t) q' \<noteq> None" using Suc.IH [of q' "Suc t"] Suc.prems quorum_Read_config [OF r] by simp
  then show ?case using LinearizableRead_unfold [of attempts t q r q', OF r] by auto
qed

text \<open>A result comes from an attempt that is settled.\<close>

definition result_from :: "(nat \<Rightarrow> attempt) \<Rightarrow> nat \<Rightarrow> ReadQuorum \<Rightarrow> ReadResult option \<times> nat \<times> ReadQuorum \<Rightarrow> bool" where
  "result_from attempts t q y =
     (\<exists>s q1 r. t \<le> s \<and> fst (snd y) = Suc s \<and> quorum_Read (attempts s) q1 = (r, snd (snd y)) \<and> rd_config q1 = rd_config q \<and>
        (case fst y of
           None \<Rightarrow> rr_replicas_read r < rq_read_quorum (rd_config q)
         | Some r' \<Rightarrow> r' = r \<and> rq_read_quorum (rd_config q) \<le> rr_replicas_read r \<and> rr_is_strong_consistent r))"

lemma LinearizableRead_result:
  assumes "LinearizableRead attempts t q = Some y"
  shows "result_from attempts t q y"
proof (rule LinearizableRead.raw_induct [where P = result_from, OF _ assms])
  fix f attempts t q y
  assume rec: "\<And>attempts t q y. f attempts t q = Some y \<Longrightarrow> result_from attempts t q y"
    and eq: "(let (r, q) = quorum_Read (attempts t) q in
      if rr_replicas_read r < rq_read_quorum (rd_config q) then Some (None, Suc t, q)
      else if \<not> rr_is_strong_consistent r then f attempts (Suc t) q else Some (Some r, Suc t, q)) = Some y"
  obtain r q' where r: "quorum_Read (attempts t) q = (r, q')" by force
  note cfg = quorum_Read_config [OF r]
  have body: "(if rr_replicas_read r < rq_read_quorum (rd_config q) then Some (None, Suc t, q')
      else if \<not> rr_is_strong_consistent r then f attempts (Suc t) q' else Some (Some r, Suc t, q')) = Some y"
    using eq unfolding r cfg [symmetric] by simp
  consider (few) "rr_replicas_read r < rq_read_quorum (rd_config q)" "y = (None, Suc t, q')"
    | (again) "f attempts (Suc t) q' = Some y"
    | (found) "rq_read_quorum (rd_config q) \<le> rr_replicas_read r" "rr_is_strong_consistent r" "y = (Some r, Suc t, q')"
    using body by (metis not_less option.inject)
  then show "result_from attempts t q y"
  proof cases
    case again
    show ?thesis using rec [OF again] unfolding result_from_def cfg by (elim exE conjE) (intro exI conjI, rule Suc_leD)
  qed (use r in \<open>auto simp: result_from_def intro!: exI [of _ t] exI [of _ q]\<close>)
qed

lemma result_settled: "result_from attempts t q y \<Longrightarrow> \<exists>s \<ge> t. settled (rd_config q) (attempts s)"
  using settled_result by (fastforce simp: result_from_def split: option.splits)

section \<open>Intersection of quorums\<close>

lemma quorums_meet:
  assumes "W \<subseteq> {..<n}" "R \<subseteq> {..<n}" "n < card W + card R"
  shows "W \<inter> R \<noteq> {}"
proof
  assume "W \<inter> R = {}"
  moreover have "finite W" "finite R" using assms(1,2) finite_subset by blast+
  ultimately have "card (W \<union> R) = card W + card R" by (simp add: card_Un_disjoint)
  moreover have "card (W \<union> R) \<le> card {..<n}" using assms(1,2) by (intro card_mono) auto
  ultimately show False using assms(3) by simp
qed

text \<open>A read that was answered by a quorum returns a version at least as new as one that a write quorum holds.\<close>

lemma quorum_Read_newer:
  assumes read: "quorum_Read a q = (r, q')" and answered: "rq_read_quorum (rd_config q) \<le> rr_replicas_read r"
    and W: "W \<subseteq> {..<rq_replica_count (rd_config q)}" "rq_write_quorum (rd_config q) \<le> card W"
    and held: "\<And>i v x. i \<in> W \<Longrightarrow> at_answer a i = Some (v, x) \<Longrightarrow> n \<le> x"
    and quorums: "rq_replica_count (rd_config q) < rq_read_quorum (rd_config q) + rq_write_quorum (rd_config q)"
  obtains x where "rr_version_id r = Some x" "n \<le> x"
proof -
  let ?N = "rq_replica_count (rd_config q)" and ?R = "{i. i < rq_replica_count (rd_config q) \<and> at_answer a i \<noteq> None}"
  let ?vs = "read_values ?N a"
  have "card W \<le> ?N" using card_mono [OF finite_lessThan W(1)] by simp
  then have "0 < rq_read_quorum (rd_config q)" using quorums W(2) card_mono [OF finite_lessThan W(1)] by linarith
  then have ne: "?vs \<noteq> []" using read answered by (auto simp: quorum_Read_def Let_def)
  obtain x where x: "rr_version_id r = Some x" "\<forall>(v, i) \<in> set ?vs. i \<le> x" "rr_replicas_read r = length ?vs"
    by (rule quorum_Read_spec [OF read ne])
  have "W \<inter> ?R \<noteq> {}"
    using x(3) answered W quorums length_read_values [of ?N a] by (intro quorums_meet [where n = ?N]) auto
  then obtain i v y where i: "i \<in> W" "i < ?N" "at_answer a i = Some (v, y)" by auto
  then have "(v, y) \<in> set ?vs" unfolding set_read_values by blast
  then have "y \<le> x" using x(2) by auto
  then have "n \<le> x" using held [OF i(1,3)] by simp
  then show thesis using that x(1) by blast
qed

end
