(* ===== verification/Quorum_Theorems.thy ===== *)
theory Quorum_Theorems
  imports ReadQuorum
begin

text \<open>
  The properties of the quorum reads: when the retry loop returns, that it does not miss an acknowledged write, and the
  versions that are kept; then the defects that the model exposes.
\<close>

section \<open>Properties\<close>

text \<open>
  C32: \<^verbatim>\<open>LinearizableRead\<close> returns exactly if some attempt, from the first one on, is settled: fewer replicas than the read
  quorum answer, or at least as many as the read quorum answer with the largest version number that was seen.  While the replicas
  answer in sufficient number but disagree, the loop never returns.
\<close>

theorem linearizable_read_returns:
  "LinearizableRead attempts t q \<noteq> None \<longleftrightarrow>
     (\<exists>s. t \<le> s \<and> (let vs = read_values (rq_replica_count (rd_config q)) (attempts s) in
        length vs < rq_read_quorum (rd_config q) \<or> vs = [] \<or>
        (\<exists>x \<in> snd ` set vs. (\<forall>y \<in> snd ` set vs. y \<le> x) \<and> rq_read_quorum (rd_config q) \<le> length (filter (\<lambda>(v, i). i = x) vs))))"
proof -
  let ?vs = "\<lambda>s. read_values (rq_replica_count (rd_config q)) (attempts s)"
  have settled: "settled (rd_config q) (attempts s) \<longleftrightarrow>
      length (?vs s) < rq_read_quorum (rd_config q) \<or> ?vs s = [] \<or>
      (\<exists>x \<in> snd ` set (?vs s). (\<forall>y \<in> snd ` set (?vs s). y \<le> x) \<and> rq_read_quorum (rd_config q) \<le> length (filter (\<lambda>(v, i). i = x) (?vs s)))" for s
  proof (cases "?vs s = []")
    case True
    then show ?thesis by (simp add: settled_def quorum_Read_def quorum_new_def)
  next
    case False
    obtain r q' where r: "quorum_Read (attempts s) q = (r, q')" by force
    obtain x where x: "\<forall>(v, i) \<in> set (?vs s). i \<le> x" "rr_replicas_read r = length (?vs s)"
      "rr_is_strong_consistent r \<longleftrightarrow> rq_read_quorum (rd_config q) \<le> length (filter (\<lambda>(v, i). i = x) (?vs s))"
      "if x = 0 then rr_value r = '''' else (rr_value r, x) \<in> set (?vs s)"
      by (rule quorum_Read_spec [OF r False])
    have mem: "x \<in> snd ` set (?vs s)"
    proof (cases "x = 0")
      case True
      obtain v i where "(v, i) \<in> set (?vs s)" using False by (cases "?vs s") auto
      then show ?thesis using True x(1) by (force simp: image_iff)
    next
      case False
      then show ?thesis using x(4) by (force simp: image_iff)
    qed
    have max: "(\<forall>y \<in> snd ` set (?vs s). y \<le> z) \<longleftrightarrow> z = x" if "z \<in> snd ` set (?vs s)" for z
      using that mem x(1) by (force intro: order_antisym)
    show ?thesis using settled_result [OF r] x(2,3) mem max False by auto
  qed
  have "LinearizableRead attempts t q \<noteq> None \<longleftrightarrow> (\<exists>s \<ge> t. settled (rd_config q) (attempts s))"
  proof
    assume "LinearizableRead attempts t q \<noteq> None"
    then show "\<exists>s \<ge> t. settled (rd_config q) (attempts s)" using LinearizableRead_result result_settled by blast
  next
    assume "\<exists>s \<ge> t. settled (rd_config q) (attempts s)"
    then obtain n where "settled (rd_config q) (attempts (t + n))" by (metis le_iff_add)
    then show "LinearizableRead attempts t q \<noteq> None" by (rule LinearizableRead_returns)
  qed
  then show ?thesis unfolding settled Let_def by simp
qed

definition split_attempt :: attempt where
  "split_attempt = \<lparr>at_answer = (\<lambda>i. Some (''v'', of_nat (Suc i))), at_latency_ns = 5\<rparr>"

theorem linearizable_read_returns_witness: "LinearizableRead (\<lambda>s. split_attempt) 0 quorum_new = None"
proof (rule ccontr)
  assume "LinearizableRead (\<lambda>s. split_attempt) 0 quorum_new \<noteq> None"
  then show False
    unfolding linearizable_read_returns by (simp add: read_values_def split_attempt_def quorum_new_def default_quorum_config_def map_filter_def upt_rec)
qed

text \<open>
  A linearizable read does not miss an acknowledged write: when the read and the write quorum together exceed the number of
  replicas, and at every attempt a write quorum of replicas holds version \<open>n\<close> or a later one (those that answer at all),
  then a result that is returned has version \<open>n\<close> or a later one.
\<close>

theorem linearizable_read_newer:
  assumes "rq_replica_count (rd_config q) < rq_read_quorum (rd_config q) + rq_write_quorum (rd_config q)"
    and "\<And>s. W s \<subseteq> {..<rq_replica_count (rd_config q)} \<and> rq_write_quorum (rd_config q) \<le> card (W s)"
    and "\<And>s i v x. i \<in> W s \<Longrightarrow> at_answer (attempts s) i = Some (v, x) \<Longrightarrow> n \<le> x"
    and "LinearizableRead attempts t q = Some (Some r, t', q')"
  shows "\<exists>x. rr_version_id r = Some x \<and> n \<le> x"
proof -
  obtain s q1 q2 where s: "quorum_Read (attempts s) q1 = (r, q2)" "rd_config q1 = rd_config q" "rq_read_quorum (rd_config q) \<le> rr_replicas_read r"
    using LinearizableRead_result [OF assms(4)] by (auto simp: result_from_def)
  obtain x where "rr_version_id r = Some x" "n \<le> x"
    by (rule quorum_Read_newer [OF s(1), where W = "W s" and n = n]) (use assms(1-3) s(2,3) in auto)
  then show ?thesis by blast
qed

definition example_attempts :: "nat \<Rightarrow> attempt" where
  "example_attempts s = \<lparr>at_answer = (\<lambda>i. if i = 0 then Some (''new'', 2) else if i = 1 then Some (if s = 0 then ''old'' else ''new'', if s = 0 then 1 else 2) else None), at_latency_ns = 5\<rparr>"

lemma example_read: "\<exists>r q'. LinearizableRead example_attempts 0 quorum_new = Some (Some r, 2, q') \<and> rr_value r = ''new'' \<and> rr_version_id r = Some 2"
proof -
  obtain r0 q0 where r0: "quorum_Read (example_attempts 0) quorum_new = (r0, q0)" by force
  obtain r1 q1 where r1: "quorum_Read (example_attempts (Suc 0)) q0 = (r1, q1)" by force
  note ex = quorum_Read_def read_values_def example_attempts_def quorum_new_def default_quorum_config_def map_filter_def upt_rec
  have 0: "rr_replicas_read r0 = 2" "\<not> rr_is_strong_consistent r0" "rd_config q0 = default_quorum_config" using r0 by (auto simp: ex)
  have 1: "rr_replicas_read r1 = 2" "rr_is_strong_consistent r1" "rr_value r1 = ''new''" "rr_version_id r1 = Some 2" using r1 0(3) by (auto simp: ex)
  have "LinearizableRead example_attempts 0 quorum_new = Some (Some r1, Suc (Suc 0), q1)"
    using LinearizableRead_unfold [of example_attempts 0 quorum_new, OF r0] LinearizableRead_unfold [of example_attempts "Suc 0" q0, OF r1] 0 1
    by (simp add: quorum_new_def default_quorum_config_def)
  then show ?thesis using 1 by (simp add: numeral_2_eq_2)
qed

theorem linearizable_read_newer_witness:
  "\<exists>r q' x. LinearizableRead example_attempts 0 quorum_new = Some (Some r, 2, q') \<and> rr_version_id r = Some x \<and> 1 \<le> x"
proof -
  obtain r q' where r: "LinearizableRead example_attempts 0 quorum_new = Some (Some r, 2, q')" using example_read by blast
  have "\<exists>x. rr_version_id r = Some x \<and> 1 \<le> x"
    by (rule linearizable_read_newer [of quorum_new "\<lambda>s. {0, 1}" example_attempts 1 0 r 2 q'])
      (use r in \<open>auto simp: quorum_new_def default_quorum_config_def example_attempts_def split: if_splits\<close>)
  then show ?thesis using r by blast
qed

text \<open>
  After any sequence of additions the version manager keeps, for each key, the last \<^verbatim>\<open>max_versions\<close> versions in the order in
  which they were added, numbered by their position in the sequence; the latest version is the last one, and a snapshot
  reads the value of the last kept version that is not later than the snapshot.
\<close>

theorem version_history:
  "GetVersions key (add_all hs (vm_new config)) = last_n (rq_max_versions config) (added key hs) \<and>
   GetLatestVersion key (add_all hs (vm_new config)) = (let vs = last_n (rq_max_versions config) (added key hs) in if vs = [] then None else Some (last (added key hs))) \<and>
   ReadFromSnapshot snapshots key t (add_all hs (vm_new config)) =
     (let vs = filter (\<lambda>v. version_timestamp v \<le> t) (last_n (rq_max_versions config) (added key hs)) in
      if t \<in> snapshots \<and> vs \<noteq> [] then Some (version_value (last vs)) else None)"
proof -
  have g: "GetVersions key (add_all hs (vm_new config)) = last_n (rq_max_versions config) (added key hs)" using add_all_versions by blast
  have find: "List.find P (rev xs) = (if filter P xs = [] then None else Some (last (filter P xs)))" for P and xs :: "Version list"
    by (induction xs rule: rev_induct) auto
  have "last (last_n (rq_max_versions config) (added key hs)) = last (added key hs)" if "last_n (rq_max_versions config) (added key hs) \<noteq> []"
    using that by (simp add: last_n_def)
  then show ?thesis using g find by (auto simp: GetLatestVersion_def ReadFromSnapshot_def Let_def)
qed

section \<open>Defects\<close>

text \<open>
  The version number is taken outside of the mutex: of two concurrent additions the later number may be stored first, and the
  latest version is then the older one.
\<close>

theorem latest_version_is_older:
  "let (a, m) = take_version_id (vm_new default_quorum_config); (b, m) = take_version_id m in
   map_option version_id (GetLatestVersion k (store_version k v a ta (store_version k w b tb m))) = Some 1 \<and> b = 2"
  by (simp add: take_version_id_def vm_new_def store_version_def GetLatestVersion_def GetVersions_def default_quorum_config_def Let_def)

text \<open>The values of replicas that answer with version 0 are lost: the result is the empty value, marked as consistent.\<close>

theorem version_zero_is_lost:
  "quorum_Read \<lparr>at_answer = (\<lambda>i. Some (''x'', 0)), at_latency_ns = 0\<rparr> quorum_new =
     (\<lparr>rr_value = '''', rr_version_id = Some 0, rr_replicas_read = 3, rr_is_strong_consistent = True\<rparr>,
      quorum_new\<lparr>rd_read_count := 1\<rparr>)"
  by (simp add: quorum_Read_def read_values_def quorum_new_def default_quorum_config_def map_filter_def upt_rec)

end
