(* ===== verification/AsyncWriter.thy ===== *)
theory AsyncWriter
  imports DB_Correct
begin

text \<open>
  The background writer of tables of \<^verbatim>\<open>src/mokv/lsm/async_sst_writer.hpp\<close> and \<^verbatim>\<open>async_sst_writer.cpp\<close>, and the buffer pool and file handle of
  \<^verbatim>\<open>src/mokv/lsm/async_io.hpp\<close>.  The writer thread is a state machine: \<open>writer_step\<close> is its next critical section, and callers queue requests
  between its steps.  The time of a write and the exception that a write may throw are functions of the request.  The
  methods of \<^verbatim>\<open>IOEngine\<close> that reach the kernel have no body in the repository; a file handle takes them as arguments.
\<close>

section \<open>Buffer pool\<close>

record IOBufferPool =
  ib_buffers :: "(nat \<times> bool) list"
  ib_buffer_size :: nat
  ib_buffer_count :: nat

text \<open>The addresses that \<^verbatim>\<open>aligned_alloc\<close> returns are an argument, \<open>None\<close> for a null pointer.\<close>

definition bufpool_new :: "(nat \<Rightarrow> nat option) \<Rightarrow> nat \<Rightarrow> nat \<Rightarrow> IOBufferPool" where
  "bufpool_new alloc buffer_size buffer_count =
     \<lparr>ib_buffers = map (\<lambda>a. (a, False)) (List.map_filter alloc [0..<buffer_count]), ib_buffer_size = buffer_size, ib_buffer_count = buffer_count\<rparr>"

fun take_buffer :: "(nat \<times> bool) list \<Rightarrow> nat option \<times> (nat \<times> bool) list" where
  "take_buffer [] = (None, [])"
| "take_buffer ((a, in_use) # bs) =
     (if \<not> in_use then (Some a, (a, True) # bs) else (let (r, bs) = take_buffer bs in (r, (a, in_use) # bs)))"

definition buf_Allocate :: "IOBufferPool \<Rightarrow> nat option \<times> IOBufferPool" where
  "buf_Allocate p = (let (r, bs) = take_buffer (ib_buffers p) in (r, p\<lparr>ib_buffers := bs\<rparr>))"

fun free_buffer :: "nat \<Rightarrow> (nat \<times> bool) list \<Rightarrow> (nat \<times> bool) list" where
  "free_buffer buf [] = []"
| "free_buffer buf ((a, in_use) # bs) = (if a = buf then (a, False) # bs else (a, in_use) # free_buffer buf bs)"

definition buf_Free :: "nat \<Rightarrow> IOBufferPool \<Rightarrow> IOBufferPool" where
  "buf_Free buf p = p\<lparr>ib_buffers := free_buffer buf (ib_buffers p)\<rparr>"

definition buf_available :: "IOBufferPool \<Rightarrow> nat" where
  "buf_available p = length (filter (\<lambda>(a, in_use). \<not> in_use) (ib_buffers p))"

definition in_use :: "IOBufferPool \<Rightarrow> nat set" where
  "in_use p = fst ` set (filter snd (ib_buffers p))"

definition bufpool_ok :: "IOBufferPool \<Rightarrow> bool" where
  "bufpool_ok p = distinct (map fst (ib_buffers p))"

lemma take_buffer_spec:
  assumes "take_buffer bs = (r, bs')" "distinct (map fst bs)"
  shows "map fst bs' = map fst bs \<and> length (filter (\<lambda>(a, u). \<not> u) bs) = (if r = None then 0 else Suc (length (filter (\<lambda>(a, u). \<not> u) bs'))) \<and>
    (case r of None \<Rightarrow> bs' = bs
     | Some a \<Rightarrow> a \<in> set (map fst bs) \<and> a \<notin> fst ` set (filter snd bs) \<and> fst ` set (filter snd bs') = insert a (fst ` set (filter snd bs)))"
  using assms
proof (induction bs arbitrary: r bs' rule: take_buffer.induct)
  case (2 a u bs)
  show ?case
  proof (cases u)
    case False
    then show ?thesis using 2(2,3) by (auto simp: image_iff)
  next
    case True
    obtain r1 bs1 where t: "take_buffer bs = (r1, bs1)" by force
    then have r: "r = r1" "bs' = (a, u) # bs1" using 2(2) True by auto
    have ih: "map fst bs1 = map fst bs \<and> length (filter (\<lambda>(a, u). \<not> u) bs) = (if r1 = None then 0 else Suc (length (filter (\<lambda>(a, u). \<not> u) bs1))) \<and>
      (case r1 of None \<Rightarrow> bs1 = bs
       | Some a \<Rightarrow> a \<in> set (map fst bs) \<and> a \<notin> fst ` set (filter snd bs) \<and> fst ` set (filter snd bs1) = insert a (fst ` set (filter snd bs)))"
      using 2(1) [of r1 bs1] True t 2(3) by simp
    show ?thesis
    proof (cases r1)
      case None
      then show ?thesis using ih r True by simp
    next
      case (Some b)
      then have "b \<noteq> a" using ih 2(3) by auto
      then show ?thesis using Some ih r True by auto
    qed
  qed
qed simp

lemma free_buffer_spec:
  "distinct (map fst bs) \<Longrightarrow> map fst (free_buffer a bs) = map fst bs \<and> fst ` set (filter snd (free_buffer a bs)) = fst ` set (filter snd bs) - {a}"
proof (induction a bs rule: free_buffer.induct)
  case (2 buf a u bs)
  show ?case
  proof (cases "a = buf")
    case True
    have "a \<notin> fst ` set (filter snd bs)" using 2(2) by auto
    then show ?thesis using True by simp
  next
    case False
    then show ?thesis using 2 by (cases u) (simp_all add: insert_Diff_if)
  qed
qed simp

section \<open>File handle\<close>

record AsyncFile =
  af_fd :: int
  af_engine :: bool

definition file_new :: AsyncFile where "file_new = \<lparr>af_fd = -1, af_engine = False\<rparr>"

definition file_Open :: "int \<Rightarrow> AsyncFile \<Rightarrow> bool \<times> AsyncFile" where
  "file_Open opened f = (opened \<noteq> -1, f\<lparr>af_fd := opened\<rparr>)"

text \<open>The same guard stands before a read and a write; \<open>submit\<close> is the result of the engine.\<close>

definition file_Async :: "(int \<Rightarrow> int) \<Rightarrow> AsyncFile \<Rightarrow> int" where
  "file_Async submit f = (if \<not> af_engine f \<or> af_fd f = -1 then -1 else submit (af_fd f))"

definition file_Close :: "AsyncFile \<Rightarrow> AsyncFile" where
  "file_Close f = (if af_fd f \<noteq> -1 then f\<lparr>af_fd := -1\<rparr> else f)"

definition SetIOEngine :: "bool \<Rightarrow> AsyncFile \<Rightarrow> AsyncFile" where
  "SetIOEngine engine f = f\<lparr>af_engine := engine\<rparr>"

section \<open>The writer\<close>

record WriterConfig =
  wc_enable_compression :: bool
  wc_compression :: CompressionConfig

record WriteRequest =
  wq_memtable :: memtable
  wq_sst_id :: nat
  wq_callback :: bool

record AsyncWriteResult =
  ar_sst :: "SST option"
  ar_success :: bool
  ar_error_message :: string

record WriterStats =
  ws_total_writes :: "64 word"
  ws_successful_writes :: "64 word"
  ws_failed_writes :: "64 word"
  ws_total_bytes :: "64 word"
  ws_total_latency_ns :: "64 word"

definition zero_writer_stats :: WriterStats where
  "zero_writer_stats = \<lparr>ws_total_writes = 0, ws_successful_writes = 0, ws_failed_writes = 0, ws_total_bytes = 0, ws_total_latency_ns = 0\<rparr>"

definition writer_AvgLatencyNs :: "WriterStats \<Rightarrow> 64 word" where
  "writer_AvgLatencyNs st = (if 0 < ws_successful_writes st then ws_total_latency_ns st div ws_successful_writes st else 0)"

datatype writer_phase = WTop | WWait | WWrite WriteRequest | WEnded

text \<open>The results that were passed to the callbacks are recorded in order.\<close>

record AsyncSSTWriter =
  aw_config :: WriterConfig
  aw_running :: bool
  aw_phase :: writer_phase
  aw_queue :: "WriteRequest list"
  aw_stats :: WriterStats
  aw_files :: files
  aw_counter :: "64 word"
  aw_results :: "(nat \<times> AsyncWriteResult) list"

definition writer_new :: "WriterConfig \<Rightarrow> files \<Rightarrow> 64 word \<Rightarrow> AsyncSSTWriter" where
  "writer_new config fs g =
     \<lparr>aw_config = config, aw_running = True, aw_phase = WTop, aw_queue = [], aw_stats = zero_writer_stats, aw_files = fs, aw_counter = g, aw_results = []\<rparr>"

definition WriteAsync :: "memtable \<Rightarrow> nat \<Rightarrow> bool \<Rightarrow> AsyncSSTWriter \<Rightarrow> AsyncSSTWriter" where
  "WriteAsync m tid callback w =
     w\<lparr>aw_queue := aw_queue w @ [\<lparr>wq_memtable = m, wq_sst_id = tid, wq_callback = callback\<rparr>]\<rparr>"

text \<open>The environment of the writer: exceptions and latencies by table number.\<close>

record write_env =
  we_throws :: "nat \<Rightarrow> string option"
  we_latency :: "nat \<Rightarrow> 64 word"

text \<open>\<^verbatim>\<open>WriteSync\<close>: the left result is an exception.\<close>

definition WriteSync :: "'c sst_env \<Rightarrow> write_env \<Rightarrow> memtable \<Rightarrow> nat \<Rightarrow> AsyncSSTWriter \<Rightarrow> ((string + SST) \<times> AsyncSSTWriter) option" where
  "WriteSync env we m tid w =
     (case we_throws we tid of
        Some e \<Rightarrow> Some (Inl e, w)
      | None \<Rightarrow>
          do { (sst, fs, g) \<leftarrow>
                 (if wc_enable_compression (aw_config w)
                  then SST_memtable_compressed env (wc_compression (aw_config w)) m tid (aw_files w, aw_counter w)
                  else SST_memtable env m tid (aw_files w, aw_counter w));
               let st = aw_stats w;
               Some (Inr sst, w\<lparr>aw_files := fs, aw_counter := g, aw_stats := st\<lparr>ws_total_writes := ws_total_writes st + 1,
                 ws_successful_writes := ws_successful_writes st + 1, ws_total_bytes := ws_total_bytes st + of_nat (sst_file_size sst),
                 ws_total_latency_ns := ws_total_latency_ns st + we_latency we tid\<rparr>\<rparr>) })"

definition count_result :: "bool \<Rightarrow> 64 word \<Rightarrow> WriterStats \<Rightarrow> WriterStats" where
  "count_result success latency st =
     (let st = st\<lparr>ws_total_writes := ws_total_writes st + 1\<rparr>;
          st = (if success then st\<lparr>ws_successful_writes := ws_successful_writes st + 1\<rparr> else st\<lparr>ws_failed_writes := ws_failed_writes st + 1\<rparr>) in
      st\<lparr>ws_total_latency_ns := ws_total_latency_ns st + latency\<rparr>)"

definition perform :: "'c sst_env \<Rightarrow> write_env \<Rightarrow> WriteRequest \<Rightarrow> AsyncSSTWriter \<Rightarrow> AsyncSSTWriter option" where
  "perform env we r w =
     do { (x, w) \<leftarrow> WriteSync env we (wq_memtable r) (wq_sst_id r) w;
          let result = (case x of Inr sst \<Rightarrow> \<lparr>ar_sst = Some sst, ar_success = True, ar_error_message = ''''\<rparr>
                                | Inl e \<Rightarrow> \<lparr>ar_sst = None, ar_success = False, ar_error_message = e\<rparr>);
          Some (w\<lparr>aw_phase := WTop, aw_stats := count_result (ar_success result) (we_latency we (wq_sst_id r)) (aw_stats w),
                  aw_results := (if wq_callback r then aw_results w @ [(wq_sst_id r, result)] else aw_results w)\<rparr>) }"

text \<open>The thread; the outer \<open>None\<close> is a bad access, the inner one means that it waits or has ended.\<close>

definition writer_step :: "'c sst_env \<Rightarrow> write_env \<Rightarrow> AsyncSSTWriter \<Rightarrow> AsyncSSTWriter option option" where
  "writer_step env we w =
     (case aw_phase w of
        WTop \<Rightarrow> Some (Some (w\<lparr>aw_phase := (if aw_running w then WWait else WEnded)\<rparr>))
      | WWait \<Rightarrow>
          Some (if aw_running w \<and> aw_queue w = [] then None
                else case aw_queue w of
                       [] \<Rightarrow> Some (w\<lparr>aw_phase := WEnded\<rparr>)
                     | r # rs \<Rightarrow> Some (w\<lparr>aw_queue := rs, aw_phase := WWrite r\<rparr>))
      | WWrite r \<Rightarrow> map_option Some (perform env we r w)
      | WEnded \<Rightarrow> Some None)"

text \<open>The destructor clears the flag and joins the thread.\<close>

definition writer_stop :: "AsyncSSTWriter \<Rightarrow> AsyncSSTWriter" where
  "writer_stop w = w\<lparr>aw_running := False\<rparr>"

fun writer_steps :: "'c sst_env \<Rightarrow> write_env \<Rightarrow> nat \<Rightarrow> AsyncSSTWriter \<Rightarrow> AsyncSSTWriter option" where
  "writer_steps env we 0 w = Some w"
| "writer_steps env we (Suc n) w = do { x \<leftarrow> writer_step env we w; (case x of None \<Rightarrow> Some w | Some w \<Rightarrow> writer_steps env we n w) }"

text \<open>\<^verbatim>\<open>Flush\<close> returns when it sees an empty queue.\<close>

definition Flush_returns :: "AsyncSSTWriter \<Rightarrow> bool" where
  "Flush_returns w = (aw_queue w = [])"

section \<open>Batches of tables\<close>

record BatchWriter =
  bw_batch_size :: nat
  bw_current_batch :: nat
  bw_batch :: "(memtable \<times> nat) list"

definition bw_new :: "nat \<Rightarrow> BatchWriter" where "bw_new batch_size = \<lparr>bw_batch_size = batch_size, bw_current_batch = 0, bw_batch = []\<rparr>"

definition bw_Add :: "memtable \<Rightarrow> nat \<Rightarrow> BatchWriter \<Rightarrow> BatchWriter" where
  "bw_Add m tid b = b\<lparr>bw_batch := bw_batch b @ [(m, tid)], bw_current_batch := bw_current_batch b + 1\<rparr>"

definition bw_Clear :: "BatchWriter \<Rightarrow> BatchWriter" where "bw_Clear b = b\<lparr>bw_batch := [], bw_current_batch := 0\<rparr>"

definition bw_full :: "BatchWriter \<Rightarrow> bool" where "bw_full b = (bw_batch_size b \<le> length (bw_batch b))"

text \<open>The loop of both commits: an exception of \<^verbatim>\<open>WriteSync\<close> leaves the function before the batch is cleared.\<close>

fun write_batch :: "'c sst_env \<Rightarrow> write_env \<Rightarrow> (memtable \<times> nat) list \<Rightarrow> nat \<Rightarrow> AsyncSSTWriter \<Rightarrow> ((string + nat) \<times> AsyncSSTWriter) option" where
  "write_batch env we [] n w = Some (Inr n, w)"
| "write_batch env we ((m, i) # bs) n w =
     do { (x, w) \<leftarrow> WriteSync env we m i w;
          (case x of Inl e \<Rightarrow> Some (Inl e, w) | Inr sst \<Rightarrow> write_batch env we bs (n + 1) w) }"

definition bw_CommitSync :: "'c sst_env \<Rightarrow> write_env \<Rightarrow> BatchWriter \<Rightarrow> AsyncSSTWriter \<Rightarrow> ((string + nat) \<times> BatchWriter \<times> AsyncSSTWriter) option" where
  "bw_CommitSync env we b w =
     (if bw_batch b = [] then Some (Inr 0, b, w)
      else do { (x, w) \<leftarrow> write_batch env we (bw_batch b) 0 w;
                (case x of Inl e \<Rightarrow> Some (Inl e, b, w) | Inr n \<Rightarrow> Some (Inr n, bw_Clear b, w)) })"

text \<open>\<^verbatim>\<open>CommitAsync\<close> also writes in the calling thread; it passes the number of tables to its callback, here the result.\<close>

definition bw_CommitAsync :: "'c sst_env \<Rightarrow> write_env \<Rightarrow> BatchWriter \<Rightarrow> AsyncSSTWriter \<Rightarrow> ((string + nat option) \<times> BatchWriter \<times> AsyncSSTWriter) option" where
  "bw_CommitAsync env we b w =
     (if bw_batch b = [] then Some (Inr None, b, w)
      else do { (x, w) \<leftarrow> write_batch env we (bw_batch b) 0 w;
                (case x of Inl e \<Rightarrow> Some (Inl e, b, w) | Inr n \<Rightarrow> Some (Inr (Some n), bw_Clear b, w)) })"

end
