(* ===== verification/Async_Theorems.thy ===== *)
theory Async_Theorems
  imports AsyncWriter Example_Env
begin

text \<open>
  The properties of the background writer of tables and of the buffer pool: requests are written in order and their files hold the
  entries of the memtables; a buffer belongs to one user; what the destructor, \<^verbatim>\<open>Flush\<close> and the statistics do.
\<close>

section \<open>A round of the writer thread\<close>

text \<open>A request whose table fits, with the entries of its memtable.\<close>

definition request_ok :: "'c sst_env \<Rightarrow> write_env \<Rightarrow> WriterConfig \<Rightarrow> WriteRequest \<Rightarrow> entry list \<Rightarrow> bool" where
  "request_ok env we cfg r es =
     (mt_holds (wq_memtable r) es \<and> es \<noteq> [] \<and> sst_bound env es < max_file \<and> codec_ok env (wc_compression cfg) \<and>
      wq_sst_id r < 2 ^ 31 \<and> we_throws we (wq_sst_id r) = None)"

lemma WriteSync_ok:
  assumes "request_ok env we (aw_config w) r es"
  obtains sst st g where "WriteSync env we (wq_memtable r) (wq_sst_id r) w =
      Some (Inr sst, w\<lparr>aw_files := (aw_files w)(int (wq_sst_id r) \<mapsto> sst_data sst), aw_counter := g, aw_stats := st\<rparr>)"
    "sst_id sst = int (wq_sst_id r)" "table_ok env ((aw_files w)(int (wq_sst_id r) \<mapsto> sst_data sst)) sst es"
    "ws_total_writes st = ws_total_writes (aw_stats w) + 1"
proof -
  have a: "mt_holds (wq_memtable r) es" "es \<noteq> []" "sst_bound env es < max_file" "codec_ok env (wc_compression (aw_config w))"
    "wq_sst_id r < 2 ^ 31" "we_throws we (wq_sst_id r) = None" using assms by (simp_all add: request_ok_def)
  let ?id = "int (wq_sst_id r)" and ?cfg = "wc_compression (aw_config w)"
  have sorted: "sorted_keys es" using mt_reads(1) [OF a(1)] .
  have "length es < size_max" using a(3) by (simp add: sst_bound_def)
  note eqs = SST_memtable_eq [OF a(1) this, unfolded int_of_size_small [OF a(5)]]
  obtain sst g where "(if wc_enable_compression (aw_config w) then SST_memtable_compressed env ?cfg (wq_memtable r) (wq_sst_id r) (aw_files w, aw_counter w)
      else SST_memtable env (wq_memtable r) (wq_sst_id r) (aw_files w, aw_counter w)) = Some (sst, (aw_files w)(?id \<mapsto> sst_data sst), g)"
    "sst_id sst = ?id" "table_ok env ((aw_files w)(?id \<mapsto> sst_data sst)) sst es"
    using SST_entries_ok [OF a(2) sorted a(3), of ?id "aw_files w" "aw_counter w"]
      SST_entries_compressed_ok [OF a(2) sorted a(3,4), of ?id "aw_files w" "aw_counter w"]
    unfolding eqs int_of_size_small [OF a(5)] by (cases "wc_enable_compression (aw_config w)") auto
  then show thesis using that a(6) by (simp add: WriteSync_def Let_def)
qed

lemma perform_ok:
  assumes "request_ok env we (aw_config w) r es"
  obtains sst w' where "perform env we r w = Some w'" "aw_phase w' = WTop" "aw_queue w' = aw_queue w" "aw_running w' = aw_running w" "aw_config w' = aw_config w"
    "aw_files w' = (aw_files w)(int (wq_sst_id r) \<mapsto> sst_data sst)" "table_ok env (aw_files w') sst es" "sst_id sst = int (wq_sst_id r)"
    "aw_results w' = aw_results w @ (if wq_callback r then [(wq_sst_id r, \<lparr>ar_sst = Some sst, ar_success = True, ar_error_message = ''''\<rparr>)] else [])"
    "ws_total_writes (aw_stats w') = ws_total_writes (aw_stats w) + 2"
proof -
  obtain sst st g where s: "WriteSync env we (wq_memtable r) (wq_sst_id r) w =
      Some (Inr sst, w\<lparr>aw_files := (aw_files w)(int (wq_sst_id r) \<mapsto> sst_data sst), aw_counter := g, aw_stats := st\<rparr>)"
    "sst_id sst = int (wq_sst_id r)" "table_ok env ((aw_files w)(int (wq_sst_id r) \<mapsto> sst_data sst)) sst es"
    "ws_total_writes st = ws_total_writes (aw_stats w) + 1"
    by (rule WriteSync_ok [OF assms])
  define w' where "w' = w\<lparr>aw_files := (aw_files w)(int (wq_sst_id r) \<mapsto> sst_data sst), aw_counter := g, aw_phase := WTop,
    aw_stats := count_result True (we_latency we (wq_sst_id r)) st,
    aw_results := aw_results w @ (if wq_callback r then [(wq_sst_id r, \<lparr>ar_sst = Some sst, ar_success = True, ar_error_message = ''''\<rparr>)] else [])\<rparr>"
  have "perform env we r w = Some w'" using s(1) by (simp add: perform_def w'_def Let_def)
  moreover have "ws_total_writes (aw_stats w') = ws_total_writes (aw_stats w) + 2" using s(4) by (simp add: w'_def count_result_def Let_def)
  ultimately show thesis using that [of w' sst] s(2,3) by (simp add: w'_def)
qed

text \<open>Three steps take a request from the queue and write it, if the thread runs.\<close>

lemma writer_round:
  assumes "aw_phase w = WTop" "aw_running w" "aw_queue w = r # rs"
  shows "writer_steps env we (3 + n) w = do { w \<leftarrow> perform env we r (w\<lparr>aw_queue := rs, aw_phase := WWrite r\<rparr>); writer_steps env we n w }"
  using assms by (cases "perform env we r (w\<lparr>aw_queue := rs, aw_phase := WWrite r\<rparr>)") (simp_all add: numeral_3_eq_3 writer_step_def)

lemma stored_other: "stored env fs i es \<Longrightarrow> i \<noteq> j \<Longrightarrow> stored env (fs(j \<mapsto> d)) i es"
  by (simp add: stored_def sst_Load_def)

text \<open>The results of the callbacks for a list of requests.\<close>

definition callbacks :: "WriteRequest list \<Rightarrow> nat list" where
  "callbacks rs = map wq_sst_id (filter wq_callback rs)"

lemma writer_rounds:
  assumes "list_all2 (request_ok env we cfg) rs ess" "distinct (map wq_sst_id rs)"
    and "aw_config w = cfg" "aw_phase w = WTop" "aw_running w" "aw_queue w = rs @ qs"
  shows "\<exists>w' xs. writer_steps env we (3 * length rs) w = Some w' \<and> aw_phase w' = WTop \<and> aw_queue w' = qs \<and> aw_results w' = aw_results w @ xs \<and>
    map fst xs = callbacks rs \<and> (\<forall>x \<in> set xs. ar_success (snd x)) \<and>
    list_all2 (\<lambda>r es. stored env (aw_files w') (int (wq_sst_id r)) es) rs ess \<and>
    (\<forall>i. i \<notin> int ` wq_sst_id ` set rs \<longrightarrow> aw_files w' i = aw_files w i)"
  using assms
proof (induction rs ess arbitrary: w rule: list_all2_induct)
  case Nil
  then show ?case by (auto simp: callbacks_def)
next
  case (Cons r rs es ess)
  let ?w = "w\<lparr>aw_queue := rs @ qs, aw_phase := WWrite r\<rparr>"
  have "request_ok env we (aw_config ?w) r es" using Cons.hyps(1) Cons.prems(2) by simp
  then obtain sst w1 where w1: "perform env we r ?w = Some w1" "aw_phase w1 = WTop" "aw_queue w1 = aw_queue ?w" "aw_running w1 = aw_running ?w"
    "aw_config w1 = aw_config ?w" "aw_files w1 = (aw_files ?w)(int (wq_sst_id r) \<mapsto> sst_data sst)" "table_ok env (aw_files w1) sst es"
    "sst_id sst = int (wq_sst_id r)"
    "aw_results w1 = aw_results ?w @ (if wq_callback r then [(wq_sst_id r, \<lparr>ar_sst = Some sst, ar_success = True, ar_error_message = ''''\<rparr>)] else [])"
    by (rule perform_ok)
  have "aw_config w1 = cfg" using w1(5) Cons.prems(2) by simp
  then obtain w' xs where w': "writer_steps env we (3 * length rs) w1 = Some w'" "aw_phase w' = WTop" "aw_queue w' = qs" "aw_results w' = aw_results w1 @ xs"
    "map fst xs = callbacks rs" "\<forall>x \<in> set xs. ar_success (snd x)"
    "list_all2 (\<lambda>r es. stored env (aw_files w') (int (wq_sst_id r)) es) rs ess"
    "\<forall>i. i \<notin> int ` wq_sst_id ` set rs \<longrightarrow> aw_files w' i = aw_files w1 i"
    using Cons.IH [of w1] Cons.hyps(2) Cons.prems w1(2-4) by auto
  have step: "writer_steps env we (3 * length (r # rs)) w = Some w'"
    using writer_round [OF Cons.prems(3,4), of r "rs @ qs" env we "3 * length rs"] Cons.prems(5) w1(1) w'(1) by simp
  have new: "int (wq_sst_id r) \<notin> int ` wq_sst_id ` set rs" using Cons.prems(1) by auto
  have "stored env (aw_files w1) (int (wq_sst_id r)) es" using w1(7,8) by (simp add: table_ok_def)
  moreover have "aw_files w' (int (wq_sst_id r)) = aw_files w1 (int (wq_sst_id r))" using w'(8) new by blast
  ultimately have "stored env (aw_files w') (int (wq_sst_id r)) es" by (simp add: stored_def sst_Load_def)
  then show ?case using step w' w1(6,9)
    by (intro exI [of _ w'] exI [of _ "(if wq_callback r then [(wq_sst_id r, \<lparr>ar_sst = Some sst, ar_success = True, ar_error_message = ''''\<rparr>)] else []) @ xs"]) (auto simp: callbacks_def)
qed

section \<open>Properties\<close>

text \<open>
  C34: The background writer writes every queued memtable, in the order of the requests: the thread returns to its loop with an
  empty queue after three sections per request, the callbacks get their successful results in that order, and the file of every
  request can be loaded and holds the entries of its memtable.  No other file is changed.
\<close>

theorem async_writer_writes:
  assumes "list_all2 (request_ok env we cfg) rs ess" "distinct (map wq_sst_id rs)"
  shows "\<exists>w' xs. writer_steps env we (3 * length rs) (fold (\<lambda>r. WriteAsync (wq_memtable r) (wq_sst_id r) (wq_callback r)) rs (writer_new cfg fs g)) = Some w' \<and>
    aw_phase w' = WTop \<and> aw_queue w' = [] \<and> aw_results w' = xs \<and> map fst xs = callbacks rs \<and> (\<forall>x \<in> set xs. ar_success (snd x)) \<and>
    list_all2 (\<lambda>r es. stored env (aw_files w') (int (wq_sst_id r)) es) rs ess \<and>
    (\<forall>i. i \<notin> int ` wq_sst_id ` set rs \<longrightarrow> aw_files w' i = fs i)"
proof -
  have queue: "fold (\<lambda>r. WriteAsync (wq_memtable r) (wq_sst_id r) (wq_callback r)) rs w = w\<lparr>aw_queue := aw_queue w @ rs\<rparr>" for w
    by (induction rs arbitrary: w) (simp_all add: WriteAsync_def)
  let ?w = "writer_new cfg fs g\<lparr>aw_queue := rs\<rparr>"
  have "fold (\<lambda>r. WriteAsync (wq_memtable r) (wq_sst_id r) (wq_callback r)) rs (writer_new cfg fs g) = ?w" by (simp add: queue writer_new_def)
  moreover from writer_rounds [OF assms, of ?w "[]"] have "\<exists>w' xs. writer_steps env we (3 * length rs) ?w = Some w' \<and> aw_phase w' = WTop \<and> aw_queue w' = [] \<and>
    aw_results w' = [] @ xs \<and> map fst xs = callbacks rs \<and> (\<forall>x \<in> set xs. ar_success (snd x)) \<and>
    list_all2 (\<lambda>r es. stored env (aw_files w') (int (wq_sst_id r)) es) rs ess \<and> (\<forall>i. i \<notin> int ` wq_sst_id ` set rs \<longrightarrow> aw_files w' i = fs i)"
    by (simp add: writer_new_def)
  ultimately show ?thesis by simp
qed

definition quiet_env :: write_env where
  "quiet_env = \<lparr>we_throws = (\<lambda>i. None), we_latency = (\<lambda>i. 1000)\<rparr>"

definition plain_writer :: WriterConfig where
  "plain_writer = \<lparr>wc_enable_compression = False, wc_compression = no_compression\<rparr>"

lemma example_request:
  obtains m where "request_ok example_env quiet_env plain_writer \<lparr>wq_memtable = m, wq_sst_id = 7, wq_callback = True\<rparr> [(''a'', ''1'')]"
proof -
  obtain m g where "mt_Put 0 mt_new ''a'' ''1'' = Some (m, g)" "mt_holds m (sput ''a'' ''1'' [])" using mt_Put_holds [OF mt_new_holds] by blast
  then have "request_ok example_env quiet_env plain_writer \<lparr>wq_memtable = m, wq_sst_id = 7, wq_callback = True\<rparr> [(''a'', ''1'')]"
    by (simp add: request_ok_def quiet_env_def plain_writer_def no_compression_def codec_ok_def sst_bound_def bloom_size_def example_env_def)
  then show thesis by (rule that)
qed

theorem async_writer_writes_witness:
  "\<exists>m w' x. writer_steps example_env quiet_env 3 (WriteAsync m 7 True (writer_new plain_writer Map.empty 0)) = Some w' \<and>
    aw_results w' = [(7, x)] \<and> ar_success x \<and> stored example_env (aw_files w') 7 [(''a'', ''1'')]"
proof -
  obtain m where "request_ok example_env quiet_env plain_writer \<lparr>wq_memtable = m, wq_sst_id = 7, wq_callback = True\<rparr> [(''a'', ''1'')]" by (rule example_request)
  then have "list_all2 (request_ok example_env quiet_env plain_writer) [\<lparr>wq_memtable = m, wq_sst_id = 7, wq_callback = True\<rparr>] [[(''a'', ''1'')]]" by simp
  from async_writer_writes [OF this, of Map.empty 0] obtain w' xs where "writer_steps example_env quiet_env 3 (WriteAsync m 7 True (writer_new plain_writer Map.empty 0)) = Some w'"
    "aw_results w' = xs" "map fst xs = [7]" "\<forall>x \<in> set xs. ar_success (snd x)" "stored example_env (aw_files w') 7 [(''a'', ''1'')]"
    by (auto simp: callbacks_def)
  moreover from this obtain x where "xs = [(7, x)]" "ar_success x" by (cases xs) auto
  ultimately show ?thesis by (intro exI [of _ m] exI [of _ w'] exI [of _ x]) simp
qed

text \<open>
  A buffer that is handed out is in use by nobody else, and stays so until it is freed; the pool runs dry only when every
  buffer is in use.
\<close>

theorem buffers_exclusive:
  assumes "bufpool_ok p" "buf_Allocate p = (r, p')"
  shows "bufpool_ok p' \<and> (case r of None \<Rightarrow> p' = p \<and> buf_available p = 0 | Some a \<Rightarrow> a \<notin> in_use p \<and> in_use p' = insert a (in_use p)) \<and>
    (\<forall>a. bufpool_ok (buf_Free a p) \<and> in_use (buf_Free a p) = in_use p - {a})"
proof -
  obtain bs where t: "take_buffer (ib_buffers p) = (r, bs)" "p' = p\<lparr>ib_buffers := bs\<rparr>" using assms(2) by (auto simp: buf_Allocate_def split: prod.splits)
  show ?thesis
    using take_buffer_spec [OF t(1)] free_buffer_spec [of "ib_buffers p"] assms(1) t(2)
    by (cases r) (simp_all add: bufpool_ok_def in_use_def buf_available_def buf_Free_def)
qed

section \<open>Defects\<close>

text \<open>
  The destructor drops requests: the thread leaves its loop as soon as the flag is cleared, after the request it takes
  when it wakes up; the rest of the queue is never written.
\<close>

theorem destructor_drops_requests:
  assumes "aw_phase w = WWait" "aw_queue w = r # rs" "request_ok env we (aw_config w) r es"
  shows "\<exists>w'. writer_steps env we n w' = Some w' \<and> writer_steps env we 3 (writer_stop w) = Some w' \<and> aw_phase w' = WEnded \<and> aw_queue w' = rs"
proof -
  let ?w = "writer_stop w\<lparr>aw_queue := rs, aw_phase := WWrite r\<rparr>"
  have "request_ok env we (aw_config ?w) r es" using assms(3) by (simp add: writer_stop_def)
  then obtain w1 where w1: "perform env we r ?w = Some w1" "aw_phase w1 = WTop" "aw_queue w1 = aw_queue ?w" "aw_running w1 = aw_running ?w"
    by (rule perform_ok)
  have stay: "writer_steps env we n (w1\<lparr>aw_phase := WEnded\<rparr>) = Some (w1\<lparr>aw_phase := WEnded\<rparr>)" by (cases n) (simp_all add: writer_step_def)
  have "writer_steps env we 3 (writer_stop w) = Some (w1\<lparr>aw_phase := WEnded\<rparr>)"
    using assms(1,2) w1 by (simp add: numeral_3_eq_3 writer_step_def writer_stop_def)
  then show ?thesis using stay w1(3) by (intro exI [of _ "w1\<lparr>aw_phase := WEnded\<rparr>"]) simp
qed

text \<open>\<^verbatim>\<open>Flush\<close> returns while the last request is still being written, and a successful write counts twice.\<close>

theorem flush_returns_early: "aw_queue w = [r] \<Longrightarrow> aw_phase w = WWait \<Longrightarrow> \<exists>w'. writer_step env we w = Some (Some w') \<and> Flush_returns w' \<and> aw_phase w' = WWrite r"
  by (simp add: writer_step_def Flush_returns_def)

theorem writes_counted_twice:
  assumes "request_ok env we (aw_config w) r es"
  shows "\<exists>w'. perform env we r w = Some w' \<and> ws_total_writes (aw_stats w') = ws_total_writes (aw_stats w) + 2"
  using perform_ok [OF assms] by metis

end
