(* ===== verification/SimpleSkipList.thy ===== *)
theory SimpleSkipList
  imports MemTable
begin

text \<open>
  The second skip list of the repository, \<^verbatim>\<open>src/mokv/lsm/skiplist_simple.hpp\<close>.  Its nodes, \<^verbatim>\<open>Get\<close>, \<^verbatim>\<open>Delete\<close>, iteration and
  random levels are those of \<open>SkipList\<close>, line for line; its \<^verbatim>\<open>Put\<close> is its own: it extends the nodes on the search path instead of
  remembering a predecessor per level, and starts the insertion at the predecessor of level 0.
  The lemmas compare it with the \<^verbatim>\<open>Put\<close> of \<open>SkipList\<close>.
\<close>

section \<open>The class\<close>

definition simple_new :: skiplist where "simple_new = sl_new"

definition simple_Get :: "skiplist \<Rightarrow> string \<Rightarrow> string option option" where "simple_Get s key = sl_Get s key"

definition simple_Delete :: "skiplist \<Rightarrow> string \<Rightarrow> skiplist option" where "simple_Delete s key = sl_Delete s key"

definition simple_RandLevel :: "64 word \<Rightarrow> nat \<times> 64 word" where "simple_RandLevel g = RandLevel g"

definition simple_entries :: "skiplist \<Rightarrow> (string \<times> string) list option" where "simple_entries s = sl_entries s"

text \<open>\<^verbatim>\<open>nexts.resize(n, nullptr)\<close>\<close>

definition resize_nexts :: "nat \<Rightarrow> nat \<Rightarrow> heap \<Rightarrow> heap option" where
  "resize_nexts n a h = do { x \<leftarrow> h a; Some (h(a \<mapsto> x\<lparr>nexts := take n (nexts x) @ replicate (n - length (nexts x)) None\<rparr>)) }"

fun resize_path :: "nat \<Rightarrow> nat list \<Rightarrow> heap \<Rightarrow> heap option" where
  "resize_path n [] h = Some h"
| "resize_path n (a # as) h = do { h \<leftarrow> resize_nexts n a h; resize_path n as h }"

text \<open>The head is extended, with the nodes that the search passed on the levels above 0, and the position is searched again.\<close>

definition simple_extend :: "skiplist \<Rightarrow> string \<Rightarrow> nat \<Rightarrow> nat list \<Rightarrow> (skiplist \<times> nat) option" where
  "simple_extend s key new_level prevs =
     (if length prevs < new_level
      then do { h \<leftarrow> resize_nexts new_level (sl_head s) (sl_heap s);
                h \<leftarrow> resize_path new_level (rev (tl prevs)) h;
                let s = s\<lparr>sl_heap := h\<rparr>;
                prevs \<leftarrow> search s key;
                Some (s, prevs ! 0) }
      else Some (s, prevs ! 0))"

text \<open>The insertion loop, from level \<open>n - 1\<close> down, starting at \<open>p\<close>.\<close>

fun simple_link :: "nat \<Rightarrow> nat \<Rightarrow> string \<Rightarrow> nat \<Rightarrow> nat \<Rightarrow> heap \<Rightarrow> heap option" where
  "simple_link a new_level key 0 p h = Some h"
| "simple_link a new_level key (Suc level) p h =
     do { p \<leftarrow> advance h key level p;
          h \<leftarrow> (if level < new_level
                then do { nx \<leftarrow> next_at h level p; h \<leftarrow> set_next h a level nx; set_next h p level (Some a) }
                else Some h);
          simple_link a new_level key level p h }"

definition simple_insert :: "skiplist \<Rightarrow> string \<Rightarrow> string \<Rightarrow> nat \<Rightarrow> nat list \<Rightarrow> skiplist option" where
  "simple_insert s key value new_level prevs =
     do { (s, p) \<leftarrow> simple_extend s key new_level prevs;
          n \<leftarrow> head_levels s;
          let a = sl_fresh s;
          let h = (sl_heap s)(a \<mapsto> \<lparr>nkey = key, nval = value, nexts = replicate (max n new_level) None\<rparr>);
          h \<leftarrow> simple_link a new_level key n p h;
          Some (s\<lparr>sl_heap := h, sl_fresh := Suc a, sl_size := sl_size s + 1,
                  sl_binary_size := sl_binary_size s + (of_nat (length key) + of_nat (length value))\<rparr>) }"

text \<open>The arrays of the search path have 32 elements.\<close>

definition simple_Put :: "64 word \<Rightarrow> skiplist \<Rightarrow> string \<Rightarrow> string \<Rightarrow> (skiplist \<times> 64 word) option" where
  "simple_Put g s key value =
     do { prevs \<leftarrow> search s key;
          if 33 < length prevs then None else
          do { nx \<leftarrow> next_at (sl_heap s) 0 (prevs ! 0);
               found \<leftarrow> (case nx of
                          None \<Rightarrow> Some None
                        | Some q \<Rightarrow> do { m \<leftarrow> sl_heap s q; Some (if nkey m = key then Some (q, m) else None) });
               case found of
                 Some (q, m) \<Rightarrow>
                   Some (s\<lparr>sl_heap := (sl_heap s)(q \<mapsto> m\<lparr>nval := value\<rparr>),
                           sl_binary_size := sl_binary_size s + (of_nat (length value) - of_nat (length (nval m)))\<rparr>, g)
               | None \<Rightarrow>
                   do { let (new_level, g') = simple_RandLevel g;
                        s' \<leftarrow> simple_insert s key value new_level prevs;
                        Some (s', g') } } }"

section \<open>Comparison with the other list\<close>

text \<open>Where a search loop stops, it stops again.\<close>

definition stops :: "heap \<Rightarrow> string \<Rightarrow> nat \<Rightarrow> nat \<Rightarrow> nat option \<Rightarrow> bool" where
  "stops h key level p nx =
     (next_at h level p = Some nx \<and> (case nx of None \<Rightarrow> True | Some q \<Rightarrow> \<exists>m. h q = Some m \<and> \<not> nkey m < key))"

lemma advance_stops:
  assumes "advance h key level p = Some q"
  shows "\<exists>nx. stops h key level q nx"
proof (rule advance.raw_induct [where P = "\<lambda>h key level p q. \<exists>nx. stops h key level q nx", OF _ assms])
  fix f h key level p q
  assume rec: "\<And>h key level p q. f h key level p = Some q \<Longrightarrow> \<exists>nx. stops h key level q nx"
    and body: "do { nx \<leftarrow> next_at h level p; case nx of None \<Rightarrow> Some p | Some r \<Rightarrow> do { m \<leftarrow> h r; if nkey m < key then f h key level r else Some p } } = Some q"
  obtain nx where nx: "next_at h level p = Some nx" using body by (cases "next_at h level p") auto
  show "\<exists>nx. stops h key level q nx"
  proof (cases nx)
    case None
    then show ?thesis using body nx by (auto simp: stops_def)
  next
    case (Some r)
    then obtain m where m: "h r = Some m" using body nx by (cases "h r") auto
    show ?thesis
    proof (cases "nkey m < key")
      case True
      then show ?thesis using rec body nx Some m by simp
    next
      case False
      then have "p = q" using body nx Some m by simp
      then show ?thesis using nx Some m False by (auto simp: stops_def)
    qed
  qed
qed

lemma stops_advance: "stops h key level p nx \<Longrightarrow> advance h key level p = Some p"
  by (subst advance.simps) (auto simp: stops_def split: option.splits)

lemma stops_new_node:
  assumes "stops h key level p nx" "a \<notin> dom h"
  shows "stops (h(a \<mapsto> x)) key level p nx"
proof -
  have "p \<noteq> a" using assms by (auto simp: stops_def next_at_def domIff)
  moreover have "q \<noteq> a" if "nx = Some q" for q using that assms by (auto simp: stops_def domIff)
  ultimately show ?thesis using assms(1) by (auto simp: stops_def next_at_def split: option.splits)
qed

lemma simple_insert_eq:
  assumes levels: "head_levels s = Some 1" and search: "search s key = Some prevs" and fresh: "sl_fresh s \<notin> dom (sl_heap s)"
  shows "simple_insert s key value 1 prevs = insert_node s key value 1 prevs"
proof -
  obtain p where adv: "advance (sl_heap s) key 0 (sl_head s) = Some p" and prevs: "prevs = [p]"
    using search levels by (auto simp: search_def split: bind_splits if_splits)
  obtain nx where nx: "stops (sl_heap s) key 0 p nx" using advance_stops [OF adv] by blast
  let ?h = "(sl_heap s)(sl_fresh s \<mapsto> \<lparr>nkey = key, nval = value, nexts = [None]\<rparr>)"
  have "advance ?h key 0 p = Some p" using stops_advance [OF stops_new_node [OF nx fresh]] .
  then show ?thesis using levels prevs by (simp add: simple_insert_def simple_extend_def insert_node_def Let_def bind_assoc)
qed

lemma length_locate: "locate h key n p = Some qs \<Longrightarrow> length qs = n"
  by (induction n arbitrary: p qs) (auto split: bind_splits)

lemma head_levels_rep: "sl_rep s es \<Longrightarrow> head_levels s = Some (sl_levels s)"
  by (cases "sl_heap s (sl_head s)") (auto simp: sl_rep_def rep_def head_levels_def height_def)

text \<open>Before a new node is inserted the two operations are the same.\<close>

lemma simple_Put_found:
  assumes "sl_Get s k = Some (Some x)" "head_levels s = Some n" "n \<le> 33"
  shows "simple_Put g s k v = sl_Put RandLevel g s k v"
proof -
  obtain prevs where p: "search s k = Some prevs" using assms(1) by (auto simp: sl_Get_def split: bind_splits)
  have len: "length prevs \<le> 33" using p assms(2,3) length_locate by (fastforce simp: search_def split: bind_splits if_splits)
  obtain nx where nx: "next_at (sl_heap s) 0 (prevs ! 0) = Some nx" using assms(1) p by (auto simp: sl_Get_def split: bind_splits)
  obtain q m where "nx = Some q" "sl_heap s q = Some m" "nkey m = k"
    using assms(1) p nx by (auto simp: sl_Get_def split: bind_splits option.splits if_splits)
  then show ?thesis using p len nx by (simp add: simple_Put_def sl_Put_def)
qed

lemma simple_Put_new:
  assumes "head_levels s = Some 1" "sl_fresh s \<notin> dom (sl_heap s)" "fst (RandLevel g) = 1"
  shows "simple_Put g s k v = sl_Put RandLevel g s k v"
proof (cases "search s k")
  case None
  then show ?thesis by (simp add: simple_Put_def sl_Put_def)
next
  case (Some prevs)
  have len: "length prevs \<le> 33" using Some assms(1) length_locate by (fastforce simp: search_def split: bind_splits if_splits)
  obtain g' where g: "RandLevel g = (1, g')" using assms(3) by (cases "RandLevel g") auto
  show ?thesis using Some len g simple_insert_eq [OF assms(1) Some assms(2), of v]
    by (auto simp: simple_Put_def sl_Put_def simple_RandLevel_def split: option.splits bind_splits)
qed

section \<open>Properties\<close>

text \<open>
  On a list of a single level whose next random level is 1, and for every key that is already in the list, the \<^verbatim>\<open>Put\<close> of the simple
  list is that of the memtable's list: the results are equal, and it inserts or replaces exactly its key.
\<close>

theorem simple_Put_equivalent:
  assumes "mt_holds s es" "sl_levels s = 1 \<and> fst (RandLevel g) = 1 \<or> k \<in> fst ` set es"
  shows "simple_Put g s k v = mt_Put g s k v \<and> (\<exists>s' g'. simple_Put g s k v = Some (s', g') \<and> mt_holds s' (sput k v es) \<and> simple_Get s' k = Some (Some v))"
proof -
  have rep: "sl_rep s es" "sl_levels s \<le> 2" using assms(1) by (simp_all add: mt_holds_def)
  note levels = head_levels_rep [OF rep(1)]
  have "simple_Put g s k v = sl_Put RandLevel g s k v"
  proof (cases "k \<in> fst ` set es")
    case True
    then obtain x where "map_of es k = Some x" by (metis map_of_eq_None_iff not_None_eq)
    then have "sl_Get s k = Some (Some x)" using sl_Get_rep [OF rep(1)] by simp
    then show ?thesis using simple_Put_found [OF _ levels] rep(2) by simp
  next
    case False
    have "sl_fresh s \<notin> dom (sl_heap s)" using rep(1) by (auto simp: sl_rep_def)
    then show ?thesis using simple_Put_new [of s g k v] False assms(2) levels by simp
  qed
  then have eq: "simple_Put g s k v = mt_Put g s k v" by (simp add: mt_Put_def)
  obtain s' g' where s': "mt_Put g s k v = Some (s', g')" "mt_holds s' (sput k v es)" using mt_Put_holds [OF assms(1)] by blast
  then have "simple_Get s' k = Some (Some v)" using mt_reads(2) [OF s'(2), of k] by (simp add: simple_Get_def mt_Get_def)
  then show ?thesis using eq s' by auto
qed

lemma rand_levels: "RandLevel 3 = (1, 4)" "RandLevel 4 = (2, 6)" "RandLevel 1 = (1, 2)"
  by (simp_all add: RandLevel_def rand_level_loop.simps [of 3] rand_level_loop.simps [of 4] rand_level_loop.simps [of 5] rand_level_loop.simps [of 1] GlobalRand_def)

theorem simple_Put_equivalent_witness:
  "\<exists>s g. simple_Put 1 simple_new ''a'' ''1'' = Some (s, g) \<and> simple_Get s ''a'' = Some (Some ''1'')"
proof -
  have "sl_levels mt_new = 1" by (simp add: mt_new_def sl_new_def height_def)
  then have "sl_levels mt_new = 1 \<and> fst (RandLevel 1) = 1 \<or> ''a'' \<in> fst ` set []" by (simp add: rand_levels)
  from simple_Put_equivalent [OF mt_new_holds this, of "''1''"] show ?thesis unfolding simple_new_def mt_new_def by blast
qed

text \<open>
  A node of level 2 that follows a node of level 1 cannot be inserted: the loop starts at its predecessor on level 0 and reads
  the pointer of level 1 of that node, which has none.  The levels are a counter, so that this happens within the first insertions
  of ascending keys.
\<close>

theorem simple_Put_out_of_range:
  assumes "RandLevel g = (1, g1)" "RandLevel g1 = (2, g2)" "k1 < k2"
  shows "do { (s, g) \<leftarrow> simple_Put g simple_new k1 v1; simple_Put g s k2 v2 } = None"
proof -
  define s where "s = \<lparr>sl_heap = [0 \<mapsto> \<lparr>nkey = [], nval = [], nexts = [Some 1]\<rparr>, 1 \<mapsto> \<lparr>nkey = k1, nval = v1, nexts = [None]\<rparr>], sl_head = 0,
    sl_fresh = 2, sl_size = 1, sl_binary_size = of_nat (length k1) + of_nat (length v1)\<rparr>"
  note run = search_def head_levels_def next_at_def set_next_def Let_def
  have first: "simple_Put g simple_new k1 v1 = Some (s, g1)"
    by (simp add: simple_Put_def simple_new_def sl_new_def run advance.simps [where p = 0] assms(1) simple_RandLevel_def simple_insert_def simple_extend_def s_def fun_upd_twist)
  have k: "\<not> k2 < k1" "k1 \<noteq> k2" using assms(3) by auto
  have "search s k2 = Some [1]"
    using assms(3) by (simp add: s_def run advance.simps [where p = 0] advance.simps [where p = 1] advance.simps [where p = "Suc 0"])
  moreover have "simple_insert s k2 v2 2 [1] = None"
    using assms(3) by (simp add: s_def run simple_insert_def simple_extend_def resize_nexts_def numeral_2_eq_2 advance.simps [where p = 0] advance.simps [where p = "Suc 0"])
  ultimately have "simple_Put g1 s k2 v2 = None"
    using k by (simp add: simple_Put_def simple_RandLevel_def assms(2)) (simp add: s_def next_at_def)
  then show ?thesis using first by simp
qed

theorem simple_Put_out_of_range_witness:
  "do { (s, g) \<leftarrow> simple_Put 3 simple_new ''a'' ''1''; simple_Put g s ''b'' ''2'' } = None"
  by (rule simple_Put_out_of_range [OF rand_levels(1,2)]) simp

end
