(* ===== verification/Resources.thy ===== *)
theory Resources
  imports Config_Theorems BlockCache
begin

text \<open>
  \<^verbatim>\<open>ResourceManager\<close> of \<^verbatim>\<open>src/mokv/resource_manager.hpp\<close>: the addresses, the database and the pod of a process, and the settings
  that the database gets from a configuration, there and in \<^verbatim>\<open>src/mokv/kvstore.cpp\<close>.
\<close>

section \<open>Settings of the database\<close>

text \<open>All fields of the configuration of the database: those that the operations of \<open>DB\<close> read, the directory and the cache.\<close>

record DBSettings = DBConfig +
  cfg_data_dir :: string
  cfg_enable_block_cache :: bool
  cfg_block_cache :: CacheConfig

definition default_settings :: DBSettings where
  "default_settings =
     \<lparr>cfg_compression = \<lparr>cc_type = kLZ4, cc_enable = True, cc_min_size = 64\<rparr>, cfg_memtable_max_size = 4096 * 1024 - 1024 * 1024,
      cfg_data_dir = ''.'', cfg_enable_block_cache = True, cfg_block_cache = default_cache_config\<rparr>"

definition BuildDBConfig :: "MokvConfig \<Rightarrow> DBSettings" where
  "BuildDBConfig config =
     default_settings\<lparr>cfg_data_dir := mc_data_dir config, cfg_memtable_max_size := GetMemTableSizeBytes config,
       cfg_enable_block_cache := 0 < mc_block_cache_size_mb config,
       cfg_block_cache := default_cache_config\<lparr>cfg_max_capacity := GetBlockCacheSizeBytes config\<rparr>\<rparr>"

definition db_block_cache :: "DBSettings \<Rightarrow> BlockCache option" where
  "db_block_cache cfg = (if cfg_enable_block_cache cfg then Some (bc_new (cfg_block_cache cfg)) else None)"

text \<open>The constructor of the database replaces an empty directory by the current one.\<close>

definition db_directory :: "DBSettings \<Rightarrow> string" where
  "db_directory cfg = (if cfg_data_dir cfg = [] then ''.'' else cfg_data_dir cfg)"

text \<open>The cache interface of the database.\<close>

definition db_GetCacheStats :: "BlockCache option \<Rightarrow> CacheStats" where
  "db_GetCacheStats c = (case c of None \<Rightarrow> zero_stats | Some c \<Rightarrow> bc_stats c)"

definition db_ClearCache :: "BlockCache option \<Rightarrow> BlockCache option" where
  "db_ClearCache c = map_option bc_Clear c"

definition db_GetCacheSize :: "BlockCache option \<Rightarrow> 64 word" where
  "db_GetCacheSize c = (case c of None \<Rightarrow> 0 | Some c \<Rightarrow> st_current_size (bc_stats c))"

text \<open>With or without a cache, clearing leaves size 0 and keeps the counters of hits and misses.\<close>

lemma db_ClearCache_stats:
  "db_GetCacheSize (db_ClearCache c) = 0"
  "st_hit_count (db_GetCacheStats (db_ClearCache c)) = st_hit_count (db_GetCacheStats c)"
  "st_miss_count (db_GetCacheStats (db_ClearCache c)) = st_miss_count (db_GetCacheStats c)"
  by (cases c; simp add: db_GetCacheSize_def db_ClearCache_def db_GetCacheStats_def bc_Clear_def)+

section \<open>The resources of a process\<close>

record ResourceManager =
  rm_config_manager :: ConfigManager
  rm_db :: "DB option"
  rm_pod :: "Pod option"

definition ConfigManager_new :: ConfigManager where
  "ConfigManager_new = \<lparr>cm_ready = False, cm_addresses = [], cm_local_address = cleared_address\<rparr>"

text \<open>The constructor: the argument is the content of \<^verbatim>\<open>raft.cfg\<close>, if it can be read.\<close>

definition ResourceManager_new :: "string option \<Rightarrow> ResourceManager" where
  "ResourceManager_new content =
     (let m = (case ConfigManager_Load content ConfigManager_new of
                 (True, m) \<Rightarrow> m
               | (False, m) \<Rightarrow> snd (LoadFromMokvConfig DefaultConfig))
      in \<lparr>rm_config_manager = m, rm_db = None, rm_pod = None\<rparr>)"

definition LoadConfig :: "MokvConfig \<Rightarrow> ResourceManager \<Rightarrow> bool \<times> ResourceManager" where
  "LoadConfig config r =
     (case LoadFromMokvConfig config of (ok, m) \<Rightarrow> (ok, r\<lparr>rm_config_manager := m\<rparr>))"

definition LoadConfig_path :: "string option \<Rightarrow> ResourceManager \<Rightarrow> bool \<times> ResourceManager" where
  "LoadConfig_path content r =
     (case ConfigManager_Load content (rm_config_manager r) of (ok, m) \<Rightarrow> (ok, r\<lparr>rm_config_manager := m\<rparr>))"

text \<open>Opening the database from what its directory holds.\<close>

definition InitDb ::
    "'c sst_env \<Rightarrow> DBSettings \<Rightarrow> (string \<Rightarrow> files \<times> bytes option \<times> 64 word) \<Rightarrow> ResourceManager \<Rightarrow> ResourceManager option" where
  "InitDb env cfg disk r =
     do { d \<leftarrow> db_open env (DBConfig.truncate cfg) (disk (db_directory cfg)); Some (r\<lparr>rm_db := Some d\<rparr>) }"

definition InitDb_config ::
    "'c sst_env \<Rightarrow> MokvConfig \<Rightarrow> (string \<Rightarrow> files \<times> bytes option \<times> 64 word) \<Rightarrow> ResourceManager \<Rightarrow> ResourceManager option" where
  "InitDb_config env config disk r = InitDb env (BuildDBConfig config) disk r"

text \<open>The pod reads its log from the content of the file \<open>meta\<close>; without a database the pod has no sink (\<open>None\<close>).\<close>

definition InitPod :: "bytes option \<Rightarrow> 64 word \<Rightarrow> ResourceManager \<Rightarrow> ResourceManager option" where
  "InitPod meta now r =
     do { d \<leftarrow> rm_db r; l \<leftarrow> log_open meta;
          Some (r\<lparr>rm_pod := Some (pod_new (ad_id (cm_local_address (rm_config_manager r)))
                                    (cm_addresses (rm_config_manager r)) l d now)\<rparr>) }"

definition CloseDb :: "ResourceManager \<Rightarrow> ResourceManager" where
  "CloseDb r = r\<lparr>rm_db := None\<rparr>"

definition Close :: "ResourceManager \<Rightarrow> ResourceManager" where
  "Close r = CloseDb (r\<lparr>rm_pod := None\<rparr>)"

text \<open>A port is narrowed to 16 bits.\<close>

definition peer_of :: "Address \<Rightarrow> RaftPeer" where
  "peer_of a = \<lparr>pr_id = sint (ad_id a), pr_host = ad_ip a, pr_port = unat (ad_port a) mod 2 ^ 16\<rparr>"

definition testing_peer :: "32 word \<Rightarrow> Address \<Rightarrow> MokvConfig \<Rightarrow> MokvConfig" where
  "testing_peer local_id a c =
     (let c = c\<lparr>mc_peers := mc_peers c @ [peer_of a]\<rparr>
      in if ad_id a = local_id then c\<lparr>mc_host := pr_host (peer_of a), mc_port := pr_port (peer_of a)\<rparr> else c)"

definition testing_config :: "Address list \<Rightarrow> 32 word \<Rightarrow> MokvConfig" where
  "testing_config addresses local_id =
     fold (testing_peer local_id) addresses (DefaultConfig\<lparr>mc_node_id := sint local_id, mc_peers := []\<rparr>)"

definition ConfigureForTesting :: "Address list \<Rightarrow> 32 word \<Rightarrow> ResourceManager \<Rightarrow> ResourceManager" where
  "ConfigureForTesting addresses local_id r = snd (LoadConfig (testing_config addresses local_id) r)"

section \<open>Properties\<close>

definition address_ok :: "Address \<Rightarrow> bool" where
  "address_ok a = (ad_ip a \<noteq> [] \<and> 0 < unat (ad_port a) \<and> unat (ad_port a) < 2 ^ 16)"

lemma address_of_peer_of: "address_ok a \<Longrightarrow> address_of (peer_of a) = a"
  by (simp add: address_ok_def address_of_def peer_of_def)

lemma sint_small:
  assumes "unat (w :: 32 word) < 2 ^ 16"
  shows "sint w = int (unat w)"
proof -
  have "uint w = int (unat w)" by simp
  moreover have "unat w < 65536" using assms by simp
  ultimately have u: "uint w < 65536" by linarith
  have "- 2147483648 \<le> uint w" "uint w < 2147483648" using u uint_ge_0 [of w] by linarith+
  then have "signed_take_bit 31 (uint w) = uint w" by (simp add: signed_take_bit_int_eq_self_iff)
  then show ?thesis by (simp add: sint_uint)
qed

lemma find_SomeD: "find P xs = Some x \<Longrightarrow> x \<in> set xs \<and> P x"
  by (induction xs) (auto split: if_splits)

lemma testing_peers:
  "mc_peers (fold (testing_peer i) as c) = mc_peers c @ map peer_of as \<and> mc_node_id (fold (testing_peer i) as c) = mc_node_id c"
  by (induction as arbitrary: c) (simp_all add: testing_peer_def Let_def)

lemma testing_config_fields:
  "mc_peers (testing_config addresses i) = map peer_of addresses" "mc_node_id (testing_config addresses i) = sint i"
  by (simp_all add: testing_config_def testing_peers)

text \<open>
  A cluster is configured with the addresses it is given, in their order, and the local address is the last one with the
  local id, if there is one and the addresses have a host and a port of 16 bits; its pod has every other address as peer.
\<close>
theorem configure_for_testing_spec:
  assumes ok: "list_all address_ok addresses" and i: "i \<in> set (map ad_id addresses)"
    and r: "r' = ConfigureForTesting addresses i r"
  shows "cm_ready (rm_config_manager r') \<and> cm_addresses (rm_config_manager r') = addresses \<and>
    Some (cm_local_address (rm_config_manager r')) = find (\<lambda>a. ad_id a = i) (rev addresses) \<and>
    (\<forall>r''. InitPod meta now r' = Some r'' \<longrightarrow>
       (\<exists>p. rm_pod r'' = Some p \<and> pd_id p = i \<and> map fo_addr (pd_followers p) = filter (\<lambda>a. ad_id a \<noteq> i) addresses))"
proof -
  have addresses: "map address_of (map peer_of addresses) = addresses"
    using ok by (simp add: list_all_iff address_of_peer_of map_idI)
  have last: "Some (fold (\<lambda>p a. if pr_id p = sint i then address_of p else a) (map peer_of as) a0) =
      (case find (\<lambda>a. ad_id a = i) (rev as) of None \<Rightarrow> Some a0 | Some a \<Rightarrow> Some a)" if "list_all address_ok as" for as a0
    using that
  proof (induction as rule: rev_induct)
    case (snoc a as)
    have "sint (ad_id a) = sint i \<longleftrightarrow> ad_id a = i" by (auto intro: signed_word_eqI)
    with snoc show ?case by (simp add: address_of_peer_of) (simp add: peer_of_def)
  qed simp
  obtain a where a: "find (\<lambda>a. ad_id a = i) (rev addresses) = Some a"
    using i by (cases "find (\<lambda>a. ad_id a = i) (rev addresses)") (auto simp: find_None_iff)
  then have "a \<in> set addresses" and aid: "ad_id a = i" using find_SomeD by fastforce+
  then have aok: "ad_ip a \<noteq> []" "ad_port a \<noteq> 0" "0 < sint (ad_port a)"
    using ok by (auto simp: list_all_iff address_ok_def sint_small simp del: of_nat_unat)
  have "fold (\<lambda>p a. if pr_id p = sint i then address_of p else a) (map peer_of addresses) cleared_address = a"
    using last [OF ok, of cleared_address] a by simp
  then have m: "rm_config_manager r' = \<lparr>cm_ready = True, cm_addresses = addresses, cm_local_address = a\<rparr>"
    using addresses aok unfolding r ConfigureForTesting_def LoadConfig_def LoadFromMokvConfig_def
    by (simp add: testing_config_fields Let_def)
  have "map fo_addr (pd_followers (pod_new i addresses l d now)) = filter (\<lambda>a. ad_id a \<noteq> i) addresses" for l d
    by (simp add: pod_new_def follower_new_def comp_def)
  then show ?thesis using m a aid by (auto simp: InitPod_def pod_new_def bind_eq_Some_conv)
qed

end
