(* ===== verification/DB_Client.thy ===== *)
theory DB_Client
  imports Raft_Theorems Config_Theorems
begin

text \<open>
  The client of a cluster: \<^verbatim>\<open>Client\<close> of \<^verbatim>\<open>src/mokv/raft/client.hpp\<close> and \<^verbatim>\<open>DBClient\<close> of \<^verbatim>\<open>src/mokv/db_client.hpp\<close>.  The calls over gRPC are
  a parameter, a function \<open>net\<close> of the target of a channel, the context of the call, the request and the state of the
  world; it returns a reply, or \<open>None\<close> for a status that is not OK.  \<open>cluster_net\<close> is the network whose world is a list of
  pods with the handlers of \<^verbatim>\<open>src/mokv/raft/service.hpp\<close>.
\<close>

section \<open>Channels and stubs\<close>

text \<open>A client that is connected: the target of its channel, and how many stubs it has made for the channel.\<close>

record Client =
  cl_ip :: string
  cl_port :: "32 word"
  cl_channel :: string
  cl_stubs :: nat

definition client_Connect :: "Address \<Rightarrow> Client" where
  "client_Connect addr =
     \<lparr>cl_ip = ad_ip addr, cl_port = ad_port addr,
      cl_channel = ad_ip addr @ '':'' @ show_int (sint (ad_port addr)), cl_stubs = 1\<rparr>"

definition client_Reset :: "Client \<Rightarrow> Client" where
  "client_Reset c = c\<lparr>cl_stubs := cl_stubs c + 1\<rparr>"

text \<open>The context of a call: its deadline in seconds, and the number of calls that it has been used for.\<close>

record ClientContext =
  cx_deadline :: nat
  cx_calls :: nat

definition context_new :: "nat \<Rightarrow> ClientContext" where
  "context_new seconds = \<lparr>cx_deadline = seconds, cx_calls = 0\<rparr>"

datatype request = GetReq string bool | PutReq string string

type_synonym 's network = "string \<Rightarrow> ClientContext \<Rightarrow> request \<Rightarrow> 's \<Rightarrow> Reply option \<times> 's"

definition rpc :: "'s network \<Rightarrow> Client \<Rightarrow> ClientContext \<Rightarrow> request \<Rightarrow> 's \<Rightarrow> Reply option \<times> ClientContext \<times> 's" where
  "rpc net c ctx req s =
     (case net (cl_channel c) ctx req s of (r, s') \<Rightarrow> (r, ctx\<lparr>cx_calls := cx_calls ctx + 1\<rparr>, s'))"

definition rsp_leader_addr :: "Reply \<Rightarrow> Address" where
  "rsp_leader_addr rsp = (case rp_leader_addr rsp of None \<Rightarrow> cleared_address | Some a \<Rightarrow> a)"

section \<open>The client of a cluster\<close>

record DBClient =
  dc_config_manager :: ConfigManager
  dc_all_pod :: "Client list"

text \<open>\<open>None\<close> is the exception of a configuration without a local port.\<close>

definition DBClient_Init :: "MokvConfig \<Rightarrow> DBClient option" where
  "DBClient_Init config =
     (case LoadFromMokvConfig config of
        (False, m) \<Rightarrow> None
      | (True, m) \<Rightarrow> Some \<lparr>dc_config_manager = m, dc_all_pod = map client_Connect (cm_addresses m)\<rparr>)"

text \<open>The constructor with a path; the argument is the content of the file, if it can be read.\<close>

definition DBClient_path :: "string option \<Rightarrow> DBClient option" where
  "DBClient_path content =
     (case LoadFromFile content DefaultConfig of (False, c) \<Rightarrow> None | (True, c) \<Rightarrow> DBClient_Init c)"

text \<open>The default constructor, which reads \<^verbatim>\<open>raft.cfg\<close> if it exists: \<open>None\<close> for no file, \<open>Some None\<close> for one that cannot be read.\<close>

definition DBClient_default :: "string option option \<Rightarrow> DBClient option" where
  "DBClient_default present =
     (case present of None \<Rightarrow> DBClient_Init DefaultConfig | Some content \<Rightarrow> DBClient_path content)"

subsection \<open>Reads from any pod\<close>

text \<open>One context serves all the calls of the loop.\<close>

fun Get_loop :: "'s network \<Rightarrow> request \<Rightarrow> Client list \<Rightarrow> ClientContext \<Rightarrow> 's \<Rightarrow> string option \<times> 's" where
  "Get_loop net req [] ctx s = (None, s)"
| "Get_loop net req (c # cs) ctx s =
     (case rpc net c ctx req s of
        (Some rsp, ctx', s') \<Rightarrow>
          if rp_code rsp = 0 then (Some (rp_value rsp), s') else Get_loop net req cs ctx' s'
      | (None, ctx', s') \<Rightarrow> Get_loop net req cs ctx' s')"

definition client_Get :: "'s network \<Rightarrow> string \<Rightarrow> DBClient \<Rightarrow> 's \<Rightarrow> string option \<times> 's" where
  "client_Get net key d s = Get_loop net (GetReq key False) (dc_all_pod d) (context_new 2) s"

text \<open>The read from one pod; an index out of range is undefined.\<close>

definition client_Get_at ::
    "'s network \<Rightarrow> string \<Rightarrow> nat \<Rightarrow> DBClient \<Rightarrow> 's \<Rightarrow> (string option \<times> DBClient \<times> 's) option" where
  "client_Get_at net key index d s =
     (if index < length (dc_all_pod d)
      then Some
        (case rpc net (dc_all_pod d ! index) (context_new 2) (GetReq key False) s of
           (Some rsp, _, s') \<Rightarrow> (if rp_code rsp = 0 then Some (rp_value rsp) else None, d, s')
         | (None, _, s') \<Rightarrow>
             (None, d\<lparr>dc_all_pod := (dc_all_pod d)[index := client_Reset (dc_all_pod d ! index)]\<rparr>, s'))
      else None)"

subsection \<open>Requests to the leader\<close>

text \<open>
  The inner loop after a redirection by the pod at index \<open>i\<close>: every pod at the address of the leader is asked, and the
  stub of the pod at \<open>i\<close> is reset when a call fails.
\<close>

fun leader_loop ::
    "'s network \<Rightarrow> request \<Rightarrow> Address \<Rightarrow> nat \<Rightarrow> nat list \<Rightarrow> Client list \<Rightarrow> 's \<Rightarrow> Reply option \<times> Client list \<times> 's" where
  "leader_loop net req leader i [] pods s = (None, pods, s)"
| "leader_loop net req leader i (j # js) pods s =
     (if ad_ip leader = cl_ip (pods ! j) \<and> ad_port leader = cl_port (pods ! j)
      then (case rpc net (pods ! j) (context_new 10) req s of
              (Some rsp, _, s') \<Rightarrow>
                if rp_code rsp = 0 then (Some rsp, pods, s') else leader_loop net req leader i js pods s'
            | (None, _, s') \<Rightarrow> leader_loop net req leader i js (pods[i := client_Reset (pods ! i)]) s')
      else leader_loop net req leader i js pods s)"

fun request_loop ::
    "'s network \<Rightarrow> request \<Rightarrow> nat list \<Rightarrow> Client list \<Rightarrow> 's \<Rightarrow> Reply option \<times> Client list \<times> 's" where
  "request_loop net req [] pods s = (None, pods, s)"
| "request_loop net req (i # is) pods s =
     (case rpc net (pods ! i) (context_new 2) req s of
        (Some rsp, _, s') \<Rightarrow>
          if rp_code rsp = 0 then (Some rsp, pods, s')
          else if rp_code rsp = - 2
          then leader_loop net req (rsp_leader_addr rsp) i [0..<length pods] pods s'
          else request_loop net req is pods s'
      | (None, _, s') \<Rightarrow> request_loop net req is pods s')"

definition SyncGet :: "'s network \<Rightarrow> string \<Rightarrow> DBClient \<Rightarrow> 's \<Rightarrow> string option \<times> DBClient \<times> 's" where
  "SyncGet net key d s =
     (case request_loop net (GetReq key True) [0..<length (dc_all_pod d)] (dc_all_pod d) s of
        (r, pods, s') \<Rightarrow> (map_option rp_value r, d\<lparr>dc_all_pod := pods\<rparr>, s'))"

definition client_Put :: "'s network \<Rightarrow> string \<Rightarrow> string \<Rightarrow> DBClient \<Rightarrow> 's \<Rightarrow> bool \<times> DBClient \<times> 's" where
  "client_Put net key val d s =
     (case request_loop net (PutReq key val) [0..<length (dc_all_pod d)] (dc_all_pod d) s of
        (r, pods, s') \<Rightarrow> (r \<noteq> None, d\<lparr>dc_all_pod := pods\<rparr>, s'))"

section \<open>The pods as the network\<close>

text \<open>
  The handlers of the service.  A put that the leader has appended waits for its peers: \<open>wait\<close> runs the cluster until the
  reply or the deadline.  A handler whose behaviour is undefined does not reply.
\<close>

definition serve ::
    "(nat \<Rightarrow> 64 word \<Rightarrow> Pod list \<Rightarrow> Reply option \<times> Pod list) \<Rightarrow> request \<Rightarrow> nat \<Rightarrow> Pod list \<Rightarrow> Reply option \<times> Pod list" where
  "serve wait req i ps =
     (case req of
        GetReq key l \<Rightarrow> (pod_Get key l (ps ! i), ps)
      | PutReq key val \<Rightarrow>
          (case Put_begin key val (ps ! i) of
             None \<Rightarrow> (None, ps)
           | Some (Inl r, p) \<Rightarrow> (Some r, ps[i := p])
           | Some (Inr now_idx, p) \<Rightarrow> wait i now_idx (ps[i := p])))"

text \<open>\<open>route\<close> says which pod a target reaches, if any.\<close>

definition cluster_net ::
    "(nat \<Rightarrow> 64 word \<Rightarrow> Pod list \<Rightarrow> Reply option \<times> Pod list) \<Rightarrow> (string \<Rightarrow> nat option) \<Rightarrow> Pod list network" where
  "cluster_net wait route target ctx req ps =
     (case route target of
        Some i \<Rightarrow> if i < length ps then serve wait req i ps else (None, ps)
      | None \<Rightarrow> (None, ps))"

end
