(* ===== verification/Client_Theorems.thy ===== *)
theory Client_Theorems
  imports DB_Client
begin

text \<open>
  The requests of a client over a cluster whose pods know the leader: reads and writes reach it from whichever pod is
  asked first.  \<open>leader_known\<close> is the situation, \<open>answers\<close> the reply of the leader to one request.
\<close>

section \<open>A cluster with one leader\<close>

definition at_address :: "Client \<Rightarrow> Address \<Rightarrow> bool" where
  "at_address c a = (ad_ip a = cl_ip c \<and> ad_port a = cl_port c)"

text \<open>
  The addresses of the client differ, pod \<open>L\<close> is leader and reached through entry \<open>l\<close>, and every other pod that is
  reached is no leader and knows no leader or the address of entry \<open>l\<close>.
\<close>

definition leader_known :: "(string \<Rightarrow> nat option) \<Rightarrow> Client list \<Rightarrow> Pod list \<Rightarrow> nat \<Rightarrow> nat \<Rightarrow> bool" where
  "leader_known route pods ps l L =
     (distinct (map (\<lambda>c. (cl_ip c, cl_port c)) pods) \<and> l < length pods \<and> L < length ps \<and>
      route (cl_channel (pods ! l)) = Some L \<and> pd_status (ps ! L) = Leader \<and>
      list_all (\<lambda>c. case route (cl_channel c) of
           None \<Rightarrow> True
         | Some i \<Rightarrow> i = L \<or> i < length ps \<and> pd_status (ps ! i) \<noteq> Leader \<and>
             (case FindLeaderAddress (ps ! i) of None \<Rightarrow> True | Some a \<Rightarrow> at_address (pods ! l) a)) pods)"

fun to_leader :: "request \<Rightarrow> bool" where
  "to_leader (GetReq k from_leader) = from_leader"
| "to_leader (PutReq k v) = True"

lemma leader_knownD:
  assumes "leader_known route pods ps l L"
  shows "l < length pods" "L < length ps" "route (cl_channel (pods ! l)) = Some L" "pd_status (ps ! L) = Leader"
  using assms by (simp_all add: leader_known_def)

lemma leader_known_unique:
  assumes "leader_known route pods ps l L" "j < length pods" "at_address (pods ! l) a" "at_address (pods ! j) a"
  shows "j = l"
  using assms by (simp add: leader_known_def at_address_def distinct_conv_nth) metis

lemma leader_known_pod:
  assumes "leader_known route pods ps l L" "j < length pods" "route (cl_channel (pods ! j)) = Some i" "i \<noteq> L"
  shows "i < length ps" "pd_status (ps ! i) \<noteq> Leader" "FindLeaderAddress (ps ! i) = Some a \<Longrightarrow> at_address (pods ! l) a"
  using assms by (auto simp: leader_known_def list_all_length split: option.splits)

text \<open>What a call through entry \<open>j\<close> gives: the answer of the leader, a redirection, or a failure.\<close>

lemma rpc_cluster_cases:
  assumes k: "leader_known route pods ps l L" and j: "j < length pods" and req: "to_leader req"
  obtains "rpc (cluster_net wait route) (pods ! j) ctx req ps =
      (case serve wait req L ps of (r, ps') \<Rightarrow> (r, ctx\<lparr>cx_calls := cx_calls ctx + 1\<rparr>, ps'))"
  | r where "j \<noteq> l" "rpc (cluster_net wait route) (pods ! j) ctx req ps = (Some r, ctx\<lparr>cx_calls := cx_calls ctx + 1\<rparr>, ps)"
      "rp_code r = - 1 \<or> rp_code r = - 2 \<and> at_address (pods ! l) (rsp_leader_addr r)"
  | "j \<noteq> l" "rpc (cluster_net wait route) (pods ! j) ctx req ps = (None, ctx\<lparr>cx_calls := cx_calls ctx + 1\<rparr>, ps)"
proof (cases "route (cl_channel (pods ! j))")
  case None
  with leader_knownD(3) [OF k] have "j \<noteq> l" by auto
  with None show thesis by (intro that(3)) (simp_all add: rpc_def cluster_net_def)
next
  case (Some i)
  show thesis
  proof (cases "i = L")
    case True
    with Some leader_knownD [OF k] show thesis by (intro that(1)) (simp add: rpc_def cluster_net_def)
  next
    case False
    note i = leader_known_pod [OF k j Some False]
    have r: "serve wait req i ps = (Some (redirect (ps ! i)), ps)"
      using i req by (cases req) (simp_all add: serve_def pod_Get_def Put_begin_def)
    have "j \<noteq> l" using False Some leader_knownD(3) [OF k] by auto
    with i r Some show thesis
      by (intro that(2) [of "redirect (ps ! i)"])
        (auto simp: rpc_def cluster_net_def redirect_def reply_def rsp_leader_addr_def split: option.splits)
  qed
qed

lemma leader_loop_ok:
  assumes k: "leader_known route pods ps l L" and a: "at_address (pods ! l) a"
    and s: "serve wait req L ps = (Some r, ps')" "rp_code r = 0" and js: "l \<in> set js" "set js \<subseteq> {..<length pods}"
  shows "leader_loop (cluster_net wait route) req a i js pods ps = (Some r, pods, ps')"
  using js
proof (induction js)
  case (Cons j js)
  show ?case
  proof (cases "at_address (pods ! j) a")
    case True
    then have "j = l" using leader_known_unique [OF k _ a] Cons.prems by auto
    then show ?thesis using True s leader_knownD [OF k] by (simp add: rpc_def cluster_net_def at_address_def)
  next
    case False
    then have "j \<noteq> l" using a by auto
    then show ?thesis using False Cons by (auto simp: at_address_def)
  qed
qed simp

lemma leader_loop_refused:
  assumes k: "leader_known route pods ps l L" and a: "at_address (pods ! l) a"
    and s: "serve wait req L ps = (Some r, ps)" "rp_code r \<noteq> 0" and js: "set js \<subseteq> {..<length pods}"
  shows "leader_loop (cluster_net wait route) req a i js pods ps = (None, pods, ps)"
  using js
proof (induction js)
  case (Cons j js)
  show ?case
  proof (cases "at_address (pods ! j) a")
    case True
    then have "j = l" using leader_known_unique [OF k _ a] Cons.prems by auto
    then show ?thesis using True s leader_knownD [OF k] Cons by (simp add: rpc_def cluster_net_def at_address_def)
  qed (use Cons in \<open>auto simp: at_address_def\<close>)
qed simp

lemma request_loop_ok:
  assumes k: "leader_known route pods ps l L" and req: "to_leader req"
    and s: "serve wait req L ps = (Some r, ps')" "rp_code r = 0" and ns: "l \<in> set ns" "set ns \<subseteq> {..<length pods}"
  shows "request_loop (cluster_net wait route) req ns pods ps = (Some r, pods, ps')"
  using ns
proof (induction ns)
  case (Cons j js)
  then have j: "j < length pods" by simp
  show ?case
    by (rule rpc_cluster_cases [OF k j req, of wait "context_new 2"])
      (use Cons s leader_loop_ok [OF k _ s, of _ "[0..<length pods]"] leader_knownD(1) [OF k] in \<open>auto simp: atLeast0LessThan\<close>)
qed simp

lemma request_loop_refused:
  assumes k: "leader_known route pods ps l L" and req: "to_leader req"
    and s: "serve wait req L ps = (Some r, ps)" "rp_code r \<noteq> 0" "rp_code r \<noteq> - 2" and ns: "set ns \<subseteq> {..<length pods}"
  shows "request_loop (cluster_net wait route) req ns pods ps = (None, pods, ps)"
  using ns
proof (induction ns)
  case (Cons j js)
  then have j: "j < length pods" by simp
  show ?case
    by (rule rpc_cluster_cases [OF k j req, of wait "context_new 2"])
      (use Cons s leader_loop_refused [OF k _ s(1,2), of _ "[0..<length pods]"] in \<open>auto simp: atLeast0LessThan\<close>)
qed simp

lemma SyncGet_leader:
  assumes k: "leader_known route (dc_all_pod d) ps l L" and v: "db_view env N (pd_db (ps ! L)) m"
  shows "SyncGet (cluster_net wait route) key d ps = (visible (m key), d, ps)"
proof -
  note lk = leader_knownD [OF k]
  have g: "serve wait (GetReq key True) L ps =
      (Some (case visible (m key) of None \<Rightarrow> reply 1 | Some w \<Rightarrow> (reply 0)\<lparr>rp_value := w\<rparr>), ps)"
    using v db_rep_Get lk(4) unfolding db_view_def by (fastforce simp: serve_def pod_Get_def)
  show ?thesis
  proof (cases "visible (m key)")
    case None
    then show ?thesis using request_loop_refused [OF k _ g] by (simp add: SyncGet_def reply_def atLeast0LessThan)
  next
    case (Some w)
    then show ?thesis using request_loop_ok [OF k _ g] lk(1) by (simp add: SyncGet_def reply_def atLeast0LessThan)
  qed
qed

section \<open>Properties\<close>

text \<open>
  C35: A synchronised read of a client over a cluster whose pods know the leader returns what the database of the leader
  holds, whichever pods are unreachable and whichever pod is asked first, and it changes neither the client nor the
  pods; a put that the leader appends and acknowledges is acknowledged to the client, and it is appended once.
\<close>
theorem client_requests_reach_leader:
  assumes k: "leader_known route (dc_all_pod d) ps l L" and v: "db_view env N (pd_db (ps ! L)) m"
  shows "SyncGet (cluster_net wait route) key d ps = (visible (m key), d, ps) \<and>
    (\<forall>idx p ps'. Put_begin key val (ps ! L) = Some (Inr idx, p) \<longrightarrow> wait L idx (ps[L := p]) = (Some (reply 0), ps') \<longrightarrow>
       client_Put (cluster_net wait route) key val d ps = (True, d, ps'))"
proof (intro conjI allI impI)
  show "SyncGet (cluster_net wait route) key d ps = (visible (m key), d, ps)" by (rule SyncGet_leader [OF k v])
next
  fix idx p ps'
  assume "Put_begin key val (ps ! L) = Some (Inr idx, p)" "wait L idx (ps[L := p]) = (Some (reply 0), ps')"
  then have "serve wait (PutReq key val) L ps = (Some (reply 0), ps')" by (simp add: serve_def)
  from request_loop_ok [OF k _ this] show "client_Put (cluster_net wait route) key val d ps = (True, d, ps')"
    using leader_knownD(1) [OF k] by (simp add: client_Put_def reply_def atLeast0LessThan)
qed

text \<open>
  A cluster of three pods with the second as leader: the first is not reached, the third, which the client asks first,
  redirects to the second.
\<close>

definition pair_route :: "string \<Rightarrow> nat option" where
  "pair_route t = (if t = ''b:9002'' then Some 1 else if t = ''c:9003'' then Some 2 else None)"

definition led_trio :: "DB \<Rightarrow> Pod list" where
  "led_trio d = [trio d ! 0, (trio d ! 1)\<lparr>pd_status := Leader\<rparr>, (trio d ! 2)\<lparr>pd_leader_id := 2\<rparr>]"

definition trio_client :: DBClient where
  "trio_client =
     \<lparr>dc_config_manager = \<lparr>cm_ready = True, cm_addresses = trio_addresses, cm_local_address = trio_addresses ! 0\<rparr>,
      dc_all_pod = map client_Connect (rev trio_addresses)\<rparr>"

lemma show_ports: "show_int 9001 = ''9001''" "show_int 9002 = ''9002''" "show_int 9003 = ''9003''"
  by (simp_all add: show_int_def show_nat.simps) code_simp+

lemma led_trio_known: "leader_known pair_route (dc_all_pod trio_client) (led_trio d) 1 1"
  by (simp add: leader_known_def trio_client_def trio_addresses_def client_Connect_def show_ports pair_route_def led_trio_def trio_def
      pod_new_def follower_new_def FindLeaderAddress_def at_address_def)

theorem client_requests_reach_leader_witness:
  "\<exists>d. SyncGet (cluster_net (\<lambda>i idx ps. (None, ps)) pair_route) ''k'' trio_client (led_trio d) = (None, trio_client, led_trio d)"
proof -
  obtain d where d: "db_view example_env 0 d Map.empty" using example_view .
  then have "db_view example_env 0 (pd_db (led_trio d ! 1)) Map.empty" by (simp add: led_trio_def trio_def pod_new_def)
  from client_requests_reach_leader [OF led_trio_known this, of "\<lambda>i idx ps. (None, ps)" "''k''"] show ?thesis
    by (intro exI [of _ d]) (simp add: visible_def)
qed

text \<open>
  gRPC forbids a second call with the same context.  Over a network that refuses such calls, a read from any pod succeeds
  exactly if the first pod answers: the other pods are asked in vain.
\<close>
theorem client_Get_asks_first_pod:
  assumes refuses: "\<And>t ctx req s. 0 < cx_calls ctx \<Longrightarrow> fst (net t ctx req s) = None"
  shows "fst (client_Get net key d s) = Some v \<longleftrightarrow>
    (\<exists>c cs rsp s'. dc_all_pod d = c # cs \<and> net (cl_channel c) (context_new 2) (GetReq key False) s = (Some rsp, s') \<and>
       rp_code rsp = 0 \<and> v = rp_value rsp)"
proof -
  have r: "fst (rpc net c ctx req s) = None" if "0 < cx_calls ctx" for c ctx req s
    using refuses [OF that, of "cl_channel c" req s] by (auto simp: rpc_def split: prod.splits)
  have used: "fst (Get_loop net req cs ctx s) = None" if "0 < cx_calls ctx" for req cs ctx s
    using that
  proof (induction cs arbitrary: ctx s)
    case (Cons c cs)
    obtain ctx' s' where "rpc net c ctx req s = (None, ctx', s')" using r [OF Cons.prems] by (metis prod.collapse)
    moreover from this have "0 < cx_calls ctx'" by (auto simp: rpc_def split: prod.splits)
    ultimately show ?case using Cons.IH by simp
  qed simp
  show ?thesis
    by (cases "dc_all_pod d") (auto simp: client_Get_def rpc_def used split: prod.splits option.splits)
qed

text \<open>
  When the call to the leader fails after a redirection, the stub that is made anew is the one of the pod that
  redirected; the stub of the leader stays as it was.
\<close>
theorem redirect_resets_wrong_stub:
  assumes "cl_ip a \<noteq> cl_ip b"
    and "net (cl_channel a) (context_new 2) (PutReq key val) s = (Some rsp, s')" "rp_code rsp = - 2"
    and "at_address b (rsp_leader_addr rsp)"
    and "net (cl_channel b) (context_new 10) (PutReq key val) s' = (None, s'')"
  shows "client_Put net key val (d\<lparr>dc_all_pod := [a, b]\<rparr>) s = (False, d\<lparr>dc_all_pod := [client_Reset a, b]\<rparr>, s'')"
  using assms by (simp add: client_Put_def rpc_def at_address_def upt_rec)

end
