(* ===== verification/Server.thy ===== *)
theory Server
  imports Resources Client_Theorems
begin

text \<open>
  The two programs: \<^verbatim>\<open>src/mokv/server.cpp\<close> (its options, the instance check, the daemon, the start of the server and its
  shutdown by signals) and \<^verbatim>\<open>src/mokv/client.cpp\<close> (its command loop).  System calls are arguments: their results, the contents of
  the files and the processes that run.
\<close>

section \<open>Paths\<close>

text \<open>What the source uses of \<^verbatim>\<open>std::filesystem::path\<close> on POSIX.\<close>

abbreviation slash :: char where "slash \<equiv> CHR ''/''"

definition path_is_absolute :: "string \<Rightarrow> bool" where
  "path_is_absolute p = (p \<noteq> [] \<and> hd p = slash)"

definition path_append :: "string \<Rightarrow> string \<Rightarrow> string" where
  "path_append a b =
     (if path_is_absolute b then b else if a = [] \<or> last a = slash then a @ b else a @ [slash] @ b)"

text \<open>Everything before the last component and the slashes in front of it; the root is its own parent.\<close>

definition path_parent :: "string \<Rightarrow> string" where
  "path_parent p =
     (let r = rev (dropWhile (\<lambda>c. c \<noteq> slash) (rev p)); t = rev (dropWhile (\<lambda>c. c = slash) (rev r))
      in if r = [] then [] else if t = [] then [slash] else t)"

definition path_absolute :: "string \<Rightarrow> string \<Rightarrow> string" where
  "path_absolute cwd p = (if path_is_absolute p then p else path_append cwd p)"

definition ResolveDataDir :: "string \<Rightarrow> string \<Rightarrow> string \<Rightarrow> string \<Rightarrow> string" where
  "ResolveDataDir cwd configured config_file launch_dir =
     (let base_dir = (if path_parent config_file \<noteq> [] then path_parent config_file else launch_dir)
      in if configured = [] then path_absolute cwd (path_append base_dir ''data'')
         else if path_is_absolute configured then configured
         else path_absolute cwd (path_append base_dir configured))"

section \<open>Options\<close>

record server_options =
  so_daemonize :: bool
  so_config_file :: string
  so_log_file :: string
  so_pid_file :: string

definition options_new :: "string \<Rightarrow> server_options" where
  "options_new cwd =
     \<lparr>so_daemonize = False, so_config_file = path_append cwd ''raft.cfg'', so_log_file = path_append cwd ''mokv.log'',
      so_pid_file = path_append cwd ''mokv.pid''\<rparr>"

text \<open>
  The results of \<^verbatim>\<open>getopt_long\<close>, a character and the argument, one by one: an exit code or the options.  The long option
  \<^verbatim>\<open>--port\<close> gives \<^verbatim>\<open>p\<close>, which has no case.  An empty path is refused by \<^verbatim>\<open>std::filesystem::absolute\<close> with an exception (\<open>None\<close>).
\<close>

definition option_path :: "string \<Rightarrow> string \<Rightarrow> string option" where
  "option_path cwd optarg = (if optarg = [] then None else Some (path_absolute cwd optarg))"

definition server_option :: "string \<Rightarrow> char \<times> string \<Rightarrow> server_options \<Rightarrow> (int + server_options) option" where
  "server_option cwd opt so =
     (case opt of (c, optarg) \<Rightarrow>
        if c = CHR ''d'' then Some (Inr (so\<lparr>so_daemonize := True\<rparr>))
        else if c = CHR ''c'' then map_option (\<lambda>p. Inr (so\<lparr>so_config_file := p\<rparr>)) (option_path cwd optarg)
        else if c = CHR ''l'' then map_option (\<lambda>p. Inr (so\<lparr>so_log_file := p\<rparr>)) (option_path cwd optarg)
        else if c = CHR ''P'' then map_option (\<lambda>p. Inr (so\<lparr>so_pid_file := p\<rparr>)) (option_path cwd optarg)
        else if c = CHR ''h'' \<or> c = CHR ''v'' then Some (Inl 0)
        else Some (Inl 1))"

fun server_options_loop :: "string \<Rightarrow> (char \<times> string) list \<Rightarrow> server_options \<Rightarrow> (int + server_options) option" where
  "server_options_loop cwd [] so = Some (Inr so)"
| "server_options_loop cwd (opt # opts) so =
     do { r \<leftarrow> server_option cwd opt so;
          (case r of Inl code \<Rightarrow> Some (Inl code) | Inr so' \<Rightarrow> server_options_loop cwd opts so') }"

section \<open>Start\<close>

text \<open>
  The number in the pid file, as the stream reads it: 0 for text that is no number, clamped when it is out of range.  From
  an empty file nothing is read and the variable is not initialised (\<open>None\<close>).
\<close>

definition read_pid :: "string \<Rightarrow> int option" where
  "read_pid content =
     (if dropWhile is_space content = [] then None
      else Some (case numeral_at content of
          None \<Rightarrow> 0
        | Some (neg, n, rest) \<Rightarrow> max int32_min (min int32_max (if neg then - int n else int n))))"

definition IsProcessRunning :: "(int \<Rightarrow> bool) \<Rightarrow> int \<Rightarrow> bool" where
  "IsProcessRunning alive pid = (if pid \<le> 0 then False else alive pid)"

text \<open>The results of the system calls of \<^verbatim>\<open>Daemonize\<close>, in their order; \<open>sys_pid_opens\<close> says whether the pid file can be written.\<close>

record daemon_calls =
  sys_fork :: int
  sys_setsid :: int
  sys_fork2 :: int
  sys_chdir :: int
  sys_open_log :: int
  sys_pid_opens :: bool
  sys_getpid :: nat

text \<open>A process exits as a parent, fails, or continues as the daemon with what it wrote to the pid file.\<close>

datatype daemonized = ParentExits | Failed | Continues "string option"

definition Daemonize :: "daemon_calls \<Rightarrow> daemonized" where
  "Daemonize sys =
     (if sys_fork sys < 0 then Failed
      else if 0 < sys_fork sys then ParentExits
      else if sys_setsid sys < 0 then Failed
      else if sys_fork2 sys < 0 then Failed
      else if 0 < sys_fork2 sys then ParentExits
      else if sys_chdir sys < 0 then Failed
      else if sys_open_log sys < 0 then Failed
      else Continues (if sys_pid_opens sys then Some (show_nat (sys_getpid sys) @ [CHR 0x0A]) else None))"

text \<open>
  The configuration of the server: the file, the variables, the directory, the check.  \<open>None\<close> is exit code 1.
\<close>

definition server_config ::
    "(string \<Rightarrow> string option) \<Rightarrow> (string \<rightharpoonup> string) \<Rightarrow> string \<Rightarrow> server_options \<Rightarrow> MokvConfig option" where
  "server_config contents vars cwd so =
     (case LoadFromFile (contents (so_config_file so)) DefaultConfig of
        (False, c) \<Rightarrow> None
      | (True, c) \<Rightarrow>
          let c = LoadFromEnv vars c;
              c = c\<lparr>mc_data_dir := ResolveDataDir cwd (mc_data_dir c) (so_config_file so) cwd\<rparr>
          in if Validate c then Some c else None)"

text \<open>\<^verbatim>\<open>RunServer\<close> up to the start of the gRPC server: \<open>None\<close> is undefined or an exception, \<open>False\<close> a configuration that is refused.\<close>

definition RunServer_begin ::
    "'c sst_env \<Rightarrow> MokvConfig \<Rightarrow> (string \<Rightarrow> files \<times> bytes option \<times> 64 word) \<Rightarrow> bytes option \<Rightarrow> 64 word \<Rightarrow> ResourceManager \<Rightarrow>
     (bool \<times> ResourceManager) option" where
  "RunServer_begin env config disk meta now r =
     (case LoadConfig config r of
        (False, r) \<Rightarrow> Some (False, r)
      | (True, r) \<Rightarrow>
          do { r \<leftarrow> InitDb_config env config disk r; r \<leftarrow> InitPod meta now r; Some (True, r) })"

definition server_addr :: "ResourceManager \<Rightarrow> string" where
  "server_addr r =
     (let a = cm_local_address (rm_config_manager r) in ad_ip a @ '':'' @ show_int (sint (ad_port a)))"

section \<open>Running and shutdown\<close>

text \<open>
  The process after the start: it polls in \<^verbatim>\<open>RunServer\<close> and then in \<^verbatim>\<open>main\<close>; a signal may arrive at any time.  \<open>ss_server\<close> says
  whether \<^verbatim>\<open>BuildAndStart\<close> returned a server, \<open>ss_serving\<close> whether that server has not been shut down.
\<close>

datatype phase = InRunServer | InMain | Exited int

record server_state =
  ss_phase :: phase
  ss_shutdown_flag :: bool
  ss_shutdown_requested :: bool
  ss_server :: bool
  ss_serving :: bool
  ss_resources :: ResourceManager
  ss_pid_file :: "string option"

definition server_started :: "bool \<Rightarrow> ResourceManager \<Rightarrow> string option \<Rightarrow> server_state" where
  "server_started bound r pid =
     \<lparr>ss_phase = InRunServer, ss_shutdown_flag = False, ss_shutdown_requested = False, ss_server = bound, ss_serving = bound,
      ss_resources = r, ss_pid_file = pid\<rparr>"





section \<open>The whole program\<close>

text \<open>The world of a start: files, variables, processes, the calls of the daemon and the result of \<^verbatim>\<open>BuildAndStart\<close>.\<close>

record server_world =
  sw_cwd :: string
  sw_contents :: "string \<Rightarrow> string option"
  sw_vars :: "string \<rightharpoonup> string"
  sw_alive :: "int \<Rightarrow> bool"
  sw_daemon :: daemon_calls
  sw_disk :: "string \<Rightarrow> files \<times> bytes option \<times> 64 word"
  sw_raft_meta :: "bytes option"
  sw_now :: "64 word"
  sw_binds :: "string \<Rightarrow> bool"

text \<open>
  The main function up to the polling: an exit code, or the running process.  The resources are made in the current
  directory \<open>dir\<close>, the root for a daemon, from the file \<^verbatim>\<open>raft.cfg\<close> there, before the configuration is loaded.
\<close>

definition server_run ::
    "'c sst_env \<Rightarrow> server_world \<Rightarrow> string \<Rightarrow> string option \<Rightarrow> MokvConfig \<Rightarrow> (int + server_state) option" where
  "server_run env w dir pid config =
     do { (ok, r) \<leftarrow> RunServer_begin env config (sw_disk w) (sw_raft_meta w) (sw_now w)
            (ResourceManager_new (sw_contents w (path_append dir ''raft.cfg'')));
          Some (if ok then Inr (server_started (sw_binds w (server_addr r)) r pid) else Inl 1) }"

definition another_instance :: "server_world \<Rightarrow> server_options \<Rightarrow> bool option" where
  "another_instance w so =
     (case sw_contents w (so_pid_file so) of
        None \<Rightarrow> Some False
      | Some content \<Rightarrow> map_option (IsProcessRunning (sw_alive w)) (read_pid content))"

definition server_main :: "'c sst_env \<Rightarrow> server_world \<Rightarrow> (char \<times> string) list \<Rightarrow> (int + server_state) option" where
  "server_main env w opts =
     do { r \<leftarrow> server_options_loop (sw_cwd w) opts (options_new (sw_cwd w));
          (case r of
             Inl code \<Rightarrow> Some (Inl code)
           | Inr so \<Rightarrow>
               do { running \<leftarrow> another_instance w so;
                    if running then Some (Inl 1)
                    else (case server_config (sw_contents w) (sw_vars w) (sw_cwd w) so of
                       None \<Rightarrow> Some (Inl 1)
                     | Some config \<Rightarrow>
                         if so_daemonize so
                         then (case Daemonize (sw_daemon w) of
                                 ParentExits \<Rightarrow> Some (Inl 0)
                               | Failed \<Rightarrow> Some (Inl 1)
                               | Continues pid \<Rightarrow>
                                   server_run env w [slash] (case pid of Some p \<Rightarrow> Some p | None \<Rightarrow> sw_contents w (so_pid_file so)) config)
                         else server_run env w (sw_cwd w) (sw_contents w (so_pid_file so)) config) }) }"

section \<open>The command loop of the client\<close>

text \<open>The options of the client and its connection: an exit code or the client.  \<open>contents\<close> are the readable files.\<close>

fun client_options :: "string \<Rightarrow> (char \<times> string) list \<Rightarrow> string \<Rightarrow> (int + string) option" where
  "client_options cwd [] config_file = Some (Inr config_file)"
| "client_options cwd ((c, optarg) # opts) config_file =
     (if c = CHR ''c'' then do { p \<leftarrow> option_path cwd optarg; client_options cwd opts p }
      else if c = CHR ''h'' then Some (Inl 0)
      else Some (Inl 1))"

definition client_main :: "string \<Rightarrow> (string \<Rightarrow> string option) \<Rightarrow> (char \<times> string) list \<Rightarrow> (int + DBClient) option" where
  "client_main cwd contents opts =
     do { r \<leftarrow> client_options cwd opts ''raft.cfg'';
          Some (case r of
              Inl code \<Rightarrow> Inl code
            | Inr config_file \<Rightarrow>
                (case DBClient_path (contents (path_absolute cwd config_file)) of None \<Rightarrow> Inl 1 | Some d \<Rightarrow> Inr d)) }"

text \<open>The standard input is the text that is left, or \<open>None\<close> once a read has failed; then strings stay empty.\<close>

definition cin_word :: "string option \<Rightarrow> string \<times> string option" where
  "cin_word input =
     (case input of
        None \<Rightarrow> ([], None)
      | Some s \<Rightarrow> (case read_word s of None \<Rightarrow> ([], None) | Some (w, rest) \<Rightarrow> (w, Some rest)))"

text \<open>The index of \<^verbatim>\<open>optget\<close>; without anything to read it is not initialised (\<open>None\<close>).\<close>

definition cin_index :: "string option \<Rightarrow> (nat \<times> string option) option" where
  "cin_index input =
     do { s \<leftarrow> input;
          if dropWhile is_space s = [] then None
          else Some (case read_unsigned s of
                  Some (n, rest) \<Rightarrow> (n, Some rest)
                | None \<Rightarrow> (if numeral_at s = None then 0 else 2 ^ 64 - 1, None)) }"

datatype client_output = Printed bool string | PrintedPut bool

definition value_or_empty :: "string option \<Rightarrow> string" where
  "value_or_empty r = (case r of None \<Rightarrow> [] | Some v \<Rightarrow> v)"

definition client_command ::
    "'s network \<Rightarrow> string option \<Rightarrow> DBClient \<Rightarrow> 's \<Rightarrow> (string option \<times> DBClient \<times> 's \<times> client_output list) option" where
  "client_command net input d s =
     (case cin_word input of (opr, input) \<Rightarrow>
      case cin_word input of (key, input) \<Rightarrow>
        if opr = ''get'' then
          (case client_Get net key d s of (r, s) \<Rightarrow> Some (input, d, s, [Printed (r \<noteq> None) (value_or_empty r)]))
        else if opr = ''sget'' then
          (case SyncGet net key d s of (r, d, s) \<Rightarrow> Some (input, d, s, [Printed (r \<noteq> None) (value_or_empty r)]))
        else if opr = ''put'' then
          (case cin_word input of (val, input) \<Rightarrow>
             case client_Put net key val d s of (ok, d, s) \<Rightarrow> Some (input, d, s, [PrintedPut ok]))
        else if opr = ''optget'' then
          do { (idx, input) \<leftarrow> cin_index input; (r, d, s) \<leftarrow> client_Get_at net key idx d s;
               Some (input, d, s, [Printed (r \<noteq> None) (value_or_empty r)]) }
        else Some (input, d, s, []))"

text \<open>A number of rounds of the loop, which has no exit.\<close>

fun client_loop ::
    "'s network \<Rightarrow> nat \<Rightarrow> string option \<Rightarrow> DBClient \<Rightarrow> 's \<Rightarrow> (string option \<times> DBClient \<times> 's \<times> client_output list) option" where
  "client_loop net 0 input d s = Some (input, d, s, [])"
| "client_loop net (Suc n) input d s =
     do { (input, d, s, out) \<leftarrow> client_command net input d s; (input, d, s, outs) \<leftarrow> client_loop net n input d s;
          Some (input, d, s, out @ outs) }"

section \<open>Properties\<close>

subsection \<open>The data directory\<close>

lemma path_append_absolute: "path_is_absolute a \<Longrightarrow> path_is_absolute (path_append a b)"
  by (simp add: path_is_absolute_def path_append_def)

lemma path_absolute_id: "path_is_absolute p \<Longrightarrow> path_absolute cwd p = p" by (simp add: path_absolute_def)

lemma path_parent_absolute:
  assumes "path_is_absolute p"
  shows "path_is_absolute (path_parent p)"
proof -
  obtain q where p: "p = slash # q" using assms by (cases p) (auto simp: path_is_absolute_def)
  let ?r = "rev (dropWhile (\<lambda>c. c \<noteq> slash) (rev p))"
  have r: "\<exists>r. ?r = slash # r" by (auto simp: p dropWhile_append intro: exI [of _ "rev xs" for xs])
  then obtain r where r: "?r = slash # r" by blast
  let ?t = "rev (dropWhile (\<lambda>c. c = slash) (rev ?r))"
  have "?t = [] \<or> hd ?t = slash" unfolding r by (auto simp: dropWhile_append split: if_splits)
  moreover have "path_parent p = (if ?t = [] then [slash] else ?t)" by (simp only: path_parent_def Let_def r list.distinct if_False)
  ultimately show ?thesis unfolding path_is_absolute_def by (metis list.sel(1) list.distinct(1))
qed

lemma options_absolute:
  assumes "path_is_absolute cwd" "path_is_absolute (so_config_file so)" "path_is_absolute (so_log_file so)" "path_is_absolute (so_pid_file so)"
    and "server_options_loop cwd opts so = Some (Inr so')"
  shows "path_is_absolute (so_config_file so') \<and> path_is_absolute (so_log_file so') \<and> path_is_absolute (so_pid_file so')"
  using assms(2-)
proof (induction opts arbitrary: so)
  case (Cons opt opts)
  have "path_is_absolute (path_absolute cwd p)" for p using assms(1) path_append_absolute by (simp add: path_absolute_def)
  then have "path_is_absolute (so_config_file s) \<and> path_is_absolute (so_log_file s) \<and> path_is_absolute (so_pid_file s)"
    if "server_option cwd opt so = Some (Inr s)" for s
    using that Cons.prems by (auto simp: server_option_def option_path_def split: prod.splits if_splits)
  moreover obtain s where "server_option cwd opt so = Some (Inr s)" "server_options_loop cwd opts s = Some (Inr so')"
    using Cons.prems(4) by (cases "server_option cwd opt so") (simp_all split: sum.splits)
  ultimately show ?case using Cons.IH by blast
qed simp

lemma options_new_absolute:
  assumes "path_is_absolute cwd" "server_options_loop cwd opts (options_new cwd) = Some (Inr so)"
  shows "path_is_absolute (so_config_file so) \<and> path_is_absolute (so_log_file so) \<and> path_is_absolute (so_pid_file so)"
  by (rule options_absolute [OF assms(1) _ _ _ assms(2)]) (simp_all add: options_new_def path_append_absolute assms(1))

lemma ResolveDataDir_absolute:
  assumes "path_is_absolute config_file"
  shows "path_is_absolute (ResolveDataDir dir configured config_file launch)"
    "ResolveDataDir dir configured config_file launch = ResolveDataDir dir' configured config_file launch'"
proof -
  have p: "path_is_absolute (path_parent config_file)" by (rule path_parent_absolute [OF assms])
  then have "path_parent config_file \<noteq> []" by (auto simp: path_is_absolute_def)
  then show "path_is_absolute (ResolveDataDir dir configured config_file launch)"
    "ResolveDataDir dir configured config_file launch = ResolveDataDir dir' configured config_file launch'"
    using p by (simp_all add: ResolveDataDir_def Let_def path_absolute_id path_append_absolute)
qed

text \<open>
  Whatever the options, the paths of the server are absolute, and the data directory of its configuration is absolute and
  does not depend on the current directory when it is resolved: it stays the same although a daemon changes to the
  root directory, and although the database opens it by name afterwards.
\<close>
theorem server_paths_absolute:
  assumes "path_is_absolute cwd" "server_options_loop cwd opts (options_new cwd) = Some (Inr so)"
  shows "path_is_absolute (so_config_file so) \<and> path_is_absolute (so_log_file so) \<and> path_is_absolute (so_pid_file so) \<and>
    path_is_absolute (ResolveDataDir dir configured (so_config_file so) cwd) \<and>
    ResolveDataDir dir configured (so_config_file so) cwd = ResolveDataDir dir' configured (so_config_file so) launch \<and>
    (path_is_absolute configured \<longrightarrow> ResolveDataDir dir configured (so_config_file so) cwd = configured)"
proof -
  note so = options_new_absolute [OF assms]
  moreover note ResolveDataDir_absolute [OF so [THEN conjunct1]]
  moreover have "path_is_absolute configured \<longrightarrow> ResolveDataDir dir configured (so_config_file so) cwd = configured"
    by (auto simp: ResolveDataDir_def Let_def path_is_absolute_def)
  ultimately show ?thesis by blast
qed

theorem server_paths_absolute_witness:
  "ResolveDataDir ''/'' ''db'' ''/srv/etc/raft.cfg'' ''/srv'' = ''/srv/etc/db'' \<and>
   ResolveDataDir ''/'' ''db'' ''/srv/etc/raft.cfg'' ''/srv'' = ResolveDataDir ''/tmp'' ''db'' ''/srv/etc/raft.cfg'' ''/''"
  using server_paths_absolute [of "''/srv''" "[(CHR ''c'', ''etc/raft.cfg'')]" "(options_new ''/srv'')\<lparr>so_config_file := ''/srv/etc/raft.cfg''\<rparr>"
      "''/''" "''db''" "''/tmp''" "''/''"]
  by (simp add: server_option_def option_path_def path_absolute_def path_is_absolute_def path_append_def options_new_def
      ResolveDataDir_def path_parent_def Let_def)

subsection \<open>Start and shutdown\<close>

text \<open>
  A server that reaches its polling loop has found no live instance, its configuration is valid, the database of its
  pod is opened with the settings of the configuration from an absolute directory, and it serves if it was bound.
\<close>
theorem server_main_runs:
  assumes "path_is_absolute (sw_cwd w)" "server_main env w opts = Some (Inr s)"
  shows "\<exists>so config d p. server_options_loop (sw_cwd w) opts (options_new (sw_cwd w)) = Some (Inr so) \<and> another_instance w so = Some False \<and>
    server_config (sw_contents w) (sw_vars w) (sw_cwd w) so = Some config \<and> Validate config \<and> path_is_absolute (mc_data_dir config) \<and>
    db_open env (DBConfig.truncate (BuildDBConfig config)) (sw_disk w (mc_data_dir config)) = Some d \<and>
    rm_db (ss_resources s) = Some d \<and> rm_pod (ss_resources s) = Some p \<and> pd_db p = d \<and>
    ss_phase s = InRunServer \<and> ss_serving s = sw_binds w (server_addr (ss_resources s))"
proof -
  obtain so where so: "server_options_loop (sw_cwd w) opts (options_new (sw_cwd w)) = Some (Inr so)" "another_instance w so = Some False"
    using assms(2) by (cases "server_options_loop (sw_cwd w) opts (options_new (sw_cwd w))")
      (auto simp: server_main_def bind_eq_Some_conv split: sum.splits if_splits)
  obtain config dir pid where config: "server_config (sw_contents w) (sw_vars w) (sw_cwd w) so = Some config"
    and run: "server_run env w dir pid config = Some (Inr s)"
    using assms(2) so by (auto simp: server_main_def split: option.splits if_splits daemonized.splits)
  have valid: "Validate config"
    using config by (auto simp: server_config_def Let_def split: prod.splits bool.splits if_splits)
  have dir: "path_is_absolute (mc_data_dir config)"
    using config ResolveDataDir_absolute(1) [OF options_new_absolute [OF assms(1) so(1), THEN conjunct1]]
    by (auto simp: server_config_def Let_def split: prod.splits bool.splits if_splits)
  then have "db_directory (BuildDBConfig config) = mc_data_dir config"
    by (auto simp: db_directory_def BuildDBConfig_def path_is_absolute_def default_settings_def)
  then show ?thesis using so config valid dir run
    by (auto simp: server_run_def RunServer_begin_def LoadConfig_def InitDb_config_def InitDb_def InitPod_def bind_eq_Some_conv server_started_def
        pod_new_def split: prod.splits bool.splits if_splits)
qed
















subsection \<open>The client at the end of its input\<close>

text \<open>At the end of its input the client neither prints nor stops: every further round does nothing.\<close>

theorem client_loop_spins:
  "client_loop net n None d s = Some (None, d, s, []) \<and>
   (dropWhile is_space rest = [] \<longrightarrow> client_loop net (Suc n) (Some rest) d s = Some (None, d, s, []))"
proof -
  have n: "client_loop net n None d s = Some (None, d, s, [])" for n
    by (induction n) (simp_all add: client_command_def cin_word_def)
  then show ?thesis by (simp add: client_command_def cin_word_def read_word_def)
qed

end
