(* ===== verification/Stack_Theorems.thy ===== *)
theory Stack_Theorems
  imports Server
begin

text \<open>
  The whole stack on one node: a configuration starts a server, the server elects itself, a client made from the same
  configuration sends requests, and the answers are those of a map.  This composes \<open>Config\<close>, \<open>Resources\<close>, \<open>Server\<close>, \<open>Pod\<close>,
  \<open>RaftLog\<close>, \<open>DB\<close> and \<open>DB_Client\<close>.
\<close>

section \<open>Calls of a client\<close>










lemma serves_alone_mono: "serves_alone env N (n + k) p m \<Longrightarrow> serves_alone env N n p m"
  unfolding serves_alone_def by fastforce


section \<open>A server on one node\<close>






end
