(* ===== verification/LLM_Facade.thy ===== *)
theory LLM_Facade
  imports LLM_Theorems
begin

text \<open>
  \<^verbatim>\<open>LLMStore\<close> of \<^verbatim>\<open>src/mokv/llm/store.hpp\<close>, the one object that applications use: four stores over one key-value store.  \<open>llm_op\<close> are
  its calls that write.  The main result is that the four stores do not disturb each other although they share
  the key-value store.
\<close>

section \<open>The calls\<close>

definition PutPromptCache :: "'s kv_vtable \<Rightarrow> PromptCacheEntry \<Rightarrow> 's \<Rightarrow> (KVResult \<times> 's) option" where
  "PutPromptCache kv e s = pc_Put kv e s"

definition GetPromptCache :: "'s kv_vtable \<Rightarrow> 's \<Rightarrow> string \<Rightarrow> string \<Rightarrow> string \<Rightarrow> string \<Rightarrow> PromptCacheEntry option option" where
  "GetPromptCache kv s tenant app_id model prompt_hash = pc_Get kv s tenant app_id model prompt_hash"

definition ListPromptCacheEntries :: "'s kv_vtable \<Rightarrow> 's \<Rightarrow> string \<Rightarrow> string \<Rightarrow> string \<Rightarrow> PromptCacheEntry list option" where
  "ListPromptCacheEntries kv s tenant app_id model = pc_List kv s tenant app_id model"

definition DeletePromptCache :: "'s kv_vtable \<Rightarrow> string \<Rightarrow> string \<Rightarrow> string \<Rightarrow> string \<Rightarrow> 's \<Rightarrow> (KVResult \<times> 's) option" where
  "DeletePromptCache kv tenant app_id model prompt_hash s = pc_Delete kv tenant app_id model prompt_hash s"

definition SaveConversation :: "'s kv_vtable \<Rightarrow> ConversationSession \<Rightarrow> 's \<Rightarrow> (KVResult \<times> 's) option" where
  "SaveConversation kv session s = conv_Save kv session s"

definition GetConversation :: "'s kv_vtable \<Rightarrow> 's \<Rightarrow> string \<Rightarrow> string \<Rightarrow> string \<Rightarrow> ConversationSession option option" where
  "GetConversation kv s tenant app_id session_id = conv_Get kv s tenant app_id session_id"

definition AppendConversationTurn ::
    "'s kv_vtable \<Rightarrow> ConversationDescriptor \<Rightarrow> ConversationTurn \<Rightarrow> 's \<Rightarrow> (KVResult \<times> 's) option" where
  "AppendConversationTurn kv descriptor turn s = conv_AppendTurn kv descriptor turn s"

definition ListConversationSessions :: "'s kv_vtable \<Rightarrow> 's \<Rightarrow> string \<Rightarrow> string \<Rightarrow> ConversationSummary list option" where
  "ListConversationSessions kv s tenant app_id = conv_List kv s tenant app_id"

definition ListConversationTurns :: "'s kv_vtable \<Rightarrow> 's \<Rightarrow> string \<Rightarrow> string \<Rightarrow> string \<Rightarrow> ConversationTurn list option" where
  "ListConversationTurns kv s tenant app_id session_id = conv_ListTurns kv s tenant app_id session_id"

definition TrimConversationToLastTurns ::
    "'s kv_vtable \<Rightarrow> string \<Rightarrow> string \<Rightarrow> string \<Rightarrow> nat \<Rightarrow> 's \<Rightarrow> (KVResult \<times> 's) option" where
  "TrimConversationToLastTurns kv tenant app_id session_id keep s = conv_TrimToLastTurns kv tenant app_id session_id keep s"

definition DeleteConversation :: "'s kv_vtable \<Rightarrow> string \<Rightarrow> string \<Rightarrow> string \<Rightarrow> 's \<Rightarrow> (KVResult \<times> 's) option" where
  "DeleteConversation kv tenant app_id session_id s = conv_Delete kv tenant app_id session_id s"

definition PutRetrievalChunk :: "'s kv_vtable \<Rightarrow> RetrievalChunk \<Rightarrow> 's \<Rightarrow> (KVResult \<times> 's) option" where
  "PutRetrievalChunk kv c s = rv_Put kv c s"

definition GetRetrievalChunk :: "'s kv_vtable \<Rightarrow> 's \<Rightarrow> string \<Rightarrow> string \<Rightarrow> string \<Rightarrow> string \<Rightarrow> RetrievalChunk option option" where
  "GetRetrievalChunk kv s tenant base document chunk = rv_Get kv s tenant base document chunk"

definition ListRetrievalChunks :: "'s kv_vtable \<Rightarrow> 's \<Rightarrow> string \<Rightarrow> string \<Rightarrow> string \<Rightarrow> RetrievalChunk list option" where
  "ListRetrievalChunks kv s tenant base document = rv_List kv s tenant base document"

definition DeleteRetrievalChunk :: "'s kv_vtable \<Rightarrow> string \<Rightarrow> string \<Rightarrow> string \<Rightarrow> string \<Rightarrow> 's \<Rightarrow> (KVResult \<times> 's) option" where
  "DeleteRetrievalChunk kv tenant base document chunk s = rv_Delete kv tenant base document chunk s"

definition PutRuntimeConfig :: "'s kv_vtable \<Rightarrow> RuntimeConfigRecord \<Rightarrow> 's \<Rightarrow> (KVResult \<times> 's) option" where
  "PutRuntimeConfig kv r s = rt_Put kv r s"

definition GetRuntimeConfig :: "'s kv_vtable \<Rightarrow> 's \<Rightarrow> string \<Rightarrow> string \<Rightarrow> string \<Rightarrow> RuntimeConfigRecord option option" where
  "GetRuntimeConfig kv s tenant app_id profile = rt_Get kv s tenant app_id profile"

definition ListRuntimeConfigs :: "'s kv_vtable \<Rightarrow> 's \<Rightarrow> string \<Rightarrow> string \<Rightarrow> RuntimeConfigRecord list option" where
  "ListRuntimeConfigs kv s tenant app_id = rt_List kv s tenant app_id"

definition DeleteRuntimeConfig :: "'s kv_vtable \<Rightarrow> string \<Rightarrow> string \<Rightarrow> string \<Rightarrow> 's \<Rightarrow> (KVResult \<times> 's) option" where
  "DeleteRuntimeConfig kv tenant app_id profile s = rt_Delete kv tenant app_id profile s"

datatype llm_op =
    LPutPrompt PromptCacheEntry
  | LDeletePrompt string string string string
  | LSave ConversationSession
  | LAppend ConversationDescriptor ConversationTurn
  | LTrim string string string nat
  | LDeleteConversation string string string
  | LPutChunk RetrievalChunk
  | LDeleteChunk string string string string
  | LPutConfig RuntimeConfigRecord
  | LDeleteConfig string string string

fun llm_exec :: "'s kv_vtable \<Rightarrow> llm_op \<Rightarrow> 's \<Rightarrow> (KVResult \<times> 's) option" where
  "llm_exec kv (LPutPrompt e) s = PutPromptCache kv e s"
| "llm_exec kv (LDeletePrompt t a m h) s = DeletePromptCache kv t a m h s"
| "llm_exec kv (LSave session) s = SaveConversation kv session s"
| "llm_exec kv (LAppend d turn) s = AppendConversationTurn kv d turn s"
| "llm_exec kv (LTrim t a i keep) s = TrimConversationToLastTurns kv t a i keep s"
| "llm_exec kv (LDeleteConversation t a i) s = DeleteConversation kv t a i s"
| "llm_exec kv (LPutChunk c) s = PutRetrievalChunk kv c s"
| "llm_exec kv (LDeleteChunk t b d c) s = DeleteRetrievalChunk kv t b d c s"
| "llm_exec kv (LPutConfig r) s = PutRuntimeConfig kv r s"
| "llm_exec kv (LDeleteConfig t a p) s = DeleteRuntimeConfig kv t a p s"

lemmas facade_writes = PutPromptCache_def DeletePromptCache_def SaveConversation_def AppendConversationTurn_def
  TrimConversationToLastTurns_def DeleteConversation_def PutRetrievalChunk_def DeleteRetrievalChunk_def PutRuntimeConfig_def
  DeleteRuntimeConfig_def

lemmas facade_reads = GetPromptCache_def ListPromptCacheEntries_def GetConversation_def ListConversationSessions_def
  ListConversationTurns_def GetRetrievalChunk_def ListRetrievalChunks_def GetRuntimeConfig_def ListRuntimeConfigs_def

section \<open>The areas of the four stores\<close>

datatype area = PromptCaches | Conversations | Chunks | RuntimeConfigs

fun op_area :: "llm_op \<Rightarrow> area" where
  "op_area (LPutPrompt e) = PromptCaches"
| "op_area (LDeletePrompt t a m h) = PromptCaches"
| "op_area (LPutChunk c) = Chunks"
| "op_area (LDeleteChunk t b d c) = Chunks"
| "op_area (LPutConfig r) = RuntimeConfigs"
| "op_area (LDeleteConfig t a p) = RuntimeConfigs"
| "op_area _ = Conversations"

fun area_prefix :: "area \<Rightarrow> string" where
  "area_prefix PromptCaches = ''llm:prompt-cache:''"
| "area_prefix Conversations = ''llm:conversation:''"
| "area_prefix Chunks = ''llm:retrieval:''"
| "area_prefix RuntimeConfigs = ''llm:runtime-config:''"

lemma area_keys:
  "prefix ''llm:prompt-cache:'' (PromptCache_key t a m h)" "prefix ''llm:prompt-cache:'' (PromptCachePrefix t a m)"
  "prefix ''llm:conversation:'' (Conversation_key t a s)" "prefix ''llm:conversation:'' (ConversationMeta t a s)"
  "prefix ''llm:conversation:'' (ConversationTurnPrefix t a s)" "prefix ''llm:conversation:'' (ConversationTurn_key t a s n)"
  "prefix ''llm:conversation:'' (ConversationPrefix t a)"
  "prefix ''llm:retrieval:'' (Retrieval_key t b d c)" "prefix ''llm:retrieval:'' (RetrievalPrefix t b d)"
  "prefix ''llm:runtime-config:'' (RuntimeConfig_key t a p)" "prefix ''llm:runtime-config:'' (RuntimeConfigPrefix t a)"
  by (simp_all add: key_parts JoinKeyParts_def)

lemma areas_disjoint: "prefix (area_prefix A) k \<Longrightarrow> prefix (area_prefix B) k \<Longrightarrow> A = B"
  by (drule (1) prefix_same_cases) (cases A; cases B; simp)

definition agree_on :: "area \<Rightarrow> (string \<rightharpoonup> string) \<Rightarrow> (string \<rightharpoonup> string) \<Rightarrow> bool" where
  "agree_on A f g = (\<forall>k. prefix (area_prefix A) k \<longrightarrow> f k = g k)"

definition agree_off :: "area \<Rightarrow> (string \<rightharpoonup> string) \<Rightarrow> (string \<rightharpoonup> string) \<Rightarrow> bool" where
  "agree_off A f g = (\<forall>k. \<not> prefix (area_prefix A) k \<longrightarrow> f k = g k)"

lemma agree_off_on: "agree_off A f g \<Longrightarrow> B \<noteq> A \<Longrightarrow> agree_on B f g"
  using areas_disjoint by (auto simp: agree_on_def agree_off_def)

lemma entries_under_agree:
  assumes "agree_on A f g" "prefix (area_prefix A) p"
  shows "entries_under p f = entries_under p g"
proof -
  have k: "f k = g k" if "prefix p k" for k
    using assms that prefix_order.trans by (auto simp: agree_on_def)
  then have S: "{k \<in> dom f. prefix p k} = {k \<in> dom g. prefix p k}" by (auto simp: dom_def)
  have "x \<in> S" if "x \<in> set (sorted_list_of_set S)" for x and S :: "string set"
    using that by (cases "finite S") simp_all
  then have "f k = g k" if "k \<in> set (keys_under p g)" for k using that k unfolding keys_under_def by blast
  then show ?thesis using S by (simp add: entries_under_def keys_under_def)
qed

lemma save_map_agree:
  assumes "finite (dom f)"
  shows "agree_off Conversations (save_map session f) f"
proof (unfold agree_off_def, intro allI impI)
  fix k assume k: "\<not> prefix (area_prefix Conversations) k"
  then have "k \<notin> fst ` set (conv_entries session)" using area_keys by (fastforce simp: conv_entries_def Let_def)
  moreover have "\<not> prefix (ConversationTurnPrefix (cs_tenant session) (cs_app_id session) (cs_session_id session)) k"
    using k area_keys(5) prefix_order.trans by fastforce
  ultimately show "save_map session f k = f k" using save_map_other [OF _ assms] by blast
qed

lemma delete_map_agree:
  assumes "finite (dom f)"
  shows "agree_off Conversations (delete_map t a s f) f"
proof (unfold agree_off_def, intro allI impI)
  fix k assume k: "\<not> prefix (area_prefix Conversations) k"
  then have "k \<noteq> ConversationMeta t a s" "k \<noteq> Conversation_key t a s" "\<not> prefix (ConversationTurnPrefix t a s) k"
    using area_keys(3-5) prefix_order.trans by fastforce+
  then show "delete_map t a s f k = f k" using assms by (simp add: delete_map_def restrict_map_def)
qed

section \<open>Isolation\<close>

context llm_host
begin

text \<open>Every call that returns leaves a store that differs only in its own area.\<close>

lemma save_keeps:
  assumes "rep st f" "conv_Save kv session st = Some (r, st')"
  shows "\<exists>f'. rep st' f' \<and> agree_off Conversations f' f"
proof (cases "cs_session_id session = []")
  case True
  then show ?thesis using assms by (auto simp: conv_Save_def agree_off_def)
next
  case False
  let ?ks = "keys_under (ConversationTurnPrefix (cs_tenant session) (cs_app_id session) (cs_session_id session)) f"
  have "\<exists>st1. vt_BatchDelete kv ?ks st = Some (KVResult_OK, st1)"
    using rep_BatchDelete [OF assms(1)] under_llm [OF rep_finite [OF assms(1)] llm_keys(4)] by blast
  then have "length (cs_turns session) < 2 ^ 32"
    using assms(2) False by (auto simp: conv_Save_def Let_def bind_eq_Some_conv not_le rep_ListKeys [OF assms(1)] split: if_splits)
  from conv_Save_holds [OF assms(1) False this] show ?thesis
    using assms(2) save_map_agree [OF rep_finite [OF assms(1)]] by auto
qed

lemma update_keeps: "rep st' (f(k := v)) \<Longrightarrow> prefix (area_prefix A) k \<Longrightarrow> \<exists>f'. rep st' f' \<and> agree_off A f' f"
  by (intro exI [of _ "f(k := v)"]) (auto simp: agree_off_def)

lemma unchanged_keeps: "rep st f \<Longrightarrow> \<exists>f'. rep st f' \<and> agree_off A f' f"
  by (auto simp: agree_off_def)

lemma llm_exec_keeps:
  assumes rep: "rep st f" and ex: "llm_exec kv op st = Some (r, st')"
  shows "\<exists>f'. rep st' f' \<and> agree_off (op_area op) f' f"
proof (cases op)
  case (LPutPrompt e)
  then show ?thesis
    using ex pc_Put_rep [OF rep, of e] update_keeps [of st' f _ _ PromptCaches] area_keys(1) unchanged_keeps [OF rep]
    by (cases "pc_model e = [] \<or> pc_prompt_hash e = []") (auto simp: facade_writes pc_Put_def)
next
  case (LDeletePrompt t a m h)
  then show ?thesis using ex pc_Delete_rep [OF rep, of t a m h] update_keeps [of st' f _ _ PromptCaches] area_keys(1)
    by (auto simp: facade_writes)
next
  case (LSave session)
  then show ?thesis using ex save_keeps [OF rep] by (simp add: facade_writes)
next
  case (LAppend d turn)
  then show ?thesis using ex save_keeps [OF rep] by (auto simp: facade_writes conv_AppendTurn_def bind_eq_Some_conv)
next
  case (LTrim t a i keep)
  then show ?thesis using ex save_keeps [OF rep] unchanged_keeps [OF rep]
    by (auto simp: facade_writes conv_TrimToLastTurns_def bind_eq_Some_conv split: option.splits if_splits)
next
  case (LDeleteConversation t a i)
  then show ?thesis using ex conv_Delete_rep [OF rep, of t a i] delete_map_agree [OF rep_finite [OF rep]]
    by (auto simp: facade_writes)
next
  case (LPutChunk c)
  then show ?thesis
    using ex rv_Put_rep [OF rep, of c] update_keeps [of st' f _ _ Chunks] area_keys(8) unchanged_keeps [OF rep]
    by (cases "rc_document_id c = [] \<or> rc_chunk_id c = []") (auto simp: facade_writes rv_Put_def)
next
  case (LDeleteChunk t b d c)
  then show ?thesis using ex rv_Delete_rep [OF rep, of t b d c] update_keeps [of st' f _ _ Chunks] area_keys(8)
    by (auto simp: facade_writes)
next
  case (LPutConfig c)
  then show ?thesis
    using ex rt_Put_rep [OF rep, of c] update_keeps [of st' f _ _ RuntimeConfigs] area_keys(10) unchanged_keeps [OF rep]
    by (cases "rr_profile c = []") (auto simp: facade_writes rt_Put_def)
next
  case (LDeleteConfig t a p)
  then show ?thesis using ex rt_Delete_rep [OF rep, of t a p] update_keeps [of st' f _ _ RuntimeConfigs] area_keys(10)
    by (auto simp: facade_writes)
qed

text \<open>The reads of a store depend on its own area only.\<close>

lemma prompt_reads_agree:
  assumes "rep st f" "rep st' f'" "agree_on PromptCaches f' f"
  shows "GetPromptCache kv st' t a m h = GetPromptCache kv st t a m h"
    "ListPromptCacheEntries kv st' t a m = ListPromptCacheEntries kv st t a m"
  using assms(3) area_keys(1) entries_under_agree [OF assms(3), of "PromptCachePrefix t a m"] area_keys(2)
  by (simp_all add: facade_reads pc_Get_rep [OF assms(1)] pc_Get_rep [OF assms(2)] pc_List_def rep_ListEntries [OF assms(1)]
      rep_ListEntries [OF assms(2)] agree_on_def)

lemma chunk_reads_agree:
  assumes "rep st f" "rep st' f'" "agree_on Chunks f' f"
  shows "GetRetrievalChunk kv st' t a m h = GetRetrievalChunk kv st t a m h"
    "ListRetrievalChunks kv st' t a m = ListRetrievalChunks kv st t a m"
  using assms(3) area_keys(8) entries_under_agree [OF assms(3), of "RetrievalPrefix t a m"] area_keys(9)
  by (simp_all add: facade_reads rv_Get_rep [OF assms(1)] rv_Get_rep [OF assms(2)] rv_List_def rep_ListEntries [OF assms(1)]
      rep_ListEntries [OF assms(2)] agree_on_def)

lemma config_reads_agree:
  assumes "rep st f" "rep st' f'" "agree_on RuntimeConfigs f' f"
  shows "GetRuntimeConfig kv st' t a p = GetRuntimeConfig kv st t a p"
    "ListRuntimeConfigs kv st' t a = ListRuntimeConfigs kv st t a"
  using assms(3) area_keys(10) entries_under_agree [OF assms(3), of "RuntimeConfigPrefix t a"] area_keys(11)
  by (simp_all add: facade_reads rt_Get_rep [OF assms(1)] rt_Get_rep [OF assms(2)] rt_List_def rep_ListEntries [OF assms(1)]
      rep_ListEntries [OF assms(2)] agree_on_def)

lemma conversation_reads_agree:
  assumes "rep st f" "rep st' f'" "agree_on Conversations f' f"
  shows "GetConversation kv st' t a s = GetConversation kv st t a s"
    "ListConversationSessions kv st' t a = ListConversationSessions kv st t a"
    "ListConversationTurns kv st' t a s = ListConversationTurns kv st t a s"
proof -
  note e = entries_under_agree [OF assms(3)]
  have k: "f' (ConversationMeta t a s) = f (ConversationMeta t a s)" "f' (Conversation_key t a s) = f (Conversation_key t a s)"
    using assms(3) area_keys(3,4) by (simp_all add: agree_on_def)
  have p: "entries_under (ConversationTurnPrefix t a s) f' = entries_under (ConversationTurnPrefix t a s) f"
    "entries_under (ConversationPrefix t a) f' = entries_under (ConversationPrefix t a) f"
    using e area_keys(5,7) by simp_all
  have "conv_view f' t a s = conv_view f t a s" unfolding conv_view_def turns_view_def k p ..
  then show "GetConversation kv st' t a s = GetConversation kv st t a s"
    by (simp add: facade_reads conv_Get_rep [OF assms(1)] conv_Get_rep [OF assms(2)])
  show "ListConversationSessions kv st' t a = ListConversationSessions kv st t a"
    "ListConversationTurns kv st' t a s = ListConversationTurns kv st t a s"
    by (simp_all add: facade_reads conv_List_def conv_ListTurns_def rep_ListEntries [OF assms(1)] rep_ListEntries [OF assms(2)] p)
qed

lemma llm_exec_returns:
  assumes "rep st f" "op_area op \<noteq> Conversations"
  shows "\<exists>r st'. llm_exec kv op st = Some (r, st')"
proof (cases op)
  case (LPutPrompt e)
  then show ?thesis using pc_Put_rep [OF assms(1), of e] by (auto simp: facade_writes pc_Put_def)
next
  case (LDeletePrompt t a m h)
  then show ?thesis using pc_Delete_rep [OF assms(1), of t a m h] by (auto simp: facade_writes)
next
  case (LPutChunk c)
  then show ?thesis using rv_Put_rep [OF assms(1), of c] by (auto simp: facade_writes rv_Put_def)
next
  case (LDeleteChunk t b d c)
  then show ?thesis using rv_Delete_rep [OF assms(1), of t b d c] by (auto simp: facade_writes)
next
  case (LPutConfig c)
  then show ?thesis using rt_Put_rep [OF assms(1), of c] by (auto simp: facade_writes rt_Put_def)
next
  case (LDeleteConfig t a p)
  then show ?thesis using rt_Delete_rep [OF assms(1), of t a p] by (auto simp: facade_writes)
qed (use assms(2) in simp_all)

end

text \<open>
  C37: On \<^verbatim>\<open>DBKVStore\<close> the four stores of \<^verbatim>\<open>LLMStore\<close> do not disturb each other: a write of one of them, whether it succeeds or is
  refused, changes no answer of the others, neither lookups nor listings, whatever the identifiers; and every
  write outside the conversations returns.
\<close>
theorem llm_stores_isolated:
  assumes "kv_holds env st f"
  shows "(op_area op \<noteq> Conversations \<longrightarrow> (\<exists>r st'. llm_exec DBKVStore_vtable op st = Some (r, st'))) \<and>
    (\<forall>r st'. llm_exec DBKVStore_vtable op st = Some (r, st') \<longrightarrow>
      (op_area op \<noteq> PromptCaches \<longrightarrow>
         (\<forall>t a m h. GetPromptCache DBKVStore_vtable st' t a m h = GetPromptCache DBKVStore_vtable st t a m h \<and>
            ListPromptCacheEntries DBKVStore_vtable st' t a m = ListPromptCacheEntries DBKVStore_vtable st t a m)) \<and>
      (op_area op \<noteq> Conversations \<longrightarrow>
         (\<forall>t a s. GetConversation DBKVStore_vtable st' t a s = GetConversation DBKVStore_vtable st t a s \<and>
            ListConversationSessions DBKVStore_vtable st' t a = ListConversationSessions DBKVStore_vtable st t a \<and>
            ListConversationTurns DBKVStore_vtable st' t a s = ListConversationTurns DBKVStore_vtable st t a s)) \<and>
      (op_area op \<noteq> Chunks \<longrightarrow>
         (\<forall>t b d c. GetRetrievalChunk DBKVStore_vtable st' t b d c = GetRetrievalChunk DBKVStore_vtable st t b d c \<and>
            ListRetrievalChunks DBKVStore_vtable st' t b d = ListRetrievalChunks DBKVStore_vtable st t b d)) \<and>
      (op_area op \<noteq> RuntimeConfigs \<longrightarrow>
         (\<forall>t a p. GetRuntimeConfig DBKVStore_vtable st' t a p = GetRuntimeConfig DBKVStore_vtable st t a p \<and>
            ListRuntimeConfigs DBKVStore_vtable st' t a = ListRuntimeConfigs DBKVStore_vtable st t a)))"
proof (intro conjI allI impI)
  show "\<exists>r st'. llm_exec DBKVStore_vtable op st = Some (r, st')" if "op_area op \<noteq> Conversations"
    using llm.llm_exec_returns [OF assms that] .
next
  fix r st'
  assume "llm_exec DBKVStore_vtable op st = Some (r, st')"
  from llm.llm_exec_keeps [OF assms this] obtain f' where f': "kv_holds env st' f'" "agree_off (op_area op) f' f" by blast
  note on = agree_off_on [OF f'(2)]
  note reads = llm.prompt_reads_agree [OF assms f'(1)] llm.chunk_reads_agree [OF assms f'(1)] llm.config_reads_agree [OF assms f'(1)]
    llm.conversation_reads_agree [OF assms f'(1)]
  fix t a m h s b d c p
  show "GetPromptCache DBKVStore_vtable st' t a m h = GetPromptCache DBKVStore_vtable st t a m h"
    "ListPromptCacheEntries DBKVStore_vtable st' t a m = ListPromptCacheEntries DBKVStore_vtable st t a m"
    if "op_area op \<noteq> PromptCaches" using reads(1,2) on [of PromptCaches] that by auto
  show "GetConversation DBKVStore_vtable st' t a s = GetConversation DBKVStore_vtable st t a s"
    "ListConversationSessions DBKVStore_vtable st' t a = ListConversationSessions DBKVStore_vtable st t a"
    "ListConversationTurns DBKVStore_vtable st' t a s = ListConversationTurns DBKVStore_vtable st t a s"
    if "op_area op \<noteq> Conversations" using reads(7-9) on [of Conversations] that by auto
  show "GetRetrievalChunk DBKVStore_vtable st' t b d c = GetRetrievalChunk DBKVStore_vtable st t b d c"
    "ListRetrievalChunks DBKVStore_vtable st' t b d = ListRetrievalChunks DBKVStore_vtable st t b d"
    if "op_area op \<noteq> Chunks" using reads(3,4) on [of Chunks] that by auto
  show "GetRuntimeConfig DBKVStore_vtable st' t a p = GetRuntimeConfig DBKVStore_vtable st t a p"
    "ListRuntimeConfigs DBKVStore_vtable st' t a = ListRuntimeConfigs DBKVStore_vtable st t a"
    if "op_area op \<noteq> RuntimeConfigs" using reads(5,6) on [of RuntimeConfigs] that by auto
qed

theorem llm_stores_isolated_witness:
  "\<exists>st r st'. kv_open example_env (example_config True 1) (Map.empty, None, 0) = Some st \<and>
     llm_exec DBKVStore_vtable (LPutPrompt example_prompt) st = Some (r, st') \<and>
     ListConversationSessions DBKVStore_vtable st' ''t'' ''a'' = ListConversationSessions DBKVStore_vtable st ''t'' ''a''"
proof -
  obtain st where st: "kv_open example_env (example_config True 1) (Map.empty, None, 0) = Some st" "kv_holds example_env st Map.empty"
    using example_store .
  from llm_stores_isolated [OF st(2), of "LPutPrompt example_prompt"] st(1) show ?thesis by fastforce
qed

end
