(* ===== verification/CompressedBlock.thy ===== *)
theory CompressedBlock
  imports SST Example_Env
begin

text \<open>
  The two classes that hold a block with its compression: \<^verbatim>\<open>CompressedBlock\<close> of \<^verbatim>\<open>src/mokv/utils/compression.hpp\<close>, and
  \<^verbatim>\<open>CompressedDataBlock\<close> of \<^verbatim>\<open>src/mokv/lsm/sst.hpp\<close>, which decompresses on the first access; and the rest of the interface of the
  compressors, their sizes and the selection of a type.
\<close>

section \<open>Sizes and selection\<close>

definition snappy_GetDecompressedSize :: "bytes \<Rightarrow> nat" where
  "snappy_GetDecompressedSize compressed_data = length compressed_data"

text \<open>\<open>frame_info\<close> is \<^verbatim>\<open>LZ4F_getFrameInfo\<close> with the creation of its context: the content size of a frame, or \<open>None\<close> for an error.\<close>

definition lz4_GetDecompressedSize :: "(bytes \<Rightarrow> nat option) \<Rightarrow> bytes \<Rightarrow> nat" where
  "lz4_GetDecompressedSize frame_info compressed_data =
     (if compressed_data = [] then 0
      else case frame_info compressed_data of None \<Rightarrow> 0 | Some n \<Rightarrow> if 2 ^ 64 \<le> n then 0 else n)"

text \<open>The quotient is a \<^verbatim>\<open>double\<close>; below 2 ^ 50 the comparison with 1.5 is exact, and a division by zero is infinite.\<close>

definition SelectByRatio :: "nat \<Rightarrow> nat \<Rightarrow> CompressionType" where
  "SelectByRatio original_size compressed_size =
     (if original_size = 0 then kNone else if 3 * compressed_size < 2 * original_size then kLZ4 else kNone)"

definition AutoSelect :: "bytes \<Rightarrow> CompressionType" where
  "AutoSelect d = kLZ4"

section \<open>A block and its compression\<close>

record CompressedBlock =
  bk_data :: bytes
  bk_original_size :: nat
  bk_compressed :: bool
  bk_compression_type :: CompressionType

definition block_empty :: CompressedBlock where
  "block_empty = \<lparr>bk_data = [], bk_original_size = 0, bk_compressed = False, bk_compression_type = kNone\<rparr>"

definition block_Init :: "bytes \<Rightarrow> CompressedBlock \<Rightarrow> CompressedBlock" where
  "block_Init d b = \<lparr>bk_data = d, bk_original_size = length d, bk_compressed = False, bk_compression_type = kNone\<rparr>"

definition block_Compress :: "'c lz4_api \<Rightarrow> CompressionType \<Rightarrow> CompressedBlock \<Rightarrow> CompressedBlock option" where
  "block_Compress api ty b =
     (if bk_data b = [] then Some b
      else do {
        r \<leftarrow> factory_Compress api ty (bk_data b);
        Some (case r of
            None \<Rightarrow> b
          | Some cd \<Rightarrow>
              if cd_data cd = [] then b
              else \<lparr>bk_data = cd_data cd, bk_original_size = cd_original_size cd, bk_compressed = True, bk_compression_type = ty\<rparr>) })"

definition block_Decompress :: "'c lz4_api \<Rightarrow> CompressedBlock \<Rightarrow> CompressedBlock option" where
  "block_Decompress api b =
     (if \<not> bk_compressed b \<or> bk_data b = [] then Some b
      else do {
        r \<leftarrow> factory_Decompress api (bk_compression_type b)
          \<lparr>cd_data = bk_data b, cd_original_size = bk_original_size b\<rparr> (bk_original_size b);
        Some (case r of
            None \<Rightarrow> b
          | Some (n, out) \<Rightarrow>
              if 0 < n then b\<lparr>bk_data := out, bk_compressed := False, bk_compression_type := kNone\<rparr> else b) })"

definition block_Swap :: "bytes \<Rightarrow> CompressedBlock \<Rightarrow> bytes \<times> CompressedBlock" where
  "block_Swap other b = (bk_data b, b\<lparr>bk_data := other\<rparr>)"

section \<open>A data block that is decompressed on demand\<close>

record CompressedDataBlock =
  cb_config :: CompressionConfig
  cb_bloom :: "bloom option"
  cb_compressed_size :: nat
  cb_compressed :: bool
  cb_has_header :: bool
  cb_decompressed :: bool
  cb_entries_data :: bytes
  cb_decompressed_data :: bytes

text \<open>The memory behind the pointer is \<open>mem\<close>; an end before the start of the entries is undefined.\<close>

definition LoadCompressed ::
    "bytes \<Rightarrow> nat \<Rightarrow> CompressionConfig \<Rightarrow> CompressedDataBlock \<Rightarrow> (nat \<times> CompressedDataBlock) option" where
  "LoadCompressed mem compressed_size config b =
     do { size \<leftarrow> ReadSize mem 0;
          flags \<leftarrow> at mem 8;
          (bloom, n) \<leftarrow> bf_Load mem 9;
          (if compressed_size < 9 + n then None
           else do {
             entries \<leftarrow> read_bytes mem (9 + n) (compressed_size - (9 + n));
             let compressed = odd (of_char flags :: nat);
             Some (compressed_size,
               b\<lparr>cb_config := config, cb_bloom := Some bloom, cb_compressed_size := size, cb_compressed := compressed,
                 cb_has_header := odd ((of_char flags :: nat) div 2), cb_decompressed := \<not> compressed, cb_entries_data := entries\<rparr>) }) }"

text \<open>
  The first access.  Once the block is decompressed, the compressed bytes are gone, and a later call returns them, that
  is nothing.  The result is the memory behind the returned pointer.
\<close>

definition EnsureDecompressed :: "'c lz4_api \<Rightarrow> CompressedDataBlock \<Rightarrow> (bytes \<times> CompressedDataBlock) option" where
  "EnsureDecompressed api b =
     (if \<not> cb_compressed b \<or> cb_decompressed b then Some (cb_entries_data b, b)
      else do {
        r \<leftarrow> factory_Decompress api (cc_type (cb_config b))
          \<lparr>cd_data = cb_entries_data b, cd_original_size = cb_compressed_size b\<rparr> (cb_compressed_size b);
        Some (case r of
            None \<Rightarrow> (cb_entries_data b, b)
          | Some (n, out) \<Rightarrow>
              if 0 < n then (out, b\<lparr>cb_decompressed_data := out, cb_decompressed := True, cb_entries_data := []\<rparr>)
              else (cb_entries_data b, b\<lparr>cb_decompressed_data := out\<rparr>)) })"

section \<open>Properties\<close>

lemma factory_cases:
  assumes "ty \<noteq> kSnappy"
  obtains "factory_Compress api ty d = Some None" | cd where "factory_Compress api ty d = Some (Some cd)" "cd_original_size cd = length d \<or> cd_data cd = []"
  using assms that by (cases ty) (auto simp: lz4_Compress_def split: option.splits)

text \<open>
  Compressing a block and decompressing it restores the data, for every type but the embedded codec, whether the
  compression succeeds or not, if the LZ4 library restores its frames.
\<close>
theorem block_roundtrip:
  assumes "lz4_frame_roundtrip api" "ty \<noteq> kSnappy"
  shows "\<exists>b b'. block_Compress api ty (block_Init d b0) = Some b \<and> block_Decompress api b = Some b' \<and>
    bk_data b' = d \<and> bk_original_size b' = length d \<and> \<not> bk_compressed b'"
proof (cases "d = []")
  case True
  then show ?thesis by (simp add: block_Compress_def block_Decompress_def block_Init_def)
next
  case False
  from assms(2) show ?thesis
  proof (cases rule: factory_cases [where api = api and d = d])
    case 1
    then show ?thesis using False by (simp add: block_Compress_def block_Decompress_def block_Init_def)
  next
    case (2 cd)
    show ?thesis
    proof (cases "cd_data cd = []")
      case True
      then show ?thesis using 2 False by (simp add: block_Compress_def block_Decompress_def block_Init_def)
    next
      case cd: False
      then show ?thesis using 2 False factory_roundtrip [OF assms 2(1) cd]
        by (simp add: block_Compress_def block_Decompress_def block_Init_def)
    qed
  qed
qed

text \<open>
  A block that is compressed twice is not restored by two decompressions: the first yields the compressed bytes and
  marks the block as not compressed, and the second does nothing.
\<close>
theorem block_compressed_twice:
  assumes "lz4_frame_roundtrip api" "factory_Compress api kLZ4 d = Some (Some c)" "cd_data c \<noteq> []"
    "factory_Compress api kLZ4 (cd_data c) = Some (Some c')" "cd_data c' \<noteq> []" "d \<noteq> []"
  shows "\<exists>b b' b''. block_Compress api kLZ4 (block_Init d b0) = Some b \<and> block_Compress api kLZ4 b = Some b' \<and>
    block_Decompress api b' = Some b'' \<and> bk_data b'' = cd_data c \<and> \<not> bk_compressed b'' \<and> block_Decompress api b'' = Some b''"
proof -
  have "cd_original_size c' = length (cd_data c)" using assms(3-5) by (auto simp: lz4_Compress_def split: option.splits)
  then show ?thesis
    using assms factory_roundtrip [OF assms(1) _ assms(4,5)] by (simp add: block_Compress_def block_Decompress_def block_Init_def)
qed

text \<open>
  A data block is read back from its bytes: the size of its entries, the flags, the filter, the payload.  The first access
  returns the entries, decompressed if the flag says so; a second access of a compressed block returns nothing.
\<close>
theorem compressed_data_block_read:
  assumes bf: "bf_wf bf" "bf_binary_size bf < 2 ^ 60" "length pad = 8" and len: "length (bf_bytes bf pad) = bf_binary_size bf"
    and n: "length d < size_max" and rt: "lz4_frame_roundtrip api"
    and mem: "mem = le_bytes 8 (length d) @ [byte flags] @ bf_bytes bf pad @ payload @ rest" and flags: "flags < 256"
    and csize: "csize = 9 + bf_binary_size bf + length payload"
    and payload: "if odd flags then factory_Compress api (cc_type config) d = Some (Some \<lparr>cd_data = payload, cd_original_size = length d\<rparr>) \<and>
      cc_type config \<noteq> kSnappy \<and> payload \<noteq> [] \<and> d \<noteq> [] else payload = d"
  shows "\<exists>b b'. LoadCompressed mem csize config b0 = Some (csize, b) \<and> cb_bloom b = Some bf \<and> EnsureDecompressed api b = Some (d, b') \<and>
    cb_decompressed b' \<and> EnsureDecompressed api b' = Some (if odd flags then [] else d, b')"
proof -
  let ?pre = "le_bytes 8 (length d) @ [byte flags]"
  have r: "ReadSize mem 0 = Some (length d)" using ReadSize_at [OF _ n, of 0 "[]"] mem by simp
  have a: "at mem 8 = Some (byte flags)" by (simp add: mem at_def nth_append)
  have b: "bf_Load mem 9 = Some (bf, bf_binary_size bf)" using bf_Load_at [OF bf, of ?pre "payload @ rest"] mem by simp
  have e: "read_bytes mem (9 + bf_binary_size bf) (length payload) = Some payload"
    using read_bytes_at [of "length payload" payload "9 + bf_binary_size bf" "?pre @ bf_bytes bf pad" rest] len mem by simp
  have f: "(of_char (byte flags) :: nat) = flags" "flags mod 256 = flags" using flags by (simp_all add: byte_def)
  show ?thesis
  proof (cases "odd flags")
    case True
    then have "factory_Decompress api (cc_type config) \<lparr>cd_data = payload, cd_original_size = length d\<rparr> (length d) = Some (Some (length d, d))"
      using factory_roundtrip [OF rt, of "cc_type config" d "\<lparr>cd_data = payload, cd_original_size = length d\<rparr>"] payload by simp
    then show ?thesis using True payload by (simp add: LoadCompressed_def EnsureDecompressed_def r a b e f csize)
  next
    case False
    then have p: "payload = d" using payload by simp
    show ?thesis using False e by (simp add: LoadCompressed_def EnsureDecompressed_def r a b f csize p)
  qed
qed

end
