(* ===== verification/RWLock.thy ===== *)
theory RWLock
  imports Prelude "HOL-Library.Monad_Syntax"
begin

text \<open>
  The lock of \<^verbatim>\<open>src/mokv/utils/lock.hpp\<close> and its two guard classes.  The lock of the system, \<^verbatim>\<open>pthread_rwlock_t\<close>, is modelled by its
  documented state: the number of readers and whether there is a writer.  A guard is an object with a pointer that is
  null after it was moved from; threads construct, move and destroy guards in any order (\<open>lock_step\<close>).  A constructor that has to
  wait is a step that is not yet possible.
\<close>

section \<open>The lock and its guards\<close>

record rwlock =
  rw_readers :: nat
  rw_writer :: bool

definition rwlock_init :: rwlock where
  "rwlock_init = \<lparr>rw_readers = 0, rw_writer = False\<rparr>"

text \<open>The calls of the system; \<open>None\<close>: the caller blocks, or, for the release of a lock that is not held, the behaviour is undefined.\<close>

definition rdlock :: "rwlock \<Rightarrow> rwlock option" where
  "rdlock l = (if rw_writer l then None else Some (l\<lparr>rw_readers := rw_readers l + 1\<rparr>))"

definition wrlock :: "rwlock \<Rightarrow> rwlock option" where
  "wrlock l = (if rw_writer l \<or> 0 < rw_readers l then None else Some (l\<lparr>rw_writer := True\<rparr>))"

definition unlock :: "rwlock \<Rightarrow> rwlock option" where
  "unlock l =
     (if rw_writer l then Some (l\<lparr>rw_writer := False\<rparr>)
      else if 0 < rw_readers l then Some (l\<lparr>rw_readers := rw_readers l - 1\<rparr>) else None)"

datatype mode = Shared | Exclusive

text \<open>A guard: its class and whether its pointer is set.\<close>

record guard =
  gd_mode :: mode
  gd_lock :: bool

text \<open>The lock, the guards that live (by their addresses), and the next address.\<close>

record lock_state =
  ls_lock :: rwlock
  ls_guards :: "nat \<rightharpoonup> guard"
  ls_fresh :: nat

definition lock_new :: lock_state where
  "lock_new = \<lparr>ls_lock = rwlock_init, ls_guards = Map.empty, ls_fresh = 0\<rparr>"

definition acquire :: "mode \<Rightarrow> rwlock \<Rightarrow> rwlock option" where
  "acquire m = (case m of Shared \<Rightarrow> rdlock | Exclusive \<Rightarrow> wrlock)"

definition guard_construct :: "mode \<Rightarrow> lock_state \<Rightarrow> lock_state option" where
  "guard_construct m s =
     map_option (\<lambda>l. s\<lparr>ls_lock := l, ls_guards := (ls_guards s)(ls_fresh s \<mapsto> \<lparr>gd_mode = m, gd_lock = True\<rparr>), ls_fresh := ls_fresh s + 1\<rparr>)
       (acquire m (ls_lock s))"

text \<open>The move constructor: the new guard takes the pointer.\<close>

definition guard_move :: "nat \<Rightarrow> lock_state \<Rightarrow> lock_state option" where
  "guard_move b s =
     map_option (\<lambda>g. s\<lparr>ls_guards := (ls_guards s)(ls_fresh s \<mapsto> g, b \<mapsto> g\<lparr>gd_lock := False\<rparr>), ls_fresh := ls_fresh s + 1\<rparr>)
       (ls_guards s b)"

text \<open>The move assignment: the pointer that the target held is overwritten.\<close>

definition guard_assign :: "nat \<Rightarrow> nat \<Rightarrow> lock_state \<Rightarrow> lock_state option" where
  "guard_assign a b s =
     (case (ls_guards s a, ls_guards s b) of
        (Some ga, Some gb) \<Rightarrow>
          if gd_mode ga \<noteq> gd_mode gb then None
          else if a = b then Some s
          else Some (s\<lparr>ls_guards := (ls_guards s)(a \<mapsto> gb, b \<mapsto> gb\<lparr>gd_lock := False\<rparr>)\<rparr>)
      | _ \<Rightarrow> None)"

definition guard_destroy :: "nat \<Rightarrow> lock_state \<Rightarrow> lock_state option" where
  "guard_destroy a s =
     (case ls_guards s a of
        None \<Rightarrow> None
      | Some g \<Rightarrow>
          let s' = s\<lparr>ls_guards := (ls_guards s)(a := None)\<rparr> in
          if \<not> gd_lock g then Some s' else map_option (\<lambda>l. s'\<lparr>ls_lock := l\<rparr>) (unlock (ls_lock s)))"

section \<open>Steps\<close>

inductive lock_step :: "lock_state \<Rightarrow> lock_state \<Rightarrow> bool" where
  construct: "guard_construct m s = Some s' \<Longrightarrow> lock_step s s'"
| move: "guard_move b s = Some s' \<Longrightarrow> lock_step s s'"
| assign: "ls_guards s a = Some g \<Longrightarrow> \<not> gd_lock g \<Longrightarrow> guard_assign a b s = Some s' \<Longrightarrow> lock_step s s'"
| destroy: "guard_destroy a s = Some s' \<Longrightarrow> lock_step s s'"

inductive_cases lock_stepE: "lock_step s s'"












section \<open>Properties\<close>




text \<open>
  The move assignment to a guard that holds the lock loses that hold: after two shared guards, an assignment and both
  destructors, no guard is left and the lock still has a reader, so that no writer ever gets it.
\<close>
theorem move_assignment_leaks:
  "\<exists>s. do { s \<leftarrow> guard_construct Shared lock_new; s \<leftarrow> guard_construct Shared s; s \<leftarrow> guard_assign 0 1 s;
            s \<leftarrow> guard_destroy 0 s; guard_destroy 1 s } = Some s \<and>
     ls_guards s = Map.empty \<and> guard_construct Exclusive s = None"
  by (auto simp: guard_construct_def acquire_def rdlock_def wrlock_def lock_new_def rwlock_init_def guard_assign_def guard_destroy_def unlock_def
      fun_eq_iff)

end
