(* ===== verification/SST_Handle.thy ===== *)
theory SST_Handle
  imports Server Table_Theorems
begin

text \<open>
  The life of a table object of \<^verbatim>\<open>src/mokv/lsm/sst.hpp\<close> with the system calls it makes: the descriptor and the mapping it
  holds, and what it does when a call fails.  \<open>SST\<close> and \<open>SST_Build\<close> model the content of the object for calls that succeed;
  here an object extends that record by its directory, its name, its descriptor and its address, and the calls take their
  outcome from a record, so that a theorem over all outcomes covers every pattern of failures.
\<close>

section \<open>System calls\<close>

text \<open>The value of \<^verbatim>\<open>data_\<close>, which the constructor does not initialise.\<close>

datatype address = Unset | NullAddr | MapFailed | MapAt nat

text \<open>The state of the system that the object can change: files, open descriptors, and mappings with their lengths.\<close>

record os =
  os_files :: "string \<rightharpoonup> bytes"
  os_fds :: "int \<rightharpoonup> string"
  os_maps :: "nat \<rightharpoonup> nat"
  os_next_fd :: int
  os_next_map :: nat

text \<open>Which calls the system lets succeed.\<close>

record outcomes =
  sc_mkdir :: bool
  sc_open :: bool
  sc_create :: bool
  sc_truncate :: bool
  sc_stat :: bool
  sc_mmap :: bool

definition all_succeed :: outcomes where
  "all_succeed = \<lparr>sc_mkdir = True, sc_open = True, sc_create = True, sc_truncate = True, sc_stat = True, sc_mmap = True\<rparr>"

lemma all_succeed_simps [simp]:
  "sc_mkdir all_succeed" "sc_open all_succeed" "sc_create all_succeed" "sc_truncate all_succeed" "sc_stat all_succeed" "sc_mmap all_succeed"
  by (simp_all add: all_succeed_def)

definition new_fd :: "string \<Rightarrow> os \<Rightarrow> int \<times> os" where
  "new_fd name w = (os_next_fd w, w\<lparr>os_fds := (os_fds w)(os_next_fd w \<mapsto> name), os_next_fd := os_next_fd w + 1\<rparr>)"

definition sys_open :: "outcomes \<Rightarrow> string \<Rightarrow> os \<Rightarrow> int \<times> os" where
  "sys_open oc name w = (if sc_open oc \<and> os_files w name \<noteq> None then new_fd name w else (- 1, w))"

text \<open>\<^verbatim>\<open>open\<close> with \<^verbatim>\<open>O_CREAT\<close>.\<close>

definition sys_create :: "outcomes \<Rightarrow> string \<Rightarrow> os \<Rightarrow> int \<times> os" where
  "sys_create oc name w =
     (if sc_create oc
      then new_fd name (if os_files w name = None then w\<lparr>os_files := (os_files w)(name \<mapsto> [])\<rparr> else w)
      else (- 1, w))"

text \<open>The bytes of the file behind a descriptor.\<close>

definition fd_bytes :: "os \<Rightarrow> int \<Rightarrow> bytes option" where
  "fd_bytes w fd = Option.bind (os_fds w fd) (os_files w)"

definition sys_ftruncate :: "outcomes \<Rightarrow> int \<Rightarrow> nat \<Rightarrow> os \<Rightarrow> os option" where
  "sys_ftruncate oc fd n w =
     (case (os_fds w fd, fd_bytes w fd) of
        (Some name, Some old) \<Rightarrow>
          if sc_truncate oc then Some (w\<lparr>os_files := (os_files w)(name \<mapsto> resize_bytes old n)\<rparr>) else None
      | _ \<Rightarrow> None)"

definition sys_fstat :: "outcomes \<Rightarrow> int \<Rightarrow> os \<Rightarrow> nat option" where
  "sys_fstat oc fd w = (if sc_stat oc then map_option length (fd_bytes w fd) else None)"

text \<open>A mapping of length 0 is refused.\<close>

definition sys_mmap :: "outcomes \<Rightarrow> int \<Rightarrow> nat \<Rightarrow> os \<Rightarrow> address \<times> os" where
  "sys_mmap oc fd n w =
     (if sc_mmap oc \<and> 0 < n \<and> os_fds w fd \<noteq> None
      then (MapAt (os_next_map w), w\<lparr>os_maps := (os_maps w)(os_next_map w \<mapsto> n), os_next_map := os_next_map w + 1\<rparr>)
      else (MapFailed, w))"

text \<open>\<open>None\<close>: the address is not that of a mapping with this length, or the descriptor is not open.\<close>

definition sys_munmap :: "address \<Rightarrow> nat \<Rightarrow> os \<Rightarrow> os option" where
  "sys_munmap a n w =
     (case a of
        MapAt i \<Rightarrow> if os_maps w i = Some n then Some (w\<lparr>os_maps := (os_maps w)(i := None)\<rparr>) else None
      | _ \<Rightarrow> None)"

definition sys_close :: "int \<Rightarrow> os \<Rightarrow> os option" where
  "sys_close fd w = (if os_fds w fd = None then None else Some (w\<lparr>os_fds := (os_fds w)(fd := None)\<rparr>))"

section \<open>The object\<close>

record sst_object = SST +
  so_dir :: string
  so_name :: string
  so_fd :: int
  so_map :: address

definition sst_object_new :: sst_object where
  "sst_object_new = SST.extend (sst_default 0) (sst_object.fields ''.'' [] (- 1) Unset)"

datatype io_error = DirectoryFailed string | ResizeFailed string

definition NormalizeDataDir :: "string \<Rightarrow> string" where
  "NormalizeDataDir dir = (if dir = [] then ''.'' else dir)"

definition table_name :: "string \<Rightarrow> int \<Rightarrow> string" where
  "table_name dir i = path_append (NormalizeDataDir dir) (show_int i @ ''.sst'')"

definition obj_SetDataDir :: "outcomes \<Rightarrow> string \<Rightarrow> sst_object \<Rightarrow> io_error option \<times> sst_object" where
  "obj_SetDataDir oc dir t =
     (let t = t\<lparr>so_dir := NormalizeDataDir dir\<rparr> in
      if \<not> sc_mkdir oc then (Some (DirectoryFailed (so_dir t)), t)
      else (None, if sst_id t \<noteq> 0 then t\<lparr>so_name := path_append (so_dir t) (show_int (sst_id t) @ ''.sst'')\<rparr> else t))"

definition obj_SetId :: "int \<Rightarrow> sst_object \<Rightarrow> sst_object" where
  "obj_SetId i t = t\<lparr>sst_id := i, so_name := table_name (so_dir t) i\<rparr>"

definition EnsureFileSizeOrThrow :: "outcomes \<Rightarrow> int \<Rightarrow> nat \<Rightarrow> string \<Rightarrow> os \<Rightarrow> io_error + os" where
  "EnsureFileSizeOrThrow oc fd n name w =
     (case sys_ftruncate oc fd n w of None \<Rightarrow> Inl (ResizeFailed name) | Some w \<Rightarrow> Inr w)"

text \<open>The tables of a directory by their numbers, as \<open>SST_Build\<close> sees them.\<close>

definition files_of :: "string \<Rightarrow> os \<Rightarrow> files" where
  "files_of dir w = (\<lambda>i. os_files w (table_name dir i))"

definition open_or_create :: "outcomes \<Rightarrow> string \<Rightarrow> os \<Rightarrow> int \<times> os" where
  "open_or_create oc name w = (case sys_open oc name w of (fd, w) \<Rightarrow> if fd = - 1 then sys_create oc name w else (fd, w))"

text \<open>
  The four constructors that write a table: \<open>ctor\<close> computes the content (\<open>SST_entries\<close>, \<open>SST_memtable\<close> and their compressed
  variants).  An exception leaves no object.  The result of \<^verbatim>\<open>mmap\<close> is not tested: a failed mapping is written to.
\<close>

definition obj_construct ::
    "(files \<times> 64 word \<Rightarrow> (SST \<times> files \<times> 64 word) option) \<Rightarrow> outcomes \<Rightarrow> string \<Rightarrow> int \<Rightarrow> 64 word \<Rightarrow> os \<Rightarrow>
     ((io_error + sst_object) \<times> os \<times> 64 word) option" where
  "obj_construct ctor oc dir i c w =
     do { (sst, fs, c') \<leftarrow> ctor (files_of dir w, c);
          case obj_SetDataDir oc dir sst_object_new of
            (Some e, t) \<Rightarrow> Some (Inl e, w, c')
          | (None, t) \<Rightarrow>
              let t = obj_SetId i t;
                  (fd, w) = open_or_create oc (so_name t) w
              in case EnsureFileSizeOrThrow oc fd (sst_file_size sst) (so_name t) w of
                   Inl e \<Rightarrow> Some (Inl e, w, c')
                 | Inr w \<Rightarrow>
                     (case sys_mmap oc fd (sst_file_size sst) w of
                        (MapAt a, w) \<Rightarrow>
                          Some (Inr (SST.extend sst (sst_object.fields (so_dir t) (so_name t) fd (MapAt a))),
                                w\<lparr>os_files := (os_files w)(so_name t \<mapsto> sst_data sst)\<rparr>, c')
                      | _ \<Rightarrow> None) }"

definition obj_Load :: "'c sst_env \<Rightarrow> outcomes \<Rightarrow> sst_object \<Rightarrow> os \<Rightarrow> (bool \<times> sst_object \<times> os) option" where
  "obj_Load env oc t w =
     (let (fd, w) = sys_open oc (so_name t) w; t = t\<lparr>so_fd := fd\<rparr> in
      if fd = - 1 then Some (False, t, w)
      else case sys_fstat oc fd w of
        None \<Rightarrow> do { w \<leftarrow> sys_close fd w; Some (False, t\<lparr>so_fd := - 1\<rparr>, w) }
      | Some n \<Rightarrow>
          let t = t\<lparr>sst_file_size := n\<rparr>; (a, w) = sys_mmap oc fd n w; t = t\<lparr>so_map := a\<rparr> in
          if a = MapFailed
          then do { w \<leftarrow> sys_close fd w; Some (False, t\<lparr>so_fd := - 1, so_map := NullAddr\<rparr>, w) }
          else do {
            mem \<leftarrow> fd_bytes w fd;
            index \<leftarrow> index_Load (lz4 env) mem;
            Some (True, t\<lparr>sst_data := mem, sst_index := index, sst_compressed := HasCompressedBlock index,
                    sst_config := (sst_config t)\<lparr>cc_enable := HasCompressedBlock index, cc_type := index_compression_type index\<rparr>,
                    sst_loaded := True, sst_ready := True\<rparr>, w) })"

definition obj_Close :: "sst_object \<Rightarrow> os \<Rightarrow> (sst_object \<times> os) option" where
  "obj_Close t w =
     (if \<not> sst_loaded t then Some (t, w)
      else do { w \<leftarrow> sys_munmap (so_map t) (sst_file_size t) w;
                w \<leftarrow> (if so_fd t \<noteq> - 1 then sys_close (so_fd t) w else Some w);
                Some (t\<lparr>sst_ready := False, sst_loaded := False\<rparr>, w) })"

definition obj_destroy :: "sst_object \<Rightarrow> os \<Rightarrow> os option" where
  "obj_destroy t w = (if sst_ready t then map_option snd (obj_Close t w) else Some w)"

section \<open>Every life of an object\<close>

text \<open>The constructors of a table with number \<open>i\<close>.\<close>

definition is_ctor :: "'c sst_env \<Rightarrow> int \<Rightarrow> (files \<times> 64 word \<Rightarrow> (SST \<times> files \<times> 64 word) option) \<Rightarrow> bool" where
  "is_ctor env i ctor =
     ((\<exists>es. ctor = SST_entries env es i) \<or> (\<exists>config es. ctor = SST_entries_compressed env config es i) \<or>
      (\<exists>m n. int_of_size n = i \<and> (ctor = SST_memtable env m n \<or> (\<exists>config. ctor = SST_memtable_compressed env config m n))))"


text \<open>New descriptors and addresses are not in use.\<close>

definition os_ok :: "os \<Rightarrow> bool" where
  "os_ok w = (0 \<le> os_next_fd w \<and> (\<forall>fd name. os_fds w fd = Some name \<longrightarrow> 0 \<le> fd \<and> fd < os_next_fd w) \<and>
     (\<forall>a n. os_maps w a = Some n \<longrightarrow> a < os_next_map w))"

text \<open>An object holds one descriptor and one mapping while it is loaded, and nothing otherwise.\<close>

definition obj_inv :: "os \<Rightarrow> sst_object \<Rightarrow> os \<Rightarrow> bool" where
  "obj_inv w0 t w =
     (os_ok w \<and> sst_ready t = sst_loaded t \<and>
      (if sst_loaded t
       then \<exists>a name. so_map t = MapAt a \<and> 0 \<le> so_fd t \<and> os_fds w0 (so_fd t) = None \<and> os_maps w0 a = None \<and>
              os_fds w = (os_fds w0)(so_fd t \<mapsto> name) \<and> os_maps w = (os_maps w0)(a \<mapsto> sst_file_size t)
       else os_fds w = os_fds w0 \<and> os_maps w = os_maps w0))"

lemma os_ok_fresh: "os_ok w \<Longrightarrow> os_fds w (os_next_fd w) = None" "os_ok w \<Longrightarrow> os_maps w (os_next_map w) = None"
  by (cases "os_fds w (os_next_fd w)"; force simp: os_ok_def) (cases "os_maps w (os_next_map w)"; force simp: os_ok_def)

lemma ctor_result:
  assumes "is_ctor env i ctor" "ctor (fs, c) = Some (sst, fs', c')"
  shows "sst_id sst = i" "sst_ready sst" "sst_loaded sst" "fs' = fs(i \<mapsto> sst_data sst)" "0 < sst_file_size sst"
proof -
  have p: "SST_plain env n es i (fs, c) = Some (sst, fs', c') \<Longrightarrow>
      sst_id sst = i \<and> sst_ready sst \<and> sst_loaded sst \<and> fs' = fs(i \<mapsto> sst_data sst) \<and> 0 < sst_file_size sst" for n es
    by (cases es) (auto simp: SST_plain_def Let_def bind_eq_Some_conv split: prod.splits)
  have e: "SST_encoded env config n es i (fs, c) = Some (sst, fs', c') \<Longrightarrow>
      sst_id sst = i \<and> sst_ready sst \<and> sst_loaded sst \<and> fs' = fs(i \<mapsto> sst_data sst) \<and> 0 < sst_file_size sst" for config n es
    by (cases es) (auto simp: SST_encoded_def Let_def bind_eq_Some_conv split: prod.splits)
  have "sst_id sst = i \<and> sst_ready sst \<and> sst_loaded sst \<and> fs' = fs(i \<mapsto> sst_data sst) \<and> 0 < sst_file_size sst"
    using assms p e
    by (auto simp: is_ctor_def SST_entries_def SST_entries_compressed_def SST_memtable_def SST_memtable_compressed_def bind_eq_Some_conv)
  then show "sst_id sst = i" "sst_ready sst" "sst_loaded sst" "fs' = fs(i \<mapsto> sst_data sst)" "0 < sst_file_size sst" by auto
qed

lemma sys_open_ok:
  assumes "sys_open oc name w = (fd, w')" "os_ok w"
  shows "fd = - 1 \<and> w' = w \<or> 0 \<le> fd \<and> fd = os_next_fd w \<and> os_fds w fd = None \<and> os_ok w' \<and> os_files w name \<noteq> None \<and>
    w' = w\<lparr>os_fds := (os_fds w)(fd \<mapsto> name), os_next_fd := fd + 1\<rparr>"
  using assms os_ok_fresh(1) [OF assms(2)] by (fastforce simp: sys_open_def new_fd_def os_ok_def split: if_splits)

lemma obj_Close_inv:
  assumes "obj_inv w0 t w"
  shows "\<exists>w'. obj_Close t w = Some (t\<lparr>sst_ready := False, sst_loaded := False\<rparr>, w') \<and> obj_inv w0 (t\<lparr>sst_ready := False, sst_loaded := False\<rparr>) w' \<and>
    os_files w' = os_files w"
proof (cases "sst_loaded t")
  case True
  then obtain a name where o: "so_map t = MapAt a" "0 \<le> so_fd t" "os_fds w0 (so_fd t) = None" "os_maps w0 a = None"
    "os_fds w = (os_fds w0)(so_fd t \<mapsto> name)" "os_maps w = (os_maps w0)(a \<mapsto> sst_file_size t)"
    using assms by (auto simp: obj_inv_def)
  let ?w = "w\<lparr>os_maps := os_maps w0, os_fds := os_fds w0\<rparr>"
  have "os_ok ?w" using assms o(3-6) by (fastforce simp: obj_inv_def os_ok_def)
  moreover have "obj_Close t w = Some (t\<lparr>sst_ready := False, sst_loaded := False\<rparr>, ?w)"
    using True o by (auto simp: obj_Close_def sys_munmap_def sys_close_def fun_upd_idem)
  ultimately show ?thesis by (simp add: obj_inv_def)
qed (use assms in \<open>auto simp: obj_inv_def obj_Close_def\<close>)

lemma open_or_create_ok:
  assumes "open_or_create oc name w = (fd, w')" "os_ok w"
  shows "fd = - 1 \<and> w' = w \<or>
    0 \<le> fd \<and> os_fds w fd = None \<and> os_ok w' \<and> os_fds w' = (os_fds w)(fd \<mapsto> name) \<and> os_maps w' = os_maps w \<and>
    os_files w' = (if os_files w name = None then (os_files w)(name \<mapsto> []) else os_files w)"
proof -
  have fresh: "os_fds w (os_next_fd w) = None" "0 \<le> os_next_fd w" using os_ok_fresh(1) [OF assms(2)] assms(2) by (auto simp: os_ok_def)
  have "os_ok (snd (new_fd name (w\<lparr>os_files := f\<rparr>)))" for f
    using assms(2) by (fastforce simp: new_fd_def os_ok_def)
  from this [of "os_files w"] this [of "(os_files w)(name \<mapsto> [])"] show ?thesis
    using assms(1) fresh by (auto simp: open_or_create_def sys_open_def sys_create_def new_fd_def split: if_splits)
qed

lemma sys_mmap_ok:
  assumes "sys_mmap oc fd n w = (a, w')" "os_ok w"
  shows "a = MapFailed \<and> w' = w \<or>
    (\<exists>i. a = MapAt i \<and> os_maps w i = None \<and> os_maps w' = (os_maps w)(i \<mapsto> n) \<and> os_ok w' \<and> os_fds w' = os_fds w \<and> os_files w' = os_files w)"
  using assms os_ok_fresh(2) [OF assms(2)] by (fastforce simp: sys_mmap_def os_ok_def split: if_splits)



lemma obj_construct_new:
  "obj_construct ctor oc dir i c w =
     do { (sst, fs, c') \<leftarrow> ctor (files_of dir w, c);
          if \<not> sc_mkdir oc then Some (Inl (DirectoryFailed (NormalizeDataDir dir)), w, c')
          else (case open_or_create oc (table_name dir i) w of (fd, w) \<Rightarrow>
                case EnsureFileSizeOrThrow oc fd (sst_file_size sst) (table_name dir i) w of
                  Inl e \<Rightarrow> Some (Inl e, w, c')
                | Inr w \<Rightarrow>
                    (case sys_mmap oc fd (sst_file_size sst) w of
                       (MapAt a, w) \<Rightarrow>
                         Some (Inr (SST.extend sst (sst_object.fields (NormalizeDataDir dir) (table_name dir i) fd (MapAt a))),
                               w\<lparr>os_files := (os_files w)(table_name dir i \<mapsto> sst_data sst)\<rparr>, c')
                     | _ \<Rightarrow> None)) }"
proof -
  have name: "table_name (NormalizeDataDir dir) i = table_name dir i" by (simp add: table_name_def NormalizeDataDir_def)
  let ?t = "sst_object_new\<lparr>so_dir := NormalizeDataDir dir\<rparr>"
  have dir: "obj_SetDataDir oc dir sst_object_new =
      (if \<not> sc_mkdir oc then Some (DirectoryFailed (NormalizeDataDir dir)) else None, ?t)"
    by (simp add: obj_SetDataDir_def sst_object_new_def SST.defs sst_object.defs sst_default_def)
  have eqs: "so_name (obj_SetId i ?t) = table_name dir i" "so_dir (obj_SetId i ?t) = NormalizeDataDir dir"
    by (simp_all add: obj_SetId_def name)
  show ?thesis
    unfolding obj_construct_def dir Let_def by (cases "sc_mkdir oc") (simp_all only: eqs prod.case option.case if_True if_False simp_thms)
qed

lemma obj_construct_inv:
  assumes ctor: "is_ctor env i ctor" and w0: "os_ok w0" and c: "obj_construct ctor oc dir i c w0 = Some (Inr t, w, c')"
  shows "obj_inv w0 t w \<and> (\<exists>sst fs. ctor (files_of dir w0, c) = Some (sst, fs, c') \<and> SST.truncate t = sst \<and>
    os_files w = (os_files w0)(table_name dir i \<mapsto> sst_data sst))"
proof -
  obtain sst fs where s1: "ctor (files_of dir w0, c) = Some (sst, fs, c')" "sc_mkdir oc"
    using c by (auto simp: obj_construct_new bind_eq_Some_conv split: if_splits prod.splits sum.splits address.splits)
  obtain fd w1 where s2: "open_or_create oc (table_name dir i) w0 = (fd, w1)" by fastforce
  obtain w2 where s3: "sys_ftruncate oc fd (sst_file_size sst) w1 = Some w2"
    using c s1 s2 by (cases "sys_ftruncate oc fd (sst_file_size sst) w1") (auto simp: obj_construct_new EnsureFileSizeOrThrow_def)
  obtain a w3 where s4: "sys_mmap oc fd (sst_file_size sst) w2 = (a, w3)" by fastforce
  obtain j where j: "a = MapAt j" using c s1 s2 s3 s4 by (cases a) (auto simp: obj_construct_new EnsureFileSizeOrThrow_def)
  have s5: "t = SST.extend sst (sst_object.fields (NormalizeDataDir dir) (table_name dir i) fd (MapAt j))"
    "w = w3\<lparr>os_files := (os_files w3)(table_name dir i \<mapsto> sst_data sst)\<rparr>"
    using c s1 s2 s3 s4 j by (auto simp: obj_construct_new EnsureFileSizeOrThrow_def)
  note s = s1(1) s2 s3 s4 [unfolded j] s5
  note r = ctor_result [OF ctor s(1)]
  have fd: "fd \<noteq> - 1"
  proof
    assume "fd = - 1"
    with open_or_create_ok [OF s(2) w0] have "os_fds w1 fd = None" using w0 by (cases "os_fds w0 (- 1)") (auto simp: os_ok_def)
    then show False using s(3) by (simp add: sys_ftruncate_def)
  qed
  with open_or_create_ok [OF s(2) w0] have w1: "0 \<le> fd" "os_fds w0 fd = None" "os_ok w1" "os_fds w1 = (os_fds w0)(fd \<mapsto> table_name dir i)"
    "os_maps w1 = os_maps w0" "os_files w1 = (if os_files w0 (table_name dir i) = None then (os_files w0)(table_name dir i \<mapsto> []) else os_files w0)"
    by auto
  obtain old where w2: "w2 = w1\<lparr>os_files := (os_files w1)(table_name dir i \<mapsto> resize_bytes old (sst_file_size sst))\<rparr>"
    using s(3) w1(4) by (auto simp: sys_ftruncate_def split: option.splits if_splits)
  then have "os_ok w2" using w1(3) by (simp add: os_ok_def)
  from sys_mmap_ok [OF s(4) this] have w3: "os_maps w0 j = None" "os_maps w3 = (os_maps w0)(j \<mapsto> sst_file_size sst)" "os_ok w3"
    "os_fds w3 = (os_fds w0)(fd \<mapsto> table_name dir i)" "os_files w3 = os_files w2" using w1 w2 by auto
  have "obj_inv w0 t w" using s(5,6) r w3 w1 by (auto simp: obj_inv_def os_ok_def SST.defs sst_object.defs)
  moreover have "SST.truncate t = sst" using s(5) by (simp add: SST.defs)
  moreover have "os_files w = (os_files w0)(table_name dir i \<mapsto> sst_data sst)" using s(6) w3(5) w2 w1(6) by simp
  ultimately show ?thesis using s(1) by blast
qed




section \<open>The model without failures\<close>

lemma show_int_inj: "show_int i = show_int j \<Longrightarrow> i = j"
proof -
  assume eq: "show_int i = show_int j"
  have "ParseInteger True (min i j) (max i j) (show_int i) = Some i" "ParseInteger True (min i j) (max i j) (show_int j) = Some j"
    by (rule ParseInteger_signed_show; simp)+
  then show "i = j" unfolding eq by simp
qed

lemma table_name_inj: "table_name dir i = table_name dir j \<longleftrightarrow> i = j"
proof -
  have "\<not> path_is_absolute (show_int i @ ''.sst'')" for i
    using show_int_chars [of "hd (show_int i)" i] show_nat_facts(1) [of "nat \<bar>i\<bar>"]
    by (cases "show_int i") (auto simp: path_is_absolute_def is_digit_def less_eq_char_def)
  then show ?thesis using show_int_inj by (auto simp: table_name_def path_append_def)
qed

text \<open>When no call fails, \<^verbatim>\<open>Load\<close> of a new object is \<open>sst_Load\<close>.\<close>

lemma obj_Load_refines:
  assumes "sc_open oc" "sc_stat oc" "sc_mmap oc" and w: "os_ok w"
  shows "map_option (\<lambda>(ok, t', w'). (ok, SST.truncate t')) (obj_Load env oc (obj_SetId i (sst_object_new\<lparr>so_dir := dir\<rparr>)) w) =
    map_option (\<lambda>r. case r of None \<Rightarrow> (False, sst_default i) | Some sst \<Rightarrow> (True, sst)) (sst_Load env (files_of dir w) i)"
proof (cases "os_files w (table_name dir i)")
  case None
  then show ?thesis
    by (simp add: obj_Load_def sst_Load_def files_of_def sys_open_def obj_SetId_def sst_object_new_def SST.defs sst_object.defs sst_default_def)
next
  case (Some mem)
  have "os_next_fd w \<noteq> - 1" using w by (auto simp: os_ok_def)
  then show ?thesis using assms Some
    by (cases "mem = []"; cases "index_Load (lz4 env) mem")
      (simp_all add: obj_Load_def sst_Load_def files_of_def sys_open_def new_fd_def sys_fstat_def sys_mmap_def sys_close_def fd_bytes_def obj_SetId_def
        sst_object_new_def SST.defs sst_object.defs sst_default_def no_compression_def)
qed

text \<open>When no call fails, a constructor that has a content is the one of \<open>SST_Build\<close>, and leaves the other tables alone.\<close>

lemma obj_construct_succeeds:
  assumes ctor: "is_ctor env i ctor" and w: "os_ok w" and c: "ctor (files_of dir w, c) = Some (sst, fs, c')"
  shows "\<exists>t w'. obj_construct ctor all_succeed dir i c w = Some (Inr t, w', c') \<and> SST.truncate t = sst \<and> files_of dir w' = fs"
proof -
  let ?n = "table_name dir i"
  obtain fd w1 where o: "open_or_create all_succeed ?n w = (fd, w1)" by fastforce
  have "fd \<noteq> - 1" using o w by (auto simp: open_or_create_def sys_open_def sys_create_def new_fd_def os_ok_def split: if_splits)
  with open_or_create_ok [OF o w] have w1: "os_fds w1 fd = Some ?n" "os_files w1 ?n \<noteq> None" by auto
  then obtain w2 where t: "sys_ftruncate all_succeed fd (sst_file_size sst) w1 = Some w2" "os_fds w2 = os_fds w1"
    by (auto simp: sys_ftruncate_def fd_bytes_def)
  then obtain a w3 where m: "sys_mmap all_succeed fd (sst_file_size sst) w2 = (MapAt a, w3)"
    using w1(1) ctor_result(5) [OF ctor c] by (simp add: sys_mmap_def)
  obtain t' w' where r: "obj_construct ctor all_succeed dir i c w = Some (Inr t', w', c')"
    using c o t m by (auto simp: obj_construct_new EnsureFileSizeOrThrow_def)
  from obj_construct_inv [OF ctor w r] c have "SST.truncate t' = sst" "os_files w' = (os_files w)(?n \<mapsto> sst_data sst)" by auto
  moreover from this(2) have "files_of dir w' = fs"
    using ctor_result(4) [OF ctor c] by (auto simp: files_of_def table_name_inj fun_eq_iff)
  ultimately show ?thesis using r by blast
qed

lemma is_ctor_new_table: "is_ctor env i (new_table env config es i)"
  by (cases "cc_enable config") (auto simp: is_ctor_def new_table_def fun_eq_iff)

section \<open>Properties\<close>




text \<open>
  With system calls that succeed, a table that is written, closed by the destructor and loaded by a new object answers every
  lookup like its entries, and no other table of the directory has changed.
\<close>
theorem table_object_roundtrip:
  assumes "es \<noteq> []" "sorted_keys es" "sst_bound env es < max_file" "codec_ok env config" "os_ok w"
  shows "\<exists>t w1 c' w2 t' w3. obj_construct (new_table env config es i) all_succeed dir i c w = Some (Inr t, w1, c') \<and>
    obj_destroy t w1 = Some w2 \<and> files_of dir w2 = (files_of dir w)(i \<mapsto> sst_data t) \<and>
    obj_Load env all_succeed (obj_SetId i (sst_object_new\<lparr>so_dir := dir\<rparr>)) w2 = Some (True, t', w3) \<and>
    (\<forall>k. sst_Get (SST.truncate t') k = Some (map_of es k))"
proof -
  obtain sst c' where s: "new_table env config es i (files_of dir w, c) = Some (sst, (files_of dir w)(i \<mapsto> sst_data sst), c')"
    "table_ok env ((files_of dir w)(i \<mapsto> sst_data sst)) sst es" "sst_id sst = i"
    using new_table_ok [OF assms(1-4), of i "files_of dir w" c] by blast
  from obj_construct_succeeds [OF is_ctor_new_table assms(5) s(1)] obtain t w1 where
    c: "obj_construct (new_table env config es i) all_succeed dir i c w = Some (Inr t, w1, c')" "SST.truncate t = sst"
      "files_of dir w1 = (files_of dir w)(i \<mapsto> sst_data sst)" by blast
  have inv: "obj_inv w t w1" using obj_construct_inv [OF is_ctor_new_table assms(5) c(1)] by blast
  have "sst_ready t" using ctor_result(2) [OF is_ctor_new_table s(1)] c(2) by (auto simp: SST.defs)
  then obtain w2 where d: "obj_destroy t w1 = Some w2" "os_ok w2" "os_files w2 = os_files w1"
    using obj_Close_inv [OF inv] by (auto simp: obj_destroy_def obj_inv_def)
  then have f: "files_of dir w2 = (files_of dir w)(i \<mapsto> sst_data sst)" using c(3) by (simp add: files_of_def)
  obtain sst' where l: "sst_Load env (files_of dir w2) i = Some (Some sst')" "sst_holds sst' es"
    using s(2,3) f by (auto simp: table_ok_def stored_def)
  have "map_option (\<lambda>(ok, t', w'). (ok, SST.truncate t')) (obj_Load env all_succeed (obj_SetId i (sst_object_new\<lparr>so_dir := dir\<rparr>)) w2) = Some (True, sst')"
    using obj_Load_refines [OF _ _ _ d(2), of all_succeed env i dir] l(1) by simp
  then obtain t' w3 where "obj_Load env all_succeed (obj_SetId i (sst_object_new\<lparr>so_dir := dir\<rparr>)) w2 = Some (True, t', w3)" "SST.truncate t' = sst'"
    by auto
  moreover have "sst_data t = sst_data sst" using c(2) by (auto simp: SST.defs)
  ultimately show ?thesis
    using c(1) d(1) f sst_Get_holds [OF l(2)] by (intro exI [of _ t] exI [of _ w1] exI [of _ c'] exI [of _ w2] exI [of _ t'] exI [of _ w3]) simp
qed

text \<open>
  What the constructors do not handle: when the file cannot be resized, the exception leaves the descriptor open and no object
  that would close it; when the mapping fails, they write to the address \<^verbatim>\<open>MAP_FAILED\<close>.
\<close>
theorem constructor_failures:
  assumes "is_ctor env i ctor" "ctor (files_of dir w, c) = Some (sst, fs, c')" "os_ok w" "sc_mkdir oc" "sc_create oc"
  shows "(\<not> sc_truncate oc \<longrightarrow> (\<exists>fd w'. obj_construct ctor oc dir i c w = Some (Inl (ResizeFailed (table_name dir i)), w', c') \<and>
      os_fds w fd = None \<and> os_fds w' = (os_fds w)(fd \<mapsto> table_name dir i))) \<and>
    (sc_truncate oc \<and> \<not> sc_mmap oc \<longrightarrow> obj_construct ctor oc dir i c w = None)"
proof -
  let ?n = "table_name dir i"
  obtain fd w1 where o: "open_or_create oc ?n w = (fd, w1)" by fastforce
  have "fd \<noteq> - 1" using o assms(3,5) by (auto simp: open_or_create_def sys_open_def sys_create_def new_fd_def os_ok_def split: if_splits)
  with open_or_create_ok [OF o assms(3)] have w1: "os_fds w fd = None" "os_fds w1 = (os_fds w)(fd \<mapsto> ?n)" "os_files w1 ?n \<noteq> None" by auto
  then show ?thesis using assms(2,4) o
    by (auto simp: obj_construct_new EnsureFileSizeOrThrow_def sys_ftruncate_def fd_bytes_def sys_mmap_def)
qed

text \<open>A second \<^verbatim>\<open>Load\<close> without \<^verbatim>\<open>Close\<close> loses the descriptor and the mapping of the first.\<close>

theorem second_load_leaks:
  assumes "obj_inv w0 t w" "sst_loaded t" "obj_Load env oc t w = Some (True, t', w')"
  shows "so_fd t' \<noteq> so_fd t \<and> os_fds w' (so_fd t) \<noteq> None"
proof -
  have w: "os_ok w" "os_fds w (so_fd t) \<noteq> None" using assms(1,2) by (auto simp: obj_inv_def)
  obtain fd w1 where o: "sys_open oc (so_name t) w = (fd, w1)" by fastforce
  have fd: "fd \<noteq> - 1" using assms(3) o by (auto simp: obj_Load_def)
  with sys_open_ok [OF o w(1)] have w1: "os_fds w fd = None" "os_fds w1 = (os_fds w)(fd \<mapsto> so_name t)" "os_ok w1" by auto
  obtain n where n: "sys_fstat oc fd w1 = Some n" using assms(3) o fd
    by (cases "sys_fstat oc fd w1") (auto simp: obj_Load_def bind_eq_Some_conv)
  obtain a w2 where m: "sys_mmap oc fd n w1 = (a, w2)" by fastforce
  have "os_fds w2 = os_fds w1" using sys_mmap_ok [OF m w1(3)] by auto
  then show ?thesis using assms(3) o fd n m w w1 by (auto simp: obj_Load_def Let_def bind_eq_Some_conv split: if_splits)
qed

end
