(* ===== verification/DList_Life.thy ===== *)
theory DList_Life
  imports DList
begin

text \<open>
  Iteration over the list of \<^verbatim>\<open>src/mokv/cache/list.hpp\<close>, its destructor and its move operations.  A list object is a pointer to its
  dummy node, null after the list was moved from, and a size; the nodes of several lists share one heap.  Deleting a node
  that is not allocated is undefined, as is the access through a null pointer: both are \<open>None\<close>.
\<close>

section \<open>Iterators\<close>

definition it_forward :: "(nat \<rightharpoonup> 'v dnode) \<Rightarrow> nat \<Rightarrow> nat option" where
  "it_forward h a = map_option dn_nxt (h a)"

definition it_backward :: "(nat \<rightharpoonup> 'v dnode) \<Rightarrow> nat \<Rightarrow> nat option" where
  "it_backward h a = map_option dn_pre (h a)"

definition it_value :: "(nat \<rightharpoonup> 'v dnode) \<Rightarrow> nat \<Rightarrow> 'v option option" where
  "it_value h a = map_option dn_value (h a)"

text \<open>The nodes that a loop from \<open>a\<close> until \<open>stop\<close> visits.\<close>

partial_function (option) walk :: "(nat \<Rightarrow> nat option) \<Rightarrow> nat \<Rightarrow> nat \<Rightarrow> nat list option" where
  "walk step stop a =
     (if a = stop then Some []
      else do { b \<leftarrow> step a; as \<leftarrow> walk step stop b; Some (a # as) })"

lemmas walk_code [code] = walk.simps

definition list_begin :: "'v dlist \<Rightarrow> nat option" where
  "list_begin l = it_forward (dl_heap l) (dl_dummy l)"

definition list_end :: "'v dlist \<Rightarrow> nat" where
  "list_end l = dl_dummy l"

text \<open>A range-based loop over a \<^verbatim>\<open>ListView\<close>: the values of the nodes from \<^verbatim>\<open>begin()\<close> to \<^verbatim>\<open>end()\<close>.\<close>

definition list_view :: "'v dlist \<Rightarrow> 'v option list option" where
  "list_view l =
     do { a \<leftarrow> list_begin l;
          as \<leftarrow> walk (it_forward (dl_heap l)) (list_end l) a;
          those (map (it_value (dl_heap l)) as) }"

section \<open>Objects\<close>

record list_object =
  lo_dummy :: "nat option"
  lo_size :: "64 word"

definition object_of :: "'v dlist \<Rightarrow> list_object" where
  "object_of l = \<lparr>lo_dummy = Some (dl_dummy l), lo_size = dl_size l\<rparr>"

fun free_all :: "nat list \<Rightarrow> (nat \<rightharpoonup> 'v dnode) \<Rightarrow> (nat \<rightharpoonup> 'v dnode) option" where
  "free_all [] h = Some h"
| "free_all (a # as) h = (if h a = None then None else free_all as (h(a := None)))"

definition list_destroy :: "list_object \<Rightarrow> (nat \<rightharpoonup> 'v dnode) \<Rightarrow> (nat \<rightharpoonup> 'v dnode) option" where
  "list_destroy o' h =
     do { d \<leftarrow> lo_dummy o';
          a \<leftarrow> it_forward h d;
          as \<leftarrow> walk (it_forward h) d a;
          free_all (d # as) h }"

text \<open>The move constructor: the new list and what is left of the old one.\<close>

definition list_move :: "list_object \<Rightarrow> list_object \<times> list_object" where
  "list_move b = (\<lparr>lo_dummy = lo_dummy b, lo_size = lo_size b\<rparr>, \<lparr>lo_dummy = None, lo_size = 0\<rparr>)"

text \<open>The move assignment overwrites the pointer of its target.  (The source has no return statement; this is its effect on the lists.)\<close>

definition list_assign :: "list_object \<Rightarrow> list_object \<Rightarrow> list_object \<times> list_object" where
  "list_assign a b = (a\<lparr>lo_dummy := lo_dummy b, lo_size := lo_size b\<rparr>, b\<lparr>lo_dummy := None, lo_size := 0\<rparr>)"

section \<open>Lemmas\<close>

lemma walk_stop [simp]: "walk step d d = Some []"
  by (simp add: walk.simps)

lemma walk_step: "step a = Some b \<Longrightarrow> a \<noteq> d \<Longrightarrow> walk step d b = Some bs \<Longrightarrow> walk step d a = Some (a # bs)"
  by (simp add: walk.simps [of _ _ a])

lemma it_steps: "it_forward h = nxt_of h" "it_backward h = pre_of h"
  by (simp_all add: fun_eq_iff it_forward_def it_backward_def nxt_of_def pre_of_def)

lemma walk_forward:
  assumes "chain h (a # as @ [d])" "d \<notin> set (a # as)"
  shows "walk (it_forward h) d a = Some (a # as)"
  using assms
proof (induction as arbitrary: a)
  case Nil
  then show ?case by (auto simp: it_steps intro: walk_step)
next
  case (Cons b as)
  then show ?case by (auto simp: it_steps intro: walk_step)
qed

lemma walk_backward:
  assumes "chain h (d # as @ [a])" "d \<notin> set (a # as)"
  shows "walk (it_backward h) d a = Some (a # rev as)"
  using assms
proof (induction as arbitrary: a rule: rev_induct)
  case Nil
  then show ?case by (auto simp: it_steps intro: walk_step)
next
  case (snoc b as)
  from snoc.prems(1) have "chain h (d # as @ [b])" "pre_of h a = Some b" using chain_append [of h "d # as" b a "[]"] by simp_all
  then show ?case using snoc by (auto simp: it_steps intro: walk_step)
qed

lemma walk_begin:
  assumes "dl_rep l ns"
  obtains a where "it_forward (dl_heap l) (dl_dummy l) = Some a" "walk (it_forward (dl_heap l)) (dl_dummy l) a = Some ns"
proof (cases ns)
  case Nil
  then show thesis using that [of "dl_dummy l"] dl_repD(1) [OF assms] by (simp add: it_steps)
next
  case (Cons a as)
  note r = dl_repD [OF assms, unfolded Cons]
  have "walk (it_forward (dl_heap l)) (dl_dummy l) a = Some (a # as)" by (rule walk_forward) (use r(1,2) in auto)
  then show thesis using that [of a] r(1) Cons by (simp add: it_steps)
qed

lemma free_all_ok: "distinct as \<Longrightarrow> set as \<subseteq> dom h \<Longrightarrow> free_all as h = Some (h |` (- set as))"
proof (induction as arbitrary: h)
  case (Cons a as)
  have "(h(a := None)) |` (- set as) = h |` (- set (a # as))" by (auto simp: restrict_map_def fun_eq_iff)
  moreover have "set as \<subseteq> dom (h(a := None))" using Cons.prems by auto
  ultimately show ?case using Cons.IH [of "h(a := None)"] Cons.prems by (auto simp: domIff simp del: fun_upd_apply)
qed (simp add: restrict_map_def fun_eq_iff)

section \<open>Theorems\<close>

text \<open>Iteration yields the values in order and, backwards, in reverse order, and ends.\<close>

theorem list_view_in_order:
  assumes "dl_rep l ns"
  shows "list_view l = Some (map (\<lambda>a. dn_value (the (dl_heap l a))) ns)"
    and "\<exists>a. it_backward (dl_heap l) (dl_dummy l) = Some a \<and> walk (it_backward (dl_heap l)) (dl_dummy l) a = Some (rev ns)"
proof -
  have v: "those (map (it_value h) as) = Some (map (\<lambda>a. dn_value (the (h a))) as)" if "set as \<subseteq> dom h" for h :: "nat \<rightharpoonup> 'a dnode" and as
    using that by (induction as) (auto simp: it_value_def)
  show "list_view l = Some (map (\<lambda>a. dn_value (the (dl_heap l a))) ns)"
    by (rule walk_begin [OF assms]) (use v dl_repD(3) [OF assms] in \<open>simp add: list_view_def list_begin_def list_end_def\<close>)
  note r = dl_repD [OF assms]
  show "\<exists>a. it_backward (dl_heap l) (dl_dummy l) = Some a \<and> walk (it_backward (dl_heap l)) (dl_dummy l) a = Some (rev ns)"
  proof (cases ns rule: rev_cases)
    case Nil
    then show ?thesis using r(1) by (simp add: it_steps)
  next
    case (snoc as a)
    have c: "chain (dl_heap l) (dl_dummy l # as @ [a])" "pre_of (dl_heap l) (dl_dummy l) = Some a"
      using r(1) chain_append [of "dl_heap l" "dl_dummy l # as" a "dl_dummy l" "[]"] unfolding snoc by simp_all
    have "walk (it_backward (dl_heap l)) (dl_dummy l) a = Some (a # rev as)"
      by (rule walk_backward) (use c(1) r(2) snoc in auto)
    then show ?thesis using c(2) snoc by (simp add: it_steps)
  qed
qed

text \<open>The destructor of a list returns and frees exactly its nodes and its dummy, also after the list was moved to another object.\<close>

theorem list_destroy_frees:
  assumes "dl_rep l ns"
  shows "list_destroy (object_of l) (dl_heap l) = Some (dl_heap l |` (- set (dl_dummy l # ns)))"
    and "list_destroy (fst (list_move (object_of l))) (dl_heap l) = Some (dl_heap l |` (- set (dl_dummy l # ns)))"
proof -
  show d: "list_destroy (object_of l) (dl_heap l) = Some (dl_heap l |` (- set (dl_dummy l # ns)))"
  proof (rule walk_begin [OF assms])
    fix a
    assume "it_forward (dl_heap l) (dl_dummy l) = Some a" "walk (it_forward (dl_heap l)) (dl_dummy l) a = Some ns"
    then show ?thesis
      using free_all_ok [OF dl_repD(2) [OF assms] dl_repD(3) [OF assms]] by (simp add: list_destroy_def object_of_def del: free_all.simps)
  qed
  then show "list_destroy (fst (list_move (object_of l))) (dl_heap l) = Some (dl_heap l |` (- set (dl_dummy l # ns)))"
    by (simp add: list_move_def object_of_def)
qed

text \<open>
  A list that was moved from cannot be destroyed: its destructor follows the null pointer.  An assignment leaves the nodes
  of its target allocated: after both lists, whose nodes are disjoint, are gone, the old nodes are still there.
\<close>
theorem moved_list_destructor: "list_destroy (snd (list_move b)) h = None"
  by (simp add: list_move_def list_destroy_def)

theorem assigned_list_leaks:
  assumes "dl_rep l ns" "a \<in> dom (dl_heap l)" "a \<notin> set (dl_dummy l # ns)"
  shows "\<exists>h'. list_destroy (fst (list_assign \<lparr>lo_dummy = Some a, lo_size = 0\<rparr> (object_of l))) (dl_heap l) = Some h' \<and> a \<in> dom h'"
  using list_destroy_frees(1) [OF assms(1)] assms(2,3) by (auto simp: list_assign_def object_of_def)

end
