(* ===== verification/ThreadPool.thy ===== *)
theory ThreadPool
  imports Prelude "HOL-Library.Multiset"
begin

text \<open>
  The thread pool of \<^verbatim>\<open>src/mokv/pool/thread_pool.hpp\<close> as a transition system.  A worker is between two rounds of its loop,
  waits on the condition variable with the mutex released, runs a task, or has returned; each critical section is one step of
  \<open>pool_step\<close>, and the steps of the workers and of the callers interleave in any order.  A waiting worker may
  proceed whenever its predicate holds, as after a notification.  The tasks that were accepted, started
  and finished are recorded in the order of these events; no step of the pool depends on them.
\<close>

section \<open>State and steps\<close>

datatype 'a worker = Looping | Waiting | Running 'a | Returned

record 'a pool =
  tp_workers :: "'a worker list"
  tp_tasks :: "'a list"
  tp_stop :: bool
  tp_worker_num :: nat
  tp_free_worker_num :: nat
  tp_max_queue_size :: nat
  tp_queue_size :: "64 word"
  tp_accepted :: "'a list"
  tp_started :: "'a list"
  tp_finished :: "'a list"

definition pool_new :: "nat \<Rightarrow> nat \<Rightarrow> 'a pool" where
  "pool_new thread_num max_queue_size =
     \<lparr>tp_workers = replicate thread_num Looping, tp_tasks = [], tp_stop = False, tp_worker_num = thread_num, tp_free_worker_num = 0,
      tp_max_queue_size = max_queue_size, tp_queue_size = 0, tp_accepted = [], tp_started = [], tp_finished = []\<rparr>"

text \<open>\<^verbatim>\<open>Enqueue\<close> and \<^verbatim>\<open>MultiEnqueue\<close> throw when the pool was stopped.\<close>

definition MultiEnqueue :: "'a list \<Rightarrow> 'a pool \<Rightarrow> string + 'a pool" where
  "MultiEnqueue ts p =
     (if tp_stop p then Inl ''enqueue on stopped ThreadPool''
      else Inr (p\<lparr>tp_tasks := tp_tasks p @ ts, tp_queue_size := tp_queue_size p + of_nat (length ts), tp_accepted := tp_accepted p @ ts\<rparr>))"

definition Enqueue :: "'a \<Rightarrow> 'a pool \<Rightarrow> string + 'a pool" where
  "Enqueue t p =
     (if tp_stop p then Inl ''enqueue on stopped ThreadPool''
      else Inr (p\<lparr>tp_tasks := tp_tasks p @ [t], tp_queue_size := tp_queue_size p + 1, tp_accepted := tp_accepted p @ [t]\<rparr>))"

definition IsBusy :: "'a pool \<Rightarrow> bool" where
  "IsBusy p = (5 < tp_queue_size p)"

text \<open>The start of the destructor; it then joins the workers, so it ends when all of them have returned.\<close>

definition pool_stop :: "'a pool \<Rightarrow> 'a pool" where
  "pool_stop p = p\<lparr>tp_stop := True\<rparr>"

definition pool_joined :: "'a pool \<Rightarrow> bool" where
  "pool_joined p = (\<forall>w \<in> set (tp_workers p). w = Returned)"

text \<open>The steps of a worker: it takes the mutex and waits, it wakes up, it runs its task.\<close>

definition worker_wait :: "nat \<Rightarrow> 'a pool \<Rightarrow> 'a pool" where
  "worker_wait i p = p\<lparr>tp_workers := (tp_workers p)[i := Waiting], tp_free_worker_num := tp_free_worker_num p + 1\<rparr>"

definition worker_wake :: "nat \<Rightarrow> 'a pool \<Rightarrow> 'a pool" where
  "worker_wake i p =
     (let p = p\<lparr>tp_free_worker_num := tp_free_worker_num p - 1\<rparr> in
      case tp_tasks p of
        [] \<Rightarrow> p\<lparr>tp_workers := (tp_workers p)[i := Returned]\<rparr>
      | t # ts \<Rightarrow> p\<lparr>tp_workers := (tp_workers p)[i := Running t], tp_tasks := ts, tp_queue_size := tp_queue_size p - 1, tp_started := tp_started p @ [t]\<rparr>)"

definition worker_run :: "nat \<Rightarrow> 'a pool \<Rightarrow> 'a pool" where
  "worker_run i p =
     (case tp_workers p ! i of
        Running t \<Rightarrow> p\<lparr>tp_workers := (tp_workers p)[i := Looping], tp_finished := tp_finished p @ [t]\<rparr>
      | _ \<Rightarrow> p)"

inductive worker_step :: "'a pool \<Rightarrow> 'a pool \<Rightarrow> bool" where
  wait: "i < length (tp_workers p) \<Longrightarrow> tp_workers p ! i = Looping \<Longrightarrow> worker_step p (worker_wait i p)"
| wake: "i < length (tp_workers p) \<Longrightarrow> tp_workers p ! i = Waiting \<Longrightarrow> tp_stop p \<or> tp_tasks p \<noteq> [] \<Longrightarrow> worker_step p (worker_wake i p)"
| run: "i < length (tp_workers p) \<Longrightarrow> tp_workers p ! i = Running t \<Longrightarrow> worker_step p (worker_run i p)"

inductive pool_step :: "'a pool \<Rightarrow> 'a pool \<Rightarrow> bool" where
  worker: "worker_step p p' \<Longrightarrow> pool_step p p'"
| enqueue: "Enqueue t p = Inr p' \<Longrightarrow> pool_step p p'"
| multi: "MultiEnqueue ts p = Inr p' \<Longrightarrow> pool_step p p'"
| stop: "pool_step p (pool_stop p)"

inductive_cases worker_stepE: "worker_step p p'"
inductive_cases pool_stepE: "pool_step p p'"

section \<open>Invariant\<close>

fun running :: "'a worker \<Rightarrow> 'a multiset" where
  "running (Running t) = {#t#}"
| "running _ = {#}"

definition in_progress :: "'a pool \<Rightarrow> 'a multiset" where
  "in_progress p = sum_list (map running (tp_workers p))"

text \<open>
  Tasks start in the order in which they were accepted, each of them once; a started task is running or finished.  The counters are the
  length of the queue and the number of waiting workers.
\<close>

definition pool_inv :: "'a pool \<Rightarrow> bool" where
  "pool_inv p =
     (tp_started p @ tp_tasks p = tp_accepted p \<and>
      mset (tp_started p) = mset (tp_finished p) + in_progress p \<and>
      tp_queue_size p = of_nat (length (tp_tasks p)) \<and>
      tp_free_worker_num p = length (filter (\<lambda>w. w = Waiting) (tp_workers p)) \<and>
      (\<forall>w \<in> set (tp_workers p). w = Returned \<longrightarrow> tp_stop p \<and> tp_tasks p = []) \<and>
      length (tp_workers p) = tp_worker_num p)"

lemma sum_list_update_mset:
  fixes f :: "'b \<Rightarrow> 'a multiset"
  assumes "i < length xs"
  shows "sum_list (map f (xs[i := y])) + f (xs ! i) = sum_list (map f xs) + f y"
  using assms
proof (induction xs arbitrary: i)
  case (Cons x xs)
  then show ?case by (cases i) (simp_all add: algebra_simps)
qed simp

lemma filter_update_length:
  assumes "i < length xs"
  shows "length (filter P (xs[i := y])) + (if P (xs ! i) then 1 else 0) = length (filter P xs) + (if P y then 1 else 0)"
  using assms
proof (induction xs arbitrary: i)
  case (Cons x xs)
  then show ?case by (cases i) auto
qed simp

lemma in_progress_update:
  assumes "i < length (tp_workers p)"
  shows "in_progress (p\<lparr>tp_workers := (tp_workers p)[i := w]\<rparr>) + running (tp_workers p ! i) = in_progress p + running w"
  using sum_list_update_mset [OF assms, of running w] by (simp add: in_progress_def)

lemma waiting_update:
  assumes "i < length (tp_workers p)"
  shows "length (filter (\<lambda>w. w = Waiting) ((tp_workers p)[i := w])) + (if tp_workers p ! i = Waiting then 1 else 0) =
    length (filter (\<lambda>w. w = Waiting) (tp_workers p)) + (if w = Waiting then 1 else 0)"
  using filter_update_length [OF assms, of "\<lambda>w. w = Waiting" w] by simp

lemma sum_list_empty: "sum_list (replicate n {#}) = {#}" by (induction n) auto

lemma pool_inv_new: "pool_inv (pool_new n k)"
  by (simp add: pool_inv_def pool_new_def in_progress_def sum_list_empty)

lemma pool_invD:
  assumes "pool_inv p"
  shows "tp_started p @ tp_tasks p = tp_accepted p" "mset (tp_started p) = mset (tp_finished p) + in_progress p"
    "tp_queue_size p = of_nat (length (tp_tasks p))" "tp_free_worker_num p = length (filter (\<lambda>w. w = Waiting) (tp_workers p))"
    "\<And>w. w \<in> set (tp_workers p) \<Longrightarrow> w = Returned \<Longrightarrow> tp_stop p \<and> tp_tasks p = []" "length (tp_workers p) = tp_worker_num p"
  using assms by (auto simp: pool_inv_def)

lemma pool_invI:
  assumes "tp_started p @ tp_tasks p = tp_accepted p" "mset (tp_started p) = mset (tp_finished p) + in_progress p"
    "tp_queue_size p = of_nat (length (tp_tasks p))" "tp_free_worker_num p = length (filter (\<lambda>w. w = Waiting) (tp_workers p))"
    "\<And>w. w \<in> set (tp_workers p) \<Longrightarrow> w = Returned \<Longrightarrow> tp_stop p \<and> tp_tasks p = []" "length (tp_workers p) = tp_worker_num p"
  shows "pool_inv p"
  using assms by (auto simp: pool_inv_def)

lemma worker_wait_inv:
  assumes inv: "pool_inv p" and i: "i < length (tp_workers p)" "tp_workers p ! i = Looping"
  shows "pool_inv (worker_wait i p)"
proof (rule pool_invI)
  have "in_progress (worker_wait i p) = in_progress p" using in_progress_update [OF i(1), of Waiting] i(2) by (simp add: worker_wait_def in_progress_def)
  then show "mset (tp_started (worker_wait i p)) = mset (tp_finished (worker_wait i p)) + in_progress (worker_wait i p)"
    using pool_invD(2) [OF inv] by (simp add: worker_wait_def)
  show "tp_free_worker_num (worker_wait i p) = length (filter (\<lambda>w. w = Waiting) (tp_workers (worker_wait i p)))"
    using waiting_update [OF i(1), of Waiting] i(2) pool_invD(4) [OF inv] by (simp add: worker_wait_def)
  show "\<And>w. w \<in> set (tp_workers (worker_wait i p)) \<Longrightarrow> w = Returned \<Longrightarrow> tp_stop (worker_wait i p) \<and> tp_tasks (worker_wait i p) = []"
    using pool_invD(5) [OF inv] set_update_subset_insert [of "tp_workers p" i Waiting] by (auto simp: worker_wait_def)
qed (use pool_invD [OF inv] in \<open>simp_all add: worker_wait_def\<close>)

lemma worker_wake_inv:
  assumes inv: "pool_inv p" and i: "i < length (tp_workers p)" "tp_workers p ! i = Waiting" and go: "tp_stop p \<or> tp_tasks p \<noteq> []"
  shows "pool_inv (worker_wake i p)"
proof (cases "tp_tasks p")
  case Nil
  let ?p = "worker_wake i p"
  have p: "?p = p\<lparr>tp_free_worker_num := tp_free_worker_num p - 1, tp_workers := (tp_workers p)[i := Returned]\<rparr>" using Nil by (simp add: worker_wake_def)
  show ?thesis
  proof (rule pool_invI)
    have "in_progress ?p = in_progress p" using in_progress_update [OF i(1), of Returned] i(2) by (simp add: p in_progress_def)
    then show "mset (tp_started ?p) = mset (tp_finished ?p) + in_progress ?p" using pool_invD(2) [OF inv] by (simp add: p)
    show "tp_free_worker_num ?p = length (filter (\<lambda>w. w = Waiting) (tp_workers ?p))"
      using waiting_update [OF i(1), of Returned] i(2) pool_invD(4) [OF inv] by (simp add: p)
  qed (use pool_invD [OF inv] Nil go in \<open>simp_all add: p\<close>)
next
  case (Cons t ts)
  let ?p = "worker_wake i p"
  have p: "?p = p\<lparr>tp_free_worker_num := tp_free_worker_num p - 1, tp_workers := (tp_workers p)[i := Running t], tp_tasks := ts,
      tp_queue_size := tp_queue_size p - 1, tp_started := tp_started p @ [t]\<rparr>" using Cons by (simp add: worker_wake_def)
  show ?thesis
  proof (rule pool_invI)
    have "in_progress ?p = add_mset t (in_progress p)" using in_progress_update [OF i(1), of "Running t"] i(2) by (simp add: p in_progress_def)
    then show "mset (tp_started ?p) = mset (tp_finished ?p) + in_progress ?p" using pool_invD(2) [OF inv] by (simp add: p)
    show "tp_free_worker_num ?p = length (filter (\<lambda>w. w = Waiting) (tp_workers ?p))"
      using waiting_update [OF i(1), of "Running t"] i(2) pool_invD(4) [OF inv] by (simp add: p)
    show "\<And>w. w \<in> set (tp_workers ?p) \<Longrightarrow> w = Returned \<Longrightarrow> tp_stop ?p \<and> tp_tasks ?p = []"
      using pool_invD(5) [OF inv] set_update_subset_insert [of "tp_workers p" i "Running t"] Cons by (auto simp: p)
  qed (use pool_invD [OF inv] Cons in \<open>simp_all add: p\<close>)
qed

lemma worker_run_inv:
  assumes inv: "pool_inv p" and i: "i < length (tp_workers p)" "tp_workers p ! i = Running t"
  shows "pool_inv (worker_run i p)"
proof (rule pool_invI)
  let ?p = "worker_run i p"
  have p: "?p = p\<lparr>tp_workers := (tp_workers p)[i := Looping], tp_finished := tp_finished p @ [t]\<rparr>" using i(2) by (simp add: worker_run_def)
  have "add_mset t (in_progress ?p) = in_progress p" using in_progress_update [OF i(1), of Looping] i(2) by (simp add: p in_progress_def)
  then show "mset (tp_started ?p) = mset (tp_finished ?p) + in_progress ?p" using pool_invD(2) [OF inv] by (simp add: p flip: \<open>add_mset t (in_progress ?p) = in_progress p\<close>)
  show "tp_free_worker_num ?p = length (filter (\<lambda>w. w = Waiting) (tp_workers ?p))"
    using waiting_update [OF i(1), of Looping] i(2) pool_invD(4) [OF inv] by (simp add: p)
  show "\<And>w. w \<in> set (tp_workers ?p) \<Longrightarrow> w = Returned \<Longrightarrow> tp_stop ?p \<and> tp_tasks ?p = []"
    using pool_invD(5) [OF inv] set_update_subset_insert [of "tp_workers p" i Looping] by (auto simp: p)
qed (use pool_invD [OF inv] i(2) in \<open>simp_all add: worker_run_def\<close>)

lemma worker_step_inv: "worker_step p p' \<Longrightarrow> pool_inv p \<Longrightarrow> pool_inv p'"
  by (erule worker_stepE) (simp_all add: worker_wait_inv worker_wake_inv worker_run_inv)

lemma MultiEnqueue_inv: "MultiEnqueue ts p = Inr p' \<Longrightarrow> pool_inv p \<Longrightarrow> pool_inv p'"
  by (auto simp: MultiEnqueue_def pool_inv_def in_progress_def split: if_splits)

lemma Enqueue_eq: "Enqueue t p = MultiEnqueue [t] p"
  by (simp add: Enqueue_def MultiEnqueue_def)

lemma pool_stop_inv: "pool_inv p \<Longrightarrow> pool_inv (pool_stop p)"
  by (simp add: pool_stop_def pool_inv_def in_progress_def)

lemma pool_step_inv: "pool_step p p' \<Longrightarrow> pool_inv p \<Longrightarrow> pool_inv p'"
proof (induction rule: pool_step.induct)
  case (worker p p')
  then show ?case by (rule worker_step_inv)
next
  case (enqueue t p p')
  then show ?case using MultiEnqueue_inv [of "[t]"] by (simp add: Enqueue_eq)
next
  case (multi ts p p')
  then show ?case by (rule MultiEnqueue_inv)
next
  case (stop p)
  then show ?case by (rule pool_stop_inv)
qed

lemma reachable_inv: "pool_step\<^sup>*\<^sup>* (pool_new n k) p \<Longrightarrow> pool_inv p \<and> tp_worker_num p = n"
proof (induction rule: rtranclp_induct)
  case base
  then show ?case using pool_inv_new by (simp add: pool_new_def)
next
  case (step p p')
  have "tp_worker_num p' = tp_worker_num p"
    using step(2) by (auto elim!: pool_stepE worker_stepE
      simp: worker_wait_def worker_wake_def worker_run_def Enqueue_def MultiEnqueue_def pool_stop_def Let_def split: list.splits if_splits)
  then show ?case using step pool_step_inv by blast
qed

section \<open>Progress\<close>

fun worker_weight :: "'a worker \<Rightarrow> nat" where
  "worker_weight Looping = 2"
| "worker_weight Waiting = 1"
| "worker_weight (Running t) = 3"
| "worker_weight Returned = 0"

definition pool_work :: "'a pool \<Rightarrow> nat" where
  "pool_work p = 3 * length (tp_tasks p) + sum_list (map worker_weight (tp_workers p))"

lemma weight_update:
  assumes "i < length ws"
  shows "sum_list (map worker_weight (ws[i := w])) + worker_weight (ws ! i) = sum_list (map worker_weight ws) + worker_weight w"
  using assms
proof (induction ws arbitrary: i)
  case (Cons x xs)
  then show ?case by (cases i) auto
qed simp

text \<open>The workers alone always come to rest.\<close>

lemma worker_step_work: "worker_step p p' \<Longrightarrow> pool_work p' < pool_work p"
proof (induction rule: worker_step.induct)
  case (wait i p)
  then show ?case using weight_update [OF wait(1), of Waiting] by (simp add: pool_work_def worker_wait_def)
next
  case (wake i p)
  show ?case
  proof (cases "tp_tasks p")
    case Nil
    then show ?thesis using weight_update [OF wake(1), of Returned] wake(2) by (simp add: pool_work_def worker_wake_def)
  next
    case (Cons t ts)
    then show ?thesis using weight_update [OF wake(1), of "Running t"] wake(2) by (simp add: pool_work_def worker_wake_def)
  qed
next
  case (run i p t)
  then show ?case using weight_update [OF run(1), of Looping] by (simp add: pool_work_def worker_run_def)
qed

lemma stopped_progress:
  assumes "tp_stop p" "\<not> pool_joined p"
  shows "\<exists>p'. worker_step p p'"
proof -
  obtain i where i: "i < length (tp_workers p)" "tp_workers p ! i \<noteq> Returned" using assms(2) by (auto simp: pool_joined_def in_set_conv_nth)
  then show ?thesis using assms(1) by (cases "tp_workers p ! i") (auto intro: worker_step.intros)
qed

lemma worker_step_stop: "worker_step p p' \<Longrightarrow> tp_stop p' = tp_stop p \<and> tp_accepted p' = tp_accepted p \<and> tp_worker_num p' = tp_worker_num p"
  by (erule worker_stepE) (auto simp: worker_wait_def worker_wake_def worker_run_def Let_def split: list.splits)

lemma stopped_joins: "tp_stop p \<Longrightarrow> \<exists>p'. worker_step\<^sup>*\<^sup>* p p' \<and> pool_joined p'"
proof (induction "pool_work p" arbitrary: p rule: less_induct)
  case less
  show ?case
  proof (cases "pool_joined p")
    case False
    then obtain p1 where p1: "worker_step p p1" using stopped_progress [OF less(2)] by blast
    then obtain p' where "worker_step\<^sup>*\<^sup>* p1 p'" "pool_joined p'" using less(1) [OF worker_step_work [OF p1]] worker_step_stop [OF p1] less(2) by auto
    then show ?thesis using p1 by (meson converse_rtranclp_into_rtranclp)
  qed auto
qed

lemma joined_all_finished:
  assumes "pool_inv p" "pool_joined p" "0 < tp_worker_num p"
  shows "mset (tp_finished p) = mset (tp_accepted p) \<and> tp_started p = tp_accepted p"
proof -
  note i = pool_invD [OF assms(1)]
  have ws: "tp_workers p = replicate (tp_worker_num p) Returned" using assms(2) i(6) by (intro replicate_eqI) (auto simp: pool_joined_def)
  then have "Returned \<in> set (tp_workers p)" using assms(3) by simp
  then have "tp_tasks p = []" using i(5) by blast
  moreover have "in_progress p = {#}" by (simp add: in_progress_def ws sum_list_empty)
  ultimately show ?thesis using i(1,2) by simp
qed

section \<open>Properties\<close>

text \<open>
  C30: In every state the pool can reach, whatever the interleaving of workers and callers: tasks were started in
  the order in which they were accepted, none of them twice, none skipped; every started task is running or finished; the
  queue size is the number of tasks that wait; and a worker returns only when the pool was stopped and its queue is empty.
\<close>

theorem pool_runs_in_order:
  assumes "pool_step\<^sup>*\<^sup>* (pool_new n k) p"
  shows "tp_started p @ tp_tasks p = tp_accepted p \<and>
    mset (tp_started p) = mset (tp_finished p) + sum_list (map running (tp_workers p)) \<and>
    tp_queue_size p = of_nat (length (tp_tasks p)) \<and>
    (Returned \<in> set (tp_workers p) \<longrightarrow> tp_stop p \<and> tp_tasks p = [])"
  using reachable_inv [OF assms] pool_invD [of p] by (auto simp: in_progress_def)

theorem pool_runs_in_order_witness:
  "tp_started (worker_wake 0 (worker_wait 0 (case Enqueue (7 :: nat) (pool_new 1 10) of Inr p \<Rightarrow> p))) = [7]"
proof -
  define p where "p = (case Enqueue (7 :: nat) (pool_new 1 10) of Inr p \<Rightarrow> p)"
  have p: "Enqueue 7 (pool_new 1 10) = Inr p" by (simp add: p_def Enqueue_def pool_new_def)
  have "pool_step (pool_new 1 10) p" using p by (rule enqueue)
  moreover have "pool_step p (worker_wait 0 p)" by (intro worker wait) (simp_all add: p_def Enqueue_def pool_new_def)
  moreover have "pool_step (worker_wait 0 p) (worker_wake 0 (worker_wait 0 p))"
    by (intro worker wake) (simp_all add: p_def Enqueue_def pool_new_def worker_wait_def)
  ultimately have "pool_step\<^sup>*\<^sup>* (pool_new 1 10) (worker_wake 0 (worker_wait 0 p))" by (rule rtranclp.rtrancl_into_rtrancl [OF rtranclp.rtrancl_into_rtrancl [OF r_into_rtranclp]])
  from pool_runs_in_order [OF this] show ?thesis by (simp add: p_def Enqueue_def pool_new_def worker_wait_def worker_wake_def)
qed

text \<open>
  C31: The destructor ends and no accepted task is lost: once the pool is stopped, new tasks are refused, as long as
  some worker has not returned some worker can make a step, every step of a worker brings the pool closer to rest, so that the workers all return, and
  when they have, every accepted task has been run to its end exactly once.
\<close>

theorem pool_destructor:
  assumes "pool_step\<^sup>*\<^sup>* (pool_new n k) p" "tp_stop p" "0 < n"
  shows "(\<exists>p'. worker_step\<^sup>*\<^sup>* p p' \<and> pool_joined p') \<and> (\<forall>p' p''. worker_step\<^sup>*\<^sup>* p p' \<and> worker_step p' p'' \<longrightarrow> pool_work p'' < pool_work p') \<and>
    (\<forall>p'. worker_step\<^sup>*\<^sup>* p p' \<longrightarrow> (\<forall>t. \<exists>e. Enqueue t p' = Inl e) \<and> (pool_joined p' \<or> (\<exists>p''. worker_step p' p'')) \<and>
      (pool_joined p' \<longrightarrow> mset (tp_finished p') = mset (tp_accepted p)))"
proof -
  have run: "pool_inv p' \<and> tp_stop p' \<and> tp_accepted p' = tp_accepted p \<and> tp_worker_num p' = n" if "worker_step\<^sup>*\<^sup>* p p'" for p'
    using that
  proof (induction rule: rtranclp_induct)
    case base
    then show ?case using reachable_inv [OF assms(1)] assms(2) by simp
  next
    case (step p1 p2)
    then show ?case using worker_step_inv [OF step(2)] worker_step_stop [OF step(2)] by simp
  qed
  have "(\<forall>t. \<exists>e. Enqueue t p' = Inl e) \<and> (pool_joined p' \<or> (\<exists>p''. worker_step p' p'')) \<and> (pool_joined p' \<longrightarrow> mset (tp_finished p') = mset (tp_accepted p))"
    if "worker_step\<^sup>*\<^sup>* p p'" for p'
    using run [OF that] stopped_progress [of p'] joined_all_finished [of p'] assms(3) by (auto simp: Enqueue_def)
  then show ?thesis using stopped_joins [OF assms(2)] worker_step_work by blast
qed

theorem pool_destructor_witness:
  "\<exists>p'. worker_step\<^sup>*\<^sup>* (pool_stop (case Enqueue (7 :: nat) (pool_new 2 10) of Inr p \<Rightarrow> p)) p' \<and> pool_joined p' \<and> mset (tp_finished p') = {#7#}"
proof -
  define p where "p = (case Enqueue (7 :: nat) (pool_new 2 10) of Inr p \<Rightarrow> p)"
  have p: "Enqueue 7 (pool_new 2 10) = Inr p" by (simp add: p_def Enqueue_def pool_new_def)
  have "pool_step\<^sup>*\<^sup>* (pool_new 2 10) (pool_stop p)" by (rule rtranclp.rtrancl_into_rtrancl [OF r_into_rtranclp [of pool_step]]) (rule enqueue [OF p] stop)+
  from pool_destructor [OF this] have "\<exists>p'. worker_step\<^sup>*\<^sup>* (pool_stop p) p' \<and> pool_joined p' \<and> mset (tp_finished p') = mset (tp_accepted (pool_stop p))"
    by (auto simp: pool_stop_def)
  then show ?thesis by (simp add: p_def Enqueue_def pool_new_def pool_stop_def)
qed

end
