(* ===== verification/ConcurrentRun.thy ===== *)
theory ConcurrentRun
  imports ThreadPool
begin

text \<open>
  The futures of the thread pool and \<^verbatim>\<open>ConcurrentRun\<close> of \<^verbatim>\<open>src/mokv/pool/thread_pool.hpp\<close>, which queues its functions and then gets their
  futures one after the other.  A task is the identity of its packaged task with what its function yields, an exception or a
  value; its future is ready when the task has finished.  The caller waits in \<open>get\<close> while workers, other callers and the
  destructor make steps.
\<close>

section \<open>The caller\<close>

type_synonym ('e, 'r) ptask = "nat \<times> ('e + 'r)"

datatype ('e, 'r) caller = Getting "('e, 'r) ptask list" "'r list" | Threw 'e

text \<open>The packaged tasks of the functions, with identities from \<open>i\<close> on.\<close>

definition packaged :: "nat \<Rightarrow> ('e + 'r) list \<Rightarrow> ('e, 'r) ptask list" where
  "packaged i fs = zip [i..<i + length fs] fs"

definition ConcurrentRun_begin ::
    "nat \<Rightarrow> ('e + 'r) list \<Rightarrow> ('e, 'r) ptask pool \<Rightarrow> string + ('e, 'r) ptask pool \<times> ('e, 'r) caller" where
  "ConcurrentRun_begin i fs p =
     (case MultiEnqueue (packaged i fs) p of Inl e \<Rightarrow> Inl e | Inr p' \<Rightarrow> Inr (p', Getting (packaged i fs) []))"

text \<open>\<^verbatim>\<open>get\<close> of the next future; \<open>None\<close>: it is not ready, or there is none.\<close>

fun get_next :: "('e, 'r) ptask pool \<Rightarrow> ('e, 'r) caller \<Rightarrow> ('e, 'r) caller option" where
  "get_next p (Getting (t # ts) vs) =
     (if t \<in> set (tp_finished p)
      then Some (case snd t of Inl e \<Rightarrow> Threw e | Inr v \<Rightarrow> Getting ts (vs @ [v])) else None)"
| "get_next p _ = None"

text \<open>What \<^verbatim>\<open>ConcurrentRun\<close> returns, once it does.\<close>

fun returned :: "('e, 'r) caller \<Rightarrow> ('e + 'r list) option" where
  "returned (Getting [] vs) = Some (Inr vs)"
| "returned (Getting (t # ts) vs) = None"
| "returned (Threw e) = Some (Inl e)"

text \<open>The steps in which only the workers and this caller take part, and all steps.\<close>

inductive run_step :: "('e, 'r) ptask pool \<times> ('e, 'r) caller \<Rightarrow> ('e, 'r) ptask pool \<times> ('e, 'r) caller \<Rightarrow> bool" where
  worker: "worker_step p p' \<Longrightarrow> run_step (p, r) (p', r)"
| get: "get_next p r = Some r' \<Longrightarrow> run_step (p, r) (p, r')"

inductive any_step :: "('e, 'r) ptask pool \<times> ('e, 'r) caller \<Rightarrow> ('e, 'r) ptask pool \<times> ('e, 'r) caller \<Rightarrow> bool" where
  run: "run_step s s' \<Longrightarrow> any_step s s'"
| other: "pool_step p p' \<Longrightarrow> any_step (p, r) (p', r)"

inductive_cases run_stepE: "run_step (p, r) (p', r')"
inductive_cases any_stepE: "any_step (p, r) (p', r')"

text \<open>The functions called one after the other.\<close>

fun sequentially :: "('e + 'r) list \<Rightarrow> 'e + 'r list" where
  "sequentially [] = Inr []"
| "sequentially (Inl e # fs) = Inl e"
| "sequentially (Inr v # fs) = (case sequentially fs of Inl e \<Rightarrow> Inl e | Inr vs \<Rightarrow> Inr (v # vs))"

section \<open>Invariant and progress\<close>

definition prepend :: "'r list \<Rightarrow> 'e + 'r list \<Rightarrow> 'e + 'r list" where
  "prepend vs r = (case r of Inl e \<Rightarrow> Inl e | Inr ws \<Rightarrow> Inr (vs @ ws))"

lemma prepend_simps [simp]: "prepend vs (Inl e) = Inl e" "prepend vs (Inr ws) = Inr (vs @ ws)" "prepend [] r = r"
  by (simp_all add: prepend_def split: sum.splits)

text \<open>The result is determined already: what is collected, and the futures that remain; their tasks are accepted.\<close>

fun caller_inv :: "('e, 'r) ptask pool \<Rightarrow> 'e + 'r list \<Rightarrow> ('e, 'r) caller \<Rightarrow> bool" where
  "caller_inv p res (Getting ts vs) = (set ts \<subseteq> set (tp_accepted p) \<and> prepend vs (sequentially (map snd ts)) = res)"
| "caller_inv p res (Threw e) = (res = Inl e)"

lemma get_next_inv: "get_next p r = Some r' \<Longrightarrow> caller_inv p res r \<Longrightarrow> caller_inv p res r'"
  by (induction p r rule: get_next.induct) (auto simp: prepend_def simp del: prepend_simps split: if_splits sum.splits)

lemma pool_step_accepted: "pool_step p p' \<Longrightarrow> set (tp_accepted p) \<subseteq> set (tp_accepted p') \<and> tp_worker_num p' = tp_worker_num p"
  by (induction rule: pool_step.induct)
    (auto dest: worker_step_stop simp: Enqueue_def MultiEnqueue_def pool_stop_def split: if_splits)

lemma caller_inv_mono: "caller_inv p res r \<Longrightarrow> set (tp_accepted p) \<subseteq> set (tp_accepted p') \<Longrightarrow> caller_inv p' res r"
  by (cases r) auto

definition run_inv :: "nat \<Rightarrow> 'e + 'r list \<Rightarrow> ('e, 'r) ptask pool \<times> ('e, 'r) caller \<Rightarrow> bool" where
  "run_inv n res s = (pool_inv (fst s) \<and> tp_worker_num (fst s) = n \<and> caller_inv (fst s) res (snd s))"

lemma any_step_inv: "any_step s s' \<Longrightarrow> run_inv n res s \<Longrightarrow> run_inv n res s'"
proof (induction rule: any_step.induct)
  case (run s s')
  then show ?case
  proof (induction rule: run_step.induct)
    case (worker p p' r)
    then have "pool_step p p'" by (intro pool_step.worker)
    then show ?case using worker pool_step_inv pool_step_accepted caller_inv_mono by (fastforce simp: run_inv_def)
  next
    case (get p r r')
    then show ?case using get_next_inv by (fastforce simp: run_inv_def)
  qed
next
  case (other p p' r)
  then show ?case using pool_step_inv pool_step_accepted caller_inv_mono by (fastforce simp: run_inv_def)
qed

lemma any_steps_inv: "any_step\<^sup>*\<^sup>* s s' \<Longrightarrow> run_inv n res s \<Longrightarrow> run_inv n res s'"
  by (induction rule: rtranclp_induct) (use any_step_inv in blast)+

lemma running_worker: "t \<in># sum_list (map running ws) \<Longrightarrow> \<exists>w \<in> set ws. t \<in># running w"
  by (induction ws) auto

text \<open>While an accepted task is not finished, some worker can make a step.\<close>

lemma pending_progress:
  assumes inv: "pool_inv p" and n: "0 < tp_worker_num p" and t: "t \<in> set (tp_accepted p)" "t \<notin> set (tp_finished p)"
  shows "\<exists>p'. worker_step p p'"
proof (cases "tp_tasks p = []")
  case True
  note i = pool_invD [OF inv]
  have "tp_started p = tp_accepted p" using i(1) True by simp
  then have "t \<in># mset (tp_started p)" using t(1) by simp
  then have "t \<in># in_progress p" unfolding i(2) using t(2) by simp
  then obtain w where "w \<in> set (tp_workers p)" "t \<in># running w" using running_worker [of t "tp_workers p"] unfolding in_progress_def by blast
  then obtain j where j: "j < length (tp_workers p)" "t \<in># running (tp_workers p ! j)" unfolding in_set_conv_nth by blast
  then have "tp_workers p ! j = Running t" by (cases "tp_workers p ! j") auto
  from worker_step.run [OF j(1) this] show ?thesis by (rule exI)
next
  case False
  note i = pool_invD [OF inv]
  have l: "0 < length (tp_workers p)" using n i(6) by simp
  then have "tp_workers p ! 0 \<noteq> Returned" using i(5) [OF nth_mem] False by blast
  then show ?thesis using l False by (cases "tp_workers p ! 0") (auto intro: worker_step.intros)
qed

lemma run_progress:
  assumes "run_inv n res (p, r)" "0 < n" "returned r = None"
  shows "\<exists>s. run_step (p, r) s"
proof -
  obtain t ts vs where r: "r = Getting (t # ts) vs" using assms(3) by (cases r rule: returned.cases) auto
  show ?thesis
  proof (cases "t \<in> set (tp_finished p)")
    case True
    then show ?thesis unfolding r by (intro exI) (rule get, simp)
  next
    case False
    then show ?thesis using pending_progress [of p t] assms(1,2) r by (auto simp: run_inv_def intro: run_step.worker)
  qed
qed

definition run_work :: "('e, 'r) ptask pool \<times> ('e, 'r) caller \<Rightarrow> nat" where
  "run_work s = pool_work (fst s) + (case snd s of Getting ts vs \<Rightarrow> Suc (length ts) | Threw e \<Rightarrow> 0)"

lemma run_step_work: "run_step s s' \<Longrightarrow> run_work s' < run_work s"
proof (induction rule: run_step.induct)
  case (worker p p' r)
  then show ?case using worker_step_work [OF worker] by (simp add: run_work_def)
next
  case (get p r r')
  then show ?case by (induction p r rule: get_next.induct) (auto simp: run_work_def split: if_splits sum.splits)
qed

lemma run_returns: "run_inv n res s \<Longrightarrow> 0 < n \<Longrightarrow> \<exists>s'. run_step\<^sup>*\<^sup>* s s' \<and> returned (snd s') \<noteq> None"
proof (induction "run_work s" arbitrary: s rule: less_induct)
  case less
  show ?case
  proof (cases "returned (snd s)")
    case None
    then obtain s1 where s1: "run_step s s1" using run_progress [of n res "fst s" "snd s"] less(2,3) by auto
    then obtain s' where "run_step\<^sup>*\<^sup>* s1 s'" "returned (snd s') \<noteq> None"
      using less(1) [OF run_step_work [OF s1]] any_step_inv [OF any_step.run [OF s1] less(2)] less(3) by blast
    then show ?thesis using s1 by (meson converse_rtranclp_into_rtranclp)
  next
    case (Some x)
    then show ?thesis by (intro exI [of _ s]) simp
  qed
qed

lemma returned_result: "run_inv n res s \<Longrightarrow> returned (snd s) = Some x \<Longrightarrow> x = res"
  by (cases "snd s" rule: returned.cases) (auto simp: run_inv_def)

section \<open>Theorems\<close>

text \<open>
  Where \<^verbatim>\<open>ConcurrentRun\<close> is called on a pool with workers that is not stopped: whatever the workers, other callers and the
  destructor do in between, it returns the results of its functions in the order of the functions, or throws the exception
  of the first one that threw; while it waits, a worker or the caller itself can make a step, each such step brings it
  closer to its end, and so it returns.  On a stopped pool it throws.
\<close>
theorem concurrent_run:
  assumes "pool_step\<^sup>*\<^sup>* (pool_new n k) p" "0 < n"
  shows "(tp_stop p \<longrightarrow> (\<exists>e. ConcurrentRun_begin i fs p = Inl e)) \<and>
    (\<not> tp_stop p \<longrightarrow> (\<exists>s. ConcurrentRun_begin i fs p = Inr s \<and>
       (\<exists>s'. run_step\<^sup>*\<^sup>* s s' \<and> returned (snd s') \<noteq> None) \<and>
       (\<forall>s'. any_step\<^sup>*\<^sup>* s s' \<longrightarrow>
          (returned (snd s') = None \<or> returned (snd s') = Some (sequentially fs)) \<and>
          (returned (snd s') = None \<longrightarrow> (\<exists>s''. run_step s' s'')) \<and>
          (\<forall>s''. run_step s' s'' \<longrightarrow> run_work s'' < run_work s'))))"
proof (intro conjI impI)
  show "\<exists>e. ConcurrentRun_begin i fs p = Inl e" if "tp_stop p" using that by (simp add: ConcurrentRun_begin_def MultiEnqueue_def)
  assume ns: "\<not> tp_stop p"
  then obtain p' where p': "MultiEnqueue (packaged i fs) p = Inr p'" by (simp add: MultiEnqueue_def)
  let ?s = "(p', Getting (packaged i fs) [])"
  have "pool_inv p' \<and> tp_worker_num p' = n"
    using reachable_inv [OF assms(1)] MultiEnqueue_inv [OF p'] p' ns by (auto simp: MultiEnqueue_def)
  moreover have "set (packaged i fs) \<subseteq> set (tp_accepted p')" "map snd (packaged i fs) = fs"
    using p' ns by (auto simp: MultiEnqueue_def packaged_def)
  ultimately have inv: "run_inv n (sequentially fs) ?s" by (simp add: run_inv_def)
  have "(returned (snd s') = None \<or> returned (snd s') = Some (sequentially fs)) \<and>
      (returned (snd s') = None \<longrightarrow> (\<exists>s''. run_step s' s'')) \<and> (\<forall>s''. run_step s' s'' \<longrightarrow> run_work s'' < run_work s')"
    if "any_step\<^sup>*\<^sup>* ?s s'" for s'
  proof (intro conjI allI impI)
    note i = any_steps_inv [OF that inv]
    show "returned (snd s') = None \<or> returned (snd s') = Some (sequentially fs)" using returned_result [OF i] by (cases "returned (snd s')") auto
    show "\<exists>s''. run_step s' s''" if "returned (snd s') = None" using run_progress [of n "sequentially fs" "fst s'" "snd s'"] i assms(2) that by simp
    show "run_work s'' < run_work s'" if "run_step s' s''" for s'' using run_step_work [OF that] .
  qed
  then show "\<exists>s. ConcurrentRun_begin i fs p = Inr s \<and> (\<exists>s'. run_step\<^sup>*\<^sup>* s s' \<and> returned (snd s') \<noteq> None) \<and>
       (\<forall>s'. any_step\<^sup>*\<^sup>* s s' \<longrightarrow>
          (returned (snd s') = None \<or> returned (snd s') = Some (sequentially fs)) \<and>
          (returned (snd s') = None \<longrightarrow> (\<exists>s''. run_step s' s'')) \<and>
          (\<forall>s''. run_step s' s'' \<longrightarrow> run_work s'' < run_work s'))"
    using run_returns [OF inv assms(2)] p' by (intro exI [of _ ?s]) (simp add: ConcurrentRun_begin_def)
qed

theorem concurrent_run_witness:
  "\<exists>s s'. ConcurrentRun_begin 0 [Inr 1, Inr 2] (pool_new 2 10) = Inr s \<and> run_step\<^sup>*\<^sup>* s s' \<and>
     returned (snd s') = Some (Inr [1, 2] :: string + nat list)"
proof -
  have "\<not> tp_stop (pool_new 2 10)" by (simp add: pool_new_def)
  then obtain s s' where s: "ConcurrentRun_begin 0 [Inr 1, Inr 2] (pool_new 2 10) = Inr s" "run_step\<^sup>*\<^sup>* s s'" "returned (snd s') \<noteq> None"
    and a: "\<And>s'. any_step\<^sup>*\<^sup>* s s' \<Longrightarrow> returned (snd s') = None \<or> returned (snd s') = Some (sequentially [Inr 1, Inr 2] :: string + nat list)"
    using concurrent_run [of 2 10 "pool_new 2 10" 0 "[Inr 1, Inr 2] :: (string + nat) list"] by auto
  have "any_step\<^sup>*\<^sup>* s s'" using s(2) by (induction rule: rtranclp_induct) (auto intro: rtranclp.rtrancl_into_rtrancl any_step.run)
  from a [OF this] s show ?thesis by (intro exI [of _ s] exI [of _ s']) simp
qed

end
