(* ===== verification/KV_Async.thy ===== *)
theory KV_Async
  imports KV_Theorems
begin

text \<open>
  The asynchronous operations of \<^verbatim>\<open>DBKVStore\<close> (\<^verbatim>\<open>src/mokv/kvstore.cpp\<close>).  \<^verbatim>\<open>PutAsync\<close> and \<^verbatim>\<open>DeleteAsync\<close> run \<^verbatim>\<open>Put\<close> and \<^verbatim>\<open>Delete\<close> on threads of
  their own; only the update of the key index is under the mutex of the store, so that the operations of several threads
  interleave between the sections modelled here: the checks, the read of the previous value, the write to the
  database, and the update of the index.  Each call of the database is one step.
\<close>

section \<open>Operations as sequences of sections\<close>

datatype kv_op = APut string string | ADelete string

fun op_key :: "kv_op \<Rightarrow> string" where
  "op_key (APut key val) = key"
| "op_key (ADelete key) = key"

datatype kv_task =
    Start kv_op
  | Reading kv_op
  | Writing kv_op "string option"
  | Indexing kv_op "string option"
  | Ready KVResult

text \<open>The section of \<^verbatim>\<open>Put\<close> and of \<^verbatim>\<open>Delete\<close> that holds \<^verbatim>\<open>metadata_mutex_\<close>.\<close>

definition put_index :: "string \<Rightarrow> string \<Rightarrow> string option \<Rightarrow> KVStore \<Rightarrow> KVStore option" where
  "put_index key val previous s =
     do { let known = (if key \<in> set (kv_known_keys s) then kv_known_keys s else kv_known_keys s @ [key]);
          let tracked = (case previous of None \<Rightarrow> kv_tracked s | Some p \<Rightarrow> kv_tracked s - of_nat (length key + length p));
          let tracked = tracked + of_nat (length key + length val);
          d \<leftarrow> kv_db s;
          d \<leftarrow> db_Put kMetaKeyIndex (SerializeKeys known) d;
          Some (s\<lparr>kv_db := Some d, kv_known_keys := known, kv_tracked := tracked\<rparr>) }"

definition delete_index :: "string \<Rightarrow> string \<Rightarrow> KVStore \<Rightarrow> KVStore option" where
  "delete_index key p s =
     do { let known = remove1 key (kv_known_keys s);
          let tracked = kv_tracked s - of_nat (length key + length p);
          d \<leftarrow> kv_db s;
          d \<leftarrow> db_Put kMetaKeyIndex (SerializeKeys known) d;
          Some (s\<lparr>kv_db := Some d, kv_known_keys := known, kv_tracked := tracked\<rparr>) }"

definition write_db :: "kv_op \<Rightarrow> KVStore \<Rightarrow> KVStore option" where
  "write_db c s =
     do { d \<leftarrow> kv_db s;
          d \<leftarrow> (case c of APut key val \<Rightarrow> db_Put key val d | ADelete key \<Rightarrow> db_Delete key d);
          Some (s\<lparr>kv_db := Some d\<rparr>) }"

text \<open>The next section of an operation; \<open>None\<close> is an undefined access, as through the null pointer that \<^verbatim>\<open>Close\<close> leaves.\<close>

fun kv_section :: "kv_task \<Rightarrow> KVStore \<Rightarrow> (kv_task \<times> KVStore) option" where
  "kv_section (Start c) s =
     Some (if \<not> HealthCheck s then Ready (KVResult_Fail ''DBKVStore is closed'')
           else if IsReservedKey (op_key c) then Ready (KVResult_Fail ''reserved key prefix is managed by mokv'')
           else Reading c, s)"
| "kv_section (Reading (APut key val)) s =
     do { previous \<leftarrow> kv_Get s key; Some (Writing (APut key val) previous, s) }"
| "kv_section (Reading (ADelete key)) s =
     do { previous \<leftarrow> kv_Get s key;
          Some (if previous = None then Ready KVResult_OK else Writing (ADelete key) previous, s) }"
| "kv_section (Writing c previous) s = map_option (\<lambda>s. (Indexing c previous, s)) (write_db c s)"
| "kv_section (Indexing (APut key val) previous) s = map_option (\<lambda>s. (Ready KVResult_OK, s)) (put_index key val previous s)"
| "kv_section (Indexing (ADelete key) previous) s =
     do { p \<leftarrow> previous; map_option (\<lambda>s. (Ready KVResult_OK, s)) (delete_index key p s) }"
| "kv_section (Ready r) s = None"

text \<open>All sections of one operation, at most four.\<close>

fun run_task :: "nat \<Rightarrow> kv_task \<Rightarrow> KVStore \<Rightarrow> (kv_task \<times> KVStore) option" where
  "run_task 0 t s = Some (t, s)"
| "run_task (Suc n) (Ready r) s = Some (Ready r, s)"
| "run_task (Suc n) t s = do { (t, s) \<leftarrow> kv_section t s; run_task n t s }"

definition PutAsync :: "string \<Rightarrow> string \<Rightarrow> kv_op \<times> kv_task" where
  "PutAsync key val = (APut key val, Start (APut key val))"

definition DeleteAsync :: "string \<Rightarrow> kv_op \<times> kv_task" where
  "DeleteAsync key = (ADelete key, Start (ADelete key))"

text \<open>Any of the threads makes its next step.\<close>

inductive async_step :: "(kv_op \<times> kv_task) list \<times> KVStore \<Rightarrow> (kv_op \<times> kv_task) list \<times> KVStore \<Rightarrow> bool" where
  "kv_section t s = Some (t', s') \<Longrightarrow> async_step (xs @ (c, t) # ys, s) (xs @ (c, t') # ys, s')"

text \<open>Other operations of the store.\<close>

definition kv_ListKeys :: "KVStore \<Rightarrow> string list" where
  "kv_ListKeys s = kv_known_keys s"

definition kv_BytesSize :: "KVStore \<Rightarrow> 64 word" where
  "kv_BytesSize s = kv_tracked s"

section \<open>One thread alone\<close>

text \<open>Without interleaving, the sections are \<open>kv_Put\<close> and \<open>kv_Delete\<close>.\<close>

lemma run_task_Put: "run_task 4 (Start (APut key val)) s = map_option (\<lambda>(r, s). (Ready r, s)) (kv_Put key val s)"
  by (simp add: numeral_eq_Suc kv_Put_def put_index_def write_db_def Let_def map_option_bind o_def kv_Get_def HealthCheck_def
      split: option.splits bind_splits)

lemma run_task_Delete: "run_task 4 (Start (ADelete key)) s = map_option (\<lambda>(r, s). (Ready r, s)) (kv_Delete key s)"
  by (simp add: numeral_eq_Suc kv_Delete_def delete_index_def write_db_def Let_def map_option_bind o_def kv_Get_def HealthCheck_def
      split: option.splits bind_splits)

section \<open>The two maps of a store\<close>

text \<open>
  Between the write to the database and the update of the index the store holds two maps: \<open>g\<close>, which reads see, and \<open>h\<close>, which
  the key index and the byte count describe.
\<close>

definition core_rep :: "'c sst_env \<Rightarrow> KVStore \<Rightarrow> (string \<rightharpoonup> string) \<Rightarrow> (string \<rightharpoonup> string) \<Rightarrow> bool" where
  "core_rep env s g h =
     (\<exists>N E d m. kv_db s = Some d \<and> \<not> kv_closed s \<and> db_rep env N E d m \<and>
        (\<forall>k. \<not> IsReservedKey k \<longrightarrow> visible (m k) = g k) \<and> (\<forall>k. IsReservedKey k \<longrightarrow> g k = None \<and> h k = None) \<and>
        distinct (kv_known_keys s) \<and> set (kv_known_keys s) = dom h \<and> kv_tracked s = of_nat (kv_bytes h) \<and>
        visible (m kMetaKeyIndex) = (if m kMetaKeyIndex = None then None else Some (SerializeKeys (kv_known_keys s))) \<and>
        (m kMetaKeyIndex = None \<longrightarrow> kv_known_keys s = []))"

lemma core_rep_same: "core_rep env s f f \<longleftrightarrow> kv_holds env s f"
proof -
  have "(\<forall>k \<in> dom f. \<not> IsReservedKey k) \<longleftrightarrow> (\<forall>k. IsReservedKey k \<longrightarrow> f k = None \<and> f k = None)" by auto
  then show ?thesis unfolding core_rep_def kv_holds_def kv_rep_def by simp
qed

lemma core_repE:
  assumes "core_rep env s g h"
  obtains N E d m where "kv_db s = Some d" "\<not> kv_closed s" "db_rep env N E d m" "\<forall>k. \<not> IsReservedKey k \<longrightarrow> visible (m k) = g k"
    "\<forall>k. IsReservedKey k \<longrightarrow> g k = None \<and> h k = None" "distinct (kv_known_keys s)" "set (kv_known_keys s) = dom h"
    "kv_tracked s = of_nat (kv_bytes h)"
    "visible (m kMetaKeyIndex) = (if m kMetaKeyIndex = None then None else Some (SerializeKeys (kv_known_keys s)))"
    "m kMetaKeyIndex = None \<longrightarrow> kv_known_keys s = []"
  using assms unfolding core_rep_def by (elim exE conjE) (rule that)

lemma core_repI:
  assumes "kv_db s = Some d" "\<not> kv_closed s" "db_rep env N E d (m(kMetaKeyIndex \<mapsto> SerializeKeys (kv_known_keys s)))"
    and "\<forall>k. \<not> IsReservedKey k \<longrightarrow> visible (m k) = g k" "\<forall>k. IsReservedKey k \<longrightarrow> g k = None \<and> h k = None"
    and "distinct (kv_known_keys s)" "set (kv_known_keys s) = dom h" "kv_tracked s = of_nat (kv_bytes h)"
  shows "core_rep env s g h"
proof -
  let ?m = "m(kMetaKeyIndex \<mapsto> SerializeKeys (kv_known_keys s))"
  have "\<forall>k. \<not> IsReservedKey k \<longrightarrow> visible (?m k) = g k" using assms(4) reserved_meta by (metis fun_upd_other)
  then show ?thesis
    unfolding core_rep_def using assms(1-3,5-8) by (intro exI [of _ N] exI [of _ E] exI [of _ d] exI [of _ ?m]) simp
qed

lemma core_rep_Get: "core_rep env s g h \<Longrightarrow> \<not> IsReservedKey k \<Longrightarrow> kv_Get s k = Some (g k)"
  by (auto simp: core_rep_def kv_Get_def HealthCheck_def db_rep_Get)

lemma core_rep_Health: "core_rep env s g h \<Longrightarrow> HealthCheck s"
  by (auto simp: core_rep_def HealthCheck_def)

fun apply_op :: "kv_op \<Rightarrow> (string \<rightharpoonup> string) \<Rightarrow> (string \<rightharpoonup> string)" where
  "apply_op (APut k v) f = f(k \<mapsto> v)"
| "apply_op (ADelete k) f = f(k := None)"

fun valid_op :: "kv_op \<Rightarrow> bool" where
  "valid_op (APut k v) = (\<not> IsReservedKey k \<and> v \<noteq> TombstoneValue)"
| "valid_op (ADelete k) = (\<not> IsReservedKey k)"

lemma valid_op_key: "valid_op c \<Longrightarrow> \<not> IsReservedKey (op_key c)"
  by (cases c) auto

text \<open>The write to the database changes the first map, the update of the index the second one.\<close>

lemma core_rep_write:
  assumes core: "core_rep env s g h" and ok: "valid_op c"
  obtains s' where "write_db c s = Some s'" "core_rep env s' (apply_op c g) h"
proof -
  obtain N E d m where d: "kv_db s = Some d" "\<not> kv_closed s" "db_rep env N E d m" "\<forall>k. \<not> IsReservedKey k \<longrightarrow> visible (m k) = g k"
    "\<forall>k. IsReservedKey k \<longrightarrow> g k = None \<and> h k = None" "distinct (kv_known_keys s)" "set (kv_known_keys s) = dom h"
    "kv_tracked s = of_nat (kv_bytes h)"
    "visible (m kMetaKeyIndex) = (if m kMetaKeyIndex = None then None else Some (SerializeKeys (kv_known_keys s)))"
    "m kMetaKeyIndex = None \<longrightarrow> kv_known_keys s = []"
    using core by (rule core_repE)
  define v where "v = (case c of APut k v \<Rightarrow> v | ADelete k \<Rightarrow> TombstoneValue)"
  obtain d' where d': "db_Put (op_key c) v d = Some d'" "db_rep env N (insert (op_key c, v) E) d' (m(op_key c \<mapsto> v))"
    by (rule db_rep_Put [OF d(3), where k = "op_key c" and v = v])
  let ?s = "s\<lparr>kv_db := Some d'\<rparr>"
  have "write_db c s = Some ?s" using d(1) d'(1) by (cases c) (simp_all add: write_db_def v_def db_Delete_def)
  moreover have upd: "apply_op c g = g(op_key c := visible (Some v))"
    using ok by (cases c) (simp_all add: v_def visible_user visible_Tombstone)
  have res: "\<not> IsReservedKey (op_key c)" "op_key c \<noteq> kMetaKeyIndex" using valid_op_key [OF ok] by auto
  let ?m = "m(op_key c \<mapsto> v)"
  have m: "\<forall>k. \<not> IsReservedKey k \<longrightarrow> visible (?m k) = (g(op_key c := visible (Some v))) k" using d(4) by simp
  have r: "\<forall>k. IsReservedKey k \<longrightarrow> (g(op_key c := visible (Some v))) k = None \<and> h k = None" using d(5) res(1) by auto
  have k: "?m kMetaKeyIndex = m kMetaKeyIndex" using res(2) by simp
  have "core_rep env ?s (apply_op c g) h"
    unfolding core_rep_def upd
    by (intro exI [of _ N] exI [of _ "insert (op_key c, v) E"] exI [of _ d'] exI [of _ ?m] conjI m r d'(2))
      (use d(2,6-10) in \<open>simp_all add: k del: fun_upd_apply\<close>)
  ultimately show thesis using that by blast
qed

lemma core_rep_put_index:
  assumes core: "core_rep env s g h" and ok: "\<not> IsReservedKey k"
  obtains s' where "put_index k v (h k) s = Some s'" "core_rep env s' g (h(k \<mapsto> v))"
proof -
  obtain N E d m where d: "kv_db s = Some d" "\<not> kv_closed s" "db_rep env N E d m" "\<forall>k. \<not> IsReservedKey k \<longrightarrow> visible (m k) = g k"
    "\<forall>k. IsReservedKey k \<longrightarrow> g k = None \<and> h k = None" "distinct (kv_known_keys s)" "set (kv_known_keys s) = dom h"
    "kv_tracked s = of_nat (kv_bytes h)" using core by (rule core_repE)
  have fin: "finite (dom h)" using d(7) by (metis List.finite_set)
  let ?known = "if k \<in> set (kv_known_keys s) then kv_known_keys s else kv_known_keys s @ [k]"
  define tr where "tr = (case h k of None \<Rightarrow> kv_tracked s | Some p \<Rightarrow> kv_tracked s - of_nat (length k + length p)) + of_nat (length k + length v)"
  obtain d' where d': "db_Put kMetaKeyIndex (SerializeKeys ?known) d = Some d'"
    "db_rep env N (insert (kMetaKeyIndex, SerializeKeys ?known) E) d' (m(kMetaKeyIndex \<mapsto> SerializeKeys ?known))"
    by (rule db_rep_Put [OF d(3), where k = kMetaKeyIndex and v = "SerializeKeys ?known"])
  let ?s = "s\<lparr>kv_db := Some d', kv_known_keys := ?known, kv_tracked := tr\<rparr>"
  have "put_index k v (h k) s = Some ?s" using d(1) d'(1) by (simp add: put_index_def Let_def tr_def)
  moreover have "tr = of_nat (kv_bytes (h(k \<mapsto> v)))"
    using d(8) kv_bytes_upd [OF fin, of k v] kv_bytes_None [of h k] kv_bytes_remove [OF fin, of k]
    by (cases "h k") (simp_all add: tr_def algebra_simps)
  moreover have "distinct ?known" "set ?known = dom (h(k \<mapsto> v))" using d(6,7) by auto
  moreover have "\<forall>j. IsReservedKey j \<longrightarrow> g j = None \<and> (h(k \<mapsto> v)) j = None" using d(5) ok by auto
  ultimately show thesis using d(1-4) d'(2) by (intro that [of ?s] core_repI [where m = m and d = d']) simp_all
qed

lemma core_rep_delete_index:
  assumes core: "core_rep env s g h" and p: "h k = Some p"
  obtains s' where "delete_index k p s = Some s'" "core_rep env s' g (h(k := None))"
proof -
  obtain N E d m where d: "kv_db s = Some d" "\<not> kv_closed s" "db_rep env N E d m" "\<forall>k. \<not> IsReservedKey k \<longrightarrow> visible (m k) = g k"
    "\<forall>k. IsReservedKey k \<longrightarrow> g k = None \<and> h k = None" "distinct (kv_known_keys s)" "set (kv_known_keys s) = dom h"
    "kv_tracked s = of_nat (kv_bytes h)" using core by (rule core_repE)
  have fin: "finite (dom h)" using d(7) by (metis List.finite_set)
  let ?known = "remove1 k (kv_known_keys s)"
  obtain d' where d': "db_Put kMetaKeyIndex (SerializeKeys ?known) d = Some d'"
    "db_rep env N (insert (kMetaKeyIndex, SerializeKeys ?known) E) d' (m(kMetaKeyIndex \<mapsto> SerializeKeys ?known))"
    by (rule db_rep_Put [OF d(3), where k = kMetaKeyIndex and v = "SerializeKeys ?known"])
  let ?s = "s\<lparr>kv_db := Some d', kv_known_keys := ?known, kv_tracked := kv_tracked s - of_nat (length k + length p)\<rparr>"
  have "delete_index k p s = Some ?s" using d(1) d'(1) by (simp add: delete_index_def Let_def)
  moreover have "kv_tracked s - of_nat (length k + length p) = of_nat (kv_bytes (h(k := None)))"
    using d(8) kv_bytes_remove [OF fin p] by simp
  moreover have "distinct ?known" "set ?known = dom (h(k := None))" using d(6,7) by (auto simp: set_remove1_eq)
  moreover have "\<forall>j. IsReservedKey j \<longrightarrow> g j = None \<and> (h(k := None)) j = None" using d(5) by auto
  ultimately show thesis using d(1-4) d'(2) by (intro that [of ?s] core_repI [where m = m and d = d']) simp_all
qed

section \<open>Threads on different keys\<close>

text \<open>The effects of the operations whose state satisfies \<open>P\<close>.\<close>

definition effects :: "(kv_task \<Rightarrow> bool) \<Rightarrow> (kv_op \<times> kv_task) list \<Rightarrow> (string \<rightharpoonup> string) \<Rightarrow> (string \<rightharpoonup> string)" where
  "effects P zs f = foldr (\<lambda>(c, t) g. if P t then apply_op c g else g) zs f"

definition written :: "kv_task \<Rightarrow> bool" where
  "written t = (case t of Indexing c p \<Rightarrow> True | Ready r \<Rightarrow> True | _ \<Rightarrow> False)"

definition finished :: "kv_task \<Rightarrow> bool" where
  "finished t = (case t of Ready r \<Rightarrow> True | _ \<Rightarrow> False)"

lemma task_phases [simp]:
  "\<not> written (Start c)" "\<not> written (Reading c)" "\<not> written (Writing c p)" "written (Indexing c p)" "written (Ready r)"
  "\<not> finished (Start c)" "\<not> finished (Reading c)" "\<not> finished (Writing c p)" "\<not> finished (Indexing c p)" "finished (Ready r)"
  by (simp_all add: written_def finished_def)

lemma effects_Nil [simp]: "effects P [] f = f" by (simp add: effects_def)

lemma effects_Cons [simp]: "effects P ((c, t) # zs) f = (if P t then apply_op c (effects P zs f) else effects P zs f)"
  by (simp add: effects_def)




lemma apply_op_key: "apply_op c g (op_key c) = apply_op c g' (op_key c)"
  by (cases c) auto







lemma effects_all: "\<forall>(c, t) \<in> set zs. P t \<Longrightarrow> effects P zs f = foldr (\<lambda>(c, t). apply_op c) zs f"
  by (induction zs) auto

















section \<open>Theorems\<close>



text \<open>
  On the same key the sections of a put and of a deletion can interleave so that the index loses the key: both succeed, the key
  can be read, and it is neither listed nor counted, also after a restart.
\<close>
theorem index_misses_key:
  assumes "kv_holds env s f" "f k = Some p" "\<not> IsReservedKey k" "p \<noteq> TombstoneValue"
  shows "\<exists>s'. async_step\<^sup>*\<^sup>* ([DeleteAsync k, PutAsync k p], s) ([(ADelete k, Ready KVResult_OK), (APut k p, Ready KVResult_OK)], s') \<and>
    kv_Get s' k = Some (Some p) \<and> k \<notin> set (kv_ListKeys s')"
proof -
  let ?d = "ADelete k" and ?p = "APut k p"
  have core: "core_rep env s f f" using assms(1) by (simp add: core_rep_same)
  have get: "kv_Get s k = Some (Some p)" using core_rep_Get [OF core assms(3)] assms(2) by simp
  have valid: "valid_op ?d" "valid_op ?p" using assms(3,4) by simp_all
  obtain s1 where s1: "write_db ?d s = Some s1" "core_rep env s1 (apply_op ?d f) f" by (rule core_rep_write [OF core valid(1)])
  obtain s2 where s2: "write_db ?p s1 = Some s2" "core_rep env s2 (apply_op ?p (apply_op ?d f)) f" by (rule core_rep_write [OF s1(2) valid(2)])
  obtain s3 where s3: "put_index k p (f k) s2 = Some s3" "core_rep env s3 (apply_op ?p (apply_op ?d f)) (f(k \<mapsto> p))"
    by (rule core_rep_put_index [OF s2(2) assms(3)])
  obtain s4 where s4: "delete_index k p s3 = Some s4" "core_rep env s4 (apply_op ?p (apply_op ?d f)) ((f(k \<mapsto> p))(k := None))"
    by (rule core_rep_delete_index [OF s3(2), of k p]) simp_all
  have first: "async_step ([(?d, t), z], s) ([(?d, t'), z], s')" if "kv_section t s = Some (t', s')" for t t' z s s'
    using async_step.intros [OF that, of "[]" ?d "[z]"] by simp
  have second: "async_step ([z, (?p, t)], s) ([z, (?p, t')], s')" if "kv_section t s = Some (t', s')" for t t' z s s'
    using async_step.intros [OF that, of "[z]" ?p "[]"] by simp
  note health = core_rep_Health [OF core]
  have "async_step\<^sup>*\<^sup>* ([(?d, Start ?d), (?p, Start ?p)], s) ([(?d, Start ?d), (?p, Start ?p)], s)" by simp
  also have "async_step ([(?d, Start ?d), (?p, Start ?p)], s) ([(?d, Reading ?d), (?p, Start ?p)], s)"
    by (rule first) (use health assms(3) in simp)
  also have "async_step ([(?d, Reading ?d), (?p, Start ?p)], s) ([(?d, Writing ?d (Some p)), (?p, Start ?p)], s)"
    by (rule first) (simp add: get)
  also have "async_step ([(?d, Writing ?d (Some p)), (?p, Start ?p)], s) ([(?d, Writing ?d (Some p)), (?p, Reading ?p)], s)"
    by (rule second) (use health assms(3) in simp)
  also have "async_step ([(?d, Writing ?d (Some p)), (?p, Reading ?p)], s) ([(?d, Writing ?d (Some p)), (?p, Writing ?p (Some p))], s)"
    by (rule second) (simp add: get)
  also have "async_step ([(?d, Writing ?d (Some p)), (?p, Writing ?p (Some p))], s) ([(?d, Indexing ?d (Some p)), (?p, Writing ?p (Some p))], s1)"
    by (rule first) (simp add: s1(1))
  also have "async_step ([(?d, Indexing ?d (Some p)), (?p, Writing ?p (Some p))], s1) ([(?d, Indexing ?d (Some p)), (?p, Indexing ?p (Some p))], s2)"
    by (rule second) (simp add: s2(1))
  also have "async_step ([(?d, Indexing ?d (Some p)), (?p, Indexing ?p (Some p))], s2) ([(?d, Indexing ?d (Some p)), (?p, Ready KVResult_OK)], s3)"
    by (rule second) (use s3(1) assms(2) in simp)
  also have "async_step ([(?d, Indexing ?d (Some p)), (?p, Ready KVResult_OK)], s3) ([(?d, Ready KVResult_OK), (?p, Ready KVResult_OK)], s4)"
    by (rule first) (simp add: s4(1))
  finally have "async_step\<^sup>*\<^sup>* ([DeleteAsync k, PutAsync k p], s) ([(?d, Ready KVResult_OK), (?p, Ready KVResult_OK)], s4)"
    by (simp add: PutAsync_def DeleteAsync_def)
  moreover have "kv_Get s4 k = Some (Some p)" using core_rep_Get [OF s4(2) assms(3)] by simp
  moreover have "k \<notin> set (kv_ListKeys s4)" using s4(2) by (auto simp: kv_ListKeys_def elim: core_repE)
  ultimately show ?thesis by blast
qed

text \<open>An operation that has passed its check while another thread closes the store follows a null pointer.\<close>

theorem close_during_operation:
  assumes "kv_Close env s = Some (w, s')"
  shows "kv_section (Writing c p) s' = None"
  using assms by (auto simp: kv_Close_def write_db_def Let_def split: option.splits)

end
