(* ===== verification/SkipList_Life.thy ===== *)
theory SkipList_Life
  imports MemTable
begin

text \<open>
  The destructor of the skip lists (\<^verbatim>\<open>src/mokv/lsm/skiplist.hpp\<close>, \<^verbatim>\<open>skiplist_simple.hpp\<close>): it follows the pointers of level 0 from the head
  and deletes every node.  The address of a node that is deleted leaves the heap; reading or deleting it again would be
  undefined, which is \<open>None\<close>.
\<close>

partial_function (option) free_chain :: "heap \<Rightarrow> nat option \<Rightarrow> heap option" where
  "free_chain h current =
     (case current of
        None \<Rightarrow> Some h
      | Some a \<Rightarrow> do { nx \<leftarrow> next_at h 0 a; free_chain (h(a := None)) nx })"

lemmas free_chain_code [code] = free_chain.simps

definition sl_destroy :: "skiplist \<Rightarrow> heap option" where
  "sl_destroy s = free_chain (sl_heap s) (Some (sl_head s))"

lemma free_chain_simps [simp]:
  "free_chain h None = Some h"
  "free_chain h (Some a) = do { nx \<leftarrow> next_at h 0 a; free_chain (h(a := None)) nx }"
  by (simp add: free_chain.simps [of h None]) (subst free_chain.simps, simp)

lemma height_other: "a \<noteq> b \<Longrightarrow> height (h(b := None)) a = height h a"
  by (simp add: height_def)

lemma linked_free: "b \<notin> set as \<Longrightarrow> linked (h(b := None)) as = linked h as"
  by (rule linked_cong) (auto simp: height_def nxt_def)

lemma free_chain_linked:
  assumes "linked h as" "\<forall>a \<in> set as. 0 < height h a" "distinct as"
  shows "free_chain h (case as of [] \<Rightarrow> None | a # _ \<Rightarrow> Some a) = Some (h |` (- set as))"
  using assms
proof (induction as arbitrary: h)
  case Nil
  then show ?case by (simp add: restrict_map_def fun_eq_iff)
next
  case (Cons a as)
  have "nxt h a 0 = (case as of [] \<Rightarrow> None | b # _ \<Rightarrow> Some b)"
    using Cons.prems by (auto simp: tall_next_def split: list.splits)
  moreover have "free_chain (h(a := None)) (case as of [] \<Rightarrow> None | b # _ \<Rightarrow> Some b) = Some ((h(a := None)) |` (- set as))"
  proof (rule Cons.IH)
    show "linked (h(a := None)) as" "distinct as" using Cons.prems linked_free [of a as h] by simp_all
    show "\<forall>b \<in> set as. 0 < height (h(a := None)) b" using Cons.prems(2,3) height_other [of _ a h] by fastforce
  qed
  moreover have "(h(a := None)) |` (- set as) = h |` (- set (a # as))" by (auto simp: restrict_map_def fun_eq_iff)
  moreover have "next_at h 0 a = Some (nxt h a 0)" using Cons.prems(2) next_at_eq by simp
  ultimately show ?case by simp
qed

text \<open>The destructor returns and no node is left.\<close>

lemma sl_destroy_rep:
  assumes "sl_rep s es"
  shows "sl_destroy s = Some Map.empty"
proof -
  obtain as where r: "rep (sl_heap s) (sl_head s) as" using assms by (rule sl_repE)
  have "free_chain (sl_heap s) (case sl_head s # as of [] \<Rightarrow> None | a # _ \<Rightarrow> Some a) = Some (sl_heap s |` (- set (sl_head s # as)))"
    by (rule free_chain_linked) (use repD [OF r] in auto)
  moreover have "sl_heap s |` (- set (sl_head s # as)) = Map.empty"
    using repD(2) [OF r] by (auto simp: restrict_map_def fun_eq_iff domIff)
  ultimately show ?thesis by (simp add: sl_destroy_def)
qed

text \<open>
  After every sequence of operations on a memtable, its destructor frees exactly the nodes that are allocated: none is
  freed twice, none is read after it was freed, and none is left.
\<close>
theorem memtable_destructor:
  assumes "run_table mt_Put mt_Delete ops (mt_new, c) = Some (m, c')"
  shows "sl_destroy m = Some Map.empty"
proof -
  obtain es where "mt_holds m es" using mt.run_contents [OF mt.contents_empty, of ops c] assms by auto
  then show ?thesis using sl_destroy_rep [of m es] by (simp add: mt_holds_def)
qed

end
