(* ===== verification/Pod_Life.thy ===== *)
theory Pod_Life
  imports Raft_Correct
begin

text \<open>
  The end of a pod (\<^verbatim>\<open>~Pod\<close> in \<^verbatim>\<open>src/mokv/raft/pod.hpp\<close>), the setter for tests, and the handler of \<^verbatim>\<open>src/mokv/raft/service.hpp\<close> that refuses
  its request.
\<close>

text \<open>The destructor ends the election thread, after which no election event happens any more, and then stops every follower thread.\<close>

definition pod_destroy :: "Pod \<Rightarrow> Pod" where
  "pod_destroy p = stop_followers p"

definition SetStateForTesting :: "PodStatus \<Rightarrow> 32 word \<Rightarrow> Pod \<Rightarrow> Pod" where
  "SetStateForTesting status leader_id p = p\<lparr>pd_status := status, pd_leader_id := leader_id\<rparr>"

datatype grpc_status = StatusOK | StatusCancelled

definition service_UpdateConfig :: "Pod \<Rightarrow> grpc_status \<times> Pod" where
  "service_UpdateConfig p = (StatusCancelled, p)"

abbreviation idle_follower :: "FollowerPeer \<Rightarrow> bool" where
  "idle_follower f \<equiv> \<not> fo_running f \<and> \<not> fo_sending f"

lemma stop_follower_peers:
  "pd_followers (stop_follower i p) = (pd_followers p)[i := (pd_followers p ! i)\<lparr>fo_running := False, fo_sending := False\<rparr>]"
  by (simp add: stop_follower_def commit_round_def Let_def)

lemma stop_follower_peer:
  assumes "i < length (pd_followers p)" "j < length (pd_followers p)"
  shows "pd_followers (stop_follower i p) ! j =
    (if j = i then (pd_followers p ! i)\<lparr>fo_running := False, fo_sending := False\<rparr> else pd_followers p ! j)"
  using assms by (auto simp: stop_follower_peers)

lemma stop_all_peers:
  assumes "set is \<subseteq> {..<length (pd_followers p)}" "j < length (pd_followers p)"
  shows "idle_follower (pd_followers (fold stop_follower is p) ! j) \<longleftrightarrow> j \<in> set is \<or> idle_follower (pd_followers p ! j)"
  using assms
proof (induction "is" arbitrary: p)
  case (Cons i "is")
  have "length (pd_followers (stop_follower i p)) = length (pd_followers p)" by (simp add: stop_follower_peers)
  then show ?case using Cons by (auto simp: stop_follower_peer)
qed simp

text \<open>
  When the destructor is done, no follower thread runs; each of them has ended the round it was in, which can only
  have advanced the commit index; the term, the role and the database of the pod are as they were.
\<close>
theorem pod_destructor:
  "list_all idle_follower (pd_followers (pod_destroy p)) \<and> length (pd_followers (pod_destroy p)) = length (pd_followers p) \<and>
   rl_commited (pd_log p) \<le> rl_commited (pd_log (pod_destroy p)) \<and> pd_term (pod_destroy p) = pd_term p \<and>
   pd_status (pod_destroy p) = pd_status p \<and> pd_db (pod_destroy p) = pd_db p"
proof -
  note fields = stop_all_fields [of "[0..<length (pd_followers p)]" p]
  have "idle_follower (pd_followers (pod_destroy p) ! j)" if "j < length (pd_followers p)" for j
    using stop_all_peers [of "[0..<length (pd_followers p)]" p j] that by (simp add: pod_destroy_def stop_followers_def atLeast0LessThan)
  then show ?thesis using fields by (auto simp: pod_destroy_def stop_followers_def list_all_length)
qed

end
