(* ===== verification/Spec2Isabelle.thy ===== *)
theory Spec2Isabelle
  imports Table_Theorems LLM_Theorems Cache_Theorems Raft_Theorems Config_Theorems Object_Theorems
    Batch_Theorems Quorum_Theorems Async_Theorems SimpleSkipList Stack_Theorems
    LLM_Facade CompressedBlock RWLock SST_Handle DList_Life ConcurrentRun KV_Async
    SkipList_Life Pod_Life
begin

text \<open>
  A verification development for mokv, a key-value store: a log-structured storage engine, a store interface with
  application stores on top, and a replication layer.  The model is a shallow embedding: every function of the source
  is a function of HOL, a pointer structure is an explicit heap, a critical section is an atomic step, and an access
  that is undefined in C++ (a dangling pointer, an index out of range, a read past the end of a buffer) is the value
  \<open>None\<close> of an option type, so that a theorem that says that an operation returns excludes it.

  \<^bold>\<open>The parts of the program and their theories\<close>

  \<^item> \<^verbatim>\<open>src/mokv/lsm/skiplist.hpp\<close>, \<^verbatim>\<open>memtable.hpp\<close>: \<open>SkipList\<close> models nodes with their towers of pointers, the search, \<open>sl_Put\<close>,
    \<open>sl_Get\<close>, \<open>sl_Delete\<close> and iteration; \<open>MemTable\<close> wraps them (\<open>mt_Put\<close> and so on) with the level generator of the source.
    \<open>Table_Spec\<close> states as a locale what a sorted table promises; the memtable interprets it.  \<open>SkipList_Life\<close> has the destructor.
  \<^item> \<^verbatim>\<open>src/mokv/utils/codec.hpp\<close>: \<open>Codec\<close> has the escaping, splitting and joining of the text formats and their round trips.
  \<^item> \<^verbatim>\<open>src/mokv/utils/bloom_filter.hpp\<close>, \<^verbatim>\<open>compression.hpp\<close>: \<open>BloomFilter\<close> and \<open>Compression\<close>.  The results of the floating-point
    formulas and the LZ4 library are parameters (\<open>sst_env\<close>), constrained by \<open>bloom_params_ok\<close> and \<open>codec_ok\<close>;
    \<open>Example_Env\<close> has a concrete instance.  \<open>CompressedBlock\<close> has the two classes that hold a block with its compression.
  \<^item> \<^verbatim>\<open>src/mokv/lsm/sst.hpp\<close>: \<open>Bytes\<close> is the memory of a mapped file, \<open>SST\<close> the blocks, indices and lookups, \<open>SST_Build\<close> the
    constructors that write a table file, \<open>SST_Correct\<close> that a written table is read back and searched correctly.  \<open>SST_Handle\<close> extends the
    table object by its descriptor and its mapping, with system calls that may fail.
  \<^item> \<^verbatim>\<open>src/mokv/lsm/manifest.hpp\<close>: \<open>Manifest\<close> has the levels, the lookup through them, the merge and the size-tiered
    compaction, and the file format; \<open>Merge\<close>, \<open>Compaction\<close> and \<open>Manifest_File\<close> prove them.
  \<^item> \<^verbatim>\<open>src/mokv/db.hpp\<close>: \<open>DB\<close> models reads, the sections of a write (\<open>put_mem\<close>, \<open>put_swap\<close>, \<open>put_enqueue\<close>), the flush thread
    (\<open>flush_take\<close>, \<open>ToSST\<close>), opening and the destructor; \<open>db_step\<close> and \<open>db_run\<close> interleave one client with the flush
    thread.  \<open>DB_Correct\<close> has the invariant \<open>db_holds\<close> and its preservation, \<open>DB_Theorems\<close> the properties.
  \<^item> \<^verbatim>\<open>src/mokv/kvstore.hpp\<close>, \<^verbatim>\<open>kvstore.cpp\<close>: \<open>KVStore\<close> models \<^verbatim>\<open>DBKVStore\<close>; \<open>KV_Spec\<close> is the contract of the interface (the
    locale \<open>kv_interface\<close>), interpreted in \<open>KVStore_Correct\<close>; \<open>KV_Theorems\<close>.  \<open>KV_Async\<close> has the asynchronous operations, section by section.
  \<^item> \<^verbatim>\<open>src/mokv/llm/store.hpp\<close>: \<open>LLM_Codec\<close>, \<open>LLM_Keys\<close> and \<open>LLM_Store\<close> model the conversation, prompt cache, retrieval and
    configuration stores over the interface; \<open>LLM_Correct\<close> proves them in a locale that extends the contract, and
    \<open>LLM_Theorems\<close> instantiates it with the store over the database; \<open>LLM_Facade\<close> is the object that combines the four stores.
  \<^item> \<^verbatim>\<open>src/mokv/lsm/block_cache.hpp\<close>: \<open>BlockCache\<close>, with its users in \<^verbatim>\<open>sst.hpp\<close>; \<open>BlockCache_Correct\<close> relates it to an LRU list.
  \<^item> \<^verbatim>\<open>src/mokv/utils/ring_buffer_queue.hpp\<close>, \<^verbatim>\<open>src/mokv/raft/raft_log.hpp\<close>: \<open>RingQueue\<close> and \<open>RaftLog\<close>; \<open>RaftLog_Correct\<close> relates
    the log to a list with a committed and an applied prefix, and the database is a sink of its entries (the locale
    \<open>kv_sink\<close>, interpreted with the model of the database).
  \<^item> \<^verbatim>\<open>src/mokv/raft/pod.hpp\<close>, \<^verbatim>\<open>service.hpp\<close>: \<open>Pod\<close> models the handlers, elections and replication as events of a cluster
    (\<open>raft_step\<close>) with lost calls and replies; \<open>Raft_Correct\<close> and \<open>Raft_Theorems\<close>; \<open>Pod_Life\<close> has the destructor.
  \<^item> \<^verbatim>\<open>src/mokv/config.hpp\<close>, \<^verbatim>\<open>config.cpp\<close>, \<^verbatim>\<open>src/mokv/raft/config.hpp\<close>: \<open>Config\<close> has the two file formats, the printer, the environment
    variables and the validation, \<open>Config_Correct\<close> their lemmas, \<open>Config_Theorems\<close> the properties and the addresses of the pods.
  \<^item> \<^verbatim>\<open>src/mokv/cache\<close>: \<open>DList\<close> is the pointer list of \<^verbatim>\<open>list.hpp\<close>, \<open>DList_Life\<close> its iteration, destructor and move operations, \<open>CMSketch\<close> the counting sketch, \<open>LRUCache\<close> the class
    \<^verbatim>\<open>ConcurrentLRUCache\<close> section by section, \<open>TwoLRU\<close> the window cache and the sharded caches.  \<open>LRU_Correct\<close> has the invariant and the
    abstract list, \<open>Object_Cache\<close> the contract of a cache (the locale \<open>object_cache\<close>, interpreted with the plain and with the window
    cache; the locale \<open>sharded_cache\<close> passes it on to the sharded ones), \<open>Object_Theorems\<close> the properties.
  \<^item> \<^verbatim>\<open>src/mokv/lsm/batch_commit.hpp\<close>: \<open>BatchCommit\<close> and \<open>Batch_Theorems\<close>.  \<^verbatim>\<open>read_quorum.hpp\<close>: \<open>ReadQuorum\<close> and \<open>Quorum_Theorems\<close>.
    \<^verbatim>\<open>async_sst_writer.hpp\<close>, \<^verbatim>\<open>async_sst_writer.cpp\<close>, \<^verbatim>\<open>async_io.hpp\<close>: \<open>AsyncWriter\<close> and \<open>Async_Theorems\<close>.
    \<^verbatim>\<open>skiplist_simple.hpp\<close>: \<open>SimpleSkipList\<close>.
  \<^item> \<^verbatim>\<open>src/mokv/pool/thread_pool.hpp\<close>: \<open>ThreadPool\<close>, a transition system of workers and callers (\<open>pool_step\<close>); \<open>ConcurrentRun\<close>
    adds the futures and a caller that waits for them (\<open>run_step\<close>).  \<^verbatim>\<open>src/mokv/utils/lock.hpp\<close>: \<open>RWLock\<close>, the lock and its guards as a
    transition system (\<open>lock_step\<close>).
  \<^item> \<^verbatim>\<open>src/mokv/db_client.hpp\<close>, \<^verbatim>\<open>src/mokv/raft/client.hpp\<close>: \<open>DB_Client\<close> has the client of a cluster over a network function and the pods
    as such a network (\<open>cluster_net\<close>); \<open>Client_Theorems\<close>.
  \<^item> \<^verbatim>\<open>src/mokv/resource_manager.hpp\<close>: \<open>Resources\<close>.  \<^verbatim>\<open>src/mokv/server.cpp\<close>, \<^verbatim>\<open>src/mokv/client.cpp\<close>: \<open>Server\<close>, the two programs up to their
    system calls.  \<open>Stack_Theorems\<close> composes configuration, server, pod, log, database and client.

  \<^bold>\<open>What is shown\<close>

  \<^item> Storage: under every interleaving within the limits, reads answer like the map of the writes, before and after a
    restart; the writer and the flush thread do not get stuck; compaction, merge, table files, manifest files, the
    Bloom filter and the codecs do what their users need.  The exceptions are stated too: the window in which a
    memtable being flushed is invisible, values equal to the tombstone, the codec that does not restore its input.  Whichever
    system calls fail, a table object gives back what it holds; its constructors are the exception.  The destructor of a
    memtable frees each of its nodes once.
  \<^item> Stores: the interface implements a map with prefix scans, also after a restart, and the application stores keep
    their records apart up to the prefixes of their keys; no store changes an answer of another one.  Asynchronous operations on
    different keys are as good as one after the other; on the same key they can lose an entry of the index.
  \<^item> Caches: the block cache is an LRU list within its limits, unless a block is put again with another size.  The object
    caches are lists with delayed promotion, safe under interleaving but for the put of an rvalue; a sharded cache returns only what
    was put under a key; the sketch does not underestimate.
  \<^item> Around the engine: a transaction reaches the memtable in order, and as a whole unless memory runs out; a quorum read sees every version
    that a write quorum holds, and its retry loop is characterised; the thread pool runs every accepted task once, in order, and
    its destructor ends, as does every caller that waits for futures; the guards of a lock exclude each other, unless one is assigned to while it
    holds the lock; the background writer writes what is queued, but for what its destructor drops; the simple skip list
    agrees with the other one on a single level and leaves its arrays on two.
  \<^item> Replication: the log applies its entries in order and keeps what is committed, a single pod acknowledges what it
    has applied, terms and commit indices grow, votes are given once per term; three executions show where the
    cluster departs from Raft.
  \<^item> Configuration: saving and loading is a round trip, accepted files are valid, and every field stays within its type.
  \<^item> Programs: a server on one node, from its configuration to its database, answers the requests of a client like a map; over a cluster whose pods know the leader, the requests of a client reach it from every pod; the paths of a
    server do not depend on the directory it changes to, and a signal ends it with everything closed.  Two theorems show
    what the client does wrong: it uses a context twice, and it resets the wrong stub.

  \<^bold>\<open>Bounds and fuel\<close>

  Loops over pointers are partial functions into \<open>option\<close> and proved to return.  The loops with fuel are
  \<open>evict_loop\<close> (the length of the list, which each round shortens) and \<open>drain\<close> (the number of committed entries that are
  not applied).  Sizes are natural numbers with the wrap-around of \<^verbatim>\<open>size_t\<close> written out where the source computes
  with numbers it has read, and 64-bit words where counters wrap; the limits (\<open>store_ok\<close>, \<open>fits\<close>, \<open>config_ok\<close>,
  \<open>start_ok\<close>) keep files below the size of an address and table numbers below 31 bits.

  \<^bold>\<open>Not modelled\<close>

  Failing system calls outside of the table files, the memory model below the granularity of critical sections, wall-clock time, and the
  text written to the console.  Of the asynchronous engine of \<^verbatim>\<open>async_io.hpp\<close> the repository has declarations only.
  \<^verbatim>\<open>CreateSnapshot\<close> of \<^verbatim>\<open>read_quorum.hpp\<close> does not compile.  The lock of the system behind \<^verbatim>\<open>lock.hpp\<close> is its documented state; the other
  models take a critical section as one step.  The hash table of the object caches is a library: it is a parameter (\<open>cache_env\<close>)
  with its documented behaviour.  gRPC is a parameter: the calls of a client are a network function, and the start of a server is
  the flag that \<^verbatim>\<open>BuildAndStart\<close> returned a server.
\<close>

section \<open>Properties\<close>

text \<open>
  C3: Starting from an empty memtable, every sequence of \<^verbatim>\<open>Put\<close> and \<^verbatim>\<open>Delete\<close> calls on the pointer
  model of the skip list returns (no dangling pointer, no index out of range, no endless search);
  iteration yields strictly sorted entries, and every lookup answers like the finite map that the
  calls describe.
\<close>
theorem memtable_implements_map:
  "\<exists>m c' es. run_table mt_Put mt_Delete ops (mt_new, c) = Some (m, c') \<and>
     mt_entries m = Some es \<and> sorted_keys es \<and> (\<forall>k. mt_Get m k = Some (map_of es k)) \<and>
     map_of es = fold table_map ops Map.empty"
  by (rule mt.run_from_empty)

end
